(* ===== verification/K2_Prelude.thy ===== *)
theory K2_Prelude
  imports Main "HOL-Library.List_Lexorder" "HOL-Library.Char_ord"
begin

text \<open>
  Prelude: the failures of the program (\<open>src/src/argo_dt/errors.py\<close>) as values, the
  error-or-value combinators that stand for Python's raise, early return and loops over
  fallible bodies, and dictionaries.

  A Python dictionary is an association list in ascending key order. The program never
  lets the insertion order of a dictionary out: every serialisation sorts the keys and every
  listing of keys goes through \<open>sorted\<close>. So one list per dictionary value is enough,
  two equal dictionaries are equal lists, and iteration is iteration over the list.
\<close>

named_theorems result_simps \<open>equations that run the error combinators\<close>
named_theorems dict_simps \<open>lookups and key sets of updated dictionaries\<close>

section \<open>Failures as values\<close>

text \<open>
  The exception classes of \<open>errors.py\<close> with their message, and the Python exceptions the
  modelled code can raise. \<open>OutOfModel\<close> is no exception of the program: it marks the few
  inputs whose value the model's types cannot hold (a non-string member of an id set in a
  foreign snapshot), so that they are neither an answer nor a Python error.
\<close>

datatype error =
    InvariantViolation string
  | ConcurrencyConflict string
  | IntegrityError string
  | PolicyDenied string
  | AuthorizationDenied string
  | BackpressureExceeded string
  | ProtocolViolation string
  | ResumeCursorRejected string
  | MessageTooLarge string
  | NotFound string
  | ValueError string
  | KeyError string
  | TypeError
  | AttributeError
  | OverflowError
  | DatabaseError string
  | OutOfModel

type_synonym 'a result = "error + 'a"

definition bindE :: "'a result \<Rightarrow> ('a \<Rightarrow> 'b result) \<Rightarrow> 'b result" where
  "bindE m f = (case m of Inl e \<Rightarrow> Inl e | Inr x \<Rightarrow> f x)"

lemma bindE_simps [simp, result_simps]:
  "bindE (Inl e) f = Inl e" "bindE (Inr x) f = f x"
  by (simp_all add: bindE_def)

lemma bindE_Inr_iff: "bindE m f = Inr y \<longleftrightarrow> (\<exists>x. m = Inr x \<and> f x = Inr y)"
  by (cases m) simp_all

lemma bindE_Inl_iff: "bindE m f = Inl e \<longleftrightarrow> m = Inl e \<or> (\<exists>x. m = Inr x \<and> f x = Inl e)"
  by (cases m) simp_all

lemma bindE_InrE:
  assumes "bindE m f = Inr y"
  obtains x where "m = Inr x" "f x = Inr y"
  using assms by (auto simp: bindE_Inr_iff)

lemma bindE_cong [fundef_cong]:
  "m = m' \<Longrightarrow> (\<And>x. m' = Inr x \<Longrightarrow> f x = g x) \<Longrightarrow> bindE m f = bindE m' g"
  by (cases m') simp_all

text \<open>A successful result and its value.\<close>

fun ok :: "'a result \<Rightarrow> bool" where
  "ok (Inr _) = True"
| "ok (Inl _) = False"

lemma ok_iff: "ok r \<longleftrightarrow> (\<exists>x. r = Inr x)"
  by (cases r) simp_all

text \<open>Comprehensions and loops whose body can raise: the first error ends them.\<close>

fun mapE :: "('a \<Rightarrow> 'b result) \<Rightarrow> 'a list \<Rightarrow> 'b list result" where
  "mapE f [] = Inr []"
| "mapE f (x # xs) = bindE (f x) (\<lambda>y. bindE (mapE f xs) (\<lambda>ys. Inr (y # ys)))"

fun foldE :: "('s \<Rightarrow> 'a \<Rightarrow> 's result) \<Rightarrow> 's \<Rightarrow> 'a list \<Rightarrow> 's result" where
  "foldE f s [] = Inr s"
| "foldE f s (x # xs) = bindE (f s x) (\<lambda>s'. foldE f s' xs)"

text \<open>\<open>any(p(x) for x in xs)\<close>: stops at the first true element, or the first error.\<close>

fun anyE :: "('a \<Rightarrow> bool result) \<Rightarrow> 'a list \<Rightarrow> bool result" where
  "anyE p [] = Inr False"
| "anyE p (x # xs) = bindE (p x) (\<lambda>b. if b then Inr True else anyE p xs)"

lemma mapE_cong [fundef_cong]:
  "xs = ys \<Longrightarrow> (\<And>x. x \<in> set ys \<Longrightarrow> f x = g x) \<Longrightarrow> mapE f xs = mapE g ys"
proof (induction xs arbitrary: ys)
  case (Cons x xs)
  then show ?case by (cases ys) (auto intro!: bindE_cong)
qed simp

lemma mapE_Inr_map: "(\<And>x. x \<in> set xs \<Longrightarrow> f x = Inr (g x)) \<Longrightarrow> mapE f xs = Inr (map g xs)"
  by (induction xs) auto

lemma mapE_Inr_iff: "mapE f xs = Inr ys \<longleftrightarrow> list_all2 (\<lambda>x y. f x = Inr y) xs ys"
  by (induction xs arbitrary: ys) (auto simp: bindE_Inr_iff list_all2_Cons1)

lemma foldE_append: "foldE f s (xs @ ys) = bindE (foldE f s xs) (\<lambda>s'. foldE f s' ys)"
  by (induction xs arbitrary: s) (auto simp: bindE_def split: sum.splits)

lemma foldE_invariant:
  assumes "foldE f s xs = Inr s'" "P s"
    and "\<And>s x t. x \<in> set xs \<Longrightarrow> P s \<Longrightarrow> f s x = Inr t \<Longrightarrow> P t"
  shows "P s'"
  using assms by (induction xs arbitrary: s) (auto simp: bindE_Inr_iff)

lemma anyE_Inr_ex:
  "(\<And>x. x \<in> set xs \<Longrightarrow> p x = Inr (q x)) \<Longrightarrow> anyE p xs = Inr (\<exists>x\<in>set xs. q x)"
  by (induction xs) auto

lemma anyE_Inr_False: "anyE p xs = Inr False \<Longrightarrow> x \<in> set xs \<Longrightarrow> p x = Inr False"
  by (induction xs) (auto simp: bindE_Inr_iff split: if_splits)

lemma anyE_Inr_True: "anyE p xs = Inr True \<Longrightarrow> \<exists>x\<in>set xs. p x = Inr True"
  by (induction xs) (auto simp: bindE_Inr_iff split: if_splits)

section \<open>Dictionaries\<close>

type_synonym 'v dict = "(string \<times> 'v) list"

abbreviation dict_get :: "('k \<times> 'v) list \<Rightarrow> 'k \<Rightarrow> 'v option" where
  "dict_get d k \<equiv> map_of d k"

abbreviation dict_keys :: "('k \<times> 'v) list \<Rightarrow> 'k list" where
  "dict_keys d \<equiv> map fst d"

definition dict_has :: "('k \<times> 'v) list \<Rightarrow> 'k \<Rightarrow> bool" where
  "dict_has d k \<longleftrightarrow> map_of d k \<noteq> None"

fun dict_set :: "'k::linorder \<Rightarrow> 'v \<Rightarrow> ('k \<times> 'v) list \<Rightarrow> ('k \<times> 'v) list" where
  "dict_set k v [] = [(k, v)]"
| "dict_set k v ((a, b) # d) =
     (if k < a then (k, v) # (a, b) # d
      else if k = a then (k, v) # d
      else (a, b) # dict_set k v d)"

fun dict_pop :: "'k \<Rightarrow> ('k \<times> 'v) list \<Rightarrow> ('k \<times> 'v) list" where
  "dict_pop k [] = []"
| "dict_pop k ((a, b) # d) = (if k = a then dict_pop k d else (a, b) # dict_pop k d)"

definition dict_filter :: "('v \<Rightarrow> bool) \<Rightarrow> ('k \<times> 'v) list \<Rightarrow> ('k \<times> 'v) list" where
  "dict_filter p d = filter (\<lambda>kv. p (snd kv)) d"

text \<open>A dictionary display or comprehension: later pairs replace earlier ones.\<close>

definition dict_of :: "('k::linorder \<times> 'v) list \<Rightarrow> ('k \<times> 'v) list" where
  "dict_of kvs = fold (\<lambda>kv d. dict_set (fst kv) (snd kv) d) kvs []"

definition wf_dict :: "('k::linorder \<times> 'v) list \<Rightarrow> bool" where
  "wf_dict d \<longleftrightarrow> sorted_wrt (<) (map fst d)"

lemma wf_dict_Nil [simp]: "wf_dict []"
  by (simp add: wf_dict_def)

lemma wf_dict_Cons [simp]:
  "wf_dict ((k, v) # d) \<longleftrightarrow> (\<forall>a\<in>set (map fst d). k < a) \<and> wf_dict d"
  by (auto simp: wf_dict_def)

lemma wf_dict_distinct: "wf_dict d \<Longrightarrow> distinct (map fst d)"
  by (simp add: wf_dict_def strict_sorted_iff)

lemma wf_dict_sorted: "wf_dict d \<Longrightarrow> sorted (map fst d)"
  by (simp add: wf_dict_def strict_sorted_iff)

lemma map_of_dict_set [simp, dict_simps]: "map_of (dict_set k v d) = (map_of d)(k \<mapsto> v)"
  by (induction k v d rule: dict_set.induct) auto

lemma map_of_dict_pop [simp, dict_simps]: "map_of (dict_pop k d) = (map_of d)(k := None)"
  by (induction k d rule: dict_pop.induct) auto

lemma fst_dict_set: "set (map fst (dict_set k v d)) = insert k (set (map fst d))"
  by (induction k v d rule: dict_set.induct) auto

lemma fst_dict_pop: "set (map fst (dict_pop k d)) = set (map fst d) - {k}"
  by (induction k d rule: dict_pop.induct) auto

lemma set_dict_pop: "set (dict_pop k d) \<subseteq> set d"
  by (induction k d rule: dict_pop.induct) auto

lemma wf_dict_set [simp, intro]: "wf_dict d \<Longrightarrow> wf_dict (dict_set k v d)"
proof (induction k v d rule: dict_set.induct)
  case (2 k v a b d)
  then show ?case
    by (auto simp: fst_dict_set[unfolded set_map] intro: less_trans)
qed simp

lemma dict_pop_filter: "dict_pop k d = filter (\<lambda>kv. fst kv \<noteq> k) d"
  by (induction k d rule: dict_pop.induct) auto

lemma wf_dict_filter [simp, intro]: "wf_dict d \<Longrightarrow> wf_dict (filter p d)"
  by (induction d) auto

lemma wf_dict_pop [simp, intro]: "wf_dict d \<Longrightarrow> wf_dict (dict_pop k d)"
  by (simp add: dict_pop_filter)

lemma map_of_filter_None:
  "distinct (map fst d) \<Longrightarrow>
   map_of (filter (\<lambda>kv. p (snd kv)) d) k =
   (case map_of d k of Some v \<Rightarrow> if p v then Some v else None | None \<Rightarrow> None)"
proof (induction d)
  case (Cons kv d)
  then show ?case
    by (cases kv) (force split: option.splits dest: map_of_SomeD simp: rev_image_eqI)
qed simp

lemma dict_has_dom: "dict_has d k \<longleftrightarrow> k \<in> dom (map_of d)"
  by (simp add: dict_has_def domIff)

lemma dict_has_set [simp, dict_simps]: "dict_has (dict_set k v d) x \<longleftrightarrow> x = k \<or> dict_has d x"
  by (simp add: dict_has_def)

lemma dict_has_pop [simp, dict_simps]: "dict_has (dict_pop k d) x \<longleftrightarrow> x \<noteq> k \<and> dict_has d x"
  by (simp add: dict_has_def)

lemma dict_has_Nil [simp]: "\<not> dict_has [] k"
  by (simp add: dict_has_def)

lemma dict_has_keys: "dict_has d k \<longleftrightarrow> k \<in> fst ` set d"
  by (simp add: dict_has_dom dom_map_of_conv_image_fst)

lemma dict_has_filter:
  "wf_dict d \<Longrightarrow> dict_has (dict_filter p d) k \<longleftrightarrow> (\<exists>v. map_of d k = Some v \<and> p v)"
  by (cases "map_of d k") (simp_all add: dict_has_def dict_filter_def map_of_filter_None wf_dict_distinct)

lemma map_of_dict_filter:
  "wf_dict d \<Longrightarrow>
   map_of (dict_filter p d) k =
   (case map_of d k of Some v \<Rightarrow> if p v then Some v else None | None \<Rightarrow> None)"
  by (simp add: dict_filter_def map_of_filter_None wf_dict_distinct)

text \<open>Dictionaries with the same content are the same list.\<close>

lemma dict_rebuild: "distinct (map fst d) \<Longrightarrow> map (\<lambda>k. (k, the (map_of d k))) (map fst d) = d"
  by (auto intro!: map_idI)

lemma wf_dict_eqI:
  assumes "wf_dict d" "wf_dict e" "map_of d = map_of e"
  shows "d = e"
proof -
  have "set (map fst d) = set (map fst e)"
    using assms(3) by (metis dom_map_of_conv_image_fst set_map)
  then have "map fst d = map fst e"
    using assms(1,2) by (intro sorted_distinct_set_unique wf_dict_sorted wf_dict_distinct)
  then show ?thesis
    using assms dict_rebuild[of d] dict_rebuild[of e] by (metis wf_dict_distinct)
qed

lemma dict_set_absorb [simp]: "dict_set k w (dict_set k v d) = dict_set k w d"
  by (induction k v d rule: dict_set.induct) auto

lemma dict_set_commute: "k \<noteq> l \<Longrightarrow> dict_set k v (dict_set l w d) = dict_set l w (dict_set k v d)"
proof (induction d)
  case (Cons p d)
  then show ?case by (cases p) auto
qed auto

lemma wf_dict_of_aux: "wf_dict d \<Longrightarrow> wf_dict (fold (\<lambda>kv d. dict_set (fst kv) (snd kv) d) kvs d)"
  by (induction kvs arbitrary: d) auto

lemma wf_dict_of [simp, intro]: "wf_dict (dict_of kvs)"
  by (simp add: dict_of_def wf_dict_of_aux)

lemma map_of_dict_of_aux:
  "map_of (fold (\<lambda>kv d. dict_set (fst kv) (snd kv) d) kvs d) = map_of d ++ map_of (rev kvs)"
  by (induction kvs arbitrary: d) (auto simp: fun_eq_iff map_add_def split: option.splits)

lemma map_of_dict_of [dict_simps]: "map_of (dict_of kvs) = map_of (rev kvs)"
  by (simp add: dict_of_def map_of_dict_of_aux)

lemma map_of_rev_distinct: "distinct (map fst kvs) \<Longrightarrow> map_of (rev kvs) = map_of kvs"
  by (rule map_of_eqI) (auto simp: rev_map[symmetric] simp del: rev_map)

text \<open>
  A dictionary written by its items is independent of the order of the items, and writing a
  dictionary's own items gives the dictionary back.
\<close>

lemma dict_of_perm:
  assumes "distinct (map fst kvs)" "set kvs = set kvs'" "distinct (map fst kvs')"
  shows "dict_of kvs = dict_of kvs'"
  using assms
  by (intro wf_dict_eqI) (auto simp: map_of_dict_of map_of_rev_distinct map_of_inject_set)

lemma dict_of_wf [simp]: "wf_dict d \<Longrightarrow> dict_of d = d"
  by (intro wf_dict_eqI) (auto simp: map_of_dict_of map_of_rev_distinct wf_dict_distinct)

section \<open>Lists and sets of identifiers\<close>

lemma sorted_list_of_set_insert_eq:
  "finite A \<Longrightarrow> set (sorted_list_of_set A) = A"
  by simp

lemma set_of_sorted_list [simp]: "finite A \<Longrightarrow> set (sorted_list_of_set A) = A"
  by simp

lemma list_all2_same_map: "list_all2 (\<lambda>x y. y = f x) xs ys \<longleftrightarrow> ys = map f xs"
  by (induction xs arbitrary: ys) (auto simp: list_all2_Cons1)

end
