(* ===== verification/K2_Time.thy ===== *)
theory K2_Time
  imports K2_Text
begin

text \<open>
  Python's \<open>datetime\<close> as the program uses it: comparison, \<open>astimezone(UTC)\<close>,
  \<open>isoformat\<close>, \<open>fromisoformat\<close>, and \<open>types.parse_time\<close> on top of them.

  A \<open>datetime\<close> is its wall-clock reading, in microseconds since 0001-01-01T00:00:00, and
  its UTC offset in microseconds, \<open>None\<close> for a naive one. \<open>isoformat\<close> is written out
  digit by digit. \<open>fromisoformat\<close> reads the extended calendar form
  \<open>YYYY-MM-DD\<close>, optionally followed by a separator character, \<open>HH:MM[:SS[.f+]]\<close> and an
  offset \<open>+HH:MM[:SS[.f+]]\<close>; the basic (separator-free), week-date and hour-only forms of
  Python 3.11 are not read (\<open>None\<close>, a ValueError).
\<close>

datatype datetime = DT (dt_local: int) (dt_off: "int option")

abbreviation day_us :: int where "day_us \<equiv> 86400000000"
abbreviation hour_us :: int where "hour_us \<equiv> 3600000000"
abbreviation minute_us :: int where "minute_us \<equiv> 60000000"
abbreviation second_us :: int where "second_us \<equiv> 1000000"

text \<open>\<open>dt.tzinfo is None\<close>\<close>

definition naive :: "datetime \<Rightarrow> bool" where
  "naive t \<longleftrightarrow> dt_off t = None"

text \<open>The instant of an aware datetime, in microseconds of UTC; a naive one has its reading.\<close>

definition instant :: "datetime \<Rightarrow> int" where
  "instant t = dt_local t - (case dt_off t of None \<Rightarrow> 0 | Some o' \<Rightarrow> o')"

definition utc :: "int \<Rightarrow> datetime" where
  "utc n = DT n (Some 0)"

definition astimezone_utc :: "datetime \<Rightarrow> datetime" where
  "astimezone_utc t = utc (instant t)"

lemma instant_utc [simp]: "instant (utc n) = n"
  by (simp add: instant_def utc_def)

lemma naive_utc [simp]: "\<not> naive (utc n)"
  by (simp add: naive_def utc_def)

lemma astimezone_utc_simps [simp]:
  "instant (astimezone_utc t) = instant t" "\<not> naive (astimezone_utc t)"
  "astimezone_utc (astimezone_utc t) = astimezone_utc t"
  by (simp_all add: astimezone_utc_def)

text \<open>
  \<open>a < b\<close> raises TypeError between a naive and an aware datetime; \<open>a == b\<close> is False there.
\<close>

definition dt_less :: "datetime \<Rightarrow> datetime \<Rightarrow> bool result" where
  "dt_less a b = (if naive a \<noteq> naive b then Inl TypeError else Inr (instant a < instant b))"

definition dt_eq :: "datetime \<Rightarrow> datetime \<Rightarrow> bool" where
  "dt_eq a b \<longleftrightarrow> naive a = naive b \<and> instant a = instant b"

lemma dt_less_aware [simp]: "\<not> naive a \<Longrightarrow> \<not> naive b \<Longrightarrow> dt_less a b = Inr (instant a < instant b)"
  by (simp add: dt_less_def)

section \<open>The proleptic Gregorian calendar\<close>

definition leap_year :: "int \<Rightarrow> bool" where
  "leap_year y \<longleftrightarrow> y mod 4 = 0 \<and> (y mod 100 \<noteq> 0 \<or> y mod 400 = 0)"

definition month_lengths :: "int \<Rightarrow> int list" where
  "month_lengths y = [31, if leap_year y then 29 else 28, 31, 30, 31, 30, 31, 31, 30, 31, 30, 31]"

definition days_before_year :: "int \<Rightarrow> int" where
  "days_before_year y = (let p = y - 1 in 365 * p + p div 4 - p div 100 + p div 400)"

definition days_of_ymd :: "int \<Rightarrow> int \<Rightarrow> int \<Rightarrow> int" where
  "days_of_ymd y m d = days_before_year y + sum_list (take (nat (m - 1)) (month_lengths y)) + (d - 1)"

text \<open>The month and day of a day of the year, by walking the month lengths.\<close>

fun month_day :: "int list \<Rightarrow> int \<Rightarrow> int \<Rightarrow> int \<times> int" where
  "month_day [] m r = (m, r + 1)"
| "month_day (l # ls) m r = (if r < l then (m, r + 1) else month_day ls (m + 1) (r - l))"

text \<open>CPython's \<open>_ord2ymd\<close>: cycles of 400, 100, 4 and 1 years.\<close>

definition ymd_of_days :: "int \<Rightarrow> int \<times> int \<times> int" where
  "ymd_of_days n =
     (let a = n div 146097; r = n mod 146097;
          b = r div 36524; r2 = r mod 36524;
          c = r2 div 1461; r3 = r2 mod 1461;
          e = r3 div 365; r4 = r3 mod 365;
          y = 400 * a + 100 * b + 4 * c + e
      in if e = 4 \<or> b = 4 then (y, 12, 31)
         else (y + 1, month_day (month_lengths (y + 1)) 1 r4))"

lemma days_before_year_cycle:
  assumes "0 \<le> b" "b \<le> 3" "0 \<le> c" "c \<le> 24" "0 \<le> e" "e \<le> 3"
  shows "days_before_year (400 * a + 100 * b + 4 * c + e + 1) = 146097 * a + 36524 * b + 1461 * c + 365 * e"
proof -
  let ?p = "400 * a + 100 * b + 4 * c + e"
  have "?p div 4 = 100 * a + 25 * b + c"
    by (rule int_div_pos_eq [where r = e]) (use assms in simp_all)
  moreover have "?p div 100 = 4 * a + b"
    by (rule int_div_pos_eq [where r = "4 * c + e"]) (use assms in simp_all)
  moreover have "?p div 400 = a"
    by (rule int_div_pos_eq [where r = "100 * b + 4 * c + e"]) (use assms in simp_all)
  ultimately show ?thesis by (simp add: days_before_year_def)
qed

lemma month_day_sum:
  assumes "month_day ls m r = (m', d')" "0 \<le> r" "r < sum_list ls" "list_all (\<lambda>l. 0 \<le> l) ls"
  shows "m \<le> m' \<and> m' < m + int (length ls) \<and> sum_list (take (nat (m' - m)) ls) + (d' - 1) = r
       \<and> 1 \<le> d' \<and> d' \<le> ls ! nat (m' - m)"
  using assms
proof (induction ls m r rule: month_day.induct)
  case (2 l ls m r)
  show ?case
  proof (cases "r < l")
    case True
    with 2 show ?thesis by auto
  next
    case False
    with 2 have ih: "m + 1 \<le> m'" "m' < m + 1 + int (length ls)"
      "sum_list (take (nat (m' - (m + 1))) ls) + (d' - 1) = r - l" "1 \<le> d'"
      "d' \<le> ls ! nat (m' - (m + 1))"
      by auto
    have "nat (m' - m) = Suc (nat (m' - (m + 1)))" using ih(1) by simp
    with ih show ?thesis by simp
  qed
qed simp

lemma sum_month_lengths: "sum_list (month_lengths y) = (if leap_year y then 366 else 365)"
  by (simp add: month_lengths_def)

lemma month_lengths_pos: "list_all (\<lambda>l. 0 \<le> l) (month_lengths y)"
  by (simp add: month_lengths_def)

text \<open>
  The calendar date of a day number is a valid date of that day: the conversion loses nothing.
\<close>

lemma ymd_of_days_correct:
  assumes "ymd_of_days n = (y, m, d)"
  shows "days_of_ymd y m d = n \<and> 1 \<le> m \<and> m \<le> 12 \<and> 1 \<le> d \<and> d \<le> month_lengths y ! nat (m - 1)"
proof -
  define a where "a = n div 146097"
  define r where "r = n mod 146097"
  define b where "b = r div 36524"
  define r2 where "r2 = r mod 36524"
  define c where "c = r2 div 1461"
  define r3 where "r3 = r2 mod 1461"
  define e where "e = r3 div 365"
  define r4 where "r4 = r3 mod 365"
  define y0 where "y0 = 400 * a + 100 * b + 4 * c + e"
  note defs = a_def r_def b_def r2_def c_def r3_def e_def r4_def
  have split: "n = 146097 * a + r" "r = 36524 * b + r2" "r2 = 1461 * c + r3" "r3 = 365 * e + r4"
    unfolding defs by simp_all
  have r: "0 \<le> r" "r < 146097" "0 \<le> r2" "r2 < 36524" "0 \<le> r3" "r3 < 1461" "0 \<le> r4" "r4 < 365"
    unfolding defs by simp_all
  have b: "0 \<le> b" "b \<le> 4" and c: "0 \<le> c" "c \<le> 24" and e: "0 \<le> e" "e \<le> 4"
    using r split by linarith+
  have n: "n = 146097 * a + 36524 * b + 1461 * c + 365 * e + r4"
    using split by simp
  have b4: "c = 0 \<and> e = 0 \<and> r4 = 0" if "b = 4"
    using that r split c e by auto
  have e4: "r4 = 0 \<and> c \<le> 23" if "e = 4"
    using that r split by auto
  have ymd: "ymd_of_days n = (if e = 4 \<or> b = 4 then (y0, 12, 31)
      else (y0 + 1, month_day (month_lengths (y0 + 1)) 1 r4))"
    by (simp add: ymd_of_days_def Let_def y0_def defs)
  show ?thesis
  proof (cases "e = 4 \<or> b = 4")
    case True
    then have out: "y = y0" "m = 12" "d = 31" using assms ymd by auto
    have leap: "leap_year y0"
    proof (cases "b = 4")
      case True
      with b4 have "y0 = 400 * (a + 1)" by (simp add: y0_def)
      then show ?thesis by (simp add: leap_year_def)
    next
      case False
      with True have e: "e = 4" by simp
      with e4 have y0: "y0 = 4 * (100 * a + 25 * b + (c + 1))" by (simp add: y0_def)
      have "y0 mod 100 = 4 * (c + 1)"
        by (rule int_mod_pos_eq [where q = "4 * a + b"]) (use y0 c e4 e in simp_all)
      with y0 c show ?thesis by (simp add: leap_year_def)
    qed
    have "days_before_year y0 = n - 365"
    proof (cases "b = 4")
      case True
      with b4 have z: "c = 0" "e = 0" "r4 = 0" by auto
      have "y0 = 400 * a + 100 * 3 + 4 * 24 + 3 + 1" using True z by (simp add: y0_def)
      then have "days_before_year y0 = 146097 * a + 36524 * 3 + 1461 * 24 + 365 * 3"
        using days_before_year_cycle[of 3 24 3 a] by simp
      with n True z show ?thesis by simp
    next
      case False
      with True have e': "e = 4" by simp
      with e4 have z: "r4 = 0" by simp
      have "y0 = 400 * a + 100 * b + 4 * c + 3 + 1" using e' by (simp add: y0_def)
      then have "days_before_year y0 = 146097 * a + 36524 * b + 1461 * c + 365 * 3"
        using days_before_year_cycle[of b c 3 a] b c False by simp
      with n e' z show ?thesis by simp
    qed
    with out leap show ?thesis
      by (simp add: days_of_ymd_def month_lengths_def)
  next
    case False
    with b e have be: "b \<le> 3" "e \<le> 3" by auto
    from False assms ymd have out: "y = y0 + 1" "month_day (month_lengths (y0 + 1)) 1 r4 = (m, d)" by auto
    have "r4 < sum_list (month_lengths (y0 + 1))" using r by (simp add: sum_month_lengths)
    from month_day_sum[OF out(2) r(7) this month_lengths_pos]
    have md: "1 \<le> m" "m < 13" "sum_list (take (nat (m - 1)) (month_lengths (y0 + 1))) + (d - 1) = r4"
      "1 \<le> d" "d \<le> month_lengths (y0 + 1) ! nat (m - 1)"
      by (simp_all add: month_lengths_def)
    have "days_before_year (y0 + 1) = n - r4"
      unfolding y0_def using days_before_year_cycle[of b c e a] b c e be n by simp
    with md out show ?thesis by (simp add: days_of_ymd_def)
  qed
qed

section \<open>isoformat\<close>

definition date_text :: "int \<Rightarrow> string" where
  "date_text n =
     (let (y, m, d) = ymd_of_days n
      in pad 4 (nat y) @ ''-'' @ pad 2 (nat m) @ ''-'' @ pad 2 (nat d))"

text \<open>\<open>HH:MM:SS\<close> and, unless it is zero, the fraction \<open>.ffffff\<close>.\<close>

definition seconds_text :: "int \<Rightarrow> string" where
  "seconds_text s =
     pad 2 (nat (s div 3600)) @ '':'' @ pad 2 (nat (s div 60 mod 60)) @ '':'' @ pad 2 (nat (s mod 60))"

definition fraction_text :: "int \<Rightarrow> string" where
  "fraction_text f = (if f = 0 then [] else ''.'' @ pad 6 (nat f))"

text \<open>The offset: \<open>+HH:MM\<close>, with seconds and microseconds only where they are not zero.\<close>

definition offset_text :: "int \<Rightarrow> string" where
  "offset_text u =
     (let a = \<bar>u\<bar>; s = a div second_us; f = a mod second_us
      in (if u < 0 then ''-'' else ''+'')
         @ pad 2 (nat (s div 3600)) @ '':'' @ pad 2 (nat (s div 60 mod 60))
         @ (if s mod 60 = 0 \<and> f = 0 then []
            else '':'' @ pad 2 (nat (s mod 60)) @ fraction_text f))"

definition iso_with :: "string \<Rightarrow> datetime \<Rightarrow> string" where
  "iso_with sep t =
     (let n = dt_local t; r = n mod day_us
      in date_text (n div day_us) @ sep @ seconds_text (r div second_us)
         @ fraction_text (r mod second_us)
         @ (case dt_off t of None \<Rightarrow> [] | Some u \<Rightarrow> offset_text u))"

definition isoformat :: "datetime \<Rightarrow> string" where
  "isoformat t = iso_with ''T'' t"

text \<open>\<open>value.astimezone(UTC).isoformat().replace("+00:00", "Z")\<close> (\<open>types.to_primitive\<close>).\<close>

definition iso_z :: "datetime \<Rightarrow> string" where
  "iso_z t =
     (let s = isoformat (astimezone_utc t) in take (length s - 6) s @ ''Z'')"

section \<open>fromisoformat\<close>

definition digits_only :: "string \<Rightarrow> bool" where
  "digits_only s \<longleftrightarrow> s \<noteq> [] \<and> list_all is_digit s"

definition parse_date :: "string \<Rightarrow> int option" where
  "parse_date s =
     (if length s = 10 \<and> s ! 4 = CHR ''-'' \<and> s ! 7 = CHR ''-''
         \<and> digits_only (take 4 s) \<and> digits_only (take 2 (drop 5 s)) \<and> digits_only (drop 8 s)
      then let y = int (digits_value (take 4 s));
               m = int (digits_value (take 2 (drop 5 s)));
               d = int (digits_value (drop 8 s))
           in if 1 \<le> y \<and> 1 \<le> m \<and> m \<le> 12 \<and> 1 \<le> d \<and> d \<le> month_lengths y ! nat (m - 1)
              then Some (days_of_ymd y m d) else None
      else None)"

text \<open>Digits of a fraction after the sixth are dropped; missing ones are zero.\<close>

definition fraction_value :: "string \<Rightarrow> int" where
  "fraction_value s = int (digits_value (take 6 s)) * 10 ^ (6 - length (take 6 s))"

definition parse_hms :: "string \<Rightarrow> int option" where
  "parse_hms s =
     (if 5 \<le> length s \<and> digits_only (take 2 s) \<and> s ! 2 = CHR '':'' \<and> digits_only (take 2 (drop 3 s))
      then let h = int (digits_value (take 2 s)); m = int (digits_value (take 2 (drop 3 s)))
           in if h < 24 \<and> m < 60
              then if length s = 5 then Some (h * hour_us + m * minute_us)
                   else if 8 \<le> length s \<and> s ! 5 = CHR '':'' \<and> digits_only (take 2 (drop 6 s))
                        then let x = int (digits_value (take 2 (drop 6 s)))
                             in if x < 60
                                then if length s = 8 then Some (h * hour_us + m * minute_us + x * second_us)
                                     else if s ! 8 \<in> {CHR ''.'', CHR '',''} \<and> digits_only (drop 9 s)
                                          then Some (h * hour_us + m * minute_us + x * second_us
                                                 + fraction_value (drop 9 s))
                                          else None
                                else None
                        else None
              else None
      else None)"

definition parse_offset :: "string \<Rightarrow> int option option" where
  "parse_offset s =
     (case s of
        [] \<Rightarrow> Some None
      | c # r \<Rightarrow>
          if c = CHR ''Z'' then (if r = [] then Some (Some 0) else None)
          else if c = CHR ''+'' then map_option Some (parse_hms r)
          else if c = CHR ''-'' then map_option (\<lambda>u. Some (- u)) (parse_hms r)
          else None)"

definition is_tz_start :: "char \<Rightarrow> bool" where
  "is_tz_start c \<longleftrightarrow> c \<in> {CHR ''+'', CHR ''-'', CHR ''Z''}"

definition fromisoformat :: "string \<Rightarrow> datetime option" where
  "fromisoformat s =
     (case parse_date (take 10 s) of
        None \<Rightarrow> None
      | Some n \<Rightarrow>
          if length s = 10 then Some (DT (n * day_us) None)
          else (let r = drop 11 s;
                    hms = takeWhile (\<lambda>c. \<not> is_tz_start c) r;
                    tz = dropWhile (\<lambda>c. \<not> is_tz_start c) r
                in case (parse_hms hms, parse_offset tz) of
                     (Some u, Some off) \<Rightarrow> Some (DT (n * day_us + u) off)
                   | _ \<Rightarrow> None))"

text \<open>\<open>types.parse_time\<close>: \<open>Z\<close> reads as \<open>+00:00\<close>, an offset is required, the result is in UTC.\<close>

definition parse_time :: "string \<Rightarrow> datetime result" where
  "parse_time value =
     (case fromisoformat (concat (map (\<lambda>c. if c = CHR ''Z'' then ''+00:00'' else [c]) value)) of
        None \<Rightarrow> Inl (ValueError ''Invalid isoformat string'')
      | Some parsed \<Rightarrow>
          if naive parsed then Inl (InvariantViolation ''timestamps must include an offset'')
          else Inr (astimezone_utc parsed))"

text \<open>The range of Python's datetimes: years 1 to 9999, offsets of less than a day.\<close>

definition valid_dt :: "datetime \<Rightarrow> bool" where
  "valid_dt t \<longleftrightarrow>
     0 \<le> dt_local t \<and> dt_local t < 3652059 * day_us
     \<and> (case dt_off t of None \<Rightarrow> True | Some u \<Rightarrow> \<bar>u\<bar> < day_us)"

section \<open>Reading back what isoformat wrote\<close>

lemma digits_only_pad [simp]: "digits_only (pad w n) \<longleftrightarrow> w \<noteq> 0"
proof -
  have "list_all is_digit (pad w n)" by (induction w arbitrary: n) auto
  then show ?thesis by (cases w) (auto simp: digits_only_def)
qed

lemma div_step:
  fixes y k :: int
  assumes "0 < k"
  shows "y div k = (y - 1) div k + (if k dvd y then 1 else 0)"
proof -
  have y: "y = k * (y div k) + y mod k" by simp
  have r: "0 \<le> y mod k" "y mod k < k" using assms by simp_all
  show ?thesis
  proof (cases "y mod k = 0")
    case True
    then have "y - 1 = k * (y div k - 1) + (k - 1)"
      using y by (simp add: right_diff_distrib)
    then have "(y - 1) div k = y div k - 1"
      by (rule int_div_pos_eq) (use assms in simp_all)
    with True show ?thesis by (simp add: dvd_eq_mod_eq_0)
  next
    case False
    have "y - 1 = k * (y div k) + (y mod k - 1)" using y by simp
    then have "(y - 1) div k = y div k"
      by (rule int_div_pos_eq) (use False r in simp_all)
    with False show ?thesis by (simp add: dvd_eq_mod_eq_0)
  qed
qed

lemma leap_count:
  assumes "b \<Longrightarrow> a" "c \<Longrightarrow> b"
  shows "(if a \<and> (\<not> b \<or> c) then 1 else 0) = (if a then 1 else 0) - (if b then 1 else 0) + (if c then 1 else (0::int))"
  using assms by (cases a; cases b; cases c) simp_all

lemma year_sum_step:
  fixes y l :: int
  assumes "A = A' + i" "B = B' + j" "C = C' + k" "l = i - j + k"
  shows "365 * y + A - B + C = 365 * (y - 1) + A' - B' + C' + (365 + l)"
  using assms by simp

lemma days_before_year_Suc:
  "days_before_year (y + 1) = days_before_year y + (if leap_year y then 366 else 365)"
proof -
  have "4 dvd y" if "100 dvd y" using that by (rule dvd_trans [rotated]) simp
  moreover have "100 dvd y" if "400 dvd y" using that by (rule dvd_trans [rotated]) simp
  ultimately have leap: "(if leap_year y then 1 else 0) =
      (if 4 dvd y then 1 else 0) - (if 100 dvd y then 1 else 0) + (if 400 dvd y then 1 else (0::int))"
    unfolding leap_year_def mod_eq_0_iff_dvd by (rule leap_count)
  have "365 * y + y div 4 - y div 100 + y div 400
      = 365 * (y - 1) + (y - 1) div 4 - (y - 1) div 100 + (y - 1) div 400
        + (365 + (if leap_year y then 1 else 0))"
    by (rule year_sum_step [OF div_step div_step div_step leap]) simp_all
  moreover have "365 + (if leap_year y then 1 else 0) = (if leap_year y then 366 else (365::int))"
    by simp
  ultimately show ?thesis
    by (simp only: days_before_year_def Let_def add_diff_cancel_right')
qed

lemma days_before_year_mono: "x \<le> y \<Longrightarrow> days_before_year x \<le> days_before_year y"
proof (induction y rule: int_ge_induct)
  case (step i)
  then show ?case using days_before_year_Suc[of i] by simp
qed simp

lemma month_prefix_mono:
  "x \<le> z \<Longrightarrow> sum_list (take x (month_lengths y)) \<le> sum_list (take z (month_lengths y))"
proof -
  assume "x \<le> z"
  then have "take z (month_lengths y) = take x (month_lengths y) @ take (z - x) (drop x (month_lengths y))"
    by (metis le_add_diff_inverse take_add)
  moreover have "0 \<le> sum_list (take (z - x) (drop x (month_lengths y)))"
    using month_lengths_pos[of y] by (intro sum_list_nonneg) (auto simp: list_all_iff dest: in_set_takeD in_set_dropD)
  ultimately show ?thesis by simp
qed

lemma month_prefix_Suc:
  "x < 12 \<Longrightarrow> sum_list (take (Suc x) (month_lengths y)) = sum_list (take x (month_lengths y)) + month_lengths y ! x"
  by (subst take_Suc_conv_app_nth) (simp_all add: month_lengths_def)

text \<open>A valid date lies inside its year, and inside its month.\<close>

lemma days_of_ymd_bounds:
  assumes "1 \<le> m" "m \<le> 12" "1 \<le> d" "d \<le> month_lengths y ! nat (m - 1)"
  shows "days_before_year y \<le> days_of_ymd y m d" "days_of_ymd y m d < days_before_year (y + 1)"
proof -
  have "0 \<le> sum_list (take (nat (m - 1)) (month_lengths y))"
    using month_prefix_mono[of 0 "nat (m - 1)" y] by simp
  then show "days_before_year y \<le> days_of_ymd y m d"
    using assms by (simp add: days_of_ymd_def)
  have len: "length (month_lengths y) = 12" by (simp add: month_lengths_def)
  have "sum_list (take (nat (m - 1)) (month_lengths y)) + d \<le> sum_list (take (Suc (nat (m - 1))) (month_lengths y))"
    using assms month_prefix_Suc[of "nat (m - 1)" y] by simp
  also have "\<dots> \<le> sum_list (take 12 (month_lengths y))"
    using assms by (intro month_prefix_mono) simp
  also have "\<dots> = sum_list (month_lengths y)" using len by simp
  finally show "days_of_ymd y m d < days_before_year (y + 1)"
    by (simp add: days_of_ymd_def days_before_year_Suc sum_month_lengths)
qed

lemma ymd_of_days_year:
  assumes "ymd_of_days n = (y, m, d)" "0 \<le> n" "n < 3652059"
  shows "1 \<le> y \<and> y \<le> 9999"
proof -
  note c = ymd_of_days_correct[OF assms(1)]
  then have b: "days_before_year y \<le> n" "n < days_before_year (y + 1)"
    using days_of_ymd_bounds[of m d y] by auto
  have "days_before_year 1 = 0" "days_before_year 10000 = 3652059"
    by (simp_all add: days_before_year_def)
  then show ?thesis
    using b assms(2,3) days_before_year_mono[of "y + 1" 1] days_before_year_mono[of 10000 y] by force
qed

lemma month_lengths_le: "1 \<le> m \<Longrightarrow> m \<le> 12 \<Longrightarrow> month_lengths y ! nat (m - 1) \<le> 31"
proof -
  assume "1 \<le> m" "m \<le> 12"
  then have "nat (m - 1) < length (month_lengths y)" by (simp add: month_lengths_def)
  then have "month_lengths y ! nat (m - 1) \<in> set (month_lengths y)" by (rule nth_mem)
  then show ?thesis by (auto simp: month_lengths_def split: if_splits)
qed

lemma length_date_text [simp]: "length (date_text n) = 10"
  by (simp add: date_text_def split: prod.splits)

lemma parse_date_text:
  assumes "0 \<le> n" "n < 3652059"
  shows "parse_date (date_text n) = Some n"
proof -
  obtain y m d where ymd: "ymd_of_days n = (y, m, d)" by (cases "ymd_of_days n") auto
  note c = ymd_of_days_correct[OF this] and yr = ymd_of_days_year[OF this assms]
  have "d \<le> 31" using c month_lengths_le[of m y] by simp
  then have "digits_value (pad 4 (nat y)) = nat y" "digits_value (pad 2 (nat m)) = nat m"
    "digits_value (pad 2 (nat d)) = nat d"
    using c yr by (simp_all add: digits_value_pad nat_less_iff)
  then show ?thesis
    using c yr by (simp add: parse_date_def date_text_def ymd nth_append Let_def)
qed

lemma seconds_parts:
  fixes s :: int
  assumes "0 \<le> s" "s < 86400"
  shows "nat (s div 3600) < 24" "nat (s div 60 mod 60) < 60" "nat (s mod 60) < 60"
    "s div 3600 * 3600 + s div 60 mod 60 * 60 + s mod 60 = s"
proof -
  show "nat (s div 3600) < 24" using assms by (simp add: nat_less_iff int_div_less_self)
  show "s div 3600 * 3600 + s div 60 mod 60 * 60 + s mod 60 = s"
  proof -
    have "s div 3600 = s div 60 div 60" using zdiv_zmult2_eq[of 60 s 60] by simp
    moreover have "s = s div 60 * 60 + s mod 60" by simp
    moreover have "s div 60 = s div 60 div 60 * 60 + s div 60 mod 60" by simp
    ultimately show ?thesis by linarith
  qed
qed (simp_all add: nat_less_iff)

lemma length_seconds_text [simp]: "length (seconds_text s) = 8"
  by (simp add: seconds_text_def)

lemma fraction_value_pad: "n < 1000000 \<Longrightarrow> fraction_value (pad 6 n) = int n"
  by (simp add: fraction_value_def digits_value_pad)

lemma parse_hms_text:
  assumes "0 \<le> s" "s < 86400" "0 \<le> f" "f < second_us"
  shows "parse_hms (seconds_text s @ fraction_text f) = Some (s * second_us + f)"
proof -
  define h m x where "h = s div 3600" and "m = s div 60 mod 60" and "x = s mod 60"
  have p: "0 \<le> h" "h < 24" "0 \<le> m" "m < 60" "0 \<le> x" "x < 60" "h * 3600 + m * 60 + x = s"
    using seconds_parts[OF assms(1,2)] assms(1)
    by (simp_all add: h_def m_def x_def nat_less_iff pos_imp_zdiv_nonneg_iff)
  have v: "digits_value (pad 2 (nat h)) = nat h" "digits_value (pad 2 (nat m)) = nat m"
    "digits_value (pad 2 (nat x)) = nat x"
    using p by (simp_all add: digits_value_pad nat_less_iff)
  have f: "fraction_value (pad 6 (nat f)) = f"
    using assms by (simp add: fraction_value_pad nat_less_iff)
  have "h * hour_us + m * minute_us + x * second_us = s * second_us" using p(7) by simp
  then show ?thesis
    using p v f
    by (simp add: parse_hms_def seconds_text_def fraction_text_def h_def[symmetric] m_def[symmetric]
        x_def[symmetric] nth_append Let_def)
qed

lemma parse_hm_text:
  assumes "0 \<le> s" "s < 86400" "s mod 60 = 0"
  shows "parse_hms (pad 2 (nat (s div 3600)) @ '':'' @ pad 2 (nat (s div 60 mod 60))) = Some (s * second_us)"
proof -
  define h m where "h = s div 3600" and "m = s div 60 mod 60"
  have p: "0 \<le> h" "h < 24" "0 \<le> m" "m < 60" "h * 3600 + m * 60 = s"
    using seconds_parts[OF assms(1,2)] assms
    by (simp_all add: h_def m_def nat_less_iff pos_imp_zdiv_nonneg_iff)
  have v: "digits_value (pad 2 (nat h)) = nat h" "digits_value (pad 2 (nat m)) = nat m"
    using p by (simp_all add: digits_value_pad nat_less_iff)
  have "h * hour_us + m * minute_us = s * second_us" using p(5) by simp
  then show ?thesis
    using p v by (simp add: parse_hms_def h_def[symmetric] m_def[symmetric] nth_append Let_def)
qed

lemma parse_offset_text:
  assumes "\<bar>u\<bar> < day_us"
  shows "parse_offset (offset_text u) = Some (Some u)"
proof -
  define a where "a = \<bar>u\<bar>"
  define s f where "s = a div second_us" and "f = a mod second_us"
  have a: "0 \<le> a" "a < day_us" using assms by (simp_all add: a_def)
  have sf: "0 \<le> s" "s < 86400" "0 \<le> f" "f < second_us" "s * second_us + f = a"
    using a by (simp_all add: s_def f_def pos_imp_zdiv_nonneg_iff)
  show ?thesis
  proof (cases "s mod 60 = 0 \<and> f = 0")
    case True
    with parse_hm_text[OF sf(1,2)] sf(5)
    have "parse_hms (pad 2 (nat (s div 3600)) @ '':'' @ pad 2 (nat (s div 60 mod 60))) = Some a" by simp
    with True show ?thesis
      by (simp add: parse_offset_def offset_text_def a_def[symmetric] s_def[symmetric] f_def[symmetric] Let_def)
        (simp add: a_def)
  next
    case False
    have "parse_hms (pad 2 (nat (s div 3600)) @ '':'' @ pad 2 (nat (s div 60 mod 60)) @ '':'' @ pad 2 (nat (s mod 60))
        @ fraction_text f) = Some a"
      using parse_hms_text[OF sf(1-4)] sf(5) by (simp add: seconds_text_def)
    with False show ?thesis
      by (auto simp: parse_offset_def offset_text_def a_def[symmetric] s_def[symmetric] f_def[symmetric] Let_def)
        (auto simp: a_def)
  qed
qed

lemma digit_char_not_tz: "n < 10 \<Longrightarrow> \<not> is_tz_start (digit_char n)"
  using digit_of_digit_char[of n] by (auto simp: is_tz_start_def digit_of_def split: if_splits)

lemma pad_not_tz: "\<forall>c\<in>set (pad w n). \<not> is_tz_start c"
  by (induction w arbitrary: n) (auto simp: digit_char_not_tz)

lemma clock_text_not_tz: "\<forall>c\<in>set (seconds_text s @ fraction_text f). \<not> is_tz_start c"
  using pad_not_tz by (auto simp: seconds_text_def fraction_text_def is_tz_start_def)

lemma offset_text_tz: "\<exists>c r. offset_text u = c # r \<and> is_tz_start c"
  by (cases "u < 0") (auto simp: offset_text_def Let_def is_tz_start_def)

lemma fromisoformat_with:
  assumes "valid_dt t" "length sep = 1"
  shows "fromisoformat (iso_with sep t) = Some t"
proof -
  obtain n off where t: "t = DT n off" by (cases t)
  define k r where "k = n div day_us" and "r = n mod day_us"
  define s f where "s = r div second_us" and "f = r mod second_us"
  have n: "0 \<le> n" "n < 3652059 * day_us" using assms(1) t by (simp_all add: valid_dt_def)
  have k: "0 \<le> k" "k < 3652059" using n by (simp_all add: k_def pos_imp_zdiv_nonneg_iff)
  have r: "0 \<le> r" "r < day_us" by (simp_all add: r_def)
  have sf: "0 \<le> s" "s < 86400" "0 \<le> f" "f < second_us" "s * second_us + f = r"
    using r by (simp_all add: s_def f_def pos_imp_zdiv_nonneg_iff)
  have nk: "k * day_us + r = n" by (simp add: k_def r_def)
  define tz where "tz = (case off of None \<Rightarrow> [] | Some u \<Rightarrow> offset_text u)"
  have iso: "iso_with sep t = date_text k @ sep @ (seconds_text s @ fraction_text f) @ tz"
    by (simp add: iso_with_def t k_def s_def f_def r_def tz_def Let_def)
  have tz: "parse_offset tz = Some off"
    using assms(1) t parse_offset_text
    by (auto simp: tz_def valid_dt_def parse_offset_def[of "[]"] split: option.splits)
  have take_tz: "takeWhile (\<lambda>c. \<not> is_tz_start c) ((seconds_text s @ fraction_text f) @ tz) = seconds_text s @ fraction_text f"
    "dropWhile (\<lambda>c. \<not> is_tz_start c) ((seconds_text s @ fraction_text f) @ tz) = tz"
    using clock_text_not_tz[of s f] offset_text_tz
    by (cases off; simp add: takeWhile_append dropWhile_append tz_def; metis dropWhile.simps(2) takeWhile.simps(2))+
  have "drop 11 (iso_with sep t) = (seconds_text s @ fraction_text f) @ tz"
    using assms(2) by (simp add: iso)
  moreover have "take 10 (iso_with sep t) = date_text k" "length (iso_with sep t) \<noteq> 10"
    using assms(2) by (simp_all add: iso)
  ultimately show ?thesis
    using parse_date_text[OF k] parse_hms_text[OF sf(1-4)] sf(5) tz take_tz nk t
    by (simp add: fromisoformat_def Let_def)
qed

text \<open>\<open>fromisoformat\<close> is the inverse of \<open>isoformat\<close> on every datetime Python can hold.\<close>

lemma fromisoformat_isoformat: "valid_dt t \<Longrightarrow> fromisoformat (isoformat t) = Some t"
  by (simp add: isoformat_def fromisoformat_with)

text \<open>No \<open>Z\<close> occurs in an ISO text, so \<open>parse_time\<close> reads it back as the same instant, in UTC.\<close>

lemma digit_char_not_Z: "n < 10 \<Longrightarrow> digit_char n \<noteq> CHR ''Z''"
  using digit_char_not_tz[of n] by (auto simp: is_tz_start_def)

lemma pad_not_Z [simp]: "CHR ''Z'' \<notin> set (pad w n)"
  using pad_not_tz[of w n] by (auto simp: is_tz_start_def)

lemma isoformat_not_Z: "CHR ''Z'' \<notin> set (isoformat t)"
  by (auto simp: isoformat_def iso_with_def date_text_def seconds_text_def fraction_text_def
      offset_text_def Let_def split: prod.splits option.splits if_splits)

lemma concat_no_Z: "CHR ''Z'' \<notin> set s \<Longrightarrow> concat (map (\<lambda>c. if c = CHR ''Z'' then u else [c]) s) = s"
  by (induction s) auto

theorem parse_time_isoformat:
  "valid_dt t \<Longrightarrow> \<not> naive t \<Longrightarrow> parse_time (isoformat t) = Inr (astimezone_utc t)"
  by (simp add: parse_time_def concat_no_Z isoformat_not_Z fromisoformat_isoformat)

section \<open>ISO texts in UTC sort as the instants do\<close>

lemma prefix_less_append: "length a = length b \<Longrightarrow> a < b \<Longrightarrow> a @ u < b @ (v::string)"
  by (simp add: pad_snoc_less)

lemma month_prefix_strict:
  assumes "1 \<le> m" "m < m'" "m' \<le> 12"
  shows "sum_list (take (nat (m - 1)) (month_lengths y)) + month_lengths y ! nat (m - 1)
       \<le> sum_list (take (nat (m' - 1)) (month_lengths y))"
  using month_prefix_Suc[of "nat (m - 1)" y] month_prefix_mono[of "Suc (nat (m - 1))" "nat (m' - 1)" y] assms
  by simp

lemma date_text_less:
  assumes "0 \<le> a" "a < b" "b < 3652059"
  shows "date_text a < date_text b"
proof -
  obtain y m d where A: "ymd_of_days a = (y, m, d)" by (cases "ymd_of_days a") auto
  obtain y' m' d' where B: "ymd_of_days b = (y', m', d')" by (cases "ymd_of_days b") auto
  note ca = ymd_of_days_correct[OF A] and cb = ymd_of_days_correct[OF B]
  have ya: "1 \<le> y" "y \<le> 9999" using ymd_of_days_year[OF A] assms by auto
  have yb: "1 \<le> y'" "y' \<le> 9999" using ymd_of_days_year[OF B] assms by auto
  have lex: "y < y' \<or> (y = y' \<and> (m < m' \<or> (m = m' \<and> d < d')))"
  proof (rule ccontr)
    assume no: "\<not> ?thesis"
    then consider "y' < y" | "y = y'" "m' < m" | "y = y'" "m = m'" "d' \<le> d" by linarith
    then have "b \<le> a"
    proof cases
      case 1
      then have "days_before_year (y' + 1) \<le> days_before_year y" by (intro days_before_year_mono) simp
      then show ?thesis using days_of_ymd_bounds[of m d y] days_of_ymd_bounds[of m' d' y'] ca cb by auto
    next
      case 2
      then show ?thesis using month_prefix_strict[of m' m y] ca cb by (auto simp: days_of_ymd_def)
    next
      case 3
      then show ?thesis using ca cb by (auto simp: days_of_ymd_def)
    qed
    with assms show False by simp
  qed
  have d: "nat d < 100" "nat d' < 100" "nat m < 100" "nat m' < 100" "nat y < 10000" "nat y' < 10000"
    using ca cb ya yb month_lengths_le[of m y] month_lengths_le[of m' y'] by (simp_all add: nat_less_iff)
  consider "y < y'" | "y = y'" "m < m'" | "y = y'" "m = m'" "d < d'" using lex by blast
  then show ?thesis
  proof cases
    case 1
    then have "pad 4 (nat y) < pad 4 (nat y')" using ya d by (intro pad_less) auto
    then show ?thesis by (simp add: date_text_def A B pad_snoc_less)
  next
    case 2
    then have "pad 2 (nat m) < pad 2 (nat m')" using ca d by (intro pad_less) auto
    with 2 show ?thesis by (simp add: date_text_def A B pad_snoc_less)
  next
    case 3
    then have "pad 2 (nat d) < pad 2 (nat d')" using ca d by (intro pad_less) auto
    with 3 show ?thesis by (simp add: date_text_def A B pad_snoc_less)
  qed
qed

lemma seconds_text_less:
  assumes "0 \<le> a" "a < b" "b < 86400"
  shows "seconds_text a < seconds_text b"
proof -
  define h m x where "h = a div 3600" and "m = a div 60 mod 60" and "x = a mod 60"
  define h' m' x' where "h' = b div 3600" and "m' = b div 60 mod 60" and "x' = b mod 60"
  have p: "0 \<le> h" "h < 24" "0 \<le> m" "m < 60" "0 \<le> x" "x < 60" "h * 3600 + m * 60 + x = a"
    using seconds_parts[of a] assms
    by (simp_all add: h_def m_def x_def nat_less_iff pos_imp_zdiv_nonneg_iff)
  have q: "0 \<le> h'" "h' < 24" "0 \<le> m'" "m' < 60" "0 \<le> x'" "x' < 60" "h' * 3600 + m' * 60 + x' = b"
    using seconds_parts[of b] assms
    by (simp_all add: h'_def m'_def x'_def nat_less_iff pos_imp_zdiv_nonneg_iff)
  have "h < h' \<or> (h = h' \<and> (m < m' \<or> (m = m' \<and> x < x')))"
    using p q assms(2) by linarith
  then show ?thesis
    using p q pad_less[of "nat h" "nat h'" 2] pad_less[of "nat m" "nat m'" 2] pad_less[of "nat x" "nat x'" 2]
    by (auto simp: seconds_text_def pad_snoc_less h_def[symmetric] m_def[symmetric] x_def[symmetric]
        h'_def[symmetric] m'_def[symmetric] x'_def[symmetric] nat_less_iff)
qed

lemma fraction_text_less:
  assumes "0 \<le> a" "a < b" "b < second_us"
  shows "fraction_text a @ ''+'' @ u < fraction_text b @ v"
proof (cases "a = 0")
  case True
  with assms show ?thesis by (simp add: fraction_text_def)
next
  case False
  with assms have "pad 6 (nat a) < pad 6 (nat b)" by (intro pad_less) auto
  with False assms show ?thesis by (simp add: fraction_text_def pad_snoc_less)
qed

theorem isoformat_utc_less:
  assumes "0 \<le> a" "a < b" "b < 3652059 * day_us"
  shows "isoformat (utc a) < isoformat (utc b)"
proof -
  define k r where "k = a div day_us" and "r = a mod day_us"
  define k' r' where "k' = b div day_us" and "r' = b mod day_us"
  have K: "0 \<le> k" "k' < 3652059" "k \<le> k'"
    using assms by (simp_all add: k_def k'_def pos_imp_zdiv_nonneg_iff zdiv_mono1)
  have r: "0 \<le> r" "r < day_us" "0 \<le> r'" "r' < day_us" by (simp_all add: r_def r'_def)
  have ab: "k * day_us + r = a" "k' * day_us + r' = b" by (simp_all add: k_def r_def k'_def r'_def)
  have off: "offset_text 0 = ''+'' @ ''00:00''" by code_simp
  define z where "z = ''00:00''"
  have iso: "isoformat (utc a) = date_text k @ ''T'' @ seconds_text (r div second_us) @ fraction_text (r mod second_us) @ ''+'' @ z"
    "isoformat (utc b) = date_text k' @ ''T'' @ seconds_text (r' div second_us) @ fraction_text (r' mod second_us) @ ''+'' @ z"
    by (simp_all add: isoformat_def iso_with_def utc_def off k_def r_def k'_def r'_def z_def Let_def)
  show ?thesis
  proof (cases "k = k'")
    case False
    with K have "date_text k < date_text k'" by (intro date_text_less) auto
    then show ?thesis unfolding iso by (simp only: pad_snoc_less length_date_text simp_thms)
  next
    case True
    with ab assms have rr: "r < r'" by simp
    have s: "0 \<le> r div second_us" "r' div second_us < 86400" "r div second_us \<le> r' div second_us"
      using r rr by (simp_all add: pos_imp_zdiv_nonneg_iff zdiv_mono1)
    have "seconds_text (r div second_us) @ fraction_text (r mod second_us) @ ''+'' @ z
        < seconds_text (r' div second_us) @ fraction_text (r' mod second_us) @ ''+'' @ z"
    proof (cases "r div second_us = r' div second_us")
      case False
      with s have "seconds_text (r div second_us) < seconds_text (r' div second_us)"
        by (intro seconds_text_less) auto
      then show ?thesis by (simp only: pad_snoc_less length_seconds_text simp_thms)
    next
      case True
      with rr have "r mod second_us < r' mod second_us"
        by (metis add_less_cancel_left div_mult_mod_eq)
      then have "fraction_text (r mod second_us) @ ''+'' @ z < fraction_text (r' mod second_us) @ ''+'' @ z"
        by (intro fraction_text_less) simp_all
      with True show ?thesis by (simp only: pad_snoc_less length_seconds_text simp_thms)
    qed
    with True show ?thesis unfolding iso by (simp add: pad_snoc_less)
  qed
qed

end
