(* ===== verification/K2_Values.thy ===== *)
theory K2_Values
  imports K2_Time Complex_Main
begin

text \<open>
  The dynamically typed values that event payloads hold, with the Python operations the
  program applies to them: truth value, \<open>==\<close>, \<open>str\<close>, hashing into a set, iteration,
  \<open>.get\<close>, subscription and comparison with floats.

  A finite float is the text Python prints for it (its shortest \<open>repr\<close>, one text per
  float): it is what \<open>json.dumps\<close> writes, and its decimal value compares with 0.0 and 1.0
  as the float does. A set is the list of its elements in iteration order (a frozenset, so
  it can be hashed). Dictionary keys are strings, ascending.
\<close>

datatype pyfloat = Finite string | Infinite bool | NotANumber

datatype pyval =
    PNone
  | PBool bool
  | PInt int
  | PFloat pyfloat
  | PStr string
  | PTime datetime
  | PList "pyval list"
  | PTuple "pyval list"
  | PSet "pyval list"
  | PDict "(string \<times> pyval) list"

type_synonym pydict = "pyval dict"

section \<open>Numbers\<close>

text \<open>The value of a decimal literal \<open>[-]digits[.digits][e[+-]digits]\<close>.\<close>

definition exponent_value :: "string \<Rightarrow> int" where
  "exponent_value s =
     (case s of [] \<Rightarrow> 0
      | c # r \<Rightarrow> if c = CHR ''-'' then - int (digits_value r)
                 else if c = CHR ''+'' then int (digits_value r) else int (digits_value s))"

definition decimal_value :: "string \<Rightarrow> rat" where
  "decimal_value s =
     (let neg = (s \<noteq> [] \<and> hd s = CHR ''-'');
          t = (if neg then tl s else s);
          m = takeWhile (\<lambda>c. c \<noteq> CHR ''e'') t;
          e = exponent_value (tl (dropWhile (\<lambda>c. c \<noteq> CHR ''e'') t));
          i = takeWhile (\<lambda>c. c \<noteq> CHR ''.'') m;
          f = tl (dropWhile (\<lambda>c. c \<noteq> CHR ''.'') m);
          v = of_nat (digits_value (i @ f)) / 10 ^ length f;
          w = (if 0 \<le> e then v * 10 ^ nat e else v / 10 ^ nat (- e))
      in if neg then - w else w)"

text \<open>\<open>bool\<close> is a subclass of \<open>int\<close>: True is 1.\<close>

fun num_value :: "pyval \<Rightarrow> rat option" where
  "num_value (PBool b) = Some (if b then 1 else 0)"
| "num_value (PInt i) = Some (of_int i)"
| "num_value (PFloat (Finite s)) = Some (decimal_value s)"
| "num_value _ = None"

text \<open>\<open>isinstance(v, (int, float))\<close>\<close>

fun is_number :: "pyval \<Rightarrow> bool" where
  "is_number (PBool _) = True"
| "is_number (PInt _) = True"
| "is_number (PFloat _) = True"
| "is_number _ = False"

text \<open>\<open>0.0 <= v <= 1.0\<close>: TypeError for what is no number, False for NaN and the infinities.\<close>

definition in_unit :: "pyval \<Rightarrow> bool result" where
  "in_unit v =
     (if \<not> is_number v then Inl TypeError
      else Inr (case num_value v of Some x \<Rightarrow> 0 \<le> x \<and> x \<le> 1 | None \<Rightarrow> False))"

section \<open>Truth value and equality\<close>

fun py_truthy :: "pyval \<Rightarrow> bool" where
  "py_truthy PNone = False"
| "py_truthy (PBool b) = b"
| "py_truthy (PInt i) = (i \<noteq> 0)"
| "py_truthy (PFloat (Finite s)) = (decimal_value s \<noteq> 0)"
| "py_truthy (PFloat _) = True"
| "py_truthy (PStr s) = (s \<noteq> [])"
| "py_truthy (PTime _) = True"
| "py_truthy (PList xs) = (xs \<noteq> [])"
| "py_truthy (PTuple xs) = (xs \<noteq> [])"
| "py_truthy (PSet xs) = (xs \<noteq> [])"
| "py_truthy (PDict d) = (d \<noteq> [])"

text \<open>
  \<open>a == b\<close>. Numbers compare by value across \<open>bool\<close>, \<open>int\<close> and \<open>float\<close>; NaN equals
  nothing; containers compare element by element, sets without order.
\<close>

fun py_eq :: "pyval \<Rightarrow> pyval \<Rightarrow> bool" and py_eq_list :: "pyval list \<Rightarrow> pyval list \<Rightarrow> bool"
  and py_eq_items :: "(string \<times> pyval) list \<Rightarrow> (string \<times> pyval) list \<Rightarrow> bool" where
  "py_eq PNone b = (b = PNone)"
| "py_eq (PBool x) b = (num_value b = num_value (PBool x))"
| "py_eq (PInt x) b = (num_value b = num_value (PInt x))"
| "py_eq (PFloat x) b =
     (case x of Finite s \<Rightarrow> num_value b = num_value (PFloat x)
      | Infinite n \<Rightarrow> b = PFloat (Infinite n)
      | NotANumber \<Rightarrow> False)"
| "py_eq (PStr s) b = (b = PStr s)"
| "py_eq (PTime s) b = (case b of PTime t \<Rightarrow> dt_eq s t | _ \<Rightarrow> False)"
| "py_eq (PList xs) b = (case b of PList ys \<Rightarrow> py_eq_list xs ys | _ \<Rightarrow> False)"
| "py_eq (PTuple xs) b = (case b of PTuple ys \<Rightarrow> py_eq_list xs ys | _ \<Rightarrow> False)"
| "py_eq (PSet xs) b =
     (case b of PSet ys \<Rightarrow>
        (\<forall>x\<in>set xs. \<exists>y\<in>set ys. py_eq x y) \<and> (\<forall>y\<in>set ys. \<exists>x\<in>set xs. py_eq x y)
      | _ \<Rightarrow> False)"
| "py_eq (PDict d) b = (case b of PDict e \<Rightarrow> py_eq_items d e | _ \<Rightarrow> False)"
| "py_eq_list [] ys = (ys = [])"
| "py_eq_list (x # xs) ys = (case ys of [] \<Rightarrow> False | y # ys' \<Rightarrow> py_eq x y \<and> py_eq_list xs ys')"
| "py_eq_items [] e = (e = [])"
| "py_eq_items ((k, v) # d) e =
     (case e of [] \<Rightarrow> False | (k', v') # e' \<Rightarrow> k = k' \<and> py_eq v v' \<and> py_eq_items d e')"

lemma py_eq_PStr_right [simp]: "py_eq v (PStr s) \<longleftrightarrow> v = PStr s"
proof (cases v)
  case (PFloat x)
  then show ?thesis by (cases x) auto
qed auto

lemma py_eq_PStr_left: "py_eq (PStr s) v \<longleftrightarrow> v = PStr s"
  by simp

section \<open>Hashing\<close>

text \<open>Lists and dictionaries cannot be hashed: putting one into a set raises TypeError.\<close>

fun hashable :: "pyval \<Rightarrow> bool" where
  "hashable (PList _) = False"
| "hashable (PDict _) = False"
| "hashable (PTuple xs) = list_all hashable xs"
| "hashable _ = True"

fun pairwise_distinct :: "pyval list \<Rightarrow> bool" where
  "pairwise_distinct [] = True"
| "pairwise_distinct (x # xs) = (list_all (\<lambda>y. \<not> py_eq x y) xs \<and> pairwise_distinct xs)"

text \<open>\<open>len(set(xs)) == len(xs)\<close>\<close>

definition all_distinct :: "pyval list \<Rightarrow> bool result" where
  "all_distinct xs =
     (if list_all hashable xs then Inr (pairwise_distinct xs) else Inl TypeError)"

text \<open>\<open>v in {"a", "b", ...}\<close>\<close>

definition in_str_set :: "pyval \<Rightarrow> string list \<Rightarrow> bool result" where
  "in_str_set v ss =
     (if hashable v then Inr (\<exists>s\<in>set ss. v = PStr s) else Inl TypeError)"

section \<open>str\<close>

definition py_is_printable :: "char \<Rightarrow> bool" where
  "py_is_printable c \<longleftrightarrow>
     (let n = of_char c :: nat in (32 \<le> n \<and> n < 127) \<or> (161 \<le> n \<and> n \<noteq> 173))"

definition hex_digit :: "nat \<Rightarrow> char" where
  "hex_digit n = (if n < 10 then digit_char n else char_of (87 + n))"

text \<open>\<open>repr\<close> of a string: single quotes unless only single quotes occur in it.\<close>

definition repr_char :: "char \<Rightarrow> char \<Rightarrow> string" where
  "repr_char q c =
     (let n = of_char c :: nat
      in if c = q \<or> n = 92 then [char_of (92::nat), c]
         else if n = 10 then [char_of (92::nat), CHR ''n'']
         else if n = 13 then [char_of (92::nat), CHR ''r'']
         else if n = 9 then [char_of (92::nat), CHR ''t'']
         else if py_is_printable c then [c]
         else [char_of (92::nat), CHR ''x'', hex_digit (n div 16), hex_digit (n mod 16)])"

definition repr_str :: "string \<Rightarrow> string" where
  "repr_str s =
     (let sq = char_of (39::nat); dq = char_of (34::nat);
          q = (if sq \<in> set s \<and> dq \<notin> set s then dq else sq)
      in q # concat (map (repr_char q) s) @ [q])"

text \<open>\<open>repr\<close> of a datetime with a fixed offset.\<close>

definition repr_offset :: "int \<Rightarrow> string" where
  "repr_offset u =
     (if u = 0 then ''datetime.timezone.utc''
      else (let d = u div day_us; s = u mod day_us div second_us; f = u mod second_us
            in ''datetime.timezone(datetime.timedelta(''
               @ join '', '' ((if d = 0 then [] else [''days='' @ show_int d])
                   @ (if s = 0 then [] else [''seconds='' @ show_int s])
                   @ (if f = 0 then [] else [''microseconds='' @ show_int f]))
               @ ''))''))"

definition repr_datetime :: "datetime \<Rightarrow> string" where
  "repr_datetime t =
     (let n = dt_local t; (y, m, d) = ymd_of_days (n div day_us); r = n mod day_us;
          s = r div second_us; f = r mod second_us
      in ''datetime.datetime(''
         @ join '', '' (map show_int ([y, m, d, s div 3600, s div 60 mod 60]
              @ (if s mod 60 = 0 \<and> f = 0 then [] else [s mod 60])
              @ (if f = 0 then [] else [f])))
         @ (case dt_off t of None \<Rightarrow> [] | Some u \<Rightarrow> '', tzinfo='' @ repr_offset u) @ '')'')"

definition show_float :: "pyfloat \<Rightarrow> string" where
  "show_float x = (case x of Finite s \<Rightarrow> s | Infinite n \<Rightarrow> (if n then ''-inf'' else ''inf'') | NotANumber \<Rightarrow> ''nan'')"

fun py_repr :: "pyval \<Rightarrow> string" where
  "py_repr PNone = ''None''"
| "py_repr (PBool b) = (if b then ''True'' else ''False'')"
| "py_repr (PInt i) = show_int i"
| "py_repr (PFloat x) = show_float x"
| "py_repr (PStr s) = repr_str s"
| "py_repr (PTime t) = repr_datetime t"
| "py_repr (PList xs) = ''['' @ join '', '' (map py_repr xs) @ '']''"
| "py_repr (PTuple xs) =
     (case xs of [x] \<Rightarrow> ''('' @ py_repr x @ '',)'' | _ \<Rightarrow> ''('' @ join '', '' (map py_repr xs) @ '')'')"
| "py_repr (PSet xs) =
     (if xs = [] then ''frozenset()'' else ''frozenset({'' @ join '', '' (map py_repr xs) @ ''})'')"
| "py_repr (PDict d) =
     ''{'' @ join '', '' (map (\<lambda>(k, v). repr_str k @ '': '' @ py_repr v) d) @ ''}''"

definition py_str :: "pyval \<Rightarrow> string" where
  "py_str v = (case v of PStr s \<Rightarrow> s | PTime t \<Rightarrow> iso_with '' '' t | _ \<Rightarrow> py_repr v)"

lemma py_str_PStr [simp]: "py_str (PStr s) = s"
  by (simp add: py_str_def)

section \<open>Access\<close>

text \<open>\<open>d.get(k)\<close>, \<open>d.get(k, default)\<close> and \<open>d[k]\<close> on a dictionary.\<close>

definition get_or :: "pydict \<Rightarrow> string \<Rightarrow> pyval \<Rightarrow> pyval" where
  "get_or d k v = (case map_of d k of None \<Rightarrow> v | Some w \<Rightarrow> w)"

definition pget :: "pydict \<Rightarrow> string \<Rightarrow> pyval" where
  "pget d k = get_or d k PNone"

definition item :: "pydict \<Rightarrow> string \<Rightarrow> pyval result" where
  "item d k = (case map_of d k of None \<Rightarrow> Inl (KeyError k) | Some v \<Rightarrow> Inr v)"

text \<open>The same on a value that may not be a dictionary.\<close>

definition val_get :: "pyval \<Rightarrow> string \<Rightarrow> pyval result" where
  "val_get v k = (case v of PDict d \<Rightarrow> Inr (pget d k) | _ \<Rightarrow> Inl AttributeError)"

definition val_item :: "pyval \<Rightarrow> string \<Rightarrow> pyval result" where
  "val_item v k = (case v of PDict d \<Rightarrow> item d k | _ \<Rightarrow> Inl TypeError)"

definition is_dict :: "pyval \<Rightarrow> bool" where
  "is_dict v \<longleftrightarrow> (case v of PDict _ \<Rightarrow> True | _ \<Rightarrow> False)"

definition dict_val :: "pyval \<Rightarrow> pydict" where
  "dict_val v = (case v of PDict d \<Rightarrow> d | _ \<Rightarrow> [])"

text \<open>\<open>for x in v\<close>: a string iterates over its characters, a dictionary over its keys.\<close>

definition py_iter :: "pyval \<Rightarrow> pyval list result" where
  "py_iter v =
     (case v of PList xs \<Rightarrow> Inr xs | PTuple xs \<Rightarrow> Inr xs | PSet xs \<Rightarrow> Inr xs
      | PStr s \<Rightarrow> Inr (map (\<lambda>c. PStr [c]) s)
      | PDict d \<Rightarrow> Inr (map (\<lambda>kv. PStr (fst kv)) d)
      | _ \<Rightarrow> Inl TypeError)"

lemma get_or_Some: "map_of d k = Some v \<Longrightarrow> get_or d k w = v"
  by (simp add: get_or_def)

lemma get_or_None [simp]: "map_of d k = None \<Longrightarrow> get_or d k w = w"
  by (simp add: get_or_def)

lemma pget_Some: "map_of d k = Some v \<Longrightarrow> pget d k = v"
  by (simp add: pget_def get_or_def)

lemma pget_None [simp]: "map_of d k = None \<Longrightarrow> pget d k = PNone"
  by (simp add: pget_def)

lemma py_truthy_pget: "py_truthy (pget d k) \<Longrightarrow> map_of d k = Some (pget d k)"
  by (auto simp: pget_def get_or_def split: option.splits)

lemma item_Inr_iff: "item d k = Inr v \<longleftrightarrow> map_of d k = Some v"
  by (cases "map_of d k") (simp_all add: item_def)

lemma item_truthy: "py_truthy (pget d k) \<Longrightarrow> item d k = Inr (pget d k)"
  by (rule item_Inr_iff [THEN iffD2, OF py_truthy_pget])

lemma item_has: "dict_has d k \<Longrightarrow> item d k = Inr (pget d k)"
  by (auto simp: dict_has_def item_def pget_def get_or_def)

lemma val_get_PDict [simp]: "val_get (PDict d) k = Inr (pget d k)"
  by (simp add: val_get_def)

lemma is_dict_iff: "is_dict v \<longleftrightarrow> v = PDict (dict_val v)"
  by (cases v) (simp_all add: is_dict_def dict_val_def)

lemma is_dict_PDict [simp]: "is_dict (PDict d)" "dict_val (PDict d) = d"
  by (simp_all add: is_dict_def dict_val_def)


end
