(* ===== verification/K2_Json.thy ===== *)
theory K2_Json
  imports K2_Values "HOL-Library.Multiset"
begin

text \<open>
  Canonical JSON (\<open>types.to_primitive\<close>, \<open>canonical_json\<close>, \<open>content_hash\<close>) and the reader
  \<open>json.loads\<close>. The writer is \<open>json.dumps\<close> with \<open>ensure_ascii=False\<close>, sorted keys, no
  white space and \<open>allow_nan=False\<close>. Shown here: a JSON value is read back from its canonical
  text unchanged, and the canonical text does not depend on the order in which a set is
  iterated or a dictionary was filled.
\<close>

section \<open>json.dumps\<close>

definition hex4 :: "nat \<Rightarrow> string" where
  "hex4 n = [hex_digit (n div 4096 mod 16), hex_digit (n div 256 mod 16), hex_digit (n div 16 mod 16), hex_digit (n mod 16)]"

definition bslash :: char where "bslash = char_of (92::nat)"
definition dquote :: char where "dquote = char_of (34::nat)"

definition json_char :: "char \<Rightarrow> string" where
  "json_char c =
     (let n = of_char c :: nat
      in if n = 34 then [bslash, dquote]
         else if n = 92 then [bslash, bslash]
         else if n = 10 then [bslash, CHR ''n'']
         else if n = 13 then [bslash, CHR ''r'']
         else if n = 9 then [bslash, CHR ''t'']
         else if n = 8 then [bslash, CHR ''b'']
         else if n = 12 then [bslash, CHR ''f'']
         else if n < 32 then bslash # CHR ''u'' # hex4 n
         else [c])"

definition json_string :: "string \<Rightarrow> string" where
  "json_string s = dquote # concat (map json_char s) @ [dquote]"

definition json_float :: "pyfloat \<Rightarrow> string" where
  "json_float x =
     (case x of Finite s \<Rightarrow> s | Infinite n \<Rightarrow> (if n then ''-Infinity'' else ''Infinity'') | NotANumber \<Rightarrow> ''NaN'')"

text \<open>
  The text of a value that \<open>to_primitive\<close> returned. A datetime or a set, on which
  \<open>json.dumps\<close> raises TypeError, cannot occur there.
\<close>

fun dumps :: "pyval \<Rightarrow> string" where
  "dumps PNone = ''null''"
| "dumps (PBool b) = (if b then ''true'' else ''false'')"
| "dumps (PInt i) = show_int i"
| "dumps (PFloat x) = json_float x"
| "dumps (PStr s) = json_string s"
| "dumps (PTime t) = []"
| "dumps (PList xs) = ''['' @ join '','' (map dumps xs) @ '']''"
| "dumps (PTuple xs) = ''['' @ join '','' (map dumps xs) @ '']''"
| "dumps (PSet xs) = []"
| "dumps (PDict d) = ''{'' @ join '','' (map (\<lambda>(k, v). json_string k @ '':'' @ dumps v) d) @ ''}''"

section \<open>to\_primitive, canonical\_json, content\_hash\<close>

text \<open>
  \<open>types.to_primitive\<close>: datetimes become UTC texts, tuples lists, and a set the list of its
  converted elements sorted by their JSON text. Enumeration members and dataclasses are
  converted where their values are made (\<open>role_text\<close>, \<open>event_val\<close> and the like).
\<close>

fun to_primitive :: "pyval \<Rightarrow> pyval" where
  "to_primitive (PTime t) = PStr (iso_z t)"
| "to_primitive (PDict d) = PDict (map (\<lambda>(k, v). (k, to_primitive v)) d)"
| "to_primitive (PList xs) = PList (map to_primitive xs)"
| "to_primitive (PTuple xs) = PList (map to_primitive xs)"
| "to_primitive (PSet xs) = PList (sort_key dumps (map to_primitive xs))"
| "to_primitive v = v"

text \<open>\<open>allow_nan=False\<close>: a NaN or an infinity anywhere raises ValueError.\<close>

fun finite_floats :: "pyval \<Rightarrow> bool" where
  "finite_floats (PFloat x) = (case x of Finite _ \<Rightarrow> True | _ \<Rightarrow> False)"
| "finite_floats (PList xs) = list_all finite_floats xs"
| "finite_floats (PTuple xs) = list_all finite_floats xs"
| "finite_floats (PSet xs) = list_all finite_floats xs"
| "finite_floats (PDict d) = list_all (\<lambda>(k, v). finite_floats v) d"
| "finite_floats v = True"

definition canonical_json :: "pyval \<Rightarrow> string result" where
  "canonical_json v =
     (if finite_floats v then Inr (dumps (to_primitive v))
      else Inl (ValueError ''Out of range float values are not JSON compliant''))"

text \<open>
  \<open>types.content_hash\<close>. The digest \<open>H\<close> is SHA-256 in hexadecimal of the UTF-8 bytes of a
  text. It is a parameter: nothing here depends on how it is computed.
\<close>

definition content_hash :: "(string \<Rightarrow> string) \<Rightarrow> pyval \<Rightarrow> string result" where
  "content_hash H v = bindE (canonical_json v) (\<lambda>s. Inr (''sha256:'' @ H s))"

section \<open>json.loads\<close>

definition skip_ws :: "string \<Rightarrow> string" where
  "skip_ws s = dropWhile (\<lambda>c. of_char c \<in> {9, 10, 13, 32 :: nat}) s"

definition hex_value :: "char \<Rightarrow> nat option" where
  "hex_value c =
     (let n = of_char c :: nat
      in if 48 \<le> n \<and> n \<le> 57 then Some (n - 48)
         else if 97 \<le> n \<and> n \<le> 102 then Some (n - 87)
         else if 65 \<le> n \<and> n \<le> 70 then Some (n - 55)
         else None)"

definition unescape :: "char \<Rightarrow> char option" where
  "unescape e =
     (let n = of_char e :: nat
      in if n \<in> {34, 47, 92} then Some e
         else if e = CHR ''n'' then Some (char_of (10::nat))
         else if e = CHR ''r'' then Some (char_of (13::nat))
         else if e = CHR ''t'' then Some (char_of (9::nat))
         else if e = CHR ''b'' then Some (char_of (8::nat))
         else if e = CHR ''f'' then Some (char_of (12::nat))
         else None)"

text \<open>
  The body of a string literal up to its closing quote. A \<open>\u\<close> escape of a code point
  from 256 up is outside the model's characters and is not read.
\<close>

definition four_hex :: "string \<Rightarrow> char option" where
  "four_hex hs =
     (case map hex_value hs of
        [Some a, Some b, Some c, Some d] \<Rightarrow>
          (let n = 4096 * a + 256 * b + 16 * c + d in if n < 256 then Some (char_of n) else None)
      | _ \<Rightarrow> None)"

fun jstring :: "string \<Rightarrow> (string \<times> string) option" where
  "jstring [] = None"
| "jstring (c # r) =
     (if c = dquote then Some ([], r)
      else if c = bslash then
        (case r of
           [] \<Rightarrow> None
         | e # r' \<Rightarrow>
             if e = CHR ''u'' then
               (case four_hex (take 4 r') of
                  None \<Rightarrow> None
                | Some x \<Rightarrow> map_option (\<lambda>(t, u). (x # t, u)) (jstring (drop 4 r')))
             else (case unescape e of
                     None \<Rightarrow> None
                   | Some x \<Rightarrow> map_option (\<lambda>(t, u). (x # t, u)) (jstring r')))
      else if (of_char c :: nat) < 32 then None
      else map_option (\<lambda>(t, u). (c # t, u)) (jstring r))"

text \<open>
  Numbers, by the regular expression of \<open>json.scanner\<close>: an integer part without leading
  zeros, then a fraction and an exponent, each only if it is complete.
\<close>

definition int_part :: "string \<Rightarrow> string" where
  "int_part s =
     (if s \<noteq> [] \<and> hd s = CHR ''0'' then ''0'' else takeWhile is_digit s)"

definition frac_part :: "string \<Rightarrow> string" where
  "frac_part s =
     (if s \<noteq> [] \<and> hd s = CHR ''.'' \<and> takeWhile is_digit (tl s) \<noteq> []
      then CHR ''.'' # takeWhile is_digit (tl s) else [])"

definition exp_part :: "string \<Rightarrow> string" where
  "exp_part s =
     (if s \<noteq> [] \<and> hd s \<in> {CHR ''e'', CHR ''E''}
      then let r = tl s;
               sg = (if r \<noteq> [] \<and> hd r \<in> {CHR ''+'', CHR ''-''} then [hd r] else []);
               ds = takeWhile is_digit (drop (length sg) r)
           in if ds = [] then [] else hd s # sg @ ds
      else [])"

definition jnumber :: "string \<Rightarrow> (pyval \<times> string) option" where
  "jnumber s =
     (let neg = (s \<noteq> [] \<and> hd s = CHR ''-'');
          t = (if neg then tl s else s);
          i = int_part t; t1 = drop (length i) t;
          f = frac_part t1; t2 = drop (length f) t1;
          e = exp_part t2; rest = drop (length e) t2
      in if i = [] then None
         else if f = [] \<and> e = []
         then Some (PInt (if neg then - int (digits_value i) else int (digits_value i)), rest)
         else Some (PFloat (Finite ((if neg then ''-'' else []) @ i @ f @ e)), rest))"

definition jword :: "bool \<Rightarrow> string \<Rightarrow> (pyval \<times> string) option" where
  "jword strict s =
     (if take 4 s = ''null'' then Some (PNone, drop 4 s)
      else if take 4 s = ''true'' then Some (PBool True, drop 4 s)
      else if take 5 s = ''false'' then Some (PBool False, drop 5 s)
      else if strict then None
      else if take 3 s = ''NaN'' then Some (PFloat NotANumber, drop 3 s)
      else if take 8 s = ''Infinity'' then Some (PFloat (Infinite False), drop 8 s)
      else if take 9 s = ''-Infinity'' then Some (PFloat (Infinite True), drop 9 s)
      else None)"

text \<open>
  An object from its members in the order of the text. With \<open>unique\<close> it is the hook of the adapters that
  raises ValueError on a duplicate key; otherwise the last of two members with the same key stays.
\<close>

definition jobject :: "bool \<Rightarrow> (string \<times> pyval) list \<Rightarrow> pyval option" where
  "jobject unique kvs = (if unique \<and> \<not> distinct (map fst kvs) then None else Some (PDict (dict_of kvs)))"

text \<open>
  Values, array elements and object members. \<open>unique\<close> and \<open>strict\<close> stand for the two hooks the program
  passes: duplicate keys are refused, and \<open>NaN\<close>, \<open>Infinity\<close> and \<open>-Infinity\<close> are. The numeric argument is fuel; \<open>loads\<close> gives one
  unit per character of the text, which is more than the nesting and the number of elements
  can use (\<open>loads_dumps\<close> below: enough for every canonical text).
\<close>

fun jvalue :: "bool \<Rightarrow> bool \<Rightarrow> nat \<Rightarrow> string \<Rightarrow> (pyval \<times> string) option"
  and jelems :: "bool \<Rightarrow> bool \<Rightarrow> nat \<Rightarrow> string \<Rightarrow> (pyval list \<times> string) option"
  and jmembers :: "bool \<Rightarrow> bool \<Rightarrow> nat \<Rightarrow> string \<Rightarrow> ((string \<times> pyval) list \<times> string) option" where
  "jvalue unique strict 0 s = None"
| "jvalue unique strict (Suc n) s =
     (case s of
        [] \<Rightarrow> None
      | c # r \<Rightarrow>
          if c = dquote then map_option (\<lambda>(t, u). (PStr t, u)) (jstring r)
          else if c = CHR ''['' then
            (case skip_ws r of
               [] \<Rightarrow> None
             | d # r' \<Rightarrow> if d = CHR '']'' then Some (PList [], r')
                         else map_option (\<lambda>(xs, u). (PList xs, u)) (jelems unique strict n (d # r')))
          else if c = CHR ''{'' then
            (case skip_ws r of
               [] \<Rightarrow> None
             | d # r' \<Rightarrow> if d = CHR ''}'' then Some (PDict [], r')
                         else Option.bind (jmembers unique strict n (d # r'))
                           (\<lambda>(kvs, u). map_option (\<lambda>v. (v, u)) (jobject unique kvs)))
          else (case jword strict s of Some w \<Rightarrow> Some w | None \<Rightarrow> jnumber s))"
| "jelems unique strict 0 s = None"
| "jelems unique strict (Suc n) s =
     (case jvalue unique strict n s of
        None \<Rightarrow> None
      | Some (x, r) \<Rightarrow>
          (case skip_ws r of
             [] \<Rightarrow> None
           | c # r' \<Rightarrow>
               if c = CHR '','' then map_option (\<lambda>(xs, u). (x # xs, u)) (jelems unique strict n (skip_ws r'))
               else if c = CHR '']'' then Some ([x], r')
               else None))"
| "jmembers unique strict 0 s = None"
| "jmembers unique strict (Suc n) s =
     (case s of
        [] \<Rightarrow> None
      | q # r \<Rightarrow>
          if q = dquote then
            (case jstring r of
               None \<Rightarrow> None
             | Some (k, r1) \<Rightarrow>
                 (case skip_ws r1 of
                    [] \<Rightarrow> None
                  | c # r2 \<Rightarrow>
                      if c = CHR '':'' then
                        (case jvalue unique strict n (skip_ws r2) of
                           None \<Rightarrow> None
                         | Some (v, r3) \<Rightarrow>
                             (case skip_ws r3 of
                                [] \<Rightarrow> None
                              | e # r4 \<Rightarrow>
                                  if e = CHR '','' then
                                    map_option (\<lambda>(kvs, u). ((k, v) # kvs, u)) (jmembers unique strict n (skip_ws r4))
                                  else if e = CHR ''}'' then Some ([(k, v)], r4)
                                  else None))
                      else None))
          else None)"

definition loads_with :: "bool \<Rightarrow> bool \<Rightarrow> string \<Rightarrow> pyval result" where
  "loads_with unique strict s =
     (case jvalue unique strict (Suc (length s)) (skip_ws s) of
        Some (v, r) \<Rightarrow> if skip_ws r = [] then Inr v else Inl (ValueError ''Extra data'')
      | None \<Rightarrow> Inl (ValueError ''Expecting value''))"

abbreviation loads :: "string \<Rightarrow> pyval result" where
  "loads \<equiv> loads_with False False"

section \<open>Reading back the canonical text\<close>

text \<open>What may follow a number: nothing, or a character that does not continue it.\<close>

definition num_end :: "string \<Rightarrow> bool" where
  "num_end r \<longleftrightarrow> r = [] \<or> (\<not> is_digit (hd r) \<and> hd r \<notin> {CHR ''.'', CHR ''e'', CHR ''E''})"

definition float_text :: "string \<Rightarrow> bool" where
  "float_text s \<longleftrightarrow> jnumber s = Some (PFloat (Finite s), [])"

text \<open>JSON data in canonical form.\<close>

fun jsonable :: "pyval \<Rightarrow> bool" where
  "jsonable PNone = True"
| "jsonable (PBool _) = True"
| "jsonable (PInt _) = True"
| "jsonable (PFloat (Finite s)) = float_text s"
| "jsonable (PFloat _) = False"
| "jsonable (PStr _) = True"
| "jsonable (PTime _) = False"
| "jsonable (PList xs) = list_all jsonable xs"
| "jsonable (PTuple _) = False"
| "jsonable (PSet _) = False"
| "jsonable (PDict d) = (wf_dict d \<and> list_all (\<lambda>(k, v). jsonable v) d)"

lemma is_digit_chars [simp]:
  "\<not> is_digit (CHR '','')" "\<not> is_digit (CHR '']'')" "\<not> is_digit (CHR ''}'')" "\<not> is_digit (CHR ''-'')"
  by (simp_all add: is_digit_def digit_of_def)

lemma num_end_simps [simp]:
  "num_end []" "num_end (CHR '','' # r)" "num_end (CHR '']'' # r)" "num_end (CHR ''}'' # r)"
  by (simp_all add: num_end_def)

lemma takeWhile_digits_append:
  "num_end r \<Longrightarrow> takeWhile is_digit (t @ r) = takeWhile is_digit t"
  by (induction t) (auto simp: num_end_def takeWhile_eq_Nil_iff)

lemma int_part_append: "num_end r \<Longrightarrow> int_part (t @ r) = int_part t"
proof (cases t)
  case Nil
  assume "num_end r"
  moreover have "is_digit (CHR ''0'')" by code_simp
  ultimately show ?thesis using Nil
    by (cases r) (auto simp: int_part_def num_end_def)
next
  case (Cons a t')
  assume "num_end r"
  then show ?thesis
    using takeWhile_digits_append[of r t] Cons by (simp add: int_part_def)
qed

lemma frac_part_append: "num_end r \<Longrightarrow> frac_part (t @ r) = frac_part t"
  by (cases t) (auto simp: frac_part_def num_end_def takeWhile_digits_append)

lemma drop_sign_append:
  "num_end r \<Longrightarrow> takeWhile is_digit (drop (length (if u @ r \<noteq> [] \<and> hd (u @ r) \<in> S then [hd (u @ r)] else [])) (u @ r)) \<noteq> [] \<Longrightarrow> u \<noteq> [] \<or> hd r \<in> S"
  by (cases u) (auto simp: num_end_def takeWhile_eq_Nil_iff split: if_splits)

lemma exp_part_append: "num_end r \<Longrightarrow> (\<forall>c u. t = c # u \<longrightarrow> u \<noteq> []) \<Longrightarrow> exp_part (t @ r) = exp_part t"
proof (cases t)
  case Nil
  then show "num_end r \<Longrightarrow> ?thesis" by (auto simp: exp_part_def num_end_def)
next
  case (Cons c u)
  assume "num_end r" and ne: "\<forall>c u. t = c # u \<longrightarrow> u \<noteq> []"
  from ne Cons obtain d w where u: "u = d # w" by (cases u) auto
  show ?thesis
    using takeWhile_digits_append[OF \<open>num_end r\<close>, of u] takeWhile_digits_append[OF \<open>num_end r\<close>, of w]
    by (simp add: exp_part_def Cons u Let_def)
qed

lemma part_length: "length (int_part t) \<le> length t" "length (frac_part t) \<le> length t" "length (exp_part t) \<le> length t"
proof -
  have tw: "length (takeWhile is_digit s) \<le> length s" for s by (rule length_takeWhile_le)
  show "length (int_part t) \<le> length t"
    using tw[of t] by (cases t) (auto simp: int_part_def)
  show "length (frac_part t) \<le> length t"
    using tw[of "tl t"] by (cases t) (auto simp: frac_part_def)
  show "length (exp_part t) \<le> length t"
  proof (cases t)
    case (Cons c u)
    show ?thesis
      using tw[of u] tw[of "tl u"] by (cases u) (auto simp: Cons exp_part_def Let_def)
  qed (simp add: exp_part_def)
qed

lemma jnumber_append:
  assumes "jnumber s = Some (v, [])" "num_end r"
  shows "jnumber (s @ r) = Some (v, r)"
proof -
  have s: "s \<noteq> []" using assms(1) by (auto simp: jnumber_def int_part_def Let_def)
  define neg where "neg = (s \<noteq> [] \<and> hd s = CHR ''-'')"
  have neg: "(s @ r \<noteq> [] \<and> hd (s @ r) = CHR ''-'') = neg" using s by (simp add: neg_def)
  define t where "t = (if neg then tl s else s)"
  define i where "i = int_part t"
  define t1 where "t1 = drop (length i) t"
  define f where "f = frac_part t1"
  define t2 where "t2 = drop (length f) t1"
  define e where "e = exp_part t2"
  have st: "(if neg then tl (s @ r) else s @ r) = t @ r" using s by (simp add: t_def)
  have i: "int_part (t @ r) = i" using assms(2) by (simp add: int_part_append i_def)
  have t1: "drop (length i) (t @ r) = t1 @ r" using part_length(1)[of t] by (simp add: i_def t1_def)
  have f: "frac_part (t1 @ r) = f" using assms(2) by (simp add: frac_part_append f_def)
  have t2: "drop (length f) (t1 @ r) = t2 @ r" using part_length(2)[of t1] by (simp add: f_def t2_def)
  have rest: "drop (length e) t2 = []"
    using assms(1) unfolding jnumber_def Let_def neg_def t_def i_def t1_def f_def t2_def e_def
    by (simp only: split: if_splits) simp_all
  have "\<forall>c u. t2 = c # u \<longrightarrow> u \<noteq> []"
  proof (intro allI impI notI)
    fix c u assume "t2 = c # u" "u = []"
    then have "e = []" by (auto simp: e_def exp_part_def)
    with rest \<open>t2 = c # u\<close> show False by simp
  qed
  then have e: "exp_part (t2 @ r) = e" using assms(2) by (simp add: exp_part_append e_def)
  have e': "drop (length e) (t2 @ r) = r" using rest part_length(3)[of t2] by (simp add: e_def)
  have "jnumber s = (if i = [] then None else if f = [] \<and> e = []
      then Some (PInt (if neg then - int (digits_value i) else int (digits_value i)), drop (length e) t2)
      else Some (PFloat (Finite ((if neg then ''-'' else []) @ i @ f @ e)), drop (length e) t2))"
    by (simp only: jnumber_def Let_def neg_def t_def i_def t1_def f_def t2_def e_def)
  moreover have "jnumber (s @ r) = (if i = [] then None else if f = [] \<and> e = []
      then Some (PInt (if neg then - int (digits_value i) else int (digits_value i)), r)
      else Some (PFloat (Finite ((if neg then ''-'' else []) @ i @ f @ e)), r))"
    by (simp only: jnumber_def Let_def neg st i t1 f t2 e e')
  ultimately show ?thesis using assms(1) rest by (auto split: if_splits)
qed

lemma takeWhile_all: "list_all P xs \<Longrightarrow> takeWhile P xs = xs"
  by (induction xs) auto

lemma int_part_show_nat: "int_part (show_nat n) = show_nat n"
proof (cases "n = 0")
  case True
  have "show_nat 0 = ''0''" by code_simp
  with True show ?thesis by (simp add: int_part_def)
next
  case False
  then show ?thesis
    using show_nat_hd[of n] takeWhile_all[OF show_nat_digits[of n]] by (simp add: int_part_def)
qed

lemma show_nat_hd_digit: "is_digit (hd (show_nat n))"
  using show_nat_digits[of n] by (cases "show_nat n") auto

lemma show_nat_not_minus: "hd (show_nat n) \<noteq> CHR ''-''"
  using show_nat_hd_digit[of n] by auto

lemma jnumber_show_int: "jnumber (show_int i) = Some (PInt i, [])"
proof (cases "i < 0")
  case True
  then show ?thesis
    by (simp add: jnumber_def show_int_def Let_def int_part_show_nat frac_part_def exp_part_def)
next
  case False
  then show ?thesis
    by (simp add: jnumber_def show_int_def Let_def int_part_show_nat frac_part_def exp_part_def show_nat_not_minus)
qed

lemma jnumber_hd: "jnumber s = Some w \<Longrightarrow> s \<noteq> [] \<and> (is_digit (hd s) \<or> (hd s = CHR ''-'' \<and> tl s \<noteq> [] \<and> is_digit (hd (tl s))))"
proof -
  assume *: "jnumber s = Some w"
  have ip: "int_part t \<noteq> [] \<Longrightarrow> t \<noteq> [] \<and> is_digit (hd t)" for t
  proof -
    have "is_digit (CHR ''0'')" by code_simp
    then show "int_part t \<noteq> [] \<Longrightarrow> t \<noteq> [] \<and> is_digit (hd t)"
      by (cases t) (auto simp: int_part_def split: if_splits)
  qed
  from * ip[of "tl s"] ip[of s] show ?thesis
    by (auto simp: jnumber_def Let_def split: if_splits)
qed

lemma jword_number:
  assumes "s \<noteq> []" "is_digit (hd s) \<or> (hd s = CHR ''-'' \<and> tl s \<noteq> [] \<and> is_digit (hd (tl s)))"
  shows "jword strict s = None"
proof -
  obtain c u where s: "s = c # u" using assms(1) by (cases s) auto
  have nd: "\<not> is_digit (CHR ''n'')" "\<not> is_digit (CHR ''t'')" "\<not> is_digit (CHR ''f'')" "\<not> is_digit (CHR ''N'')"
    "\<not> is_digit (CHR ''I'')"
    by (simp_all add: is_digit_def digit_of_def)
  show ?thesis
  proof (cases "is_digit c")
    case True
    with nd s show ?thesis by (auto simp: jword_def)
  next
    case False
    with assms(2) s obtain d w where "c = CHR ''-''" "u = d # w" "is_digit d" by (cases u) auto
    with nd s show ?thesis by (auto simp: jword_def)
  qed
qed

section \<open>Strings\<close>

lemma hex_value_digit: "n < 16 \<Longrightarrow> hex_value (hex_digit n) = Some n"
  by (auto simp: hex_value_def hex_digit_def of_char_digit_char Let_def)

lemma four_hex_hex4: "n < 256 \<Longrightarrow> four_hex (hex4 n) = Some (char_of n)"
  by (simp add: four_hex_def hex4_def hex_value_digit Let_def)

lemma length_hex4 [simp]: "length (hex4 n) = 4"
  by (simp add: hex4_def)

lemma of_char_quote [simp]: "(of_char dquote :: nat) = 34" "(of_char bslash :: nat) = 92"
  by (simp_all add: dquote_def bslash_def)

lemma quote_neq [simp]: "dquote \<noteq> bslash" "bslash \<noteq> dquote"
  by (metis of_char_quote num.simps numeral_eq_iff)+

lemma char_of_of_char_eq: "(of_char c :: nat) = n \<Longrightarrow> c = char_of n"
  by (metis char_of_char)

lemma dquote_iff: "c = dquote \<longleftrightarrow> (of_char c :: nat) = 34"
  by (metis char_of_char of_char_quote(1))

lemma bslash_iff: "c = bslash \<longleftrightarrow> (of_char c :: nat) = 92"
  by (metis char_of_char of_char_quote(2))

lemma quote_not_u [simp]: "char_of (34::nat) \<noteq> CHR ''u''" "char_of (92::nat) \<noteq> CHR ''u''"
  by code_simp+

lemma jstring_json_char:
  "jstring (json_char c @ u) = map_option (\<lambda>(t, w). (c # t, w)) (jstring u)"
proof -
  define n where "n = (of_char c :: nat)"
  have c: "c = char_of n" by (simp add: n_def)
  note esc = dquote_iff bslash_iff unescape_def Let_def
  show ?thesis
  proof (cases "n < 32 \<or> n = 34 \<or> n = 92")
    case False
    then have "json_char c = [c]" by (simp add: json_char_def n_def Let_def)
    with False show ?thesis by (simp add: dquote_iff bslash_iff n_def)
  next
    case special: True
    show ?thesis
    proof (cases "n \<in> {34, 92, 10, 13, 9, 8, 12}")
      case True
      then have "\<exists>e. json_char c = [bslash, e] \<and> e \<noteq> CHR ''u'' \<and> unescape e = Some c"
        using c by (elim insertE emptyE)
          (simp_all add: json_char_def n_def[symmetric] unescape_def bslash_def dquote_def Let_def)
      then obtain e where "json_char c = [bslash, e]" "e \<noteq> CHR ''u''" "unescape e = Some c" by blast
      then show ?thesis by simp
    next
      case False
      with special have n: "n < 32" "json_char c = bslash # CHR ''u'' # hex4 n"
        by (auto simp: json_char_def n_def Let_def)
      have "four_hex (take 4 (hex4 n @ u)) = Some c"
        using n c by (simp add: four_hex_hex4)
      with n show ?thesis by simp
    qed
  qed
qed

lemma jstring_body: "jstring (concat (map json_char s) @ dquote # r) = Some (s, r)"
  by (induction s) (simp_all add: jstring_json_char)

section \<open>Values\<close>

definition json_start :: "char \<Rightarrow> bool" where
  "json_start c \<longleftrightarrow> is_digit c \<or> c \<in> {CHR ''n'', CHR ''t'', CHR ''f'', CHR ''-'', CHR ''['', CHR ''{'', dquote}"

lemma json_start_hd: "jsonable v \<Longrightarrow> \<exists>c r. dumps v = c # r \<and> json_start c"
proof (cases v)
  case (PInt i)
  then show ?thesis
    using show_nat_hd_digit[of "nat i"]
    by (cases "show_nat (nat i)") (auto simp: json_start_def show_int_def)
next
  case (PFloat x)
  assume "jsonable v"
  with PFloat obtain s where x: "x = Finite s" "float_text s" by (cases x) auto
  then show ?thesis
    using jnumber_hd[of s] PFloat by (cases s) (auto simp: float_text_def json_float_def json_start_def)
next
  case (PStr s)
  then show ?thesis by (simp add: json_start_def json_string_def)
next
  case (PBool b)
  then show ?thesis by (cases b) (simp_all add: json_start_def)
qed (auto simp: json_start_def)

lemma is_digit_no_ws: "is_digit c \<Longrightarrow> of_char c \<notin> {9, 10, 13, 32 :: nat}"
  by (auto simp: is_digit_def digit_of_def Let_def split: if_splits)

lemma skip_ws_start: "json_start c \<Longrightarrow> skip_ws (c # r) = c # r"
  using is_digit_no_ws[of c] by (auto simp: skip_ws_def json_start_def)

lemma skip_ws_dumps [simp]: "jsonable v \<Longrightarrow> skip_ws (dumps v @ r) = dumps v @ r"
  using json_start_hd[of v] skip_ws_start by fastforce

lemma skip_ws_punct [simp]:
  "skip_ws (CHR '','' # r) = CHR '','' # r" "skip_ws (CHR '']'' # r) = CHR '']'' # r"
  "skip_ws (CHR ''}'' # r) = CHR ''}'' # r" "skip_ws (CHR '':'' # r) = CHR '':'' # r"
  "skip_ws (dquote # r) = dquote # r" "skip_ws [] = []"
  by (simp_all add: skip_ws_def)

lemma json_start_not_close: "json_start c \<Longrightarrow> c \<noteq> CHR '']'' \<and> c \<noteq> CHR ''}''"
  by (auto simp: json_start_def dquote_iff)

lemma dquote_neq [simp]:
  "CHR ''['' \<noteq> dquote" "CHR ''{'' \<noteq> dquote" "CHR ''n'' \<noteq> dquote" "CHR ''t'' \<noteq> dquote" "CHR ''f'' \<noteq> dquote"
  "CHR '']'' \<noteq> dquote" "CHR ''}'' \<noteq> dquote" "CHR '','' \<noteq> dquote" "CHR '':'' \<noteq> dquote" "CHR ''-'' \<noteq> dquote"
  by (simp_all add: dquote_iff)

lemma dquote_neq_sym [simp]:
  "dquote \<noteq> CHR ''}''" "dquote \<noteq> CHR '']''"
  using dquote_neq by metis+

lemma digit_start: "is_digit c \<Longrightarrow> c \<noteq> dquote \<and> c \<noteq> CHR ''['' \<and> c \<noteq> CHR ''{''"
  by (auto simp: is_digit_def digit_of_def dquote_def split: if_splits)

lemma jvalue_number:
  assumes "jnumber s = Some (v, [])" "num_end r" "0 < n"
  shows "jvalue unique strict n (s @ r) = Some (v, r)"
proof -
  obtain m where n: "n = Suc m" using assms(3) by (cases n) auto
  note hd = jnumber_hd[OF assms(1)]
  then obtain c u where s: "s = c # u" by (cases s) auto
  have "jword strict (s @ r) = None"
    using hd by (intro jword_number) (auto simp: s neq_Nil_conv)
  moreover have "jnumber (s @ r) = Some (v, r)" using assms by (simp add: jnumber_append)
  moreover have "c \<noteq> dquote \<and> c \<noteq> CHR ''['' \<and> c \<noteq> CHR ''{''"
    using hd s digit_start[of c] by auto
  ultimately show ?thesis by (simp add: n s)
qed

lemma join_length: "x \<in> set xs \<Longrightarrow> length x \<le> length (join sep xs)"
  by (induction sep xs rule: join.induct) auto

text \<open>Elements and members, given the values they contain.\<close>

lemma jelems_dumps:
  assumes "\<And>x n r. x \<in> set xs \<Longrightarrow> length (dumps x) < n \<Longrightarrow> num_end r \<Longrightarrow> jvalue unique strict n (dumps x @ r) = Some (x, r)"
    and "\<forall>x\<in>set xs. jsonable x" and "xs \<noteq> []" and "length (join '','' (map dumps xs)) + 1 < n"
  shows "jelems unique strict n (join '','' (map dumps xs) @ CHR '']'' # r) = Some (xs, r)"
  using assms
proof (induction xs arbitrary: n)
  case (Cons x xs)
  obtain m where n: "n = Suc m" using Cons.prems(4) by (cases n) auto
  show ?case
  proof (cases xs)
    case Nil
    then show ?thesis using Cons.prems n by simp
  next
    case (Cons y ys)
    let ?t = "join '','' (map dumps xs) @ CHR '']'' # r"
    have j: "join '','' (dumps x # map dumps xs) = dumps x @ CHR '','' # join '','' (map dumps xs)"
      using Cons by simp
    have v: "jvalue unique strict m (dumps x @ CHR '','' # ?t) = Some (x, CHR '','' # ?t)"
      using Cons.prems(1)[of x m "CHR '','' # ?t"] Cons.prems(4) n j by simp
    have ws: "skip_ws ?t = ?t"
      using Cons.prems(2) skip_ws_dumps[of y] \<open>xs = y # ys\<close> by (cases ys) simp_all
    have "length (dumps x) \<ge> 1"
      using json_start_hd[of x] Cons.prems(2) by (auto simp: Suc_le_eq)
    then have "jelems unique strict m ?t = Some (xs, r)"
      using Cons.prems n j \<open>xs = y # ys\<close> by (intro Cons.IH) auto
    then show ?thesis using v ws by (simp add: n j)
  qed
qed simp

abbreviation member_text :: "string \<times> pyval \<Rightarrow> string" where
  "member_text \<equiv> (\<lambda>(k, v). json_string k @ CHR '':'' # dumps v)"

lemma jmembers_dumps:
  assumes "\<And>k x n r. (k, x) \<in> set d \<Longrightarrow> length (dumps x) < n \<Longrightarrow> num_end r \<Longrightarrow> jvalue unique strict n (dumps x @ r) = Some (x, r)"
    and "\<forall>(k, x)\<in>set d. jsonable x" and "d \<noteq> []" and "length (join '','' (map member_text d)) + 1 < n"
  shows "jmembers unique strict n (join '','' (map member_text d) @ CHR ''}'' # r) = Some (d, r)"
  using assms
proof (induction d arbitrary: n)
  case (Cons kx d)
  obtain k x where kx: "kx = (k, x)" by (cases kx)
  obtain m where n: "n = Suc m" using Cons.prems(4) by (cases n) auto
  have jx: "jsonable x" using Cons.prems(2) kx by auto
  have js: "jstring (concat (map json_char k) @ dquote # u) = Some (k, u)" for u
    by (rule jstring_body)
  show ?case
  proof (cases d)
    case Nil
    have "jvalue unique strict m (dumps x @ CHR ''}'' # r) = Some (x, CHR ''}'' # r)"
      using Cons.prems(1)[of k x m "CHR ''}'' # r"] Cons.prems(4) n kx Nil by simp
    then show ?thesis using Nil by (simp add: n kx json_string_def js jx)
  next
    case (Cons y ys)
    let ?t = "join '','' (map member_text d) @ CHR ''}'' # r"
    have j: "join '','' ((json_string k @ CHR '':'' # dumps x) # map member_text d)
        = dquote # concat (map json_char k) @ dquote # CHR '':'' # dumps x @ CHR '','' # join '','' (map member_text d)"
      using Cons by (simp add: kx json_string_def)
    have v: "jvalue unique strict m (dumps x @ CHR '','' # ?t) = Some (x, CHR '','' # ?t)"
      using Cons.prems(1)[of k x m "CHR '','' # ?t"] Cons.prems(4) n j kx by simp
    obtain w where "?t = dquote # w"
      using Cons by (cases y; cases ys) (simp_all add: json_string_def)
    then have ws: "skip_ws ?t = ?t" by simp
    have "jmembers unique strict m ?t = Some (d, r)"
      using Cons.prems n j \<open>d = y # ys\<close> by (intro Cons.IH) auto
    then show ?thesis using v ws by (simp add: n j js jx kx)
  qed
qed simp

lemma jvalue_dumps:
  "jsonable v \<Longrightarrow> length (dumps v) < n \<Longrightarrow> num_end r \<Longrightarrow> jvalue unique strict n (dumps v @ r) = Some (v, r)"
proof (induction v arbitrary: n r)
  case (PInt i)
  then show ?case using jvalue_number[OF jnumber_show_int] by simp
next
  case (PFloat x)
  then obtain s where "x = Finite s" "float_text s" by (cases x) auto
  then show ?case using jvalue_number[of s] PFloat by (simp add: float_text_def json_float_def)
next
  case (PStr s)
  then obtain m where "n = Suc m" by (cases n) auto
  then show ?case by (simp add: json_string_def jstring_body)
next
  case (PList xs)
  obtain m where n: "n = Suc m" using PList.prems by (cases n) auto
  have all: "\<forall>x\<in>set xs. jsonable x" using PList.prems(1) by (simp add: list_all_iff)
  show ?case
  proof (cases xs)
    case Nil
    then show ?thesis by (simp add: n)
  next
    case (Cons y ys)
    have "jelems unique strict m (join '','' (map dumps xs) @ CHR '']'' # r) = Some (xs, r)"
      using PList all n Cons by (intro jelems_dumps) auto
    moreover have "\<exists>c u. join '','' (map dumps xs) @ CHR '']'' # r = c # u \<and> json_start c"
      using json_start_hd[of y] all Cons by (cases ys) force+
    ultimately show ?thesis
      using skip_ws_start json_start_not_close by (fastforce simp: n)
  qed
next
  case (PDict d)
  obtain m where n: "n = Suc m" using PDict.prems by (cases n) auto
  have all: "\<forall>(k, x)\<in>set d. jsonable x" and wf: "wf_dict d"
    using PDict.prems(1) by (auto simp: list_all_iff)
  show ?case
  proof (cases d)
    case Nil
    then show ?thesis by (simp add: n jobject_def dict_of_def)
  next
    case (Cons y ys)
    have "jmembers unique strict m (join '','' (map member_text d) @ CHR ''}'' # r) = Some (d, r)"
    proof (rule jmembers_dumps)
      show "jvalue unique strict n' (dumps x @ r') = Some (x, r')"
        if "(k, x) \<in> set d" "length (dumps x) < n'" "num_end r'" for k x n' r'
        using PDict.IH[OF that(1), of x n' r'] that all by auto
    qed (use all n Cons PDict.prems in auto)
    moreover obtain u where "join '','' (map member_text d) @ CHR ''}'' # r = dquote # u"
      using Cons by (cases y; cases ys) (simp_all add: json_string_def)
    ultimately show ?thesis using wf by (simp add: n jobject_def wf_dict_distinct)
  qed
qed (auto simp: jword_def gr0_conv_Suc elim!: less_natE)

text \<open>The round trip: canonical text is read back as the value it was written from.\<close>

theorem loads_with_dumps: "jsonable v \<Longrightarrow> loads_with unique strict (dumps v) = Inr v"
  using jvalue_dumps[of v "Suc (length (dumps v))" "[]"] skip_ws_dumps[of v "[]"]
  by (simp add: loads_with_def)

lemma loads_dumps: "jsonable v \<Longrightarrow> loads (dumps v) = Inr v"
  by (rule loads_with_dumps)

lemma jsonable_finite: "jsonable v \<Longrightarrow> finite_floats v"
proof (induction v)
  case (PFloat x)
  then show ?case by (cases x) auto
qed (auto simp: list_all_iff)

lemma jsonable_primitive: "jsonable v \<Longrightarrow> to_primitive v = v"
  by (induction v) (auto simp: list_all_iff intro!: map_idI)

lemma canonical_json_jsonable: "jsonable v \<Longrightarrow> canonical_json v = Inr (dumps v)"
  by (simp add: canonical_json_def jsonable_finite jsonable_primitive)

lemma dumps_inject: "jsonable v \<Longrightarrow> jsonable w \<Longrightarrow> dumps v = dumps w \<longleftrightarrow> v = w"
  by (metis loads_dumps sum.inject(2))

section \<open>Collection order\<close>

text \<open>Two values that differ only in the order in which sets iterate, at any depth.\<close>

inductive same_content :: "pyval \<Rightarrow> pyval \<Rightarrow> bool" where
  same_refl: "same_content v v"
| same_list: "list_all2 same_content xs ys \<Longrightarrow> same_content (PList xs) (PList ys)"
| same_tuple: "list_all2 same_content xs ys \<Longrightarrow> same_content (PTuple xs) (PTuple ys)"
| same_set: "list_all2 same_content xs zs \<Longrightarrow> mset zs = mset ys \<Longrightarrow> same_content (PSet xs) (PSet ys)"
| same_dict: "map fst d = map fst e \<Longrightarrow> list_all2 same_content (map snd d) (map snd e) \<Longrightarrow>
     same_content (PDict d) (PDict e)"

lemma map_sort_key: "map f (sort_key f xs) = sort (map f xs)"
  by (rule properties_for_sort [symmetric]) simp_all

definition json_text :: "pyval \<Rightarrow> string" where
  "json_text v = dumps (to_primitive v)"

lemma json_text_simps:
  "json_text (PList xs) = ''['' @ join '','' (map json_text xs) @ '']''"
  "json_text (PTuple xs) = ''['' @ join '','' (map json_text xs) @ '']''"
  "json_text (PSet xs) = ''['' @ join '','' (sort (map json_text xs)) @ '']''"
  "json_text (PDict d) = ''{'' @ join '','' (map (\<lambda>(k, t). json_string k @ '':'' @ t)
     (zip (map fst d) (map json_text (map snd d)))) @ ''}''"
proof -
  show "json_text (PDict d) = ''{'' @ join '','' (map (\<lambda>(k, t). json_string k @ '':'' @ t)
     (zip (map fst d) (map json_text (map snd d)))) @ ''}''"
    by (induction d) (auto simp: json_text_def zip_map2 zip_map1 zip_same_conv_map comp_def split_beta)
qed (simp_all add: json_text_def[abs_def] map_sort_key comp_def)

lemma same_content_text: "same_content v w \<Longrightarrow> json_text v = json_text w \<and> finite_floats v = finite_floats w"
proof (induction rule: same_content.induct)
  case (same_set xs zs ys)
  have "map json_text xs = map json_text zs" "list_all finite_floats xs = list_all finite_floats zs"
    using same_set.IH by (induction xs zs rule: list_all2_induct) auto
  moreover have "sort (map json_text zs) = sort (map json_text ys)"
    using same_set.hyps by (intro properties_for_sort) simp_all
  moreover have "set zs = set ys" using same_set.hyps(1) by (rule mset_eq_setD)
  ultimately show ?case by (simp add: json_text_simps list_all_iff)
next
  case (same_dict d e)
  have "map json_text (map snd d) = map json_text (map snd e)"
    "list_all finite_floats (map snd d) = list_all finite_floats (map snd e)"
    using same_dict.IH by (induction "map snd d" "map snd e" arbitrary: d e rule: list_all2_induct) auto
  moreover have "finite_floats (PDict b) = list_all finite_floats (map snd b)" for b
    by (simp add: list_all_iff split_beta)
  ultimately show ?case using same_dict.hyps by (simp only: json_text_simps)
next
  case (same_list xs ys)
  then have "map json_text xs = map json_text ys \<and> list_all finite_floats xs = list_all finite_floats ys"
    by (induction xs ys rule: list_all2_induct) auto
  then show ?case by (simp add: json_text_simps)
next
  case (same_tuple xs ys)
  then have "map json_text xs = map json_text ys \<and> list_all finite_floats xs = list_all finite_floats ys"
    by (induction xs ys rule: list_all2_induct) auto
  then show ?case by (simp add: json_text_simps)
qed simp

lemma canonical_json_same: "same_content v w \<Longrightarrow> canonical_json v = canonical_json w"
  using same_content_text[of v w] by (simp add: canonical_json_def json_text_def)

end
