(* ===== verification/K2_Types.thy ===== *)
theory K2_Types
  imports K2_Json
begin

text \<open>
  The domain contracts of \<open>src/src/argo_dt/types.py\<close>: enumerations, the frozen dataclasses
  with the checks of their \<open>__post_init__\<close> (a \<open>make_\<close> function each, which raises what the
  constructor raises), and the event envelope with its hash: \<open>seal\<close> and \<open>verify\<close>.
  Shown: enumeration values survive their text, a sealed envelope verifies, and an event hash
  determines every hashed field of the event unless the digest collides.
\<close>

section \<open>Enumerations\<close>

datatype identity_kind = HUMAN_PRINCIPAL | COGNITIVE_TWIN | AGENT_SERVICE | AVATAR_LIKENESS

datatype event_plane = AUTHORITATIVE | PROJECTION | SIMULATION

datatype producer_role =
    INGEST_SERVICE | IDENTITY_WORKER | ADJUDICATION_WORKER | HUMAN_REVIEW | COMPILER
  | PROJECTION_SERVICE | SIMULATION_SERVICE | DOWNSTREAM_AGENT | OPERATIONS_SERVICE

datatype sensitivity = PUBLIC | INTERNAL | CONFIDENTIAL | RESTRICTED

datatype evidence_grade =
    STATED | DOCUMENTARY | FIRSTHAND_STRUCTURED | DIRECTLY_OBSERVED | PARSED | INFERRED | EXTERNAL_WITNESS

datatype review_state = UNREVIEWED | ACCEPTED | CONTESTED | REVIEW_RETIRED

datatype temporal_state =
    EVENT | CURRENT | RECURRING | ERA | DURABLE | EMERGING | DECLINING | RETIRED | UNKNOWN

datatype relation_topology = POINT | LINE | FACE | VOLUME | ROOT

fun plane_text :: "event_plane \<Rightarrow> string" where
  "plane_text AUTHORITATIVE = ''authoritative''"
| "plane_text PROJECTION = ''projection''"
| "plane_text SIMULATION = ''simulation''"

fun role_text :: "producer_role \<Rightarrow> string" where
  "role_text INGEST_SERVICE = ''ingest_service''"
| "role_text IDENTITY_WORKER = ''identity_worker''"
| "role_text ADJUDICATION_WORKER = ''adjudication_worker''"
| "role_text HUMAN_REVIEW = ''human_review''"
| "role_text COMPILER = ''compiler''"
| "role_text PROJECTION_SERVICE = ''projection_service''"
| "role_text SIMULATION_SERVICE = ''simulation_service''"
| "role_text DOWNSTREAM_AGENT = ''downstream_agent''"
| "role_text OPERATIONS_SERVICE = ''operations_service''"

fun sensitivity_text :: "sensitivity \<Rightarrow> string" where
  "sensitivity_text PUBLIC = ''public''"
| "sensitivity_text INTERNAL = ''internal''"
| "sensitivity_text CONFIDENTIAL = ''confidential''"
| "sensitivity_text RESTRICTED = ''restricted''"

text \<open>\<open>EventPlane(text)\<close>, \<open>ProducerRole(text)\<close>, \<open>Sensitivity(text)\<close>: the member, or ValueError.\<close>

definition all_planes :: "event_plane list" where
  "all_planes = [AUTHORITATIVE, PROJECTION, SIMULATION]"

definition all_roles :: "producer_role list" where
  "all_roles = [INGEST_SERVICE, IDENTITY_WORKER, ADJUDICATION_WORKER, HUMAN_REVIEW, COMPILER,
     PROJECTION_SERVICE, SIMULATION_SERVICE, DOWNSTREAM_AGENT, OPERATIONS_SERVICE]"

definition all_sensitivities :: "sensitivity list" where
  "all_sensitivities = [PUBLIC, INTERNAL, CONFIDENTIAL, RESTRICTED]"

definition enum_of :: "('a \<Rightarrow> string) \<Rightarrow> 'a list \<Rightarrow> string \<Rightarrow> 'a result" where
  "enum_of f xs s =
     (case find (\<lambda>x. f x = s) xs of Some x \<Rightarrow> Inr x | None \<Rightarrow> Inl (ValueError ''not a valid member''))"

definition plane_of :: "string \<Rightarrow> event_plane result" where
  "plane_of = enum_of plane_text all_planes"

definition role_of :: "string \<Rightarrow> producer_role result" where
  "role_of = enum_of role_text all_roles"

definition sensitivity_of :: "string \<Rightarrow> sensitivity result" where
  "sensitivity_of = enum_of sensitivity_text all_sensitivities"

fun rank :: "sensitivity \<Rightarrow> int" where
  "rank PUBLIC = 0"
| "rank INTERNAL = 1"
| "rank CONFIDENTIAL = 2"
| "rank RESTRICTED = 3"

lemma plane_of_text [simp]: "plane_of (plane_text p) = Inr p"
  by (cases p) (simp_all add: plane_of_def enum_of_def all_planes_def)

lemma role_of_text [simp]: "role_of (role_text r) = Inr r"
  by (cases r) (simp_all add: role_of_def enum_of_def all_roles_def)

lemma sensitivity_of_text [simp]: "sensitivity_of (sensitivity_text s) = Inr s"
  by (cases s) (simp_all add: sensitivity_of_def enum_of_def all_sensitivities_def)

lemma plane_text_inject: "plane_text p = plane_text q \<longleftrightarrow> p = q"
  by (metis plane_of_text sum.inject(2))

lemma role_text_inject: "role_text p = role_text q \<longleftrightarrow> p = q"
  by (metis role_of_text sum.inject(2))

lemma rank_inject: "rank a = rank b \<longleftrightarrow> a = b"
  by (cases a; cases b) simp_all

instantiation sensitivity :: linorder
begin

definition less_eq_sensitivity :: "sensitivity \<Rightarrow> sensitivity \<Rightarrow> bool" where
  "less_eq_sensitivity a b \<longleftrightarrow> rank a \<le> rank b"

definition less_sensitivity :: "sensitivity \<Rightarrow> sensitivity \<Rightarrow> bool" where
  "less_sensitivity a b \<longleftrightarrow> rank a < rank b"

instance
  by standard (auto simp: less_eq_sensitivity_def less_sensitivity_def rank_inject)

end

section \<open>Actors\<close>

record actor =
  identity_id :: string
  roles :: "producer_role set"
  actor_subject_id :: "string option"

definition make_actor :: "string \<Rightarrow> producer_role set \<Rightarrow> string option \<Rightarrow> actor result" where
  "make_actor i rs sub =
     (if i = [] then Inl (InvariantViolation ''actor identity_id is required'')
      else if rs = {} then Inl (InvariantViolation ''actor requires at least one producer role'')
      else Inr \<lparr>identity_id = i, roles = rs, actor_subject_id = sub\<rparr>)"

section \<open>Bitemporal intervals\<close>

record bitemporal_interval =
  bi_valid_from :: datetime
  bi_valid_until :: "datetime option"
  bi_recorded_at :: datetime
  bi_superseded_at :: "datetime option"

definition dt_le :: "datetime \<Rightarrow> datetime \<Rightarrow> bool result" where
  "dt_le a b = (if naive a \<noteq> naive b then Inl TypeError else Inr (instant a \<le> instant b))"

lemma dt_le_aware [simp]: "\<not> naive a \<Longrightarrow> \<not> naive b \<Longrightarrow> dt_le a b = Inr (instant a \<le> instant b)"
  by (simp add: dt_le_def)

definition opt_naive :: "datetime option \<Rightarrow> bool" where
  "opt_naive t \<longleftrightarrow> (case t of None \<Rightarrow> False | Some u \<Rightarrow> naive u)"

definition make_interval ::
  "datetime \<Rightarrow> datetime option \<Rightarrow> datetime \<Rightarrow> datetime option \<Rightarrow> bitemporal_interval result" where
  "make_interval vf vu ra sa =
     (if naive vf \<or> opt_naive vu \<or> naive ra \<or> opt_naive sa
      then Inl (InvariantViolation ''bitemporal timestamps must be timezone-aware'')
      else if (case vu of None \<Rightarrow> False | Some u \<Rightarrow> instant u < instant vf)
      then Inl (InvariantViolation ''valid_until precedes valid_from'')
      else if (case sa of None \<Rightarrow> False | Some u \<Rightarrow> instant u < instant ra)
      then Inl (InvariantViolation ''superseded_at precedes recorded_at'')
      else Inr \<lparr>bi_valid_from = vf, bi_valid_until = vu, bi_recorded_at = ra, bi_superseded_at = sa\<rparr>)"

text \<open>\<open>start <= t and (end is None or t < end)\<close>\<close>

definition within_half_open :: "datetime \<Rightarrow> datetime option \<Rightarrow> datetime \<Rightarrow> bool result" where
  "within_half_open from till t =
     bindE (dt_le from t) (\<lambda>b.
       if \<not> b then Inr False
       else (case till of None \<Rightarrow> Inr True | Some u \<Rightarrow> dt_less t u))"

definition interval_valid_at :: "bitemporal_interval \<Rightarrow> datetime \<Rightarrow> bool result" where
  "interval_valid_at i t = within_half_open (bi_valid_from i) (bi_valid_until i) t"

definition interval_known_at :: "bitemporal_interval \<Rightarrow> datetime \<Rightarrow> bool result" where
  "interval_known_at i t = within_half_open (bi_recorded_at i) (bi_superseded_at i) t"

section \<open>Epistemic vectors, provenance, relations, cells\<close>

definition epistemic_dimensions :: "string list" where
  "epistemic_dimensions =
     [''evidence_quality'', ''confidence'', ''salience'', ''stability'', ''freshness'',
      ''scope_confidence'', ''contradiction_load'']"

text \<open>\<open>EpistemicVector(**value)\<close> for a dictionary that has exactly the seven keys.\<close>

definition make_epistemic :: "pydict \<Rightarrow> pydict result" where
  "make_epistemic d =
     bindE (foldE (\<lambda>_ name.
       bindE (item d name) (\<lambda>v.
       bindE (in_unit v) (\<lambda>b.
         if b then Inr () else Inl (InvariantViolation (name @ '' must be in [0, 1]''))))) () epistemic_dimensions)
     (\<lambda>_. Inr d)"

record provenance_ref =
  pr_evidence_id :: string
  pr_relation :: string
  pr_independence_group :: string
  pr_transform_id :: "string option"

definition make_provenance_ref :: "string \<Rightarrow> string \<Rightarrow> string \<Rightarrow> string option \<Rightarrow> provenance_ref result" where
  "make_provenance_ref e r g t =
     (if e = [] \<or> r = [] \<or> g = []
      then Inl (InvariantViolation ''provenance requires evidence_id, relation, and independence_group'')
      else Inr \<lparr>pr_evidence_id = e, pr_relation = r, pr_independence_group = g, pr_transform_id = t\<rparr>)"

definition unique_independence_groups :: "provenance_ref list \<Rightarrow> nat" where
  "unique_independence_groups refs = card (pr_independence_group ` set refs)"

record typed_relation =
  tr_relation_type :: string
  tr_target_cell_id :: string
  tr_constituent :: bool
  tr_confidence :: pyval
  tr_topology :: relation_topology

definition make_typed_relation ::
  "string \<Rightarrow> string \<Rightarrow> bool \<Rightarrow> pyval \<Rightarrow> relation_topology \<Rightarrow> typed_relation result" where
  "make_typed_relation ty target c conf topo =
     (if ty = [] \<or> target = []
      then Inl (InvariantViolation ''relation_type and target_cell_id are required'')
      else bindE (if conf = PNone then Inr True else in_unit conf) (\<lambda>b.
        if \<not> b then Inl (InvariantViolation ''relation confidence must be in [0, 1]'')
        else Inr \<lparr>tr_relation_type = ty, tr_target_cell_id = target, tr_constituent = c,
                  tr_confidence = conf, tr_topology = topo\<rparr>))"

record argo_cell =
  cell_id :: string
  cell_type :: string
  cell_subject_id :: string
  cell_identity_kind :: identity_kind
  cell_temporal :: bitemporal_interval
  cell_temporal_state :: temporal_state
  cell_observed_state :: pydict
  cell_desired_state :: pydict
  cell_predicted_state :: pydict
  cell_requirements :: "string list"
  cell_constraints :: "string list"
  cell_intents :: "string list"
  cell_relations :: "typed_relation list"
  cell_provenance :: "provenance_ref list"
  cell_epistemic :: "pydict option"
  cell_sensitivity :: sensitivity
  cell_projection_handles :: "string list"
  cell_schema_version :: string
  cell_metadata :: pydict

definition make_cell :: "argo_cell \<Rightarrow> argo_cell result" where
  "make_cell c =
     (if cell_id c = [] \<or> cell_subject_id c = [] \<or> cell_type c = []
      then Inl (InvariantViolation ''cell_id, subject_id, and cell_type are required'')
      else if cell_type c \<in> {''claim'', ''pattern'', ''kernel_artifact''} \<and> cell_provenance c = []
      then Inl (InvariantViolation (cell_type c @ '' cells require provenance''))
      else Inr c)"

section \<open>Event envelopes\<close>

record event =
  event_id :: string
  twin_id :: string
  event_type :: string
  plane :: event_plane
  payload :: pydict
  occurred_at :: datetime
  recorded_at :: datetime
  producer :: string
  producer_role :: producer_role
  idempotency_key :: string
  schema_version :: string
  sequence :: int
  causation_id :: "string option"
  correlation_id :: "string option"
  previous_hash :: string
  event_hash :: string

text \<open>
  \<open>EventEnvelope.new\<close>; the fresh identifier (\<open>uuid.uuid4()\<close>) and the clock reading
  (\<open>utc_now()\<close>, microseconds of UTC) are arguments.
\<close>

definition event_new ::
  "string \<Rightarrow> int \<Rightarrow> string \<Rightarrow> string \<Rightarrow> event_plane \<Rightarrow> pydict \<Rightarrow> string \<Rightarrow> producer_role \<Rightarrow> string
   \<Rightarrow> datetime option \<Rightarrow> string option \<Rightarrow> string option \<Rightarrow> event" where
  "event_new fresh now twin ty pl pay who role key occurred cause corr =
     \<lparr>event_id = fresh, twin_id = twin, event_type = ty, plane = pl, payload = pay,
      occurred_at = (case occurred of Some t \<Rightarrow> t | None \<Rightarrow> utc now), recorded_at = utc now,
      producer = who, producer_role = role, idempotency_key = key,
      schema_version = ''argo.dt.event/v2'', sequence = 0, causation_id = cause,
      correlation_id = corr, previous_hash = [], event_hash = []\<rparr>"

definition opt_str :: "string option \<Rightarrow> pyval" where
  "opt_str s = (case s of None \<Rightarrow> PNone | Some t \<Rightarrow> PStr t)"

text \<open>
  \<open>to_primitive(event)\<close>: the dataclass's fields, in the ascending order of their names in
  which dictionaries are kept here.
\<close>

definition event_val :: "event \<Rightarrow> pydict" where
  "event_val ev =
     [(''causation_id'', opt_str (causation_id ev)),
      (''correlation_id'', opt_str (correlation_id ev)),
      (''event_hash'', PStr (event_hash ev)),
      (''event_id'', PStr (event_id ev)),
      (''event_type'', PStr (event_type ev)),
      (''idempotency_key'', PStr (idempotency_key ev)),
      (''occurred_at'', PStr (iso_z (occurred_at ev))),
      (''payload'', to_primitive (PDict (payload ev))),
      (''plane'', PStr (plane_text (plane ev))),
      (''previous_hash'', PStr (previous_hash ev)),
      (''producer'', PStr (producer ev)),
      (''producer_role'', PStr (role_text (producer_role ev))),
      (''recorded_at'', PStr (iso_z (recorded_at ev))),
      (''schema_version'', PStr (schema_version ev)),
      (''sequence'', PInt (sequence ev)),
      (''twin_id'', PStr (twin_id ev))]"

definition hash_material :: "event \<Rightarrow> pyval" where
  "hash_material ev =
     (let m = dict_pop ''event_hash'' (event_val ev)
      in PDict (if schema_version ev = ''argo.dt.event/v1'' then dict_pop ''producer_role'' m else m))"

definition seal :: "(string \<Rightarrow> string) \<Rightarrow> event \<Rightarrow> int \<Rightarrow> string \<Rightarrow> datetime \<Rightarrow> event result" where
  "seal H ev n prev stamp =
     (let candidate = ev\<lparr>sequence := n, previous_hash := prev, recorded_at := stamp, event_hash := []\<rparr>
      in bindE (content_hash H (hash_material candidate)) (\<lambda>h. Inr (candidate\<lparr>event_hash := h\<rparr>)))"

definition verify :: "(string \<Rightarrow> string) \<Rightarrow> event \<Rightarrow> string \<Rightarrow> unit result" where
  "verify H ev expected =
     (if previous_hash ev \<noteq> expected
      then Inl (IntegrityError (''previous hash mismatch at sequence '' @ show_int (sequence ev) @ '': ''
             @ repr_str (previous_hash ev) @ '' != '' @ repr_str expected))
      else bindE (content_hash H (hash_material ev)) (\<lambda>h.
        if event_hash ev \<noteq> h
        then Inl (IntegrityError (''event hash mismatch at sequence '' @ show_int (sequence ev)))
        else Inr ()))"

section \<open>Snapshots, outbox and invalidation records\<close>

record snapshot =
  sn_twin_id :: string
  sn_sequence :: int
  sn_last_event_hash :: string
  sn_state :: pydict
  sn_state_hash :: string
  sn_created_at :: datetime
  sn_schema_version :: string

definition snapshot_material :: "string \<Rightarrow> string \<Rightarrow> int \<Rightarrow> string \<Rightarrow> pydict \<Rightarrow> pyval" where
  "snapshot_material schema twin n h st =
     PDict [(''last_event_hash'', PStr h), (''schema_version'', PStr schema), (''sequence'', PInt n),
            (''state'', PDict st), (''twin_id'', PStr twin)]"

definition snapshot_new ::
  "(string \<Rightarrow> string) \<Rightarrow> int \<Rightarrow> string \<Rightarrow> int \<Rightarrow> string \<Rightarrow> pydict \<Rightarrow> datetime option \<Rightarrow> snapshot result" where
  "snapshot_new H now twin n h st created =
     bindE (content_hash H (snapshot_material ''argo.dt.snapshot/v1'' twin n h st)) (\<lambda>sh.
       Inr \<lparr>sn_twin_id = twin, sn_sequence = n, sn_last_event_hash = h, sn_state = st,
            sn_state_hash = sh, sn_created_at = (case created of Some t \<Rightarrow> t | None \<Rightarrow> utc now),
            sn_schema_version = ''argo.dt.snapshot/v1''\<rparr>)"

definition snapshot_verify :: "(string \<Rightarrow> string) \<Rightarrow> snapshot \<Rightarrow> unit result" where
  "snapshot_verify H s =
     (if sn_schema_version s \<noteq> ''argo.dt.snapshot/v1''
      then Inl (IntegrityError ''unsupported snapshot schema version'')
      else if sn_sequence s < 1 \<or> sn_twin_id s = [] \<or> sn_last_event_hash s = []
      then Inl (IntegrityError ''snapshot stream position is incomplete'')
      else bindE (content_hash H (snapshot_material (sn_schema_version s) (sn_twin_id s) (sn_sequence s)
               (sn_last_event_hash s) (sn_state s))) (\<lambda>h.
        if sn_state_hash s \<noteq> h then Inl (IntegrityError ''snapshot state hash mismatch'') else Inr ()))"

record outbox_record =
  or_topic :: string
  or_key :: string
  or_event :: event
  or_created_at :: datetime
  or_attempts :: int
  or_lease_owner :: string

record invalidation_record =
  ir_twin_id :: string
  ir_deletion_sequence :: int
  ir_source_evidence_id :: string
  ir_dependent_kind :: string
  ir_dependent_id :: string
  ir_created_at :: datetime

section \<open>Consent, projection and action contracts\<close>

record consent_grant =
  cg_consent_id :: string
  cg_subject_id :: string
  cg_recipient_id :: string
  cg_purposes :: "string set"
  cg_allowed_fields :: "string set"
  cg_max_sensitivity :: sensitivity
  cg_valid_from :: datetime
  cg_valid_until :: datetime
  cg_policy_version :: string
  cg_revoked_at :: "datetime option"

text \<open>The period is compared before the zones are looked at: a naive end of an aware period raises TypeError.\<close>

definition make_consent :: "consent_grant \<Rightarrow> consent_grant result" where
  "make_consent c =
     bindE (dt_le (cg_valid_until c) (cg_valid_from c)) (\<lambda>b.
       if b then Inl (InvariantViolation ''consent valid_until must follow valid_from'')
       else if naive (cg_valid_from c) \<or> naive (cg_valid_until c) \<or> opt_naive (cg_revoked_at c)
       then Inl (InvariantViolation ''consent timestamps must be timezone-aware'')
       else Inr c)"

definition consent_active_at :: "consent_grant \<Rightarrow> datetime \<Rightarrow> bool result" where
  "consent_active_at c t =
     (if cg_revoked_at c \<noteq> None then Inr False
      else within_half_open (cg_valid_from c) (Some (cg_valid_until c)) t)"

record projection_request =
  rq_request_id :: string
  rq_twin_id :: string
  rq_subject_id :: string
  rq_recipient_id :: string
  rq_purpose :: string
  rq_requested_fields :: "string set"
  rq_maximum_sensitivity :: sensitivity
  rq_as_of_valid_time :: datetime
  rq_as_of_recorded_time :: datetime

definition make_projection_request :: "projection_request \<Rightarrow> projection_request result" where
  "make_projection_request r =
     (if rq_requested_fields r = {}
      then Inl (InvariantViolation ''projection requested_fields cannot be empty'')
      else if naive (rq_as_of_valid_time r) \<or> naive (rq_as_of_recorded_time r)
      then Inl (InvariantViolation ''projection timestamps must be timezone-aware'')
      else Inr r)"

record projection_receipt =
  rc_projection_id :: string
  rc_request_id :: string
  rc_consent_id :: string
  rc_policy_version :: string
  rc_issued_at :: datetime
  rc_expires_at :: datetime
  rc_source_sequence :: int
  rc_disclosed_fields :: "string list"
  rc_source_claim_ids :: "string list"
  rc_artifact_hash :: string
  rc_decision_reasons :: "string list"

definition str_list :: "string list \<Rightarrow> pyval" where
  "str_list ss = PList (map PStr ss)"

definition receipt_to_public_dict :: "projection_receipt \<Rightarrow> pydict" where
  "receipt_to_public_dict r =
     [(''artifact_hash'', PStr (rc_artifact_hash r)),
      (''consent_id'', PStr (rc_consent_id r)),
      (''disclosed_fields'', str_list (rc_disclosed_fields r)),
      (''expires_at'', PStr (iso_z (rc_expires_at r))),
      (''issued_at'', PStr (iso_z (rc_issued_at r))),
      (''policy_version'', PStr (rc_policy_version r)),
      (''projection_id'', PStr (rc_projection_id r)),
      (''request_id'', PStr (rc_request_id r)),
      (''source_sequence'', PInt (rc_source_sequence r))]"

text \<open>\<open>to_primitive(receipt)\<close>, the whole dataclass.\<close>

definition receipt_val :: "projection_receipt \<Rightarrow> pyval" where
  "receipt_val r =
     PDict [(''artifact_hash'', PStr (rc_artifact_hash r)),
      (''consent_id'', PStr (rc_consent_id r)),
      (''decision_reasons'', str_list (rc_decision_reasons r)),
      (''disclosed_fields'', str_list (rc_disclosed_fields r)),
      (''expires_at'', PStr (iso_z (rc_expires_at r))),
      (''issued_at'', PStr (iso_z (rc_issued_at r))),
      (''policy_version'', PStr (rc_policy_version r)),
      (''projection_id'', PStr (rc_projection_id r)),
      (''request_id'', PStr (rc_request_id r)),
      (''source_claim_ids'', str_list (rc_source_claim_ids r)),
      (''source_sequence'', PInt (rc_source_sequence r))]"

record action_envelope =
  ae_action_id :: string
  ae_principal_id :: string
  ae_actor_identity_id :: string
  ae_purpose :: string
  ae_target :: string
  ae_requested_capabilities :: "string set"
  ae_impact :: string
  ae_reversible :: bool
  ae_evidence_ids :: "string list"
  ae_constraint_version :: string
  ae_idempotency_key :: string
  ae_issued_at :: datetime
  ae_expires_at :: datetime

definition make_action :: "action_envelope \<Rightarrow> action_envelope result" where
  "make_action a =
     bindE (dt_le (ae_expires_at a) (ae_issued_at a)) (\<lambda>b.
       if b then Inl (InvariantViolation ''action expires_at must follow issued_at'')
       else if ae_requested_capabilities a = {}
       then Inl (InvariantViolation ''action requires at least one capability'')
       else if naive (ae_issued_at a) \<or> naive (ae_expires_at a)
       then Inl (InvariantViolation ''action timestamps must be timezone-aware'')
       else Inr a)"

record authority_grant =
  ag_grant_id :: string
  ag_principal_id :: string
  ag_actor_identity_id :: string
  ag_purposes :: "string set"
  ag_capabilities :: "string set"
  ag_maximum_impact :: string
  ag_require_reversible :: bool
  ag_valid_from :: datetime
  ag_valid_until :: datetime
  ag_revoked_at :: "datetime option"

definition make_authority :: "authority_grant \<Rightarrow> authority_grant result" where
  "make_authority g =
     bindE (dt_le (ag_valid_until g) (ag_valid_from g)) (\<lambda>b.
       if b then Inl (InvariantViolation ''authority valid_until must follow valid_from'')
       else if naive (ag_valid_from g) \<or> naive (ag_valid_until g) \<or> opt_naive (ag_revoked_at g)
       then Inl (InvariantViolation ''authority timestamps must be timezone-aware'')
       else Inr g)"

definition authority_active_at :: "authority_grant \<Rightarrow> datetime \<Rightarrow> bool result" where
  "authority_active_at g t =
     (if ag_revoked_at g \<noteq> None then Inr False
      else within_half_open (ag_valid_from g) (Some (ag_valid_until g)) t)"

record kernel_artifact =
  ka_artifact_id :: string
  ka_twin_id :: string
  ka_artifact_type :: string
  ka_source_sequence :: int
  ka_source_claim_ids :: "string list"
  ka_compiler_version :: string
  ka_status :: string
  ka_payload :: pydict
  ka_loss_report :: pydict
  ka_compiled_at :: datetime
  ka_artifact_hash :: string

section \<open>Timestamps on the wire\<close>

lemma isoformat_utc_suffix: "\<exists>p. isoformat (utc n) = p @ ''+00:00''"
proof -
  have "offset_text 0 = ''+00:00''" by code_simp
  then show ?thesis by (simp add: isoformat_def iso_with_def utc_def Let_def)
qed

text \<open>Python's \<open>Z\<close> spelling of a timestamp is read back as the same instant.\<close>

lemma parse_time_iso_z:
  assumes "valid_dt (astimezone_utc t)"
  shows "parse_time (iso_z t) = Inr (astimezone_utc t)"
proof -
  obtain p where p: "isoformat (astimezone_utc t) = p @ ''+00:00''"
    using isoformat_utc_suffix by (auto simp: astimezone_utc_def)
  then have "CHR ''Z'' \<notin> set p" using isoformat_not_Z[of "astimezone_utc t"] by auto
  then show ?thesis
    using fromisoformat_isoformat[OF assms] p
    by (simp add: parse_time_def iso_z_def concat_no_Z)
qed

lemma iso_z_inject:
  assumes "valid_dt (astimezone_utc s)" "valid_dt (astimezone_utc t)" "iso_z s = iso_z t"
  shows "instant s = instant t"
  using parse_time_iso_z[OF assms(1)] parse_time_iso_z[OF assms(2)] assms(3)
  by (simp add: astimezone_utc_def utc_def)

section \<open>Sealed envelopes\<close>

lemma hash_material_event_hash [simp]: "hash_material (ev\<lparr>event_hash := h\<rparr>) = hash_material ev"
  by (simp add: hash_material_def event_val_def)

text \<open>What \<open>seal\<close> returns verifies against the predecessor it was sealed on.\<close>

lemma seal_Inr:
  assumes "seal H ev n prev stamp = Inr out"
  shows "verify H out prev = Inr ()"
    and "\<exists>h. out = ev\<lparr>sequence := n, previous_hash := prev, recorded_at := stamp, event_hash := h\<rparr>"
proof -
  define c where "c = ev\<lparr>sequence := n, previous_hash := prev, recorded_at := stamp, event_hash := []\<rparr>"
  obtain h where h: "content_hash H (hash_material c) = Inr h" "out = c\<lparr>event_hash := h\<rparr>"
    using assms by (auto simp: seal_def Let_def c_def bindE_Inr_iff)
  then show "verify H out prev = Inr ()" by (simp add: verify_def c_def)
  show "\<exists>h. out = ev\<lparr>sequence := n, previous_hash := prev, recorded_at := stamp, event_hash := h\<rparr>"
    using h by (auto simp: c_def)
qed

lemma seal_fields:
  assumes "seal H ev n prev stamp = Inr out"
  shows "sequence out = n" "previous_hash out = prev" "recorded_at out = stamp"
    "event_id out = event_id ev" "twin_id out = twin_id ev" "event_type out = event_type ev"
    "plane out = plane ev" "payload out = payload ev" "occurred_at out = occurred_at ev"
    "producer out = producer ev" "producer_role out = producer_role ev"
    "idempotency_key out = idempotency_key ev" "schema_version out = schema_version ev"
    "causation_id out = causation_id ev" "correlation_id out = correlation_id ev"
  using seal_Inr(2)[OF assms] by auto

lemma content_hash_nonempty: "content_hash H v = Inr h \<Longrightarrow> h \<noteq> []"
  by (auto simp: content_hash_def bindE_Inr_iff)

lemma verify_Inr:
  "verify H ev prev = Inr () \<longleftrightarrow> previous_hash ev = prev \<and> content_hash H (hash_material ev) = Inr (event_hash ev)"
  by (cases "content_hash H (hash_material ev)") (auto simp: verify_def)

lemma verify_hash_nonempty: "verify H ev prev = Inr () \<Longrightarrow> event_hash ev \<noteq> []"
  by (metis verify_Inr content_hash_nonempty)

text \<open>Seal fails only where the payload holds a float JSON cannot write.\<close>

lemma hash_material_jsonable:
  "jsonable (to_primitive (PDict (payload ev))) \<Longrightarrow> jsonable (hash_material ev)"
  by (auto simp: hash_material_def event_val_def opt_str_def Let_def split: option.splits)

lemma seal_ok:
  assumes "jsonable (to_primitive (PDict (payload ev)))"
  shows "\<exists>out. seal H ev n prev stamp = Inr out"
proof -
  let ?c = "ev\<lparr>sequence := n, previous_hash := prev, recorded_at := stamp, event_hash := []\<rparr>"
  have "jsonable (hash_material ?c)" using assms by (intro hash_material_jsonable) simp
  then show ?thesis by (simp add: seal_def content_hash_def canonical_json_jsonable Let_def)
qed

text \<open>The fields an event hash covers, in the words of the wire.\<close>

definition wire :: "event \<Rightarrow> pydict" where
  "wire ev = dict_pop ''event_hash'' (event_val ev)"

lemma hash_material_wire:
  "hash_material ev =
     PDict (if schema_version ev = ''argo.dt.event/v1'' then dict_pop ''producer_role'' (wire ev) else wire ev)"
  by (simp add: hash_material_def wire_def)

lemma wire_schema: "map_of (wire ev) ''schema_version'' = Some (PStr (schema_version ev))"
  by (simp add: wire_def event_val_def)

lemma hash_material_inject:
  assumes "hash_material a = hash_material b"
  shows "schema_version a = schema_version b \<and>
    (if schema_version a = ''argo.dt.event/v1'' then dict_pop ''producer_role'' (wire a) = dict_pop ''producer_role'' (wire b)
     else wire a = wire b)"
proof -
  let ?m = "\<lambda>ev. if schema_version ev = ''argo.dt.event/v1'' then dict_pop ''producer_role'' (wire ev) else wire ev"
  have eq: "?m a = ?m b" using assms by (simp only: hash_material_wire pyval.inject)
  have m: "map_of (?m ev) ''schema_version'' = Some (PStr (schema_version ev))" for ev
    by (simp add: wire_schema)
  have "schema_version a = schema_version b"
    using m[of a] m[of b] unfolding eq by simp
  with eq show ?thesis by (simp split: if_splits)
qed

text \<open>
  Tamper evidence: two envelopes that verify with the same event hash agree on every hashed
  field, unless their canonical texts collide under the digest.
\<close>

lemma event_hash_binds:
  assumes "verify H a p = Inr ()" "verify H b q = Inr ()" "event_hash a = event_hash b"
    and "jsonable (to_primitive (PDict (payload a)))" "jsonable (to_primitive (PDict (payload b)))"
  shows "hash_material a = hash_material b
    \<or> (dumps (hash_material a) \<noteq> dumps (hash_material b) \<and> H (dumps (hash_material a)) = H (dumps (hash_material b)))"
proof -
  have j: "jsonable (hash_material a)" "jsonable (hash_material b)"
    using assms(4,5) by (simp_all add: hash_material_jsonable)
  have "content_hash H (hash_material a) = content_hash H (hash_material b)"
    using assms(1,2) unfolding verify_Inr assms(3) by metis
  then have "H (dumps (hash_material a)) = H (dumps (hash_material b))"
    using j by (simp add: content_hash_def canonical_json_jsonable)
  then show ?thesis using dumps_inject[OF j] by blast
qed

section \<open>Snapshots\<close>

lemma snapshot_new_verifies:
  assumes "snapshot_new H now twin n h st created = Inr s" "1 \<le> n" "twin \<noteq> []" "h \<noteq> []"
  shows "snapshot_verify H s = Inr ()"
  using assms by (auto simp: snapshot_new_def snapshot_verify_def bindE_Inr_iff)

lemma snapshot_new_fields:
  assumes "snapshot_new H now twin n h st created = Inr s"
  shows "sn_twin_id s = twin" "sn_sequence s = n" "sn_last_event_hash s = h" "sn_state s = st"
  using assms by (auto simp: snapshot_new_def bindE_Inr_iff)

end
