(* ===== verification/K2_Ownership.thy ===== *)
theory K2_Ownership
  imports K2_Types
begin

text \<open>
  Event ownership at the service boundary (\<open>src/src/argo_dt/ownership.py\<close>): which producer
  role may create which event type, and the check of an event against the verified identity of
  its author. Shown: an event type outside the table is always denied, the decision to allow is
  exactly the five conditions, and every type in the table has one owner.
\<close>

definition EVENT_OWNERS :: "producer_role list dict" where
  "EVENT_OWNERS =
     [(''EvidenceIngested'', [INGEST_SERVICE]),
      (''EvidenceDeleted'', [INGEST_SERVICE]),
      (''AcquisitionCompleted'', [INGEST_SERVICE]),
      (''EntityLinked'', [IDENTITY_WORKER]),
      (''EntityUnlinked'', [IDENTITY_WORKER]),
      (''ClaimProposed'', [ADJUDICATION_WORKER]),
      (''ContradictionDetected'', [ADJUDICATION_WORKER]),
      (''ContradictionAdjudicated'', [HUMAN_REVIEW]),
      (''ReferralCreated'', [ADJUDICATION_WORKER]),
      (''ClaimAccepted'', [HUMAN_REVIEW]),
      (''ClaimContested'', [HUMAN_REVIEW]),
      (''ClaimRetired'', [HUMAN_REVIEW]),
      (''ClaimSuperseded'', [HUMAN_REVIEW]),
      (''CorrectionRecorded'', [HUMAN_REVIEW]),
      (''KernelCompiled'', [COMPILER]),
      (''EvaluationCompleted'', [COMPILER]),
      (''ReadinessChanged'', [COMPILER]),
      (''ProjectionIssued'', [PROJECTION_SERVICE]),
      (''ProjectionRevoked'', [PROJECTION_SERVICE]),
      (''ScenarioStatePredicted'', [SIMULATION_SERVICE]),
      (''AgentDecisionObserved'', [DOWNSTREAM_AGENT]),
      (''OutcomeSubmitted'', [DOWNSTREAM_AGENT]),
      (''DegradationDeclared'', [OPERATIONS_SERVICE]),
      (''DegradationCleared'', [OPERATIONS_SERVICE])]"

definition sole_event_owner :: "string \<Rightarrow> producer_role result" where
  "sole_event_owner ty =
     (case map_of EVENT_OWNERS ty of
        Some [r] \<Rightarrow> Inr r
      | _ \<Rightarrow> Inl (InvariantViolation (''legacy event type '' @ repr_str ty @ '' has no unambiguous producer role'')))"

definition authorize_intent :: "string \<Rightarrow> producer_role \<Rightarrow> actor \<Rightarrow> unit result" where
  "authorize_intent ty role a =
     (if role \<notin> roles a then Inl (AuthorizationDenied ''producer role is not present in actor claims'')
      else (case map_of EVENT_OWNERS ty of
              None \<Rightarrow> Inl (AuthorizationDenied ''unregistered event type is denied by default'')
            | Some allowed \<Rightarrow>
                if role \<notin> set allowed then Inl (AuthorizationDenied ''producer role does not own this event type'')
                else Inr ()))"

definition authorize_subject :: "actor \<Rightarrow> string option \<Rightarrow> unit result" where
  "authorize_subject a subject_id =
     (if actor_subject_id a \<noteq> None \<and> subject_id \<noteq> None \<and> actor_subject_id a \<noteq> subject_id
      then Inl (AuthorizationDenied ''actor subject scope does not match target subject'')
      else Inr ())"

text \<open>\<open>str(x) if x is not None else None\<close>\<close>

definition opt_of_val :: "pyval \<Rightarrow> string option" where
  "opt_of_val v = (if v = PNone then None else Some (py_str v))"

definition authorize :: "event \<Rightarrow> actor \<Rightarrow> unit result" where
  "authorize ev a =
     (if producer ev \<noteq> identity_id a
      then Inl (AuthorizationDenied ''event producer does not match authenticated actor'')
      else bindE (authorize_intent (event_type ev) (producer_role ev) a) (\<lambda>_.
        authorize_subject a (opt_of_val (pget (payload ev) ''subject_id''))))"

definition owns :: "producer_role \<Rightarrow> string \<Rightarrow> bool" where
  "owns r ty \<longleftrightarrow> (\<exists>rs. map_of EVENT_OWNERS ty = Some rs \<and> r \<in> set rs)"

text \<open>The table is a function with one owner per type.\<close>

lemma owners_singleton: "map_of EVENT_OWNERS ty = Some rs \<Longrightarrow> \<exists>r. rs = [r]"
proof -
  have "\<forall>(t, rs)\<in>set EVENT_OWNERS. \<exists>r. rs = [r]" by (simp add: EVENT_OWNERS_def)
  then show "map_of EVENT_OWNERS ty = Some rs \<Longrightarrow> \<exists>r. rs = [r]" by (auto dest!: map_of_SomeD)
qed

lemma sole_event_owner_iff: "sole_event_owner ty = Inr r \<longleftrightarrow> owns r ty"
  using owners_singleton[of ty]
  by (auto simp: sole_event_owner_def owns_def split: option.splits list.splits)

lemma owns_unique: "owns r ty \<Longrightarrow> owns q ty \<Longrightarrow> r = q"
  by (metis sole_event_owner_iff sum.inject(2))

lemma authorize_intent_iff:
  "authorize_intent ty role a = Inr () \<longleftrightarrow> role \<in> roles a \<and> owns role ty"
  by (auto simp: authorize_intent_def owns_def split: option.splits)

lemma authorize_subject_iff:
  "authorize_subject a s = Inr () \<longleftrightarrow> actor_subject_id a = None \<or> s = None \<or> actor_subject_id a = s"
  by (auto simp: authorize_subject_def)

lemma unit_result_cases: "(r :: unit result) = Inr () \<or> (\<exists>e. r = Inl e)"
  by (cases r) auto

text \<open>A refusal is always AuthorizationDenied: the three checks raise nothing else.\<close>

lemma authorize_error:
  assumes "authorize ev a = Inl e"
  shows "\<exists>m. e = AuthorizationDenied m"
  using assms
  by (auto simp: authorize_def authorize_intent_def authorize_subject_def bindE_Inl_iff
      split: option.splits if_splits)

lemma authorize_allow:
  "authorize ev a = Inr () \<longleftrightarrow>
     producer ev = identity_id a \<and> producer_role ev \<in> roles a \<and> owns (producer_role ev) (event_type ev)
     \<and> (actor_subject_id a = None \<or> pget (payload ev) ''subject_id'' = PNone
        \<or> actor_subject_id a = Some (py_str (pget (payload ev) ''subject_id'')))"
  by (auto simp: authorize_def bindE_Inr_iff authorize_intent_iff authorize_subject_iff opt_of_val_def)

end
