(* ===== verification/K2_Policy.thy ===== *)
theory K2_Policy
  imports K2_Types
begin

text \<open>
  The default-deny policy (\<open>src/src/argo_dt/policy.py\<close>): projections against a consent
  grant, actions against an authority grant, with the list of reasons of a refusal. The locale
  \<open>policy_evaluator\<close> is the contract of the policy port; the default policy is its
  interpretation, and the projection service rests on its facts.
\<close>

type_synonym projection_decision = "bool \<times> string list \<times> string set"

definition impact_order :: "int dict" where
  "impact_order = [(''critical'', 4), (''high'', 3), (''low'', 1), (''moderate'', 2), (''none'', 0)]"

definition impact_rank :: "string \<Rightarrow> int \<Rightarrow> int" where
  "impact_rank s d = (case map_of impact_order s of Some n \<Rightarrow> n | None \<Rightarrow> d)"

text \<open>\<open>if c: reasons.append(r)\<close>, as a list of the reasons whose condition holds.\<close>

definition reasons_of :: "(bool \<times> string) list \<Rightarrow> string list" where
  "reasons_of cs = map snd (filter fst cs)"

lemma reasons_of_Nil [simp]: "reasons_of cs = [] \<longleftrightarrow> (\<forall>c\<in>set cs. \<not> fst c)"
  by (auto simp: reasons_of_def filter_empty_conv)

definition evaluate_projection ::
  "int \<Rightarrow> projection_request \<Rightarrow> consent_grant option \<Rightarrow> string set \<Rightarrow> projection_decision result" where
  "evaluate_projection now rq consent available =
     (case consent of
        None \<Rightarrow> Inr (False, [''no_active_consent''], {})
      | Some c \<Rightarrow>
          bindE (consent_active_at c (utc now)) (\<lambda>active.
          let unknown = rq_requested_fields rq - available;
              ungranted = rq_requested_fields rq - cg_allowed_fields c;
              reasons = reasons_of
                [(\<not> active, ''consent_inactive''),
                 (cg_subject_id c \<noteq> rq_subject_id rq, ''subject_mismatch''),
                 (cg_recipient_id c \<noteq> rq_recipient_id rq, ''recipient_mismatch''),
                 (rq_purpose rq \<notin> cg_purposes c, ''purpose_not_granted''),
                 (rank (rq_maximum_sensitivity rq) > rank (cg_max_sensitivity c), ''sensitivity_exceeds_grant''),
                 (unknown \<noteq> {}, ''unsupported_field_request''),
                 (ungranted \<noteq> {}, ''field_not_granted'')];
              allowed = rq_requested_fields rq \<inter> cg_allowed_fields c \<inter> available
          in if reasons \<noteq> [] then Inr (False, reasons, {})
             else if allowed = {} then Inr (False, [''empty_projection''], {})
             else Inr (True, [''consent_and_policy_satisfied''], allowed)))"

definition evaluate_action ::
  "int \<Rightarrow> action_envelope \<Rightarrow> authority_grant option \<Rightarrow> (bool \<times> string list) result" where
  "evaluate_action now a grant =
     (case grant of
        None \<Rightarrow> Inr (False, [''no_authority_grant''])
      | Some g \<Rightarrow>
          bindE (authority_active_at g (utc now)) (\<lambda>active.
          bindE (dt_le (ae_expires_at a) (utc now)) (\<lambda>expired.
          bindE (if expired then Inr True else dt_less (utc now) (ae_issued_at a)) (\<lambda>inactive.
          let reasons = reasons_of
                [(\<not> active, ''authority_inactive''),
                 (inactive, ''action_envelope_inactive''),
                 (ag_principal_id g \<noteq> ae_principal_id a, ''principal_mismatch''),
                 (ag_actor_identity_id g \<noteq> ae_actor_identity_id a, ''actor_mismatch''),
                 (ae_purpose a \<notin> ag_purposes g, ''purpose_not_authorized''),
                 (\<not> ae_requested_capabilities a \<subseteq> ag_capabilities g, ''capability_not_authorized''),
                 (impact_rank (ae_impact a) 99 > impact_rank (ag_maximum_impact g) (-1), ''impact_exceeds_grant''),
                 (ag_require_reversible g \<and> \<not> ae_reversible a, ''irreversible_action_denied''),
                 (ae_evidence_ids a = [], ''action_has_no_evidence'')]
          in if reasons \<noteq> [] then Inr (False, reasons)
             else Inr (True, [''authority_and_constraints_satisfied''])))))"

section \<open>The contract of the port\<close>

text \<open>What a consent grants to a request at an instant: who, for what, how sensitive, which fields.\<close>

definition consent_covers :: "int \<Rightarrow> projection_request \<Rightarrow> consent_grant \<Rightarrow> bool" where
  "consent_covers now rq c \<longleftrightarrow>
     consent_active_at c (utc now) = Inr True
     \<and> cg_subject_id c = rq_subject_id rq \<and> cg_recipient_id c = rq_recipient_id rq
     \<and> rq_purpose rq \<in> cg_purposes c
     \<and> rq_maximum_sensitivity rq \<le> cg_max_sensitivity c
     \<and> rq_requested_fields rq \<subseteq> cg_allowed_fields c"

locale policy_evaluator =
  fixes evaluate :: "int \<Rightarrow> projection_request \<Rightarrow> consent_grant option \<Rightarrow> string set \<Rightarrow> projection_decision result"
  assumes allow_consent: "evaluate now rq consent available = Inr (True, reasons, granted) \<Longrightarrow>
      \<exists>c. consent = Some c \<and> consent_covers now rq c"
    and allow_fields: "evaluate now rq consent available = Inr (True, reasons, granted) \<Longrightarrow>
      granted \<noteq> {} \<and> granted \<subseteq> rq_requested_fields rq \<inter> available"
    and deny_fields: "evaluate now rq consent available = Inr (False, reasons, granted) \<Longrightarrow>
      granted = {} \<and> reasons \<noteq> []"
begin

lemma no_consent_denied:
  "evaluate now rq None available = Inr (allowed, reasons, granted) \<Longrightarrow> \<not> allowed \<and> granted = {}"
  using allow_consent[of now rq None available reasons granted] deny_fields[of now rq None available reasons granted]
  by (cases allowed) auto

lemma fields_granted:
  assumes "evaluate now rq (Some c) available = Inr (allowed, reasons, granted)"
  shows "granted \<subseteq> cg_allowed_fields c \<inter> rq_requested_fields rq \<inter> available"
proof (cases allowed)
  case True
  then show ?thesis
    using allow_consent[of now rq "Some c" available reasons granted]
      allow_fields[of now rq "Some c" available reasons granted] assms
    by (auto simp: consent_covers_def)
next
  case False
  then show ?thesis using deny_fields[of now rq "Some c" available reasons granted] assms by simp
qed

lemma revoked_denied:
  assumes "cg_revoked_at c \<noteq> None" "evaluate now rq (Some c) available = Inr (allowed, reasons, granted)"
  shows "\<not> allowed \<and> granted = {}"
proof -
  have "\<not> consent_covers now rq c" using assms(1) by (simp add: consent_covers_def consent_active_at_def)
  then show ?thesis
    using assms(2) allow_consent[of now rq "Some c" available reasons granted]
      deny_fields[of now rq "Some c" available reasons granted]
    by (cases allowed) auto
qed

end

lemma evaluate_projection_allow:
  "evaluate_projection now rq consent available = Inr (True, reasons, granted) \<longleftrightarrow>
     (\<exists>c. consent = Some c \<and> consent_covers now rq c \<and> rq_requested_fields rq \<subseteq> available
        \<and> granted = rq_requested_fields rq \<and> granted \<noteq> {} \<and> reasons = [''consent_and_policy_satisfied''])"
proof (cases consent)
  case None
  then show ?thesis by (simp add: evaluate_projection_def)
next
  case (Some c)
  show ?thesis
  proof (cases "consent_active_at c (utc now)")
    case (Inl e)
    then show ?thesis by (simp add: evaluate_projection_def consent_covers_def Some)
  next
    case (Inr b)
    then show ?thesis
      by (auto simp: evaluate_projection_def consent_covers_def Some Let_def less_eq_sensitivity_def)
  qed
qed

lemma evaluate_projection_deny:
  "evaluate_projection now rq consent available = Inr (False, reasons, granted) \<Longrightarrow> granted = {} \<and> reasons \<noteq> []"
  by (auto simp: evaluate_projection_def Let_def bindE_Inr_iff simp del: reasons_of_Nil
      split: option.splits if_splits)

interpretation default_policy: policy_evaluator evaluate_projection
proof unfold_locales
  fix now rq consent available reasons granted
  show "\<exists>c. consent = Some c \<and> consent_covers now rq c"
    if "evaluate_projection now rq consent available = Inr (True, reasons, granted)"
    using that by (auto simp: evaluate_projection_allow)
  show "granted \<noteq> {} \<and> granted \<subseteq> rq_requested_fields rq \<inter> available"
    if "evaluate_projection now rq consent available = Inr (True, reasons, granted)"
    using that by (auto simp: evaluate_projection_allow)
  show "granted = {} \<and> reasons \<noteq> []"
    if "evaluate_projection now rq consent available = Inr (False, reasons, granted)"
    using that by (rule evaluate_projection_deny)
qed

section \<open>Actions\<close>

text \<open>An action is allowed only by a live grant that covers all of it.\<close>

definition authority_covers :: "int \<Rightarrow> action_envelope \<Rightarrow> authority_grant \<Rightarrow> bool" where
  "authority_covers now a g \<longleftrightarrow>
     authority_active_at g (utc now) = Inr True
     \<and> within_half_open (ae_issued_at a) (Some (ae_expires_at a)) (utc now) = Inr True
     \<and> ag_principal_id g = ae_principal_id a \<and> ag_actor_identity_id g = ae_actor_identity_id a
     \<and> ae_purpose a \<in> ag_purposes g \<and> ae_requested_capabilities a \<subseteq> ag_capabilities g
     \<and> impact_rank (ae_impact a) 99 \<le> impact_rank (ag_maximum_impact g) (-1)
     \<and> (ag_require_reversible g \<longrightarrow> ae_reversible a) \<and> ae_evidence_ids a \<noteq> []"

lemma action_window:
  assumes "\<not> naive (ae_issued_at a)" "\<not> naive (ae_expires_at a)"
  shows "within_half_open (ae_issued_at a) (Some (ae_expires_at a)) (utc now) = Inr True \<longleftrightarrow>
    instant (ae_issued_at a) \<le> now \<and> now < instant (ae_expires_at a)"
  using assms by (auto simp: within_half_open_def)

lemma evaluate_action_allow:
  assumes "\<not> naive (ae_issued_at a)" "\<not> naive (ae_expires_at a)"
  shows "evaluate_action now a grant = Inr (True, reasons) \<longleftrightarrow>
    (\<exists>g. grant = Some g \<and> authority_covers now a g) \<and> reasons = [''authority_and_constraints_satisfied'']"
proof (cases grant)
  case None
  then show ?thesis by (simp add: evaluate_action_def)
next
  case (Some g)
  show ?thesis
  proof (cases "authority_active_at g (utc now)")
    case (Inl e)
    then show ?thesis by (simp add: evaluate_action_def authority_covers_def Some)
  next
    case (Inr b)
    show ?thesis
      using assms
      by (auto simp: evaluate_action_def authority_covers_def Some Inr Let_def action_window)
  qed
qed

text \<open>
  An impact outside the scale is never below a limit, and a limit outside the scale admits none.
\<close>

lemma impact_unknown_denied:
  assumes "map_of impact_order (ae_impact a) = None \<or> map_of impact_order (ag_maximum_impact g) = None"
  shows "\<not> authority_covers now a g"
proof -
  have "\<forall>(s, n)\<in>set impact_order. 0 \<le> n \<and> n \<le> 4" by (simp add: impact_order_def)
  then have "0 \<le> impact_rank s 99" "impact_rank s (-1) \<le> 4" for s
    by (auto simp: impact_rank_def dest!: map_of_SomeD split: option.splits)
  then show ?thesis
    using assms by (fastforce simp: authority_covers_def impact_rank_def split: option.splits)
qed

end
