(* ===== verification/K2_Aggregate.thy ===== *)
theory K2_Aggregate
  imports K2_Types
begin

text \<open>
  The aggregate of \<open>src/src/argo_dt/aggregate.py\<close>: the twin state, the validation of an
  event, one handler per event type and their dispatch \<open>apply_event\<close>, the queries
  \<open>select_valid_at\<close> and \<open>accepted_claims\<close>, the snapshot form of a state, and the replay loop
  of \<open>rebuild\<close>. The laws of these definitions are in \<open>K2_Aggregate_Laws\<close> and
  \<open>K2_Aggregate_Queries\<close>.
\<close>

section \<open>State\<close>

type_synonym records = "pydict dict"

record twin_state =
  st_twin_id :: string
  st_subject_id :: "string option"
  st_sequence :: int
  st_evidence :: records
  st_entity_links :: records
  st_unlinked_entity_ids :: "string set"
  st_stale_entity_link_ids :: "string set"
  st_claims :: records
  st_accepted_claim_ids :: "string set"
  st_contested_claim_ids :: "string set"
  st_retired_claim_ids :: "string set"
  st_superseded_evidence_ids :: "string set"
  st_superseded_claim_ids :: "string set"
  st_contradictions :: records
  st_adjudications :: records
  st_resolved_contradiction_ids :: "string set"
  st_corrections :: records
  st_issued_projections :: records
  st_revoked_projection_ids :: "string set"
  st_stale_claim_ids :: "string set"
  st_stale_projection_ids :: "string set"
  st_degraded_reasons :: "string list"
  st_last_event_hash :: string

definition init_state :: "string \<Rightarrow> twin_state" where
  "init_state twin =
     \<lparr>st_twin_id = twin, st_subject_id = None, st_sequence = 0, st_evidence = [], st_entity_links = [],
      st_unlinked_entity_ids = {}, st_stale_entity_link_ids = {}, st_claims = [],
      st_accepted_claim_ids = {}, st_contested_claim_ids = {}, st_retired_claim_ids = {},
      st_superseded_evidence_ids = {}, st_superseded_claim_ids = {}, st_contradictions = [],
      st_adjudications = [], st_resolved_contradiction_ids = {}, st_corrections = [],
      st_issued_projections = [], st_revoked_projection_ids = {}, st_stale_claim_ids = {},
      st_stale_projection_ids = {}, st_degraded_reasons = [], st_last_event_hash = []\<rparr>"

section \<open>Validation\<close>

definition violation :: "string \<Rightarrow> 'a result" where
  "violation m = Inl (InvariantViolation m)"

definition require :: "bool \<Rightarrow> string \<Rightarrow> unit result" where
  "require b m = (if b then Inr () else violation m)"

text \<open>\<open>p or q\<close> of two conditions the second of which can raise.\<close>

definition orE :: "bool \<Rightarrow> bool result \<Rightarrow> bool result" where
  "orE b r = (if b then Inr True else r)"

definition is_list :: "pyval \<Rightarrow> bool" where
  "is_list v \<longleftrightarrow> (case v of PList _ \<Rightarrow> True | _ \<Rightarrow> False)"

definition list_val :: "pyval \<Rightarrow> pyval list" where
  "list_val v = (case v of PList xs \<Rightarrow> xs | _ \<Rightarrow> [])"

definition provenance_refs :: "pyval \<Rightarrow> pydict list" where
  "provenance_refs v = map dict_val (list_val v)"

definition validate_provenance :: "pyval \<Rightarrow> string \<Rightarrow> pydict list result" where
  "validate_provenance v ty =
     bindE (require (is_list v \<and> list_val v \<noteq> []) (ty @ '' requires non-empty provenance'')) (\<lambda>_.
     bindE (require (list_all is_dict (list_val v)) ''provenance references must be objects'') (\<lambda>_.
     let refs = provenance_refs v; ids = map (\<lambda>r. pget r ''evidence_id'') refs in
     bindE (require (list_all py_truthy ids) ''every provenance reference requires evidence_id'') (\<lambda>_.
     bindE (all_distinct ids) (\<lambda>b.
     bindE (require b ''duplicate evidence cannot count as independent support'') (\<lambda>_.
     bindE (require (list_all (\<lambda>r. py_truthy (pget r ''relation'') \<and> py_truthy (pget r ''independence_group'')) refs)
        ''every provenance reference requires relation and independence_group'') (\<lambda>_.
     Inr refs))))))"

definition bind_subject :: "twin_state \<Rightarrow> string \<Rightarrow> twin_state result" where
  "bind_subject s sub =
     (if sub = [] then violation ''subject_id is required''
      else if st_subject_id s \<noteq> None \<and> st_subject_id s \<noteq> Some sub
      then violation ''event subject does not match twin subject''
      else Inr (s\<lparr>st_subject_id := Some sub\<rparr>))"

definition validate_epistemic :: "pyval \<Rightarrow> unit result" where
  "validate_epistemic v =
     (if \<not> is_dict v \<or> set (dict_keys (dict_val v)) \<noteq> set epistemic_dimensions
      then violation ''epistemic vector requires exactly seven independent dimensions''
      else (case make_epistemic (dict_val v) of
              Inr _ \<Rightarrow> Inr ()
            | Inl TypeError \<Rightarrow> violation ''epistemic dimensions must be numeric''
            | Inl (ValueError m) \<Rightarrow> violation ''epistemic dimensions must be numeric''
            | Inl e \<Rightarrow> Inl e))"

definition all_truthy :: "pydict \<Rightarrow> string list \<Rightarrow> bool" where
  "all_truthy p ks \<longleftrightarrow> list_all (\<lambda>k. py_truthy (pget p k)) ks"

definition missing_fields :: "pydict \<Rightarrow> string list \<Rightarrow> string list" where
  "missing_fields p ks = filter (\<lambda>k. \<not> dict_has p k) ks"

definition require_fields :: "string \<Rightarrow> pydict \<Rightarrow> string list \<Rightarrow> unit result" where
  "require_fields ty p ks =
     require (missing_fields p ks = []) (ty @ '' missing fields: '' @ join '', '' (missing_fields p ks))"

definition validate_evidence_ingested :: "pydict \<Rightarrow> unit result" where
  "validate_evidence_ingested p =
     bindE (require_fields ''EvidenceIngested'' p
        [''content_hash'', ''evidence_id'', ''independence_group'', ''rights'', ''sensitivity'', ''source'', ''subject_id'']) (\<lambda>_.
     bindE (require (all_truthy p
        [''content_hash'', ''evidence_id'', ''independence_group'', ''sensitivity'', ''source'', ''subject_id''])
        ''EvidenceIngested required fields cannot be empty'') (\<lambda>_.
     bindE (require (is_dict (pget p ''rights'')) ''EvidenceIngested rights must be an object'') (\<lambda>_.
     require (ok (sensitivity_of (py_str (pget p ''sensitivity'')))) ''EvidenceIngested sensitivity is invalid'')))"

definition validate_claim_proposed :: "pydict \<Rightarrow> unit result" where
  "validate_claim_proposed p =
     bindE (validate_provenance (pget p ''provenance'') ''ClaimProposed'') (\<lambda>_.
     bindE (require (all_truthy p [''claim_id'', ''subject_id'', ''statement''])
        ''ClaimProposed requires claim_id, subject_id, and statement'') (\<lambda>_.
     validate_epistemic (pget p ''epistemic'')))"

definition validate_entity_linked :: "pydict \<Rightarrow> unit result" where
  "validate_entity_linked p =
     bindE (require (all_truthy p [''entity_link_id'', ''subject_id'', ''namespace'', ''entity_id''])
        ''EntityLinked identity fields are required'') (\<lambda>_.
     bindE (validate_provenance (pget p ''provenance'') ''EntityLinked'') (\<lambda>_.
     require (in_unit (pget p ''confidence'') = Inr True) ''EntityLinked confidence must be in [0, 1]''))"

definition validate_contradiction_detected :: "event \<Rightarrow> unit result" where
  "validate_contradiction_detected ev =
     (let p = payload ev; v = pget p ''claim_ids'' in
     bindE (orE (\<not> py_truthy (pget p ''contradiction_id'') \<or> \<not> is_list v \<or> length (list_val v) < 2)
        (bindE (all_distinct (list_val v)) (\<lambda>b. Inr (\<not> b \<or> \<not> list_all py_truthy (list_val v))))) (\<lambda>bad.
     bindE (require (\<not> bad) ''ContradictionDetected requires an identity and distinct claims'') (\<lambda>_.
     require (\<not> (sequence ev = 0 \<and>
          (\<not> py_truthy (pget p ''subject_id'')
           \<or> (case pget p ''basis'' of PStr b \<Rightarrow> py_strip b = [] | _ \<Rightarrow> True))))
        ''new ContradictionDetected events require subject_id and basis'')))"

definition contradiction_resolutions :: "string list" where
  "contradiction_resolutions = [''uphold'', ''retain_competing'', ''insufficient_evidence'', ''corrected'']"

definition validate_contradiction_adjudicated :: "pydict \<Rightarrow> unit result" where
  "validate_contradiction_adjudicated p =
     (let v = pget p ''preferred_claim_ids'' in
     bindE (orE (\<not> all_truthy p [''contradiction_id'', ''subject_id'', ''reviewer_identity_id''])
       (bindE (in_str_set (pget p ''resolution'') contradiction_resolutions) (\<lambda>known.
        orE (\<not> known \<or> \<not> py_truthy (pget p ''rationale'') \<or> \<not> is_list v)
          (bindE (all_distinct (list_val v)) (\<lambda>b. Inr (\<not> b \<or> \<not> list_all py_truthy (list_val v))))))) (\<lambda>bad.
     require (\<not> bad) ''ContradictionAdjudicated requires resolution, rationale, and preferences''))"

definition validate_correction_recorded :: "pydict \<Rightarrow> unit result" where
  "validate_correction_recorded p =
     bindE (require (all_truthy p [''correction_id'', ''subject_id'', ''target_kind'', ''target_id'',
        ''replacement_id'', ''reviewer_identity_id'', ''rationale'']) ''CorrectionRecorded fields are required'') (\<lambda>_.
     bindE (in_str_set (pget p ''target_kind'') [''evidence'', ''claim'']) (\<lambda>b.
     bindE (require b ''correction target_kind must be evidence or claim'') (\<lambda>_.
     require (\<not> py_eq (pget p ''target_id'') (pget p ''replacement_id''))
        ''correction target and replacement must differ'')))"

definition projection_events :: "string list" where
  "projection_events = [''ProjectionIssued'', ''ProjectionRevoked'']"

definition validate_payload :: "event \<Rightarrow> unit result" where
  "validate_payload ev =
     (let ty = event_type ev; p = payload ev in
      if ty = ''EvidenceIngested'' then validate_evidence_ingested p
      else if ty = ''ClaimProposed'' then validate_claim_proposed p
      else if ty = ''EntityLinked'' then validate_entity_linked p
      else if ty = ''EntityUnlinked'' then
        require (all_truthy p [''entity_link_id'', ''reason'']) ''EntityUnlinked requires entity_link_id and reason''
      else if ty = ''ContradictionDetected'' then validate_contradiction_detected ev
      else if ty = ''ContradictionAdjudicated'' then validate_contradiction_adjudicated p
      else if ty = ''CorrectionRecorded'' then validate_correction_recorded p
      else if ty = ''EvidenceDeleted'' then
        require (py_truthy (pget p ''evidence_id'')) ''EvidenceDeleted requires evidence_id''
      else if ty \<in> {''ClaimAccepted'', ''ClaimContested'', ''ClaimRetired'', ''ClaimSuperseded''} then
        require (py_truthy (pget p ''claim_id'')) (ty @ '' requires claim_id'')
      else if ty = ''ProjectionIssued'' then
        require_fields ''ProjectionIssued'' p [''projection_id'', ''purpose'', ''receipt_hash'', ''recipient_id'']
      else if ty = ''ProjectionRevoked'' then
        require (py_truthy (pget p ''projection_id'')) ''ProjectionRevoked requires projection_id''
      else Inr ())"

definition validate_event :: "event \<Rightarrow> unit result" where
  "validate_event ev =
     bindE (require (twin_id ev \<noteq> [] \<and> producer ev \<noteq> [] \<and> idempotency_key ev \<noteq> [])
        ''event twin_id, producer, and idempotency_key are required'') (\<lambda>_.
     bindE (require (schema_version ev \<in> {''argo.dt.event/v1'', ''argo.dt.event/v2''})
        ''unsupported event schema version'') (\<lambda>_.
     bindE (require (\<not> (schema_version ev = ''argo.dt.event/v1'' \<and> sequence ev = 0))
        ''new writes must use EventEnvelope v2'') (\<lambda>_.
     bindE (require (\<not> naive (occurred_at ev)) ''event occurred_at must be timezone-aware'') (\<lambda>_.
     bindE (require (plane ev = PROJECTION \<longrightarrow> event_type ev \<in> set projection_events)
        ''projection plane accepts projection events only'') (\<lambda>_.
     bindE (require (event_type ev \<in> set projection_events \<longrightarrow> plane ev = PROJECTION)
        ''projection events must use the projection plane'') (\<lambda>_.
     validate_payload ev))))))"

section \<open>Handlers\<close>

text \<open>The payload of a recorded fact, stamped with the time the store recorded it.\<close>

definition stamped :: "event \<Rightarrow> pydict" where
  "stamped ev = dict_set ''recorded_at'' (PStr (isoformat (recorded_at ev))) (payload ev)"

definition text_item :: "pydict \<Rightarrow> string \<Rightarrow> string result" where
  "text_item p k = bindE (item p k) (\<lambda>v. Inr (py_str v))"

text \<open>The provenance loop of \<open>EntityLinked\<close> and \<open>ClaimProposed\<close>.\<close>

definition check_provenance :: "string \<Rightarrow> twin_state \<Rightarrow> pydict \<Rightarrow> unit result" where
  "check_provenance kind s p =
     bindE (item p ''provenance'') (\<lambda>v. bindE (py_iter v) (\<lambda>refs.
       foldE (\<lambda>_ ref.
         bindE (val_item ref ''evidence_id'') (\<lambda>eid.
         case map_of (st_evidence s) (py_str eid) of
           None \<Rightarrow> violation (kind @ '' provenance references unknown evidence'')
         | Some evidence \<Rightarrow>
             bindE (val_get ref ''independence_group'') (\<lambda>g.
             require (py_eq g (pget evidence ''independence_group''))
               (kind @ '' provenance independence group does not match evidence'')))) () refs))"

definition h_evidence_ingested :: "event \<Rightarrow> twin_state \<Rightarrow> twin_state result" where
  "h_evidence_ingested ev s =
     bindE (text_item (payload ev) ''subject_id'') (\<lambda>sub.
     bindE (bind_subject s sub) (\<lambda>s.
     bindE (text_item (payload ev) ''evidence_id'') (\<lambda>eid.
     bindE (require (\<not> dict_has (st_evidence s) eid)
        ''evidence identity already exists; append a correction event'') (\<lambda>_.
     Inr (s\<lparr>st_evidence := dict_set eid (payload ev) (st_evidence s)\<rparr>)))))"

definition h_entity_linked :: "event \<Rightarrow> twin_state \<Rightarrow> twin_state result" where
  "h_entity_linked ev s =
     bindE (text_item (payload ev) ''subject_id'') (\<lambda>sub.
     bindE (bind_subject s sub) (\<lambda>s.
     bindE (check_provenance ''entity'' s (payload ev)) (\<lambda>_.
     bindE (text_item (payload ev) ''entity_link_id'') (\<lambda>link_id.
     bindE (require (\<not> dict_has (st_entity_links s) link_id) ''entity link identity already exists'') (\<lambda>_.
     Inr (s\<lparr>st_entity_links := dict_set link_id (stamped ev) (st_entity_links s)\<rparr>))))))"

definition h_entity_unlinked :: "event \<Rightarrow> twin_state \<Rightarrow> twin_state result" where
  "h_entity_unlinked ev s =
     bindE (text_item (payload ev) ''entity_link_id'') (\<lambda>link_id.
     bindE (require (dict_has (st_entity_links s) link_id) ''cannot unlink an unknown entity'') (\<lambda>_.
     bindE (require (link_id \<notin> st_unlinked_entity_ids s) ''entity link is already inactive'') (\<lambda>_.
     Inr (s\<lparr>st_unlinked_entity_ids := insert link_id (st_unlinked_entity_ids s)\<rparr>))))"

text \<open>
  \<open>any(ref.get("evidence_id") == e for ref in record.get("provenance", []))\<close>; the identifiers
  compare as they are, without \<open>str\<close>.
\<close>

definition cites :: "string \<Rightarrow> pydict \<Rightarrow> bool result" where
  "cites e rec =
     bindE (py_iter (get_or rec ''provenance'' (PList []))) (\<lambda>refs.
       anyE (\<lambda>ref. bindE (val_get ref ''evidence_id'') (\<lambda>v. Inr (v = PStr e))) refs)"

text \<open>A loop over \<open>records.items()\<close> that adds the identifiers of the records with a property.\<close>

definition mark_where :: "(pydict \<Rightarrow> bool result) \<Rightarrow> records \<Rightarrow> string set \<Rightarrow> string set result" where
  "mark_where p recs marks =
     foldE (\<lambda>m kv. bindE (p (snd kv)) (\<lambda>b. Inr (if b then insert (fst kv) m else m))) marks recs"

text \<open>\<open>set(projection.get("source_claim_ids", []))\<close>, and the same with \<open>str\<close> of each.\<close>

definition raw_sources :: "pydict \<Rightarrow> pyval list result" where
  "raw_sources rec =
     bindE (py_iter (get_or rec ''source_claim_ids'' (PList []))) (\<lambda>xs.
       if list_all hashable xs then Inr xs else Inl TypeError)"

definition text_sources :: "pydict \<Rightarrow> string list result" where
  "text_sources rec =
     bindE (py_iter (get_or rec ''source_claim_ids'' (PList []))) (\<lambda>xs. Inr (map py_str xs))"

definition raw_source_in :: "string set \<Rightarrow> pydict \<Rightarrow> bool result" where
  "raw_source_in ids rec = bindE (raw_sources rec) (\<lambda>xs. Inr (\<exists>x\<in>set xs. case x of PStr c \<Rightarrow> c \<in> ids | _ \<Rightarrow> False))"

definition text_source_in :: "string set \<Rightarrow> pydict \<Rightarrow> bool result" where
  "text_source_in ids rec = bindE (text_sources rec) (\<lambda>cs. Inr (\<exists>c\<in>set cs. c \<in> ids))"

definition h_evidence_deleted :: "event \<Rightarrow> twin_state \<Rightarrow> twin_state result" where
  "h_evidence_deleted ev s =
     bindE (text_item (payload ev) ''evidence_id'') (\<lambda>e.
     bindE (require (dict_has (st_evidence s) e) ''cannot delete unknown evidence'') (\<lambda>_.
     bindE (mark_where (cites e) (st_entity_links s) (st_stale_entity_link_ids s)) (\<lambda>links.
     bindE (mark_where (cites e) (st_claims s) (st_stale_claim_ids s)) (\<lambda>claims.
     bindE (mark_where (raw_source_in claims) (st_issued_projections s) (st_stale_projection_ids s)) (\<lambda>projections.
     Inr (s\<lparr>st_evidence := dict_pop e (st_evidence s), st_stale_entity_link_ids := links,
            st_stale_claim_ids := claims, st_stale_projection_ids := projections\<rparr>))))))"

definition h_claim_proposed :: "event \<Rightarrow> twin_state \<Rightarrow> twin_state result" where
  "h_claim_proposed ev s =
     bindE (text_item (payload ev) ''subject_id'') (\<lambda>sub.
     bindE (bind_subject s sub) (\<lambda>s.
     bindE (check_provenance ''claim'' s (payload ev)) (\<lambda>_.
     bindE (text_item (payload ev) ''claim_id'') (\<lambda>c.
     bindE (require (\<not> dict_has (st_claims s) c) ''claim identity already exists; append a supersession event'') (\<lambda>_.
     Inr (s\<lparr>st_claims := dict_set c (stamped ev) (st_claims s)\<rparr>))))))"

definition closed_claim :: "twin_state \<Rightarrow> string \<Rightarrow> bool" where
  "closed_claim s c \<longleftrightarrow> c \<in> st_retired_claim_ids s \<or> c \<in> st_superseded_claim_ids s"

definition h_claim_accepted :: "event \<Rightarrow> twin_state \<Rightarrow> twin_state result" where
  "h_claim_accepted ev s =
     bindE (text_item (payload ev) ''claim_id'') (\<lambda>c.
     bindE (require (dict_has (st_claims s) c) ''cannot accept an unknown claim'') (\<lambda>_.
     bindE (require (\<not> closed_claim s c) ''cannot accept a retired or superseded claim'') (\<lambda>_.
     Inr (s\<lparr>st_accepted_claim_ids := insert c (st_accepted_claim_ids s),
            st_contested_claim_ids := st_contested_claim_ids s - {c}\<rparr>))))"

definition h_claim_contested :: "event \<Rightarrow> twin_state \<Rightarrow> twin_state result" where
  "h_claim_contested ev s =
     bindE (text_item (payload ev) ''claim_id'') (\<lambda>c.
     bindE (require (dict_has (st_claims s) c) ''cannot contest an unknown claim'') (\<lambda>_.
     bindE (require (\<not> closed_claim s c) ''cannot contest a retired or superseded claim'') (\<lambda>_.
     Inr (s\<lparr>st_contested_claim_ids := insert c (st_contested_claim_ids s),
            st_accepted_claim_ids := st_accepted_claim_ids s - {c}\<rparr>))))"

definition h_claim_retired :: "event \<Rightarrow> twin_state \<Rightarrow> twin_state result" where
  "h_claim_retired ev s =
     bindE (text_item (payload ev) ''claim_id'') (\<lambda>c.
     bindE (require (dict_has (st_claims s) c) ''cannot retire an unknown claim'') (\<lambda>_.
     Inr (s\<lparr>st_accepted_claim_ids := st_accepted_claim_ids s - {c},
            st_contested_claim_ids := st_contested_claim_ids s - {c},
            st_retired_claim_ids := insert c (st_retired_claim_ids s)\<rparr>)))"

definition h_claim_superseded :: "event \<Rightarrow> twin_state \<Rightarrow> twin_state result" where
  "h_claim_superseded ev s =
     bindE (text_item (payload ev) ''claim_id'') (\<lambda>c.
     let successor = py_str (get_or (payload ev) ''successor_claim_id'' (PStr [])) in
     bindE (require (successor \<noteq> []) ''ClaimSuperseded requires successor_claim_id'') (\<lambda>_.
     bindE (require (dict_has (st_claims s) c \<and> dict_has (st_claims s) successor)
        ''supersession requires known predecessor and successor'') (\<lambda>_.
     bindE (require (c \<notin> st_superseded_claim_ids s) ''claim is already superseded'') (\<lambda>_.
     bindE (mark_where (raw_source_in {c}) (st_issued_projections s) (st_stale_projection_ids s)) (\<lambda>projections.
     Inr (s\<lparr>st_accepted_claim_ids := st_accepted_claim_ids s - {c},
            st_contested_claim_ids := st_contested_claim_ids s - {c},
            st_superseded_claim_ids := insert c (st_superseded_claim_ids s),
            st_stale_projection_ids := projections\<rparr>))))))"

definition h_contradiction_detected :: "event \<Rightarrow> twin_state \<Rightarrow> twin_state result" where
  "h_contradiction_detected ev s =
     bindE (text_item (payload ev) ''contradiction_id'') (\<lambda>k.
     bindE (require (\<not> dict_has (st_contradictions s) k) ''contradiction identity already exists'') (\<lambda>_.
     bindE (if pget (payload ev) ''subject_id'' \<noteq> PNone
            then bind_subject s (py_str (pget (payload ev) ''subject_id'')) else Inr s) (\<lambda>s.
     bindE (item (payload ev) ''claim_ids'') (\<lambda>v. bindE (py_iter v) (\<lambda>ids.
     bindE (require (list_all (\<lambda>x. dict_has (st_claims s) (py_str x)) ids)
        ''contradiction references unknown claims'') (\<lambda>_.
     Inr (s\<lparr>st_contradictions := dict_set k (stamped ev) (st_contradictions s)\<rparr>)))))))"

definition text_list :: "pyval \<Rightarrow> string list result" where
  "text_list v = bindE (py_iter v) (\<lambda>xs. Inr (map py_str xs))"

definition h_contradiction_adjudicated :: "event \<Rightarrow> twin_state \<Rightarrow> twin_state result" where
  "h_contradiction_adjudicated ev s =
     bindE (text_item (payload ev) ''contradiction_id'') (\<lambda>k.
     case map_of (st_contradictions s) k of
       None \<Rightarrow> violation ''cannot adjudicate an unknown contradiction''
     | Some rec \<Rightarrow>
       bindE (require (k \<notin> st_resolved_contradiction_ids s) ''contradiction is already adjudicated'') (\<lambda>_.
       bindE (text_list (get_or rec ''claim_ids'' (PList []))) (\<lambda>claim_ids.
       bindE (item (payload ev) ''preferred_claim_ids'') (\<lambda>v.
       bindE (text_list v) (\<lambda>preferred.
       bindE (require (set preferred \<subseteq> set claim_ids) ''preferred claims must belong to the contradiction'') (\<lambda>_.
       bindE (item (payload ev) ''resolution'') (\<lambda>r.
       bindE (in_str_set r [''uphold'', ''corrected'']) (\<lambda>needs.
       bindE (require (\<not> (needs \<and> preferred = [])) ''this resolution requires a preferred claim'') (\<lambda>_.
       bindE (text_item (payload ev) ''subject_id'') (\<lambda>sub.
       bindE (bind_subject s sub) (\<lambda>s.
       Inr (s\<lparr>st_adjudications := dict_set k (stamped ev) (st_adjudications s),
              st_resolved_contradiction_ids := insert k (st_resolved_contradiction_ids s)\<rparr>))))))))))))"

definition h_correct_evidence :: "string \<Rightarrow> twin_state \<Rightarrow> twin_state result" where
  "h_correct_evidence target s =
     bindE (mark_where (cites target) (st_entity_links s) (st_stale_entity_link_ids s)) (\<lambda>links.
     bindE (mark_where (cites target) (st_claims s) (st_stale_claim_ids s)) (\<lambda>claims.
     bindE (mark_where (text_source_in claims) (st_issued_projections s) (st_stale_projection_ids s)) (\<lambda>projections.
     Inr (s\<lparr>st_superseded_evidence_ids := insert target (st_superseded_evidence_ids s),
            st_stale_entity_link_ids := links, st_stale_claim_ids := claims,
            st_stale_projection_ids := projections\<rparr>))))"

definition h_correct_claim :: "string \<Rightarrow> twin_state \<Rightarrow> twin_state result" where
  "h_correct_claim target s =
     bindE (mark_where (text_source_in {target}) (st_issued_projections s) (st_stale_projection_ids s)) (\<lambda>projections.
     Inr (s\<lparr>st_superseded_claim_ids := insert target (st_superseded_claim_ids s),
            st_accepted_claim_ids := st_accepted_claim_ids s - {target},
            st_contested_claim_ids := st_contested_claim_ids s - {target},
            st_stale_projection_ids := projections\<rparr>))"

definition h_correction_recorded :: "event \<Rightarrow> twin_state \<Rightarrow> twin_state result" where
  "h_correction_recorded ev s =
     bindE (text_item (payload ev) ''subject_id'') (\<lambda>sub.
     bindE (bind_subject s sub) (\<lambda>s.
     bindE (text_item (payload ev) ''correction_id'') (\<lambda>k.
     bindE (require (\<not> dict_has (st_corrections s) k) ''correction identity already exists'') (\<lambda>_.
     bindE (text_item (payload ev) ''target_kind'') (\<lambda>kind.
     bindE (text_item (payload ev) ''target_id'') (\<lambda>target.
     bindE (text_item (payload ev) ''replacement_id'') (\<lambda>replacement.
     let recs = (if kind = ''evidence'' then st_evidence s else st_claims s);
         superseded = (if kind = ''evidence'' then st_superseded_evidence_ids s else st_superseded_claim_ids s) in
     bindE (require (dict_has recs target \<and> dict_has recs replacement)
        ''correction requires known target and replacement'') (\<lambda>_.
     bindE (require (target \<notin> superseded) ''correction target is already superseded'') (\<lambda>_.
     bindE (require (replacement \<notin> superseded) ''correction replacement is already superseded'') (\<lambda>_.
     let s = s\<lparr>st_corrections := dict_set k (stamped ev) (st_corrections s)\<rparr> in
     if kind = ''evidence'' then h_correct_evidence target s else h_correct_claim target s))))))))))"

definition h_projection_revoked :: "event \<Rightarrow> twin_state \<Rightarrow> twin_state result" where
  "h_projection_revoked ev s =
     bindE (text_item (payload ev) ''projection_id'') (\<lambda>k.
     bindE (require (dict_has (st_issued_projections s) k) ''cannot revoke an unknown projection'') (\<lambda>_.
     Inr (s\<lparr>st_revoked_projection_ids := insert k (st_revoked_projection_ids s)\<rparr>)))"

definition h_projection_issued :: "event \<Rightarrow> twin_state \<Rightarrow> twin_state result" where
  "h_projection_issued ev s =
     bindE (require (st_subject_id s \<noteq> None) ''cannot issue a projection for an unbound twin'') (\<lambda>_.
     bindE (text_item (payload ev) ''projection_id'') (\<lambda>k.
     bindE (require (\<not> dict_has (st_issued_projections s) k) ''projection identity already exists'') (\<lambda>_.
     Inr (s\<lparr>st_issued_projections := dict_set k (payload ev) (st_issued_projections s)\<rparr>))))"

definition h_degradation_declared :: "event \<Rightarrow> twin_state \<Rightarrow> twin_state result" where
  "h_degradation_declared ev s =
     bindE (text_item (payload ev) ''reason'') (\<lambda>r.
     Inr (s\<lparr>st_degraded_reasons := st_degraded_reasons s @ [r]\<rparr>))"

definition h_degradation_cleared :: "event \<Rightarrow> twin_state \<Rightarrow> twin_state result" where
  "h_degradation_cleared ev s =
     bindE (text_item (payload ev) ''reason'') (\<lambda>r.
     Inr (s\<lparr>st_degraded_reasons := filter (\<lambda>x. x \<noteq> r) (st_degraded_reasons s)\<rparr>))"

section \<open>Dispatch\<close>

definition handlers :: "(event \<Rightarrow> twin_state \<Rightarrow> twin_state result) dict" where
  "handlers =
     [(''EvidenceIngested'', h_evidence_ingested),
      (''EntityLinked'', h_entity_linked),
      (''EntityUnlinked'', h_entity_unlinked),
      (''EvidenceDeleted'', h_evidence_deleted),
      (''ClaimProposed'', h_claim_proposed),
      (''ClaimAccepted'', h_claim_accepted),
      (''ClaimContested'', h_claim_contested),
      (''ClaimRetired'', h_claim_retired),
      (''ClaimSuperseded'', h_claim_superseded),
      (''ContradictionDetected'', h_contradiction_detected),
      (''ContradictionAdjudicated'', h_contradiction_adjudicated),
      (''CorrectionRecorded'', h_correction_recorded),
      (''ProjectionRevoked'', h_projection_revoked),
      (''ProjectionIssued'', h_projection_issued),
      (''DegradationDeclared'', h_degradation_declared),
      (''DegradationCleared'', h_degradation_cleared)]"

text \<open>An event type without a branch changes nothing but the stream position.\<close>

definition handle :: "event \<Rightarrow> twin_state \<Rightarrow> twin_state result" where
  "handle ev s = (case map_of handlers (event_type ev) of Some h \<Rightarrow> h ev s | None \<Rightarrow> Inr s)"

definition apply_event :: "twin_state \<Rightarrow> event \<Rightarrow> twin_state result" where
  "apply_event s ev =
     bindE (validate_event ev) (\<lambda>_.
     bindE (require (plane ev \<noteq> SIMULATION) ''simulation events cannot mutate authoritative state'') (\<lambda>_.
     bindE (handle ev s) (\<lambda>s'.
     Inr (s'\<lparr>st_sequence := sequence ev, st_last_event_hash := event_hash ev\<rparr>))))"

end
