(* ===== verification/K2_Aggregate_Laws.thy ===== *)
theory K2_Aggregate_Laws
  imports K2_Aggregate
begin

text \<open>
  Laws of the aggregate: the invariant that every applied event keeps, what a twin never loses,
  lineage (a claim whose evidence is gone is stale), the life cycle of a claim as a state
  machine that the handlers simulate, and the rejections.
\<close>

named_theorems handler_defs \<open>the event handlers\<close>

declare h_evidence_ingested_def [handler_defs]
declare h_entity_linked_def [handler_defs]
declare h_entity_unlinked_def [handler_defs]
declare h_evidence_deleted_def [handler_defs]
declare h_claim_proposed_def [handler_defs]
declare h_claim_accepted_def [handler_defs]
declare h_claim_contested_def [handler_defs]
declare h_claim_retired_def [handler_defs]
declare h_claim_superseded_def [handler_defs]
declare h_contradiction_detected_def [handler_defs]
declare h_contradiction_adjudicated_def [handler_defs]
declare h_correct_evidence_def [handler_defs]
declare h_correct_claim_def [handler_defs]
declare h_correction_recorded_def [handler_defs]
declare h_projection_revoked_def [handler_defs]
declare h_projection_issued_def [handler_defs]
declare h_degradation_declared_def [handler_defs]
declare h_degradation_cleared_def [handler_defs]

section \<open>What a successful step has checked\<close>

lemma violation_not_Inr [simp]: "violation m \<noteq> Inr x" "Inr x \<noteq> violation m"
  by (simp_all add: violation_def)

lemma require_Inr [simp]: "require b m = Inr u \<longleftrightarrow> b"
  by (simp add: require_def)

lemma require_Inl: "require b m = Inl e \<longleftrightarrow> \<not> b \<and> e = InvariantViolation m"
  by (auto simp: require_def violation_def)

lemma case_option_Inr:
  "(case x of None \<Rightarrow> violation m | Some y \<Rightarrow> f y) = Inr z \<longleftrightarrow> (\<exists>y. x = Some y \<and> f y = Inr z)"
  by (cases x) simp_all

lemma bind_subject_Inr:
  "bind_subject s sub = Inr t \<longleftrightarrow>
     sub \<noteq> [] \<and> (st_subject_id s = None \<or> st_subject_id s = Some sub) \<and> t = s\<lparr>st_subject_id := Some sub\<rparr>"
  by (auto simp: bind_subject_def)

lemma text_item_Inr: "text_item p k = Inr x \<longleftrightarrow> (\<exists>v. map_of p k = Some v \<and> x = py_str v)"
  by (auto simp: text_item_def bindE_Inr_iff item_Inr_iff)

lemma mark_where_Inr:
  assumes "mark_where p recs m = Inr m'"
  shows "m' = m \<union> {k. \<exists>r. (k, r) \<in> set recs \<and> p r = Inr True}"
    and "\<forall>(k, r)\<in>set recs. \<exists>b. p r = Inr b"
  using assms
proof (induction recs arbitrary: m)
  case (Cons kr recs)
  case 1
  then obtain b where "p (snd kr) = Inr b"
    "mark_where p recs (if b then insert (fst kr) m else m) = Inr m'"
    by (auto simp: mark_where_def bindE_Inr_iff)
  then show ?case using Cons(1)[of "if b then insert (fst kr) m else m"]
    by (cases kr; cases b) auto
next
  case (Cons kr recs)
  case 2
  then obtain b where "p (snd kr) = Inr b"
    "mark_where p recs (if b then insert (fst kr) m else m) = Inr m'"
    by (auto simp: mark_where_def bindE_Inr_iff)
  then show ?case using Cons(2)[of "if b then insert (fst kr) m else m"]
    by (cases kr; cases b) auto
qed (simp_all add: mark_where_def)

lemma mark_where_dom: "mark_where p recs m = Inr m' \<Longrightarrow> m' \<subseteq> m \<union> dom (map_of recs)"
  using mark_where_Inr(1)[of p recs m m'] by (auto simp: dom_map_of_conv_image_fst image_iff) force

lemma mark_where_mono: "mark_where p recs m = Inr m' \<Longrightarrow> m \<subseteq> m'"
  using mark_where_Inr(1)[of p recs m m'] by auto

lemma mark_where_finite: "mark_where p recs m = Inr m' \<Longrightarrow> finite m \<Longrightarrow> finite m'"
  using mark_where_dom[of p recs m m'] by (auto simp: finite_dom_map_of dest: finite_subset)

text \<open>A relation between states that each handler respects is respected by the dispatch.\<close>

lemma handle_rel:
  assumes "handle ev s = Inr t"
    and "R s s"
    and "event_type ev = ''EvidenceIngested'' \<Longrightarrow> h_evidence_ingested ev s = Inr t \<Longrightarrow> R s t"
    and "event_type ev = ''EntityLinked'' \<Longrightarrow> h_entity_linked ev s = Inr t \<Longrightarrow> R s t"
    and "event_type ev = ''EntityUnlinked'' \<Longrightarrow> h_entity_unlinked ev s = Inr t \<Longrightarrow> R s t"
    and "event_type ev = ''EvidenceDeleted'' \<Longrightarrow> h_evidence_deleted ev s = Inr t \<Longrightarrow> R s t"
    and "event_type ev = ''ClaimProposed'' \<Longrightarrow> h_claim_proposed ev s = Inr t \<Longrightarrow> R s t"
    and "event_type ev = ''ClaimAccepted'' \<Longrightarrow> h_claim_accepted ev s = Inr t \<Longrightarrow> R s t"
    and "event_type ev = ''ClaimContested'' \<Longrightarrow> h_claim_contested ev s = Inr t \<Longrightarrow> R s t"
    and "event_type ev = ''ClaimRetired'' \<Longrightarrow> h_claim_retired ev s = Inr t \<Longrightarrow> R s t"
    and "event_type ev = ''ClaimSuperseded'' \<Longrightarrow> h_claim_superseded ev s = Inr t \<Longrightarrow> R s t"
    and "event_type ev = ''ContradictionDetected'' \<Longrightarrow> h_contradiction_detected ev s = Inr t \<Longrightarrow> R s t"
    and "event_type ev = ''ContradictionAdjudicated'' \<Longrightarrow> h_contradiction_adjudicated ev s = Inr t \<Longrightarrow> R s t"
    and "event_type ev = ''CorrectionRecorded'' \<Longrightarrow> h_correction_recorded ev s = Inr t \<Longrightarrow> R s t"
    and "event_type ev = ''ProjectionRevoked'' \<Longrightarrow> h_projection_revoked ev s = Inr t \<Longrightarrow> R s t"
    and "event_type ev = ''ProjectionIssued'' \<Longrightarrow> h_projection_issued ev s = Inr t \<Longrightarrow> R s t"
    and "event_type ev = ''DegradationDeclared'' \<Longrightarrow> h_degradation_declared ev s = Inr t \<Longrightarrow> R s t"
    and "event_type ev = ''DegradationCleared'' \<Longrightarrow> h_degradation_cleared ev s = Inr t \<Longrightarrow> R s t"
  shows "R s t"
proof (cases "map_of handlers (event_type ev)")
  case None
  then show ?thesis using assms(1,2) by (simp add: handle_def)
next
  case (Some h)
  have "h ev s = Inr t" using assms(1) Some by (simp add: handle_def)
  moreover have "(event_type ev, h) \<in> set handlers" using Some by (rule map_of_SomeD)
  ultimately show ?thesis unfolding handlers_def list.set insert_iff empty_iff prod.inject
    by (elim disjE conjE FalseE; hypsubst) (rule assms(3-); assumption)+
qed

lemma apply_event_Inr:
  "apply_event s ev = Inr t \<longleftrightarrow>
     validate_event ev = Inr () \<and> plane ev \<noteq> SIMULATION \<and>
     (\<exists>u. handle ev s = Inr u \<and> t = u\<lparr>st_sequence := sequence ev, st_last_event_hash := event_hash ev\<rparr>)"
  by (auto simp: apply_event_def bindE_Inr_iff)

lemma apply_event_position:
  "apply_event s ev = Inr t \<Longrightarrow> st_sequence t = sequence ev \<and> st_last_event_hash t = event_hash ev"
  by (auto simp: apply_event_Inr)

section \<open>The invariant\<close>

definition claim_sets_ok :: "twin_state \<Rightarrow> bool" where
  "claim_sets_ok s \<longleftrightarrow>
     st_accepted_claim_ids s \<union> st_contested_claim_ids s \<union> st_retired_claim_ids s
       \<union> st_superseded_claim_ids s \<union> st_stale_claim_ids s \<subseteq> dom (map_of (st_claims s))
     \<and> st_accepted_claim_ids s \<inter> st_contested_claim_ids s = {}
     \<and> (st_accepted_claim_ids s \<union> st_contested_claim_ids s)
        \<inter> (st_retired_claim_ids s \<union> st_superseded_claim_ids s) = {}"

definition other_sets_ok :: "twin_state \<Rightarrow> bool" where
  "other_sets_ok s \<longleftrightarrow>
     st_unlinked_entity_ids s \<union> st_stale_entity_link_ids s \<subseteq> dom (map_of (st_entity_links s))
     \<and> st_revoked_projection_ids s \<union> st_stale_projection_ids s \<subseteq> dom (map_of (st_issued_projections s))
     \<and> dom (map_of (st_adjudications s)) = st_resolved_contradiction_ids s
     \<and> st_resolved_contradiction_ids s \<subseteq> dom (map_of (st_contradictions s))
     \<and> finite (st_superseded_evidence_ids s)"

definition records_wf :: "twin_state \<Rightarrow> bool" where
  "records_wf s \<longleftrightarrow>
     wf_dict (st_evidence s) \<and> wf_dict (st_entity_links s) \<and> wf_dict (st_claims s)
     \<and> wf_dict (st_contradictions s) \<and> wf_dict (st_adjudications s) \<and> wf_dict (st_corrections s)
     \<and> wf_dict (st_issued_projections s)"

text \<open>
  Every identifier set lists recorded objects only, no claim is accepted and contested at once,
  a retired or superseded claim is neither, and the adjudications are those of the resolved
  contradictions.
\<close>

definition twin_inv :: "twin_state \<Rightarrow> bool" where
  "twin_inv s \<longleftrightarrow> claim_sets_ok s \<and> other_sets_ok s \<and> records_wf s"

lemma twin_inv_finite:
  assumes "twin_inv s"
  shows "finite (st_unlinked_entity_ids s)" "finite (st_stale_entity_link_ids s)"
    "finite (st_accepted_claim_ids s)" "finite (st_contested_claim_ids s)"
    "finite (st_retired_claim_ids s)" "finite (st_superseded_evidence_ids s)"
    "finite (st_superseded_claim_ids s)" "finite (st_resolved_contradiction_ids s)"
    "finite (st_revoked_projection_ids s)" "finite (st_stale_claim_ids s)" "finite (st_stale_projection_ids s)"
proof -
  have fin: "A \<subseteq> dom (map_of d) \<Longrightarrow> finite A" for A and d :: records
    using finite_dom_map_of finite_subset by metis
  show "finite (st_unlinked_entity_ids s)" "finite (st_stale_entity_link_ids s)"
    "finite (st_accepted_claim_ids s)" "finite (st_contested_claim_ids s)"
    "finite (st_retired_claim_ids s)" "finite (st_superseded_evidence_ids s)"
    "finite (st_superseded_claim_ids s)" "finite (st_resolved_contradiction_ids s)"
    "finite (st_revoked_projection_ids s)" "finite (st_stale_claim_ids s)" "finite (st_stale_projection_ids s)"
    using assms by (auto simp: twin_inv_def claim_sets_ok_def other_sets_ok_def intro: fin)
qed

lemma init_state_inv: "twin_inv (init_state twin)"
  by (simp add: twin_inv_def claim_sets_ok_def other_sets_ok_def records_wf_def init_state_def)

lemmas step_simps = handler_defs bindE_Inr_iff bind_subject_Inr text_item_Inr dict_has_dom Let_def

lemmas step_only = step_simps require_Inr case_option_Inr

text \<open>The effect of each handler where it succeeds, with what it has checked.\<close>

lemma evidence_ingested_effect:
  assumes "h_evidence_ingested ev s = Inr t"
  obtains e sub where "e \<notin> dom (map_of (st_evidence s))" "st_subject_id s = None \<or> st_subject_id s = Some sub"
    "t = s\<lparr>st_subject_id := Some sub, st_evidence := dict_set e (payload ev) (st_evidence s)\<rparr>"
    "text_item (payload ev) ''evidence_id'' = Inr e"
  using assms(1) unfolding h_evidence_ingested_def bindE_Inr_iff require_Inr bind_subject_Inr dict_has_dom by (elim exE conjE) (rule that; (assumption | (simp; fail) | ((rule sym, simp); fail) | blast))

lemma entity_linked_effect:
  assumes "h_entity_linked ev s = Inr t"
  obtains l sub where "l \<notin> dom (map_of (st_entity_links s))" "st_subject_id s = None \<or> st_subject_id s = Some sub"
    "t = s\<lparr>st_subject_id := Some sub, st_entity_links := dict_set l (stamped ev) (st_entity_links s)\<rparr>"
    "check_provenance ''entity'' (s\<lparr>st_subject_id := Some sub\<rparr>) (payload ev) = Inr ()"
    "text_item (payload ev) ''entity_link_id'' = Inr l"
  using assms(1) unfolding h_entity_linked_def bindE_Inr_iff require_Inr bind_subject_Inr dict_has_dom by (elim exE conjE) (rule that; (assumption | (simp; fail) | ((rule sym, simp); fail) | blast))

lemma entity_unlinked_effect:
  assumes "h_entity_unlinked ev s = Inr t"
  obtains l where "l \<in> dom (map_of (st_entity_links s))" "l \<notin> st_unlinked_entity_ids s"
    "t = s\<lparr>st_unlinked_entity_ids := insert l (st_unlinked_entity_ids s)\<rparr>"
  using assms by (auto simp: step_simps)

lemma evidence_deleted_effect:
  assumes "h_evidence_deleted ev s = Inr t"
  obtains e links claims projections where
    "t = s\<lparr>st_evidence := dict_pop e (st_evidence s), st_stale_entity_link_ids := links,
            st_stale_claim_ids := claims, st_stale_projection_ids := projections\<rparr>"
    "e \<in> dom (map_of (st_evidence s))"
    "mark_where (cites e) (st_entity_links s) (st_stale_entity_link_ids s) = Inr links"
    "mark_where (cites e) (st_claims s) (st_stale_claim_ids s) = Inr claims"
    "mark_where (raw_source_in claims) (st_issued_projections s) (st_stale_projection_ids s) = Inr projections"
    "\<exists>v. map_of (payload ev) ''evidence_id'' = Some v \<and> e = py_str v"
  using assms(1) unfolding step_only by (elim exE conjE) (rule that; (assumption | (simp; fail) | ((rule sym, simp); fail) | blast))

lemma claim_proposed_effect:
  assumes "h_claim_proposed ev s = Inr t"
  obtains c sub where "c \<notin> dom (map_of (st_claims s))" "st_subject_id s = None \<or> st_subject_id s = Some sub"
    "t = s\<lparr>st_subject_id := Some sub, st_claims := dict_set c (stamped ev) (st_claims s)\<rparr>"
    "check_provenance ''claim'' (s\<lparr>st_subject_id := Some sub\<rparr>) (payload ev) = Inr ()"
    "text_item (payload ev) ''claim_id'' = Inr c"
  using assms(1) unfolding h_claim_proposed_def bindE_Inr_iff require_Inr bind_subject_Inr dict_has_dom by (elim exE conjE) (rule that; (assumption | (simp; fail) | ((rule sym, simp); fail) | blast))

lemma claim_accepted_effect:
  assumes "h_claim_accepted ev s = Inr t"
  obtains c where "c \<in> dom (map_of (st_claims s))" "\<not> closed_claim s c"
    "t = s\<lparr>st_accepted_claim_ids := insert c (st_accepted_claim_ids s),
           st_contested_claim_ids := st_contested_claim_ids s - {c}\<rparr>"
  using assms by (auto simp: step_simps)

lemma claim_contested_effect:
  assumes "h_claim_contested ev s = Inr t"
  obtains c where "c \<in> dom (map_of (st_claims s))" "\<not> closed_claim s c"
    "t = s\<lparr>st_contested_claim_ids := insert c (st_contested_claim_ids s),
           st_accepted_claim_ids := st_accepted_claim_ids s - {c}\<rparr>"
  using assms by (auto simp: step_simps)

lemma claim_retired_effect:
  assumes "h_claim_retired ev s = Inr t"
  obtains c where "c \<in> dom (map_of (st_claims s))"
    "t = s\<lparr>st_accepted_claim_ids := st_accepted_claim_ids s - {c},
           st_contested_claim_ids := st_contested_claim_ids s - {c},
           st_retired_claim_ids := insert c (st_retired_claim_ids s)\<rparr>"
  using assms by (auto simp: step_simps)

lemma claim_superseded_effect:
  assumes "h_claim_superseded ev s = Inr t"
  obtains c projections where "c \<in> dom (map_of (st_claims s))" "c \<notin> st_superseded_claim_ids s"
    "mark_where (raw_source_in {c}) (st_issued_projections s) (st_stale_projection_ids s) = Inr projections"
    "t = s\<lparr>st_accepted_claim_ids := st_accepted_claim_ids s - {c},
           st_contested_claim_ids := st_contested_claim_ids s - {c},
           st_superseded_claim_ids := insert c (st_superseded_claim_ids s),
           st_stale_projection_ids := projections\<rparr>"
  using assms by (auto simp: step_simps)

lemma contradiction_detected_effect:
  assumes "h_contradiction_detected ev s = Inr t"
  obtains k sub where
    "t = s\<lparr>st_subject_id := sub, st_contradictions := dict_set k (stamped ev) (st_contradictions s)\<rparr>"
    "k \<notin> dom (map_of (st_contradictions s))"
    "sub = st_subject_id s \<or> st_subject_id s = None"
    "text_item (payload ev) ''contradiction_id'' = Inr k"
proof -
  from assms(1) obtain k s1 where *: "t = s1\<lparr>st_contradictions := dict_set k (stamped ev) (st_contradictions s1)\<rparr>"
    "k \<notin> dom (map_of (st_contradictions s))" "text_item (payload ev) ''contradiction_id'' = Inr k"
    "(if pget (payload ev) ''subject_id'' \<noteq> PNone
      then bind_subject s (py_str (pget (payload ev) ''subject_id'')) else Inr s) = Inr s1"
    unfolding h_contradiction_detected_def bindE_Inr_iff require_Inr dict_has_dom by blast
  then show thesis
    by (auto simp: bind_subject_Inr intro!: that[of k "st_subject_id s1"] split: if_splits)
qed

lemma contradiction_adjudicated_effect:
  assumes "h_contradiction_adjudicated ev s = Inr t"
  obtains k sub where
    "t = s\<lparr>st_subject_id := Some sub, st_adjudications := dict_set k (stamped ev) (st_adjudications s),
           st_resolved_contradiction_ids := insert k (st_resolved_contradiction_ids s)\<rparr>"
    "k \<in> dom (map_of (st_contradictions s))" "k \<notin> st_resolved_contradiction_ids s"
    "st_subject_id s = None \<or> st_subject_id s = Some sub"
    "text_item (payload ev) ''contradiction_id'' = Inr k"
  using assms(1) unfolding h_contradiction_adjudicated_def bindE_Inr_iff require_Inr bind_subject_Inr case_option_Inr
  by (elim exE conjE) (rule that; (assumption | (simp add: domI; fail) | ((rule sym, simp); fail)))

lemma correction_recorded_effect:
  assumes "h_correction_recorded ev s = Inr t"
  obtains (evidence) k sub e links claims projections where
    "text_item (payload ev) ''correction_id'' = Inr k"
    "t = s\<lparr>st_subject_id := Some sub, st_corrections := dict_set k (stamped ev) (st_corrections s),
           st_superseded_evidence_ids := insert e (st_superseded_evidence_ids s),
           st_stale_entity_link_ids := links, st_stale_claim_ids := claims,
           st_stale_projection_ids := projections\<rparr>"
    "k \<notin> dom (map_of (st_corrections s))" "st_subject_id s = None \<or> st_subject_id s = Some sub"
    "e \<in> dom (map_of (st_evidence s))" "e \<notin> st_superseded_evidence_ids s"
    "mark_where (cites e) (st_entity_links s) (st_stale_entity_link_ids s) = Inr links"
    "mark_where (cites e) (st_claims s) (st_stale_claim_ids s) = Inr claims"
    "mark_where (text_source_in claims) (st_issued_projections s) (st_stale_projection_ids s) = Inr projections"
  | (claim) k sub c projections where
    "text_item (payload ev) ''correction_id'' = Inr k"
    "t = s\<lparr>st_subject_id := Some sub, st_corrections := dict_set k (stamped ev) (st_corrections s),
           st_superseded_claim_ids := insert c (st_superseded_claim_ids s),
           st_accepted_claim_ids := st_accepted_claim_ids s - {c},
           st_contested_claim_ids := st_contested_claim_ids s - {c},
           st_stale_projection_ids := projections\<rparr>"
    "k \<notin> dom (map_of (st_corrections s))" "st_subject_id s = None \<or> st_subject_id s = Some sub"
    "c \<in> dom (map_of (st_claims s))" "c \<notin> st_superseded_claim_ids s"
    "mark_where (text_source_in {c}) (st_issued_projections s) (st_stale_projection_ids s) = Inr projections"
proof -
  from assms(1) obtain k sub kind target s1 where
    "(if kind = ''evidence'' then h_correct_evidence target (s1\<lparr>st_corrections := dict_set k (stamped ev) (st_corrections s1)\<rparr>)
      else h_correct_claim target (s1\<lparr>st_corrections := dict_set k (stamped ev) (st_corrections s1)\<rparr>)) = Inr t"
    "text_item (payload ev) ''correction_id'' = Inr k"
    "bind_subject s sub = Inr s1" "k \<notin> dom (map_of (st_corrections s1))"
    "target \<in> dom (map_of (if kind = ''evidence'' then st_evidence s1 else st_claims s1))"
    "target \<notin> (if kind = ''evidence'' then st_superseded_evidence_ids s1 else st_superseded_claim_ids s1)"
    unfolding h_correction_recorded_def bindE_Inr_iff require_Inr dict_has_dom Let_def by blast
  then have *: "text_item (payload ev) ''correction_id'' = Inr k" "k \<notin> dom (map_of (st_corrections s))" "st_subject_id s = None \<or> st_subject_id s = Some sub"
    "target \<in> dom (map_of (if kind = ''evidence'' then st_evidence s else st_claims s))"
    "target \<notin> (if kind = ''evidence'' then st_superseded_evidence_ids s else st_superseded_claim_ids s)"
    "(if kind = ''evidence'' then h_correct_evidence target (s\<lparr>st_subject_id := Some sub, st_corrections := dict_set k (stamped ev) (st_corrections s)\<rparr>)
      else h_correct_claim target (s\<lparr>st_subject_id := Some sub, st_corrections := dict_set k (stamped ev) (st_corrections s)\<rparr>)) = Inr t"
    unfolding bind_subject_Inr by (simp_all cong: if_cong)
  show thesis
  proof (cases "kind = ''evidence''")
    case True
    with * have "h_correct_evidence target (s\<lparr>st_subject_id := Some sub, st_corrections := dict_set k (stamped ev) (st_corrections s)\<rparr>) = Inr t"
      "target \<in> dom (map_of (st_evidence s))" "target \<notin> st_superseded_evidence_ids s"
      by simp_all
    with *(1-3) show thesis
      by (auto simp: h_correct_evidence_def bindE_Inr_iff intro: evidence)
  next
    case False
    with * have "h_correct_claim target (s\<lparr>st_subject_id := Some sub, st_corrections := dict_set k (stamped ev) (st_corrections s)\<rparr>) = Inr t"
      "target \<in> dom (map_of (st_claims s))" "target \<notin> st_superseded_claim_ids s"
      by simp_all
    with *(1-3) show thesis
      by (auto simp: h_correct_claim_def bindE_Inr_iff intro: claim)
  qed
qed

lemma projection_revoked_effect:
  assumes "h_projection_revoked ev s = Inr t"
  obtains k where "k \<in> dom (map_of (st_issued_projections s))"
    "t = s\<lparr>st_revoked_projection_ids := insert k (st_revoked_projection_ids s)\<rparr>"
  using assms by (auto simp: step_simps)

lemma projection_issued_effect:
  assumes "h_projection_issued ev s = Inr t"
  obtains k where "k \<notin> dom (map_of (st_issued_projections s))" "st_subject_id s \<noteq> None"
    "t = s\<lparr>st_issued_projections := dict_set k (payload ev) (st_issued_projections s)\<rparr>"
    "text_item (payload ev) ''projection_id'' = Inr k"
  using assms(1) unfolding h_projection_issued_def bindE_Inr_iff require_Inr bind_subject_Inr dict_has_dom by (elim exE conjE) (rule that; (assumption | (simp; fail) | ((rule sym, simp); fail) | blast))

lemma degradation_effect:
  assumes "h_degradation_declared ev s = Inr t \<or> h_degradation_cleared ev s = Inr t"
  obtains rs where "t = s\<lparr>st_degraded_reasons := rs\<rparr>"
  using assms by (auto simp: step_simps)

lemmas effects =
  evidence_ingested_effect entity_linked_effect entity_unlinked_effect evidence_deleted_effect
  claim_proposed_effect claim_accepted_effect claim_contested_effect claim_retired_effect
  claim_superseded_effect contradiction_detected_effect contradiction_adjudicated_effect
  correction_recorded_effect projection_revoked_effect projection_issued_effect
  degradation_effect[OF disjI1] degradation_effect[OF disjI2]

section \<open>The invariant is kept\<close>

lemma dom_mark:
  assumes "mark_where p recs m = Inr m'" "m \<subseteq> dom (map_of recs)"
  shows "m' \<subseteq> dom (map_of recs)"
  using mark_where_dom[OF assms(1)] assms(2) by blast

lemma handle_claim_sets: "handle ev s = Inr t \<Longrightarrow> claim_sets_ok s \<longrightarrow> claim_sets_ok t"
  by (erule handle_rel[where R = "\<lambda>s t. claim_sets_ok s \<longrightarrow> claim_sets_ok t"];
      (erule effects)?; (simp add: claim_sets_ok_def closed_claim_def)?; blast dest: dom_mark)

lemma handle_other_sets: "handle ev s = Inr t \<Longrightarrow> other_sets_ok s \<longrightarrow> other_sets_ok t"
  by (erule handle_rel[where R = "\<lambda>s t. other_sets_ok s \<longrightarrow> other_sets_ok t"];
      (erule effects)?; (simp add: other_sets_ok_def)?; blast dest: dom_mark)

lemma handle_records_wf: "handle ev s = Inr t \<Longrightarrow> records_wf s \<longrightarrow> records_wf t"
  by (erule handle_rel[where R = "\<lambda>s t. records_wf s \<longrightarrow> records_wf t"];
      (erule effects)?; auto simp: records_wf_def)

lemma apply_event_inv:
  assumes "apply_event s ev = Inr t" "twin_inv s"
  shows "twin_inv t"
proof -
  obtain u where u: "handle ev s = Inr u" "t = u\<lparr>st_sequence := sequence ev, st_last_event_hash := event_hash ev\<rparr>"
    using assms(1) by (auto simp: apply_event_Inr)
  then show ?thesis
    using handle_claim_sets[OF u(1)] handle_other_sets[OF u(1)] handle_records_wf[OF u(1)] assms(2)
    by (simp add: twin_inv_def claim_sets_ok_def other_sets_ok_def records_wf_def)
qed

section \<open>What a twin never loses\<close>

text \<open>
  Between two states of one twin: the subject stays bound, every claim, entity link,
  contradiction, adjudication, correction and issued projection is kept as it was recorded, and
  no mark (retired, superseded, resolved, revoked, unlinked, stale) is taken back.
\<close>

definition retains :: "twin_state \<Rightarrow> twin_state \<Rightarrow> bool" where
  "retains s t \<longleftrightarrow>
     st_twin_id t = st_twin_id s
     \<and> (st_subject_id s = None \<or> st_subject_id t = st_subject_id s)
     \<and> map_of (st_claims s) \<subseteq>\<^sub>m map_of (st_claims t)
     \<and> map_of (st_entity_links s) \<subseteq>\<^sub>m map_of (st_entity_links t)
     \<and> map_of (st_contradictions s) \<subseteq>\<^sub>m map_of (st_contradictions t)
     \<and> map_of (st_adjudications s) \<subseteq>\<^sub>m map_of (st_adjudications t)
     \<and> map_of (st_corrections s) \<subseteq>\<^sub>m map_of (st_corrections t)
     \<and> map_of (st_issued_projections s) \<subseteq>\<^sub>m map_of (st_issued_projections t)
     \<and> st_retired_claim_ids s \<subseteq> st_retired_claim_ids t
     \<and> st_superseded_claim_ids s \<subseteq> st_superseded_claim_ids t
     \<and> st_superseded_evidence_ids s \<subseteq> st_superseded_evidence_ids t
     \<and> st_resolved_contradiction_ids s \<subseteq> st_resolved_contradiction_ids t
     \<and> st_revoked_projection_ids s \<subseteq> st_revoked_projection_ids t
     \<and> st_unlinked_entity_ids s \<subseteq> st_unlinked_entity_ids t
     \<and> st_stale_claim_ids s \<subseteq> st_stale_claim_ids t
     \<and> st_stale_entity_link_ids s \<subseteq> st_stale_entity_link_ids t
     \<and> st_stale_projection_ids s \<subseteq> st_stale_projection_ids t"

lemma map_le_fresh: "k \<notin> dom m \<Longrightarrow> m \<subseteq>\<^sub>m m(k \<mapsto> v)" "m k = None \<Longrightarrow> m \<subseteq>\<^sub>m m(k \<mapsto> v)"
  by (auto simp: map_le_def)

lemma retains_refl: "retains s s"
  by (simp add: retains_def)

lemma retains_trans: "retains s t \<Longrightarrow> retains t u \<Longrightarrow> retains s u"
  unfolding retains_def
  by (elim conjE, intro conjI) (auto intro: map_le_trans)

lemma handle_retains:
  assumes "handle ev s = Inr t" "other_sets_ok s"
  shows "retains s t"
proof -
  have "other_sets_ok s \<longrightarrow> retains s t"
    by (rule handle_rel[OF assms(1), where R = "\<lambda>s t. other_sets_ok s \<longrightarrow> retains s t"];
        (erule effects)?; auto simp: retains_def other_sets_ok_def map_le_fresh dest: mark_where_mono)
  then show ?thesis using assms(2) by simp
qed

lemma apply_event_retains:
  assumes "apply_event s ev = Inr t" "twin_inv s"
  shows "retains s t"
proof -
  obtain u where "handle ev s = Inr u" "t = u\<lparr>st_sequence := sequence ev, st_last_event_hash := event_hash ev\<rparr>"
    using assms(1) by (auto simp: apply_event_Inr)
  then show ?thesis
    using handle_retains[of ev s u] assms(2) by (simp add: twin_inv_def retains_def)
qed

text \<open>Evidence leaves the state only where an event deletes it, and is never rewritten.\<close>

lemma apply_event_evidence:
  assumes "apply_event s ev = Inr t" "map_of (st_evidence s) e = Some rec"
  shows "map_of (st_evidence t) e = Some rec
    \<or> (event_type ev = ''EvidenceDeleted'' \<and> py_str (pget (payload ev) ''evidence_id'') = e)"
proof -
  obtain u where u: "handle ev s = Inr u" "t = u\<lparr>st_sequence := sequence ev, st_last_event_hash := event_hash ev\<rparr>"
    using assms(1) by (auto simp: apply_event_Inr)
  have "map_of (st_evidence s) e = Some rec \<longrightarrow> map_of (st_evidence u) e = Some rec
      \<or> (event_type ev = ''EvidenceDeleted'' \<and> py_str (pget (payload ev) ''evidence_id'') = e)"
    by (rule handle_rel[OF u(1), where R = "\<lambda>s t. map_of (st_evidence s) e = Some rec \<longrightarrow> map_of (st_evidence t) e = Some rec
         \<or> (event_type ev = ''EvidenceDeleted'' \<and> py_str (pget (payload ev) ''evidence_id'') = e)"];
        (erule effects)?; auto simp: pget_Some)
  then show ?thesis using u(2) assms(2) by simp
qed

section \<open>Lineage\<close>

definition provenance_of :: "pydict \<Rightarrow> pydict list" where
  "provenance_of rec =
     (case py_iter (get_or rec ''provenance'' (PList [])) of
        Inr refs \<Rightarrow> map dict_val (filter is_dict refs) | Inl _ \<Rightarrow> [])"

text \<open>Each reference that names evidence by a string names recorded evidence of its independence group.\<close>

definition supported :: "records \<Rightarrow> pydict \<Rightarrow> bool" where
  "supported evidence rec \<longleftrightarrow>
     list_all (\<lambda>ref. case pget ref ''evidence_id'' of
        PStr e \<Rightarrow> (case map_of evidence e of None \<Rightarrow> False
                  | Some r \<Rightarrow> py_eq (pget ref ''independence_group'') (pget r ''independence_group''))
      | _ \<Rightarrow> True) (provenance_of rec)"

definition lineage_ok :: "twin_state \<Rightarrow> bool" where
  "lineage_ok s \<longleftrightarrow>
     list_all (\<lambda>(c, rec). c \<in> st_stale_claim_ids s \<or> supported (st_evidence s) rec) (st_claims s)
     \<and> list_all (\<lambda>(l, rec). l \<in> st_stale_entity_link_ids s \<or> supported (st_evidence s) rec) (st_entity_links s)"

lemma set_dict_set: "set (dict_set k v d) \<subseteq> insert (k, v) (set d)"
  by (induction k v d rule: dict_set.induct) auto

lemma supported_mono: "supported e rec \<Longrightarrow> map_of e \<subseteq>\<^sub>m map_of e' \<Longrightarrow> supported e' rec"
  unfolding supported_def list_all_iff
proof (intro ballI)
  fix ref
  assume *: "\<forall>ref\<in>set (provenance_of rec). case pget ref ''evidence_id'' of
      PStr i \<Rightarrow> (case map_of e i of None \<Rightarrow> False
                | Some r \<Rightarrow> py_eq (pget ref ''independence_group'') (pget r ''independence_group''))
    | _ \<Rightarrow> True" "map_of e \<subseteq>\<^sub>m map_of e'" "ref \<in> set (provenance_of rec)"
  show "case pget ref ''evidence_id'' of
      PStr i \<Rightarrow> (case map_of e' i of None \<Rightarrow> False
                | Some r \<Rightarrow> py_eq (pget ref ''independence_group'') (pget r ''independence_group''))
    | _ \<Rightarrow> True"
  proof (cases "pget ref ''evidence_id''")
    case (PStr i)
    then obtain r where "map_of e i = Some r" "py_eq (pget ref ''independence_group'') (pget r ''independence_group'')"
      using bspec[OF *(1,3)] by (auto split: option.splits)
    moreover from this(1) have "map_of e' i = Some r" using *(2) by (metis domI map_le_def)
    ultimately show ?thesis using PStr by simp
  qed simp_all
qed

lemma foldE_unit: "foldE (\<lambda>_. f) () xs = Inr u \<Longrightarrow> x \<in> set xs \<Longrightarrow> f x = Inr ()"
  by (induction xs) (auto simp: bindE_Inr_iff)

lemma provenance_stamped: "provenance_of (stamped ev) = provenance_of (payload ev)"
  by (simp add: provenance_of_def stamped_def get_or_def)

lemma check_provenance_supported:
  assumes "check_provenance kind s p = Inr ()"
  shows "supported (st_evidence s) p"
proof -
  obtain v refs where v: "map_of p ''provenance'' = Some v" "py_iter v = Inr refs"
    and refs: "foldE (\<lambda>_ ref. bindE (val_item ref ''evidence_id'') (\<lambda>eid.
         case map_of (st_evidence s) (py_str eid) of
           None \<Rightarrow> violation (kind @ '' provenance references unknown evidence'')
         | Some evidence \<Rightarrow> bindE (val_get ref ''independence_group'') (\<lambda>g.
             require (py_eq g (pget evidence ''independence_group''))
               (kind @ '' provenance independence group does not match evidence'')))) () refs = Inr ()"
    using assms unfolding check_provenance_def bindE_Inr_iff item_Inr_iff by auto
  have prov: "provenance_of p = map dict_val (filter is_dict refs)"
    using v by (simp add: provenance_of_def get_or_def)
  have "case pget ref ''evidence_id'' of
        PStr e \<Rightarrow> (case map_of (st_evidence s) e of None \<Rightarrow> False
                  | Some r \<Rightarrow> py_eq (pget ref ''independence_group'') (pget r ''independence_group''))
      | _ \<Rightarrow> True" if "PDict ref \<in> set refs" for ref
    using foldE_unit[OF refs that]
    by (auto simp: val_item_def bindE_Inr_iff item_Inr_iff pget_Some case_option_Inr split: pyval.split)
  then show ?thesis
    using is_dict_iff by (fastforce simp: supported_def prov list_all_iff)
qed

text \<open>A record that cites a piece of evidence is found by the invalidation loop, if the loop ends.\<close>

lemma cites_found:
  assumes "cites e rec = Inr b" "ref \<in> set (provenance_of rec)" "pget ref ''evidence_id'' = PStr e"
  shows "b"
proof (rule ccontr)
  assume "\<not> b"
  obtain refs where refs: "py_iter (get_or rec ''provenance'' (PList [])) = Inr refs"
    "anyE (\<lambda>ref. bindE (val_get ref ''evidence_id'') (\<lambda>v. Inr (v = PStr e))) refs = Inr b"
    using assms(1) by (auto simp: cites_def bindE_Inr_iff)
  have "PDict ref \<in> set refs"
    using assms(2) refs(1) by (auto simp: provenance_of_def is_dict_iff)
  then show False
    using anyE_Inr_False[of _ refs "PDict ref"] refs(2) \<open>\<not> b\<close> assms(3) by fastforce
qed

lemma mark_cites:
  assumes "mark_where (cites e) recs m = Inr m'" "(k, rec) \<in> set recs"
    and "k \<in> m \<or> supported evidence rec" "k \<notin> m'"
  shows "supported (dict_pop e evidence) rec"
proof -
  obtain b where b: "cites e rec = Inr b" using mark_where_Inr(2)[OF assms(1)] assms(2) by blast
  have "\<not> b" using b assms mark_where_Inr(1)[OF assms(1)] by auto
  then have "pget ref ''evidence_id'' \<noteq> PStr e" if "ref \<in> set (provenance_of rec)" for ref
    using cites_found[OF b that] by auto
  moreover have "supported evidence rec" using assms(3,4) mark_where_mono[OF assms(1)] by auto
  ultimately show ?thesis
    by (fastforce simp: supported_def list_all_iff split: pyval.splits)
qed

lemma lineage_stale_mono:
  "list_all (\<lambda>(c, rec). c \<in> m \<or> supported e rec) recs \<Longrightarrow> m \<subseteq> m' \<Longrightarrow>
   list_all (\<lambda>(c, rec). c \<in> m' \<or> supported e rec) recs"
  by (auto simp: list_all_iff)

lemma lineage_evidence_mono:
  "list_all (\<lambda>(c, rec). c \<in> m \<or> supported e rec) recs \<Longrightarrow> map_of e \<subseteq>\<^sub>m map_of e' \<Longrightarrow>
   list_all (\<lambda>(c, rec). c \<in> m \<or> supported e' rec) recs"
  by (auto simp: list_all_iff intro: supported_mono)

lemma lineage_add:
  assumes "list_all (\<lambda>(c, rec). c \<in> m \<or> supported e rec) recs" "supported e (payload ev)"
  shows "list_all (\<lambda>(c, rec). c \<in> m \<or> supported e rec) (dict_set k (stamped ev) recs)"
proof -
  have "supported e (stamped ev)" using assms(2) by (simp add: supported_def provenance_stamped)
  then show ?thesis using assms(1) set_dict_set[of k "stamped ev" recs] by (fastforce simp: list_all_iff)
qed

lemma lineage_delete:
  "list_all (\<lambda>(c, rec). c \<in> m \<or> supported e rec) recs \<Longrightarrow> mark_where (cites i) recs m = Inr m' \<Longrightarrow>
   list_all (\<lambda>(c, rec). c \<in> m' \<or> supported (dict_pop i e) rec) recs"
  by (auto simp: list_all_iff intro: mark_cites)

lemma handle_lineage: "handle ev s = Inr t \<Longrightarrow> lineage_ok s \<longrightarrow> lineage_ok t"
  by (erule handle_rel[where R = "\<lambda>s t. lineage_ok s \<longrightarrow> lineage_ok t"];
      (erule effects)?; (drule check_provenance_supported)?;
      auto simp: lineage_ok_def map_le_fresh dest: mark_where_mono
        intro: lineage_stale_mono lineage_evidence_mono lineage_add lineage_delete)

lemma apply_event_lineage:
  assumes "apply_event s ev = Inr t" "lineage_ok s"
  shows "lineage_ok t"
  using assms handle_lineage by (auto simp: apply_event_Inr lineage_ok_def)

section \<open>The life of a claim\<close>

text \<open>
  The contract of the claim events as a state machine on one claim: proposed once, then accepted
  and contested any number of times, until it is retired or superseded for good. A retired claim
  can still be superseded.
\<close>

datatype claim_status = Absent | Proposed | Accepted | Contested | Retired | Superseded

inductive lifecycle :: "claim_status \<Rightarrow> claim_status \<Rightarrow> bool" where
  stay: "lifecycle x x"
| propose: "lifecycle Absent Proposed"
| accept: "x \<in> {Proposed, Contested} \<Longrightarrow> lifecycle x Accepted"
| contest: "x \<in> {Proposed, Accepted} \<Longrightarrow> lifecycle x Contested"
| retire: "x \<in> {Proposed, Accepted, Contested} \<Longrightarrow> lifecycle x Retired"
| supersede: "x \<in> {Proposed, Accepted, Contested, Retired} \<Longrightarrow> lifecycle x Superseded"

code_pred lifecycle .

inductive_cases lifecycle_from_Superseded: "lifecycle Superseded y"
inductive_cases lifecycle_from_Retired: "lifecycle Retired y"
inductive_cases lifecycle_to_Absent: "lifecycle x Absent"

definition claim_status :: "twin_state \<Rightarrow> string \<Rightarrow> claim_status" where
  "claim_status s c =
     (if \<not> dict_has (st_claims s) c then Absent
      else if c \<in> st_superseded_claim_ids s then Superseded
      else if c \<in> st_retired_claim_ids s then Retired
      else if c \<in> st_accepted_claim_ids s then Accepted
      else if c \<in> st_contested_claim_ids s then Contested
      else Proposed)"

lemma claim_status_accepted:
  "claim_sets_ok s \<Longrightarrow> claim_status s c = Accepted \<longleftrightarrow> c \<in> st_accepted_claim_ids s"
  by (auto simp: claim_status_def claim_sets_ok_def dict_has_dom)

lemma claim_status_cong:
  "st_claims t = st_claims s \<Longrightarrow> st_accepted_claim_ids t = st_accepted_claim_ids s \<Longrightarrow>
   st_contested_claim_ids t = st_contested_claim_ids s \<Longrightarrow> st_retired_claim_ids t = st_retired_claim_ids s \<Longrightarrow>
   st_superseded_claim_ids t = st_superseded_claim_ids s \<Longrightarrow> lifecycle (claim_status s c) (claim_status t c)"
  by (simp add: claim_status_def lifecycle.stay)

lemma handle_lifecycle: "handle ev s = Inr t \<Longrightarrow> claim_sets_ok s \<longrightarrow> lifecycle (claim_status s c) (claim_status t c)"
  by (erule handle_rel[where R = "\<lambda>s t. claim_sets_ok s \<longrightarrow> lifecycle (claim_status s c) (claim_status t c)"];
      (erule effects)?;
      auto simp: claim_sets_ok_def claim_status_def closed_claim_def dict_has_dom lifecycle.simps)

text \<open>Every applied event takes every claim along one edge of the machine.\<close>

lemma apply_event_lifecycle:
  assumes "apply_event s ev = Inr t" "twin_inv s"
  shows "lifecycle (claim_status s c) (claim_status t c)"
proof -
  obtain u where u: "handle ev s = Inr u" "t = u\<lparr>st_sequence := sequence ev, st_last_event_hash := event_hash ev\<rparr>"
    using assms(1) by (auto simp: apply_event_Inr)
  have "claim_status t c = claim_status u c" using u(2) by (simp add: claim_status_def)
  then show ?thesis using handle_lifecycle[OF u(1)] assms(2) by (simp add: twin_inv_def)
qed

definition closed_status :: "claim_status \<Rightarrow> bool" where
  "closed_status x \<longleftrightarrow> x \<in> {Retired, Superseded}"

lemma lifecycle_closed: "lifecycle\<^sup>*\<^sup>* x y \<Longrightarrow> closed_status x \<Longrightarrow> closed_status y"
  by (induction rule: rtranclp_induct) (auto simp: closed_status_def lifecycle.simps)

section \<open>Rejections\<close>

lemma apply_simulation: "plane ev = SIMULATION \<Longrightarrow> \<exists>m. apply_event s ev = Inl m"
  by (cases "validate_event ev") (auto simp: apply_event_def require_def violation_def)

lemma other_subject_rejected:
  assumes "st_subject_id s = Some a" "map_of (payload ev) ''subject_id'' = Some v" "py_str v \<noteq> a"
    and "event_type ev \<in> {''EvidenceIngested'', ''EntityLinked'', ''ClaimProposed'',
        ''ContradictionAdjudicated'', ''CorrectionRecorded''}"
  shows "\<exists>m. apply_event s ev = Inl m"
proof (rule ccontr)
  assume "\<nexists>m. apply_event s ev = Inl m"
  then obtain t where "apply_event s ev = Inr t" by (cases "apply_event s ev") auto
  then obtain u where "handle ev s = Inr u" by (auto simp: apply_event_Inr)
  then show False
    using assms
    by (auto simp: handle_def handlers_def bindE_Inr_iff bind_subject_Inr text_item_Inr
        h_evidence_ingested_def h_entity_linked_def h_claim_proposed_def h_correction_recorded_def
        h_contradiction_adjudicated_def case_option_Inr)
qed

text \<open>
  A degradation event that names no reason passes validation and then fails on the lookup.
\<close>

lemma degradation_without_reason:
  assumes "event_type ev \<in> {''DegradationDeclared'', ''DegradationCleared''}"
    and "validate_event ev = Inr ()" "plane ev \<noteq> SIMULATION" "map_of (payload ev) ''reason'' = None"
  shows "apply_event s ev = Inl (KeyError ''reason'')"
proof -
  have "handle ev s = Inl (KeyError ''reason'')"
    using assms(1,4)
    by (auto simp: handle_def handlers_def h_degradation_declared_def h_degradation_cleared_def
        text_item_def item_def)
  then show ?thesis using assms(2,3) by (simp add: apply_event_def require_def)
qed

section \<open>Records are filed under their own identifier\<close>

definition filed :: "string \<Rightarrow> records \<Rightarrow> bool" where
  "filed field recs \<longleftrightarrow> list_all (\<lambda>(k, r). text_item r field = Inr k) recs"

definition keys_ok :: "twin_state \<Rightarrow> bool" where
  "keys_ok s \<longleftrightarrow>
     filed ''evidence_id'' (st_evidence s) \<and> filed ''entity_link_id'' (st_entity_links s)
     \<and> filed ''claim_id'' (st_claims s) \<and> filed ''contradiction_id'' (st_contradictions s)
     \<and> filed ''contradiction_id'' (st_adjudications s) \<and> filed ''correction_id'' (st_corrections s)
     \<and> filed ''projection_id'' (st_issued_projections s)"

lemma filed_set: "filed f recs \<Longrightarrow> text_item r f = Inr k \<Longrightarrow> filed f (dict_set k r recs)"
  using set_dict_set[of k r recs] by (fastforce simp: filed_def list_all_iff)

lemma filed_pop: "filed f recs \<Longrightarrow> filed f (dict_pop k recs)"
  using set_dict_pop[of k recs] by (fastforce simp: filed_def list_all_iff)

lemma filed_Nil [simp]: "filed f []"
  by (simp add: filed_def)

lemma text_item_stamped: "k \<noteq> ''recorded_at'' \<Longrightarrow> text_item (stamped ev) k = text_item (payload ev) k"
  by (simp add: text_item_def item_def stamped_def)

lemma handle_keys: "handle ev s = Inr t \<Longrightarrow> keys_ok s \<longrightarrow> keys_ok t"
  by (erule handle_rel[where R = "\<lambda>s t. keys_ok s \<longrightarrow> keys_ok t"];
      (erule effects)?; simp add: keys_ok_def filed_set filed_pop text_item_stamped)

lemma apply_event_keys: "apply_event s ev = Inr t \<Longrightarrow> keys_ok s \<Longrightarrow> keys_ok t"
  using handle_keys by (auto simp: apply_event_Inr keys_ok_def)

section \<open>Records stay JSON data\<close>

text \<open>Data that a trip through JSON leaves as it is.\<close>

definition plain :: "pydict \<Rightarrow> bool" where
  "plain d \<longleftrightarrow> jsonable (PDict d)"

definition plain_records :: "records \<Rightarrow> bool" where
  "plain_records recs \<longleftrightarrow> wf_dict recs \<and> list_all (\<lambda>(k, r). plain r) recs"

definition plain_state :: "twin_state \<Rightarrow> bool" where
  "plain_state s \<longleftrightarrow>
     plain_records (st_evidence s) \<and> plain_records (st_entity_links s) \<and> plain_records (st_claims s)
     \<and> plain_records (st_contradictions s) \<and> plain_records (st_adjudications s)
     \<and> plain_records (st_corrections s) \<and> plain_records (st_issued_projections s)"

lemma plain_set: "plain d \<Longrightarrow> jsonable v \<Longrightarrow> plain (dict_set k v d)"
  using set_dict_set[of k v d] by (fastforce simp: plain_def list_all_iff)

lemma plain_stamped: "plain (payload ev) \<Longrightarrow> plain (stamped ev)"
  by (simp add: stamped_def plain_set)

lemma plain_records_set: "plain_records recs \<Longrightarrow> plain r \<Longrightarrow> plain_records (dict_set k r recs)"
  using set_dict_set[of k r recs] by (fastforce simp: plain_records_def list_all_iff)

lemma plain_records_pop: "plain_records recs \<Longrightarrow> plain_records (dict_pop k recs)"
  using set_dict_pop[of k recs] by (fastforce simp: plain_records_def list_all_iff)

lemma handle_plain: "handle ev s = Inr t \<Longrightarrow> plain (payload ev) \<and> plain_state s \<longrightarrow> plain_state t"
  by (erule handle_rel[where R = "\<lambda>s t. plain (payload ev) \<and> plain_state s \<longrightarrow> plain_state t"];
      (erule effects)?; simp add: plain_state_def plain_records_set plain_records_pop plain_stamped)

lemma apply_event_plain: "apply_event s ev = Inr t \<Longrightarrow> plain (payload ev) \<Longrightarrow> plain_state s \<Longrightarrow> plain_state t"
  using handle_plain by (auto simp: apply_event_Inr plain_state_def)

end
