(* ===== verification/K2_Aggregate_Queries.thy ===== *)
theory K2_Aggregate_Queries
  imports K2_Aggregate_Laws
begin

text \<open>
  The rest of \<open>src/src/argo_dt/aggregate.py\<close>: the dictionary form of a twin state and its
  reading back, the valid-time selection, the accepted claims, and the replay loop of
  \<open>TwinAggregate.rebuild\<close>. Shown: the round trip through a snapshot, what a selection keeps,
  which claims a query can return, and that a replay can be cut anywhere.
\<close>

section \<open>Snapshot form\<close>

definition id_set :: "string set \<Rightarrow> pyval" where
  "id_set S = PSet (map PStr (sorted_list_of_set S))"

definition records_val :: "records \<Rightarrow> pyval" where
  "records_val recs = PDict (map (\<lambda>(k, r). (k, PDict r)) recs)"

text \<open>The dataclass's fields in ascending order of their names, and \<open>TwinState.to_dict\<close>.\<close>

definition state_fields :: "twin_state \<Rightarrow> pydict" where
  "state_fields s =
     [(''accepted_claim_ids'', id_set (st_accepted_claim_ids s)),
      (''adjudications'', records_val (st_adjudications s)),
      (''claims'', records_val (st_claims s)),
      (''contested_claim_ids'', id_set (st_contested_claim_ids s)),
      (''contradictions'', records_val (st_contradictions s)),
      (''corrections'', records_val (st_corrections s)),
      (''degraded_reasons'', str_list (st_degraded_reasons s)),
      (''entity_links'', records_val (st_entity_links s)),
      (''evidence'', records_val (st_evidence s)),
      (''issued_projections'', records_val (st_issued_projections s)),
      (''last_event_hash'', PStr (st_last_event_hash s)),
      (''resolved_contradiction_ids'', id_set (st_resolved_contradiction_ids s)),
      (''retired_claim_ids'', id_set (st_retired_claim_ids s)),
      (''revoked_projection_ids'', id_set (st_revoked_projection_ids s)),
      (''sequence'', PInt (st_sequence s)),
      (''stale_claim_ids'', id_set (st_stale_claim_ids s)),
      (''stale_entity_link_ids'', id_set (st_stale_entity_link_ids s)),
      (''stale_projection_ids'', id_set (st_stale_projection_ids s)),
      (''subject_id'', opt_str (st_subject_id s)),
      (''superseded_claim_ids'', id_set (st_superseded_claim_ids s)),
      (''superseded_evidence_ids'', id_set (st_superseded_evidence_ids s)),
      (''twin_id'', PStr (st_twin_id s)),
      (''unlinked_entity_ids'', id_set (st_unlinked_entity_ids s))]"

definition to_dict :: "twin_state \<Rightarrow> pydict" where
  "to_dict s = map (\<lambda>(k, v). (k, to_primitive v)) (state_fields s)"

definition to_snapshot :: "(string \<Rightarrow> string) \<Rightarrow> int \<Rightarrow> twin_state \<Rightarrow> snapshot result" where
  "to_snapshot H now s =
     snapshot_new H now (st_twin_id s) (st_sequence s) (st_last_event_hash s) (to_dict s) None"

section \<open>Reading a state back\<close>

text \<open>\<open>int(v)\<close>: a decimal text may have blanks around it, a sign and single underscores, and at most 4300 digits.\<close>

definition int_of_text :: "string \<Rightarrow> int result" where
  "int_of_text s =
     (let t = py_strip s;
          neg = (t \<noteq> [] \<and> hd t = CHR ''-'');
          body = (if t \<noteq> [] \<and> (hd t = CHR ''-'' \<or> hd t = CHR ''+'') then tl t else t);
          groups = split_on (CHR ''_'') body
      in if list_all digits_only groups \<and> length (concat groups) \<le> 4300
         then Inr (if neg then - int (digits_value (concat groups)) else int (digits_value (concat groups)))
         else Inl (ValueError ''invalid literal for int() with base 10''))"

fun py_int :: "pyval \<Rightarrow> int result" where
  "py_int (PInt i) = Inr i"
| "py_int (PBool b) = Inr (if b then 1 else 0)"
| "py_int (PFloat (Finite s)) = Inr (if decimal_value s < 0 then - \<lfloor>- decimal_value s\<rfloor> else \<lfloor>decimal_value s\<rfloor>)"
| "py_int (PFloat (Infinite n)) = Inl OverflowError"
| "py_int (PFloat NotANumber) = Inl (ValueError ''cannot convert float NaN to integer'')"
| "py_int (PStr s) = int_of_text s"
| "py_int _ = Inl TypeError"

text \<open>
  \<open>dict(v)\<close>. A dictionary can also be made of an iterable of pairs; the model reads the empty
  ones only.
\<close>

definition dict_of_val :: "pyval \<Rightarrow> pydict result" where
  "dict_of_val v =
     (case v of PDict d \<Rightarrow> Inr d
      | _ \<Rightarrow> bindE (py_iter v) (\<lambda>xs. if xs = [] then Inr [] else Inl OutOfModel))"

definition records_of_val :: "pyval \<Rightarrow> records result" where
  "records_of_val v =
     bindE (dict_of_val v) (mapE (\<lambda>(k, x). bindE (dict_of_val x) (\<lambda>d. Inr (k, d))))"

text \<open>\<open>set(v)\<close> of identifiers; a member that is no string is outside the model's sets.\<close>

definition ids_of_val :: "pyval \<Rightarrow> string set result" where
  "ids_of_val v =
     bindE (py_iter v) (\<lambda>xs.
       if \<not> list_all hashable xs then Inl TypeError
       else bindE (mapE (\<lambda>x. case x of PStr s \<Rightarrow> Inr s | _ \<Rightarrow> Inl OutOfModel) xs) (\<lambda>ids. Inr (set ids)))"

definition legacy_required :: "string list" where
  "legacy_required =
     [''twin_id'', ''subject_id'', ''sequence'', ''evidence'', ''claims'', ''accepted_claim_ids'',
      ''contested_claim_ids'', ''contradictions'', ''issued_projections'', ''revoked_projection_ids'',
      ''stale_claim_ids'', ''stale_projection_ids'', ''degraded_reasons'', ''last_event_hash'']"

definition added_fields :: "string list" where
  "added_fields =
     [''entity_links'', ''unlinked_entity_ids'', ''stale_entity_link_ids'', ''retired_claim_ids'',
      ''superseded_evidence_ids'', ''superseded_claim_ids'', ''adjudications'',
      ''resolved_contradiction_ids'', ''corrections'']"

definition read_state :: "pydict \<Rightarrow> twin_state result" where
  "read_state d =
     bindE (text_item d ''twin_id'') (\<lambda>twin.
     bindE (item d ''subject_id'') (\<lambda>sub.
     bindE (bindE (item d ''sequence'') py_int) (\<lambda>n.
     bindE (bindE (item d ''evidence'') records_of_val) (\<lambda>evidence.
     bindE (records_of_val (get_or d ''entity_links'' (PDict []))) (\<lambda>links.
     bindE (ids_of_val (get_or d ''unlinked_entity_ids'' (PList []))) (\<lambda>unlinked.
     bindE (ids_of_val (get_or d ''stale_entity_link_ids'' (PList []))) (\<lambda>stale_links.
     bindE (bindE (item d ''claims'') records_of_val) (\<lambda>claims.
     bindE (bindE (item d ''accepted_claim_ids'') ids_of_val) (\<lambda>accepted.
     bindE (bindE (item d ''contested_claim_ids'') ids_of_val) (\<lambda>contested.
     bindE (ids_of_val (get_or d ''retired_claim_ids'' (PList []))) (\<lambda>retired.
     bindE (ids_of_val (get_or d ''superseded_evidence_ids'' (PList []))) (\<lambda>superseded_evidence.
     bindE (ids_of_val (get_or d ''superseded_claim_ids'' (PList []))) (\<lambda>superseded_claims.
     bindE (bindE (item d ''contradictions'') records_of_val) (\<lambda>contradictions.
     bindE (records_of_val (get_or d ''adjudications'' (PDict []))) (\<lambda>adjudications.
     bindE (ids_of_val (get_or d ''resolved_contradiction_ids'' (PList []))) (\<lambda>resolved.
     bindE (records_of_val (get_or d ''corrections'' (PDict []))) (\<lambda>corrections.
     bindE (bindE (item d ''issued_projections'') records_of_val) (\<lambda>projections.
     bindE (bindE (item d ''revoked_projection_ids'') ids_of_val) (\<lambda>revoked.
     bindE (bindE (item d ''stale_claim_ids'') ids_of_val) (\<lambda>stale_claims.
     bindE (bindE (item d ''stale_projection_ids'') ids_of_val) (\<lambda>stale_projections.
     bindE (bindE (item d ''degraded_reasons'') text_list) (\<lambda>reasons.
     bindE (text_item d ''last_event_hash'') (\<lambda>h.
     Inr \<lparr>st_twin_id = twin, st_subject_id = (if sub = PNone then None else Some (py_str sub)),
          st_sequence = n, st_evidence = evidence, st_entity_links = links,
          st_unlinked_entity_ids = unlinked, st_stale_entity_link_ids = stale_links,
          st_claims = claims, st_accepted_claim_ids = accepted, st_contested_claim_ids = contested,
          st_retired_claim_ids = retired, st_superseded_evidence_ids = superseded_evidence,
          st_superseded_claim_ids = superseded_claims, st_contradictions = contradictions,
          st_adjudications = adjudications, st_resolved_contradiction_ids = resolved,
          st_corrections = corrections, st_issued_projections = projections,
          st_revoked_projection_ids = revoked, st_stale_claim_ids = stale_claims,
          st_stale_projection_ids = stale_projections, st_degraded_reasons = reasons,
          st_last_event_hash = h\<rparr>)))))))))))))))))))))))"

definition from_dict :: "pydict \<Rightarrow> twin_state result" where
  "from_dict d =
     bindE (require (list_all (dict_has d) legacy_required
          \<and> list_all (\<lambda>k. k \<in> set legacy_required \<or> k \<in> set added_fields) (dict_keys d))
        ''snapshot state fields do not match a supported TwinState'') (\<lambda>_.
     bindE (case read_state d of
              Inl TypeError \<Rightarrow> violation ''snapshot state has invalid field types''
            | Inl (ValueError m) \<Rightarrow> violation ''snapshot state has invalid field types''
            | r \<Rightarrow> r) (\<lambda>s.
     bindE (require (1 \<le> st_sequence s \<and> st_twin_id s \<noteq> [] \<and> st_last_event_hash s \<noteq> [])
        ''snapshot state has an invalid stream position'') (\<lambda>_.
     Inr s)))"

section \<open>Valid time\<close>

definition record_valid_at :: "pydict \<Rightarrow> datetime \<Rightarrow> bool result" where
  "record_valid_at rec t =
     (if \<not> py_truthy (pget rec ''valid_from'') then Inr True
      else bindE (parse_time (py_str (pget rec ''valid_from''))) (\<lambda>start.
        bindE (if py_truthy (pget rec ''valid_until'')
               then bindE (parse_time (py_str (pget rec ''valid_until''))) (\<lambda>e. Inr (Some e))
               else Inr None) (\<lambda>end_time.
        within_half_open start end_time t)))"

fun filterE :: "('a \<Rightarrow> bool result) \<Rightarrow> 'a list \<Rightarrow> 'a list result" where
  "filterE p [] = Inr []"
| "filterE p (x # xs) = bindE (p x) (\<lambda>b. bindE (filterE p xs) (\<lambda>ys. Inr (if b then x # ys else ys)))"

definition keep_valid :: "datetime \<Rightarrow> records \<Rightarrow> records result" where
  "keep_valid t recs = filterE (\<lambda>kr. record_valid_at (snd kr) t) recs"

definition key_set :: "records \<Rightarrow> string set" where
  "key_set recs = set (dict_keys recs)"

definition select_valid_at :: "twin_state \<Rightarrow> datetime \<Rightarrow> twin_state result" where
  "select_valid_at s t =
     bindE (require (\<not> naive t) ''valid-time query must be timezone-aware'') (\<lambda>_.
     bindE (keep_valid t (st_evidence s)) (\<lambda>evidence.
     bindE (keep_valid t (st_entity_links s)) (\<lambda>links.
     bindE (keep_valid t (st_claims s)) (\<lambda>claims.
     bindE (filterE (\<lambda>kr. bindE (text_list (get_or (snd kr) ''claim_ids'' (PList []))) (\<lambda>ids.
        Inr (set ids \<subseteq> key_set claims))) (st_contradictions s)) (\<lambda>contradictions.
     Inr (s\<lparr>st_evidence := evidence,
            st_entity_links := links,
            st_unlinked_entity_ids := st_unlinked_entity_ids s \<inter> key_set links,
            st_stale_entity_link_ids := st_stale_entity_link_ids s \<inter> key_set links,
            st_claims := claims,
            st_accepted_claim_ids := st_accepted_claim_ids s \<inter> key_set claims,
            st_contested_claim_ids := st_contested_claim_ids s \<inter> key_set claims,
            st_retired_claim_ids := st_retired_claim_ids s \<inter> key_set claims,
            st_superseded_claim_ids := st_superseded_claim_ids s \<inter> key_set claims,
            st_stale_claim_ids := st_stale_claim_ids s \<inter> key_set claims,
            st_contradictions := contradictions,
            st_resolved_contradiction_ids := st_resolved_contradiction_ids s \<inter> key_set contradictions,
            st_adjudications := dict_filter
              (\<lambda>r. py_str (get_or r ''contradiction_id'' (PStr [])) \<in> key_set contradictions)
              (st_adjudications s)\<rparr>))))))"

section \<open>Accepted claims\<close>

text \<open>\<open>parse_time(v)\<close> of a value that may be no text: \<open>v.replace("Z", "+00:00")\<close> fails.\<close>

definition parse_time_val :: "pyval \<Rightarrow> datetime result" where
  "parse_time_val v =
     (case v of PStr s \<Rightarrow> parse_time s | PTime _ \<Rightarrow> Inl TypeError | _ \<Rightarrow> Inl AttributeError)"

definition sensitivity_of_val :: "pyval \<Rightarrow> sensitivity result" where
  "sensitivity_of_val v =
     (case v of PStr s \<Rightarrow> sensitivity_of s | _ \<Rightarrow> Inl (ValueError ''not a valid member''))"

definition too_sensitive :: "sensitivity option \<Rightarrow> pydict \<Rightarrow> bool result" where
  "too_sensitive limit claim =
     (case limit of None \<Rightarrow> Inr False
      | Some m \<Rightarrow> bindE (sensitivity_of_val (get_or claim ''sensitivity'' (PStr ''internal''))) (\<lambda>x.
          Inr (rank x > rank m)))"

definition outside_valid_time :: "datetime option \<Rightarrow> pydict \<Rightarrow> bool result" where
  "outside_valid_time valid_at claim =
     (case valid_at of None \<Rightarrow> Inr False
      | Some t \<Rightarrow>
          bindE (bindE (item claim ''valid_from'') parse_time_val) (\<lambda>start.
          bindE (if py_truthy (pget claim ''valid_until'')
                 then bindE (parse_time_val (pget claim ''valid_until'')) (\<lambda>e. Inr (Some e))
                 else Inr None) (\<lambda>end_time.
          bindE (dt_less t start) (\<lambda>early.
            if early then Inr True
            else (case end_time of None \<Rightarrow> Inr False | Some e \<Rightarrow> dt_le e t)))))"

definition not_known_yet :: "datetime option \<Rightarrow> pydict \<Rightarrow> bool result" where
  "not_known_yet known_at claim =
     (case known_at of None \<Rightarrow> Inr False
      | Some t \<Rightarrow>
          (if \<not> py_truthy (pget claim ''recorded_at'') then Inr False
           else bindE (parse_time_val (pget claim ''recorded_at'')) (\<lambda>r. dt_less t r)))"

definition excluded :: "twin_state \<Rightarrow> string \<Rightarrow> bool" where
  "excluded s c \<longleftrightarrow> c \<in> st_stale_claim_ids s \<or> c \<in> st_retired_claim_ids s \<or> c \<in> st_superseded_claim_ids s"

definition select_claim ::
  "twin_state \<Rightarrow> datetime option \<Rightarrow> datetime option \<Rightarrow> sensitivity option \<Rightarrow> string \<Rightarrow> pydict list result" where
  "select_claim s valid_at known_at limit c =
     (if excluded s c then Inr []
      else (case map_of (st_claims s) c of
        None \<Rightarrow> Inl (KeyError c)
      | Some claim \<Rightarrow>
          bindE (too_sensitive limit claim) (\<lambda>a. if a then Inr [] else
          bindE (outside_valid_time valid_at claim) (\<lambda>b. if b then Inr [] else
          bindE (not_known_yet known_at claim) (\<lambda>d. if d then Inr [] else Inr [claim])))))"

definition accepted_claims ::
  "twin_state \<Rightarrow> datetime option \<Rightarrow> datetime option \<Rightarrow> sensitivity option \<Rightarrow> pydict list result" where
  "accepted_claims s valid_at known_at limit =
     bindE (mapE (select_claim s valid_at known_at limit) (sorted_list_of_set (st_accepted_claim_ids s)))
       (\<lambda>parts. Inr (concat parts))"

section \<open>Replay\<close>

text \<open>The loop of \<open>rebuild\<close> over the loaded events.\<close>

fun replay :: "(string \<Rightarrow> string) \<Rightarrow> datetime option \<Rightarrow> event list \<Rightarrow> twin_state \<Rightarrow> string \<Rightarrow> twin_state result" where
  "replay H cutoff [] s prev = Inr s"
| "replay H cutoff (ev # evs) s prev =
     bindE (case cutoff of None \<Rightarrow> Inr False | Some t \<Rightarrow> dt_less t (recorded_at ev)) (\<lambda>stop.
       if stop then Inr s
       else if sequence ev \<noteq> st_sequence s + 1
       then Inl (IntegrityError (''replay sequence gap: expected '' @ show_int (st_sequence s + 1)
              @ '', found '' @ show_int (sequence ev)))
       else bindE (verify H ev prev) (\<lambda>_.
         bindE (apply_event s ev) (\<lambda>s'. replay H cutoff evs s' (event_hash ev))))"

section \<open>The snapshot round trip\<close>

lemma list_all2_set2: "list_all2 P xs ys \<Longrightarrow> \<forall>y\<in>set ys. \<exists>x\<in>set xs. P x y"
  by (induction rule: list_all2_induct) auto

lemma list_all2_set1: "list_all2 P xs ys \<Longrightarrow> \<forall>x\<in>set xs. \<exists>y\<in>set ys. P x y"
  by (induction rule: list_all2_induct) auto

lemma mapE_strings: "mapE (\<lambda>x. case x of PStr s \<Rightarrow> Inr s | _ \<Rightarrow> Inl e) (map PStr ss) = Inr ss"
  by (induction ss) auto

lemma to_primitive_ids: "\<exists>ss. to_primitive (PSet (map PStr xs)) = PList (map PStr ss) \<and> set ss = set xs"
proof -
  have "\<exists>ss. zs = map PStr ss" if "set zs \<subseteq> range PStr" for zs
    using that by (induction zs) (auto simp: Cons_eq_map_conv)
  moreover have "set (sort_key dumps (map to_primitive (map PStr xs))) = PStr ` set xs"
    by auto
  ultimately obtain ss where ss: "sort_key dumps (map to_primitive (map PStr xs)) = map PStr ss"
    by (metis image_mono subset_UNIV)
  then have "PStr ` set ss = PStr ` set xs" by (metis list.set_map \<open>set (sort_key _ _) = _\<close>)
  then have "set ss = set xs" by (simp add: inj_image_eq_iff inj_def)
  then show ?thesis using ss by auto
qed

lemma ids_round_trip:
  assumes "finite S"
  shows "ids_of_val (to_primitive (id_set S)) = Inr S"
proof -
  obtain ss where "to_primitive (id_set S) = PList (map PStr ss)" "set ss = S"
    using to_primitive_ids[of "sorted_list_of_set S"] assms by (auto simp: id_set_def)
  then show ?thesis by (simp add: ids_of_val_def py_iter_def mapE_strings list_all_iff)
qed

lemma records_primitive: "plain_records recs \<Longrightarrow> to_primitive (records_val recs) = records_val recs"
  using jsonable_primitive
  by (fastforce simp: records_val_def plain_records_def plain_def list_all_iff intro: map_idI)

lemma records_round_trip:
  assumes "plain_records recs"
  shows "records_of_val (to_primitive (records_val recs)) = Inr recs"
proof -
  have "mapE (\<lambda>(k, x). bindE (dict_of_val x) (\<lambda>d. Inr (k, d))) (map (\<lambda>(k, r). (k, PDict r)) recs) = Inr recs"
    by (induction recs) (auto simp: dict_of_val_def)
  then show ?thesis
    unfolding records_primitive[OF assms] records_of_val_def by (simp add: records_val_def dict_of_val_def)
qed

lemma reasons_round_trip: "text_list (to_primitive (str_list rs)) = Inr rs"
  by (simp add: str_list_def text_list_def py_iter_def comp_def)

lemma to_primitive_opt_str [simp]: "to_primitive (opt_str x) = opt_str x"
  by (simp add: opt_str_def split: option.splits)

lemma opt_str_read: "(if opt_str x = PNone then None else Some (py_str (opt_str x))) = x"
  by (simp add: opt_str_def split: option.splits)

lemma to_dict_lookup:
  "map_of (to_dict s) k = map_option to_primitive (map_of (state_fields s) k)"
  by (simp add: to_dict_def map_of_map split_beta comp_def)

lemma read_to_dict:
  assumes "twin_inv s" "plain_state s"
  shows "read_state (to_dict s) = Inr s"
proof -
  note fin = twin_inv_finite[OF assms(1)]
  have rec: "plain_records (st_evidence s)" "plain_records (st_entity_links s)" "plain_records (st_claims s)"
    "plain_records (st_contradictions s)" "plain_records (st_adjudications s)"
    "plain_records (st_corrections s)" "plain_records (st_issued_projections s)"
    using assms(2) by (simp_all add: plain_state_def)
  show ?thesis
    unfolding read_state_def text_item_def item_def get_or_def to_dict_lookup
    by (simp add: state_fields_def ids_round_trip fin records_round_trip rec reasons_round_trip opt_str_read)
qed

lemma from_to_dict:
  assumes "twin_inv s" "plain_state s" "1 \<le> st_sequence s" "st_twin_id s \<noteq> []" "st_last_event_hash s \<noteq> []"
  shows "from_dict (to_dict s) = Inr s"
proof -
  have "list_all (dict_has (to_dict s)) legacy_required"
    by (simp add: legacy_required_def dict_has_def to_dict_lookup state_fields_def)
  moreover have "list_all (\<lambda>k. k \<in> set legacy_required \<or> k \<in> set added_fields) (dict_keys (to_dict s))"
    by (simp add: to_dict_def state_fields_def legacy_required_def added_fields_def)
  ultimately show ?thesis
    using assms(3-) by (simp add: from_dict_def read_to_dict[OF assms(1,2)] require_def)
qed

text \<open>A snapshot of a state verifies and is read back as that state.\<close>

lemma to_snapshot_faithful:
  assumes "to_snapshot H now s = Inr sn" "twin_inv s" "plain_state s"
    and "1 \<le> st_sequence s" "st_twin_id s \<noteq> []" "st_last_event_hash s \<noteq> []"
  shows "snapshot_verify H sn = Inr ()" "from_dict (sn_state sn) = Inr s"
    "sn_twin_id sn = st_twin_id s" "sn_sequence sn = st_sequence s" "sn_last_event_hash sn = st_last_event_hash s"
  using assms snapshot_new_fields[of H now "st_twin_id s"] snapshot_new_verifies[of H now "st_twin_id s"]
  by (simp_all add: to_snapshot_def from_to_dict)

lemma plain_to_dict:
  assumes "plain_state s"
  shows "plain (to_dict s)"
proof -
  have ids: "jsonable (to_primitive (id_set S))" for S
    using to_primitive_ids[of "sorted_list_of_set S"] by (auto simp: id_set_def list_all_iff)
  have recs: "jsonable (to_primitive (records_val r))" if "plain_records r" for r
    unfolding records_primitive[OF that] using that
    by (auto simp: records_val_def plain_records_def plain_def list_all_iff wf_dict_def comp_def split_beta)
  have reasons: "jsonable (to_primitive (str_list rs))" for rs
    by (simp add: str_list_def list_all_iff)
  have opt: "jsonable (opt_str x)" for x by (simp add: opt_str_def split: option.splits)
  show ?thesis
    using assms by (simp add: plain_def to_dict_def state_fields_def plain_state_def ids recs reasons opt)
qed

section \<open>Laws of the valid-time selection\<close>

lemma filterE_Inr:
  assumes "filterE p xs = Inr ys"
  shows "ys = filter (\<lambda>x. p x = Inr True) xs" "\<forall>x\<in>set xs. \<exists>b. p x = Inr b"
  using assms by (induction xs arbitrary: ys) (auto simp: bindE_Inr_iff)

lemma filterE_wf: "filterE p xs = Inr ys \<Longrightarrow> wf_dict xs \<Longrightarrow> wf_dict ys"
  by (auto dest: filterE_Inr(1))

lemma key_set_dom: "key_set recs = dom (map_of recs)"
  by (simp add: key_set_def dom_map_of_conv_image_fst)

text \<open>A selection keeps exactly the records that hold at the instant, unchanged.\<close>

lemma keep_valid_map:
  assumes "keep_valid t recs = Inr kept" "wf_dict recs"
  shows "map_of kept k = Some r \<longleftrightarrow> map_of recs k = Some r \<and> record_valid_at r t = Inr True"
proof -
  have "kept = filter (\<lambda>kr. record_valid_at (snd kr) t = Inr True) recs"
    using assms(1) unfolding keep_valid_def by (rule filterE_Inr(1))
  then show ?thesis
    using map_of_dict_filter[OF assms(2), of "\<lambda>r. record_valid_at r t = Inr True" k]
    by (auto simp: dict_filter_def split: option.splits)
qed

lemma select_valid_at_Inr:
  assumes "select_valid_at s t = Inr v"
  obtains evidence links claims contradictions where
    "v = s\<lparr>st_evidence := evidence, st_entity_links := links,
            st_unlinked_entity_ids := st_unlinked_entity_ids s \<inter> key_set links,
            st_stale_entity_link_ids := st_stale_entity_link_ids s \<inter> key_set links,
            st_claims := claims,
            st_accepted_claim_ids := st_accepted_claim_ids s \<inter> key_set claims,
            st_contested_claim_ids := st_contested_claim_ids s \<inter> key_set claims,
            st_retired_claim_ids := st_retired_claim_ids s \<inter> key_set claims,
            st_superseded_claim_ids := st_superseded_claim_ids s \<inter> key_set claims,
            st_stale_claim_ids := st_stale_claim_ids s \<inter> key_set claims,
            st_contradictions := contradictions,
            st_resolved_contradiction_ids := st_resolved_contradiction_ids s \<inter> key_set contradictions,
            st_adjudications := dict_filter
              (\<lambda>r. py_str (get_or r ''contradiction_id'' (PStr [])) \<in> key_set contradictions) (st_adjudications s)\<rparr>"
    "\<not> naive t" "keep_valid t (st_evidence s) = Inr evidence" "keep_valid t (st_entity_links s) = Inr links"
    "keep_valid t (st_claims s) = Inr claims"
    "filterE (\<lambda>kr. bindE (text_list (get_or (snd kr) ''claim_ids'' (PList []))) (\<lambda>ids.
        Inr (set ids \<subseteq> key_set claims))) (st_contradictions s) = Inr contradictions"
  using assms unfolding select_valid_at_def bindE_Inr_iff require_Inr
  by (elim exE conjE) (rule that; (assumption | ((rule sym, simp); fail)))

lemma filed_lookup: "filed f recs \<Longrightarrow> map_of recs k = Some r \<Longrightarrow> text_item r f = Inr k"
  by (auto simp: filed_def list_all_iff dest: map_of_SomeD)

lemma filed_get_or:
  "filed f recs \<Longrightarrow> map_of recs k = Some r \<Longrightarrow> py_str (get_or r f v) = k"
  using filed_lookup[of f recs k r] by (auto simp: text_item_Inr get_or_def)

lemma select_valid_at_inv:
  assumes "select_valid_at s t = Inr v" "twin_inv s" "keys_ok s"
  shows "twin_inv v"
  using assms(1)
proof (rule select_valid_at_Inr)
  fix evidence links claims contradictions
  assume v: "v = s\<lparr>st_evidence := evidence, st_entity_links := links,
            st_unlinked_entity_ids := st_unlinked_entity_ids s \<inter> key_set links,
            st_stale_entity_link_ids := st_stale_entity_link_ids s \<inter> key_set links,
            st_claims := claims,
            st_accepted_claim_ids := st_accepted_claim_ids s \<inter> key_set claims,
            st_contested_claim_ids := st_contested_claim_ids s \<inter> key_set claims,
            st_retired_claim_ids := st_retired_claim_ids s \<inter> key_set claims,
            st_superseded_claim_ids := st_superseded_claim_ids s \<inter> key_set claims,
            st_stale_claim_ids := st_stale_claim_ids s \<inter> key_set claims,
            st_contradictions := contradictions,
            st_resolved_contradiction_ids := st_resolved_contradiction_ids s \<inter> key_set contradictions,
            st_adjudications := dict_filter
              (\<lambda>r. py_str (get_or r ''contradiction_id'' (PStr [])) \<in> key_set contradictions) (st_adjudications s)\<rparr>"
    and f: "keep_valid t (st_evidence s) = Inr evidence" "keep_valid t (st_entity_links s) = Inr links"
    "keep_valid t (st_claims s) = Inr claims"
    "filterE (\<lambda>kr. bindE (text_list (get_or (snd kr) ''claim_ids'' (PList []))) (\<lambda>ids.
        Inr (set ids \<subseteq> key_set claims))) (st_contradictions s) = Inr contradictions"
  have wf: "records_wf s" "claim_sets_ok s" "other_sets_ok s" using assms(2) by (auto simp: twin_inv_def)
  then have wf_adj: "wf_dict (st_adjudications s)" by (simp add: records_wf_def)
  let ?q = "\<lambda>r. py_str (get_or r ''contradiction_id'' (PStr [])) \<in> key_set contradictions"
  have "dom (map_of (dict_filter ?q (st_adjudications s))) = dom (map_of (st_adjudications s)) \<inter> key_set contradictions"
    using assms(3) filed_get_or[of "''contradiction_id''" "st_adjudications s"]
    by (auto simp: map_of_dict_filter[OF wf_adj] keys_ok_def dom_def split: option.splits)
  then show ?thesis
    using wf f filterE_wf wf_dict_filter unfolding v keep_valid_def
    by (auto simp: twin_inv_def claim_sets_ok_def other_sets_ok_def records_wf_def key_set_dom dict_filter_def)
qed

section \<open>Laws of the accepted claims\<close>

lemma select_claim_Inr:
  "select_claim s valid_at known_at limit c = Inr cs \<Longrightarrow> x \<in> set cs \<Longrightarrow>
     \<not> excluded s c \<and> map_of (st_claims s) c = Some x \<and> too_sensitive limit x = Inr False
     \<and> outside_valid_time valid_at x = Inr False \<and> not_known_yet known_at x = Inr False"
  by (auto simp: select_claim_def bindE_Inr_iff split: if_splits option.splits)

lemma select_claim_complete:
  "select_claim s valid_at known_at limit c = Inr cs \<Longrightarrow> \<not> excluded s c \<Longrightarrow> map_of (st_claims s) c = Some x \<Longrightarrow>
     too_sensitive limit x = Inr False \<Longrightarrow> outside_valid_time valid_at x = Inr False \<Longrightarrow>
     not_known_yet known_at x = Inr False \<Longrightarrow> cs = [x]"
  by (simp add: select_claim_def)

text \<open>A query returns exactly the live accepted claims within its bounds.\<close>

lemma accepted_claims_iff:
  assumes "accepted_claims s valid_at known_at limit = Inr cs" "finite (st_accepted_claim_ids s)"
  shows "x \<in> set cs \<longleftrightarrow>
    (\<exists>c. c \<in> st_accepted_claim_ids s \<and> \<not> excluded s c \<and> map_of (st_claims s) c = Some x
       \<and> too_sensitive limit x = Inr False \<and> outside_valid_time valid_at x = Inr False
       \<and> not_known_yet known_at x = Inr False)"
proof -
  obtain parts where parts: "cs = concat parts"
    "list_all2 (\<lambda>c p. select_claim s valid_at known_at limit c = Inr p)
       (sorted_list_of_set (st_accepted_claim_ids s)) parts"
    using assms(1) by (auto simp: accepted_claims_def bindE_Inr_iff mapE_Inr_iff)
  have "\<exists>c\<in>st_accepted_claim_ids s. select_claim s valid_at known_at limit c = Inr p" if "p \<in> set parts" for p
  proof -
    obtain c where "c \<in> set (sorted_list_of_set (st_accepted_claim_ids s))" "select_claim s valid_at known_at limit c = Inr p"
      using list_all2_set2[OF parts(2)] \<open>p \<in> set parts\<close> by blast
    then show ?thesis using assms(2) by auto
  qed
  moreover have "c \<in> st_accepted_claim_ids s \<Longrightarrow> \<exists>p\<in>set parts. select_claim s valid_at known_at limit c = Inr p" for c
  proof -
    assume "c \<in> st_accepted_claim_ids s"
    then have "c \<in> set (sorted_list_of_set (st_accepted_claim_ids s))" using assms(2) by simp
    then show ?thesis using list_all2_set1[OF parts(2)] by blast
  qed
  moreover note select_claim_Inr[of s valid_at known_at limit _ _ x] select_claim_complete[of s valid_at known_at limit _ _ x]
  ultimately show ?thesis
    unfolding parts(1) set_concat UN_iff by (metis list.set_intros(1))
qed

section \<open>Laws of replay\<close>

lemma replay_step_Inr:
  "replay H None (ev # evs) s prev = Inr t \<longleftrightarrow>
     sequence ev = st_sequence s + 1 \<and> verify H ev prev = Inr () \<and>
     (\<exists>u. apply_event s ev = Inr u \<and> replay H None evs u (event_hash ev) = Inr t)"
  by (auto simp: bindE_Inr_iff)

lemma replay_invariant:
  assumes "replay H cutoff evs s prev = Inr t" "P s"
    and "\<And>s ev t. ev \<in> set evs \<Longrightarrow> P s \<Longrightarrow> apply_event s ev = Inr t \<Longrightarrow> P t"
  shows "P t"
  using assms
proof (induction evs arbitrary: s prev)
  case (Cons ev evs)
  from Cons.prems(1) consider "t = s" | u where "apply_event s ev = Inr u" "replay H cutoff evs u (event_hash ev) = Inr t"
    by (auto simp: bindE_Inr_iff split: if_splits)
  then show ?case
  proof cases
    case 1
    then show ?thesis using Cons.prems(2) by simp
  next
    case 2
    have "P u" using Cons.prems(3)[of ev s u] Cons.prems(2) 2(1) by simp
    then show ?thesis using Cons.prems(3) by (intro Cons.IH[OF 2(2)]) auto
  qed
qed simp

lemma replay_twin_inv: "replay H cutoff evs s prev = Inr t \<Longrightarrow> twin_inv s \<Longrightarrow> twin_inv t"
  by (erule replay_invariant) (auto intro: apply_event_inv)

lemma replay_lineage: "replay H cutoff evs s prev = Inr t \<Longrightarrow> lineage_ok s \<Longrightarrow> lineage_ok t"
  by (erule replay_invariant) (auto intro: apply_event_lineage)

lemma replay_keys: "replay H cutoff evs s prev = Inr t \<Longrightarrow> keys_ok s \<Longrightarrow> keys_ok t"
  by (erule replay_invariant) (auto intro: apply_event_keys)

lemma replay_plain:
  "replay H cutoff evs s prev = Inr t \<Longrightarrow> plain_state s \<Longrightarrow> (\<And>ev. ev \<in> set evs \<Longrightarrow> plain (payload ev)) \<Longrightarrow> plain_state t"
  by (erule replay_invariant) (auto intro: apply_event_plain)

lemma replay_retains: "replay H cutoff evs s prev = Inr t \<Longrightarrow> twin_inv s \<Longrightarrow> retains s t"
  using replay_invariant[of H cutoff evs s prev t "\<lambda>u. twin_inv u \<and> retains s u"]
  by (auto simp: retains_refl intro: apply_event_inv apply_event_retains retains_trans)

lemma replay_lifecycle:
  "replay H cutoff evs s prev = Inr t \<Longrightarrow> twin_inv s \<Longrightarrow> lifecycle\<^sup>*\<^sup>* (claim_status s c) (claim_status t c)"
  using replay_invariant[of H cutoff evs s prev t "\<lambda>u. twin_inv u \<and> lifecycle\<^sup>*\<^sup>* (claim_status s c) (claim_status u c)"]
  by (auto intro: apply_event_inv apply_event_lifecycle rtranclp.rtrancl_into_rtrancl)

text \<open>A replay can be cut anywhere and continued from the state it has reached.\<close>

lemma replay_append:
  "replay H None (xs @ ys) s prev =
     bindE (replay H None xs s prev) (\<lambda>u. replay H None ys u (if xs = [] then prev else event_hash (last xs)))"
  by (induction xs arbitrary: s prev) (auto intro!: bindE_cong simp: bindE_def split: sum.splits)

lemma replay_position:
  assumes "replay H None evs s prev = Inr t" "evs \<noteq> []"
  shows "st_sequence t = sequence (last evs)" "st_last_event_hash t = event_hash (last evs)"
proof -
  have "st_sequence t = sequence (last evs) \<and> st_last_event_hash t = event_hash (last evs)"
    using assms
  proof (induction evs arbitrary: s prev)
    case (Cons ev evs)
    then obtain u where u: "apply_event s ev = Inr u" "replay H None evs u (event_hash ev) = Inr t"
      by (auto simp: replay_step_Inr simp del: replay.simps)
    show ?case
    proof (cases evs)
      case Nil
      then show ?thesis using u apply_event_position by auto
    next
      case (Cons e es)
      then show ?thesis using Cons.IH[OF u(2)] by simp
    qed
  qed simp
  then show "st_sequence t = sequence (last evs)" "st_last_event_hash t = event_hash (last evs)" by auto
qed

text \<open>The replayed events are numbered without a gap.\<close>

lemma replay_contiguous:
  "replay H None evs s prev = Inr t \<Longrightarrow> map sequence evs = map (\<lambda>i. st_sequence s + 1 + int i) [0..<length evs]"
proof (induction evs arbitrary: s prev)
  case (Cons ev evs)
  then obtain u where u: "sequence ev = st_sequence s + 1" "apply_event s ev = Inr u"
    "replay H None evs u (event_hash ev) = Inr t"
    by (auto simp: replay_step_Inr simp del: replay.simps)
  have "map sequence evs = map (\<lambda>i. st_sequence u + 1 + int i) [0..<length evs]"
    using u(3) by (rule Cons.IH)
  also have "st_sequence u = st_sequence s + 1" using u apply_event_position by auto
  finally show ?case using u(1) by (simp add: upt_conv_Cons map_Suc_upt[symmetric] del: upt_Suc)
qed simp

end
