(* ===== verification/K2_Tables.thy ===== *)
theory K2_Tables
  imports K2_Aggregate_Queries "HOL-Library.Product_Lexorder"
begin

text \<open>
  The tables of the SQLite event store (\<open>src/src/argo_dt/event_store.py\<close>, the DDL) as lists
  of rows in insertion order, and the two conversions between rows and domain values: an event is
  written as text columns and read back by \<open>_row_to_event\<close>. Shown: what is read back is the
  event with its payload in JSON form and its timestamps in UTC, and its hash still verifies.

  A transaction is a function from the database to an error or the new database: a raised error
  rolls back, so the caller keeps the old one. Columns of type TEXT compare as strings of code
  points, as SQLite's BINARY collation compares their UTF-8 forms.
\<close>

section \<open>Rows\<close>

record event_row =
  er_twin_id :: string
  er_sequence :: int
  er_event_id :: string
  er_event_type :: string
  er_plane :: string
  er_schema_version :: string
  er_payload_json :: string
  er_occurred_at :: string
  er_recorded_at :: string
  er_producer :: string
  er_producer_role :: string
  er_idempotency_key :: string
  er_causation_id :: "string option"
  er_correlation_id :: "string option"
  er_previous_hash :: string
  er_event_hash :: string

record snapshot_row =
  sr_twin_id :: string
  sr_sequence :: int
  sr_schema_version :: string
  sr_state_json :: string
  sr_state_hash :: string
  sr_last_event_hash :: string
  sr_created_at :: string

record outbox_row =
  ob_twin_id :: string
  ob_sequence :: int
  ob_topic :: string
  ob_message_key :: string
  ob_created_at :: string
  ob_published_at :: "string option"
  ob_attempts :: int
  ob_last_error :: "string option"
  ob_lease_owner :: "string option"
  ob_lease_until :: "string option"

record dependency_row =
  dp_twin_id :: string
  dp_source_kind :: string
  dp_source_id :: string
  dp_dependent_kind :: string
  dp_dependent_id :: string
  dp_created_sequence :: int
  dp_relation :: string

record invalidation_row =
  iv_twin_id :: string
  iv_deletion_sequence :: int
  iv_source_evidence_id :: string
  iv_dependent_kind :: string
  iv_dependent_id :: string
  iv_created_at :: string
  iv_processed_at :: "string option"

record db =
  db_events :: "event_row list"
  db_snapshots :: "snapshot_row list"
  db_outbox :: "outbox_row list"
  db_dependencies :: "dependency_row list"
  db_invalidations :: "invalidation_row list"

definition empty_db :: db where
  "empty_db = \<lparr>db_events = [], db_snapshots = [], db_outbox = [], db_dependencies = [], db_invalidations = []\<rparr>"

section \<open>Events as rows\<close>

definition event_to_row :: "event \<Rightarrow> event_row result" where
  "event_to_row ev =
     bindE (canonical_json (PDict (payload ev))) (\<lambda>json.
     Inr \<lparr>er_twin_id = twin_id ev, er_sequence = sequence ev, er_event_id = event_id ev,
          er_event_type = event_type ev, er_plane = plane_text (plane ev),
          er_schema_version = schema_version ev, er_payload_json = json,
          er_occurred_at = isoformat (occurred_at ev), er_recorded_at = isoformat (recorded_at ev),
          er_producer = producer ev, er_producer_role = role_text (producer_role ev),
          er_idempotency_key = idempotency_key ev, er_causation_id = causation_id ev,
          er_correlation_id = correlation_id ev, er_previous_hash = previous_hash ev,
          er_event_hash = event_hash ev\<rparr>)"

text \<open>
  \<open>_row_to_event\<close>. The stored payload is always an object; other JSON data is outside the
  event type.
\<close>

definition row_to_event :: "event_row \<Rightarrow> event result" where
  "row_to_event r =
     bindE (plane_of (er_plane r)) (\<lambda>pl.
     bindE (loads (er_payload_json r)) (\<lambda>v.
     bindE (case v of PDict d \<Rightarrow> Inr d | _ \<Rightarrow> Inl OutOfModel) (\<lambda>d.
     bindE (parse_time (er_occurred_at r)) (\<lambda>occ.
     bindE (parse_time (er_recorded_at r)) (\<lambda>rcd.
     bindE (role_of (er_producer_role r)) (\<lambda>role.
     Inr \<lparr>event_id = er_event_id r, twin_id = er_twin_id r, event_type = er_event_type r,
          plane = pl, payload = d, occurred_at = occ, recorded_at = rcd, producer = er_producer r,
          producer_role = role, idempotency_key = er_idempotency_key r,
          schema_version = er_schema_version r, sequence = er_sequence r,
          causation_id = er_causation_id r, correlation_id = er_correlation_id r,
          previous_hash = er_previous_hash r, event_hash = er_event_hash r\<rparr>))))))"

text \<open>What the store keeps of an event, and the events it keeps faithfully.\<close>

definition persisted :: "event \<Rightarrow> event" where
  "persisted ev =
     ev\<lparr>payload := dict_val (to_primitive (PDict (payload ev))),
        occurred_at := astimezone_utc (occurred_at ev), recorded_at := astimezone_utc (recorded_at ev)\<rparr>"

definition storable_time :: "datetime \<Rightarrow> bool" where
  "storable_time t \<longleftrightarrow> valid_dt t \<and> \<not> naive t"

definition storable :: "event \<Rightarrow> bool" where
  "storable ev \<longleftrightarrow> finite_floats (PDict (payload ev)) \<and> jsonable (to_primitive (PDict (payload ev)))
     \<and> storable_time (occurred_at ev) \<and> storable_time (recorded_at ev)"

lemma to_primitive_PDict: "to_primitive (PDict d) = PDict (dict_val (to_primitive (PDict d)))"
  by simp

lemma event_to_row_storable:
  assumes "storable ev"
  obtains row where "event_to_row ev = Inr row" "row_to_event row = Inr (persisted ev)"
    "er_twin_id row = twin_id ev" "er_sequence row = sequence ev" "er_event_id row = event_id ev"
    "er_idempotency_key row = idempotency_key ev" "er_event_hash row = event_hash ev"
    "er_previous_hash row = previous_hash ev" "er_recorded_at row = isoformat (recorded_at ev)"
    "er_event_type row = event_type ev" "er_plane row = plane_text (plane ev)"
proof -
  let ?p = "to_primitive (PDict (payload ev))"
  have json: "canonical_json (PDict (payload ev)) = Inr (dumps ?p)"
    using assms unfolding storable_def canonical_json_def by simp
  have load: "loads (dumps ?p) = Inr ?p" using assms unfolding storable_def by (intro loads_dumps) blast
  have p: "?p = PDict (dict_val ?p)" by (rule to_primitive_PDict)
  have t: "parse_time (isoformat (occurred_at ev)) = Inr (astimezone_utc (occurred_at ev))"
    "parse_time (isoformat (recorded_at ev)) = Inr (astimezone_utc (recorded_at ev))"
    using assms by (simp_all add: storable_def storable_time_def parse_time_isoformat)
  define row where "row = \<lparr>er_twin_id = twin_id ev, er_sequence = sequence ev, er_event_id = event_id ev,
          er_event_type = event_type ev, er_plane = plane_text (plane ev),
          er_schema_version = schema_version ev, er_payload_json = dumps ?p,
          er_occurred_at = isoformat (occurred_at ev), er_recorded_at = isoformat (recorded_at ev),
          er_producer = producer ev, er_producer_role = role_text (producer_role ev),
          er_idempotency_key = idempotency_key ev, er_causation_id = causation_id ev,
          er_correlation_id = correlation_id ev, er_previous_hash = previous_hash ev,
          er_event_hash = event_hash ev\<rparr>"
  show thesis
  proof (rule that[of row])
    show "event_to_row ev = Inr row" unfolding event_to_row_def json bindE_simps row_def ..
    have "(case ?p of PDict d \<Rightarrow> Inr d | _ \<Rightarrow> Inl OutOfModel) = Inr (dict_val ?p)" by simp
    then show "row_to_event row = Inr (persisted ev)"
      unfolding row_to_event_def row_def
      by (simp only: event_row.simps load bindE_simps t plane_of_text role_of_text) (simp add: persisted_def)
  qed (simp_all add: row_def)
qed

lemma persisted_fields [simp]:
  "sequence (persisted ev) = sequence ev" "event_hash (persisted ev) = event_hash ev"
  "previous_hash (persisted ev) = previous_hash ev" "twin_id (persisted ev) = twin_id ev"
  "event_id (persisted ev) = event_id ev" "event_type (persisted ev) = event_type ev"
  "plane (persisted ev) = plane ev" "producer (persisted ev) = producer ev"
  "producer_role (persisted ev) = producer_role ev" "idempotency_key (persisted ev) = idempotency_key ev"
  "schema_version (persisted ev) = schema_version ev" "causation_id (persisted ev) = causation_id ev"
  "correlation_id (persisted ev) = correlation_id ev"
  by (simp_all add: persisted_def)

lemma event_val_persisted: "event_val (persisted ev) = event_val ev" if "jsonable (to_primitive (PDict (payload ev)))"
proof -
  have "to_primitive (PDict (dict_val (to_primitive (PDict (payload ev))))) = to_primitive (PDict (payload ev))"
    using jsonable_primitive[OF that] by (simp only: to_primitive_PDict[symmetric])
  moreover have "iso_z (astimezone_utc t) = iso_z t" for t by (simp add: iso_z_def)
  ultimately show ?thesis by (simp add: event_val_def persisted_def)
qed

lemma verify_persisted:
  assumes "storable ev"
  shows "verify H (persisted ev) prev = verify H ev prev"
proof -
  have "event_val (persisted ev) = event_val ev"
    using assms by (intro event_val_persisted) (simp add: storable_def)
  then have "hash_material (persisted ev) = hash_material ev"
    by (simp only: hash_material_def persisted_fields)
  then show ?thesis by (simp only: verify_def persisted_fields)
qed

lemma plain_persisted: "storable ev \<Longrightarrow> plain (payload (persisted ev))"
  by (simp add: persisted_def plain_def storable_def)

section \<open>Snapshots as rows\<close>

definition snapshot_to_row :: "snapshot \<Rightarrow> snapshot_row result" where
  "snapshot_to_row s =
     bindE (canonical_json (PDict (sn_state s))) (\<lambda>json.
     Inr \<lparr>sr_twin_id = sn_twin_id s, sr_sequence = sn_sequence s, sr_schema_version = sn_schema_version s,
          sr_state_json = json, sr_state_hash = sn_state_hash s,
          sr_last_event_hash = sn_last_event_hash s, sr_created_at = isoformat (sn_created_at s)\<rparr>)"

definition row_to_snapshot :: "(string \<Rightarrow> string) \<Rightarrow> snapshot_row \<Rightarrow> snapshot result" where
  "row_to_snapshot H r =
     bindE (loads (sr_state_json r)) (\<lambda>v.
     bindE (case v of PDict d \<Rightarrow> Inr d | _ \<Rightarrow> Inl OutOfModel) (\<lambda>d.
     bindE (parse_time (sr_created_at r)) (\<lambda>t.
     let s = \<lparr>sn_twin_id = sr_twin_id r, sn_sequence = sr_sequence r, sn_last_event_hash = sr_last_event_hash r,
              sn_state = d, sn_state_hash = sr_state_hash r, sn_created_at = t,
              sn_schema_version = sr_schema_version r\<rparr>
     in bindE (snapshot_verify H s) (\<lambda>_. Inr s))))"

lemma snapshot_to_row_plain:
  assumes "plain (sn_state s)" "storable_time (sn_created_at s)" "snapshot_verify H s = Inr ()"
  obtains row where "snapshot_to_row s = Inr row"
    "row_to_snapshot H row = Inr (s\<lparr>sn_created_at := astimezone_utc (sn_created_at s)\<rparr>)"
    "sr_twin_id row = sn_twin_id s" "sr_sequence row = sn_sequence s" "sr_state_hash row = sn_state_hash s"
    "sr_last_event_hash row = sn_last_event_hash s"
proof -
  have j: "jsonable (PDict (sn_state s))" using assms(1) by (simp only: plain_def)
  have json: "canonical_json (PDict (sn_state s)) = Inr (dumps (PDict (sn_state s)))"
    using j by (rule canonical_json_jsonable)
  have load: "loads (dumps (PDict (sn_state s))) = Inr (PDict (sn_state s))" using j by (rule loads_dumps)
  have t: "parse_time (isoformat (sn_created_at s)) = Inr (astimezone_utc (sn_created_at s))"
    using assms(2) by (simp add: storable_time_def parse_time_isoformat)
  have created: "snapshot_verify H (s\<lparr>sn_created_at := u\<rparr>) = snapshot_verify H s" for u
    by (simp add: snapshot_verify_def)
  have v: "snapshot_verify H (s\<lparr>sn_created_at := astimezone_utc (sn_created_at s)\<rparr>) = Inr ()"
    using assms(3) unfolding created .
  define row where "row = \<lparr>sr_twin_id = sn_twin_id s, sr_sequence = sn_sequence s, sr_schema_version = sn_schema_version s,
          sr_state_json = dumps (PDict (sn_state s)), sr_state_hash = sn_state_hash s,
          sr_last_event_hash = sn_last_event_hash s, sr_created_at = isoformat (sn_created_at s)\<rparr>"
  have eq: "\<lparr>sn_twin_id = sn_twin_id s, sn_sequence = sn_sequence s, sn_last_event_hash = sn_last_event_hash s,
       sn_state = sn_state s, sn_state_hash = sn_state_hash s, sn_created_at = astimezone_utc (sn_created_at s),
       sn_schema_version = sn_schema_version s\<rparr> = s\<lparr>sn_created_at := astimezone_utc (sn_created_at s)\<rparr>"
    by simp
  show thesis
  proof (rule that[of row])
    show "snapshot_to_row s = Inr row" unfolding snapshot_to_row_def json bindE_simps row_def ..
    show "row_to_snapshot H row = Inr (s\<lparr>sn_created_at := astimezone_utc (sn_created_at s)\<rparr>)"
      unfolding row_to_snapshot_def row_def snapshot_row.simps load bindE_simps pyval.case t Let_def eq v ..
  qed (simp_all add: row_def)
qed

end
