(* ===== verification/K2_Lineage_Index.thy ===== *)
theory K2_Lineage_Index
  imports K2_Tables
begin

text \<open>
  The dependency index of the event store: the edges an event adds
  (\<open>_index_dependencies\<close>), the recursive queries \<open>dependents\<close> and \<open>ancestors\<close>, the
  invalidation queue and the migration of the index. The recursive common table expression is the
  loop SQLite runs: a queue of rows, each expanded once, duplicates dropped. Shown: the loop ends
  on every graph and returns exactly the transitive closure, the two queries are converse to
  each other, and a deletion queues exactly its transitive dependents.
\<close>

section \<open>The recursive query\<close>

type_synonym node = "string \<times> string"

definition successors :: "('a \<times> 'a) list \<Rightarrow> 'a \<Rightarrow> 'a list" where
  "successors E x = remdups (map snd (filter (\<lambda>e. fst e = x) E))"

function impacted_loop :: "('a \<times> 'a) list \<Rightarrow> 'a list \<Rightarrow> 'a list \<Rightarrow> 'a list" where
  "impacted_loop E [] seen = seen"
| "impacted_loop E (x # queue) seen =
     (let new = filter (\<lambda>y. y \<notin> set seen) (successors E x)
      in impacted_loop E (queue @ new) (seen @ new))"
  by pat_completeness auto

lemma successors_range: "set (successors E x) = {y. (x, y) \<in> set E}"
  by (force simp: successors_def)

lemma distinct_successors [simp]: "distinct (successors E x)"
  by (simp add: successors_def)

text \<open>Each expansion takes one row off the queue, or finds new nodes among finitely many.\<close>

lemma unseen_decreases:
  assumes "new = filter (\<lambda>y. y \<notin> set seen) (successors E x)"
  shows "card (snd ` set E - set (seen @ new)) + length new = card (snd ` set E - set seen)"
proof -
  have sub: "set new \<subseteq> snd ` set E - set seen"
    using assms by (force simp: successors_range)
  have "card (set new) = length new" unfolding assms by (intro distinct_card distinct_filter distinct_successors)
  moreover have "snd ` set E - set (seen @ new) = (snd ` set E - set seen) - set new" by auto
  moreover have "card ((snd ` set E - set seen) - set new) + card (set new) = card (snd ` set E - set seen)"
    using sub by (metis card_Diff_subset card_mono finite_Diff finite_imageI finite_set le_add_diff_inverse2)
  ultimately show ?thesis by simp
qed

termination impacted_loop
proof (relation "measure (\<lambda>(E, queue, seen). length queue + 2 * card (snd ` set E - set seen))")
  fix E :: "('a \<times> 'a) list" and x :: 'a and queue seen new :: "'a list"
  assume "new = filter (\<lambda>y. y \<notin> set seen) (successors E x)"
  from unseen_decreases[OF this]
  show "((E, queue @ new, seen @ new), E, x # queue, seen)
      \<in> measure (\<lambda>(E, queue, seen). length queue + 2 * card (snd ` set E - set seen))"
    by (simp del: set_append)
qed simp

definition impacted :: "('a \<times> 'a) list \<Rightarrow> 'a \<Rightarrow> 'a list" where
  "impacted E x = impacted_loop E (successors E x) (successors E x)"

text \<open>The loop with a bound on its rounds; a round is one row taken off the queue.\<close>

fun impacted_within :: "nat \<Rightarrow> ('a \<times> 'a) list \<Rightarrow> 'a list \<Rightarrow> 'a list \<Rightarrow> 'a list option" where
  "impacted_within n E [] seen = Some seen"
| "impacted_within 0 E (x # queue) seen = None"
| "impacted_within (Suc n) E (x # queue) seen =
     (let new = filter (\<lambda>y. y \<notin> set seen) (successors E x) in impacted_within n E (queue @ new) (seen @ new))"

lemma impacted_within_loop:
  "length queue + card (snd ` set E - set seen) \<le> n \<Longrightarrow> impacted_within n E queue seen = Some (impacted_loop E queue seen)"
proof (induction n E queue seen rule: impacted_within.induct)
  case (3 n E x queue seen)
  define new where "new = filter (\<lambda>y. y \<notin> set seen) (successors E x)"
  have "length (queue @ new) + card (snd ` set E - set (seen @ new)) \<le> n"
    using 3(2) unseen_decreases[OF new_def] by (simp del: set_append)
  from 3(1)[OF new_def this] show ?case by (simp add: new_def Let_def)
qed simp_all

lemma impacted_rounds:
  "impacted_within (card (snd ` set E)) E (successors E x) (successors E x) = Some (impacted E x)"
  unfolding impacted_def
proof (rule impacted_within_loop)
  have sub: "set (successors E x) \<subseteq> snd ` set E" by (force simp: successors_range)
  then have "card (snd ` set E - set (successors E x)) = card (snd ` set E) - card (set (successors E x))"
    by (simp add: card_Diff_subset)
  moreover have "card (set (successors E x)) = length (successors E x)" by (intro distinct_card distinct_successors)
  moreover have "card (set (successors E x)) \<le> card (snd ` set E)" using sub by (intro card_mono) simp_all
  ultimately show "length (successors E x) + card (snd ` set E - set (successors E x)) \<le> card (snd ` set E)" by simp
qed

lemma impacted_loop_spec:
  assumes "set queue \<subseteq> set seen" "\<And>x y. x \<in> set seen - set queue \<Longrightarrow> (x, y) \<in> set E \<Longrightarrow> y \<in> set seen"
  shows "set (impacted_loop E queue seen) = (set E)\<^sup>* `` set seen"
  using assms
proof (induction E queue seen rule: impacted_loop.induct)
  case (1 E seen)
  have "y \<in> set seen" if "(x, y) \<in> (set E)\<^sup>*" "x \<in> set seen" for x y
    using that by (induction rule: rtrancl_induct) (auto intro: 1(2))
  then show ?case by auto
next
  case (2 E x queue seen)
  define new where "new = filter (\<lambda>y. y \<notin> set seen) (successors E x)"
  have new: "set new = {y. (x, y) \<in> set E} - set seen" by (auto simp: new_def successors_range)
  have "set (impacted_loop E (queue @ new) (seen @ new)) = (set E)\<^sup>* `` set (seen @ new)"
  proof (rule 2(1)[OF new_def])
    show "set (queue @ new) \<subseteq> set (seen @ new)" using 2(2) by auto
    show "b \<in> set (seen @ new)" if "a \<in> set (seen @ new) - set (queue @ new)" "(a, b) \<in> set E" for a b
      using that 2(3)[of a b] new by (cases "a = x") auto
  qed
  also have "\<dots> = (set E)\<^sup>* `` set seen"
  proof -
    have "x \<in> set seen" using 2(2) by simp
    then have "set new \<subseteq> (set E)\<^sup>* `` set seen" using new by auto
    then have "(set E)\<^sup>* `` set new \<subseteq> (set E)\<^sup>* `` set seen"
      by (blast intro: rtrancl_trans)
    then show ?thesis by auto
  qed
  finally show ?case by (simp add: new_def Let_def)
qed

lemma set_impacted: "set (impacted E x) = {y. (x, y) \<in> (set E)\<^sup>+}"
proof -
  have "set (impacted E x) = (set E)\<^sup>* `` set (successors E x)"
    unfolding impacted_def by (rule impacted_loop_spec) auto
  also have "\<dots> = {y. (x, y) \<in> (set E)\<^sup>+}"
    by (auto simp: successors_range trancl_unfold_left)
  finally show ?thesis .
qed

lemma distinct_impacted_loop:
  "distinct seen \<Longrightarrow> distinct (impacted_loop E queue seen)"
  by (induction E queue seen rule: impacted_loop.induct) (auto simp: Let_def)

lemma distinct_impacted: "distinct (impacted E x)"
  by (simp add: impacted_def distinct_impacted_loop)

section \<open>Queries\<close>

definition lineage_kinds :: "string list" where
  "lineage_kinds = [''evidence'', ''entity'', ''claim'', ''contradiction'', ''correction'', ''projection'']"

definition row_source :: "dependency_row \<Rightarrow> node" where
  "row_source r = (dp_source_kind r, dp_source_id r)"

definition row_dependent :: "dependency_row \<Rightarrow> node" where
  "row_dependent r = (dp_dependent_kind r, dp_dependent_id r)"

definition edges_up_to :: "string \<Rightarrow> int \<Rightarrow> dependency_row list \<Rightarrow> (node \<times> node) list" where
  "edges_up_to twin cutoff deps =
     map (\<lambda>r. (row_source r, row_dependent r))
       (filter (\<lambda>r. dp_twin_id r = twin \<and> dp_created_sequence r \<le> cutoff) deps)"

definition all_edges :: "string \<Rightarrow> dependency_row list \<Rightarrow> (node \<times> node) list" where
  "all_edges twin deps =
     map (\<lambda>r. (row_source r, row_dependent r)) (filter (\<lambda>r. dp_twin_id r = twin) deps)"

definition flip :: "('a \<times> 'b) list \<Rightarrow> ('b \<times> 'a) list" where
  "flip E = map (\<lambda>e. (snd e, fst e)) E"

definition cutoff_of :: "int option \<Rightarrow> int" where
  "cutoff_of u = (case u of Some n \<Rightarrow> n | None \<Rightarrow> 2 ^ 63 - 1)"

definition dependents :: "db \<Rightarrow> string \<Rightarrow> string \<Rightarrow> string \<Rightarrow> bool \<Rightarrow> int option \<Rightarrow> node list result" where
  "dependents db twin kind ident transitive up_to =
     (if kind \<notin> set lineage_kinds then Inl (ValueError ''source_kind is not a supported lineage kind'')
      else if cutoff_of up_to < 0 then Inr []
      else let E = edges_up_to twin (cutoff_of up_to) (db_dependencies db)
           in if transitive then Inr (sort (impacted E (kind, ident)))
              else Inr (sort (map snd (filter (\<lambda>e. fst e = (kind, ident)) E))))"

definition ancestors :: "db \<Rightarrow> string \<Rightarrow> string \<Rightarrow> string \<Rightarrow> bool \<Rightarrow> int option \<Rightarrow> node list result" where
  "ancestors db twin kind ident transitive up_to =
     (if kind \<notin> set lineage_kinds then Inl (ValueError ''dependent_kind is not a supported lineage kind'')
      else if cutoff_of up_to < 0 then Inr []
      else let E = flip (edges_up_to twin (cutoff_of up_to) (db_dependencies db))
           in if transitive then Inr (sort (impacted E (kind, ident)))
              else Inr (sort (map snd (filter (\<lambda>e. fst e = (kind, ident)) E))))"

lemma set_flip: "set (flip E) = (set E)\<inverse>"
  by (force simp: flip_def)

lemma dependents_iff:
  assumes "dependents db twin kind ident True up_to = Inr ds"
  shows "y \<in> set ds \<longleftrightarrow> 0 \<le> cutoff_of up_to \<and>
    ((kind, ident), y) \<in> (set (edges_up_to twin (cutoff_of up_to) (db_dependencies db)))\<^sup>+"
  using assms by (auto simp: dependents_def Let_def set_impacted split: if_splits)

lemma ancestors_iff:
  assumes "ancestors db twin kind ident True up_to = Inr as"
  shows "x \<in> set as \<longleftrightarrow> 0 \<le> cutoff_of up_to \<and>
    (x, (kind, ident)) \<in> (set (edges_up_to twin (cutoff_of up_to) (db_dependencies db)))\<^sup>+"
  using assms by (auto simp: ancestors_def Let_def set_impacted set_flip trancl_converse split: if_splits)

lemma dependents_total: "kind \<in> set lineage_kinds \<Longrightarrow> \<exists>ds. dependents db twin kind ident tr up_to = Inr ds"
  by (simp add: dependents_def Let_def)

lemma ancestors_total: "kind \<in> set lineage_kinds \<Longrightarrow> \<exists>as. ancestors db twin kind ident tr up_to = Inr as"
  by (simp add: ancestors_def Let_def)

text \<open>What depends on \<open>x\<close> is what has \<open>x\<close> among its ancestors.\<close>

lemma dependents_ancestors:
  assumes "dependents db twin (fst x) (snd x) True up_to = Inr ds"
    and "ancestors db twin (fst y) (snd y) True up_to = Inr as"
  shows "y \<in> set ds \<longleftrightarrow> x \<in> set as"
  using dependents_iff[OF assms(1), of y] ancestors_iff[OF assms(2), of x] by simp

text \<open>Raising the cutoff only adds: what was a dependent at a sequence stays one.\<close>

lemma edges_up_to_mono: "m \<le> n \<Longrightarrow> set (edges_up_to twin m deps) \<subseteq> set (edges_up_to twin n deps)"
  by (auto simp: edges_up_to_def)

lemma dependents_mono:
  assumes "dependents db twin k i True (Some m) = Inr ds" "dependents db twin k i True (Some n) = Inr es" "m \<le> n"
  shows "set ds \<subseteq> set es"
  using dependents_iff[OF assms(1)] dependents_iff[OF assms(2)] assms(3)
    trancl_mono[OF _ edges_up_to_mono[OF assms(3), of twin "db_dependencies db"]]
  by (fastforce simp: cutoff_of_def)

text \<open>An answer is sorted and names nothing twice.\<close>

lemma dependents_sorted:
  "dependents db twin k i True up_to = Inr ds \<Longrightarrow> sorted ds \<and> distinct ds"
  by (auto simp: dependents_def Let_def distinct_impacted split: if_splits)

section \<open>Edges of an event\<close>

type_synonym edge = "string \<times> string \<times> string \<times> string \<times> string"

definition text_or_empty :: "pydict \<Rightarrow> string \<Rightarrow> string" where
  "text_or_empty p k = py_str (get_or p k (PStr []))"

definition provenance_edges :: "pydict \<Rightarrow> string \<Rightarrow> string \<Rightarrow> string \<Rightarrow> edge list result" where
  "provenance_edges p kind ident dflt =
     bindE (py_iter (get_or p ''provenance'' (PList []))) (\<lambda>refs.
     Inr (map (\<lambda>d. (''evidence'', text_or_empty d ''evidence_id'', kind, ident,
                     py_str (get_or d ''relation'' (PStr dflt))))
          (map dict_val (filter is_dict refs))))"

definition edges_of :: "event \<Rightarrow> edge list result" where
  "edges_of ev =
     (let p = payload ev; ty = event_type ev in
      if ty = ''ClaimProposed'' then provenance_edges p ''claim'' (text_or_empty p ''claim_id'') ''supports''
      else if ty = ''EntityLinked'' then provenance_edges p ''entity'' (text_or_empty p ''entity_link_id'') ''identifies''
      else if ty = ''ClaimSuperseded'' then
        Inr [(''claim'', text_or_empty p ''claim_id'', ''claim'', text_or_empty p ''successor_claim_id'', ''superseded_by'')]
      else if ty = ''ContradictionDetected'' then
        bindE (text_list (get_or p ''claim_ids'' (PList []))) (\<lambda>ids.
        Inr (map (\<lambda>c. (''claim'', c, ''contradiction'', text_or_empty p ''contradiction_id'', ''contradicts'')) ids))
      else if ty = ''CorrectionRecorded'' then
        (let kind = text_or_empty p ''target_kind''; k = text_or_empty p ''correction_id'' in
         if kind \<in> {''evidence'', ''claim''}
         then Inr [(kind, text_or_empty p ''target_id'', ''correction'', k, ''corrected''),
                   (kind, text_or_empty p ''replacement_id'', ''correction'', k, ''replacement'')]
         else Inr [])
      else if ty = ''ProjectionIssued'' then
        bindE (text_list (get_or p ''source_claim_ids'' (PList []))) (\<lambda>ids.
        Inr (map (\<lambda>c. (''claim'', c, ''projection'', text_or_empty p ''projection_id'', ''compiled_from'')) ids))
      else Inr [])"

definition same_edge :: "dependency_row \<Rightarrow> dependency_row \<Rightarrow> bool" where
  "same_edge a b \<longleftrightarrow> dp_twin_id a = dp_twin_id b \<and> row_source a = row_source b
     \<and> row_dependent a = row_dependent b \<and> dp_relation a = dp_relation b"

text \<open>\<open>add_edge\<close>: nothing for an empty identifier, \<open>INSERT OR IGNORE\<close> on the primary key.\<close>

definition add_edge :: "event \<Rightarrow> edge \<Rightarrow> dependency_row list \<Rightarrow> dependency_row list" where
  "add_edge ev e deps =
     (case e of (sk, sid, dk, did, rel) \<Rightarrow>
       if sid = [] \<or> did = [] then deps
       else let row = \<lparr>dp_twin_id = twin_id ev, dp_source_kind = sk, dp_source_id = sid,
                       dp_dependent_kind = dk, dp_dependent_id = did,
                       dp_created_sequence = sequence ev, dp_relation = rel\<rparr>
            in if list_ex (same_edge row) deps then deps else deps @ [row])"

definition add_invalidation :: "event \<Rightarrow> string \<Rightarrow> node \<Rightarrow> invalidation_row list \<Rightarrow> invalidation_row list" where
  "add_invalidation ev source n rows =
     (if list_ex (\<lambda>r. iv_twin_id r = twin_id ev \<and> iv_deletion_sequence r = sequence ev
          \<and> iv_dependent_kind r = fst n \<and> iv_dependent_id r = snd n) rows
      then rows
      else rows @ [\<lparr>iv_twin_id = twin_id ev, iv_deletion_sequence = sequence ev,
             iv_source_evidence_id = source, iv_dependent_kind = fst n, iv_dependent_id = snd n,
             iv_created_at = isoformat (recorded_at ev), iv_processed_at = None\<rparr>])"

definition index_dependencies :: "event \<Rightarrow> db \<Rightarrow> db result" where
  "index_dependencies ev db =
     (if event_type ev = ''EvidenceDeleted'' then
        let source = text_or_empty (payload ev) ''evidence_id'' in
        if source = [] then Inr db
        else Inr (db\<lparr>db_invalidations := fold (add_invalidation ev source)
               (sort (impacted (all_edges (twin_id ev) (db_dependencies db)) (''evidence'', source)))
               (db_invalidations db)\<rparr>)
      else bindE (edges_of ev) (\<lambda>es.
        Inr (db\<lparr>db_dependencies := fold (add_edge ev) es (db_dependencies db)\<rparr>)))"

section \<open>The invalidation queue\<close>

text \<open>\<open>SELECT ... WHERE processed_at IS NULL ORDER BY ... LIMIT\<close>\<close>

definition pending_rows :: "db \<Rightarrow> int \<Rightarrow> invalidation_row list" where
  "pending_rows db limit =
     take (nat limit) (sort_key (\<lambda>r. (iv_created_at r, iv_twin_id r, iv_deletion_sequence r,
         iv_dependent_kind r, iv_dependent_id r))
       (filter (\<lambda>r. iv_processed_at r = None) (db_invalidations db)))"

definition pending_invalidations :: "db \<Rightarrow> int \<Rightarrow> invalidation_record list result" where
  "pending_invalidations db limit =
     (if limit \<le> 0 then Inr []
      else mapE (\<lambda>r. bindE (parse_time (iv_created_at r)) (\<lambda>t.
        Inr \<lparr>ir_twin_id = iv_twin_id r, ir_deletion_sequence = iv_deletion_sequence r,
             ir_source_evidence_id = iv_source_evidence_id r, ir_dependent_kind = iv_dependent_kind r,
             ir_dependent_id = iv_dependent_id r, ir_created_at = t\<rparr>)) (pending_rows db limit))"

definition invalidation_matches :: "invalidation_record \<Rightarrow> invalidation_row \<Rightarrow> bool" where
  "invalidation_matches rec r \<longleftrightarrow>
     iv_twin_id r = ir_twin_id rec \<and> iv_deletion_sequence r = ir_deletion_sequence rec
     \<and> iv_dependent_kind r = ir_dependent_kind rec \<and> iv_dependent_id r = ir_dependent_id rec
     \<and> iv_processed_at r = None"

text \<open>An UPDATE and its row count.\<close>

definition update_where :: "('r \<Rightarrow> bool) \<Rightarrow> ('r \<Rightarrow> 'r) \<Rightarrow> 'r list \<Rightarrow> 'r list \<times> nat" where
  "update_where p f rows = (map (\<lambda>r. if p r then f r else r) rows, length (filter p rows))"

definition mark_invalidation_processed :: "int \<Rightarrow> invalidation_record \<Rightarrow> db \<Rightarrow> bool \<times> db" where
  "mark_invalidation_processed now rec db =
     (let (rows, n) = update_where (invalidation_matches rec)
            (\<lambda>r. r\<lparr>iv_processed_at := Some (isoformat (utc now))\<rparr>) (db_invalidations db)
      in (n = 1, db\<lparr>db_invalidations := rows\<rparr>))"

section \<open>Rebuilding the index\<close>

definition indexed_types :: "string list" where
  "indexed_types = [''EntityLinked'', ''ClaimProposed'', ''ClaimSuperseded'', ''ContradictionDetected'',
     ''CorrectionRecorded'', ''ProjectionIssued'', ''EvidenceDeleted'']"

text \<open>\<open>_migrate_dependency_index\<close>: a new table, filled from the events in stream order.\<close>

definition migrate_dependency_index :: "db \<Rightarrow> db result" where
  "migrate_dependency_index db =
     foldE (\<lambda>d row. bindE (row_to_event row) (\<lambda>ev. index_dependencies ev d))
       (db\<lparr>db_dependencies := []\<rparr>)
       (sort_key (\<lambda>r. (er_twin_id r, er_sequence r))
         (filter (\<lambda>r. er_event_type r \<in> set indexed_types) (db_events db)))"

section \<open>Laws of the index\<close>

text \<open>The nodes queued for a deletion.\<close>

definition queued :: "db \<Rightarrow> string \<Rightarrow> int \<Rightarrow> node set" where
  "queued db twin n =
     (\<lambda>r. (iv_dependent_kind r, iv_dependent_id r)) `
       set (filter (\<lambda>r. iv_twin_id r = twin \<and> iv_deletion_sequence r = n) (db_invalidations db))"

lemma add_invalidation_nodes:
  "(\<lambda>r. (iv_dependent_kind r, iv_dependent_id r)) `
     set (filter (\<lambda>r. iv_twin_id r = twin_id ev \<and> iv_deletion_sequence r = sequence ev) (add_invalidation ev src x rows))
   = insert x ((\<lambda>r. (iv_dependent_kind r, iv_dependent_id r)) `
     set (filter (\<lambda>r. iv_twin_id r = twin_id ev \<and> iv_deletion_sequence r = sequence ev) rows))"
  by (cases x) (force simp: add_invalidation_def list_ex_iff)

lemma fold_add_invalidation_nodes:
  "(\<lambda>r. (iv_dependent_kind r, iv_dependent_id r)) `
     set (filter (\<lambda>r. iv_twin_id r = twin_id ev \<and> iv_deletion_sequence r = sequence ev) (fold (add_invalidation ev src) xs rows))
   = set xs \<union> (\<lambda>r. (iv_dependent_kind r, iv_dependent_id r)) `
     set (filter (\<lambda>r. iv_twin_id r = twin_id ev \<and> iv_deletion_sequence r = sequence ev) rows)"
proof (induction xs arbitrary: rows)
  case (Cons x xs)
  show ?case unfolding fold.simps comp_def Cons.IH add_invalidation_nodes by auto
qed simp

text \<open>A deletion queues exactly the nodes that depend on the deleted evidence, at any distance.\<close>

lemma deletion_queues:
  assumes "index_dependencies ev db = Inr db'" "event_type ev = ''EvidenceDeleted''"
    and "e = text_or_empty (payload ev) ''evidence_id''" "e \<noteq> []"
    and "queued db (twin_id ev) (sequence ev) = {}"
  shows "queued db' (twin_id ev) (sequence ev)
    = {y. ((''evidence'', e), y) \<in> (set (all_edges (twin_id ev) (db_dependencies db)))\<^sup>+}"
proof -
  have "db' = db\<lparr>db_invalidations := fold (add_invalidation ev e)
      (sort (impacted (all_edges (twin_id ev) (db_dependencies db)) (''evidence'', e))) (db_invalidations db)\<rparr>"
    using assms(1-4) by (simp add: index_dependencies_def Let_def)
  then have inv: "db_invalidations db' = fold (add_invalidation ev e)
      (sort (impacted (all_edges (twin_id ev) (db_dependencies db)) (''evidence'', e))) (db_invalidations db)"
    by simp
  have "queued db' (twin_id ev) (sequence ev)
    = {y. ((''evidence'', e), y) \<in> (set (all_edges (twin_id ev) (db_dependencies db)))\<^sup>+} \<union> queued db (twin_id ev) (sequence ev)"
    unfolding queued_def inv fold_add_invalidation_nodes set_sort set_impacted ..
  then show ?thesis using assms(5) by simp
qed

lemma set_fold_add_edge:
  "r \<in> set (fold (add_edge ev) es deps) \<Longrightarrow> r \<in> set deps \<or> (dp_twin_id r = twin_id ev \<and> dp_created_sequence r = sequence ev)"
proof (induction es arbitrary: deps)
  case (Cons e es)
  from Cons.IH[of "add_edge ev e deps"] Cons.prems
  show ?case by (auto simp: add_edge_def Let_def split: prod.splits if_splits)
qed simp

lemma fold_add_edge_subset: "set deps \<subseteq> set (fold (add_edge ev) es deps)"
proof (induction es arbitrary: deps)
  case (Cons e es)
  have "set deps \<subseteq> set (add_edge ev e deps)" by (cases e) (auto simp: add_edge_def Let_def)
  then show ?case using Cons[of "add_edge ev e deps"] by auto
qed simp

text \<open>
  An edge is in the index once its event is: with the endpoints the event names, unless one is empty.
\<close>

definition row_edge :: "dependency_row \<Rightarrow> node \<times> node" where
  "row_edge r = (row_source r, row_dependent r)"

definition edge_nodes :: "edge \<Rightarrow> node \<times> node" where
  "edge_nodes e = (case e of (sk, sid, dk, did, rel) \<Rightarrow> ((sk, sid), (dk, did)))"

definition edge_named :: "edge \<Rightarrow> bool" where
  "edge_named e \<longleftrightarrow> (case e of (sk, sid, dk, did, rel) \<Rightarrow> sid \<noteq> [] \<and> did \<noteq> [])"

lemma add_edge_edges:
  "set (all_edges (twin_id ev) (add_edge ev e deps)) =
     set (all_edges (twin_id ev) deps) \<union> (if edge_named e then {edge_nodes e} else {})"
  by (cases e) (force simp: all_edges_def add_edge_def edge_named_def edge_nodes_def same_edge_def
      row_source_def row_dependent_def Let_def list_ex_iff)

lemma fold_add_edge_edges:
  "set (all_edges (twin_id ev) (fold (add_edge ev) es deps)) =
     set (all_edges (twin_id ev) deps) \<union> edge_nodes ` set (filter edge_named es)"
proof (induction es arbitrary: deps)
  case (Cons e es)
  show ?case unfolding fold.simps comp_def Cons.IH add_edge_edges by auto
qed simp

lemma index_dependencies_edges:
  assumes "index_dependencies ev db = Inr db'" "event_type ev \<noteq> ''EvidenceDeleted''"
  shows "\<exists>es. edges_of ev = Inr es \<and> set (all_edges (twin_id ev) (db_dependencies db')) =
     set (all_edges (twin_id ev) (db_dependencies db)) \<union> edge_nodes ` set (filter edge_named es)"
  using assms by (auto simp: index_dependencies_def bindE_Inr_iff fold_add_edge_edges)

lemma index_dependencies_frame:
  assumes "index_dependencies ev db = Inr db'"
  shows "db_events db' = db_events db" "db_snapshots db' = db_snapshots db" "db_outbox db' = db_outbox db"
  using assms by (auto simp: index_dependencies_def bindE_Inr_iff Let_def split: if_splits)

lemma index_dependencies_other_twin:
  assumes "index_dependencies ev db = Inr db'" "twin \<noteq> twin_id ev"
  shows "all_edges twin (db_dependencies db') = all_edges twin (db_dependencies db)"
proof -
  have "filter (\<lambda>r. dp_twin_id r = twin) (fold (add_edge ev) es deps) = filter (\<lambda>r. dp_twin_id r = twin) deps" for es deps
    using assms(2) by (induction es arbitrary: deps) (auto simp: add_edge_def Let_def split: prod.splits)
  then show ?thesis
    using assms(1) by (auto simp: index_dependencies_def bindE_Inr_iff Let_def all_edges_def split: if_splits)
qed

section \<open>The queue is worked off once\<close>

lemma mark_processed_once:
  assumes "mark_invalidation_processed now rec db = (True, db')"
  shows "fst (mark_invalidation_processed later rec db') = False"
  using assms
  by (auto simp: mark_invalidation_processed_def update_where_def Let_def filter_empty_conv invalidation_matches_def)

end
