(* ===== verification/K2_Store_Laws.thy ===== *)
theory K2_Store_Laws
  imports K2_Store
begin

text \<open>
  Laws of the event ledger: the invariant, what an append does and refuses, reading back, the
  contract \<open>event_ledger\<close> and its interpretation on the SQLite model.
\<close>

section \<open>The ledger invariant\<close>

text \<open>A stream of facts that is numbered from \<open>n\<close> and chained from \<open>prev\<close>, with JSON payloads.\<close>

fun chain_ok :: "(string \<Rightarrow> string) \<Rightarrow> string \<Rightarrow> int \<Rightarrow> event list \<Rightarrow> bool" where
  "chain_ok H prev n [] = True"
| "chain_ok H prev n (ev # evs) =
     (sequence ev = n \<and> verify H ev prev = Inr () \<and> plane ev \<noteq> SIMULATION \<and> plain (payload ev)
      \<and> chain_ok H (event_hash ev) (n + 1) evs)"

definition last_hash :: "string \<Rightarrow> event list \<Rightarrow> string" where
  "last_hash prev evs = (if evs = [] then prev else event_hash (last evs))"

lemma chain_ok_append:
  "chain_ok H prev n (xs @ ys) \<longleftrightarrow>
     chain_ok H prev n xs \<and> chain_ok H (last_hash prev xs) (n + int (length xs)) ys"
  by (induction xs arbitrary: prev n) (auto simp: last_hash_def add.assoc add.commute)

lemma chain_ok_nth: "chain_ok H prev n evs \<Longrightarrow> i < length evs \<Longrightarrow> sequence (evs ! i) = n + int i"
  by (induction evs arbitrary: prev n i) (auto simp: nth_Cons split: nat.splits)

lemma chain_ok_prev:
  "chain_ok H prev n evs \<Longrightarrow> Suc i < length evs \<Longrightarrow> previous_hash (evs ! Suc i) = event_hash (evs ! i)"
proof (induction evs arbitrary: prev n i)
  case (Cons ev evs)
  then show ?case by (cases i; cases evs) (auto simp: verify_Inr)
qed simp

lemma chain_ok_sequences: "chain_ok H prev n evs \<Longrightarrow> map sequence evs = map (\<lambda>i. n + int i) [0..<length evs]"
  by (rule nth_equalityI) (auto simp: chain_ok_nth)

lemma verify_events_chain:
  "chain_ok H prev n evs \<Longrightarrow> verify_events H evs prev n = Inr ()"
  by (induction evs arbitrary: prev n) auto

lemma verify_events_sound:
  "verify_events H evs prev n = Inr () \<Longrightarrow> (\<And>e. e \<in> set evs \<Longrightarrow> plane e \<noteq> SIMULATION \<and> plain (payload e)) \<Longrightarrow> chain_ok H prev n evs"
  by (induction evs arbitrary: prev n) (auto simp: bindE_Inr_iff split: if_splits)

text \<open>The events of a stream, as they are read back.\<close>

definition read_rows :: "event_row list \<Rightarrow> event list" where
  "read_rows rows = (case mapE row_to_event rows of Inr evs \<Rightarrow> evs | Inl _ \<Rightarrow> [])"

definition stream :: "db \<Rightarrow> string \<Rightarrow> event list" where
  "stream db twin = read_rows (stream_rows db twin)"

definition readable :: "event_row list \<Rightarrow> bool" where
  "readable rows \<longleftrightarrow> list_all (\<lambda>r. ok (row_to_event r)) rows"

definition twins :: "db \<Rightarrow> string set" where
  "twins db = er_twin_id ` set (db_events db)"

definition keys_unique :: "db \<Rightarrow> bool" where
  "keys_unique db \<longleftrightarrow>
     distinct (map er_event_id (db_events db))
     \<and> distinct (map (\<lambda>r. (er_twin_id r, er_idempotency_key r)) (db_events db))"

definition outbox_linked :: "db \<Rightarrow> bool" where
  "outbox_linked db \<longleftrightarrow>
     distinct (map (\<lambda>r. (ob_twin_id r, ob_sequence r, ob_topic r)) (db_outbox db))
     \<and> (\<forall>r\<in>set (db_outbox db). \<exists>e\<in>set (db_events db). er_twin_id e = ob_twin_id r \<and> er_sequence e = ob_sequence r)"

definition db_inv :: "(string \<Rightarrow> string) \<Rightarrow> db \<Rightarrow> bool" where
  "db_inv H db \<longleftrightarrow>
     readable (db_events db)
     \<and> (\<forall>twin\<in>twins db. chain_ok H [] 1 (stream db twin))
     \<and> keys_unique db \<and> outbox_linked db"

lemma db_inv_empty: "db_inv H empty_db"
  by (simp add: db_inv_def empty_db_def readable_def twins_def keys_unique_def outbox_linked_def)

lemma row_to_event_fields:
  "row_to_event r = Inr ev \<Longrightarrow> sequence ev = er_sequence r \<and> event_hash ev = er_event_hash r
     \<and> twin_id ev = er_twin_id r \<and> idempotency_key ev = er_idempotency_key r \<and> event_id ev = er_event_id r
     \<and> previous_hash ev = er_previous_hash r \<and> event_type ev = er_event_type r \<and> plane_text (plane ev) = er_plane r"
proof -
  assume "row_to_event r = Inr ev"
  then obtain pl where "plane_of (er_plane r) = Inr pl" "plane ev = pl"
    "sequence ev = er_sequence r \<and> event_hash ev = er_event_hash r
     \<and> twin_id ev = er_twin_id r \<and> idempotency_key ev = er_idempotency_key r \<and> event_id ev = er_event_id r
     \<and> previous_hash ev = er_previous_hash r \<and> event_type ev = er_event_type r"
    unfolding row_to_event_def bindE_Inr_iff sum.inject by (elim exE conjE) (rule that; force)
  moreover from this(1) have "plane_text pl = er_plane r"
    by (auto simp: plane_of_def enum_of_def find_Some_iff split: option.splits)
  ultimately show ?thesis by simp
qed

lemma mapE_readable: "readable rows \<Longrightarrow> mapE row_to_event rows = Inr (read_rows rows)"
proof -
  assume "readable rows"
  then have "\<exists>evs. mapE row_to_event rows = Inr evs"
    by (induction rows) (auto simp: readable_def ok_iff)
  then show ?thesis by (auto simp: read_rows_def)
qed

lemma read_rows_Nil [simp]: "read_rows [] = []"
  by (simp add: read_rows_def)

lemma read_rows_Cons [simp]:
  assumes "readable (r # rows)"
  shows "read_rows (r # rows) = projr (row_to_event r) # read_rows rows"
proof -
  obtain ev where "row_to_event r = Inr ev" "readable rows"
    using assms by (auto simp: readable_def ok_iff)
  then have "mapE row_to_event (r # rows) = Inr (ev # read_rows rows)" by (simp add: mapE_readable)
  then show ?thesis using \<open>row_to_event r = Inr ev\<close> unfolding read_rows_def[of "r # rows"] by simp
qed

lemma readable_append [simp]: "readable (xs @ ys) \<longleftrightarrow> readable xs \<and> readable ys"
  by (simp add: readable_def)

lemma read_rows_append: "readable xs \<Longrightarrow> readable ys \<Longrightarrow> read_rows (xs @ ys) = read_rows xs @ read_rows ys"
  by (induction xs) (auto simp: readable_def)

lemma length_read_rows: "readable rows \<Longrightarrow> length (read_rows rows) = length rows"
  by (induction rows) (auto simp: readable_def)

lemma readable_filter: "readable rows \<Longrightarrow> readable (filter p rows)"
  by (auto simp: readable_def list_all_iff)

lemma readable_stream: "db_inv H db \<Longrightarrow> readable (stream_rows db twin)"
  by (simp add: db_inv_def stream_rows_def readable_filter)

lemma map_sequence_read: "readable rows \<Longrightarrow> map sequence (read_rows rows) = map er_sequence rows"
  by (induction rows) (auto simp: readable_def ok_iff dest: row_to_event_fields)

lemma stream_no_rows: "twin \<notin> twins db \<Longrightarrow> stream_rows db twin = []"
  by (auto simp: twins_def stream_rows_def filter_empty_conv)

lemma stream_chain: "db_inv H db \<Longrightarrow> chain_ok H [] 1 (stream db twin)"
  by (cases "twin \<in> twins db") (auto simp: db_inv_def stream_def stream_no_rows)

lemma rows_sequences:
  assumes "db_inv H db"
  shows "map er_sequence (stream_rows db twin) = map (\<lambda>i. 1 + int i) [0..<length (stream_rows db twin)]"
  using chain_ok_sequences[OF stream_chain[OF assms, of twin]] readable_stream[OF assms, of twin]
  by (simp add: stream_def map_sequence_read length_read_rows)

lemma rows_sorted: "db_inv H db \<Longrightarrow> sorted (map er_sequence (stream_rows db twin))"
  unfolding rows_sequences by (simp add: sorted_map sorted_wrt_map)

lemma sort_rows: "db_inv H db \<Longrightarrow> sort_key er_sequence (stream_rows db twin) = stream_rows db twin"
  by (intro sort_key_id_if_sorted rows_sorted)

text \<open>The head is the number and the hash of the last event.\<close>

lemma last_read_rows: "readable rows \<Longrightarrow> rows \<noteq> [] \<Longrightarrow> event_hash (last (read_rows rows)) = er_event_hash (last rows)"
proof (induction rows)
  case (Cons r rows)
  then obtain ev where "row_to_event r = Inr ev" by (auto simp: readable_def ok_iff)
  then show ?case
    using Cons length_read_rows[of rows] row_to_event_fields[of r ev] by (auto simp: readable_def)
qed simp

lemma head_stream:
  assumes "db_inv H db"
  shows "head db twin = (int (length (stream db twin)), last_hash [] (stream db twin))"
proof (cases "stream_rows db twin = []")
  case True
  then show ?thesis by (simp add: head_def head_row_def stream_def last_hash_def)
next
  case False
  let ?rows = "stream_rows db twin"
  have r: "readable ?rows" using assms by (rule readable_stream)
  have "rev ?rows = last ?rows # rev (butlast ?rows)"
    using False by (cases ?rows rule: rev_cases) auto
  then have h: "head_row db twin = Some (last ?rows)"
    unfolding head_row_def sort_rows[OF assms] by (rule ssubst) simp
  have "er_sequence (last ?rows) = map er_sequence ?rows ! (length ?rows - 1)"
    using False by (simp add: last_conv_nth)
  also have "\<dots> = int (length ?rows)"
    unfolding rows_sequences[OF assms] using False by (simp add: of_nat_diff Suc_leI)
  finally show ?thesis
    using False h last_read_rows[OF r False] length_read_rows[OF r]
    by (auto simp: head_def stream_def last_hash_def)
qed

section \<open>What an append does\<close>

definition new_outbox :: "event \<Rightarrow> outbox_row" where
  "new_outbox ev =
     \<lparr>ob_twin_id = twin_id ev, ob_sequence = sequence ev, ob_topic = event_topic,
      ob_message_key = twin_id ev, ob_created_at = isoformat (recorded_at ev),
      ob_published_at = None, ob_attempts = 0, ob_last_error = None,
      ob_lease_owner = None, ob_lease_until = None\<rparr>"

lemma append_Inr:
  assumes "append H now ev n db = Inr (out, db')"
  obtains (retry) r where "duplicate_row db ev = Some r" "row_to_event r = Inr out"
      "same_request out ev = Inr True" "db' = db"
  | (fresh) prev row db1 db2 where "duplicate_row db ev = None" "head db (twin_id ev) = (n, prev)"
      "seal H ev (n + 1) prev (utc now) = Inr out" "event_to_row out = Inr row"
      "insert_event row db = Inr db1" "index_dependencies out db1 = Inr db2" "insert_outbox out db2 = Inr db'"
      "plane ev \<noteq> SIMULATION" "schema_version ev = ''argo.dt.event/v2''"
proof (cases "duplicate_row db ev")
  case (Some r)
  then show thesis
    using assms by (intro retry[of r]) (auto simp: append_def bindE_Inr_iff split: if_splits)
next
  case None
  obtain a prev where "head db (twin_id ev) = (a, prev)" by (cases "head db (twin_id ev)")
  moreover from this assms None have "a = n" "plane ev \<noteq> SIMULATION" "schema_version ev = ''argo.dt.event/v2''"
    "bindE (seal H ev (n + 1) prev (utc now)) (\<lambda>sealed. bindE (event_to_row sealed) (\<lambda>row.
       bindE (insert_event row db) (\<lambda>db1. bindE (index_dependencies sealed db1) (\<lambda>db2.
       bindE (insert_outbox sealed db2) (\<lambda>db3. Inr (sealed, db3)))))) = Inr (out, db')"
    by (simp_all add: append_def split: if_splits)
  ultimately show thesis
    using None unfolding bindE_Inr_iff sum.inject prod.inject
    by (elim exE conjE) (rule fresh; simp)
qed

lemma append_retry_unchanged:
  assumes "append H now ev n db = Inr (out, db')" "duplicate_row db ev \<noteq> None"
  shows "db' = db"
  using assms(1) by (rule append_Inr) (use assms(2) in auto)

lemma insert_event_Inr:
  "insert_event row db = Inr db' \<longleftrightarrow>
     (\<forall>r\<in>set (db_events db). er_event_id r \<noteq> er_event_id row
        \<and> \<not> (er_twin_id r = er_twin_id row \<and> er_sequence r = er_sequence row)
        \<and> \<not> (er_twin_id r = er_twin_id row \<and> er_idempotency_key r = er_idempotency_key row))
     \<and> db' = db\<lparr>db_events := db_events db @ [row]\<rparr>"
  by (auto simp: insert_event_def list_ex_iff)

lemma insert_outbox_Inr:
  "insert_outbox ev db = Inr db' \<longleftrightarrow>
     (\<forall>r\<in>set (db_outbox db). \<not> (ob_twin_id r = twin_id ev \<and> ob_sequence r = sequence ev \<and> ob_topic r = event_topic))
     \<and> db' = db\<lparr>db_outbox := db_outbox db @ [new_outbox ev]\<rparr>"
  by (auto simp: insert_outbox_def new_outbox_def list_ex_iff)

text \<open>An event the ledger can keep, written at a clock reading.\<close>

definition admissible :: "int \<Rightarrow> event \<Rightarrow> bool" where
  "admissible now ev \<longleftrightarrow> storable (ev\<lparr>recorded_at := utc now\<rparr>)"

lemma seal_storable: "seal H ev n prev (utc now) = Inr out \<Longrightarrow> admissible now ev \<Longrightarrow> storable out"
  using seal_fields[of H ev n prev "utc now" out] by (simp add: admissible_def storable_def)

lemma append_fresh_tables [consumes 2]:
  assumes "append H now ev n db = Inr (out, db')" "duplicate_row db ev = None"
  obtains row prev where "seal H ev (n + 1) prev (utc now) = Inr out" "head db (twin_id ev) = (n, prev)"
    "event_to_row out = Inr row" "db_events db' = db_events db @ [row]"
    "db_outbox db' = db_outbox db @ [new_outbox out]" "db_snapshots db' = db_snapshots db"
    "\<forall>r\<in>set (db_events db). er_event_id r \<noteq> er_event_id row
        \<and> \<not> (er_twin_id r = er_twin_id row \<and> er_idempotency_key r = er_idempotency_key row)"
    "\<forall>r\<in>set (db_outbox db). \<not> (ob_twin_id r = twin_id ev \<and> ob_sequence r = n + 1 \<and> ob_topic r = event_topic)"
    "plane ev \<noteq> SIMULATION"
  using assms(1)
proof (rule append_Inr)
  fix prev row db1 db2
  assume *: "head db (twin_id ev) = (n, prev)" "seal H ev (n + 1) prev (utc now) = Inr out"
    "event_to_row out = Inr row" "insert_event row db = Inr db1" "index_dependencies out db1 = Inr db2"
    "insert_outbox out db2 = Inr db'" "plane ev \<noteq> SIMULATION"
  have ev: "db_events db1 = db_events db @ [row]" "db_outbox db1 = db_outbox db" "db_snapshots db1 = db_snapshots db"
    using *(4) by (auto simp: insert_event_Inr)
  have "db_events db' = db_events db @ [row]" "db_outbox db' = db_outbox db @ [new_outbox out]"
    "db_snapshots db' = db_snapshots db"
    using *(6) index_dependencies_frame[OF *(5)] ev by (auto simp: insert_outbox_Inr)
  moreover have "\<forall>r\<in>set (db_outbox db). \<not> (ob_twin_id r = twin_id ev \<and> ob_sequence r = n + 1 \<and> ob_topic r = event_topic)"
    using *(6) index_dependencies_frame[OF *(5)] ev seal_fields[OF *(2)] by (auto simp: insert_outbox_Inr)
  moreover have "\<forall>r\<in>set (db_events db). er_event_id r \<noteq> er_event_id row
        \<and> \<not> (er_twin_id r = er_twin_id row \<and> er_idempotency_key r = er_idempotency_key row)"
    using *(4) by (auto simp: insert_event_Inr)
  ultimately show thesis using * by (intro that)
qed (use assms(2) in auto)

text \<open>A new event extends its stream by one and leaves the others alone.\<close>

lemma append_stream:
  assumes "append H now ev n db = Inr (out, db')" "db_inv H db" "admissible now ev"
  shows "stream db' twin =
    (if twin = twin_id ev \<and> duplicate_row db ev = None then stream db twin @ [persisted out] else stream db twin)"
proof (cases "duplicate_row db ev")
  case None
  obtain row prev where r:
    "seal H ev (n + 1) prev (utc now) = Inr out" "head db (twin_id ev) = (n, prev)"
    "event_to_row out = Inr row" "db_events db' = db_events db @ [row]"
    "db_outbox db' = db_outbox db @ [new_outbox out]" "db_snapshots db' = db_snapshots db"
    "\<forall>r\<in>set (db_events db). er_event_id r \<noteq> er_event_id row
        \<and> \<not> (er_twin_id r = er_twin_id row \<and> er_idempotency_key r = er_idempotency_key row)"
    "\<forall>r\<in>set (db_outbox db). \<not> (ob_twin_id r = twin_id ev \<and> ob_sequence r = n + 1 \<and> ob_topic r = event_topic)"
    "plane ev \<noteq> SIMULATION"
    by (rule append_fresh_tables[OF assms(1) None])
  have st: "storable out" using seal_storable[OF r(1) assms(3)] .
  obtain row' where "event_to_row out = Inr row'" "row_to_event row' = Inr (persisted out)" "er_twin_id row' = twin_id out"
    using event_to_row_storable[OF st] by blast
  then have row: "row_to_event row = Inr (persisted out)" "er_twin_id row = twin_id ev"
    using r(3) seal_fields[OF r(1)] by auto
  have "stream_rows db' twin = stream_rows db twin @ (if twin = twin_id ev then [row] else [])"
    using r(4) row(2) by (auto simp: stream_rows_def)
  then show ?thesis
    using None row readable_stream[OF assms(2), of twin]
    by (simp add: stream_def read_rows_append readable_def)
next
  case (Some r)
  then show ?thesis using append_retry_unchanged[OF assms(1)] by simp
qed

text \<open>Every append keeps the ledger invariant.\<close>

lemma append_inv:
  assumes "append H now ev n db = Inr (out, db')" "db_inv H db" "admissible now ev"
  shows "db_inv H db'"
proof (cases "duplicate_row db ev")
  case (Some r)
  then show ?thesis using append_retry_unchanged[OF assms(1)] assms(2) by simp
next
  case None
  obtain row prev where r:
    "seal H ev (n + 1) prev (utc now) = Inr out" "head db (twin_id ev) = (n, prev)"
    "event_to_row out = Inr row" "db_events db' = db_events db @ [row]"
    "db_outbox db' = db_outbox db @ [new_outbox out]" "db_snapshots db' = db_snapshots db"
    "\<forall>r\<in>set (db_events db). er_event_id r \<noteq> er_event_id row
        \<and> \<not> (er_twin_id r = er_twin_id row \<and> er_idempotency_key r = er_idempotency_key row)"
    "\<forall>r\<in>set (db_outbox db). \<not> (ob_twin_id r = twin_id ev \<and> ob_sequence r = n + 1 \<and> ob_topic r = event_topic)"
    "plane ev \<noteq> SIMULATION"
    by (rule append_fresh_tables[OF assms(1) None])
  note f = seal_fields[OF r(1)]
  have st: "storable out" using seal_storable[OF r(1) assms(3)] .
  obtain row' where "event_to_row out = Inr row'" "row_to_event row' = Inr (persisted out)"
    "er_twin_id row' = twin_id out" "er_sequence row' = sequence out"
    using event_to_row_storable[OF st] by blast
  then have row: "row_to_event row = Inr (persisted out)" "er_twin_id row = twin_id ev" "er_sequence row = n + 1"
    using r(3) f by auto
  have chain: "chain_ok H [] 1 (stream db' twin)" for twin
  proof (cases "twin = twin_id ev")
    case True
    have v: "verify H (persisted out) prev = Inr ()"
      using verify_persisted[OF st] seal_Inr(1)[OF r(1)] by simp
    have "n = int (length (stream db twin))" "prev = last_hash [] (stream db twin)"
      using r(2) head_stream[OF assms(2), of twin] True by auto
    then show ?thesis
      using append_stream[OF assms, of twin] True None stream_chain[OF assms(2), of twin] v f r(9) plain_persisted[OF st]
      by (simp add: chain_ok_append)
  next
    case False
    then show ?thesis using append_stream[OF assms, of twin] stream_chain[OF assms(2), of twin] by simp
  qed
  have "readable (db_events db')"
    using r(4) row(1) assms(2) by (simp add: db_inv_def readable_def)
  moreover have "keys_unique db'"
    using r(4,7) assms(2) by (auto simp: db_inv_def keys_unique_def)
  moreover have "outbox_linked db'"
    using r(4,5,8) row f assms(2) by (auto simp: db_inv_def outbox_linked_def new_outbox_def)
  ultimately show ?thesis using chain by (simp add: db_inv_def)
qed

section \<open>What an append refuses\<close>

lemma append_stale:
  assumes "schema_version ev = ''argo.dt.event/v2''" "plane ev \<noteq> SIMULATION"
    and "duplicate_row db ev = None" "fst (head db (twin_id ev)) \<noteq> n"
  shows "\<exists>m. append H now ev n db = Inl (ConcurrencyConflict m)"
  using assms by (cases "head db (twin_id ev)") (simp add: append_def)

lemma append_simulation: "plane ev = SIMULATION \<Longrightarrow> \<exists>m. append H now ev n db = Inl (InvariantViolation m)"
  by (simp add: append_def violation_def)

text \<open>A reused key with another request is an error, whatever the expected sequence.\<close>

lemma append_key_reused:
  assumes "schema_version ev = ''argo.dt.event/v2''" "plane ev \<noteq> SIMULATION"
    and "duplicate_row db ev = Some r" "row_to_event r = Inr old" "same_request old ev = Inr False"
  shows "append H now ev n db = violation ''idempotency key was reused for a different request''"
  using assms by (simp add: append_def)

section \<open>Retries\<close>

lemma same_request_persisted:
  assumes "storable out"
    and "event_type retry = event_type out" "plane retry = plane out" "payload retry = payload out"
    and "producer retry = producer out" "producer_role retry = producer_role out"
    and "schema_version retry = schema_version out" "occurred_at retry = occurred_at out"
    and "causation_id retry = causation_id out" "correlation_id retry = correlation_id out"
  shows "same_request (persisted out) retry = Inr True"
proof -
  let ?p = "to_primitive (PDict (payload out))"
  have j: "jsonable ?p" and fin: "finite_floats (PDict (payload out))"
    using assms(1) unfolding storable_def by blast+
  have "canonical_json (PDict (payload (persisted out))) = canonical_json ?p"
    unfolding persisted_def by simp
  also have "\<dots> = Inr (dumps ?p)" using j by (rule canonical_json_jsonable)
  finally have a: "canonical_json (PDict (payload (persisted out))) = Inr (dumps ?p)" .
  have b: "canonical_json (PDict (payload retry)) = Inr (dumps ?p)"
    unfolding assms(4) canonical_json_def using fin by (simp only: if_True)
  have t: "dt_eq (occurred_at (persisted out)) (occurred_at retry)"
    using assms(1,8) by (simp add: dt_eq_def persisted_def storable_def storable_time_def)
  show ?thesis
    unfolding same_request_def a b bindE_simps using assms t by simp
qed

lemma find_append_new: "find P xs = None \<Longrightarrow> P x \<Longrightarrow> find P (xs @ [x]) = Some x"
  by (induction xs) (auto split: if_splits)

text \<open>Sent again, a request is answered with the stored event, and nothing is written.\<close>

lemma append_idempotent:
  assumes "append H now ev n db = Inr (out, db')" "duplicate_row db ev = None" "admissible now ev"
    and "retry = ev\<lparr>event_id := x, recorded_at := y, sequence := z\<rparr>"
  shows "append H later retry m db' = Inr (persisted out, db')"
proof -
  obtain row prev where r:
    "seal H ev (n + 1) prev (utc now) = Inr out" "head db (twin_id ev) = (n, prev)"
    "event_to_row out = Inr row" "db_events db' = db_events db @ [row]"
    "db_outbox db' = db_outbox db @ [new_outbox out]" "db_snapshots db' = db_snapshots db"
    "\<forall>r\<in>set (db_events db). er_event_id r \<noteq> er_event_id row
        \<and> \<not> (er_twin_id r = er_twin_id row \<and> er_idempotency_key r = er_idempotency_key row)"
    "\<forall>r\<in>set (db_outbox db). \<not> (ob_twin_id r = twin_id ev \<and> ob_sequence r = n + 1 \<and> ob_topic r = event_topic)"
    "plane ev \<noteq> SIMULATION"
    by (rule append_fresh_tables[OF assms(1,2)])
  note f = seal_fields[OF r(1)]
  have st: "storable out" using seal_storable[OF r(1) assms(3)] .
  obtain row' where "event_to_row out = Inr row'" "row_to_event row' = Inr (persisted out)"
    "er_twin_id row' = twin_id out" "er_idempotency_key row' = idempotency_key out"
    using event_to_row_storable[OF st] by blast
  then have row: "row_to_event row = Inr (persisted out)" "er_twin_id row = twin_id ev"
    "er_idempotency_key row = idempotency_key ev"
    using r(3) f by auto
  have "duplicate_row db' retry = Some row"
    using assms(2,4) row unfolding duplicate_row_def r(4) by (intro find_append_new) auto
  moreover have "same_request (persisted out) retry = Inr True"
    using f assms(4) by (intro same_request_persisted[OF st]) auto
  moreover have "schema_version ev = ''argo.dt.event/v2''"
    using assms(1) by (auto simp: append_def violation_def split: if_splits)
  ultimately show ?thesis using row r(9) assms(4) by (simp add: append_def)
qed

section \<open>An append at the head succeeds\<close>

lemma edges_of_sealed: "seal H ev n prev t = Inr out \<Longrightarrow> edges_of out = edges_of ev"
  using seal_fields[of H ev n prev t out] by (simp add: edges_of_def)

lemma sequence_bound:
  assumes "db_inv H db" "r \<in> set (db_events db)"
  shows "er_sequence r \<le> fst (head db (er_twin_id r))"
proof -
  let ?rows = "stream_rows db (er_twin_id r)"
  have "r \<in> set ?rows" using assms(2) by (simp add: stream_rows_def)
  then have "er_sequence r \<in> set (map er_sequence ?rows)" by simp
  then have "er_sequence r \<le> int (length ?rows)"
    unfolding rows_sequences[OF assms(1)] by auto
  then show ?thesis
    using head_stream[OF assms(1)] length_read_rows[OF readable_stream[OF assms(1)]] by (simp add: stream_def)
qed

lemma append_succeeds:
  assumes "db_inv H db" "admissible now ev"
    and "schema_version ev = ''argo.dt.event/v2''" "plane ev \<noteq> SIMULATION"
    and "duplicate_row db ev = None" "event_id ev \<notin> er_event_id ` set (db_events db)"
    and "head db (twin_id ev) = (n, prev)" "edges_of ev = Inr es"
  shows "\<exists>out db'. append H now ev n db = Inr (out, db')"
proof -
  obtain out where out: "seal H ev (n + 1) prev (utc now) = Inr out"
    using seal_ok[of ev H "n + 1" prev "utc now"] assms(2) by (auto simp: admissible_def storable_def)
  note f = seal_fields[OF out]
  obtain row where row: "event_to_row out = Inr row" "er_twin_id row = twin_id out" "er_sequence row = sequence out"
    "er_event_id row = event_id out" "er_idempotency_key row = idempotency_key out"
    using event_to_row_storable[OF seal_storable[OF out assms(2)]] by blast
  have seq: "\<not> (er_twin_id r = twin_id ev \<and> er_sequence r = n + 1)" if "r \<in> set (db_events db)" for r
    using sequence_bound[OF assms(1) that] assms(7) by auto
  have key: "\<not> (er_twin_id r = twin_id ev \<and> er_idempotency_key r = idempotency_key ev)" if "r \<in> set (db_events db)" for r
    using assms(5) that by (auto simp: duplicate_row_def find_None_iff)
  have fresh_id: "er_event_id r \<noteq> event_id ev" if "r \<in> set (db_events db)" for r
    using assms(6) that by (metis image_eqI)
  define db1 where "db1 = db\<lparr>db_events := db_events db @ [row]\<rparr>"
  have ins: "insert_event row db = Inr db1"
    using row f seq key fresh_id by (auto simp: insert_event_Inr db1_def)
  have "edges_of out = Inr es" using assms(8) edges_of_sealed[OF out] by simp
  then have "\<exists>db2. index_dependencies out db1 = Inr db2" by (simp add: index_dependencies_def Let_def)
  then obtain db2 where db2: "index_dependencies out db1 = Inr db2" ..
  have "db_outbox db2 = db_outbox db" using index_dependencies_frame[OF db2] by (simp add: db1_def)
  moreover have "outbox_linked db" using assms(1) by (simp add: db_inv_def)
  ultimately have "insert_outbox out db2 = Inr (db2\<lparr>db_outbox := db_outbox db2 @ [new_outbox out]\<rparr>)"
    using seq f by (fastforce simp: insert_outbox_Inr outbox_linked_def)
  then show ?thesis
    using assms out row(1) ins db2 by (simp add: append_def)
qed

section \<open>Reading back\<close>

lemma read_rows_filter:
  assumes "readable rows" "\<And>r ev. r \<in> set rows \<Longrightarrow> row_to_event r = Inr ev \<Longrightarrow> q r \<longleftrightarrow> q' ev"
  shows "read_rows (filter q rows) = filter q' (read_rows rows)"
  using assms
proof (induction rows)
  case (Cons r rows)
  obtain ev where ev: "row_to_event r = Inr ev" using Cons.prems(1) by (auto simp: readable_def ok_iff)
  have rd: "readable rows" "readable (r # filter q rows)"
    using Cons.prems(1) readable_filter[of rows q] by (auto simp: readable_def)
  have "read_rows (filter q rows) = filter q' (read_rows rows)"
    using Cons.prems(2) by (intro Cons.IH rd(1)) auto
  moreover have "q r \<longleftrightarrow> q' ev" using Cons.prems(2)[of r ev] ev by simp
  ultimately show ?case
    using ev read_rows_Cons[OF rd(2)] read_rows_Cons[OF Cons.prems(1)] by (simp del: read_rows_Cons)
qed simp

lemma sorted_filter_rows: "sorted (map er_sequence rows) \<Longrightarrow> sorted (map er_sequence (filter q rows))"
  by (rule sorted_filter)

lemma stream_not_simulation: "db_inv H db \<Longrightarrow> e \<in> set (stream db twin) \<Longrightarrow> plane e \<noteq> SIMULATION"
proof -
  have "chain_ok H prev n evs \<Longrightarrow> e \<in> set evs \<Longrightarrow> plane e \<noteq> SIMULATION" for prev n evs
    by (induction evs arbitrary: prev n) auto
  then show "db_inv H db \<Longrightarrow> e \<in> set (stream db twin) \<Longrightarrow> plane e \<noteq> SIMULATION"
    using stream_chain by blast
qed

lemma in_read_rows: "readable rows \<Longrightarrow> r \<in> set rows \<Longrightarrow> row_to_event r = Inr ev \<Longrightarrow> ev \<in> set (read_rows rows)"
  by (induction rows) (auto simp: readable_def)

text \<open>\<open>load\<close> returns the events of the stream within the bounds, in order, all of them.\<close>

lemma load_stream:
  assumes "db_inv H db" "planes = [] \<or> {AUTHORITATIVE, PROJECTION} \<subseteq> set planes"
  shows "load db twin after up_to planes None =
    Inr (filter (\<lambda>e. after < sequence e \<and> (case up_to of None \<Rightarrow> True | Some u \<Rightarrow> sequence e \<le> u)) (stream db twin))"
proof -
  let ?q = "\<lambda>r. after < er_sequence r \<and> (case up_to of None \<Rightarrow> True | Some u \<Rightarrow> er_sequence r \<le> u)
      \<and> (planes = [] \<or> er_plane r \<in> plane_text ` set planes)"
  let ?q' = "\<lambda>e. after < sequence e \<and> (case up_to of None \<Rightarrow> True | Some u \<Rightarrow> sequence e \<le> u)"
  let ?rows = "stream_rows db twin"
  have r: "readable ?rows" using assms(1) by (rule readable_stream)
  have "?q r \<longleftrightarrow> ?q' ev" if "r \<in> set ?rows" "row_to_event r = Inr ev" for r ev
  proof -
    have "ev \<in> set (stream db twin)" using in_read_rows[OF r that] by (simp add: stream_def)
    then have "plane ev \<noteq> SIMULATION" using stream_not_simulation[OF assms(1)] by blast
    then have "planes = [] \<or> plane ev \<in> set planes" using assms(2) by (cases "plane ev") auto
    then have "planes = [] \<or> er_plane r \<in> plane_text ` set planes"
      using row_to_event_fields[OF that(2)] by (metis imageI)
    then show ?thesis using row_to_event_fields[OF that(2)] by (simp split: option.splits)
  qed
  then have q: "read_rows (filter ?q ?rows) = filter ?q' (stream db twin)"
    unfolding stream_def by (intro read_rows_filter[OF r])
  have "filter (\<lambda>r. er_twin_id r = twin \<and> ?q r) (db_events db) = filter ?q ?rows"
    by (simp add: stream_rows_def conj_commute)
  moreover have "sort_key er_sequence (filter ?q ?rows) = filter ?q ?rows"
    using rows_sorted[OF assms(1)] by (intro sort_key_id_if_sorted sorted_filter_rows)
  ultimately show ?thesis
    using mapE_readable[OF readable_filter[OF r, of ?q]] q by (simp add: load_def)
qed

lemma load_all: "db_inv H db \<Longrightarrow> load db twin 0 None [] None = Inr (stream db twin)"
proof -
  assume "db_inv H db"
  moreover have "0 < sequence e" if "e \<in> set (stream db twin)" for e
    using chain_ok_nth[OF stream_chain[OF \<open>db_inv H db\<close>]] that by (metis in_set_conv_nth of_nat_0_le_iff zero_less_one add_pos_nonneg)
  ultimately show ?thesis by (simp add: load_stream filter_id_conv)
qed

lemma verify_chain_ok: "db_inv H db \<Longrightarrow> verify_chain H db twin = Inr True"
  using stream_chain[of H db twin] by (simp add: verify_chain_def load_all verify_events_chain)

section \<open>The contract of the event-store port\<close>

text \<open>
  What the aggregate and the service rely on: every stream is a numbered hash chain, an append
  returns an event of the stream, and either leaves all streams as they are or extends its own by
  one event. An implementation has a state of its own and a precondition on what it is asked to keep.
\<close>

locale event_ledger =
  fixes digest :: "string \<Rightarrow> string"
    and ledger_inv :: "'s \<Rightarrow> bool"
    and events_of :: "'s \<Rightarrow> string \<Rightarrow> event list"
    and append_op :: "int \<Rightarrow> event \<Rightarrow> int \<Rightarrow> 's \<Rightarrow> (event \<times> 's) result"
    and keepable :: "int \<Rightarrow> event \<Rightarrow> bool"
  assumes ledger_chain: "ledger_inv s \<Longrightarrow> chain_ok digest [] 1 (events_of s twin)"
    and ledger_append_inv: "append_op now ev n s = Inr (out, s') \<Longrightarrow> ledger_inv s \<Longrightarrow> keepable now ev \<Longrightarrow> ledger_inv s'"
    and ledger_append_events: "append_op now ev n s = Inr (out, s') \<Longrightarrow> ledger_inv s \<Longrightarrow> keepable now ev \<Longrightarrow>
      (\<exists>e. events_of s' = (events_of s)(twin_id ev := events_of s (twin_id ev) @ [e])) \<or> s' = s"
begin

inductive run :: "'s \<Rightarrow> 's \<Rightarrow> bool" where
  run_refl: "run s s"
| run_step: "run s t \<Longrightarrow> append_op now ev n t = Inr (out, u) \<Longrightarrow> keepable now ev \<Longrightarrow> run s u"

lemma run_inv: "run s t \<Longrightarrow> ledger_inv s \<Longrightarrow> ledger_inv t"
  by (induction rule: run.induct) (auto intro: ledger_append_inv)

text \<open>History is append-only: a run leaves every earlier stream a prefix of the later one.\<close>

lemma run_prefix: "run s t \<Longrightarrow> ledger_inv s \<Longrightarrow> prefix (events_of s twin) (events_of t twin)"
proof (induction rule: run.induct)
  case (run_step s t now ev n out u)
  have "ledger_inv t" using run_step.hyps(1) run_step.prems by (rule run_inv)
  then have "prefix (events_of t twin) (events_of u twin)"
    using ledger_append_events[OF run_step.hyps(2) _ run_step.hyps(3)] by (cases "twin = twin_id ev") auto
  then show ?case using run_step by (auto intro: prefix_order.trans)
qed simp

lemma run_immutable:
  assumes "run s t" "ledger_inv s" "i < length (events_of s twin)"
  shows "events_of t twin ! i = events_of s twin ! i"
  using run_prefix[OF assms(1,2), of twin] assms(3) by (auto simp: prefix_def nth_append)

lemma numbered:
  assumes "ledger_inv s" "i < length (events_of s twin)"
  shows "sequence (events_of s twin ! i) = int i + 1"
  using chain_ok_nth[OF ledger_chain[OF assms(1)] assms(2)] by simp

lemma linked:
  assumes "ledger_inv s" "Suc i < length (events_of s twin)"
  shows "previous_hash (events_of s twin ! Suc i) = event_hash (events_of s twin ! i)"
  using chain_ok_prev[OF ledger_chain[OF assms(1)] assms(2)] .

end

interpretation sqlite: event_ledger H "db_inv H" stream "append H" admissible for H
proof unfold_locales
  show "chain_ok H [] 1 (stream s twin)" if "db_inv H s" for s twin
    using that by (rule stream_chain)
  fix now ev n s out s'
  assume *: "append H now ev n s = Inr (out, s')" "db_inv H s" "admissible now ev"
  show "db_inv H s'" using * by (rule append_inv)
  show "(\<exists>e. stream s' = (stream s)(twin_id ev := stream s (twin_id ev) @ [e])) \<or> s' = s"
  proof (cases "duplicate_row s ev = None")
    case True
    have "stream s' = (stream s)(twin_id ev := stream s (twin_id ev) @ [persisted out])"
      using append_stream[OF *] True by (auto simp: fun_eq_iff)
    then show ?thesis by blast
  next
    case False
    then show ?thesis using append_retry_unchanged[OF *(1)] by simp
  qed
qed

end
