(* ===== verification/K2_Rebuild.thy ===== *)
theory K2_Rebuild
  imports K2_Store_Laws
begin

text \<open>
  \<open>TwinAggregate.rebuild\<close> (\<open>src/src/argo_dt/aggregate.py\<close>) over the event ledger: the state of a
  twin from its latest snapshot and the events after it. Shown: starting from a snapshot gives the
  same state, or the same error, as replaying the whole stream, so a snapshot is only a saving.
\<close>

definition replay_planes :: "event_plane list" where
  "replay_planes = [AUTHORITATIVE, PROJECTION]"

text \<open>Where the replay starts: the state, the sequence it stands at, and the hash before the next event.\<close>

definition start_from :: "(string \<Rightarrow> string) \<Rightarrow> string \<Rightarrow> snapshot option \<Rightarrow> (twin_state \<times> int \<times> string) result" where
  "start_from H twin sn =
     (case sn of
        None \<Rightarrow> Inr (init_state twin, 0, [])
      | Some q \<Rightarrow>
          bindE (snapshot_verify H q) (\<lambda>_.
          bindE (from_dict (sn_state q)) (\<lambda>s.
            if st_twin_id s \<noteq> sn_twin_id q \<or> st_sequence s \<noteq> sn_sequence q
               \<or> st_last_event_hash s \<noteq> sn_last_event_hash q
            then violation ''snapshot state does not match its stream link''
            else Inr (s, sn_sequence q, sn_last_event_hash q))))"

definition rebuild ::
  "(string \<Rightarrow> string) \<Rightarrow> db \<Rightarrow> string \<Rightarrow> bool \<Rightarrow> int option \<Rightarrow> datetime option \<Rightarrow> twin_state result" where
  "rebuild H db twin use_snapshots up_to as_of =
     bindE (if use_snapshots \<and> as_of = None then load_snapshot H db twin up_to else Inr None) (\<lambda>sn.
     bindE (start_from H twin sn) (\<lambda>(s, after, prev).
     bindE (load db twin after up_to replay_planes None) (\<lambda>evs.
     replay H as_of evs s prev)))"

section \<open>Cutting a numbered stream\<close>

lemma chain_ok_bounds: "chain_ok H prev n evs \<Longrightarrow> e \<in> set evs \<Longrightarrow> n \<le> sequence e"
  by (metis chain_ok_nth in_set_conv_nth le_add_same_cancel1 of_nat_0_le_iff)

lemma filter_after: "chain_ok H prev (k + 1) evs \<Longrightarrow> filter (\<lambda>e. k + int m < sequence e) evs = drop m evs"
proof (induction evs arbitrary: prev k m)
  case (Cons e evs)
  show ?case
  proof (cases m)
    case 0
    have "k + 1 \<le> sequence x" if "x \<in> set (e # evs)" for x
      using chain_ok_bounds[OF Cons.prems that] .
    then have "filter (\<lambda>x. k < sequence x) (e # evs) = e # evs" by (intro filter_True) force
    then show ?thesis using 0 by simp
  next
    case (Suc j)
    have "filter (\<lambda>x. (k + 1) + int j < sequence x) evs = drop j evs"
      using Cons.prems by (intro Cons.IH[where prev = "event_hash e"]) simp
    then show ?thesis using Suc Cons.prems by (simp add: algebra_simps)
  qed
qed simp

lemma filter_up_to: "chain_ok H prev (k + 1) evs \<Longrightarrow> filter (\<lambda>e. sequence e \<le> k + int m) evs = take m evs"
proof (induction evs arbitrary: prev k m)
  case (Cons e evs)
  show ?case
  proof (cases m)
    case 0
    have "k + 1 \<le> sequence x" if "x \<in> set (e # evs)" for x
      using chain_ok_bounds[OF Cons.prems that] .
    then have "filter (\<lambda>x. sequence x \<le> k) (e # evs) = []" by (force simp: filter_empty_conv)
    then show ?thesis using 0 by simp
  next
    case (Suc j)
    have "filter (\<lambda>x. sequence x \<le> (k + 1) + int j) evs = take j evs"
      using Cons.prems by (intro Cons.IH[where prev = "event_hash e"]) simp
    then show ?thesis using Suc Cons.prems by (simp add: algebra_simps)
  qed
qed simp

definition cut :: "int option \<Rightarrow> event list \<Rightarrow> event list" where
  "cut up_to evs = (case up_to of None \<Rightarrow> evs | Some u \<Rightarrow> take (nat u) evs)"

lemma load_cut:
  assumes "db_inv H db" "0 \<le> after"
  shows "load db twin after up_to replay_planes None = Inr (drop (nat after) (cut up_to (stream db twin)))"
proof -
  have c: "chain_ok H [] (0 + 1) (stream db twin)" using stream_chain[OF assms(1)] by simp
  have drop: "chain_ok H [] 1 evs \<Longrightarrow> filter (\<lambda>e. after < sequence e) evs = drop (nat after) evs" for evs
    using filter_after[of H "[]" 0 evs "nat after"] assms(2) by simp
  have take: "filter (\<lambda>e. sequence e \<le> u) (stream db twin) = take (nat u) (stream db twin)" for u
  proof (cases "0 \<le> u")
    case True
    then show ?thesis using filter_up_to[OF c, of "nat u"] by simp
  next
    case False
    have "1 \<le> sequence e" if "e \<in> set (stream db twin)" for e
      using chain_ok_bounds[OF stream_chain[OF assms(1)] that] .
    then have "filter (\<lambda>e. sequence e \<le> u) (stream db twin) = []"
      using False by (force simp: filter_empty_conv)
    then show ?thesis using False by simp
  qed
  have split: "filter (\<lambda>e. after < sequence e \<and> sequence e \<le> u) evs = filter (\<lambda>e. after < sequence e) (filter (\<lambda>e. sequence e \<le> u) evs)" for u evs
    by (simp add: conj_commute)
  have pre: "chain_ok H [] 1 (take m (stream db twin))" for m
    using stream_chain[OF assms(1), of twin] chain_ok_append[of H "[]" 1 "take m (stream db twin)" "drop m (stream db twin)"]
    by simp
  show ?thesis
    using drop[OF stream_chain[OF assms(1), of twin]] drop[OF pre] take
    by (cases up_to) (simp_all add: load_stream[OF assms(1)] replay_planes_def cut_def split)
qed

section \<open>Full replay\<close>

definition full_replay :: "(string \<Rightarrow> string) \<Rightarrow> db \<Rightarrow> string \<Rightarrow> int option \<Rightarrow> datetime option \<Rightarrow> twin_state result" where
  "full_replay H db twin up_to as_of = replay H as_of (cut up_to (stream db twin)) (init_state twin) []"

lemma rebuild_full:
  assumes "db_inv H db"
  shows "rebuild H db twin False up_to as_of = full_replay H db twin up_to as_of"
  using load_cut[OF assms, of 0 twin up_to] by (simp add: rebuild_def start_from_def full_replay_def)

text \<open>Every state a replay reaches from the empty twin satisfies the invariants of the aggregate.\<close>

lemma init_state_ok: "twin_inv (init_state twin)" "lineage_ok (init_state twin)" "keys_ok (init_state twin)" "plain_state (init_state twin)"
  by (rule init_state_inv) (simp_all add: lineage_ok_def keys_ok_def plain_state_def plain_records_def init_state_def)

lemma stream_plain:
  assumes "db_inv H db" "e \<in> set (stream db twin)"
  shows "plain (payload e)"
proof -
  have "chain_ok H prev n evs \<Longrightarrow> e \<in> set evs \<Longrightarrow> plain (payload e)" for prev n evs
    by (induction evs arbitrary: prev n) auto
  then show ?thesis using stream_chain[OF assms(1)] assms(2) by blast
qed

lemma set_cut: "set (cut up_to evs) \<subseteq> set evs"
  by (auto simp: cut_def dest: in_set_takeD split: option.splits)

lemma full_replay_ok:
  assumes "full_replay H db twin up_to as_of = Inr t" "db_inv H db"
  shows "twin_inv t" "lineage_ok t" "keys_ok t" "plain_state t" "st_twin_id t = twin"
proof -
  note r = assms(1)[unfolded full_replay_def]
  show "twin_inv t" by (rule replay_twin_inv[OF r init_state_ok(1)])
  show "lineage_ok t" by (rule replay_lineage[OF r init_state_ok(2)])
  show "keys_ok t" by (rule replay_keys[OF r init_state_ok(3)])
  show "plain_state t"
    using set_cut[of up_to "stream db twin"] stream_plain[OF assms(2)] by (intro replay_plain[OF r init_state_ok(4)]) auto
  show "st_twin_id t = twin"
    using replay_retains[OF r init_state_ok(1)] by (simp add: retains_def init_state_def)
qed

section \<open>Snapshots are a saving\<close>

text \<open>A stored snapshot is sound when it holds the state of the replay up to its sequence.\<close>

definition snapshot_sound :: "(string \<Rightarrow> string) \<Rightarrow> db \<Rightarrow> snapshot_row \<Rightarrow> bool" where
  "snapshot_sound H db q \<longleftrightarrow>
     1 \<le> sr_sequence q \<and> sr_sequence q \<le> int (length (stream db (sr_twin_id q)))
     \<and> (case (row_to_snapshot H q, full_replay H db (sr_twin_id q) (Some (sr_sequence q)) None) of
          (Inr s, Inr t) \<Rightarrow> sn_state s = to_dict t \<and> sn_last_event_hash s = st_last_event_hash t \<and> st_twin_id t \<noteq> []
        | _ \<Rightarrow> False)"

definition snapshots_sound :: "(string \<Rightarrow> string) \<Rightarrow> db \<Rightarrow> bool" where
  "snapshots_sound H db \<longleftrightarrow> list_all (snapshot_sound H db) (db_snapshots db)"

lemma snapshot_soundE:
  assumes "snapshot_sound H db q"
  obtains s t where "row_to_snapshot H q = Inr s"
    "full_replay H db (sr_twin_id q) (Some (sr_sequence q)) None = Inr t"
    "sn_state s = to_dict t" "st_twin_id t \<noteq> []" "sn_last_event_hash s = st_last_event_hash t"
    "1 \<le> sr_sequence q" "sr_sequence q \<le> int (length (stream db (sr_twin_id q)))"
proof (cases "row_to_snapshot H q")
  case (Inr s)
  then show thesis
    using assms that[of s] unfolding snapshot_sound_def Inr
    by (cases "full_replay H db (sr_twin_id q) (Some (sr_sequence q)) None") simp_all
qed (use assms in \<open>simp add: snapshot_sound_def\<close>)

lemma row_to_snapshot_fields:
  assumes "row_to_snapshot H q = Inr s"
  shows "sn_twin_id s = sr_twin_id q" "sn_sequence s = sr_sequence q"
    "sn_last_event_hash s = sr_last_event_hash q" "sn_state_hash s = sr_state_hash q" "snapshot_verify H s = Inr ()"
  using assms by (auto simp: row_to_snapshot_def bindE_Inr_iff Let_def)

lemma load_snapshot_cases:
  assumes "load_snapshot H db twin up_to = r"
  obtains "r = Inr None"
  | q e where "q \<in> set (db_snapshots db)" "sr_twin_id q = twin" "(case up_to of None \<Rightarrow> True | Some u \<Rightarrow> sr_sequence q \<le> u)"
      "e \<in> set (db_events db)" "er_twin_id e = twin" "er_sequence e = sr_sequence q"
      "r = bindE (row_to_snapshot H q) (\<lambda>s. if er_event_hash e \<noteq> sn_last_event_hash s
            then Inl (IntegrityError ''snapshot event-chain link was modified'') else Inr (Some s))"
proof (cases "rev (sort_key (\<lambda>qr. sr_sequence (fst qr)) (snapshot_candidates db twin up_to))")
  case Nil
  then show thesis using that(1) assms by (simp add: load_snapshot_def)
next
  case (Cons qe rest)
  obtain q e where qe: "qe = (q, e)" by (cases qe)
  have "(q, e) \<in> set (rev (sort_key (\<lambda>qr. sr_sequence (fst qr)) (snapshot_candidates db twin up_to)))"
    using Cons qe by simp
  then have "(q, e) \<in> set (snapshot_candidates db twin up_to)" by simp
  then show thesis
    using assms Cons qe by (intro that(2)[of q e]) (auto simp: snapshot_candidates_def load_snapshot_def)
qed

lemma event_at:
  assumes "db_inv H db" "e \<in> set (db_events db)" "er_sequence e = int (Suc i)"
  shows "i < length (stream db (er_twin_id e))" "event_hash (stream db (er_twin_id e) ! i) = er_event_hash e"
proof -
  let ?rows = "stream_rows db (er_twin_id e)"
  have rd: "readable ?rows" using assms(1) by (rule readable_stream)
  have "e \<in> set ?rows" using assms(2) by (simp add: stream_rows_def)
  then obtain j where j: "j < length ?rows" "?rows ! j = e" by (auto simp: in_set_conv_nth)
  have "er_sequence (?rows ! j) = map er_sequence ?rows ! j" using j(1) by simp
  also have "\<dots> = 1 + int j" unfolding rows_sequences[OF assms(1)] using j(1) by simp
  finally have "j = i" using assms(3) j by simp
  then show "i < length (stream db (er_twin_id e))"
    using j length_read_rows[OF rd] by (simp add: stream_def)
  have "\<exists>ev. row_to_event e = Inr ev \<and> read_rows ?rows ! j = ev"
    using rd j mapE_readable[OF rd] by (auto simp: mapE_Inr_iff list_all2_conv_all_nth)
  then show "event_hash (stream db (er_twin_id e) ! i) = er_event_hash e"
    using \<open>j = i\<close> row_to_event_fields by (auto simp: stream_def)
qed

theorem rebuild_from_snapshot:
  assumes "db_inv H db" "snapshots_sound H db"
  shows "rebuild H db twin True up_to None = full_replay H db twin up_to None"
proof -
  have none: "rebuild H db twin True up_to None = full_replay H db twin up_to None"
    if "load_snapshot H db twin up_to = Inr None"
    using that rebuild_full[OF assms(1), of twin up_to None] by (simp add: rebuild_def)
  have some: "rebuild H db twin True up_to None = full_replay H db twin up_to None"
    if q: "q \<in> set (db_snapshots db)" "sr_twin_id q = twin" "case up_to of None \<Rightarrow> True | Some u \<Rightarrow> sr_sequence q \<le> u"
      and e: "e \<in> set (db_events db)" "er_twin_id e = twin" "er_sequence e = sr_sequence q"
      and r: "load_snapshot H db twin up_to = bindE (row_to_snapshot H q) (\<lambda>s. if er_event_hash e \<noteq> sn_last_event_hash s
            then Inl (IntegrityError ''snapshot event-chain link was modified'') else Inr (Some s))" for q e
  proof -
    define n where "n = nat (sr_sequence q)"
    define evs where "evs = stream db twin"
    have "snapshot_sound H db q" using assms(2) q(1) by (simp add: snapshots_sound_def list_all_iff)
    then obtain s t where st: "row_to_snapshot H q = Inr s" "full_replay H db twin (Some (sr_sequence q)) None = Inr t"
      "sn_state s = to_dict t" "st_twin_id t \<noteq> []" "sn_last_event_hash s = st_last_event_hash t"
      and b: "1 \<le> sr_sequence q" "sr_sequence q \<le> int (length evs)"
      unfolding evs_def q(2)[symmetric] by (rule snapshot_soundE)
    have n: "sr_sequence q = int n" "1 \<le> n" "n \<le> length evs" using b by (auto simp: n_def)
    have tk: "take n evs \<noteq> []" using n by auto
    have rep: "replay H None (take n evs) (init_state twin) [] = Inr t"
      using st(2) by (simp add: full_replay_def cut_def evs_def n_def)
    have last: "last (take n evs) = evs ! (n - 1)" using n by (subst last_conv_nth[OF tk]) simp
    have chain: "chain_ok H [] 1 evs" using stream_chain[OF assms(1)] by (simp add: evs_def)
    have pos: "st_sequence t = int n" "st_last_event_hash t = event_hash (evs ! (n - 1))"
      using replay_position[OF rep tk] last chain_ok_nth[OF chain, of "n - 1"] n by auto
    have hash: "er_event_hash e = event_hash (evs ! (n - 1))"
      using event_at(2)[OF assms(1) e(1), of "n - 1"] e(2,3) n by (simp add: evs_def)
    have sn: "snapshot_verify H s = Inr ()" "sn_twin_id s = twin" "sn_sequence s = int n"
      using row_to_snapshot_fields[OF st(1)] q(2) n by auto
    have "verify H (evs ! (n - 1)) p = Inr () \<Longrightarrow> event_hash (evs ! (n - 1)) \<noteq> []" for p
      by (rule verify_hash_nonempty)
    moreover have "\<exists>p. verify H (evs ! (n - 1)) p = Inr ()"
    proof -
      have "chain_ok H prev k xs \<Longrightarrow> i < length xs \<Longrightarrow> \<exists>p. verify H (xs ! i) p = Inr ()" for prev k xs i
        by (induction xs arbitrary: prev k i) (auto simp: nth_Cons split: nat.splits)
      then show ?thesis using chain n by (metis One_nat_def Suc_le_eq Suc_pred diff_le_self le_trans less_le_trans)
    qed
    ultimately have nonempty: "st_last_event_hash t \<noteq> []" using pos by auto
    have ok: "twin_inv t" "plain_state t" "st_twin_id t = twin"
      using full_replay_ok[OF st(2) assms(1)] by auto
    have dict: "from_dict (sn_state s) = Inr t"
      unfolding st(3) using ok pos n nonempty st(4) by (intro from_to_dict) auto
    have link: "er_event_hash e = sn_last_event_hash s" using hash pos st(5) by simp
    have start: "start_from H twin (Some s) = Inr (t, int n, event_hash (evs ! (n - 1)))"
      using sn dict ok pos hash link by (simp add: start_from_def)
    have load: "load db twin (int n) up_to replay_planes None = Inr (drop n (cut up_to evs))"
      using load_cut[OF assms(1), of "int n"] by (simp add: evs_def)
    have cut: "cut up_to evs = take n evs @ drop n (cut up_to evs)"
    proof (cases up_to)
      case None
      then show ?thesis by (simp add: cut_def)
    next
      case (Some u)
      then have "n \<le> nat u" using q(3) n(1) by simp
      then have "take n (take (nat u) evs) = take n evs" by (simp add: min_absorb1)
      then show ?thesis using Some append_take_drop_id[of n "take (nat u) evs"] by (simp add: cut_def)
    qed
    have "rebuild H db twin True up_to None = replay H None (drop n (cut up_to evs)) t (event_hash (evs ! (n - 1)))"
      using r st(1) link start load by (simp add: rebuild_def)
    also have "\<dots> = replay H None (take n evs @ drop n (cut up_to evs)) (init_state twin) []"
      using rep tk last by (simp add: replay_append)
    also have "\<dots> = full_replay H db twin up_to None"
      using cut by (simp add: full_replay_def evs_def)
    finally show ?thesis .
  qed
  show ?thesis
    by (rule load_snapshot_cases[OF refl, of H db twin up_to]) (erule none, erule (6) some)
qed

section \<open>Keeping snapshots sound\<close>

lemma snapshot_sound_cong:
  assumes "snapshot_sound H db q" "prefix (stream db (sr_twin_id q)) (stream db' (sr_twin_id q))"
  shows "snapshot_sound H db' q"
proof -
  obtain zs where zs: "stream db' (sr_twin_id q) = stream db (sr_twin_id q) @ zs"
    using assms(2) by (auto simp: prefix_def)
  have b: "1 \<le> sr_sequence q" "sr_sequence q \<le> int (length (stream db (sr_twin_id q)))"
    using assms(1) by (auto simp: snapshot_sound_def)
  have "full_replay H db' (sr_twin_id q) (Some (sr_sequence q)) None = full_replay H db (sr_twin_id q) (Some (sr_sequence q)) None"
    using b zs by (simp add: full_replay_def cut_def)
  then show ?thesis using assms(1) zs by (simp add: snapshot_sound_def)
qed

lemma append_snapshots_sound:
  assumes "append H now ev n db = Inr (out, db')" "db_inv H db" "admissible now ev" "snapshots_sound H db"
  shows "snapshots_sound H db'"
proof -
  have "db_snapshots db' = db_snapshots db"
  proof (cases "duplicate_row db ev")
    case None
    show ?thesis by (rule append_fresh_tables[OF assms(1) None])
  next
    case (Some r)
    then show ?thesis using append_retry_unchanged[OF assms(1)] by simp
  qed
  moreover have "prefix (stream db twin) (stream db' twin)" for twin
    using append_stream[OF assms(1-3), of twin] by simp
  ultimately show ?thesis
    using assms(4) snapshot_sound_cong by (auto simp: snapshots_sound_def list_all_iff)
qed

lemma full_replay_head:
  assumes "db_inv H db" "full_replay H db twin None None = Inr s" "stream db twin \<noteq> []"
  shows "st_sequence s = int (length (stream db twin))" "st_last_event_hash s = last_hash [] (stream db twin)"
    "st_last_event_hash s \<noteq> []"
proof -
  let ?evs = "stream db twin"
  have r: "replay H None ?evs (init_state twin) [] = Inr s" using assms(2) by (simp add: full_replay_def cut_def)
  have c: "chain_ok H [] 1 ?evs" using stream_chain[OF assms(1)] .
  have l: "last ?evs = ?evs ! (length ?evs - 1)" using assms(3) by (simp add: last_conv_nth)
  show "st_sequence s = int (length ?evs)"
    using replay_position(1)[OF r assms(3)] l chain_ok_nth[OF c, of "length ?evs - 1"] assms(3)
    by (simp add: of_nat_diff Suc_leI)
  show h: "st_last_event_hash s = last_hash [] ?evs"
    using replay_position(2)[OF r assms(3)] assms(3) by (simp add: last_hash_def)
  have "\<exists>p. verify H (last xs) p = Inr ()" if "chain_ok H prev n xs" "xs \<noteq> []" for prev n xs
    using that by (induction xs arbitrary: prev n) auto
  from this[OF c assms(3)] show "st_last_event_hash s \<noteq> []"
    using h assms(3) verify_hash_nonempty by (auto simp: last_hash_def)
qed

text \<open>Saving the snapshot of the replayed state succeeds where none is stored yet.\<close>

lemma save_snapshot_new:
  assumes "db_inv H db" "full_replay H db twin None None = Inr s" "stream db twin \<noteq> []" "twin \<noteq> []"
    and "to_snapshot H now s = Inr sn" "storable_time (utc now)"
    and "find (\<lambda>q. sr_twin_id q = twin \<and> sr_sequence q = st_sequence s) (db_snapshots db) = None"
  obtains row where "save_snapshot H sn db = Inr (sn, db\<lparr>db_snapshots := db_snapshots db @ [row]\<rparr>)"
    "snapshot_sound H db row"
proof -
  note ok = full_replay_ok[OF assms(2,1)] and hd = full_replay_head[OF assms(1-3)]
  have len: "1 \<le> int (length (stream db twin))" using assms(3) by (cases "stream db twin") auto
  note f = to_snapshot_faithful[OF assms(5) ok(1,4)]
  have sn: "snapshot_verify H sn = Inr ()" "sn_twin_id sn = twin" "sn_sequence sn = st_sequence s"
    "sn_last_event_hash sn = st_last_event_hash s"
    using f hd ok(5) assms(4) len by auto
  have st: "sn_state sn = to_dict s" "sn_created_at sn = utc now"
    using assms(5) by (auto simp: to_snapshot_def snapshot_new_def bindE_Inr_iff)
  obtain row where row: "snapshot_to_row sn = Inr row"
    "row_to_snapshot H row = Inr (sn\<lparr>sn_created_at := astimezone_utc (sn_created_at sn)\<rparr>)"
    "sr_twin_id row = sn_twin_id sn" "sr_sequence row = sn_sequence sn"
    using plain_to_dict[OF ok(4)] st assms(6) sn(1) snapshot_to_row_plain[of sn H] by metis
  have cutall: "cut (Some (st_sequence s)) (stream db twin) = cut None (stream db twin)"
    using hd(1) by (simp add: cut_def)
  have "snapshot_sound H db row"
    using row sn st hd len assms(2,4) ok(5) cutall by (simp add: snapshot_sound_def full_replay_def)
  moreover have "\<exists>r. find (\<lambda>r. er_twin_id r = twin \<and> er_sequence r = st_sequence s) (db_events db) = Some r
      \<and> er_event_hash r = st_last_event_hash s"
  proof -
    obtain r where r: "head_row db twin = Some r" "er_sequence r = st_sequence s" "er_event_hash r = st_last_event_hash s"
      using head_stream[OF assms(1), of twin] hd len by (cases "head_row db twin") (auto simp: head_def)
    have "r \<in> set (rev (sort_key er_sequence (stream_rows db twin)))"
    proof (cases "rev (sort_key er_sequence (stream_rows db twin))")
      case Nil
      then show ?thesis using r(1) by (simp add: head_row_def)
    next
      case (Cons x xs)
      then have "x = r" using r(1) by (simp add: head_row_def)
      then show ?thesis unfolding Cons by simp
    qed
    then have mem: "r \<in> set (db_events db)" "er_twin_id r = twin" by (auto simp: stream_rows_def)
    then obtain r' where f: "find (\<lambda>r. er_twin_id r = twin \<and> er_sequence r = st_sequence s) (db_events db) = Some r'"
      using r(2) by (cases "find (\<lambda>r. er_twin_id r = twin \<and> er_sequence r = st_sequence s) (db_events db)")
        (auto simp: find_None_iff)
    then have r': "r' \<in> set (db_events db)" "er_twin_id r' = twin" "er_sequence r' = st_sequence s"
      by (auto simp: find_Some_iff)
    obtain i where i: "st_sequence s = int (Suc i)"
      using hd(1) len by (metis One_nat_def Suc_le_D of_nat_1 of_nat_le_iff)
    have "er_event_hash r' = er_event_hash r"
      using event_at(2)[OF assms(1) mem(1), of i] event_at(2)[OF assms(1) r'(1), of i] r(2) r' mem(2) i by simp
    then show ?thesis using f r(3) by simp
  qed
  ultimately show thesis
    using row(1) sn assms(7) by (intro that[of row]) (auto simp: save_snapshot_def)
qed

end
