(* ===== verification/K2_Examples.thy ===== *)
theory K2_Examples
  imports K2_Rebuild
begin

text \<open>
  Concrete inputs for the witnesses of the properties: a fixed digest, one event of evidence, the
  ledger after its append, and the twin state after its replay.
\<close>

definition ex_digest :: "string \<Rightarrow> string" where
  "ex_digest s = ''d''"

definition ex_payload :: pydict where
  "ex_payload =
     [(''content_hash'', PStr ''h''), (''evidence_id'', PStr ''e1''), (''independence_group'', PStr ''g''),
      (''rights'', PDict []), (''sensitivity'', PStr ''public''), (''source'', PStr ''s''),
      (''subject_id'', PStr ''alice'')]"

definition ex_event :: event where
  "ex_event =
     \<lparr>event_id = ''id1'', twin_id = ''t'', event_type = ''EvidenceIngested'', plane = AUTHORITATIVE,
      payload = ex_payload, occurred_at = utc 5, recorded_at = utc 0, producer = ''p'',
      producer_role = INGEST_SERVICE, idempotency_key = ''k1'', schema_version = ''argo.dt.event/v2'',
      sequence = 0, causation_id = None, correlation_id = None, previous_hash = [], event_hash = []\<rparr>"

lemma ex_plain: "jsonable (to_primitive (PDict ex_payload))" "finite_floats (PDict ex_payload)" "plain ex_payload"
  by (simp_all add: ex_payload_def plain_def)

lemma ex_admissible: "admissible 7 ex_event"
  using ex_plain by (simp add: admissible_def storable_def ex_event_def storable_time_def valid_dt_def utc_def naive_def)

lemma ex_append: "\<exists>out db. append H 7 ex_event 0 empty_db = Inr (out, db)"
proof (rule append_succeeds[OF db_inv_empty ex_admissible])
  show "head empty_db (twin_id ex_event) = (0, [])"
    by (simp add: head_def head_row_def stream_rows_def empty_db_def)
  show "edges_of ex_event = Inr []" by (simp add: edges_of_def ex_event_def)
qed (simp_all add: ex_event_def duplicate_row_def empty_db_def)

lemma ex_validate: "validate_event ex_event = Inr ()"
  by (simp add: validate_event_def ex_event_def require_def validate_payload_def projection_events_def
      validate_evidence_ingested_def require_fields_def missing_fields_def ex_payload_def dict_has_def
      all_truthy_def pget_def get_or_def sensitivity_of_def enum_of_def all_sensitivities_def utc_def naive_def)

lemma ex_apply: "\<exists>t. apply_event (init_state ''t'') ex_event = Inr t"
  using ex_validate
  by (simp add: apply_event_Inr require_def handle_def handlers_def h_evidence_ingested_def text_item_def item_def
      bind_subject_def init_state_def ex_event_def ex_payload_def)

lemma ex_no_duplicate: "duplicate_row empty_db ex_event = None"
  by (simp add: duplicate_row_def empty_db_def)

text \<open>Any event with the body of the example is accepted by an empty twin.\<close>

lemma ex_apply_body:
  assumes "payload ev = ex_payload" "event_type ev = ''EvidenceIngested''" "plane ev = AUTHORITATIVE"
    and "twin_id ev = ''t''" "producer ev = ''p''" "idempotency_key ev = ''k1''"
    and "schema_version ev = ''argo.dt.event/v2''" "\<not> naive (occurred_at ev)"
  shows "\<exists>t. apply_event (init_state ''t'') ev = Inr t"
proof -
  have "validate_event ev = Inr ()"
    using assms
    by (simp add: validate_event_def require_def validate_payload_def projection_events_def
        validate_evidence_ingested_def require_fields_def missing_fields_def ex_payload_def dict_has_def
        all_truthy_def pget_def get_or_def sensitivity_of_def enum_of_def all_sensitivities_def)
  then show ?thesis
    using assms
    by (simp add: apply_event_Inr require_def handle_def handlers_def h_evidence_ingested_def text_item_def item_def
        bind_subject_def init_state_def ex_payload_def)
qed

text \<open>A ledger with one event, whose replay gives a state.\<close>

lemma ex_ledger:
  "\<exists>out db s. append H 7 ex_event 0 empty_db = Inr (out, db) \<and> db_inv H db \<and> db_snapshots db = []
     \<and> stream db ''t'' = [persisted out] \<and> full_replay H db ''t'' None None = Inr s"
proof -
  obtain out db where a: "append H 7 ex_event 0 empty_db = Inr (out, db)" using ex_append by blast
  have inv: "db_inv H db" by (rule append_inv[OF a db_inv_empty ex_admissible])
  obtain row prev where r: "seal H ex_event (0 + 1) prev (utc 7) = Inr out" "db_snapshots db = db_snapshots empty_db"
    by (rule append_fresh_tables[OF a ex_no_duplicate])
  note f = seal_fields[OF r(1)]
  have st: "stream db ''t'' = [persisted out]"
    using append_stream[OF a db_inv_empty ex_admissible, of "''t''"] ex_no_duplicate
    by (simp add: ex_event_def stream_def stream_rows_def empty_db_def)
  have "payload (persisted out) = ex_payload"
    using f jsonable_primitive[OF ex_plain(1)] by (simp add: persisted_def ex_event_def ex_payload_def)
  then obtain s where s: "apply_event (init_state ''t'') (persisted out) = Inr s"
    using ex_apply_body[of "persisted out"] f by (auto simp: ex_event_def persisted_def)
  have "chain_ok H [] 1 [persisted out]" using stream_chain[OF inv, of "''t''"] st by simp
  then have "full_replay H db ''t'' None None = Inr s"
    using st s by (simp add: full_replay_def cut_def init_state_def)
  then show ?thesis using a inv st r(2) by (auto simp: empty_db_def)
qed

text \<open>The same ledger with a snapshot of that state.\<close>

lemma ex_snapshot_ledger:
  "\<exists>db. db_inv H db \<and> db_snapshots db \<noteq> [] \<and> snapshots_sound H db \<and> ok (full_replay H db ''t'' None None)"
proof -
  obtain out db s where d: "db_inv H db" "db_snapshots db = []" "stream db ''t'' = [persisted out]"
    "full_replay H db ''t'' None None = Inr s"
    using ex_ledger[of H] by blast
  note ok = full_replay_ok[OF d(4,1)]
  have "jsonable (snapshot_material ''argo.dt.snapshot/v1'' (st_twin_id s) (st_sequence s) (st_last_event_hash s) (to_dict s))"
    using plain_to_dict[OF ok(4)] by (simp add: snapshot_material_def plain_def)
  then obtain sn where sn: "to_snapshot H 9 s = Inr sn"
    by (auto simp: to_snapshot_def snapshot_new_def content_hash_def canonical_json_jsonable)
  have ne: "stream db ''t'' \<noteq> []" "''t'' \<noteq> []" using d(3) by simp_all
  have time: "storable_time (utc 9)" by (simp add: storable_time_def valid_dt_def utc_def naive_def)
  obtain row where "snapshot_sound H db row"
    by (rule save_snapshot_new[OF d(1,4) ne sn time]) (simp_all add: d(2))
  define db' where "db' = db\<lparr>db_snapshots := [row]\<rparr>"
  have "stream db' = stream db" by (simp add: db'_def stream_def stream_rows_def fun_eq_iff)
  moreover from this have "snapshot_sound H db' row" using snapshot_sound_cong[OF \<open>snapshot_sound H db row\<close>, of db'] by simp
  moreover have "db_inv H db'"
    using d(1) \<open>stream db' = stream db\<close> by (simp add: db_inv_def db'_def twins_def keys_unique_def outbox_linked_def)
  ultimately show ?thesis
    using d(4) by (intro exI[of _ db']) (simp add: db'_def snapshots_sound_def full_replay_def)
qed

end
