(* ===== verification/K2_Outbox_Laws.thy ===== *)
theory K2_Outbox_Laws
  imports K2_Outbox
begin

text \<open>
  Laws of the outbox: what a claim does to the table, that it succeeds, leases, fencing, and the
  contract \<open>outbox_store\<close> with the relay's accounting proved inside it and interpreted on the
  SQLite model. The step relation \<open>delivery\<close> covers every interleaving of writers and relays.
\<close>

section \<open>Keys\<close>

definition outbox_keys :: "db \<Rightarrow> outbox_key list" where
  "outbox_keys db = map ob_key (db_outbox db)"

lemma keys_distinct: "db_inv H db \<Longrightarrow> distinct (map ob_key (db_outbox db))"
  by (simp add: db_inv_def outbox_linked_def ob_key_def[abs_def])

lemma filter_key:
  assumes "distinct (map f xs)" "x \<in> set xs"
  shows "filter (\<lambda>y. f y = f x) xs = [x]"
  using assms by (induction xs) (auto simp: filter_empty_conv image_iff)

lemma row_unique: "distinct (map f xs) \<Longrightarrow> x \<in> set xs \<Longrightarrow> y \<in> set xs \<Longrightarrow> f x = f y \<Longrightarrow> x = y"
  by (auto simp: distinct_map inj_on_def)

lemma update_where_fst: "fst (update_where p f xs) = map (\<lambda>r. if p r then f r else r) xs"
  and update_where_snd: "snd (update_where p f xs) = length (filter p xs)"
  by (simp_all add: update_where_def)

lemma ob_key_lease [simp]: "ob_key (take_lease owner u r) = ob_key r"
  by (simp add: ob_key_def take_lease_def)

text \<open>Rewriting rows under their keys touches neither the ledger nor the links of the outbox.\<close>

lemma db_inv_outbox:
  assumes "db_inv H db" "map ob_key rows = map ob_key (db_outbox db)"
  shows "db_inv H (db\<lparr>db_outbox := rows\<rparr>)"
proof -
  have "\<exists>q\<in>set (db_outbox db). ob_key q = ob_key r" if "r \<in> set rows" for r
    using that assms(2) by (metis (no_types, lifting) image_iff image_set)
  moreover have "distinct (map (\<lambda>r. (ob_twin_id r, ob_sequence r, ob_topic r)) rows)"
    using keys_distinct[OF assms(1)] assms(2) by (simp add: ob_key_def[abs_def])
  ultimately have "outbox_linked (db\<lparr>db_outbox := rows\<rparr>)"
    using assms(1) by (fastforce simp: outbox_linked_def db_inv_def ob_key_def)
  then show ?thesis
    using assms(1) by (simp add: db_inv_def twins_def stream_def stream_rows_def keys_unique_def)
qed

section \<open>What a claim does\<close>

definition leased :: "string \<Rightarrow> string \<Rightarrow> outbox_key set \<Rightarrow> outbox_row list \<Rightarrow> outbox_row list" where
  "leased owner u K rows = map (\<lambda>r. if ob_key r \<in> K then take_lease owner u r else r) rows"

lemma leased_keys [simp]: "map ob_key (leased owner u K rows) = map ob_key rows"
  by (simp add: leased_def)

lemma leased_empty [simp]: "leased owner u {} rows = rows"
  by (simp add: leased_def)

lemma leased_row:
  "r \<in> set (leased owner u K rows) \<longleftrightarrow>
     (\<exists>q\<in>set rows. r = (if ob_key q \<in> K then take_lease owner u q else q))"
  by (auto simp: leased_def)

lemma update_leased:
  assumes "distinct (map ob_key rows)" "q \<in> set rows" "leasable now q" "ob_key q \<notin> K"
  shows "update_where (\<lambda>r. ob_key r = ob_key q \<and> leasable now r) (take_lease owner u) (leased owner u K rows)
    = (leased owner u (insert (ob_key q) K) rows, 1)"
proof -
  have sel: "ob_key r = ob_key q \<and> leasable now r \<longleftrightarrow> ob_key r = ob_key q" if r: "r \<in> set (leased owner u K rows)" for r
  proof
    assume k: "ob_key r = ob_key q"
    obtain p where p: "p \<in> set rows" "r = (if ob_key p \<in> K then take_lease owner u p else p)"
      using r unfolding leased_row by blast
    then have "ob_key p = ob_key q" using k by (auto split: if_splits)
    then have "p = q" using assms(1,2) p(1) by (rule_tac row_unique)
    then show "ob_key r = ob_key q \<and> leasable now r" using p assms(3,4) k by auto
  qed simp
  have q: "q \<in> set (leased owner u K rows)" using assms(2,4) by (auto simp: leased_row)
  have "filter (\<lambda>r. ob_key r = ob_key q \<and> leasable now r) (leased owner u K rows) = [q]"
    using filter_key[OF _ q, of ob_key] assms(1) sel by (simp cong: filter_cong)
  moreover have "map (\<lambda>r. if ob_key r = ob_key q \<and> leasable now r then take_lease owner u r else r) (leased owner u K rows)
      = map (\<lambda>r. if ob_key r = ob_key q then take_lease owner u r else r) (leased owner u K rows)"
    using sel by (intro map_cong) auto
  moreover have "\<dots> = leased owner u (insert (ob_key q) K) rows"
    using assms(4) by (auto simp: leased_def)
  ultimately show ?thesis by (simp add: update_where_def)
qed

text \<open>The rows a claim takes, in the order it hands them out, and the record of a row.\<close>

definition due_rows :: "string \<Rightarrow> int \<Rightarrow> db \<Rightarrow> outbox_row list" where
  "due_rows now limit db =
     take (nat limit) (sort_key (\<lambda>r. (ob_created_at r, ob_twin_id r, ob_sequence r, ob_topic r))
       (filter (leasable now) (db_outbox db)))"

definition record_of :: "string \<Rightarrow> db \<Rightarrow> outbox_row \<Rightarrow> outbox_record result" where
  "record_of owner db q =
     bindE (parse_time (ob_created_at q)) (\<lambda>created.
       Inr \<lparr>or_topic = ob_topic q, or_key = ob_message_key q,
            or_event = stream db (ob_twin_id q) ! nat (ob_sequence q - 1), or_created_at = created,
            or_attempts = ob_attempts q + 1, or_lease_owner = owner\<rparr>)"

lemma select_due: "select_outbox now limit db = map ob_key (due_rows now limit db)"
  by (simp add: select_outbox_def due_rows_def)

lemma due_row: "q \<in> set (due_rows now limit db) \<Longrightarrow> q \<in> set (db_outbox db) \<and> leasable now q"
  unfolding due_rows_def by (drule in_set_takeD) simp

lemma due_distinct: "db_inv H db \<Longrightarrow> distinct (map ob_key (due_rows now limit db))"
proof -
  let ?f = "\<lambda>r. (ob_created_at r, ob_twin_id r, ob_sequence r, ob_topic r)"
  let ?s = "sort_key ?f (filter (leasable now) (db_outbox db))"
  assume "db_inv H db"
  then have d: "distinct (map ob_key (filter (leasable now) (db_outbox db)))"
    by (simp add: keys_distinct distinct_map_filter)
  have "mset (map ob_key ?s) = mset (map ob_key (filter (leasable now) (db_outbox db)))" by simp
  then have "distinct (map ob_key ?s)" using d by (rule mset_eq_imp_distinct_iff[THEN iffD2])
  then show ?thesis by (simp add: due_rows_def take_map[symmetric] distinct_take)
qed

text \<open>With room for all of them, every row that can be leased is due.\<close>

lemma length_filter_imp: "(\<And>x. p x \<Longrightarrow> q x) \<Longrightarrow> length (filter p xs) \<le> length (filter q xs)"
  by (induction xs) (auto intro: le_SucI)

lemma due_all:
  assumes "outbox_backlog db \<le> nat limit"
  shows "set (due_rows now limit db) = {q \<in> set (db_outbox db). leasable now q}"
proof -
  have "length (filter (leasable now) (db_outbox db)) \<le> outbox_backlog db"
    unfolding outbox_backlog_def by (rule length_filter_imp) (simp add: leasable_def)
  with assms show ?thesis by (auto simp: due_rows_def)
qed

lemma joined_event:
  assumes "db_inv H db" "q \<in> set (db_outbox db)"
  obtains e where "filter (\<lambda>e. er_twin_id e = ob_twin_id q \<and> er_sequence e = ob_sequence q) (db_events db) = [e]"
    "row_to_event e = Inr (stream db (ob_twin_id q) ! nat (ob_sequence q - 1))"
    "1 \<le> ob_sequence q" "nat (ob_sequence q - 1) < length (stream db (ob_twin_id q))"
    "sequence (stream db (ob_twin_id q) ! nat (ob_sequence q - 1)) = ob_sequence q"
    "twin_id (stream db (ob_twin_id q) ! nat (ob_sequence q - 1)) = ob_twin_id q"
proof -
  let ?rows = "stream_rows db (ob_twin_id q)"
  have "outbox_linked db" using assms(1) by (simp add: db_inv_def)
  then obtain e where e: "e \<in> set (db_events db)" "er_twin_id e = ob_twin_id q" "er_sequence e = ob_sequence q"
    using assms(2) by (auto simp: outbox_linked_def)
  then have e_in: "e \<in> set ?rows" by (simp add: stream_rows_def)
  then obtain i where i: "i < length ?rows" "?rows ! i = e" by (auto simp: in_set_conv_nth)
  have "map er_sequence ?rows ! i = 1 + int i" unfolding rows_sequences[OF assms(1)] using i(1) by simp
  then have seq: "ob_sequence q = 1 + int i" using i e(3) by simp
  have rd: "readable ?rows" using assms(1) by (rule readable_stream)
  have "distinct (map er_sequence ?rows)"
    unfolding rows_sequences[OF assms(1)] by (simp add: distinct_map inj_on_def)
  then have one: "filter (\<lambda>r. er_sequence r = er_sequence e) ?rows = [e]" using e_in by (rule filter_key)
  have "list_all2 (\<lambda>r ev. row_to_event r = Inr ev) ?rows (stream db (ob_twin_id q))"
    using mapE_readable[OF rd] by (simp add: mapE_Inr_iff stream_def)
  then have ev: "row_to_event e = Inr (stream db (ob_twin_id q) ! i)" "length (stream db (ob_twin_id q)) = length ?rows"
    using i by (auto simp: list_all2_conv_all_nth)
  have idx: "nat (ob_sequence q - 1) = i" using seq by simp
  show thesis
  proof (rule that[of e])
    show "filter (\<lambda>e. er_twin_id e = ob_twin_id q \<and> er_sequence e = ob_sequence q) (db_events db) = [e]"
      using one e(3) by (simp add: stream_rows_def conj_commute)
    show "row_to_event e = Inr (stream db (ob_twin_id q) ! nat (ob_sequence q - 1))" using ev(1) idx by simp
    show "nat (ob_sequence q - 1) < length (stream db (ob_twin_id q))" using ev(2) i(1) idx by simp
    show "1 \<le> ob_sequence q" using seq by simp
  qed (use row_to_event_fields[OF ev(1)] e idx in auto)
qed

lemma chain_ok_verify: "chain_ok H prev n evs \<Longrightarrow> i < length evs \<Longrightarrow> verify H (evs ! i) (previous_hash (evs ! i)) = Inr ()"
proof (induction evs arbitrary: prev n i)
  case (Cons ev evs)
  then have "previous_hash ev = prev" by (auto simp: verify_Inr)
  with Cons show ?case by (cases i) auto
qed simp

lemma record_of_leased:
  assumes "db_inv H db" "q \<in> set (db_outbox db)" "ob_key q \<in> K"
    and "rows = leased owner u K (db_outbox db)"
  shows "outbox_record_of H owner (ob_key q) (db\<lparr>db_outbox := rows\<rparr>) = record_of owner db q"
proof -
  obtain e where e: "filter (\<lambda>e. er_twin_id e = ob_twin_id q \<and> er_sequence e = ob_sequence q) (db_events db) = [e]"
    "row_to_event e = Inr (stream db (ob_twin_id q) ! nat (ob_sequence q - 1))"
    "nat (ob_sequence q - 1) < length (stream db (ob_twin_id q))"
    by (rule joined_event[OF assms(1,2)])
  have "take_lease owner u q \<in> set rows" using assms(2,3,4) by (auto simp: leased_row)
  moreover have "distinct (map ob_key rows)" using keys_distinct[OF assms(1)] by (simp add: assms(4))
  ultimately have "filter (\<lambda>r. ob_key r = ob_key (take_lease owner u q)) rows = [take_lease owner u q]"
    by (intro filter_key)
  then have "filter (\<lambda>r. ob_key r = ob_key q) rows = [take_lease owner u q]" by simp
  then have "outbox_join (ob_key q) (db\<lparr>db_outbox := rows\<rparr>) = [(take_lease owner u q, e)]"
    using e(1) by (simp add: outbox_join_def take_lease_def)
  then show ?thesis
    using e(2) chain_ok_verify[OF stream_chain[OF assms(1)] e(3)]
    by (simp add: outbox_record_of_def record_of_def take_lease_def)
qed

lemma claim_rows:
  assumes "db_inv H db" "distinct (map ob_key qs)" "\<And>q. q \<in> set qs \<Longrightarrow> q \<in> set (db_outbox db) \<and> leasable now q"
    and "ob_key ` set qs \<inter> K = {}"
  shows "foldE (claim_row H owner now u) (recs, db\<lparr>db_outbox := leased owner u K (db_outbox db)\<rparr>) (map ob_key qs)
    = bindE (mapE (record_of owner db) qs) (\<lambda>new.
        Inr (recs @ new, db\<lparr>db_outbox := leased owner u (K \<union> ob_key ` set qs) (db_outbox db)\<rparr>))"
  using assms(2-4)
proof (induction qs arbitrary: recs K)
  case (Cons q qs)
  let ?K = "insert (ob_key q) K"
  have q: "q \<in> set (db_outbox db)" "leasable now q" "ob_key q \<notin> K" using Cons.prems by auto
  have step: "claim_row H owner now u (recs, db\<lparr>db_outbox := leased owner u K (db_outbox db)\<rparr>) (ob_key q)
      = bindE (record_of owner db q) (\<lambda>rec. Inr (recs @ [rec], db\<lparr>db_outbox := leased owner u ?K (db_outbox db)\<rparr>))"
    using update_leased[OF keys_distinct[OF assms(1)] q] record_of_leased[OF assms(1) q(1), of ?K _ owner u]
    by (simp add: claim_row_def)
  have ih: "foldE (claim_row H owner now u) (recs', db\<lparr>db_outbox := leased owner u ?K (db_outbox db)\<rparr>) (map ob_key qs)
      = bindE (mapE (record_of owner db) qs) (\<lambda>new.
          Inr (recs' @ new, db\<lparr>db_outbox := leased owner u (?K \<union> ob_key ` set qs) (db_outbox db)\<rparr>))" for recs'
    using Cons.prems by (intro Cons.IH) auto
  show ?case
    by (cases "record_of owner db q"; cases "mapE (record_of owner db) qs") (simp_all add: step ih)
qed simp

text \<open>A claim leases the due rows and hands out their records, or fails as a whole.\<close>

definition lease_end :: "int \<Rightarrow> int \<Rightarrow> int" where
  "lease_end now seconds = now + seconds * second_us"

lemma claim_eq:
  assumes "db_inv H db" "owner \<noteq> []" "0 < limit" "1 \<le> seconds" "lease_end now seconds < 3652059 * day_us"
    and "qs = due_rows (isoformat (utc now)) limit db"
  shows "claim_outbox H now owner limit seconds db =
    bindE (mapE (record_of owner db) qs) (\<lambda>recs. Inr (recs,
      db\<lparr>db_outbox := leased owner (isoformat (utc (lease_end now seconds))) (ob_key ` set qs) (db_outbox db)\<rparr>))"
proof -
  have "db = db\<lparr>db_outbox := leased owner (isoformat (utc (lease_end now seconds))) {} (db_outbox db)\<rparr>" by simp
  moreover have "claim_outbox H now owner limit seconds db =
      foldE (claim_row H owner (isoformat (utc now)) (isoformat (utc (lease_end now seconds)))) ([], db) (map ob_key qs)"
    using assms(2-6) by (simp add: claim_outbox_def select_due lease_end_def)
  ultimately show ?thesis
    using claim_rows[OF assms(1), of qs "isoformat (utc now)" "{}" owner "isoformat (utc (lease_end now seconds))" "[]"]
      due_distinct[OF assms(1)] due_row assms(6)
    by simp
qed

section \<open>The outbox invariant\<close>

definition outbox_row_ok :: "outbox_row \<Rightarrow> bool" where
  "outbox_row_ok r \<longleftrightarrow>
     ok (parse_time (ob_created_at r)) \<and> 0 \<le> ob_attempts r
     \<and> (ob_lease_owner r = None \<longleftrightarrow> ob_lease_until r = None)
     \<and> (ob_published_at r \<noteq> None \<longrightarrow> ob_lease_owner r = None)"

definition outbox_inv :: "(string \<Rightarrow> string) \<Rightarrow> db \<Rightarrow> bool" where
  "outbox_inv H db \<longleftrightarrow> db_inv H db \<and> list_all outbox_row_ok (db_outbox db)"

lemma outbox_inv_empty: "outbox_inv H empty_db"
  by (simp add: outbox_inv_def db_inv_empty) (simp add: empty_db_def)

lemma outbox_inv_rows:
  assumes "outbox_inv H db" "map ob_key rows = map ob_key (db_outbox db)" "list_all outbox_row_ok rows"
  shows "outbox_inv H (db\<lparr>db_outbox := rows\<rparr>)"
  using assms db_inv_outbox[of H db rows] by (simp add: outbox_inv_def)

lemma append_outbox_inv:
  assumes "append H now ev n db = Inr (out, db')" "outbox_inv H db" "admissible now ev"
  shows "outbox_inv H db'"
proof -
  have "list_all outbox_row_ok (db_outbox db')"
  proof (cases "duplicate_row db ev")
    case (Some r)
    then show ?thesis using append_retry_unchanged[OF assms(1)] assms(2) by (simp add: outbox_inv_def)
  next
    case None
    obtain row prev where r: "seal H ev (n + 1) prev (utc now) = Inr out" "db_outbox db' = db_outbox db @ [new_outbox out]"
      by (rule append_fresh_tables[OF assms(1) None])
    have "storable_time (recorded_at out)" using seal_storable[OF r(1) assms(3)] by (simp add: storable_def)
    then have "outbox_row_ok (new_outbox out)"
      by (simp add: outbox_row_ok_def new_outbox_def storable_time_def parse_time_isoformat)
    then show ?thesis using r(2) assms(2) by (simp add: outbox_inv_def)
  qed
  then show ?thesis using append_inv[OF assms(1) _ assms(3)] assms(2) by (simp add: outbox_inv_def)
qed

lemma lease_row_ok: "outbox_row_ok q \<Longrightarrow> leasable now q \<Longrightarrow> outbox_row_ok (take_lease owner u q)"
  by (auto simp: outbox_row_ok_def leasable_def take_lease_def)

text \<open>What a successful claim leaves, in one place.\<close>

lemma claim_Inr:
  assumes "claim_outbox H now owner limit seconds db = Inr (recs, db')" "db_inv H db"
  obtains (nothing) "limit \<le> 0" "recs = []" "db' = db"
  | (some) qs where "qs = due_rows (isoformat (utc now)) limit db" "mapE (record_of owner db) qs = Inr recs"
      "db' = db\<lparr>db_outbox := leased owner (isoformat (utc (lease_end now seconds))) (ob_key ` set qs) (db_outbox db)\<rparr>"
      "owner \<noteq> []" "0 < limit" "1 \<le> seconds" "lease_end now seconds < 3652059 * day_us"
proof (cases "limit \<le> 0")
  case True
  then have "recs = []" "db' = db" using assms(1) by (auto simp: claim_outbox_def split: if_splits)
  with True show thesis by (rule nothing)
next
  case False
  have c: "owner \<noteq> []" "1 \<le> seconds" "lease_end now seconds < 3652059 * day_us"
    using assms(1) False by (auto simp: claim_outbox_def lease_end_def split: if_splits)
  show thesis
    using some[OF refl _ _ c(1) _ c(2,3)] assms(1) False
      claim_eq[OF assms(2) c(1) _ c(2,3) refl, of limit] by (auto simp: bindE_Inr_iff)
qed

lemma record_of_Inr:
  "record_of owner db q = Inr rec \<Longrightarrow> db_inv H db \<Longrightarrow> q \<in> set (db_outbox db) \<Longrightarrow>
   record_key rec = ob_key q \<and> or_attempts rec = ob_attempts q + 1 \<and> or_lease_owner rec = owner
   \<and> or_event rec \<in> set (stream db (ob_twin_id q))"
proof -
  assume *: "record_of owner db q = Inr rec" "db_inv H db" "q \<in> set (db_outbox db)"
  obtain e where "nat (ob_sequence q - 1) < length (stream db (ob_twin_id q))"
    "sequence (stream db (ob_twin_id q) ! nat (ob_sequence q - 1)) = ob_sequence q"
    "twin_id (stream db (ob_twin_id q) ! nat (ob_sequence q - 1)) = ob_twin_id q"
    by (rule joined_event[OF *(2,3)])
  then show ?thesis using *(1) by (auto simp: record_of_def bindE_Inr_iff record_key_def ob_key_def)
qed

lemma records_keys:
  assumes "mapE (record_of owner db) qs = Inr recs" "db_inv H db" "set qs \<subseteq> set (db_outbox db)"
  shows "map record_key recs = map ob_key qs"
  using assms(1,3) record_of_Inr[OF _ assms(2)]
  by (induction qs arbitrary: recs) (auto simp: bindE_Inr_iff)

lemma records_rows:
  assumes "mapE (record_of owner db) qs = Inr recs" "rec \<in> set recs"
  shows "\<exists>q\<in>set qs. record_of owner db q = Inr rec"
  using assms by (induction qs arbitrary: recs) (auto simp: bindE_Inr_iff)

lemma claim_inv:
  assumes "claim_outbox H now owner limit seconds db = Inr (recs, db')" "outbox_inv H db"
  shows "outbox_inv H db'"
proof -
  have inv: "db_inv H db" using assms(2) by (simp add: outbox_inv_def)
  show ?thesis using assms(1) inv
  proof (cases rule: claim_Inr)
    case (some qs)
    have "outbox_row_ok r" if r: "r \<in> set (leased owner u (ob_key ` set qs) (db_outbox db))" for r u
    proof -
      obtain q where q: "q \<in> set (db_outbox db)" "r = (if ob_key q \<in> ob_key ` set qs then take_lease owner u q else q)"
        using r unfolding leased_row by blast
      have okq: "outbox_row_ok q" using q(1) assms(2) by (simp add: outbox_inv_def list_all_iff)
      show ?thesis
      proof (cases "ob_key q \<in> ob_key ` set qs")
        case True
        then obtain p where p: "p \<in> set qs" "ob_key p = ob_key q" by auto
        then have "p = q" using due_row q(1) keys_distinct[OF inv] some(1) by (intro row_unique[of ob_key "db_outbox db"]) auto
        then have "leasable (isoformat (utc now)) q" using p(1) due_row some(1) by blast
        then show ?thesis using lease_row_ok[OF okq] q(2) True by simp
      qed (use okq q in simp)
    qed
    then show ?thesis
      unfolding some(3) using assms(2) by (intro outbox_inv_rows) (auto simp: list_all_iff)
  qed (use assms in simp)
qed

section \<open>Settling a record\<close>

definition holds :: "outbox_record \<Rightarrow> db \<Rightarrow> bool" where
  "holds rec db \<longleftrightarrow> (\<exists>r\<in>set (db_outbox db). holds_lease rec r)"

definition unpublished :: "db \<Rightarrow> outbox_key set" where
  "unpublished db = ob_key ` {r \<in> set (db_outbox db). ob_published_at r = None}"

definition held_row :: "outbox_record \<Rightarrow> (outbox_row \<Rightarrow> outbox_row) \<Rightarrow> outbox_row \<Rightarrow> outbox_row" where
  "held_row rec f r = (if holds_lease rec r then f r else r)"

definition rewrite_held :: "(outbox_row \<Rightarrow> outbox_row) \<Rightarrow> outbox_record \<Rightarrow> db \<Rightarrow> db" where
  "rewrite_held f rec db = db\<lparr>db_outbox := map (held_row rec f) (db_outbox db)\<rparr>"

lemma held_key:
  assumes "db_inv H db" "q \<in> set (db_outbox db)" "holds_lease rec q" "r \<in> set (db_outbox db)"
  shows "holds_lease rec r \<longleftrightarrow> ob_key r = record_key rec"
proof
  assume "ob_key r = record_key rec"
  then have "ob_key r = ob_key q" using assms(3) by (simp add: holds_lease_def)
  then have "r = q" by (rule row_unique[OF keys_distinct[OF assms(1)] assms(4,2)])
  then show "holds_lease rec r" using assms(3) by simp
qed (simp add: holds_lease_def)

lemma held_once:
  assumes "db_inv H db"
  shows "length (filter (holds_lease rec) (db_outbox db)) = 1 \<longleftrightarrow> holds rec db"
proof
  assume "holds rec db"
  then obtain r where r: "r \<in> set (db_outbox db)" "holds_lease rec r" by (auto simp: holds_def)
  have "holds_lease rec q \<longleftrightarrow> ob_key q = ob_key r" if "q \<in> set (db_outbox db)" for q
    using held_key[OF assms r that] r(2) by (simp add: holds_lease_def)
  then have "filter (holds_lease rec) (db_outbox db) = [r]"
    using filter_key[OF keys_distinct[OF assms] r(1)] by (simp cong: filter_cong)
  then show "length (filter (holds_lease rec) (db_outbox db)) = 1" by simp
next
  assume "length (filter (holds_lease rec) (db_outbox db)) = 1"
  then have "filter (holds_lease rec) (db_outbox db) \<noteq> []" by auto
  then show "holds rec db" by (auto simp: holds_def filter_empty_conv)
qed

lemma mark_eq:
  "db_inv H db \<Longrightarrow> mark_outbox_published now rec db =
     (holds rec db, rewrite_held (\<lambda>r. r\<lparr>ob_published_at := Some (isoformat (utc now)), ob_lease_owner := None,
        ob_lease_until := None, ob_last_error := None\<rparr>) rec db)"
  by (simp add: mark_outbox_published_def update_where_def rewrite_held_def held_row_def[abs_def] held_once[unfolded One_nat_def])

lemma release_eq:
  "db_inv H db \<Longrightarrow> release_outbox err rec db =
     (holds rec db, rewrite_held (\<lambda>r. r\<lparr>ob_lease_owner := None, ob_lease_until := None,
        ob_last_error := Some (take 2048 err)\<rparr>) rec db)"
  by (simp add: release_outbox_def update_where_def rewrite_held_def held_row_def[abs_def] held_once[unfolded One_nat_def])

text \<open>Without the lease nothing is written.\<close>

lemma rewrite_not_held: "\<not> holds rec db \<Longrightarrow> rewrite_held f rec db = db"
proof -
  assume "\<not> holds rec db"
  then have "map (held_row rec f) (db_outbox db) = db_outbox db"
    by (intro map_idI) (auto simp: holds_def held_row_def)
  then show ?thesis by (simp add: rewrite_held_def)
qed

lemma held_row_key: "(\<And>r. ob_key (f r) = ob_key r) \<Longrightarrow> ob_key (held_row rec f r) = ob_key r"
  by (simp add: held_row_def)

lemma rewrite_inv:
  assumes "outbox_inv H db" "\<And>r. ob_key (f r) = ob_key r"
    and "\<And>r. outbox_row_ok r \<Longrightarrow> outbox_row_ok (f r)"
  shows "outbox_inv H (rewrite_held f rec db)"
  unfolding rewrite_held_def
proof (rule outbox_inv_rows[OF assms(1)])
  show "map ob_key (map (held_row rec f) (db_outbox db)) = map ob_key (db_outbox db)"
    by (simp add: held_row_key[OF assms(2)])
  show "list_all outbox_row_ok (map (held_row rec f) (db_outbox db))"
    using assms(1,3) by (auto simp: outbox_inv_def list_all_iff held_row_def)
qed

lemma holds_rewrite: "holds other (rewrite_held f rec db) \<longleftrightarrow> (\<exists>r\<in>set (db_outbox db). holds_lease other (held_row rec f r))"
  by (simp add: holds_def rewrite_held_def)

lemma rewrite_drops: "(\<And>r. ob_lease_owner (f r) = None) \<Longrightarrow> \<not> holds rec (rewrite_held f rec db)"
  by (auto simp: holds_rewrite held_row_def) (simp add: holds_lease_def)

lemma rewrite_frame:
  assumes "\<And>r. ob_key (f r) = ob_key r" "record_key other \<noteq> record_key rec"
  shows "holds other (rewrite_held f rec db) = holds other db"
proof -
  have "holds_lease other (held_row rec f r) = holds_lease other r" for r
    using assms by (auto simp: holds_lease_def held_row_def)
  then show ?thesis by (simp add: holds_rewrite) (simp add: holds_def)
qed

lemma image_Collect_image: "k ` {y \<in> g ` S. P y} = (\<lambda>x. k (g x)) ` {x \<in> S. P (g x)}"
  by blast

lemma unpublished_rewrite:
  assumes "\<And>r. ob_key (f r) = ob_key r"
  shows "unpublished (rewrite_held f rec db) = ob_key ` {r \<in> set (db_outbox db). ob_published_at (held_row rec f r) = None}"
  unfolding unpublished_def rewrite_held_def by (simp add: image_Collect_image held_row_key[OF assms])

lemma rewrite_unpublished:
  assumes "\<And>r. ob_key (f r) = ob_key r" "\<And>r. ob_published_at (f r) = ob_published_at r"
  shows "unpublished (rewrite_held f rec db) = unpublished db"
proof -
  have "ob_published_at (held_row rec f r) = ob_published_at r" for r by (simp add: held_row_def assms(2))
  then show ?thesis unfolding unpublished_rewrite[OF assms(1)] by (simp add: unpublished_def)
qed

lemma rewrite_published:
  assumes "db_inv H db" "holds rec db" "\<And>r. ob_key (f r) = ob_key r" "\<And>r. ob_published_at (f r) \<noteq> None"
  shows "unpublished (rewrite_held f rec db) = unpublished db - {record_key rec}"
proof -
  obtain q where q: "q \<in> set (db_outbox db)" "holds_lease rec q" using assms(2) by (auto simp: holds_def)
  have held: "holds_lease rec r \<longleftrightarrow> ob_key r = record_key rec" if "r \<in> set (db_outbox db)" for r
    using held_key[OF assms(1) q that] .
  have "ob_published_at (held_row rec f r) = None \<longleftrightarrow> \<not> holds_lease rec r \<and> ob_published_at r = None" for r
    using assms(4)[of r] by (cases "holds_lease rec r") (simp_all add: held_row_def)
  then have "unpublished (rewrite_held f rec db) = ob_key ` {r \<in> set (db_outbox db). \<not> holds_lease rec r \<and> ob_published_at r = None}"
    unfolding unpublished_rewrite[OF assms(3)] by simp
  also have "\<dots> = unpublished db - {record_key rec}" unfolding unpublished_def by (auto simp: held)
  finally show ?thesis .
qed

lemma record_fields_upd [simp]:
  "ob_key (r\<lparr>ob_published_at := a\<rparr>) = ob_key r" "ob_key (r\<lparr>ob_lease_owner := b\<rparr>) = ob_key r"
  "ob_key (r\<lparr>ob_lease_until := b\<rparr>) = ob_key r" "ob_key (r\<lparr>ob_last_error := b\<rparr>) = ob_key r"
  by (simp_all add: ob_key_def)

lemma mark_law:
  assumes "mark_outbox_published now rec db = (b, db')" "outbox_inv H db"
  shows "outbox_inv H db' \<and> b = holds rec db \<and> \<not> holds rec db'
    \<and> unpublished db' = (if b then unpublished db - {record_key rec} else unpublished db)
    \<and> (\<forall>other. record_key other \<noteq> record_key rec \<longrightarrow> holds other db' = holds other db)"
proof -
  define f where "f = (\<lambda>r::outbox_row. r\<lparr>ob_published_at := Some (isoformat (utc now)), ob_lease_owner := None,
        ob_lease_until := None, ob_last_error := None\<rparr>)"
  have f: "\<And>r. ob_key (f r) = ob_key r" "\<And>r. ob_published_at (f r) \<noteq> None" "\<And>r. ob_lease_owner (f r) = None"
    "\<And>r. outbox_row_ok r \<Longrightarrow> outbox_row_ok (f r)"
    by (simp_all add: f_def outbox_row_ok_def)
  have inv: "db_inv H db" using assms(2) by (simp add: outbox_inv_def)
  have eq: "b = holds rec db" "db' = rewrite_held f rec db"
    using assms(1) mark_eq[OF inv] by (simp_all add: f_def)
  have "unpublished db' = (if b then unpublished db - {record_key rec} else unpublished db)"
    using rewrite_published[OF inv _ f(1,2)] rewrite_not_held[of rec db f] eq by auto
  then show ?thesis
    using rewrite_inv[OF assms(2) f(1,4)] rewrite_drops[OF f(3)] rewrite_frame[OF f(1)] eq by simp
qed

lemma release_law:
  assumes "release_outbox err rec db = (b, db')" "outbox_inv H db"
  shows "outbox_inv H db' \<and> b = holds rec db \<and> \<not> holds rec db' \<and> unpublished db' = unpublished db
    \<and> (\<forall>other. record_key other \<noteq> record_key rec \<longrightarrow> holds other db' = holds other db)"
proof -
  define f where "f = (\<lambda>r::outbox_row. r\<lparr>ob_lease_owner := None, ob_lease_until := None, ob_last_error := Some (take 2048 err)\<rparr>)"
  have f: "\<And>r. ob_key (f r) = ob_key r" "\<And>r. ob_published_at (f r) = ob_published_at r" "\<And>r. ob_lease_owner (f r) = None"
    "\<And>r. outbox_row_ok r \<Longrightarrow> outbox_row_ok (f r)"
    by (auto simp: f_def outbox_row_ok_def)
  have inv: "db_inv H db" using assms(2) by (simp add: outbox_inv_def)
  have eq: "b = holds rec db" "db' = rewrite_held f rec db"
    using assms(1) release_eq[OF inv] by (simp_all add: f_def)
  then show ?thesis
    using rewrite_inv[OF assms(2) f(1,4)] rewrite_drops[OF f(3)] rewrite_frame[OF f(1)] rewrite_unpublished[OF f(1,2)] by simp
qed

section \<open>Leases\<close>

lemma unpublished_leased [simp]: "unpublished (db\<lparr>db_outbox := leased owner u K (db_outbox db)\<rparr>) = unpublished db"
proof -
  define g where "g = (\<lambda>r. if ob_key r \<in> K then take_lease owner u r else r)"
  have "ob_key (g r) = ob_key r" "ob_published_at (g r) = ob_published_at r" for r
    by (simp add: g_def) (simp add: g_def take_lease_def)
  then have "unpublished (db\<lparr>db_outbox := map g (db_outbox db)\<rparr>) = unpublished db"
    by (simp add: unpublished_def image_Collect_image)
  then show ?thesis by (simp only: leased_def g_def)
qed

lemma record_key_set:
  assumes "mapE (record_of owner db) qs = Inr recs" "db_inv H db" "set qs \<subseteq> set (db_outbox db)"
  shows "record_key ` set recs = ob_key ` set qs"
  using arg_cong[OF records_keys[OF assms], of set] unfolding set_map .

lemma due_subset: "set (due_rows now limit db) \<subseteq> set (db_outbox db)"
  using due_row by blast

lemma claim_law:
  assumes "claim_outbox H now owner limit seconds db = Inr (recs, db')" "outbox_inv H db"
  shows "outbox_inv H db' \<and> unpublished db' = unpublished db \<and> distinct (map record_key recs)
    \<and> (\<forall>rec\<in>set recs. holds rec db' \<and> record_key rec \<in> unpublished db)
    \<and> (\<forall>old. holds old db \<and> record_key old \<in> record_key ` set recs \<longrightarrow> \<not> holds old db')"
proof -
  have inv: "db_inv H db" using assms(2) by (simp add: outbox_inv_def)
  show ?thesis using assms(1) inv
  proof (cases rule: claim_Inr)
    case (some qs)
    let ?u = "isoformat (utc (lease_end now seconds))"
    have sub: "set qs \<subseteq> set (db_outbox db)" using due_row some(1) by blast
    have keys: "map record_key recs = map ob_key qs" by (rule records_keys[OF some(2) inv sub])
    have K: "record_key ` set recs = ob_key ` set qs" by (rule record_key_set[OF some(2) inv sub])
    have "unpublished db' = unpublished db" unfolding some(3) by simp
    moreover have "distinct (map record_key recs)" unfolding keys some(1) by (rule due_distinct[OF inv])
    moreover have "holds rec db' \<and> record_key rec \<in> unpublished db" if rec: "rec \<in> set recs" for rec
    proof -
      obtain q where q: "q \<in> set qs" "record_of owner db q = Inr rec" using records_rows[OF some(2) rec] by blast
      note rec_q = record_of_Inr[OF q(2) inv] and lq = due_row[OF q(1)[unfolded some(1)]]
      have "take_lease owner ?u q \<in> set (db_outbox db')" using q(1) lq some(3) by (auto simp: leased_row)
      moreover have "holds_lease rec (take_lease owner ?u q)"
        using rec_q lq by (simp add: holds_lease_def leasable_def) (simp add: take_lease_def)
      ultimately show ?thesis using rec_q lq by (auto simp: holds_def unpublished_def leasable_def)
    qed
    moreover have "\<not> holds old db'" if old: "holds old db" "record_key old \<in> record_key ` set recs" for old
    proof
      assume "holds old db'"
      then obtain p where p: "p \<in> set (db_outbox db)"
        "holds_lease old (if ob_key p \<in> ob_key ` set qs then take_lease owner ?u p else p)"
        using leased_row unfolding holds_def some(3) by (auto simp: leased_row)
      then have "ob_key p = record_key old" by (simp add: holds_lease_def split: if_splits)
      then have a: "ob_attempts p + 1 = or_attempts old" using p(2) old(2) K by (simp add: holds_lease_def) (simp add: take_lease_def)
      obtain q where "q \<in> set (db_outbox db)" "holds_lease old q" using old(1) by (auto simp: holds_def)
      then have "holds_lease old p" using held_key[OF inv _ _ p(1)] \<open>ob_key p = record_key old\<close> by blast
      then show False using a by (simp add: holds_lease_def)
    qed
    ultimately show ?thesis using claim_inv[OF assms] by blast
  qed (use assms in \<open>simp add: outbox_inv_def\<close>)
qed

text \<open>A lease is exclusive until it ends: nobody, its own owner included, is handed the row before.\<close>

lemma leases_exclusive:
  assumes "claim_outbox H now owner limit seconds db = Inr (recs, db')" "outbox_inv H db"
    and "claim_outbox H later other limit' seconds' db' = Inr (recs', db'')"
    and "0 \<le> later" "later < lease_end now seconds"
  shows "record_key ` set recs \<inter> record_key ` set recs' = {}"
proof -
  have inv: "db_inv H db" "db_inv H db'" using assms(2) claim_inv[OF assms(1,2)] by (simp_all add: outbox_inv_def)
  show ?thesis using assms(3) inv(2)
  proof (cases rule: claim_Inr)
    case (some qs')
    have K': "record_key ` set recs' = ob_key ` set qs'"
      using record_key_set[OF some(2) inv(2)] due_subset some(1) by simp
    show ?thesis using assms(1) inv(1)
    proof (cases rule: claim_Inr)
      case first: (some qs)
      have K: "record_key ` set recs = ob_key ` set qs"
        using record_key_set[OF first(2) inv(1)] due_subset first(1) by simp
      have "isoformat (utc later) < isoformat (utc (lease_end now seconds))"
        using assms(4,5) first(7) by (rule isoformat_utc_less)
      then have busy: "\<not> leasable (isoformat (utc later)) (take_lease owner (isoformat (utc (lease_end now seconds))) p)" for p
        by (simp add: leasable_def take_lease_def not_le)
      have "ob_key q \<notin> ob_key ` set qs" if q: "q \<in> set qs'" for q
      proof -
        have "q \<in> set (leased owner (isoformat (utc (lease_end now seconds))) (ob_key ` set qs) (db_outbox db))"
          "leasable (isoformat (utc later)) q"
          using due_row[OF q[unfolded some(1)]] unfolding first(3) by simp_all
        then obtain p where "q = (if ob_key p \<in> ob_key ` set qs then take_lease owner (isoformat (utc (lease_end now seconds))) p else p)"
          "leasable (isoformat (utc later)) q" unfolding leased_row by blast
        then show ?thesis using busy by (auto split: if_splits)
      qed
      then have "k \<notin> ob_key ` set qs" if "k \<in> ob_key ` set qs'" for k using that by (elim imageE) simp
      then have "ob_key ` set qs \<inter> ob_key ` set qs' = {}" by (intro equals0I) (elim IntE, simp)
      then show ?thesis by (simp only: K K')
    qed simp
  qed simp
qed

text \<open>A claim with room for the backlog hands out every unpublished row whose lease is over.\<close>

lemma claim_succeeds:
  assumes "outbox_inv H db" "owner \<noteq> []" "1 \<le> seconds" "lease_end now seconds < 3652059 * day_us"
    and "0 < limit" "outbox_backlog db \<le> nat limit"
  shows "\<exists>recs db'. claim_outbox H now owner limit seconds db = Inr (recs, db')
    \<and> record_key ` set recs = ob_key ` {r \<in> set (db_outbox db). leasable (isoformat (utc now)) r}"
proof -
  let ?qs = "due_rows (isoformat (utc now)) limit db"
  have inv: "db_inv H db" using assms(1) by (simp add: outbox_inv_def)
  have "ok (mapE (record_of owner db) qs)" if "set qs \<subseteq> set (db_outbox db)" for qs
    using that assms(1) by (induction qs) (auto simp: outbox_inv_def list_all_iff outbox_row_ok_def ok_iff record_of_def)
  then obtain recs where r: "mapE (record_of owner db) ?qs = Inr recs" using due_row by (force simp: ok_iff subset_iff)
  have "record_key ` set recs = ob_key ` set ?qs"
    by (rule record_key_set[OF r inv due_subset])
  then show ?thesis using claim_eq[OF inv assms(2,5,3,4) refl] r due_all[OF assms(6)] by simp
qed

section \<open>Pruning\<close>

lemma numbered_unique: "(i, r) \<in> set (zip [0..<length xs] xs) \<longleftrightarrow> i < length xs \<and> r = xs ! i"
  by (auto simp: in_set_zip intro!: exI[of _ i])

lemma numbered_eq:
  "ir \<in> set (zip [0..<length xs] xs) \<Longrightarrow> jr \<in> set (zip [0..<length xs] xs) \<Longrightarrow> fst ir = fst jr \<Longrightarrow> ir = jr"
  by (cases ir; cases jr) (simp add: numbered_unique)

lemma map_snd_numbered: "map snd (zip [0..<length xs] xs) = xs"
  by simp

text \<open>Pruning deletes published rows only, of before the bound, at most as many as asked.\<close>

lemma prune_law:
  assumes "prune_outbox before limit db = Inr (n, db')" "outbox_inv H db"
  shows "outbox_inv H db' \<and> unpublished db' = unpublished db \<and> set (db_outbox db') \<subseteq> set (db_outbox db)
    \<and> int n \<le> max 0 limit
    \<and> (\<forall>r\<in>set (db_outbox db) - set (db_outbox db'). \<exists>p. ob_published_at r = Some p \<and> p < isoformat before)"
proof (cases "limit \<le> 0")
  case True
  then show ?thesis using assms by (auto simp: prune_outbox_def split: if_splits)
next
  case False
  define old where "old = (\<lambda>ir::nat \<times> outbox_row. case ob_published_at (snd ir) of None \<Rightarrow> False | Some p \<Rightarrow> p < isoformat before)"
  define numbered where "numbered = zip [0..<length (db_outbox db)] (db_outbox db)"
  define doomed where "doomed = take (nat limit) (sort_key (\<lambda>ir. the (ob_published_at (snd ir))) (filter old numbered))"
  define kept where "kept = map snd (filter (\<lambda>ir. fst ir \<notin> fst ` set doomed) numbered)"
  have res: "n = length doomed" "db' = db\<lparr>db_outbox := kept\<rparr>"
    using assms(1) False
    by (auto simp: prune_outbox_def kept_def doomed_def numbered_def old_def Let_def split: if_splits)
  have rows: "map snd numbered = db_outbox db" by (simp add: numbered_def)
  have dead: "old ir" if ir: "ir \<in> set numbered" "fst ir \<in> fst ` set doomed" for ir
  proof -
    obtain ir' where "ir' \<in> set doomed" "fst ir' = fst ir" using ir(2) by auto
    moreover from this(1) have "ir' \<in> set numbered" "old ir'"
      unfolding doomed_def by (auto dest: in_set_takeD)
    moreover have "ir' = ir"
      using ir(1) calculation unfolding numbered_def by (intro numbered_eq)
    ultimately show ?thesis by simp
  qed
  have sub: "set kept \<subseteq> set (db_outbox db)" unfolding kept_def rows[symmetric] by auto
  have gone: "\<exists>p. ob_published_at r = Some p \<and> p < isoformat before" if r: "r \<in> set (db_outbox db) - set kept" for r
  proof -
    obtain ir where "ir \<in> set numbered" "snd ir = r" using r rows by (metis DiffD1 imageE set_map)
    moreover from this r have "fst ir \<in> fst ` set doomed" by (force simp: kept_def)
    ultimately show ?thesis using dead[of ir] by (auto simp: old_def split: option.splits)
  qed
  have inv: "db_inv H db" using assms(2) by (simp add: outbox_inv_def)
  have "distinct (map ob_key (map snd numbered))" using keys_distinct[OF inv] by (simp only: rows)
  then have "distinct (map ob_key kept)" unfolding kept_def by (simp add: distinct_map_filter comp_def)
  then have "outbox_linked db'"
    using inv sub by (auto simp: res db_inv_def outbox_linked_def ob_key_def[abs_def])
  then have "db_inv H db'"
    using inv by (simp add: res db_inv_def twins_def stream_def stream_rows_def keys_unique_def)
  then have "outbox_inv H db'" using assms(2) sub by (auto simp: res outbox_inv_def list_all_iff)
  moreover have "unpublished db' = unpublished db"
  proof -
    have "{r \<in> set kept. ob_published_at r = None} = {r \<in> set (db_outbox db). ob_published_at r = None}"
      using sub gone by force
    then show ?thesis by (simp add: unpublished_def res)
  qed
  moreover have "int n \<le> max 0 limit" using False by (simp add: res doomed_def)
  ultimately show ?thesis using gone sub by (simp add: res)
qed

section \<open>The contract of the outbox port\<close>

text \<open>
  What the relay relies on: a claim hands out records whose leases it holds, of unpublished rows,
  with different keys, and takes the lease from whoever held it; settling a record succeeds exactly
  while its lease is held and leaves the leases of the other keys alone.
\<close>

locale outbox_store =
  fixes store_inv :: "'s \<Rightarrow> bool"
    and pending :: "'s \<Rightarrow> outbox_key set"
    and has_lease :: "outbox_record \<Rightarrow> 's \<Rightarrow> bool"
    and claim :: "string \<Rightarrow> int \<Rightarrow> int \<Rightarrow> 's \<Rightarrow> (outbox_record list \<times> 's) result"
    and mark :: "outbox_record \<Rightarrow> 's \<Rightarrow> bool \<times> 's"
    and release :: "string \<Rightarrow> outbox_record \<Rightarrow> 's \<Rightarrow> bool \<times> 's"
  assumes claim_leases: "claim owner limit seconds s = Inr (recs, s') \<Longrightarrow> store_inv s \<Longrightarrow>
      store_inv s' \<and> pending s' = pending s \<and> distinct (map record_key recs)
      \<and> (\<forall>rec\<in>set recs. has_lease rec s' \<and> record_key rec \<in> pending s)
      \<and> (\<forall>old. has_lease old s \<and> record_key old \<in> record_key ` set recs \<longrightarrow> \<not> has_lease old s')"
    and mark_settles: "mark rec s = (b, s') \<Longrightarrow> store_inv s \<Longrightarrow>
      store_inv s' \<and> b = has_lease rec s \<and> \<not> has_lease rec s'
      \<and> pending s' = (if b then pending s - {record_key rec} else pending s)
      \<and> (\<forall>other. record_key other \<noteq> record_key rec \<longrightarrow> has_lease other s' = has_lease other s)"
    and release_settles: "release err rec s = (b, s') \<Longrightarrow> store_inv s \<Longrightarrow>
      store_inv s' \<and> b = has_lease rec s \<and> \<not> has_lease rec s' \<and> pending s' = pending s
      \<and> (\<forall>other. record_key other \<noteq> record_key rec \<longrightarrow> has_lease other s' = has_lease other s)"
begin

text \<open>A claimant whose lease went to another cannot settle its record.\<close>

lemma fenced:
  assumes "claim owner limit seconds s = Inr (recs, s')" "store_inv s" "has_lease old s"
    and "record_key old \<in> record_key ` set recs"
  shows "fst (mark old s') = False \<and> fst (release err old s') = False"
proof -
  have "store_inv s'" "\<not> has_lease old s'" using claim_leases[OF assms(1,2)] assms(3,4) by blast+
  then show ?thesis
    using mark_settles[of old s'] release_settles[of err old s']
    by (cases "mark old s'"; cases "release err old s'") auto
qed

text \<open>The relay settles every record it holds the lease of, one way or the other.\<close>

lemma relay_all:
  assumes "distinct (map record_key recs)" "store_inv s" "\<forall>rec\<in>set recs. has_lease rec s"
  shows "\<exists>s'. relay_records mark release publish recs (p, f, s) =
      (None, p + length (filter (\<lambda>rec. publish (or_event rec) = None) recs),
         f + length (filter (\<lambda>rec. publish (or_event rec) \<noteq> None) recs), s')
    \<and> store_inv s' \<and> pending s' = pending s - record_key ` {rec \<in> set recs. publish (or_event rec) = None}
    \<and> (\<forall>rec\<in>set recs. \<not> has_lease rec s')
    \<and> (\<forall>other. record_key other \<notin> record_key ` set recs \<longrightarrow> has_lease other s' = has_lease other s)"
  using assms
proof (induction recs arbitrary: p f s)
  case (Cons rec recs)
  obtain b s1 where step: "(case publish (or_event rec) of None \<Rightarrow> mark rec s | Some exc \<Rightarrow> release exc rec s) = (b, s1)"
    by (cases "case publish (or_event rec) of None \<Rightarrow> mark rec s | Some exc \<Rightarrow> release exc rec s")
  have one: "store_inv s1" "b" "\<not> has_lease rec s1"
    "pending s1 = (if publish (or_event rec) = None then pending s - {record_key rec} else pending s)"
    "\<And>other. record_key other \<noteq> record_key rec \<Longrightarrow> has_lease other s1 = has_lease other s"
    using step Cons.prems mark_settles[of rec s b s1] release_settles[of _ rec s b s1]
    by (auto split: option.splits)
  have fresh: "record_key rec \<notin> record_key ` set recs" using Cons.prems(1) by simp
  define p' f' where "p' = (if publish (or_event rec) = None then p + 1 else p)"
    and "f' = (if publish (or_event rec) = None then f else f + 1)"
  have lease: "\<forall>r\<in>set recs. has_lease r s1" using Cons.prems(3) one(5) fresh by (auto simp: image_iff)
  have "distinct (map record_key recs)" using Cons.prems(1) by simp
  from Cons.IH[OF this one(1) lease, of p' f'] obtain s' where
    s': "relay_records mark release publish recs (p', f', s1) =
      (None, p' + length (filter (\<lambda>rec. publish (or_event rec) = None) recs),
         f' + length (filter (\<lambda>rec. publish (or_event rec) \<noteq> None) recs), s')"
    "store_inv s'" "pending s' = pending s1 - record_key ` {rec \<in> set recs. publish (or_event rec) = None}"
    "\<forall>r\<in>set recs. \<not> has_lease r s'"
    "\<forall>other. record_key other \<notin> record_key ` set recs \<longrightarrow> has_lease other s' = has_lease other s1"
    by blast
  have "relay_records mark release publish (rec # recs) (p, f, s) = relay_records mark release publish recs (p', f', s1)"
    using step one(2) by (cases "publish (or_event rec)") (auto simp: p'_def f'_def)
  moreover have "pending s' = pending s - record_key ` {r \<in> set (rec # recs). publish (or_event r) = None}"
    unfolding s'(3) one(4) by auto
  ultimately show ?case using s' one(3,5) fresh by (intro exI[of _ s']) (auto simp: p'_def f'_def)
qed simp

text \<open>The batch it reports accounts for every record of the claim, and nothing else is settled.\<close>

lemma drain_accounts:
  assumes "claim owner limit seconds s = Inr (recs, s1)" "store_inv s"
  shows "\<exists>s'. drain claim mark release publish owner limit seconds s =
      (Inr \<lparr>rb_claimed = length recs, rb_published = length (filter (\<lambda>rec. publish (or_event rec) = None) recs),
            rb_failed = length (filter (\<lambda>rec. publish (or_event rec) \<noteq> None) recs)\<rparr>, s')
    \<and> store_inv s' \<and> pending s' = pending s - record_key ` {rec \<in> set recs. publish (or_event rec) = None}
    \<and> (\<forall>rec\<in>set recs. \<not> has_lease rec s')"
proof -
  have c: "store_inv s1" "pending s1 = pending s" "distinct (map record_key recs)" "\<forall>rec\<in>set recs. has_lease rec s1"
    using claim_leases[OF assms] by blast+
  show ?thesis
    using relay_all[OF c(3,1,4), of publish 0 0] assms(1) c(2) by (auto simp: drain_def)
qed

end

interpretation sqlite_outbox: outbox_store "outbox_inv H" unpublished holds "claim_outbox H now"
    "\<lambda>rec. mark_outbox_published (clock rec) rec" release_outbox for H now clock
proof unfold_locales
  fix owner limit seconds s recs s' rec b err
  assume inv: "outbox_inv H s"
  show "outbox_inv H s' \<and> unpublished s' = unpublished s \<and> distinct (map record_key recs)
      \<and> (\<forall>rec\<in>set recs. holds rec s' \<and> record_key rec \<in> unpublished s)
      \<and> (\<forall>old. holds old s \<and> record_key old \<in> record_key ` set recs \<longrightarrow> \<not> holds old s')"
    if "claim_outbox H now owner limit seconds s = Inr (recs, s')" using claim_law[OF that inv] .
  show "outbox_inv H s' \<and> b = holds rec s \<and> \<not> holds rec s'
      \<and> unpublished s' = (if b then unpublished s - {record_key rec} else unpublished s)
      \<and> (\<forall>other. record_key other \<noteq> record_key rec \<longrightarrow> holds other s' = holds other s)"
    if "mark_outbox_published (clock rec) rec s = (b, s')" using mark_law[OF that inv] .
  show "outbox_inv H s' \<and> b = holds rec s \<and> \<not> holds rec s' \<and> unpublished s' = unpublished s
      \<and> (\<forall>other. record_key other \<noteq> record_key rec \<longrightarrow> holds other s' = holds other s)"
    if "release_outbox err rec s = (b, s')" using release_law[OF that inv] .
qed

section \<open>Any interleaving of writers and relays\<close>

text \<open>
  The world of the outbox: the ledger, the records ever handed out, and those marked as published
  with success, in order. Writers append, relays claim, and every record that was handed out can be
  marked or released at any time, also after its lease went to another.
\<close>

record world =
  w_db :: db
  w_handed :: "outbox_record list"
  w_done :: "outbox_record list"

inductive delivery :: "(string \<Rightarrow> string) \<Rightarrow> world \<Rightarrow> world \<Rightarrow> bool" for H where
  deliver_refl: "delivery H w w"
| deliver_append: "delivery H w v \<Longrightarrow> append H now ev n (w_db v) = Inr (out, db') \<Longrightarrow> admissible now ev \<Longrightarrow>
    delivery H w (v\<lparr>w_db := db'\<rparr>)"
| deliver_claim: "delivery H w v \<Longrightarrow> claim_outbox H now owner limit seconds (w_db v) = Inr (recs, db') \<Longrightarrow>
    delivery H w (v\<lparr>w_db := db', w_handed := w_handed v @ recs\<rparr>)"
| deliver_mark: "delivery H w v \<Longrightarrow> rec \<in> set (w_handed v) \<Longrightarrow> mark_outbox_published now rec (w_db v) = (b, db') \<Longrightarrow>
    delivery H w (v\<lparr>w_db := db', w_done := w_done v @ (if b then [rec] else [])\<rparr>)"
| deliver_release: "delivery H w v \<Longrightarrow> rec \<in> set (w_handed v) \<Longrightarrow> release_outbox err rec (w_db v) = (b, db') \<Longrightarrow>
    delivery H w (v\<lparr>w_db := db'\<rparr>)"
| deliver_prune: "delivery H w v \<Longrightarrow> prune_outbox before limit (w_db v) = Inr (n, db') \<Longrightarrow>
    delivery H w (v\<lparr>w_db := db'\<rparr>)"

definition settled :: "outbox_key \<Rightarrow> db \<Rightarrow> bool" where
  "settled key db \<longleftrightarrow> key \<notin> unpublished db
     \<and> (\<exists>e\<in>set (db_events db). er_twin_id e = fst key \<and> er_sequence e = fst (snd key))"

definition world_ok :: "(string \<Rightarrow> string) \<Rightarrow> world \<Rightarrow> bool" where
  "world_ok H w \<longleftrightarrow> outbox_inv H (w_db w) \<and> distinct (map record_key (w_done w))
     \<and> (\<forall>rec\<in>set (w_done w). settled (record_key rec) (w_db w))"

lemma settled_mono:
  assumes "settled key db" "unpublished db' \<subseteq> unpublished db" "set (db_events db) \<subseteq> set (db_events db')"
  shows "settled key db'"
  using assms by (auto simp: settled_def)

lemma append_unpublished:
  assumes "append H now ev n db = Inr (out, db')" "db_inv H db" "settled key db"
  shows "settled key db'"
proof (cases "duplicate_row db ev")
  case None
  obtain row prev where r: "seal H ev (n + 1) prev (utc now) = Inr out" "head db (twin_id ev) = (n, prev)"
    "db_events db' = db_events db @ [row]" "db_outbox db' = db_outbox db @ [new_outbox out]"
    by (rule append_fresh_tables[OF assms(1) None])
  obtain e where e: "e \<in> set (db_events db)" "er_twin_id e = fst key" "er_sequence e = fst (snd key)"
    using assms(3) by (auto simp: settled_def)
  have "ob_key (new_outbox out) \<noteq> key"
    using sequence_bound[OF assms(2) e(1)] e(2,3) r(2) seal_fields[OF r(1)] by (auto simp: new_outbox_def ob_key_def)
  then have "key \<notin> unpublished db'"
    using assms(3) r(4) by (auto simp: settled_def unpublished_def)
  then show ?thesis using e r(3) by (auto simp: settled_def)
qed (use append_retry_unchanged[OF assms(1)] assms(3) in simp)

lemma claim_events: "claim_outbox H now owner limit seconds db = Inr (recs, db') \<Longrightarrow> db_inv H db \<Longrightarrow> db_events db' = db_events db"
  by (erule claim_Inr) auto

lemma holds_pending: "holds rec db \<Longrightarrow> db_inv H db \<Longrightarrow>
  record_key rec \<in> unpublished db \<and> (\<exists>e\<in>set (db_events db). er_twin_id e = fst (record_key rec) \<and> er_sequence e = fst (snd (record_key rec)))"
proof -
  assume "holds rec db" and inv: "db_inv H db"
  then obtain r where r: "r \<in> set (db_outbox db)" "ob_key r = record_key rec" "ob_published_at r = None"
    by (auto simp: holds_def holds_lease_def)
  obtain e where "e \<in> set (db_events db)" "er_twin_id e = ob_twin_id r" "er_sequence e = ob_sequence r"
    using r(1) inv by (auto simp: db_inv_def outbox_linked_def)
  moreover have "ob_twin_id r = fst (record_key rec)" "ob_sequence r = fst (snd (record_key rec))"
    unfolding r(2)[symmetric] by (simp_all add: ob_key_def)
  moreover have "record_key rec \<in> unpublished db" using r by (force simp: unpublished_def)
  ultimately show ?thesis by auto
qed

text \<open>Whatever happens, each key is marked published with success once at most.\<close>

lemma delivery_world_ok: "delivery H w v \<Longrightarrow> world_ok H w \<Longrightarrow> world_ok H v"
proof (induction rule: delivery.induct)
  case (deliver_append w v now ev n out db')
  then have inv: "outbox_inv H (w_db v)" "db_inv H (w_db v)" by (auto simp: world_ok_def outbox_inv_def)
  show ?case
    using deliver_append append_outbox_inv[OF deliver_append.hyps(2) inv(1) deliver_append.hyps(3)]
      append_unpublished[OF deliver_append.hyps(2) inv(2)] by (simp add: world_ok_def)
next
  case (deliver_claim w v now owner limit seconds recs db')
  then have inv: "outbox_inv H (w_db v)" "db_inv H (w_db v)" by (auto simp: world_ok_def outbox_inv_def)
  have c: "outbox_inv H db'" "unpublished db' = unpublished (w_db v)" using claim_law[OF deliver_claim.hyps(2) inv(1)] by blast+
  have e: "db_events db' = db_events (w_db v)" by (rule claim_events[OF deliver_claim.hyps(2) inv(2)])
  have "settled key (w_db v) \<Longrightarrow> settled key db'" for key by (simp add: settled_def c(2) e)
  then show ?case using deliver_claim c(1) by (simp add: world_ok_def)
next
  case (deliver_mark w v rec now b db')
  then have inv: "outbox_inv H (w_db v)" "db_inv H (w_db v)" by (auto simp: world_ok_def outbox_inv_def)
  have m: "outbox_inv H db'" "b = holds rec (w_db v)"
    "unpublished db' = (if b then unpublished (w_db v) - {record_key rec} else unpublished (w_db v))"
    using mark_law[OF deliver_mark.hyps(3) inv(1)] by blast+
  have e: "db_events db' = db_events (w_db v)"
    using deliver_mark.hyps(3) mark_eq[OF inv(2)] by (auto simp: rewrite_held_def)
  have old: "settled key (w_db v) \<Longrightarrow> settled key db'" for key
    using m(3) e by (auto simp: settled_def split: if_splits)
  show ?case
  proof (cases b)
    case True
    have "holds rec (w_db v)" using m(2) True by simp
    note h = holds_pending[OF this inv(2)]
    have "settled (record_key rec) db'" using h m(3) True e by (simp add: settled_def)
    moreover have "record_key rec \<notin> record_key ` set (w_done v)"
      using h deliver_mark by (auto simp: world_ok_def settled_def)
    ultimately show ?thesis using deliver_mark m(1) old True by (auto simp: world_ok_def)
  qed (use deliver_mark m(1) old in \<open>simp add: world_ok_def\<close>)
next
  case (deliver_release w v rec err b db')
  then have inv: "outbox_inv H (w_db v)" "db_inv H (w_db v)" by (auto simp: world_ok_def outbox_inv_def)
  have m: "outbox_inv H db'" "unpublished db' = unpublished (w_db v)"
    using release_law[OF deliver_release.hyps(3) inv(1)] by blast+
  have e: "db_events db' = db_events (w_db v)"
    using deliver_release.hyps(3) release_eq[OF inv(2)] by (auto simp: rewrite_held_def)
  have "settled key (w_db v) \<Longrightarrow> settled key db'" for key by (simp add: settled_def m(2) e)
  then show ?case using deliver_release m(1) by (simp add: world_ok_def)
next
  case (deliver_prune w v before limit n db')
  then have inv: "outbox_inv H (w_db v)" by (simp add: world_ok_def)
  have m: "outbox_inv H db'" "unpublished db' = unpublished (w_db v)"
    using prune_law[OF deliver_prune.hyps(2) inv] by blast+
  have e: "db_events db' = db_events (w_db v)"
    using deliver_prune.hyps(2) by (auto simp: prune_outbox_def Let_def split: if_splits)
  have "settled key (w_db v) \<Longrightarrow> settled key db'" for key by (simp add: settled_def m(2) e)
  then show ?case using deliver_prune m(1) by (simp add: world_ok_def)
qed

end
