(* ===== verification/K2_Encoding.thy ===== *)
theory K2_Encoding
  imports K2_Json
begin

text \<open>
  Bytes on the wire: UTF-8 for the code points the model has, and the URL-safe base64 without
  padding of \<open>src/src/argo_dt/sync.py\<close> (\<open>_b64url_encode\<close>, \<open>_b64url_decode\<close>). A byte string is a list of
  characters, which are the 256 byte values. Shown: both encodings are read back, and the decoder
  accepts exactly what the encoder writes, so a token has one spelling.
\<close>

section \<open>UTF-8\<close>

abbreviation byte :: "char \<Rightarrow> nat" where
  "byte c \<equiv> of_char c"

fun utf8_encode :: "string \<Rightarrow> string" where
  "utf8_encode [] = []"
| "utf8_encode (c # s) =
     (if byte c < 128 then c # utf8_encode s
      else char_of (192 + byte c div 64) # char_of (128 + byte c mod 64) # utf8_encode s)"

text \<open>Sequences for code points from 256 up, and ill-formed ones, are not read.\<close>

fun utf8_decode :: "string \<Rightarrow> string option" where
  "utf8_decode [] = Some []"
| "utf8_decode [c] = (if byte c < 128 then Some [c] else None)"
| "utf8_decode (c # d # s) =
     (if byte c < 128 then map_option ((#) c) (utf8_decode (d # s))
      else if (byte c = 194 \<or> byte c = 195) \<and> 128 \<le> byte d \<and> byte d < 192
           then map_option ((#) (char_of ((byte c - 192) * 64 + (byte d - 128)))) (utf8_decode s)
      else None)"

lemma byte_less [simp]: "byte c < 256"
  by (metis of_char_of nat_of_char_less_256)

lemma utf8_decode_ascii: "byte c < 128 \<Longrightarrow> utf8_decode (c # s) = map_option ((#) c) (utf8_decode s)"
  by (cases s) simp_all

lemma utf8_roundtrip [simp]: "utf8_decode (utf8_encode s) = Some s"
proof (induction s)
  case (Cons c s)
  show ?case
  proof (cases "byte c < 128")
    case False
    define n where "n = byte c"
    have n: "128 \<le> n" "n < 256" "char_of n = c" using False by (simp_all add: n_def)
    have "n div 64 < 4" using n(2) by (simp add: less_mult_imp_div_less)
    moreover have "2 \<le> n div 64" using n(1) by (simp add: div_le_mono[of 128 n 64, simplified])
    ultimately have d: "192 + n div 64 = 194 \<or> 192 + n div 64 = 195" by linarith
    define u v where "u = char_of (192 + n div 64)" and "v = char_of (128 + n mod 64)"
    have b: "byte u = 192 + n div 64" "byte v = 128 + n mod 64"
      using n(2) d by (auto simp: u_def v_def of_char_of)
    have "utf8_decode (u # v # utf8_encode s) = Some (char_of (n div 64 * 64 + n mod 64) # s)"
      using b d Cons by simp
    moreover have "utf8_encode (c # s) = u # v # utf8_encode s" using False by (simp add: u_def v_def n_def)
    ultimately show ?thesis using n(3) by simp
  qed (simp add: Cons utf8_decode_ascii)
qed simp

lemma utf8_encode_inject: "utf8_encode s = utf8_encode t \<longleftrightarrow> s = t"
  by (metis utf8_roundtrip option.inject)

section \<open>base64url\<close>

definition b64_char :: "nat \<Rightarrow> char" where
  "b64_char n =
     (if n < 26 then char_of (65 + n) else if n < 52 then char_of (97 + (n - 26))
      else if n < 62 then char_of (48 + (n - 52)) else if n = 62 then CHR ''-'' else CHR ''_'')"

text \<open>The decoder also reads the standard alphabet's \<open>+\<close> and \<open>/\<close>, as \<open>altchars\<close> translates only.\<close>

definition b64_value :: "char \<Rightarrow> nat option" where
  "b64_value c =
     (let n = byte c in
      if 65 \<le> n \<and> n \<le> 90 then Some (n - 65) else if 97 \<le> n \<and> n \<le> 122 then Some (n - 97 + 26)
      else if 48 \<le> n \<and> n \<le> 57 then Some (n - 48 + 52)
      else if c = CHR ''-'' \<or> c = CHR ''+'' then Some 62
      else if c = CHR ''_'' \<or> c = CHR ''/'' then Some 63 else None)"

fun b64url_encode :: "string \<Rightarrow> string" where
  "b64url_encode [] = []"
| "b64url_encode [a] = [b64_char (byte a div 4), b64_char (byte a mod 4 * 16)]"
| "b64url_encode [a, b] =
     [b64_char (byte a div 4), b64_char (byte a mod 4 * 16 + byte b div 16), b64_char (byte b mod 16 * 4)]"
| "b64url_encode (a # b # c # s) =
     b64_char (byte a div 4) # b64_char (byte a mod 4 * 16 + byte b div 16)
       # b64_char (byte b mod 16 * 4 + byte c div 64) # b64_char (byte c mod 64) # b64url_encode s"

text \<open>\<open>base64.b64decode\<close> of the digits: a single digit in the last group cannot be padded.\<close>

fun b64_bytes :: "nat list \<Rightarrow> string option" where
  "b64_bytes [] = Some []"
| "b64_bytes [w] = None"
| "b64_bytes [w, x] = Some [char_of (w * 4 + x div 16)]"
| "b64_bytes [w, x, y] = Some [char_of (w * 4 + x div 16), char_of (x mod 16 * 16 + y div 4)]"
| "b64_bytes (w # x # y # z # s) =
     map_option (\<lambda>r. char_of (w * 4 + x div 16) # char_of (x mod 16 * 16 + y div 4) # char_of (y mod 4 * 64 + z) # r)
       (b64_bytes s)"

fun b64_values :: "string \<Rightarrow> nat list option" where
  "b64_values [] = Some []"
| "b64_values (c # s) =
     (case b64_value c of None \<Rightarrow> None
      | Some n \<Rightarrow> (case b64_values s of None \<Rightarrow> None | Some ns \<Rightarrow> Some (n # ns)))"

definition b64url_decode :: "string \<Rightarrow> string result" where
  "b64url_decode value =
     (if value = [] \<or> CHR ''='' \<in> set value
      then Inl (ResumeCursorRejected ''resume cursor encoding is invalid'')
      else (case Option.bind (b64_values value) b64_bytes of
        None \<Rightarrow> Inl (ResumeCursorRejected ''resume cursor encoding is invalid'')
      | Some decoded \<Rightarrow>
          if b64url_encode decoded \<noteq> value
          then Inl (ResumeCursorRejected ''resume cursor encoding is not canonical'')
          else Inr decoded))"

lemma b64_value_char [simp]: "n < 64 \<Longrightarrow> b64_value (b64_char n) = Some n"
  by (auto simp: b64_value_def b64_char_def Let_def of_char_of)

lemma b64_char_not_special: "b64_char n \<noteq> CHR ''='' \<and> b64_char n \<noteq> CHR ''.''"
proof -
  have "byte (b64_char n) \<noteq> 61 \<and> byte (b64_char n) \<noteq> 46" by (auto simp: b64_char_def of_char_of)
  then show ?thesis by auto
qed

lemma b64_encode_chars: "c \<in> set (b64url_encode s) \<Longrightarrow> c \<noteq> CHR ''='' \<and> c \<noteq> CHR ''.''"
  by (induction s rule: b64url_encode.induct) (auto simp: b64_char_not_special)

text \<open>The digits of the encoding, and their bytes.\<close>

fun b64_digits :: "string \<Rightarrow> nat list" where
  "b64_digits [] = []"
| "b64_digits [a] = [byte a div 4, byte a mod 4 * 16]"
| "b64_digits [a, b] = [byte a div 4, byte a mod 4 * 16 + byte b div 16, byte b mod 16 * 4]"
| "b64_digits (a # b # c # s) =
     byte a div 4 # (byte a mod 4 * 16 + byte b div 16) # (byte b mod 16 * 4 + byte c div 64) # (byte c mod 64)
       # b64_digits s"

lemma b64_encode_digits: "b64url_encode s = map b64_char (b64_digits s)"
  by (induction s rule: b64url_encode.induct) simp_all

lemma div_bound: "byte a div 4 < 64" "byte b div 16 < 16" "byte c div 64 < 4"
  using byte_less[of a] byte_less[of b] byte_less[of c] by (simp_all add: less_mult_imp_div_less)

lemma digit_bound:
  "byte a mod 4 * 16 + byte b div 16 < 64" "byte b mod 16 * 4 + byte c div 64 < 64" "byte a mod 4 * 16 < 64" "byte b mod 16 * 4 < 64"
proof -
  have "byte a mod 4 \<le> 3" "byte b mod 16 \<le> 15" using mod_less_divisor[of 4 "byte a"] mod_less_divisor[of 16 "byte b"] by linarith+
  then show "byte a mod 4 * 16 + byte b div 16 < 64" "byte b mod 16 * 4 + byte c div 64 < 64"
    "byte a mod 4 * 16 < 64" "byte b mod 16 * 4 < 64"
    using div_bound(2)[of b] div_bound(3)[of c] by linarith+
qed

lemma b64_digits_bound: "n \<in> set (b64_digits s) \<Longrightarrow> n < 64"
  by (induction s rule: b64_digits.induct) (auto simp: div_bound digit_bound)

lemma b64_values_chars: "list_all (\<lambda>n. n < 64) ns \<Longrightarrow> b64_values (map b64_char ns) = Some ns"
  by (induction ns) auto

lemma regroup:
  "byte b div 16 div 16 = 0" "byte c div 64 div 4 = 0" "byte b div 16 mod 16 = byte b div 16" "byte c div 64 mod 4 = byte c div 64"
  using div_bound(2)[of b] div_bound(3)[of c] by (simp_all add: div_mult2_eq[symmetric])

lemma b64_bytes_digits: "b64_bytes (b64_digits s) = Some s"
  by (induction s rule: b64_digits.induct) (simp_all add: regroup)

lemma b64_encode_Nil [simp]: "b64url_encode s = [] \<longleftrightarrow> s = []"
  by (cases s rule: b64url_encode.cases) simp_all

theorem b64url_roundtrip: "s \<noteq> [] \<Longrightarrow> b64url_decode (b64url_encode s) = Inr s"
proof -
  assume "s \<noteq> []"
  moreover have "CHR ''='' \<notin> set (b64url_encode s)" using b64_encode_chars by blast
  moreover have "b64_values (b64url_encode s) = Some (b64_digits s)"
    unfolding b64_encode_digits by (intro b64_values_chars) (auto simp: list_all_iff b64_digits_bound)
  ultimately show ?thesis by (simp add: b64url_decode_def b64_bytes_digits)
qed

lemma b64url_decode_Inr: "b64url_decode v = Inr s \<longleftrightarrow> s \<noteq> [] \<and> v = b64url_encode s"
proof
  assume "b64url_decode v = Inr s"
  then have "b64url_encode s = v" "v \<noteq> []" by (auto simp: b64url_decode_def split: if_splits option.splits)
  then show "s \<noteq> [] \<and> v = b64url_encode s" by auto
qed (use b64url_roundtrip in auto)

lemma b64url_decode_Inl: "b64url_decode v = Inl e \<Longrightarrow> \<exists>m. e = ResumeCursorRejected m"
  by (auto simp: b64url_decode_def split: if_splits option.splits)

lemma b64url_encode_inject: "b64url_encode s = b64url_encode t \<longleftrightarrow> s = t"
  by (metis b64_encode_Nil b64url_roundtrip sum.inject(2))

end
