(* ===== verification/K2_Cursor.thy ===== *)
theory K2_Cursor
  imports K2_Encoding K2_Types "HOL-Library.Word"
begin

text \<open>
  Resume cursors of \<open>src/src/argo_dt/sync.py\<close>: stream positions, the HMAC cursor signer and the
  rotating key ring. Shown: a cursor is read back as it was issued while it is fresh, and binds to
  its position; a token that verifies carries the signer's own code, is for the twin asked for and
  is neither expired nor from the future; binding to another event hash needs a collision of the
  code; a ring holds at most eight keys, keeps accepting what a retained key signed and rejects
  what a removed key signed. The locale \<open>cursor_codec\<close> is the protocol \<open>CursorCodec\<close>.

  \<open>mac key message\<close> stands for HMAC-SHA256, a digest of 256 bits: nothing depends on how it is
  computed; where it matters that two keys give different codes, that is a hypothesis. The clock
  reads UTC, as \<open>utc_now\<close> does.
\<close>

section \<open>Positions\<close>

definition is_lower_hex :: "char \<Rightarrow> bool" where
  "is_lower_hex c \<longleftrightarrow> is_digit c \<or> c \<in> {CHR ''a'', CHR ''b'', CHR ''c'', CHR ''d'', CHR ''e'', CHR ''f''}"

definition hash_pattern :: "string \<Rightarrow> bool" where
  "hash_pattern s \<longleftrightarrow> take 7 s = ''sha256:'' \<and> length s = 71 \<and> list_all is_lower_hex (drop 7 s)"

definition is_token_char :: "char \<Rightarrow> bool" where
  "is_token_char c \<longleftrightarrow> (let n = byte c in (65 \<le> n \<and> n \<le> 90) \<or> (97 \<le> n \<and> n \<le> 122) \<or> is_digit c
     \<or> c = CHR ''_'' \<or> c = CHR ''-'')"

definition subject_token :: "string \<Rightarrow> bool" where
  "subject_token s \<longleftrightarrow> 1 \<le> length s \<and> length s \<le> 64 \<and> list_all is_token_char s"

record stream_position =
  sp_twin_id :: string
  sp_sequence :: int
  sp_event_hash :: string

definition rejected :: "string \<Rightarrow> 'a result" where
  "rejected m = Inl (ResumeCursorRejected m)"

definition make_position :: "string \<Rightarrow> int \<Rightarrow> string \<Rightarrow> stream_position result" where
  "make_position twin n h =
     (if twin = [] then rejected ''resume cursor twin_id is required''
      else if n < 0 then rejected ''resume cursor sequence cannot be negative''
      else if n = 0 \<and> h \<noteq> [] then rejected ''stream origin cannot carry an event hash''
      else if 0 < n \<and> \<not> hash_pattern h then rejected ''resume cursor event hash is invalid''
      else Inr \<lparr>sp_twin_id = twin, sp_sequence = n, sp_event_hash = h\<rparr>)"

record decoded_cursor =
  dc_twin_id :: string
  dc_sequence :: int
  dc_chain_tag :: string
  dc_issued_at :: datetime
  dc_signing_key_id :: string

section \<open>The signer\<close>

type_synonym mac = "string \<Rightarrow> string \<Rightarrow> 256 word"

text \<open>\<open>.digest()\<close>: the 32 bytes of a 256-bit digest, most significant first.\<close>

definition digest_bytes :: "256 word \<Rightarrow> string" where
  "digest_bytes w = map (\<lambda>i. char_of (unat w div 256 ^ (31 - i))) [0..<32]"

record cursor_signer =
  cs_key :: string
  cs_key_id :: string
  cs_max_age :: "int option"
  cs_clock_skew :: int

definition cursor_code :: "mac \<Rightarrow> cursor_signer \<Rightarrow> string \<Rightarrow> string" where
  "cursor_code mac cs body = digest_bytes (mac (cs_key cs) body)"

definition make_signer :: "string \<Rightarrow> string \<Rightarrow> int option \<Rightarrow> int \<Rightarrow> cursor_signer result" where
  "make_signer key key_id max_age skew =
     (if length key < 32 then Inl (ValueError ''cursor signing key must contain at least 32 bytes'')
      else if \<not> subject_token key_id then Inl (ValueError ''cursor signing key_id must be a URL-safe token'')
      else if (case max_age of None \<Rightarrow> False | Some a \<Rightarrow> a \<le> 0) then Inl (ValueError ''cursor max_age must be positive'')
      else if skew < 0 then Inl (ValueError ''allowed_clock_skew cannot be negative'')
      else Inr \<lparr>cs_key = key, cs_key_id = key_id, cs_max_age = max_age, cs_clock_skew = skew\<rparr>)"

definition chain_material :: "stream_position \<Rightarrow> pyval" where
  "chain_material p =
     PDict [(''event_hash'', PStr (sp_event_hash p)), (''sequence'', PInt (sp_sequence p)),
            (''twin_id'', PStr (sp_twin_id p))]"

definition chain_tag :: "mac \<Rightarrow> cursor_signer \<Rightarrow> stream_position \<Rightarrow> string" where
  "chain_tag mac cs p = b64url_encode (cursor_code mac cs (utf8_encode (dumps (chain_material p))))"

definition cursor_material :: "int \<Rightarrow> string \<Rightarrow> stream_position \<Rightarrow> pyval" where
  "cursor_material now tag p =
     PDict [(''chain_tag'', PStr tag), (''issued_at'', PStr (iso_z (utc now))),
            (''schema_version'', PStr ''argo.dt.cursor/v1''), (''sequence'', PInt (sp_sequence p)),
            (''twin_id'', PStr (sp_twin_id p))]"

text \<open>\<open>CursorSigner.issue\<close>; both dictionaries hold texts and numbers only, so they are written as they are.\<close>

definition signer_issue :: "mac \<Rightarrow> cursor_signer \<Rightarrow> int \<Rightarrow> stream_position \<Rightarrow> string" where
  "signer_issue mac cs now p =
     (let payload = utf8_encode (dumps (cursor_material now (chain_tag mac cs p) p))
      in b64url_encode payload @ ''.'' @ b64url_encode (cursor_code mac cs payload))"

text \<open>The two parts of a token and its signature check, shared by \<open>verify\<close> and \<open>matches_signature\<close>.\<close>

definition cursor_keys :: "string list" where
  "cursor_keys = [''chain_tag'', ''issued_at'', ''schema_version'', ''sequence'', ''twin_id'']"

text \<open>\<open>isinstance\<close> checks on the decoded fields, a bool being no sequence, and the reading of the time.\<close>

definition cursor_int :: "pyval \<Rightarrow> int result" where
  "cursor_int v = (case v of PInt n \<Rightarrow> Inr n | _ \<Rightarrow> rejected ''resume cursor sequence is invalid'')"

definition cursor_text :: "string \<Rightarrow> pyval \<Rightarrow> string result" where
  "cursor_text message v = (case v of PStr s \<Rightarrow> Inr s | _ \<Rightarrow> rejected message)"

definition cursor_time :: "string \<Rightarrow> datetime result" where
  "cursor_time s = (case parse_time s of Inl _ \<Rightarrow> rejected ''resume cursor issued_at is invalid'' | Inr t \<Rightarrow> Inr t)"

definition cursor_age :: "cursor_signer \<Rightarrow> int \<Rightarrow> datetime \<Rightarrow> unit result" where
  "cursor_age cs now issued =
     (if 3652059 * day_us \<le> now + cs_clock_skew cs then Inl OverflowError
      else if now + cs_clock_skew cs < instant issued then rejected ''resume cursor was issued in the future''
      else if (case cs_max_age cs of None \<Rightarrow> False | Some a \<Rightarrow> a < now - instant issued)
      then rejected ''resume cursor has expired''
      else Inr ())"

definition read_cursor :: "cursor_signer \<Rightarrow> int \<Rightarrow> string \<Rightarrow> pyval \<Rightarrow> decoded_cursor result" where
  "read_cursor cs now twin v =
     (if \<not> is_dict v \<or> map fst (dict_val v) \<noteq> cursor_keys then rejected ''resume cursor payload shape is invalid''
      else if pget (dict_val v) ''schema_version'' \<noteq> PStr ''argo.dt.cursor/v1''
      then rejected ''resume cursor version is unsupported''
      else if pget (dict_val v) ''twin_id'' \<noteq> PStr twin then rejected ''resume cursor is bound to another twin''
      else bindE (cursor_int (pget (dict_val v) ''sequence'')) (\<lambda>n.
        bindE (cursor_text ''resume cursor chain tag is invalid'' (pget (dict_val v) ''chain_tag'')) (\<lambda>tag.
        bindE (cursor_text ''resume cursor issued_at is invalid'' (pget (dict_val v) ''issued_at'')) (\<lambda>t.
        bindE (cursor_time t) (\<lambda>issued.
        bindE (cursor_age cs now issued) (\<lambda>_.
        Inr \<lparr>dc_twin_id = twin, dc_sequence = n, dc_chain_tag = tag, dc_issued_at = issued,
             dc_signing_key_id = cs_key_id cs\<rparr>))))))"

text \<open>A payload that is not UTF-8 as the model reads it has code points it does not have.\<close>

definition signer_verify ::
  "mac \<Rightarrow> cursor_signer \<Rightarrow> int \<Rightarrow> string \<Rightarrow> string \<Rightarrow> decoded_cursor result" where
  "signer_verify mac cs now token twin =
     (case split_on CHR ''.'' token of
        [left, right] \<Rightarrow>
          bindE (b64url_decode left) (\<lambda>payload.
          bindE (b64url_decode right) (\<lambda>signature.
          if signature \<noteq> cursor_code mac cs payload then rejected ''resume cursor signature is invalid''
          else (case utf8_decode payload of
            None \<Rightarrow> Inl OutOfModel
          | Some text \<Rightarrow>
              (case loads text of
                 Inl _ \<Rightarrow> rejected ''resume cursor payload is invalid''
               | Inr v \<Rightarrow> read_cursor cs now twin v))))
      | _ \<Rightarrow> rejected ''resume cursor structure is invalid'')"

definition matches_signature :: "mac \<Rightarrow> cursor_signer \<Rightarrow> string \<Rightarrow> bool" where
  "matches_signature mac cs token =
     (case split_on CHR ''.'' token of
        [left, right] \<Rightarrow>
          (case b64url_decode left of
             Inl _ \<Rightarrow> False
           | Inr body \<Rightarrow>
               (case b64url_decode right of Inl _ \<Rightarrow> False | Inr signature \<Rightarrow> signature = cursor_code mac cs body))
      | _ \<Rightarrow> False)"

definition signer_binding ::
  "mac \<Rightarrow> cursor_signer \<Rightarrow> decoded_cursor \<Rightarrow> stream_position \<Rightarrow> stream_position result" where
  "signer_binding mac cs d p =
     (if dc_twin_id d \<noteq> sp_twin_id p \<or> dc_sequence d \<noteq> sp_sequence p
      then rejected ''resume cursor position does not match the stream''
      else if dc_chain_tag d \<noteq> chain_tag mac cs p
      then rejected ''resume cursor does not match the authoritative event chain''
      else Inr p)"

section \<open>The key ring\<close>

record key_ring =
  kr_active :: cursor_signer
  kr_order :: "cursor_signer list"

definition max_keys :: nat where
  "max_keys = 8"

definition make_ring :: "cursor_signer \<Rightarrow> cursor_signer list \<Rightarrow> key_ring result" where
  "make_ring active retiring =
     (if max_keys < length (active # retiring) then Inl (ValueError ''cursor key ring cannot exceed 8 keys'')
      else if \<not> distinct (map cs_key_id (active # retiring)) then Inl (ValueError ''cursor key IDs must be unique'')
      else Inr \<lparr>kr_active = active, kr_order = active # retiring\<rparr>)"

definition accepted_key_ids :: "key_ring \<Rightarrow> string list" where
  "accepted_key_ids ring = map cs_key_id (kr_order ring)"

definition ring_issue :: "mac \<Rightarrow> key_ring \<Rightarrow> int \<Rightarrow> stream_position \<Rightarrow> string" where
  "ring_issue mac ring now p = signer_issue mac (kr_active ring) now p"

definition ring_verify ::
  "mac \<Rightarrow> key_ring \<Rightarrow> int \<Rightarrow> string \<Rightarrow> string \<Rightarrow> decoded_cursor result" where
  "ring_verify mac ring now token twin =
     (case find (\<lambda>cs. matches_signature mac cs token) (kr_order ring) of
        Some cs \<Rightarrow> signer_verify mac cs now token twin
      | None \<Rightarrow> rejected ''resume cursor signature is invalid'')"

definition ring_binding ::
  "mac \<Rightarrow> key_ring \<Rightarrow> decoded_cursor \<Rightarrow> stream_position \<Rightarrow> stream_position result" where
  "ring_binding mac ring d p =
     (case find (\<lambda>cs. cs_key_id cs = dc_signing_key_id d) (kr_order ring) of
        None \<Rightarrow> rejected ''resume cursor signing key is no longer accepted''
      | Some cs \<Rightarrow> signer_binding mac cs d p)"

definition rotate_ring :: "key_ring \<Rightarrow> cursor_signer \<Rightarrow> int \<Rightarrow> key_ring result" where
  "rotate_ring ring new_active retain =
     (if retain < 0 \<or> int max_keys \<le> retain then Inl (ValueError ''retain must be in [0, 7]'')
      else make_ring new_active (take (nat retain) (filter (\<lambda>cs. cs_key_id cs \<noteq> cs_key_id new_active) (kr_order ring))))"

section \<open>What is issued is read back\<close>

lemma cursor_code_nonempty [simp]: "cursor_code mac cs m \<noteq> []"
  by (simp add: cursor_code_def digest_bytes_def)

lemma digits_inject:
  fixes m n :: nat
  assumes "\<And>i. i < k \<Longrightarrow> m div 256 ^ i mod 256 = n div 256 ^ i mod 256" "m < 256 ^ k" "n < 256 ^ k"
  shows "m = n"
  using assms
proof (induction k arbitrary: m n)
  case (Suc k)
  have "m mod 256 = n mod 256" using Suc.prems(1)[of 0] by simp
  moreover have "m div 256 = n div 256"
  proof (rule Suc.IH)
    show "m div 256 div 256 ^ i mod 256 = n div 256 div 256 ^ i mod 256" if "i < k" for i
      using Suc.prems(1)[of "Suc i"] that by (simp add: div_mult2_eq)
  qed (use Suc.prems(2,3) in \<open>simp_all add: less_mult_imp_div_less mult.commute\<close>)
  ultimately show ?case by (metis div_mult_mod_eq)
qed simp

lemma digest_bytes_inject: "digest_bytes v = digest_bytes w \<longleftrightarrow> v = w"
proof
  assume "digest_bytes v = digest_bytes w"
  then have eq: "char_of (unat v div 256 ^ (31 - i)) = (char_of (unat w div 256 ^ (31 - i)) :: char)" if "i < 32" for i
    using that by (simp add: digest_bytes_def)
  have "unat v div 256 ^ i mod 256 = unat w div 256 ^ i mod 256" if "i < 32" for i
    using arg_cong[OF eq[of "31 - i"], of "of_char :: char \<Rightarrow> nat"] that by simp
  moreover have "unat v < 256 ^ 32" "unat w < 256 ^ 32" using unsigned_less[of v] unsigned_less[of w] by simp_all
  ultimately have "unat v = unat w" by (rule digits_inject)
  then show "v = w" by (simp only: word_unat_eq_iff)
qed simp

lemma split_token: "split_on CHR ''.'' (b64url_encode a @ ''.'' @ b64url_encode b) = [b64url_encode a, b64url_encode b]"
proof -
  have "CHR ''.'' \<notin> set (b64url_encode x)" for x using b64_encode_chars by blast
  then show ?thesis by (simp add: split_on_append_sep split_on_no_sep)
qed

lemma utf8_encode_Nil [simp]: "utf8_encode s = [] \<longleftrightarrow> s = []"
  by (cases s) simp_all

lemma dumps_PDict_Nil [simp]: "dumps (PDict d) \<noteq> []"
  by simp

definition fresh_cursor :: "cursor_signer \<Rightarrow> int \<Rightarrow> int \<Rightarrow> bool" where
  "fresh_cursor cs now later \<longleftrightarrow>
     0 \<le> now \<and> now < 3652059 * day_us \<and> now \<le> later + cs_clock_skew cs
     \<and> later + cs_clock_skew cs < 3652059 * day_us
     \<and> (case cs_max_age cs of None \<Rightarrow> True | Some a \<Rightarrow> later - now \<le> a)"

definition cursor_for :: "mac \<Rightarrow> cursor_signer \<Rightarrow> int \<Rightarrow> stream_position \<Rightarrow> decoded_cursor" where
  "cursor_for mac cs now p =
     \<lparr>dc_twin_id = sp_twin_id p, dc_sequence = sp_sequence p, dc_chain_tag = chain_tag mac cs p,
      dc_issued_at = utc now, dc_signing_key_id = cs_key_id cs\<rparr>"

lemma cursor_age_Inr:
  "cursor_age cs now t = Inr () \<longleftrightarrow> now + cs_clock_skew cs < 3652059 * day_us \<and> instant t \<le> now + cs_clock_skew cs
     \<and> (\<forall>a. cs_max_age cs = Some a \<longrightarrow> now - instant t \<le> a)"
  by (auto simp: cursor_age_def rejected_def split: option.splits)

lemma read_cursor_issued:
  assumes "fresh_cursor cs now later"
  shows "read_cursor cs later (sp_twin_id p) (cursor_material now (chain_tag mac cs p) p) = Inr (cursor_for mac cs now p)"
proof -
  have "astimezone_utc (utc now) = utc now" by (simp add: astimezone_utc_def)
  moreover have "valid_dt (utc now)" using assms by (simp add: fresh_cursor_def valid_dt_def utc_def)
  ultimately have "parse_time (iso_z (utc now)) = Inr (utc now)" using parse_time_iso_z[of "utc now"] by simp
  then have time: "cursor_time (iso_z (utc now)) = Inr (utc now)" by (simp add: cursor_time_def)
  have age: "cursor_age cs later (utc now) = Inr ()"
    using assms unfolding cursor_age_Inr fresh_cursor_def by (auto split: option.splits)
  show ?thesis
    by (simp add: read_cursor_def cursor_material_def cursor_keys_def pget_def get_or_def cursor_int_def
        cursor_text_def time age cursor_for_def)
qed

lemma signer_roundtrip:
  assumes "fresh_cursor cs now later"
  shows "signer_verify mac cs later (signer_issue mac cs now p) (sp_twin_id p) = Inr (cursor_for mac cs now p)"
proof -
  let ?v = "cursor_material now (chain_tag mac cs p) p"
  have "jsonable ?v" by (simp add: cursor_material_def)
  then have l: "loads (dumps ?v) = Inr ?v" by (rule loads_dumps)
  have "dumps ?v \<noteq> []" by (simp add: cursor_material_def del: dumps.simps)
  then have "utf8_encode (dumps ?v) \<noteq> []" by simp
  then show ?thesis
    using l read_cursor_issued[OF assms(1), of p mac]
    by (simp add: signer_verify_def signer_issue_def Let_def split_token b64url_roundtrip del: append.simps)
qed

lemma binding_issued: "signer_binding mac cs (cursor_for mac cs now p) p = Inr p"
  by (simp add: signer_binding_def cursor_for_def)

section \<open>What is accepted was signed\<close>

lemma split_token_iff:
  "split_on c t = [a, b] \<Longrightarrow> t = a @ c # b"
proof (induction t arbitrary: a)
  case (Cons x t)
  show ?case
  proof (cases "x = c")
    case True
    then have "a = []" "split_on c t = [b]" using Cons.prems by auto
    moreover have "split_on c t = [b] \<Longrightarrow> t = b" for t b
      by (induction t arbitrary: b) (auto split: if_splits list.splits)
    ultimately show ?thesis using True by simp
  next
    case False
    then obtain w ws where w: "split_on c t = w # ws" by (cases "split_on c t") auto
    then have "a = x # w" "ws = [b]" using Cons.prems False by auto
    then show ?thesis using Cons.IH[of w] w by simp
  qed
qed simp

text \<open>A token accepted under a key is the canonical spelling of a payload and of its code.\<close>

definition signed_by :: "mac \<Rightarrow> cursor_signer \<Rightarrow> string \<Rightarrow> string \<Rightarrow> bool" where
  "signed_by mac cs body token \<longleftrightarrow>
     body \<noteq> [] \<and> token = b64url_encode body @ ''.'' @ b64url_encode (cursor_code mac cs body)"

lemma two_parts: "\<nexists>l r. xs = [l, r] \<Longrightarrow> (case xs of [l, r] \<Rightarrow> f l r | _ \<Rightarrow> g) = g"
  by (cases xs; cases "tl xs"; cases "tl (tl xs)") auto

lemma matches_signed: "matches_signature mac cs token \<Longrightarrow> \<exists>body. signed_by mac cs body token"
proof -
  assume m: "matches_signature mac cs token"
  then obtain l r where lr: "split_on CHR ''.'' token = [l, r]"
    by (auto simp: matches_signature_def split: list.splits)
  then obtain body where "b64url_decode l = Inr body" "b64url_decode r = Inr (cursor_code mac cs body)"
    using m by (auto simp: matches_signature_def split: sum.splits)
  then show ?thesis using split_token_iff[OF lr] by (auto simp: signed_by_def b64url_decode_Inr)
qed

lemma signed_matches: "signed_by mac cs body token \<Longrightarrow> matches_signature mac cs token"
  by (simp add: signed_by_def matches_signature_def split_token b64url_roundtrip del: append.simps)

lemma signed_unique:
  assumes "signed_by mac cs body token" "signed_by mac cs' body' token"
  shows "body = body' \<and> mac (cs_key cs) body = mac (cs_key cs') body'"
proof -
  have "split_on CHR ''.'' token = [b64url_encode body, b64url_encode (cursor_code mac cs body)]"
    "split_on CHR ''.'' token = [b64url_encode body', b64url_encode (cursor_code mac cs' body')]"
    using assms unfolding signed_by_def by (metis split_token)+
  then show ?thesis by (auto simp: b64url_encode_inject cursor_code_def digest_bytes_inject)
qed

lemma verify_Inr_parts:
  assumes "signer_verify mac cs now token twin = Inr d"
  obtains l r body t v where "split_on CHR ''.'' token = [l, r]" "b64url_decode l = Inr body"
    "b64url_decode r = Inr (cursor_code mac cs body)" "utf8_decode body = Some t" "loads t = Inr v"
    "read_cursor cs now twin v = Inr d"
proof -
  have "\<exists>l r. split_on CHR ''.'' token = [l, r]"
  proof (rule ccontr)
    assume "\<nexists>l r. split_on CHR ''.'' token = [l, r]"
    with assms show False by (simp add: signer_verify_def two_parts rejected_def)
  qed
  then obtain l r where lr: "split_on CHR ''.'' token = [l, r]" by blast
  then have "bindE (b64url_decode l) (\<lambda>body. bindE (b64url_decode r) (\<lambda>sig.
      if sig \<noteq> cursor_code mac cs body then rejected ''resume cursor signature is invalid''
      else (case utf8_decode body of None \<Rightarrow> Inl OutOfModel
        | Some t \<Rightarrow> (case loads t of Inl _ \<Rightarrow> rejected ''resume cursor payload is invalid''
            | Inr v \<Rightarrow> read_cursor cs now twin v)))) = Inr d"
    using assms by (simp add: signer_verify_def)
  then obtain body sig where b: "b64url_decode l = Inr body" "b64url_decode r = Inr sig"
    "(if sig \<noteq> cursor_code mac cs body then rejected ''resume cursor signature is invalid''
      else (case utf8_decode body of None \<Rightarrow> Inl OutOfModel
        | Some t \<Rightarrow> (case loads t of Inl _ \<Rightarrow> rejected ''resume cursor payload is invalid''
            | Inr v \<Rightarrow> read_cursor cs now twin v))) = Inr d"
    unfolding bindE_Inr_iff by blast
  have sig: "sig = cursor_code mac cs body" using b(3) by (simp add: rejected_def split: if_splits)
  obtain t where t: "utf8_decode body = Some t" using b(3) sig by (cases "utf8_decode body") simp_all
  obtain v where "loads t = Inr v" "read_cursor cs now twin v = Inr d"
    using b(3) sig t by (cases "loads t") (simp_all add: rejected_def)
  then show thesis using that[OF lr b(1) _ t] b(2) sig by simp
qed

lemma verify_matches: "signer_verify mac cs now token twin = Inr d \<Longrightarrow> matches_signature mac cs token"
  by (erule verify_Inr_parts) (simp add: matches_signature_def)

lemma read_cursor_sound:
  assumes "read_cursor cs now twin v = Inr d"
  shows "dc_twin_id d = twin \<and> dc_signing_key_id d = cs_key_id cs
    \<and> instant (dc_issued_at d) \<le> now + cs_clock_skew cs
    \<and> (\<forall>a. cs_max_age cs = Some a \<longrightarrow> now - instant (dc_issued_at d) \<le> a)"
  using assms
  by (auto simp: read_cursor_def rejected_def bindE_Inr_iff cursor_age_Inr split: if_splits)

lemma verify_sound:
  assumes "signer_verify mac cs now token twin = Inr d"
  shows "(\<exists>body. signed_by mac cs body token) \<and> dc_twin_id d = twin \<and> dc_signing_key_id d = cs_key_id cs
    \<and> instant (dc_issued_at d) \<le> now + cs_clock_skew cs
    \<and> (\<forall>a. cs_max_age cs = Some a \<longrightarrow> now - instant (dc_issued_at d) \<le> a)"
proof -
  have "\<exists>v. read_cursor cs now twin v = Inr d"
    using verify_Inr_parts[OF assms] by metis
  then show ?thesis using read_cursor_sound matches_signed[OF verify_matches[OF assms]] by blast
qed

text \<open>
  A cursor issued at a position binds to another event of its sequence only where the two chain
  texts, which differ, have the same code under the signer's key.
\<close>

definition chain_bytes :: "stream_position \<Rightarrow> string" where
  "chain_bytes p = utf8_encode (dumps (chain_material p))"

lemma chain_bytes_inject: "chain_bytes p = chain_bytes q \<longleftrightarrow> p = q"
proof
  assume "chain_bytes p = chain_bytes q"
  then have "dumps (chain_material p) = dumps (chain_material q)" by (simp add: chain_bytes_def utf8_encode_inject)
  then have "chain_material p = chain_material q"
    by (subst (asm) dumps_inject) (simp_all add: chain_material_def)
  then show "p = q" by (simp add: chain_material_def)
qed simp

lemma binding_sound:
  "signer_binding mac cs (cursor_for mac cs now p) q = Inr r \<longleftrightarrow>
     r = q \<and> sp_twin_id p = sp_twin_id q \<and> sp_sequence p = sp_sequence q
     \<and> mac (cs_key cs) (chain_bytes p) = mac (cs_key cs) (chain_bytes q)"
  by (auto simp: signer_binding_def cursor_for_def rejected_def chain_tag_def chain_bytes_def[symmetric]
      b64url_encode_inject cursor_code_def digest_bytes_inject)

section \<open>Rotation\<close>

definition ring_ok :: "key_ring \<Rightarrow> bool" where
  "ring_ok ring \<longleftrightarrow> (\<exists>retiring. kr_order ring = kr_active ring # retiring)
     \<and> length (kr_order ring) \<le> max_keys \<and> distinct (map cs_key_id (kr_order ring))"

lemma make_ring_ok: "make_ring active retiring = Inr ring \<Longrightarrow> ring_ok ring \<and> kr_active ring = active \<and> kr_order ring = active # retiring"
  by (auto simp: make_ring_def ring_ok_def split: if_splits)

lemma distinct_key_ids: "distinct (map cs_key_id xs) \<Longrightarrow> x \<in> set xs \<Longrightarrow> find (\<lambda>cs. cs_key_id cs = cs_key_id x) xs = Some x"
  by (induction xs) (auto simp: image_iff)

text \<open>A rotation of a ring always succeeds within its bounds, and keeps the newest signers.\<close>

lemma rotate_ok:
  assumes "ring_ok ring" "0 \<le> retain" "retain < int max_keys"
  shows "\<exists>ring'. rotate_ring ring fresh retain = Inr ring' \<and> ring_ok ring' \<and> kr_active ring' = fresh
    \<and> kr_order ring' = fresh # take (nat retain) (filter (\<lambda>cs. cs_key_id cs \<noteq> cs_key_id fresh) (kr_order ring))"
proof -
  let ?old = "take (nat retain) (filter (\<lambda>cs. cs_key_id cs \<noteq> cs_key_id fresh) (kr_order ring))"
  have "distinct (map cs_key_id (filter (\<lambda>cs. cs_key_id cs \<noteq> cs_key_id fresh) (kr_order ring)))"
    using assms(1) by (simp add: ring_ok_def distinct_map_filter)
  then have "distinct (map cs_key_id ?old)" by (simp add: take_map[symmetric] distinct_take)
  moreover have "cs_key_id fresh \<notin> set (map cs_key_id ?old)" by (auto dest: in_set_takeD)
  moreover have "length (fresh # ?old) \<le> max_keys" using assms(2,3) by (simp add: max_keys_def)
  ultimately have "make_ring fresh ?old = Inr \<lparr>kr_active = fresh, kr_order = fresh # ?old\<rparr>"
    by (simp add: make_ring_def)
  then show ?thesis using assms make_ring_ok by (simp add: rotate_ring_def)
qed

text \<open>
  Keys of the ring that give a text different codes: what another key signed is not taken for
  one's own.
\<close>

definition keys_separate :: "mac \<Rightarrow> cursor_signer list \<Rightarrow> string \<Rightarrow> bool" where
  "keys_separate mac signers body \<longleftrightarrow>
     inj_on (\<lambda>cs. mac (cs_key cs) body) (set signers)"

lemma find_signer:
  assumes "signed_by mac cs body token" "cs \<in> set signers" "keys_separate mac signers body"
  shows "find (\<lambda>cs. matches_signature mac cs token) signers = Some cs"
proof -
  have "matches_signature mac c token \<longleftrightarrow> c = cs" if "c \<in> set signers" for c
  proof
    assume "matches_signature mac c token"
    then obtain b where "signed_by mac c b token" using matches_signed by blast
    from signed_unique[OF assms(1) this] show "c = cs"
      using assms(2,3) that by (auto simp: keys_separate_def inj_on_def)
  qed (use signed_matches[OF assms(1)] assms(2,3) in \<open>auto simp: keys_separate_def\<close>)
  then show ?thesis using assms(2) by (induction signers) auto
qed

text \<open>A ring verifies a token signed by one of its keys as that key's signer does.\<close>

lemma ring_verify_signer:
  assumes "signed_by mac cs body token" "cs \<in> set (kr_order ring)" "keys_separate mac (kr_order ring) body"
  shows "ring_verify mac ring now token twin = signer_verify mac cs now token twin"
  using find_signer[OF assms] by (simp add: ring_verify_def)

text \<open>What a removed key signed is rejected: its code matches no key of the ring.\<close>

lemma ring_verify_removed:
  assumes "signed_by mac cs body token" "keys_separate mac (cs # kr_order ring) body" "cs \<notin> set (kr_order ring)"
  shows "ring_verify mac ring now token twin = rejected ''resume cursor signature is invalid''"
proof -
  have "\<not> matches_signature mac c token" if "c \<in> set (kr_order ring)" for c
  proof
    assume "matches_signature mac c token"
    then obtain b where "signed_by mac c b token" using matches_signed by blast
    from signed_unique[OF assms(1) this] have "mac (cs_key cs) body = mac (cs_key c) body" by auto
    then show False using assms(2,3) that by (auto simp: keys_separate_def inj_on_def)
  qed
  then have "find (\<lambda>cs. matches_signature mac cs token) (kr_order ring) = None" by (auto simp: find_None_iff)
  then show ?thesis by (simp add: ring_verify_def)
qed

lemma issue_signed: "signed_by mac cs (utf8_encode (dumps (cursor_material now (chain_tag mac cs p) p))) (signer_issue mac cs now p)"
proof -
  have "dumps (cursor_material now (chain_tag mac cs p) p) \<noteq> []" by (simp add: cursor_material_def del: dumps.simps)
  then show ?thesis by (simp add: signed_by_def signer_issue_def Let_def)
qed

lemma ring_binding_signer:
  assumes "ring_ok ring" "cs \<in> set (kr_order ring)" "dc_signing_key_id d = cs_key_id cs"
  shows "ring_binding mac ring d p = signer_binding mac cs d p"
  using assms distinct_key_ids[of "kr_order ring" cs] by (simp add: ring_binding_def ring_ok_def)

section \<open>The contract of a cursor codec\<close>

text \<open>
  What a state stream relies on: an issued cursor is read back while it may be used, with its
  sequence, and binds to its position; whatever is read is for the twin asked for; binding returns
  the position it was given, for the cursor's twin and sequence.
\<close>

locale cursor_codec =
  fixes issue :: "int \<Rightarrow> stream_position \<Rightarrow> string"
    and read :: "int \<Rightarrow> string \<Rightarrow> string \<Rightarrow> decoded_cursor result"
    and bind_chain :: "decoded_cursor \<Rightarrow> stream_position \<Rightarrow> stream_position result"
    and usable :: "int \<Rightarrow> int \<Rightarrow> bool"
  assumes issued_read: "usable now later \<Longrightarrow>
      \<exists>d. read later (issue now p) (sp_twin_id p) = Inr d \<and> dc_sequence d = sp_sequence p \<and> bind_chain d p = Inr p"
    and read_twin: "read later token twin = Inr d \<Longrightarrow> dc_twin_id d = twin"
    and bind_position: "bind_chain d p = Inr q \<Longrightarrow> q = p \<and> dc_twin_id d = sp_twin_id p \<and> dc_sequence d = sp_sequence p"
begin

text \<open>Resuming with an issued cursor looks up its sequence and starts at its position.\<close>

lemma resume_position:
  assumes "usable now later" "lookup (sp_sequence p) = Inr p"
  shows "bindE (read later (issue now p) (sp_twin_id p)) (\<lambda>d. bindE (lookup (dc_sequence d)) (bind_chain d)) = Inr p"
  using issued_read[OF assms(1), of p] assms(2) by auto

text \<open>A resumed position is one the lookup returned, for the twin and the sequence of the cursor.\<close>

lemma resume_sound:
  assumes "bindE (read later token twin) (\<lambda>d. bindE (lookup (dc_sequence d)) (bind_chain d)) = Inr q"
  shows "sp_twin_id q = twin \<and> lookup (sp_sequence q) = Inr q"
proof -
  obtain d p where "read later token twin = Inr d" "lookup (dc_sequence d) = Inr p" "bind_chain d p = Inr q"
    using assms by (auto simp: bindE_Inr_iff)
  then show ?thesis using read_twin[of later token twin d] bind_position[of d p q] by auto
qed

end

lemma signer_binding_Inr:
  "signer_binding mac cs d p = Inr q \<Longrightarrow> q = p \<and> dc_twin_id d = sp_twin_id p \<and> dc_sequence d = sp_sequence p"
  by (auto simp: signer_binding_def rejected_def split: if_splits)

interpretation signer: cursor_codec "signer_issue mac cs" "signer_verify mac cs"
    "signer_binding mac cs" "fresh_cursor cs" for mac cs
proof unfold_locales
  fix now later p
  assume "fresh_cursor cs now later"
  note d = signer_roundtrip[OF this, of mac p]
  show "\<exists>d. signer_verify mac cs later (signer_issue mac cs now p) (sp_twin_id p) = Inr d
      \<and> dc_sequence d = sp_sequence p \<and> signer_binding mac cs d p = Inr p"
    using d binding_issued[of mac cs now p] by (intro exI[of _ "cursor_for mac cs now p"]) (simp, simp add: cursor_for_def)
next
  fix later token twin d
  show "dc_twin_id d = twin" if "signer_verify mac cs later token twin = Inr d"
    using verify_sound[OF that] by blast
next
  fix d p q
  show "q = p \<and> dc_twin_id d = sp_twin_id p \<and> dc_sequence d = sp_sequence p"
    if "signer_binding mac cs d p = Inr q" using signer_binding_Inr[OF that] .
qed

end
