(* ===== verification/K2_Stream.thy ===== *)
theory K2_Stream
  imports K2_Cursor K2_Outbox_Laws
begin

text \<open>
  Live fan-out and durable subscriptions of \<open>src/src/argo_dt/sync.py\<close>: \<open>Subscription\<close>,
  \<open>BoundedEventBroker\<close>, \<open>DurableSubscription\<close> (bounded replay to the captured head, then the live
  queue, gaps filled from the store, duplicates dropped, every event checked against the position)
  and the acknowledgement window. The definitions are here, their laws in \<open>K2_Stream_Laws\<close>.

  The broker and the durable subscription share the live subscription object: it lives in the
  broker's heap and both name it by its address. The event store is an argument, as its two operations
  that a subscription uses. Where the code waits for the live queue the outcome is \<open>Wait\<close> and the
  state is what it left; running the operation again resumes it, since a queue that has an item is
  read without suspending.
\<close>

section \<open>Outcomes of an asynchronous iterator\<close>

datatype 'a outcome = Got 'a | Wait | Stopped | Raised error

section \<open>Live subscriptions\<close>

datatype queue_item = Item event | Closing

record subscription =
  sb_twin_id :: string
  sb_after_sequence :: int
  sb_queue :: "queue_item list"
  sb_capacity :: nat
  sb_closed :: bool
  sb_close_reason :: "string option"

text \<open>\<open>Subscription.__anext__\<close>; an empty close reason counts as none.\<close>

definition subscription_end :: "subscription \<Rightarrow> 'a outcome" where
  "subscription_end sb =
     (case sb_close_reason sb of None \<Rightarrow> Stopped
      | Some reason \<Rightarrow> if reason = [] then Stopped else Raised (BackpressureExceeded reason))"

definition subscription_next :: "subscription \<Rightarrow> event outcome \<times> subscription" where
  "subscription_next sb =
     (if sb_closed sb then (subscription_end sb, sb)
      else (case sb_queue sb of
        [] \<Rightarrow> (Wait, sb)
      | Closing # q \<Rightarrow> (subscription_end sb, sb\<lparr>sb_queue := q, sb_closed := True\<rparr>)
      | Item ev # q \<Rightarrow> (Got ev, sb\<lparr>sb_queue := q, sb_after_sequence := sequence ev\<rparr>)))"

definition subscription_close :: "string option \<Rightarrow> subscription \<Rightarrow> subscription" where
  "subscription_close reason sb =
     (if sb_closed sb then sb
      else let q = (if sb_capacity sb \<le> length (sb_queue sb) then tl (sb_queue sb) else sb_queue sb)
           in sb\<lparr>sb_closed := True, sb_close_reason := reason, sb_queue := q @ [Closing]\<rparr>)"

section \<open>The broker\<close>

record broker =
  bk_capacity :: nat
  bk_heap :: "nat \<Rightarrow> subscription"
  bk_next :: nat
  bk_members :: "nat list"
  bk_published :: nat
  bk_delivered :: nat
  bk_disconnected :: nat

definition blank_subscription :: subscription where
  "blank_subscription =
     \<lparr>sb_twin_id = [], sb_after_sequence = 0, sb_queue = [], sb_capacity = 0, sb_closed = True, sb_close_reason = None\<rparr>"

definition make_broker :: "int \<Rightarrow> broker result" where
  "make_broker capacity =
     (if capacity < 1 then Inl (ValueError ''queue_capacity must be positive'')
      else Inr \<lparr>bk_capacity = nat capacity, bk_heap = (\<lambda>_. blank_subscription), bk_next = 0, bk_members = [], bk_published = 0, bk_delivered = 0,
                bk_disconnected = 0\<rparr>)"

definition broker_subscribe :: "string \<Rightarrow> int \<Rightarrow> broker \<Rightarrow> nat \<times> broker" where
  "broker_subscribe twin after bk =
     (bk_next bk,
      bk\<lparr>bk_heap := (bk_heap bk)(bk_next bk := \<lparr>sb_twin_id = twin, sb_after_sequence = after, sb_queue = [],
           sb_capacity = bk_capacity bk, sb_closed = False, sb_close_reason = None\<rparr>),
         bk_next := bk_next bk + 1, bk_members := bk_members bk @ [bk_next bk]\<rparr>)"

definition update_subscription :: "nat \<Rightarrow> (subscription \<Rightarrow> subscription) \<Rightarrow> broker \<Rightarrow> broker" where
  "update_subscription i f bk = bk\<lparr>bk_heap := (bk_heap bk)(i := f (bk_heap bk i))\<rparr>"

definition broker_unsubscribe :: "nat \<Rightarrow> broker \<Rightarrow> broker" where
  "broker_unsubscribe i bk =
     update_subscription i (subscription_close None) (bk\<lparr>bk_members := filter (\<lambda>j. j \<noteq> i) (bk_members bk)\<rparr>)"

text \<open>One subscriber of a publication: skipped, served, or found to be full.\<close>

definition offer :: "event \<Rightarrow> broker \<times> nat list \<Rightarrow> nat \<Rightarrow> broker \<times> nat list" where
  "offer ev acc i =
     (let (bk, stale) = acc; sb = bk_heap bk i in
      if sb_twin_id sb \<noteq> twin_id ev \<or> sequence ev \<le> sb_after_sequence sb then (bk, stale)
      else if length (sb_queue sb) < sb_capacity sb
      then (update_subscription i (\<lambda>s. s\<lparr>sb_queue := sb_queue s @ [Item ev]\<rparr>) (bk\<lparr>bk_delivered := bk_delivered bk + 1\<rparr>), stale)
      else (bk, stale @ [i]))"

definition slow_reason :: string where
  "slow_reason = ''subscriber exceeded bounded queue; reconnect with last cursor''"

definition disconnect :: "nat \<Rightarrow> broker \<Rightarrow> broker" where
  "disconnect i bk =
     update_subscription i (subscription_close (Some slow_reason))
       (bk\<lparr>bk_members := filter (\<lambda>j. j \<noteq> i) (bk_members bk), bk_disconnected := bk_disconnected bk + 1\<rparr>)"

definition broker_publish :: "event \<Rightarrow> broker \<Rightarrow> broker" where
  "broker_publish ev bk =
     (let (bk1, stale) = foldl (offer ev) (bk\<lparr>bk_published := bk_published bk + 1\<rparr>, []) (bk_members bk)
      in fold disconnect stale bk1)"

section \<open>Limits and metrics\<close>

record sync_limits =
  sl_max_record_bytes :: int
  sl_max_batch_bytes :: int
  sl_max_batch_records :: int
  sl_replay_page_size :: int
  sl_max_in_flight :: int
  sl_heartbeat_seconds :: int

record sync_metrics =
  mx_replayed_events :: nat
  mx_live_events :: nat
  mx_duplicate_events :: nat
  mx_emitted_frames :: nat
  mx_acknowledgements :: nat
  mx_heartbeats :: nat
  mx_closed_streams :: nat
  mx_integrity_failures :: nat
  mx_backpressure_closes :: nat

section \<open>Durable subscriptions\<close>

record stream_env =
  se_broker :: broker
  se_metrics :: sync_metrics

record durable =
  ds_live :: nat
  ds_position :: stream_position
  ds_acknowledged :: stream_position
  ds_replay_head :: int
  ds_limits :: sync_limits
  ds_event_types :: "string list option"
  ds_planes :: "event_plane list option"
  ds_buffer :: "event list"
  ds_outstanding :: "stream_position list"
  ds_deferred :: "event option"
  ds_closed :: bool

type_synonym head_op = "string \<Rightarrow> int \<times> string"
type_synonym load_op = "string \<Rightarrow> int \<Rightarrow> int option \<Rightarrow> int option \<Rightarrow> event list result"
type_synonym stream_state = "durable \<times> stream_env"

abbreviation (input) count :: "((nat \<Rightarrow> nat) \<Rightarrow> sync_metrics \<Rightarrow> sync_metrics) \<Rightarrow> stream_env \<Rightarrow> stream_env" where
  "count f env \<equiv> env\<lparr>se_metrics := f Suc (se_metrics env)\<rparr>"

definition live_of :: "stream_state \<Rightarrow> subscription" where
  "live_of st = bk_heap (se_broker (snd st)) (ds_live (fst st))"

text \<open>\<open>aclose\<close>\<close>

definition durable_close :: "stream_state \<Rightarrow> stream_state" where
  "durable_close st =
     (let (d, env) = st in
      if ds_closed d then st
      else (d\<lparr>ds_closed := True\<rparr>,
            count mx_closed_streams_update (env\<lparr>se_broker := broker_unsubscribe (ds_live d) (se_broker env)\<rparr>)))"

text \<open>\<open>DurableSubscription.open\<close>: subscribed before the head is read; a refused start unsubscribes.\<close>

definition first_hash :: "event list \<Rightarrow> string option" where
  "first_hash evs = (case evs of [] \<Rightarrow> None | ev # _ \<Rightarrow> Some (event_hash ev))"

definition check_start :: "head_op \<Rightarrow> load_op \<Rightarrow> stream_position \<Rightarrow> int result" where
  "check_start head_op load_op start =
     (let replay_head = fst (head_op (sp_twin_id start)) in
      if replay_head < sp_sequence start then rejected ''resume cursor is beyond the stream head''
      else if 0 < sp_sequence start
      then bindE (load_op (sp_twin_id start) (sp_sequence start - 1) (Some (sp_sequence start)) (Some 1)) (\<lambda>evs.
        if first_hash evs \<noteq> Some (sp_event_hash start)
        then rejected ''resume cursor does not match the authoritative event chain''
        else Inr replay_head)
      else Inr replay_head)"

definition durable_open ::
  "head_op \<Rightarrow> load_op \<Rightarrow> stream_position \<Rightarrow> sync_limits \<Rightarrow> string list \<Rightarrow> event_plane list \<Rightarrow> stream_env
     \<Rightarrow> durable result \<times> stream_env" where
  "durable_open head_op load_op start limits types planes env =
     (let (live, bk) = broker_subscribe (sp_twin_id start) (sp_sequence start) (se_broker env) in
      case check_start head_op load_op start of
        Inl err \<Rightarrow> (Inl err, env\<lparr>se_broker := broker_unsubscribe live bk\<rparr>)
      | Inr replay_head \<Rightarrow>
          (Inr \<lparr>ds_live = live, ds_position = start, ds_acknowledged = start, ds_replay_head = replay_head,
                ds_limits = limits, ds_event_types = (if types = [] then None else Some types),
                ds_planes = (if planes = [] then None else Some planes), ds_buffer = [], ds_outstanding = [],
                ds_deferred = None, ds_closed = False\<rparr>,
           env\<lparr>se_broker := bk\<rparr>))"

text \<open>\<open>_advance_verified\<close>\<close>

definition advance_verified :: "(string \<Rightarrow> string) \<Rightarrow> event \<Rightarrow> stream_state \<Rightarrow> unit result \<times> stream_state" where
  "advance_verified H ev st =
     (let (d, env) = st; pos = ds_position d; wanted = sp_sequence pos + 1 in
      if twin_id ev \<noteq> sp_twin_id pos \<or> sequence ev \<noteq> wanted
      then (Inl (IntegrityError (''stream continuity failed: expected sequence '' @ show_int wanted
              @ '', found '' @ show_int (sequence ev))), d, count mx_integrity_failures_update env)
      else (case verify H ev (sp_event_hash pos) of
        Inl (IntegrityError m) \<Rightarrow> (Inl (IntegrityError m), d, count mx_integrity_failures_update env)
      | Inl err \<Rightarrow> (Inl err, d, env)
      | Inr _ \<Rightarrow>
          (case make_position (twin_id ev) (sequence ev) (event_hash ev) of
             Inl err \<Rightarrow> (Inl err, d, env)
           | Inr p \<Rightarrow> (Inr (), d\<lparr>ds_position := p\<rparr>, env))))"

datatype stream_source = Replay | Live

text \<open>An event was picked: it is handed out unless it does not continue the stream.\<close>

definition hand_out :: "(string \<Rightarrow> string) \<Rightarrow> stream_source \<Rightarrow> event \<Rightarrow> stream_state \<Rightarrow> (event \<times> stream_source) outcome \<times> stream_state" where
  "hand_out H src ev st =
     (case advance_verified H ev st of
        (Inl err, st') \<Rightarrow> (Raised err, st')
      | (Inr _, st') \<Rightarrow> (Got (ev, src), st'))"

text \<open>The treatment of an event from the live queue, deferred or not.\<close>

definition live_event ::
  "(string \<Rightarrow> string) \<Rightarrow> head_op \<Rightarrow> event \<Rightarrow> stream_state \<Rightarrow> stream_state + ((event \<times> stream_source) outcome \<times> stream_state)" where
  "live_event H head_op ev st =
     (let (d, env) = st; pos = ds_position d in
      if sequence ev \<le> sp_sequence pos then Inl (d, count mx_duplicate_events_update env)
      else if sp_sequence pos + 1 < sequence ev
      then (if fst (head_op (sp_twin_id pos)) < sequence ev
            then Inr (Raised (IntegrityError ''live stream contains a non-persisted sequence gap''),
                      d, count mx_integrity_failures_update env)
            else Inl (d\<lparr>ds_deferred := Some ev, ds_replay_head := sequence ev\<rparr>, env))
      else Inr (hand_out H Live ev st))"

text \<open>
  One round of the loop of \<open>_next_candidate\<close>: another state to go on from (\<open>Inl\<close>), or its end.
\<close>

definition candidate_round ::
  "(string \<Rightarrow> string) \<Rightarrow> head_op \<Rightarrow> load_op \<Rightarrow> stream_state \<Rightarrow> stream_state + ((event \<times> stream_source) outcome \<times> stream_state)" where
  "candidate_round H head_op load_op st =
     (let (d, env) = st; pos = ds_position d in
      case ds_buffer d of
        ev # rest \<Rightarrow> Inr (hand_out H Replay ev (d\<lparr>ds_buffer := rest\<rparr>, env))
      | [] \<Rightarrow>
          if sp_sequence pos < ds_replay_head d
          then (case load_op (sp_twin_id pos) (sp_sequence pos) (Some (ds_replay_head d)) (Some (sl_replay_page_size (ds_limits d))) of
              Inl err \<Rightarrow> Inr (Raised err, st)
            | Inr [] \<Rightarrow> Inr (Raised (IntegrityError ''event replay ended before the captured stream head''),
                d, count mx_integrity_failures_update env)
            | Inr (ev # evs) \<Rightarrow> Inl (d\<lparr>ds_buffer := ev # evs\<rparr>, env))
          else (case ds_deferred d of
              Some ev \<Rightarrow> live_event H head_op ev (d\<lparr>ds_deferred := None\<rparr>, env)
            | None \<Rightarrow>
                (case subscription_next (live_of st) of
                   (Got ev, sb) \<Rightarrow>
                     live_event H head_op ev (d, env\<lparr>se_broker := update_subscription (ds_live d) (\<lambda>_. sb) (se_broker env)\<rparr>)
                 | (Wait, _) \<Rightarrow> Inr (Wait, st)
                 | (Stopped, sb) \<Rightarrow>
                     Inr (Stopped, d, env\<lparr>se_broker := update_subscription (ds_live d) (\<lambda>_. sb) (se_broker env)\<rparr>)
                 | (Raised err, sb) \<Rightarrow>
                     Inr (Raised err, d\<lparr>ds_closed := True\<rparr>,
                       count mx_backpressure_closes_update
                         (env\<lparr>se_broker := update_subscription (ds_live d) (\<lambda>_. sb) (se_broker env)\<rparr>)))))"

text \<open>
  The rounds end: an event is handed out or dropped, the buffer fills once, the queue shrinks.
\<close>

definition rounds_left :: "stream_state \<Rightarrow> nat" where
  "rounds_left st =
     (let d = fst st in
      if ds_buffer d \<noteq> [] then 0
      else if sp_sequence (ds_position d) < ds_replay_head d then 1
      else 2 + length (sb_queue (live_of st)) + (case ds_deferred d of None \<Rightarrow> 0 | Some _ \<Rightarrow> 1))"

lemma subscription_next_Got: "subscription_next sb = (Got ev, sb') \<Longrightarrow> Suc (length (sb_queue sb')) = length (sb_queue sb)"
  by (auto simp: subscription_next_def subscription_end_def split: if_splits list.splits queue_item.splits option.splits)

lemma live_of_update [simp]:
  "live_of (d, env\<lparr>se_broker := update_subscription (ds_live d) (\<lambda>_. sb) (se_broker env)\<rparr>) = sb"
  by (simp add: live_of_def update_subscription_def)

lemma live_of_fields [simp]:
  "live_of (d\<lparr>ds_buffer := b\<rparr>, env) = live_of (d, env)" "live_of (d\<lparr>ds_deferred := e\<rparr>, env) = live_of (d, env)"
  "live_of (d\<lparr>ds_replay_head := n\<rparr>, env) = live_of (d, env)" "live_of (d, env\<lparr>se_metrics := m\<rparr>) = live_of (d, env)"
  by (simp_all add: live_of_def)

lemma live_event_rounds:
  assumes "live_event H head_op ev (d, env) = Inl st'" "ds_buffer d = []" "\<not> sp_sequence (ds_position d) < ds_replay_head d"
    and "ds_deferred d = None"
  shows "rounds_left st' \<le> 2 + length (sb_queue (live_of (d, env)))"
  using assms by (auto simp: live_event_def rounds_left_def Let_def split: if_splits)

lemma candidate_round_decreases:
  assumes "candidate_round H head_op load_op st = Inl st'"
  shows "rounds_left st' < rounds_left st"
proof (cases st)
  case (Pair d env)
  show ?thesis
  proof (cases "ds_buffer d")
    case Nil
    show ?thesis
    proof (cases "sp_sequence (ds_position d) < ds_replay_head d")
      case True
      then show ?thesis using assms Pair Nil
        by (auto simp: candidate_round_def rounds_left_def Let_def split: sum.splits list.splits)
    next
      case False
      show ?thesis
      proof (cases "ds_deferred d")
        case None
        then obtain ev sb where e: "subscription_next (live_of (d, env)) = (Got ev, sb)"
          "live_event H head_op ev (d, env\<lparr>se_broker := update_subscription (ds_live d) (\<lambda>_. sb) (se_broker env)\<rparr>) = Inl st'"
          using assms Pair Nil False by (auto simp: candidate_round_def split: prod.splits outcome.splits)
        show ?thesis
          using live_event_rounds[OF e(2) Nil False None] subscription_next_Got[OF e(1)] Pair Nil False None
          by (simp add: rounds_left_def)
      next
        case (Some ev)
        then have "live_event H head_op ev (d\<lparr>ds_deferred := None\<rparr>, env) = Inl st'"
          using assms Pair Nil False by (simp add: candidate_round_def)
        from live_event_rounds[OF this] show ?thesis using Pair Nil False Some by (simp add: rounds_left_def)
      qed
    qed
  qed (use assms Pair in \<open>simp add: candidate_round_def\<close>)
qed

text \<open>\<open>_next_candidate\<close>\<close>

function next_candidate ::
  "(string \<Rightarrow> string) \<Rightarrow> head_op \<Rightarrow> load_op \<Rightarrow> stream_state \<Rightarrow> (event \<times> stream_source) outcome \<times> stream_state" where
  "next_candidate H head_op load_op st =
     (case candidate_round H head_op load_op st of
        Inl st' \<Rightarrow> next_candidate H head_op load_op st'
      | Inr res \<Rightarrow> res)"
  by pat_completeness auto

termination next_candidate
  by (relation "measure (\<lambda>(H, head_op, load_op, st). rounds_left st)") (auto simp: candidate_round_decreases)

declare next_candidate.simps [simp del]

section \<open>The next visible event\<close>

definition visible :: "durable \<Rightarrow> event \<Rightarrow> bool" where
  "visible d ev \<longleftrightarrow>
     (case ds_event_types d of None \<Rightarrow> True | Some types \<Rightarrow> event_type ev \<in> set types)
     \<and> (case ds_planes d of None \<Rightarrow> True | Some planes \<Rightarrow> plane ev \<in> set planes)"

text \<open>\<open>_advance_ack_over_filtered_event\<close>\<close>

definition advance_ack_over_filtered :: "durable \<Rightarrow> durable" where
  "advance_ack_over_filtered d = (if ds_outstanding d = [] then d\<lparr>ds_acknowledged := ds_position d\<rparr> else d)"

definition deliver :: "event \<Rightarrow> stream_source \<Rightarrow> stream_state \<Rightarrow> event outcome \<times> stream_state" where
  "deliver ev src st =
     (let (d, env) = st in
      case make_position (twin_id ev) (sequence ev) (event_hash ev) of
        Inl err \<Rightarrow> (Raised err, st)
      | Inr p \<Rightarrow>
          (Got ev, d\<lparr>ds_outstanding := ds_outstanding d @ [p]\<rparr>,
           (case src of Replay \<Rightarrow> count mx_replayed_events_update env | Live \<Rightarrow> count mx_live_events_update env)))"

text \<open>A skipped event uses up a live item, a deferred one, a step of the replay or of the buffer.\<close>

fun deferred_rank :: "event option \<Rightarrow> int \<Rightarrow> nat" where
  "deferred_rank None replay_head = 0"
| "deferred_rank (Some ev) replay_head = (if replay_head < sequence ev then 2 else 1)"

definition rank3 :: "stream_state \<Rightarrow> nat \<times> nat \<times> nat" where
  "rank3 st = (length (sb_queue (live_of st)), deferred_rank (ds_deferred (fst st)) (ds_replay_head (fst st)),
     nat (ds_replay_head (fst st) - sp_sequence (ds_position (fst st))))"

abbreviation less3 :: "((nat \<times> nat \<times> nat) \<times> (nat \<times> nat \<times> nat)) set" where
  "less3 \<equiv> less_than <*lex*> less_than <*lex*> less_than"

definition progress :: "(stream_state \<times> stream_state) set" where
  "progress = inv_image (less3 <*lex*> less_than) (\<lambda>st. (rank3 st, length (ds_buffer (fst st))))"

lemma wf_progress: "wf progress"
  by (simp add: progress_def wf_lex_prod)

lemma progress_iff:
  "(t, s) \<in> progress \<longleftrightarrow> (rank3 t, rank3 s) \<in> less3
     \<or> (rank3 t = rank3 s \<and> length (ds_buffer (fst t)) < length (ds_buffer (fst s)))"
  by (simp add: progress_def)

lemma less3_trans: "(a, b) \<in> less3 \<Longrightarrow> (b, c) \<in> less3 \<Longrightarrow> (a, c) \<in> less3"
  by (meson trans_less_than trans_lex_prod transD)

lemma advance_verified_Inr:
  assumes "advance_verified H ev (d, env) = (Inr u, st')"
  shows "st' = (d\<lparr>ds_position := \<lparr>sp_twin_id = twin_id ev, sp_sequence = sequence ev, sp_event_hash = event_hash ev\<rparr>\<rparr>, env)"
    "twin_id ev = sp_twin_id (ds_position d)" "sequence ev = sp_sequence (ds_position d) + 1"
    "verify H ev (sp_event_hash (ds_position d)) = Inr ()"
    "make_position (twin_id ev) (sequence ev) (event_hash ev) =
       Inr \<lparr>sp_twin_id = twin_id ev, sp_sequence = sequence ev, sp_event_hash = event_hash ev\<rparr>"
  using assms
  by (auto simp: advance_verified_def Let_def make_position_def rejected_def split: if_splits sum.splits error.splits)

lemma hand_out_Got:
  assumes "hand_out H src ev (d, env) = (Got x, st')"
  shows "x = (ev, src)" "advance_verified H ev (d, env) = (Inr (), st')"
  using assms by (auto simp: hand_out_def split: prod.splits sum.splits)

lemma hand_out_rank:
  assumes "hand_out H src ev (d, env) = (Got x, st')"
  shows "length (sb_queue (live_of st')) = length (sb_queue (live_of (d, env)))" "ds_deferred (fst st') = ds_deferred d"
    "ds_buffer (fst st') = ds_buffer d" "ds_replay_head (fst st') = ds_replay_head d"
    "sp_sequence (ds_position (fst st')) = sp_sequence (ds_position d) + 1"
  using advance_verified_Inr[OF hand_out_Got(2)[OF assms]] by (simp_all add: live_of_def)

lemma buffered_progress:
  assumes "candidate_round H head_op load_op (d, env) = Inr (Got x, st')" "ds_buffer d = ev # rest"
  shows "if sp_sequence (ds_position d) < ds_replay_head d then (rank3 st', rank3 (d, env)) \<in> less3
    else rank3 st' = rank3 (d, env) \<and> length (ds_buffer (fst st')) < length (ds_buffer d)"
proof -
  have "hand_out H Replay ev (d\<lparr>ds_buffer := rest\<rparr>, env) = (Got x, st')"
    using assms by (simp add: candidate_round_def)
  from hand_out_rank[OF this] show ?thesis
    using assms(2) by (auto simp: rank3_def)
qed

lemma live_event_progress:
  assumes "live_event H head_op ev (d, env) = Inl st'" "ds_deferred d = None"
  shows "length (sb_queue (live_of st')) = length (sb_queue (live_of (d, env)))"
    "deferred_rank (ds_deferred (fst st')) (ds_replay_head (fst st')) \<le> 1"
  using assms by (auto simp: live_event_def Let_def split: if_splits)

lemma live_event_Got_rank:
  assumes "live_event H head_op ev (d, env) = Inr (Got x, st')"
  shows "length (sb_queue (live_of st')) = length (sb_queue (live_of (d, env)))" "ds_deferred (fst st') = ds_deferred d"
    "ds_buffer (fst st') = ds_buffer d"
proof -
  have "hand_out H Live ev (d, env) = (Got x, st')" using assms by (auto simp: live_event_def Let_def split: if_splits)
  from hand_out_rank[OF this] show "length (sb_queue (live_of st')) = length (sb_queue (live_of (d, env)))"
    "ds_deferred (fst st') = ds_deferred d" "ds_buffer (fst st') = ds_buffer d" by simp_all
qed

lemma round_progress:
  assumes "candidate_round H head_op load_op (d, env) = Inl st'"
  shows "(rank3 st', rank3 (d, env)) \<in> less3
    \<or> (rank3 st' = rank3 (d, env) \<and> ds_buffer (fst st') \<noteq> []
       \<and> sp_sequence (ds_position (fst st')) < ds_replay_head (fst st'))"
proof (cases "ds_buffer d")
  case Nil
  show ?thesis
  proof (cases "sp_sequence (ds_position d) < ds_replay_head d")
    case True
    then show ?thesis using assms Nil
      by (auto simp: candidate_round_def rank3_def Let_def split: sum.splits list.splits)
  next
    case False
    show ?thesis
    proof (cases "ds_deferred d")
      case None
      then obtain ev sb where e: "subscription_next (live_of (d, env)) = (Got ev, sb)"
        "live_event H head_op ev (d, env\<lparr>se_broker := update_subscription (ds_live d) (\<lambda>_. sb) (se_broker env)\<rparr>) = Inl st'"
        using assms Nil False by (auto simp: candidate_round_def split: prod.splits outcome.splits)
      show ?thesis
        using live_event_progress(1)[OF e(2) None] subscription_next_Got[OF e(1)] by (simp add: rank3_def)
    next
      case (Some ev)
      then have l: "live_event H head_op ev (d\<lparr>ds_deferred := None\<rparr>, env) = Inl st'"
        using assms Nil False by (simp add: candidate_round_def)
      then consider "ds_deferred (fst st') = None" | "sp_sequence (ds_position d) + 1 < sequence ev"
        "ds_deferred (fst st') = Some ev" "ds_replay_head (fst st') = sequence ev"
        by (auto simp: live_event_def Let_def split: if_splits)
      then show ?thesis
        using live_event_progress(1)[OF l] Some False by cases (auto simp: rank3_def)
    qed
  qed
qed (use assms in \<open>simp add: candidate_round_def\<close>)

lemma round_Got_progress:
  assumes "candidate_round H head_op load_op (d, env) = Inr (Got x, st')"
  shows "(st', (d, env)) \<in> progress"
proof (cases "ds_buffer d")
  case (Cons ev rest)
  then show ?thesis using buffered_progress[OF assms Cons] by (auto simp: progress_iff split: if_splits)
next
  case Nil
  then have False': "\<not> sp_sequence (ds_position d) < ds_replay_head d"
    using assms by (auto simp: candidate_round_def Let_def split: sum.splits list.splits)
  show ?thesis
  proof (cases "ds_deferred d")
    case None
    then obtain ev sb where e: "subscription_next (live_of (d, env)) = (Got ev, sb)"
      "live_event H head_op ev (d, env\<lparr>se_broker := update_subscription (ds_live d) (\<lambda>_. sb) (se_broker env)\<rparr>) = Inr (Got x, st')"
      using assms Nil False' by (auto simp: candidate_round_def split: prod.splits outcome.splits)
    show ?thesis
      using live_event_Got_rank(1)[OF e(2)] subscription_next_Got[OF e(1)] by (simp add: rank3_def progress_iff)
  next
    case (Some ev)
    then have "live_event H head_op ev (d\<lparr>ds_deferred := None\<rparr>, env) = Inr (Got x, st')"
      using assms Nil False' by (simp add: candidate_round_def)
    from live_event_Got_rank[OF this] show ?thesis using Some by (auto simp: rank3_def progress_iff)
  qed
qed

lemma next_candidate_progress:
  "next_candidate H head_op load_op st = (Got x, st') \<Longrightarrow> (st', st) \<in> progress"
proof (induction H head_op load_op st rule: next_candidate.induct)
  case (1 H head_op load_op st)
  obtain d env where st: "st = (d, env)" by (cases st)
  show ?case
  proof (cases "candidate_round H head_op load_op st")
    case (Inr res)
    then show ?thesis using "1.prems" round_Got_progress[of H head_op load_op d env x st'] st
      by (subst (asm) next_candidate.simps) simp
  next
    case (Inl st1)
    then have nxt: "next_candidate H head_op load_op st1 = (Got x, st')"
      using "1.prems" by (subst (asm) next_candidate.simps) simp
    have ih: "(st', st1) \<in> progress" by (rule "1.IH"[OF Inl nxt])
    from round_progress[OF Inl[unfolded st]] show ?thesis
    proof
      assume a: "(rank3 st1, rank3 (d, env)) \<in> less3"
      have "(rank3 st', rank3 st1) \<in> less3 \<or> rank3 st' = rank3 st1" using ih unfolding progress_iff by blast
      then have "(rank3 st', rank3 (d, env)) \<in> less3" using less3_trans[OF _ a] a by fastforce
      then show ?thesis unfolding progress_iff st by blast
    next
      assume b: "rank3 st1 = rank3 (d, env) \<and> ds_buffer (fst st1) \<noteq> []
         \<and> sp_sequence (ds_position (fst st1)) < ds_replay_head (fst st1)"
      obtain d1 env1 where st1: "st1 = (d1, env1)" by (cases st1)
      obtain ev rest where buf: "ds_buffer d1 = ev # rest" using b st1 by (cases "ds_buffer d1") auto
      obtain res where res: "candidate_round H head_op load_op (d1, env1) = Inr res"
        using buf by (simp add: candidate_round_def)
      then have "res = (Got x, st')" using nxt st1 by (subst (asm) next_candidate.simps) simp
      then show ?thesis using buffered_progress[OF res[unfolded \<open>res = _\<close>] buf] b st st1 by (simp add: progress_iff)
    qed
  qed
qed

text \<open>The loop of \<open>DurableSubscription.__anext__\<close>, and the method.\<close>

function next_visible ::
  "(string \<Rightarrow> string) \<Rightarrow> head_op \<Rightarrow> load_op \<Rightarrow> stream_state \<Rightarrow> event outcome \<times> stream_state" where
  "next_visible H head_op load_op st =
     (case next_candidate H head_op load_op st of
        (Got (ev, src), st') \<Rightarrow>
          if visible (fst st') ev then deliver ev src st'
          else next_visible H head_op load_op (advance_ack_over_filtered (fst st'), snd st')
      | (Raised (IntegrityError m), st') \<Rightarrow> (Raised (IntegrityError m), durable_close st')
      | (Raised err, st') \<Rightarrow> (Raised err, st')
      | (Wait, st') \<Rightarrow> (Wait, st')
      | (Stopped, st') \<Rightarrow> (Stopped, st'))"
  by pat_completeness auto

lemma rank_advance_ack [simp]:
  "rank3 (advance_ack_over_filtered d, env) = rank3 (d, env)" "ds_buffer (advance_ack_over_filtered d) = ds_buffer d"
  by (simp_all add: rank3_def live_of_def advance_ack_over_filtered_def)

lemma progress_skip: "((d, env), s) \<in> progress \<Longrightarrow> ((advance_ack_over_filtered d, env), s) \<in> progress"
  by (simp add: progress_iff)

termination next_visible
  by (relation "inv_image progress (\<lambda>(H, head_op, load_op, st). st)")
    (auto simp: wf_progress intro!: progress_skip intro: next_candidate_progress[OF sym])

declare next_visible.simps [simp del]

definition durable_next ::
  "(string \<Rightarrow> string) \<Rightarrow> head_op \<Rightarrow> load_op \<Rightarrow> stream_state \<Rightarrow> event outcome \<times> stream_state" where
  "durable_next H head_op load_op st =
     (let (d, env) = st in
      if ds_closed d then (Stopped, st)
      else if sl_max_in_flight (ds_limits d) \<le> int (length (ds_outstanding d))
      then (Raised (BackpressureExceeded ''unacknowledged delivery window exceeded; reconnect with last cursor''),
            durable_close (d, count mx_backpressure_closes_update env))
      else next_visible H head_op load_op st)"

section \<open>Acknowledgements\<close>

definition protocol_error :: "string \<Rightarrow> 'a result" where
  "protocol_error m = Inl (ProtocolViolation m)"

definition outstanding_at :: "int \<Rightarrow> durable \<Rightarrow> stream_position option" where
  "outstanding_at n d = find (\<lambda>p. sp_sequence p = n) (ds_outstanding d)"

definition acknowledge :: "stream_position \<Rightarrow> durable \<Rightarrow> (stream_position \<times> durable) result" where
  "acknowledge p d =
     (let acked = ds_acknowledged d in
      if sp_twin_id p \<noteq> sp_twin_id (ds_position d) then protocol_error ''acknowledgement is bound to another twin''
      else if sp_sequence p < sp_sequence acked then protocol_error ''acknowledgement sequence cannot regress''
      else if sp_sequence p = sp_sequence acked
      then (if sp_event_hash p \<noteq> sp_event_hash acked
            then protocol_error ''acknowledgement hash does not match its sequence'' else Inr (acked, d))
      else (case outstanding_at (sp_sequence p) d of
          None \<Rightarrow> protocol_error ''acknowledgement was not issued by this stream''
        | Some matched \<Rightarrow>
            if sp_event_hash matched \<noteq> sp_event_hash p then protocol_error ''acknowledgement was not issued by this stream''
            else Inr (p, d\<lparr>ds_outstanding := dropWhile (\<lambda>q. sp_sequence q \<le> sp_sequence p) (ds_outstanding d),
                           ds_acknowledged := p\<rparr>)))"

definition acknowledgement_candidate :: "int \<Rightarrow> durable \<Rightarrow> stream_position result" where
  "acknowledgement_candidate n d =
     (if n = sp_sequence (ds_acknowledged d) then Inr (ds_acknowledged d)
      else (case outstanding_at n d of
          None \<Rightarrow> protocol_error ''acknowledgement was not issued by this stream''
        | Some matched \<Rightarrow> Inr matched))"

end
