(* ===== verification/K2_Stream_Laws.thy ===== *)
theory K2_Stream_Laws
  imports K2_Stream
begin

text \<open>
  Laws of the durable subscriptions. Over a numbered hash chain of events the subscription hands out
  exactly the next events of the chain that its filters let through, in order, each once, whatever
  the live queue brings (duplicates, gaps, stale items); it waits only where nothing is left; what
  the client has not acknowledged is exactly the visible events since its last acknowledgement. The
  locale \<open>event_source\<close> is what the subscription uses of the event store.
\<close>

section \<open>Positions of a chain\<close>

definition position_at :: "string \<Rightarrow> event list \<Rightarrow> nat \<Rightarrow> stream_position" where
  "position_at twin c n =
     \<lparr>sp_twin_id = twin, sp_sequence = int n, sp_event_hash = last_hash [] (take n c)\<rparr>"

lemma last_hash_take: "n < length c \<Longrightarrow> last_hash [] (take (Suc n) c) = event_hash (c ! n)"
  by (simp add: last_hash_def take_Suc_conv_app_nth)

lemma position_at_Suc:
  "n < length c \<Longrightarrow> position_at twin c (Suc n) = \<lparr>sp_twin_id = twin, sp_sequence = int n + 1, sp_event_hash = event_hash (c ! n)\<rparr>"
  by (simp add: position_at_def last_hash_take)

lemma position_at_prefix: "n \<le> length c \<Longrightarrow> position_at twin (c @ c') n = position_at twin c n"
  by (simp add: position_at_def)

lemma chain_verify_nth:
  assumes "chain_ok H [] 1 c" "n < length c"
  shows "verify H (c ! n) (last_hash [] (take n c)) = Inr ()" "sequence (c ! n) = int n + 1"
proof -
  have "c = take n c @ c ! n # drop (Suc n) c" using assms(2) by (rule id_take_nth_drop)
  then have "chain_ok H [] 1 (take n c @ c ! n # drop (Suc n) c)" using assms(1) by simp
  then show "verify H (c ! n) (last_hash [] (take n c)) = Inr ()" by (simp add: chain_ok_append)
  show "sequence (c ! n) = int n + 1" using chain_ok_nth[OF assms] by simp
qed

text \<open>Events of the chain with their positions are told apart by their numbers.\<close>

lemma chain_event:
  assumes "chain_ok H [] 1 c" "ev \<in> set c"
  obtains i where "i < length c" "ev = c ! i" "sequence ev = int i + 1"
  using assms chain_verify_nth(2)[OF assms(1)] by (metis in_set_conv_nth)

lemma chain_slice:
  assumes "chain_ok H [] 1 c" "n \<le> length c"
  shows "filter (\<lambda>e. int n < sequence e \<and> sequence e \<le> u) c = drop n (take (nat u) c)"
proof -
  let ?p = "\<lambda>e. int n < sequence e \<and> sequence e \<le> u"
  let ?k = "nat u"
  have seq: "sequence (c ! i) = int i + 1" if "i < length c" for i using chain_verify_nth(2)[OF assms(1) that] .
  show ?thesis
  proof (cases "n \<le> ?k")
    case True
    define b where "b = drop n (take ?k c)"
    have "take ?k c = take n c @ b" unfolding b_def using True by (metis append_take_drop_id min.absorb1 take_take)
    then have c: "c = take n c @ b @ drop ?k c" by (metis append.assoc append_take_drop_id)
    have a: "filter ?p (take n c) = []"
      using assms(2) seq by (auto simp: filter_empty_conv in_set_conv_nth)
    have d: "filter ?p (drop ?k c) = []"
      using seq by (auto simp: filter_empty_conv in_set_conv_nth split: if_splits)
    have "filter ?p b = b"
      unfolding b_def using seq True by (auto simp: filter_id_conv in_set_conv_nth)
    then have "filter ?p (take n c @ b @ drop ?k c) = b" using a d by simp
    then have "filter ?p c = b" by (rule trans[OF arg_cong[OF c]])
    then show ?thesis by (simp only: b_def)
  next
    case False
    then have "filter ?p c = []" using seq by (auto simp: filter_empty_conv in_set_conv_nth)
    then show ?thesis using False by simp
  qed
qed

section \<open>What a subscription uses of the store\<close>

definition names_chain :: "string \<Rightarrow> event list \<Rightarrow> bool" where
  "names_chain twin c \<longleftrightarrow> (\<forall>e\<in>set c. twin_id e = twin \<and> hash_pattern (event_hash e))"

locale event_source =
  fixes H :: "string \<Rightarrow> string"
    and source_ok :: "'w \<Rightarrow> bool"
    and chain :: "'w \<Rightarrow> string \<Rightarrow> event list"
    and head_op :: "'w \<Rightarrow> head_op"
    and load_op :: "'w \<Rightarrow> load_op"
  assumes chain_law: "source_ok w \<Longrightarrow> chain_ok H [] 1 (chain w twin)"
    and names_law: "source_ok w \<Longrightarrow> names_chain twin (chain w twin)"
    and head_law: "source_ok w \<Longrightarrow> fst (head_op w twin) = int (length (chain w twin))"
    and load_law: "source_ok w \<Longrightarrow> 0 \<le> after \<Longrightarrow> 0 < k \<Longrightarrow> load_op w twin after (Some u) (Some k) =
      Inr (take (nat k) (filter (\<lambda>e. after < sequence e \<and> sequence e \<le> u) (chain w twin)))"

section \<open>The state of a subscription\<close>

definition live_items :: "stream_state \<Rightarrow> event set" where
  "live_items st = {ev. Item ev \<in> set (sb_queue (live_of st))} \<union> set_option (ds_deferred (fst st))"

definition core :: "string \<Rightarrow> event list \<Rightarrow> nat \<Rightarrow> stream_state \<Rightarrow> bool" where
  "core twin c n st \<longleftrightarrow>
     (let d = fst st in
      n \<le> length c \<and> twin \<noteq> [] \<and> ds_position d = position_at twin c n
      \<and> prefix (ds_buffer d) (drop n c) \<and> ds_replay_head d \<le> int (length c)
      \<and> live_items st \<subseteq> set c \<and> sb_twin_id (live_of st) = twin \<and> 1 \<le> sl_replay_page_size (ds_limits d))"

definition same_window :: "stream_state \<Rightarrow> stream_state \<Rightarrow> bool" where
  "same_window s t \<longleftrightarrow> ds_acknowledged (fst t) = ds_acknowledged (fst s) \<and> ds_outstanding (fst t) = ds_outstanding (fst s)
     \<and> ds_event_types (fst t) = ds_event_types (fst s) \<and> ds_planes (fst t) = ds_planes (fst s)
     \<and> ds_limits (fst t) = ds_limits (fst s) \<and> ds_live (fst t) = ds_live (fst s)"

lemma same_window_refl [simp]: "same_window s s"
  by (simp add: same_window_def)

lemma same_window_trans: "same_window s t \<Longrightarrow> same_window t u \<Longrightarrow> same_window s u"
  by (simp add: same_window_def)

lemma subscription_end_simps [simp]:
  "subscription_end sb \<noteq> Wait" "subscription_end sb \<noteq> Got ev"
  "Wait \<noteq> subscription_end sb" "Got ev \<noteq> subscription_end sb"
  by (auto simp: subscription_end_def split: option.splits)

lemma subscription_end_Raised: "subscription_end sb = Raised err \<Longrightarrow> \<exists>m. err = BackpressureExceeded m"
  by (auto simp: subscription_end_def split: option.splits if_splits)

lemma subscription_next_queue: "subscription_next sb = (res, sb') \<Longrightarrow> set (sb_queue sb') \<subseteq> set (sb_queue sb)"
  by (auto simp: subscription_next_def split: if_splits list.splits queue_item.splits)

lemma subscription_next_twin: "subscription_next sb = (res, sb') \<Longrightarrow> sb_twin_id sb' = sb_twin_id sb"
  by (auto simp: subscription_next_def split: if_splits list.splits queue_item.splits)

lemma subscription_next_Item: "subscription_next sb = (Got ev, sb') \<Longrightarrow> Item ev \<in> set (sb_queue sb)"
  by (auto dest: subscription_end_Raised simp: subscription_next_def split: if_splits list.splits queue_item.splits)

lemma subscription_next_Wait: "subscription_next sb = (Wait, sb') \<Longrightarrow> sb_queue sb = [] \<and> \<not> sb_closed sb"
  by (auto dest: subscription_end_Raised simp: subscription_next_def split: if_splits list.splits queue_item.splits)

lemma subscription_next_Raised: "subscription_next sb = (Raised err, sb') \<Longrightarrow> \<exists>m. err = BackpressureExceeded m"
  by (auto dest: subscription_end_Raised simp: subscription_next_def split: if_splits list.splits queue_item.splits)

lemma live_of_closed [simp]: "live_of (d\<lparr>ds_closed := b\<rparr>, env) = live_of (d, env)"
  by (simp add: live_of_def)

context event_source
begin

lemma hand_out_next:
  assumes "ds_position d = position_at twin (chain w twin) n" "twin \<noteq> []" "n < length (chain w twin)" "ev = chain w twin ! n"
    and w_ok: "source_ok w"
  shows "hand_out H src ev (d, env) = (Got (ev, src), d\<lparr>ds_position := position_at twin (chain w twin) (Suc n)\<rparr>, env)"
proof -
  let ?c = "chain w twin"
  have ev: "twin_id ev = twin" "hash_pattern (event_hash ev)"
    using names_law[OF w_ok, of twin] assms(3,4) by (auto simp: names_chain_def)
  have seq: "sequence ev = int n + 1" using chain_verify_nth(2)[OF chain_law[OF w_ok] assms(3)] assms(4) by simp
  have v: "verify H ev (sp_event_hash (ds_position d)) = Inr ()"
    using chain_verify_nth(1)[OF chain_law[OF w_ok] assms(3)] assms(1,4) by (simp add: position_at_def)
  have "make_position (twin_id ev) (sequence ev) (event_hash ev) = Inr (position_at twin ?c (Suc n))"
    using ev seq assms(2-4) by (simp add: make_position_def position_at_Suc)
  then show ?thesis
    using v ev(1) seq assms(1) by (simp add: hand_out_def advance_verified_def position_at_def Let_def)
qed

lemma live_event_core:
  assumes "core twin (chain w twin) n (d, env)" "ds_buffer d = []" "ev \<in> set (chain w twin)" "ds_deferred d = None"
    and w_ok: "source_ok w"
  shows "case live_event H (head_op w) ev (d, env) of
      Inl t \<Rightarrow> core twin (chain w twin) n t \<and> same_window (d, env) t
    | Inr (res, t) \<Rightarrow> \<exists>src. n < length (chain w twin) \<and> res = Got (chain w twin ! n, src)
        \<and> core twin (chain w twin) (Suc n) t \<and> same_window (d, env) t"
proof -
  let ?c = "chain w twin"
  obtain i where i: "i < length ?c" "ev = ?c ! i" "sequence ev = int i + 1" by (rule chain_event[OF chain_law[OF w_ok] assms(3)])
  have p: "sp_sequence (ds_position d) = int n" "sp_twin_id (ds_position d) = twin"
    using assms(1) by (auto simp: core_def Let_def position_at_def)
  consider "i < n" | "i = n" | "n < i" by linarith
  then show ?thesis
  proof cases
    case 1
    then show ?thesis using assms(1) i p by (simp add: live_event_def Let_def core_def same_window_def live_items_def)
  next
    case 2
    then have "live_event H (head_op w) ev (d, env) = Inr (hand_out H Live ev (d, env))" using i p by (simp add: live_event_def Let_def)
    moreover have "core twin ?c (Suc n) (d\<lparr>ds_position := position_at twin ?c (Suc n)\<rparr>, env)"
      using assms(1,2) 2 i(1) by (simp add: core_def Let_def live_items_def live_of_def)
    ultimately show ?thesis
      using hand_out_next[of d twin w n ev Live env] assms(1) w_ok 2 i(1,2) by (simp add: same_window_def core_def Let_def)
  next
    case 3
    then show ?thesis
      using assms i p head_law[OF w_ok, of twin]
      by (auto simp: live_event_def Let_def core_def same_window_def live_items_def)
  qed
qed

text \<open>One round: the state stays at its event, or the next event of the chain is handed out.\<close>

lemma round_core:
  assumes "core twin (chain w twin) n st"
    and w_ok: "source_ok w"
  shows "case candidate_round H (head_op w) (load_op w) st of
      Inl t \<Rightarrow> core twin (chain w twin) n t \<and> same_window st t
    | Inr (Got (ev, src), t) \<Rightarrow> n < length (chain w twin) \<and> ev = chain w twin ! n \<and> core twin (chain w twin) (Suc n) t \<and> same_window st t
    | Inr (Wait, t) \<Rightarrow> t = st \<and> ds_replay_head (fst st) \<le> int n \<and> sb_queue (live_of st) = [] \<and> ds_deferred (fst st) = None
        \<and> \<not> sb_closed (live_of st)
    | Inr (Stopped, t) \<Rightarrow> core twin (chain w twin) n t \<and> same_window st t
    | Inr (Raised err, t) \<Rightarrow> (\<exists>m. err = BackpressureExceeded m) \<and> core twin (chain w twin) n t \<and> same_window st t"
proof -
  let ?c = "chain w twin"
  obtain d env where st: "st = (d, env)" by (cases st)
  have c: "n \<le> length ?c" "ds_position d = position_at twin ?c n" "prefix (ds_buffer d) (drop n ?c)"
    "ds_replay_head d \<le> int (length ?c)" "live_items st \<subseteq> set ?c" "1 \<le> sl_replay_page_size (ds_limits d)"
    using assms st by (simp_all add: core_def Let_def)
  show ?thesis
  proof (cases "ds_buffer d")
    case (Cons ev rest)
    then have n: "n < length ?c" using c(3) by (metis drop_all linorder_not_less prefix_Nil list.distinct(1))
    then have ev: "ev = ?c ! n" "prefix rest (drop (Suc n) ?c)" using c(3) Cons by (auto simp: Cons_nth_drop_Suc[symmetric])
    have "hand_out H Replay ev (d\<lparr>ds_buffer := rest\<rparr>, env)
        = (Got (ev, Replay), d\<lparr>ds_buffer := rest, ds_position := position_at twin ?c (Suc n)\<rparr>, env)"
      using hand_out_next[of "d\<lparr>ds_buffer := rest\<rparr>" twin w n ev Replay env] assms st n ev(1)
      by (simp add: core_def Let_def)
    then have "candidate_round H (head_op w) (load_op w) st
        = Inr (Got (ev, Replay), d\<lparr>ds_buffer := rest, ds_position := position_at twin ?c (Suc n)\<rparr>, env)"
      using Cons st by (simp add: candidate_round_def)
    moreover have "core twin ?c (Suc n) (d\<lparr>ds_buffer := rest, ds_position := position_at twin ?c (Suc n)\<rparr>, env)"
      using assms st n ev(2) by (simp add: core_def Let_def live_items_def live_of_def)
    ultimately show ?thesis using n ev(1) st by (simp add: same_window_def)
  next
    case Nil
    show ?thesis
    proof (cases "int n < ds_replay_head d")
      case True
      let ?h = "ds_replay_head d" and ?k = "sl_replay_page_size (ds_limits d)"
      have "load_op w twin (int n) (Some ?h) (Some ?k) = Inr (take (nat ?k) (drop n (take (nat ?h) ?c)))"
        using load_law[OF w_ok, of "int n" ?k twin ?h] c(6) chain_slice[OF chain_law[OF w_ok] c(1), of ?h] by simp
      moreover have "take (nat ?k) (drop n (take (nat ?h) ?c)) \<noteq> []" using True c(4,6) by simp
      moreover have "prefix (take (nat ?k) (drop n (take (nat ?h) ?c))) (drop n ?c)"
        by (metis append_take_drop_id drop_take prefixI prefix_order.trans take_is_prefix)
      ultimately obtain ev evs where l: "load_op w twin (int n) (Some ?h) (Some ?k) = Inr (ev # evs)" "prefix (ev # evs) (drop n ?c)"
        by (metis neq_Nil_conv)
      have "candidate_round H (head_op w) (load_op w) st = Inl (d\<lparr>ds_buffer := ev # evs\<rparr>, env)"
        using st Nil True c(2) l(1) by (simp add: candidate_round_def position_at_def Let_def)
      then show ?thesis using assms st l(2) by (simp add: core_def Let_def same_window_def live_items_def)
    next
      case False
      then have head: "\<not> sp_sequence (ds_position d) < ds_replay_head d" by (simp add: c(2) position_at_def)
      show ?thesis
      proof (cases "ds_deferred d")
        case (Some ev)
        then have "candidate_round H (head_op w) (load_op w) st = live_event H (head_op w) ev (d\<lparr>ds_deferred := None\<rparr>, env)"
          using st Nil head by (simp add: candidate_round_def Let_def)
        moreover have "ev \<in> set ?c" using c(5) Some st by (auto simp: live_items_def)
        moreover have "core twin ?c n (d\<lparr>ds_deferred := None\<rparr>, env)"
          using assms st by (auto simp: core_def Let_def live_items_def)
        moreover have "same_window (d\<lparr>ds_deferred := None\<rparr>, env) t \<longleftrightarrow> same_window st t" for t using st by (simp add: same_window_def)
        ultimately show ?thesis
          using live_event_core[of twin w n "d\<lparr>ds_deferred := None\<rparr>" env ev] w_ok Nil by (auto split: sum.splits)
      next
        case None
        obtain res sb where sb: "subscription_next (live_of st) = (res, sb)" by (cases "subscription_next (live_of st)")
        let ?env = "env\<lparr>se_broker := update_subscription (ds_live d) (\<lambda>_. sb) (se_broker env)\<rparr>"
        have items: "live_items (d, ?env) \<subseteq> set ?c" "live_items (d\<lparr>ds_closed := True\<rparr>, ?env) \<subseteq> set ?c"
          using subscription_next_queue[OF sb] c(5) None st by (auto simp: live_items_def live_of_closed)
        have core': "core twin ?c n (d, ?env)" "core twin ?c n (d\<lparr>ds_closed := True\<rparr>, ?env)"
          using assms st items subscription_next_twin[OF sb] by (simp_all add: core_def Let_def live_of_closed)
        show ?thesis
        proof (cases res)
          case (Got ev)
          then have "candidate_round H (head_op w) (load_op w) st = live_event H (head_op w) ev (d, ?env)"
            using st Nil head None sb by (simp add: candidate_round_def Let_def)
          moreover have "ev \<in> set ?c"
            using subscription_next_Item[OF sb[unfolded Got]] c(5) st by (auto simp: live_items_def)
          moreover have "same_window (d, ?env) t \<longleftrightarrow> same_window st t" for t using st by (simp add: same_window_def)
          ultimately show ?thesis
            using live_event_core[OF core'(1) Nil _ None w_ok, of ev] by (auto split: sum.splits)
        next
          case Wait
          then show ?thesis
            using sb st Nil head None c(2) subscription_next_Wait[of "live_of st" sb]
            by (simp add: candidate_round_def Let_def position_at_def)
        next
          case Stopped
          then show ?thesis using sb st Nil head None core'(1) by (simp add: candidate_round_def Let_def same_window_def)
        next
          case (Raised err)
          have "core twin ?c n (d\<lparr>ds_closed := True\<rparr>, count mx_backpressure_closes_update ?env)"
            using core'(2) by (simp add: core_def Let_def live_items_def live_of_def)
          then show ?thesis
            using Raised sb st Nil head None subscription_next_Raised[OF sb[unfolded Raised]]
            by (simp add: candidate_round_def Let_def same_window_def)
        qed
      qed
    qed
  qed
qed

lemma candidate_core:
  assumes "core twin (chain w twin) n st"
    and w_ok: "source_ok w"
  shows "case next_candidate H (head_op w) (load_op w) st of
      (Got (ev, src), t) \<Rightarrow> n < length (chain w twin) \<and> ev = chain w twin ! n \<and> core twin (chain w twin) (Suc n) t \<and> same_window st t
    | (Wait, t) \<Rightarrow> core twin (chain w twin) n t \<and> same_window st t \<and> ds_replay_head (fst t) \<le> int n
        \<and> sb_queue (live_of t) = [] \<and> ds_deferred (fst t) = None
    | (Stopped, t) \<Rightarrow> core twin (chain w twin) n t \<and> same_window st t
    | (Raised err, t) \<Rightarrow> (\<exists>m. err = BackpressureExceeded m) \<and> core twin (chain w twin) n t \<and> same_window st t"
  using assms(1)
proof (induction "rounds_left st" arbitrary: st rule: less_induct)
  case less
  note r = round_core[OF less.prems w_ok]
  show ?case
  proof (cases "candidate_round H (head_op w) (load_op w) st")
    case (Inl u)
    then have u: "core twin (chain w twin) n u" "same_window st u" using r by simp_all
    have "next_candidate H (head_op w) (load_op w) st = next_candidate H (head_op w) (load_op w) u"
      using Inl by (subst next_candidate.simps) simp
    then show ?thesis
      using less.hyps[OF candidate_round_decreases[OF Inl] u(1)] same_window_trans[OF u(2)]
      by (auto split: prod.splits outcome.splits)
  next
    case (Inr res)
    then have "next_candidate H (head_op w) (load_op w) st = res" by (subst next_candidate.simps) simp
    then show ?thesis using r Inr less.prems by (auto split: prod.splits outcome.splits)
  qed
qed

end

section \<open>The window of unacknowledged events\<close>

definition pos_of :: "event \<Rightarrow> stream_position" where
  "pos_of ev = \<lparr>sp_twin_id = twin_id ev, sp_sequence = sequence ev, sp_event_hash = event_hash ev\<rparr>"

definition window :: "string \<Rightarrow> event list \<Rightarrow> nat \<Rightarrow> nat \<Rightarrow> durable \<Rightarrow> bool" where
  "window twin c m n d \<longleftrightarrow> m \<le> n \<and> ds_acknowledged d = position_at twin c m
     \<and> ds_outstanding d = map pos_of (filter (visible d) (drop m (take n c)))"

definition same_filters :: "durable \<Rightarrow> durable \<Rightarrow> bool" where
  "same_filters d d' \<longleftrightarrow> ds_event_types d' = ds_event_types d \<and> ds_planes d' = ds_planes d
     \<and> ds_limits d' = ds_limits d \<and> ds_live d' = ds_live d"

lemma same_filters_visible: "same_filters d d' \<Longrightarrow> visible d' = visible d"
  by (auto simp: same_filters_def visible_def fun_eq_iff)

lemma same_filters_refl [simp]: "same_filters d d"
  by (simp add: same_filters_def)

lemma same_filters_trans: "same_filters d e \<Longrightarrow> same_filters e f \<Longrightarrow> same_filters d f"
  by (simp add: same_filters_def)

lemma same_window_filters: "same_window s t \<Longrightarrow> same_filters (fst s) (fst t)"
  by (simp add: same_window_def same_filters_def)

lemma window_same: "same_window s t \<Longrightarrow> window twin c m n (fst s) \<Longrightarrow> window twin c m n (fst t)"
  by (frule same_filters_visible[OF same_window_filters]) (simp add: window_def same_window_def)

lemma drop_take_Suc: "m \<le> n \<Longrightarrow> n < length c \<Longrightarrow> drop m (take (Suc n) c) = drop m (take n c) @ [c ! n]"
  by (simp add: take_Suc_conv_app_nth)

text \<open>An invisible event widens the window by nothing, or moves the acknowledgement over it.\<close>

lemma window_skip:
  assumes "window twin c m n d" "n < length c" "\<not> visible d (c ! n)" "ds_position d = position_at twin c (Suc n)"
  shows "\<exists>m'\<ge>m. window twin c m' (Suc n) (advance_ack_over_filtered d)"
proof (cases "ds_outstanding d = []")
  case True
  have v: "visible (d\<lparr>ds_acknowledged := q\<rparr>) = visible d" for q by (simp add: visible_def fun_eq_iff)
  have "window twin c (Suc n) (Suc n) (advance_ack_over_filtered d)"
    using True assms(4) by (simp add: advance_ack_over_filtered_def window_def)
  then show ?thesis using assms(1) by (intro exI[of _ "Suc n"]) (simp add: window_def)
next
  case False
  then have "advance_ack_over_filtered d = d" by (simp add: advance_ack_over_filtered_def)
  moreover have "window twin c m (Suc n) d"
    using assms(1-3) by (simp add: window_def drop_take_Suc)
  ultimately show ?thesis by auto
qed

definition skipped :: "event list \<Rightarrow> durable \<Rightarrow> nat \<Rightarrow> nat \<Rightarrow> bool" where
  "skipped c d n k \<longleftrightarrow> n \<le> k \<and> (\<forall>j. n \<le> j \<and> j < k \<longrightarrow> \<not> visible d (c ! j))"

lemma core_advance_ack: "core twin c n (advance_ack_over_filtered d, env) = core twin c n (d, env)"
  by (simp add: core_def Let_def live_items_def live_of_def advance_ack_over_filtered_def)

lemma core_outstanding [simp]:
  "core twin c n (d\<lparr>ds_outstanding := q\<rparr>, env) = core twin c n (d, env)"
  "core twin c n (d, env\<lparr>se_metrics := x\<rparr>) = core twin c n (d, env)"
  by (simp_all add: core_def Let_def live_items_def live_of_def)

context event_source
begin

lemma deliver_next_event:
  assumes "core twin (chain w twin) (Suc n) (d, env)" "window twin (chain w twin) m n d" "n < length (chain w twin)"
    and "visible d (chain w twin ! n)"
    and w_ok: "source_ok w"
  shows "\<exists>env'. deliver (chain w twin ! n) src (d, env) = (Got (chain w twin ! n), d\<lparr>ds_outstanding := ds_outstanding d @ [pos_of (chain w twin ! n)]\<rparr>, env')
    \<and> core twin (chain w twin) (Suc n) (d\<lparr>ds_outstanding := ds_outstanding d @ [pos_of (chain w twin ! n)]\<rparr>, env')
    \<and> window twin (chain w twin) m (Suc n) (d\<lparr>ds_outstanding := ds_outstanding d @ [pos_of (chain w twin ! n)]\<rparr>)"
proof -
  let ?ev = "chain w twin ! n"
  have ev: "twin_id ?ev = twin" "hash_pattern (event_hash ?ev)"
    using names_law[OF w_ok, of twin] assms(3) by (auto simp: names_chain_def)
  have "twin \<noteq> []" using assms(1) by (simp add: core_def Let_def)
  then have "make_position (twin_id ?ev) (sequence ?ev) (event_hash ?ev) = Inr (pos_of ?ev)"
    using ev chain_verify_nth(2)[OF chain_law[OF w_ok] assms(3)] by (simp add: make_position_def pos_of_def)
  moreover have "visible (d\<lparr>ds_outstanding := q\<rparr>) = visible d" for q by (simp add: visible_def fun_eq_iff)
  then have "window twin (chain w twin) m (Suc n) (d\<lparr>ds_outstanding := ds_outstanding d @ [pos_of ?ev]\<rparr>)"
    using assms(2-4) by (simp add: window_def drop_take_Suc)
  ultimately show ?thesis using assms(1) by (cases src) (simp_all add: deliver_def)
qed

text \<open>
  The next visible event of the chain, or why there is none: everything from \<open>n\<close> to where the
  subscription stands was filtered out.
\<close>

lemma next_visible_core:
  assumes "core twin (chain w twin) n st" "window twin (chain w twin) m n (fst st)"
    and w_ok: "source_ok w"
  shows "case next_visible H (head_op w) (load_op w) st of
      (Got ev, t) \<Rightarrow> \<exists>k m'. skipped (chain w twin) (fst st) n k \<and> k < length (chain w twin) \<and> ev = chain w twin ! k
        \<and> visible (fst st) ev \<and> core twin (chain w twin) (Suc k) t \<and> window twin (chain w twin) m' (Suc k) (fst t)
        \<and> same_filters (fst st) (fst t)
    | (Wait, t) \<Rightarrow> \<exists>k m'. skipped (chain w twin) (fst st) n k \<and> core twin (chain w twin) k t
        \<and> window twin (chain w twin) m' k (fst t) \<and> same_filters (fst st) (fst t)
        \<and> ds_replay_head (fst t) \<le> int k \<and> sb_queue (live_of t) = [] \<and> ds_deferred (fst t) = None
    | (Stopped, t) \<Rightarrow> \<exists>k m'. skipped (chain w twin) (fst st) n k \<and> core twin (chain w twin) k t
        \<and> window twin (chain w twin) m' k (fst t) \<and> same_filters (fst st) (fst t)
    | (Raised err, t) \<Rightarrow> (\<exists>x. err = BackpressureExceeded x) \<and> (\<exists>k m'. skipped (chain w twin) (fst st) n k
        \<and> core twin (chain w twin) k t \<and> window twin (chain w twin) m' k (fst t) \<and> same_filters (fst st) (fst t))"
  using assms(1,2)
proof (induction st arbitrary: n m rule: wf_induct_rule[OF wf_progress])
  case (1 st)
  note c = candidate_core[OF "1.prems"(1) w_ok]
  have refl: "skipped (chain w twin) (fst st) n n" by (auto simp: skipped_def)
  obtain res t where rt: "next_candidate H (head_op w) (load_op w) st = (res, t)" by (cases "next_candidate H (head_op w) (load_op w) st")
  show ?case
  proof (cases res)
    case (Got evs)
    obtain ev src where es: "evs = (ev, src)" by (cases evs)
    have k: "n < length (chain w twin)" "ev = chain w twin ! n" "core twin (chain w twin) (Suc n) t" "same_window st t"
      using c rt Got es by simp_all
    have vis: "visible (fst t) = visible (fst st)" using same_filters_visible[OF same_window_filters[OF k(4)]] .
    have w: "window twin (chain w twin) m n (fst t)" using window_same[OF k(4) "1.prems"(2)] .
    show ?thesis
    proof (cases "visible (fst t) ev")
      case True
      then have "next_visible H (head_op w) (load_op w) st = deliver ev src t"
        using rt Got es by (subst next_visible.simps) simp
      moreover obtain env' where "deliver ev src t = (Got ev, fst t\<lparr>ds_outstanding := ds_outstanding (fst t) @ [pos_of ev]\<rparr>, env')"
        "core twin (chain w twin) (Suc n) (fst t\<lparr>ds_outstanding := ds_outstanding (fst t) @ [pos_of ev]\<rparr>, env')"
        "window twin (chain w twin) m (Suc n) (fst t\<lparr>ds_outstanding := ds_outstanding (fst t) @ [pos_of ev]\<rparr>)"
        using deliver_next_event[of twin w n "fst t" "snd t" m src] w_ok k(1,2,3) w True by auto
      moreover have "same_filters (fst st) (fst t\<lparr>ds_outstanding := q\<rparr>)" for q
        using same_window_filters[OF k(4)] by (simp add: same_filters_def)
      ultimately show ?thesis using refl k(1,2) True vis by auto
    next
      case False
      let ?u = "(advance_ack_over_filtered (fst t), snd t)"
      have nv: "next_visible H (head_op w) (load_op w) st = next_visible H (head_op w) (load_op w) ?u"
        using rt Got es False by (subst next_visible.simps) simp
      have u: "(?u, st) \<in> progress" using next_candidate_progress[of H "head_op w" "load_op w" st evs t] rt Got
        by (cases t) (simp add: progress_skip)
      have core': "core twin (chain w twin) (Suc n) ?u" using k(3) core_advance_ack[of _ _ _ "fst t" "snd t"] by simp
      have "ds_position (fst t) = position_at twin (chain w twin) (Suc n)" using k(3) by (simp add: core_def Let_def)
      then obtain m' where w': "window twin (chain w twin) m' (Suc n) (fst ?u)"
        using window_skip[OF w k(1) False[unfolded k(2)]] by auto
      have f: "same_filters (fst st) (fst ?u)"
        using same_window_filters[OF k(4)] by (simp add: same_filters_def advance_ack_over_filtered_def)
      have sk: "skipped (chain w twin) (fst ?u) (Suc n) j \<Longrightarrow> skipped (chain w twin) (fst st) n j" for j
        using False k(2) same_filters_visible[OF f] vis unfolding skipped_def
        by (metis Suc_leD Suc_leI le_neq_implies_less)
      show ?thesis
        using "1.IH"[OF u core' w'] sk same_filters_trans[OF f] same_filters_visible[OF f] unfolding nv
        by (auto split: prod.splits outcome.splits) blast+
    qed
  next
    case Wait
    then have "next_visible H (head_op w) (load_op w) st = (Wait, t)" using rt by (subst next_visible.simps) simp
    moreover have s: "same_window st t" using c rt Wait by simp
    ultimately show ?thesis
      using c rt Wait refl window_same[OF s "1.prems"(2)] same_window_filters[OF s] by simp blast
  next
    case Stopped
    then have "next_visible H (head_op w) (load_op w) st = (Stopped, t)" using rt by (subst next_visible.simps) simp
    moreover have s: "same_window st t" using c rt Stopped by simp
    ultimately show ?thesis
      using c rt Stopped refl window_same[OF s "1.prems"(2)] same_window_filters[OF s] by simp blast
  next
    case (Raised err)
    then obtain x where x: "err = BackpressureExceeded x" using c rt by auto
    then have "next_visible H (head_op w) (load_op w) st = (Raised err, t)" using rt Raised by (subst next_visible.simps) simp
    moreover have s: "same_window st t" using c rt Raised by simp
    ultimately show ?thesis
      using c rt Raised refl window_same[OF s "1.prems"(2)] same_window_filters[OF s] by simp blast
  qed
qed

end

section \<open>Opening and acknowledging\<close>

context event_source
begin

lemma check_start_ok:
  assumes "n \<le> length (chain w twin)" and w_ok: "source_ok w"
  shows "check_start (head_op w) (load_op w) (position_at twin (chain w twin) n) = Inr (int (length (chain w twin)))"
proof (cases n)
  case 0
  then show ?thesis using head_law[OF w_ok, of twin] by (simp add: check_start_def position_at_def Let_def)
next
  case (Suc k)
  then have k: "k < length (chain w twin)" using assms(1) by simp
  have "filter (\<lambda>e. int k < sequence e \<and> sequence e \<le> int k + 1) (chain w twin) = [chain w twin ! k]"
    using chain_slice[OF chain_law[OF w_ok], where n = k and u = "int k + 1"] k
    by (simp add: nat_add_distrib take_Suc_conv_app_nth)
  then show ?thesis
    using head_law[OF w_ok, of twin] load_law[OF w_ok, of "int k" 1 twin "int k + 1"] Suc k
    by (simp add: check_start_def first_hash_def position_at_def last_hash_take add.commute Let_def)
qed

text \<open>A start that passes the check is a position of the chain.\<close>

lemma check_start_sound:
  assumes "check_start (head_op w) (load_op w) p = Inr h" "0 \<le> sp_sequence p" "sp_sequence p = 0 \<longrightarrow> sp_event_hash p = []"
    and w_ok: "source_ok w"
  shows "\<exists>n \<le> length (chain w (sp_twin_id p)). p = position_at (sp_twin_id p) (chain w (sp_twin_id p)) n
    \<and> h = int (length (chain w (sp_twin_id p)))"
proof -
  let ?c = "chain w (sp_twin_id p)"
  have h: "h = int (length ?c)" "sp_sequence p \<le> int (length ?c)"
    using assms(1) head_law[OF w_ok, of "sp_twin_id p"]
    by (auto simp: check_start_def rejected_def bindE_Inr_iff Let_def split: if_splits)
  show ?thesis
  proof (cases "sp_sequence p = 0")
    case True
    then show ?thesis using h assms(3) by (intro exI[of _ 0]) (simp add: position_at_def last_hash_def)
  next
    case False
    define k where "k = nat (sp_sequence p - 1)"
    have k: "sp_sequence p = int k + 1" "k < length ?c" using False assms(2) h(2) by (simp_all add: k_def)
    have "filter (\<lambda>e. int k < sequence e \<and> sequence e \<le> int k + 1) ?c = [?c ! k]"
      using chain_slice[OF chain_law[OF w_ok], where n = k and u = "int k + 1"] k
      by (simp add: nat_add_distrib take_Suc_conv_app_nth)
    then have "load_op w (sp_twin_id p) (sp_sequence p - 1) (Some (sp_sequence p)) (Some 1) = Inr [?c ! k]"
      using load_law[OF w_ok, of "int k" 1 "sp_twin_id p" "int k + 1"] k by (simp add: add.commute)
    then have "sp_event_hash p = event_hash (?c ! k)"
      using assms(1) k by (auto simp: check_start_def first_hash_def rejected_def Let_def split: if_splits)
    then have "p = position_at (sp_twin_id p) ?c (Suc k)"
      using k by (simp add: position_at_Suc)
    then show ?thesis using h k(2) by (intro exI[of _ "Suc k"]) simp
  qed
qed

lemma open_core:
  assumes "durable_open (head_op w) (load_op w) p limits types planes env = (Inr d, env')" "1 \<le> sl_replay_page_size limits"
    and "0 \<le> sp_sequence p" "sp_sequence p = 0 \<longrightarrow> sp_event_hash p = []" "sp_twin_id p \<noteq> []"
    and w_ok: "source_ok w"
  shows "\<exists>n. p = position_at (sp_twin_id p) (chain w (sp_twin_id p)) n \<and> core (sp_twin_id p) (chain w (sp_twin_id p)) n (d, env')
    \<and> window (sp_twin_id p) (chain w (sp_twin_id p)) n n d \<and> ds_live d = bk_next (se_broker env)
    \<and> ds_event_types d = (if types = [] then None else Some types) \<and> ds_planes d = (if planes = [] then None else Some planes)
    \<and> ds_limits d = limits \<and> \<not> ds_closed d"
proof -
  obtain h where h: "check_start (head_op w) (load_op w) p = Inr h"
    "d = \<lparr>ds_live = bk_next (se_broker env), ds_position = p, ds_acknowledged = p, ds_replay_head = h,
                ds_limits = limits, ds_event_types = (if types = [] then None else Some types),
                ds_planes = (if planes = [] then None else Some planes), ds_buffer = [], ds_outstanding = [],
                ds_deferred = None, ds_closed = False\<rparr>"
    "env' = env\<lparr>se_broker := snd (broker_subscribe (sp_twin_id p) (sp_sequence p) (se_broker env))\<rparr>"
    using assms(1) by (auto simp: durable_open_def broker_subscribe_def split: sum.splits)
  obtain n where n: "n \<le> length (chain w (sp_twin_id p))" "p = position_at (sp_twin_id p) (chain w (sp_twin_id p)) n"
    "h = int (length (chain w (sp_twin_id p)))"
    using check_start_sound[OF h(1) assms(3,4) w_ok] by blast
  have "core (sp_twin_id p) (chain w (sp_twin_id p)) n (d, env')"
    using n assms(2,5) by (simp add: core_def Let_def h(2,3) live_items_def live_of_def broker_subscribe_def)
  moreover have "window (sp_twin_id p) (chain w (sp_twin_id p)) n n d" using n(2) by (simp add: window_def h(2))
  ultimately show ?thesis using n(2) by (intro exI[of _ n]) (simp add: h(2))
qed

end

lemma pos_of_sequences:
  assumes "chain_ok H [] 1 c"
  shows "map sp_sequence (map pos_of (drop m (take n c))) = map (\<lambda>i. int i + 1) [m..<min n (length c)]"
proof (rule nth_equalityI)
  fix i assume i: "i < length (map sp_sequence (map pos_of (drop m (take n c))))"
  then have mi: "m + i < min n (length c)" by (simp add: less_diff_conv add.commute)
  have "map sp_sequence (map pos_of (drop m (take n c))) ! i = sequence (c ! (m + i))"
    using i mi by (simp add: pos_of_def)
  moreover have "map (\<lambda>i. int i + 1) [m..<min n (length c)] ! i = int (m + i) + 1"
    using i mi by (subst nth_map) (simp_all add: min.commute)
  ultimately show "map sp_sequence (map pos_of (drop m (take n c))) ! i = map (\<lambda>i. int i + 1) [m..<min n (length c)] ! i"
    using chain_verify_nth(2)[OF assms, of "m + i"] mi by (simp only: min_less_iff_conj)
qed simp

lemma drop_take_split:
  assumes "m \<le> k" "k \<le> n" "k \<le> length c"
  shows "drop m (take n c) = drop m (take k c) @ drop k (take n c)"
proof -
  have "take n c = take k c @ drop k (take n c)" using assms(2) by (metis append_take_drop_id min.absorb1 take_take)
  then have "drop m (take n c) = drop m (take k c @ drop k (take n c))" by simp
  then show ?thesis using assms(1,3) by simp
qed

lemma in_drop_take:
  assumes "e \<in> set (drop m (take n c))"
  obtains k where "m \<le> k" "k < n" "k < length c" "e = c ! k"
proof -
  obtain i where i: "i < length (drop m (take n c))" "e = drop m (take n c) ! i" using assms by (auto simp: in_set_conv_nth)
  then have "m + i < n" "m + i < length c" by (simp_all add: less_diff_conv add.commute)
  moreover from this have "e = c ! (m + i)" using i(2) by simp
  ultimately show thesis using that[of "m + i"] by simp
qed

lemma sorted_window:
  assumes "chain_ok H [] 1 c" "window twin c m n d"
  shows "sorted_wrt (<) (map sp_sequence (ds_outstanding d))"
proof -
  have "sorted_wrt (<) (map sp_sequence (map pos_of (drop m (take n c))))"
    unfolding pos_of_sequences[OF assms(1)] sorted_wrt_map by (rule sorted_wrt_mono_rel[OF _ sorted_wrt_upt]) simp
  then have "sorted_wrt (<) (map (\<lambda>e. sp_sequence (pos_of e)) (drop m (take n c)))" by (simp add: comp_def)
  then have "sorted_wrt (\<lambda>a b. sp_sequence (pos_of a) < sp_sequence (pos_of b)) (filter (visible d) (drop m (take n c)))"
    by (simp add: sorted_wrt_map sorted_wrt_filter)
  then show ?thesis using assms(2) by (simp add: window_def sorted_wrt_map)
qed

lemma dropWhile_filter_split:
  assumes "\<And>x. x \<in> set xs \<Longrightarrow> p x" "\<And>x. x \<in> set ys \<Longrightarrow> \<not> p x"
  shows "dropWhile p (xs @ ys) = ys"
  using assms by (induction xs) (auto simp: dropWhile_eq_self_iff)

text \<open>
  An acknowledgement moves the window to the acknowledged event and takes exactly the events up to
  it out; every outstanding event can be acknowledged, and nothing else after the last one.
\<close>

lemma acknowledge_window:
  assumes "acknowledge p d = Inr (q, d')" "window twin c m n d" "chain_ok H [] 1 c" "n \<le> length c"
    and "\<forall>e\<in>set c. twin_id e = twin" "ds_position d = position_at twin c n"
  shows "\<exists>m'\<ge>m. window twin c m' n d' \<and> q = position_at twin c m' \<and> ds_position d' = ds_position d
    \<and> d' = d\<lparr>ds_outstanding := ds_outstanding d', ds_acknowledged := q\<rparr>"
proof (cases "sp_sequence p = sp_sequence (ds_acknowledged d)")
  case True
  then have "q = ds_acknowledged d" "d' = d" using assms(1) by (auto simp: acknowledge_def Let_def protocol_error_def split: if_splits)
  then show ?thesis using assms(2) by (intro exI[of _ m]) (simp add: window_def)
next
  case False
  then obtain matched where f: "outstanding_at (sp_sequence p) d = Some matched" "sp_event_hash matched = sp_event_hash p"
    "q = p" "d' = d\<lparr>ds_outstanding := dropWhile (\<lambda>q. sp_sequence q \<le> sp_sequence p) (ds_outstanding d), ds_acknowledged := p\<rparr>"
    "sp_twin_id p = sp_twin_id (ds_position d)"
    using assms(1) by (auto simp: acknowledge_def Let_def protocol_error_def split: if_splits option.splits)
  have seq: "sequence (c ! i) = int i + 1" if "i < length c" for i using chain_verify_nth(2)[OF assms(3) that] .
  have mem: "matched \<in> set (ds_outstanding d)" "sp_sequence matched = sp_sequence p"
    using f(1) by (auto simp: outstanding_at_def find_Some_iff)
  then obtain e where e: "e \<in> set (drop m (take n c))" "matched = pos_of e" using assms(2) by (auto simp: window_def)
  then obtain k where k: "m \<le> k" "k < n" "e = c ! k" by (elim in_drop_take)
  have kc: "k < length c" using k(2) assms(4) by simp
  have p: "p = position_at twin c (Suc k)"
    using f(2,5) mem(2) e(2) k(3) kc seq[OF kc] assms(6) unfolding position_at_Suc[OF kc]
    by (cases p) (simp add: pos_of_def position_at_def)
  have split: "drop m (take n c) = drop m (take (Suc k) c) @ drop (Suc k) (take n c)"
    using k(1,2) kc by (intro drop_take_split) simp_all
  have vis: "visible (d\<lparr>ds_outstanding := a, ds_acknowledged := b\<rparr>) = visible d" for a b by (simp add: visible_def fun_eq_iff)
  have "dropWhile (\<lambda>q. sp_sequence q \<le> sp_sequence p) (ds_outstanding d)
      = map pos_of (filter (visible d) (drop (Suc k) (take n c)))"
  proof -
    have "ds_outstanding d = map pos_of (filter (visible d) (drop m (take (Suc k) c)))
        @ map pos_of (filter (visible d) (drop (Suc k) (take n c)))"
      using assms(2) unfolding window_def by (simp add: split)
    moreover have "sp_sequence x \<le> sp_sequence p" if "x \<in> set (map pos_of (filter (visible d) (drop m (take (Suc k) c))))" for x
      using that seq kc by (auto simp: pos_of_def p position_at_def in_set_conv_nth)
    moreover have "\<not> sp_sequence x \<le> sp_sequence p" if "x \<in> set (map pos_of (filter (visible d) (drop (Suc k) (take n c))))" for x
      using that seq assms(4) by (auto simp: pos_of_def p position_at_def in_set_conv_nth)
    ultimately show ?thesis by (metis (no_types, lifting) dropWhile_filter_split)
  qed
  then have "window twin c (Suc k) n d'" using k p f(4) by (simp add: window_def vis)
  then show ?thesis using k(1) p f(3,4) by (intro exI[of _ "Suc k"]) simp
qed

lemma find_by_key: "distinct (map f xs) \<Longrightarrow> x \<in> set xs \<Longrightarrow> find (\<lambda>y. f y = f x) xs = Some x"
  by (induction xs) (auto simp: image_iff)

lemma acknowledge_outstanding:
  assumes "window twin c m n d" "chain_ok H [] 1 c" "p \<in> set (ds_outstanding d)" "\<forall>e\<in>set c. twin_id e = twin"
    and "ds_position d = position_at twin c n"
  shows "\<exists>d'. acknowledge p d = Inr (p, d')"
proof -
  obtain e where e: "e \<in> set (drop m (take n c))" "p = pos_of e" using assms(1,3) by (auto simp: window_def)
  then obtain k where k: "m \<le> k" "k < length c" "e = c ! k" by (elim in_drop_take)
  have seq: "sp_sequence p = int k + 1" "sp_twin_id p = twin"
    using chain_verify_nth(2)[OF assms(2) k(2)] e(2) k(2,3) assms(4) by (simp_all add: pos_of_def)
  have d: "distinct (map sp_sequence (ds_outstanding d))"
    using sorted_window[OF assms(2,1)] by (simp add: strict_sorted_iff)
  have "outstanding_at (sp_sequence p) d = Some p"
    unfolding outstanding_at_def by (rule find_by_key[OF d assms(3)])
  moreover have "sp_sequence (ds_acknowledged d) = int m" "sp_twin_id (ds_position d) = twin"
    using assms(1,5) by (simp_all add: window_def position_at_def)
  ultimately show ?thesis using seq k(1) unfolding acknowledge_def Let_def by simp
qed

end
