(* ===== verification/K2_Stream_Run.thy ===== *)
theory K2_Stream_Run
  imports K2_Stream_Laws
begin

text \<open>
  Durable subscriptions on the SQLite ledger while it grows: the interpretation of
  \<open>event_source\<close>, what a publication does to a live queue, and the step relation \<open>streaming\<close> of
  writers, publications, deliveries and acknowledgements in any order. Every run hands out exactly
  the visible events after the start, in order and without a gap or a repetition.
\<close>

section \<open>Replay makes progress\<close>

context event_source
begin

lemma buffered_next:
  assumes "core twin (chain w twin) n (d, env)" "ds_buffer d \<noteq> []" and w_ok: "source_ok w"
  shows "\<exists>rest. next_candidate H (head_op w) (load_op w) (d, env) = (Got (chain w twin ! n, Replay),
    d\<lparr>ds_buffer := rest, ds_position := position_at twin (chain w twin) (Suc n)\<rparr>, env)"
proof -
  obtain ev rest where b: "ds_buffer d = ev # rest" using assms(2) by (cases "ds_buffer d") auto
  have c: "twin \<noteq> []" "ds_position d = position_at twin (chain w twin) n" "prefix (ev # rest) (drop n (chain w twin))"
    using assms(1) b by (simp_all add: core_def Let_def)
  then have n: "n < length (chain w twin)" "ev = chain w twin ! n"
    by (auto simp: prefix_def) (metis Cons_nth_drop_Suc append_Cons drop_eq_Nil list.discI list.inject not_le)+
  have "ds_position (d\<lparr>ds_buffer := rest\<rparr>) = position_at twin (chain w twin) n" using c(2) by simp
  from hand_out_next[OF this c(1) n w_ok, of Replay env] show ?thesis
    using b n(2) by (intro exI[of _ rest], subst next_candidate.simps) (simp add: candidate_round_def Let_def)
qed

lemma replay_candidate:
  assumes "core twin (chain w twin) n (d, env)" "int n < ds_replay_head d" and w_ok: "source_ok w"
  shows "\<exists>rest. next_candidate H (head_op w) (load_op w) (d, env) = (Got (chain w twin ! n, Replay),
    d\<lparr>ds_buffer := rest, ds_position := position_at twin (chain w twin) (Suc n)\<rparr>, env)"
proof (cases "ds_buffer d = []")
  case True
  let ?c = "chain w twin" and ?u = "ds_replay_head d" and ?k = "sl_replay_page_size (ds_limits d)"
  have c: "ds_position d = position_at twin ?c n" "?u \<le> int (length ?c)" "1 \<le> ?k"
    using assms(1) by (simp_all add: core_def Let_def)
  have n: "n < length ?c" using c(2) assms(2) by simp
  have "?c ! n \<in> set (filter (\<lambda>e. int n < sequence e \<and> sequence e \<le> ?u) ?c)"
    using chain_verify_nth(2)[OF chain_law[OF w_ok] n] n assms(2) by simp
  then have "take (nat ?k) (filter (\<lambda>e. int n < sequence e \<and> sequence e \<le> ?u) ?c) \<noteq> []"
    using c(3) by (cases "filter (\<lambda>e. int n < sequence e \<and> sequence e \<le> ?u) ?c") auto
  then obtain ev evs where l: "load_op w twin (int n) (Some ?u) (Some ?k) = Inr (ev # evs)"
    using load_law[OF w_ok, of "int n" ?k twin ?u] c(3) by (cases "take (nat ?k) (filter (\<lambda>e. int n < sequence e \<and> sequence e \<le> ?u) ?c)") auto
  have r: "candidate_round H (head_op w) (load_op w) (d, env) = Inl (d\<lparr>ds_buffer := ev # evs\<rparr>, env)"
    using True c(1) l assms(2) by (simp add: candidate_round_def Let_def position_at_def)
  then have "core twin ?c n (d\<lparr>ds_buffer := ev # evs\<rparr>, env)" using round_core[OF assms(1) w_ok] by simp
  from buffered_next[OF this _ w_ok] r show ?thesis by (subst next_candidate.simps) simp
next
  case False
  from buffered_next[OF assms(1) this w_ok] show ?thesis .
qed

text \<open>While the replay has not reached its head, a visible event that comes next is handed out.\<close>

lemma replay_next:
  assumes "core twin (chain w twin) n (d, env)" "window twin (chain w twin) m n d" "int n < ds_replay_head d"
    and "visible d (chain w twin ! n)" "\<not> ds_closed d" "int (length (ds_outstanding d)) < sl_max_in_flight (ds_limits d)"
    and w_ok: "source_ok w"
  shows "\<exists>rest env'. durable_next H (head_op w) (load_op w) (d, env) = (Got (chain w twin ! n),
    d\<lparr>ds_buffer := rest, ds_position := position_at twin (chain w twin) (Suc n),
      ds_outstanding := ds_outstanding d @ [pos_of (chain w twin ! n)]\<rparr>, env')"
proof -
  obtain rest where t0: "next_candidate H (head_op w) (load_op w) (d, env) = (Got (chain w twin ! n, Replay),
      d\<lparr>ds_buffer := rest, ds_position := position_at twin (chain w twin) (Suc n)\<rparr>, env)"
    using replay_candidate[OF assms(1,3) w_ok] by blast
  define d' where d': "d' = d\<lparr>ds_buffer := rest, ds_position := position_at twin (chain w twin) (Suc n)\<rparr>"
  note t = t0[folded d']
  have k: "core twin (chain w twin) (Suc n) (d', env)" "same_window (d, env) (d', env)" "n < length (chain w twin)"
    using candidate_core[OF assms(1) w_ok] t by simp_all
  have "visible d' = visible d" using k(2) by (auto simp: same_window_def visible_def fun_eq_iff)
  moreover have "window twin (chain w twin) m n d'" using assms(2) k(2) \<open>visible d' = visible d\<close>
    by (simp add: window_def same_window_def)
  ultimately obtain env'' where "deliver (chain w twin ! n) Replay (d', env) = (Got (chain w twin ! n),
      d'\<lparr>ds_outstanding := ds_outstanding d' @ [pos_of (chain w twin ! n)]\<rparr>, env'')"
    using deliver_next_event[OF k(1) _ k(3) _ w_ok, of m Replay] assms(4) by auto
  then have "next_visible H (head_op w) (load_op w) (d, env) = (Got (chain w twin ! n),
      d'\<lparr>ds_outstanding := ds_outstanding d' @ [pos_of (chain w twin ! n)]\<rparr>, env'')"
    using t assms(4) \<open>visible d' = visible d\<close> by (subst next_visible.simps) simp
  then show ?thesis using assms(5,6) by (intro exI[of _ rest] exI[of _ env'']) (simp add: durable_next_def d')
qed

end

section \<open>The ledger as an event source\<close>

definition sqlite_load :: "db \<Rightarrow> load_op" where
  "sqlite_load db twin after up_to limit = load db twin after up_to [] limit"

text \<open>\<open>hashlib.sha256(...).hexdigest()\<close>: 64 lower-case hexadecimal digits.\<close>

definition hex_digest :: "(string \<Rightarrow> string) \<Rightarrow> bool" where
  "hex_digest H \<longleftrightarrow> (\<forall>s. length (H s) = 64 \<and> list_all is_lower_hex (H s))"

definition streamable :: "(string \<Rightarrow> string) \<Rightarrow> db \<Rightarrow> bool" where
  "streamable H db \<longleftrightarrow> db_inv H db \<and> hex_digest H"

lemma mapE_take: "mapE f xs = Inr ys \<Longrightarrow> mapE f (take k xs) = Inr (take k ys)"
  by (simp add: mapE_Inr_iff list_all2_takeI)

lemma content_hash_pattern: "hex_digest H \<Longrightarrow> content_hash H v = Inr h \<Longrightarrow> hash_pattern h"
  by (auto simp: content_hash_def bindE_Inr_iff hash_pattern_def hex_digest_def)

lemma in_stream_twin: "db_inv H db \<Longrightarrow> e \<in> set (stream db twin) \<Longrightarrow> twin_id e = twin"
proof -
  assume "db_inv H db" "e \<in> set (stream db twin)"
  moreover have "readable rows \<Longrightarrow> e \<in> set (read_rows rows) \<Longrightarrow> \<exists>r\<in>set rows. row_to_event r = Inr e" for rows
    by (induction rows) (auto simp: readable_def ok_iff)
  ultimately obtain r where "r \<in> set (stream_rows db twin)" "row_to_event r = Inr e"
    using readable_stream by (metis stream_def)
  then show "twin_id e = twin" using row_to_event_fields[of r e] by (simp add: stream_rows_def)
qed

interpretation ledger: event_source H "streamable H" stream head sqlite_load for H
proof unfold_locales
  fix db :: db and twin after k u
  assume *: "streamable H db"
  then have inv: "db_inv H db" by (simp add: streamable_def)
  show "chain_ok H [] 1 (stream db twin)" by (rule stream_chain[OF inv])
  show "fst (head db twin) = int (length (stream db twin))" using head_stream[OF inv] by simp
  show "names_chain twin (stream db twin)"
  proof -
    have "hash_pattern (event_hash e)" if e: "e \<in> set (stream db twin)" for e
    proof -
      obtain i where i: "i < length (stream db twin)" "e = stream db twin ! i" using e by (auto simp: in_set_conv_nth)
      have "content_hash H (hash_material e) = Inr (event_hash e)"
        using chain_verify_nth(1)[OF stream_chain[OF inv] i(1)] i(2) by (simp add: verify_Inr)
      from content_hash_pattern[OF _ this] show ?thesis using * by (simp add: streamable_def)
    qed
    then show ?thesis using in_stream_twin[OF inv] by (simp add: names_chain_def)
  qed
  assume "0 \<le> (after :: int)" "0 < (k :: int)"
  let ?rows = "sort_key er_sequence (filter (\<lambda>r. er_twin_id r = twin \<and> after < er_sequence r \<and> er_sequence r \<le> u
      \<and> ([] = ([] :: event_plane list) \<or> er_plane r \<in> plane_text ` set [])) (db_events db))"
  have "load db twin after (Some u) [] None = Inr (filter (\<lambda>e. after < sequence e \<and> sequence e \<le> u) (stream db twin))"
    using load_stream[OF inv, of "[]" twin after "Some u"] by simp
  then have "mapE row_to_event ?rows = Inr (filter (\<lambda>e. after < sequence e \<and> sequence e \<le> u) (stream db twin))"
    by (simp add: load_def)
  from mapE_take[OF this, of "nat k"]
  show "sqlite_load db twin after (Some u) (Some k) = Inr (take (nat k) (filter (\<lambda>e. after < sequence e \<and> sequence e \<le> u) (stream db twin)))"
    using \<open>0 < k\<close> by (simp add: sqlite_load_def load_def)
qed

section \<open>Growth and publication\<close>

lemma core_growth:
  assumes "core twin c n st" "prefix c c'"
  shows "core twin c' n st"
proof -
  obtain x where c': "c' = c @ x" using assms(2) by (auto simp: prefix_def)
  have "prefix (ds_buffer (fst st)) (drop n c @ drop (n - length c) x)"
    using assms(1) by (auto simp: core_def Let_def)
  then show ?thesis using assms(1) by (auto simp: core_def Let_def c' position_at_prefix)
qed

lemma window_growth:
  assumes "window twin c m n d" "n \<le> length c" "prefix c c'"
  shows "window twin c' m n d"
proof -
  obtain x where c': "c' = c @ x" using assms(3) by (auto simp: prefix_def)
  have "m \<le> length c" using assms(1,2) by (simp add: window_def)
  then show ?thesis using assms(1,2) by (simp add: window_def c' position_at_prefix)
qed

text \<open>A publication adds its event to a queue of its twin, or closes a queue; it changes no twin.\<close>

definition offered :: "event \<Rightarrow> subscription \<Rightarrow> subscription \<Rightarrow> bool" where
  "offered ev s t \<longleftrightarrow> sb_twin_id t = sb_twin_id s \<and>
     set (sb_queue t) \<subseteq> set (sb_queue s) \<union> {Closing} \<union> (if sb_twin_id s = twin_id ev then {Item ev} else {})"

lemma offered_refl [simp]: "offered ev s s"
  by (auto simp: offered_def)

lemma offered_trans: "offered ev s t \<Longrightarrow> offered ev t u \<Longrightarrow> offered ev s u"
  by (auto simp: offered_def split: if_splits)

lemma in_set_tl: "x \<in> set (tl xs) \<Longrightarrow> x \<in> set xs"
  by (cases xs) auto

lemma offered_close: "offered ev s (subscription_close reason s)"
  by (auto simp: offered_def subscription_close_def Let_def dest: in_set_tl)

lemma offered_offer: "offered ev (bk_heap bk i) (bk_heap (fst (offer ev (bk, stale) j)) i)"
  by (auto simp: offer_def Let_def update_subscription_def offered_def)

lemma offered_offers: "offered ev (bk_heap (fst acc) i) (bk_heap (fst (foldl (offer ev) acc js)) i)"
proof (induction js arbitrary: acc)
  case (Cons j js)
  have "offered ev (bk_heap (fst acc) i) (bk_heap (fst (offer ev acc j)) i)"
    using offered_offer[of ev "fst acc" i "snd acc" j] by simp
  then show ?case using Cons[of "offer ev acc j"] offered_trans by fastforce
qed simp

lemma offered_disconnects: "offered ev (bk_heap bk i) (bk_heap (fold disconnect js bk) i)"
proof (induction js arbitrary: bk)
  case (Cons j js)
  have "offered ev (bk_heap bk i) (bk_heap (disconnect j bk) i)"
    by (simp add: disconnect_def update_subscription_def offered_close)
  then show ?case using Cons[of "disconnect j bk"] offered_trans by fastforce
qed simp

lemma offered_publish: "offered ev (bk_heap bk i) (bk_heap (broker_publish ev bk) i)"
proof -
  let ?acc = "foldl (offer ev) (bk\<lparr>bk_published := bk_published bk + 1\<rparr>, []) (bk_members bk)"
  have "offered ev (bk_heap bk i) (bk_heap (fst ?acc) i)"
    using offered_offers[of ev "(bk\<lparr>bk_published := bk_published bk + 1\<rparr>, [])" i] by simp
  then show ?thesis
    using offered_disconnects[of ev "fst ?acc" i "snd ?acc"] offered_trans
    by (fastforce simp: broker_publish_def split: prod.splits)
qed

lemma core_offered:
  assumes "core twin c n (d, env)" "offered ev (live_of (d, env)) (live_of (d, env'))" "ev \<in> set c \<or> twin_id ev \<noteq> twin"
  shows "core twin c n (d, env')"
proof -
  have "sb_twin_id (live_of (d, env)) = twin" using assms(1) by (simp add: core_def Let_def)
  then have "live_items (d, env') \<subseteq> set c"
    using assms by (auto simp: core_def Let_def live_items_def offered_def split: if_splits)
  then show ?thesis using assms(1,2) by (simp add: core_def Let_def offered_def)
qed

lemma core_close:
  assumes "core twin c n st"
  shows "core twin c n (durable_close st)" "fst (durable_close st) = (fst st)\<lparr>ds_closed := True\<rparr>"
proof -
  obtain d env where st: "st = (d, env)" by (cases st)
  show fst_close: "fst (durable_close st) = (fst st)\<lparr>ds_closed := True\<rparr>"
    using st by (auto simp: durable_close_def)
  show "core twin c n (durable_close st)"
  proof (cases "ds_closed d")
    case True
    then show ?thesis using st assms by (simp add: durable_close_def)
  next
    case False
    let ?env = "snd (durable_close st)"
    have "live_of (d, ?env) = subscription_close None (live_of (d, env))"
      using st False by (simp add: durable_close_def live_of_def broker_unsubscribe_def update_subscription_def)
    then have "set (sb_queue (live_of (d, ?env))) \<subseteq> set (sb_queue (live_of (d, env))) \<union> {Closing}"
      "sb_twin_id (live_of (d, ?env)) = sb_twin_id (live_of (d, env))"
      by (auto simp: subscription_close_def Let_def dest: in_set_tl)
    then have "core twin c n (d, ?env)" using assms st by (auto simp: core_def Let_def live_items_def)
    then have "core twin c n (d\<lparr>ds_closed := True\<rparr>, ?env)" by (simp add: core_def Let_def live_items_def)
    then show ?thesis using fst_close st by (metis fst_conv prod.collapse)
  qed
qed

section \<open>Any interleaving\<close>

text \<open>
  The world of one subscription: the ledger, the broker and metrics, the subscription, and the
  events it has handed out. Publications are of events of the ledger, as the relay makes them.
\<close>

record stream_world =
  sw_db :: db
  sw_env :: stream_env
  sw_sub :: durable
  sw_emitted :: "event list"

definition sqlite_next :: "(string \<Rightarrow> string) \<Rightarrow> stream_world \<Rightarrow> event outcome \<times> stream_state" where
  "sqlite_next H w = durable_next H (head (sw_db w)) (sqlite_load (sw_db w)) (sw_sub w, sw_env w)"

inductive streaming :: "(string \<Rightarrow> string) \<Rightarrow> stream_world \<Rightarrow> stream_world \<Rightarrow> bool" for H where
  stream_refl: "streaming H w w"
| stream_append: "streaming H w v \<Longrightarrow> append H now ev n (sw_db v) = Inr (out, db') \<Longrightarrow> admissible now ev \<Longrightarrow>
    streaming H w (v\<lparr>sw_db := db'\<rparr>)"
| stream_publish: "streaming H w v \<Longrightarrow> ev \<in> set (stream (sw_db v) (twin_id ev)) \<Longrightarrow>
    streaming H w (v\<lparr>sw_env := (sw_env v)\<lparr>se_broker := broker_publish ev (se_broker (sw_env v))\<rparr>\<rparr>)"
| stream_next: "streaming H w v \<Longrightarrow> sqlite_next H v = (Got ev, d, env) \<Longrightarrow>
    streaming H w (v\<lparr>sw_sub := d, sw_env := env, sw_emitted := sw_emitted v @ [ev]\<rparr>)"
| stream_pause: "streaming H w v \<Longrightarrow> sqlite_next H v = (res, d, env) \<Longrightarrow> (\<And>ev. res \<noteq> Got ev) \<Longrightarrow>
    streaming H w (v\<lparr>sw_sub := d, sw_env := env\<rparr>)"
| stream_ack: "streaming H w v \<Longrightarrow> acknowledge p (sw_sub v) = Inr (q, d) \<Longrightarrow>
    streaming H w (v\<lparr>sw_sub := d\<rparr>)"

text \<open>
  Where a run stands: at position \<open>n\<close> of the stream, acknowledged up to \<open>m\<close>, having handed out the
  visible events from \<open>start\<close> to \<open>n\<close>.
\<close>

definition stands :: "(string \<Rightarrow> string) \<Rightarrow> string \<Rightarrow> nat \<Rightarrow> (event \<Rightarrow> bool) \<Rightarrow> nat \<Rightarrow> nat \<Rightarrow> stream_world \<Rightarrow> bool" where
  "stands H twin start shown m n w \<longleftrightarrow>
     (let c = stream (sw_db w) twin in
      streamable H (sw_db w) \<and> core twin c n (sw_sub w, sw_env w) \<and> window twin c m n (sw_sub w)
      \<and> visible (sw_sub w) = shown \<and> start \<le> n \<and> sw_emitted w = filter shown (drop start (take n c)))"

lemma skipped_filter:
  assumes "skipped c d n k" "k \<le> length c" "start \<le> n"
  shows "filter (visible d) (drop start (take k c)) = filter (visible d) (drop start (take n c))"
proof -
  have nk: "n \<le> k" using assms(1) by (simp add: skipped_def)
  have "drop start (take k c) = drop start (take n c) @ drop n (take k c)"
    using assms(2,3) nk by (intro drop_take_split) simp_all
  moreover have "filter (visible d) (drop n (take k c)) = []"
  proof -
    have "\<not> visible d e" if "e \<in> set (drop n (take k c))" for e
      using that by (rule in_drop_take) (use assms(1) in \<open>simp add: skipped_def\<close>)
    then show ?thesis by (simp add: filter_empty_conv)
  qed
  ultimately show ?thesis by simp
qed

lemma visible_closed [simp]: "visible (d\<lparr>ds_closed := b\<rparr>) = visible d"
  by (simp add: visible_def fun_eq_iff)

lemma stands_next:
  assumes "stands H twin start shown m n w" "sqlite_next H w = (res, d, env)"
  shows "\<exists>m' n'. (case res of
      Got ev \<Rightarrow> stands H twin start shown m' n' (w\<lparr>sw_sub := d, sw_env := env, sw_emitted := sw_emitted w @ [ev]\<rparr>)
    | _ \<Rightarrow> stands H twin start shown m' n' (w\<lparr>sw_sub := d, sw_env := env\<rparr>))"
proof -
  let ?c = "stream (sw_db w) twin" and ?st = "(sw_sub w, sw_env w)"
  have i: "streamable H (sw_db w)" "core twin ?c n ?st" "window twin ?c m n (sw_sub w)" "visible (sw_sub w) = shown"
    "start \<le> n" "sw_emitted w = filter shown (drop start (take n ?c))"
    using assms(1) by (simp_all add: stands_def Let_def)
  have paused: ?thesis if "d = fst st'" "env = snd st'" "\<And>ev. res \<noteq> Got ev" "skipped ?c (sw_sub w) n k"
      "core twin ?c k st'" "window twin ?c m' k (fst st')" "same_filters (sw_sub w) (fst st')" for st' k m'
  proof -
    have k: "k \<le> length ?c" "n \<le> k" using that(4,5) by (simp_all add: core_def Let_def skipped_def)
    have "stands H twin start shown m' k (w\<lparr>sw_sub := d, sw_env := env\<rparr>)"
      using i that same_filters_visible[OF that(7)] k skipped_filter[OF that(4) k(1) i(5)] by (simp add: stands_def Let_def)
    then show ?thesis using that(3) by (cases res) auto
  qed
  have refl: "skipped ?c (sw_sub w) n n" by (auto simp: skipped_def)
  consider (closed) "ds_closed (sw_sub w)" | (full) "\<not> ds_closed (sw_sub w)" "sl_max_in_flight (ds_limits (sw_sub w)) \<le> int (length (ds_outstanding (sw_sub w)))"
    | (run) "sqlite_next H w = next_visible H (head (sw_db w)) (sqlite_load (sw_db w)) ?st"
    by (cases "ds_closed (sw_sub w)"; cases "sl_max_in_flight (ds_limits (sw_sub w)) \<le> int (length (ds_outstanding (sw_sub w)))")
      (simp_all add: sqlite_next_def durable_next_def)
  then show ?thesis
  proof cases
    case closed
    then have "res = Stopped" "d = sw_sub w" "env = sw_env w" using assms(2) by (auto simp: sqlite_next_def durable_next_def)
    then show ?thesis using paused[of ?st n m] i refl by simp
  next
    case full
    let ?t = "durable_close (sw_sub w, count mx_backpressure_closes_update (sw_env w))"
    have r: "res = Raised (BackpressureExceeded ''unacknowledged delivery window exceeded; reconnect with last cursor'')"
      "d = fst ?t" "env = snd ?t" using assms(2) full by (auto simp: sqlite_next_def durable_next_def)
    have "core twin ?c n (sw_sub w, count mx_backpressure_closes_update (sw_env w))" using i(2) by simp
    note cl = core_close[OF this]
    have "window twin ?c m n (fst ?t)" "same_filters (sw_sub w) (fst ?t)"
      using i(3) cl(2) by (simp_all add: window_def same_filters_def visible_closed)
    then show ?thesis using paused[of ?t n m] r refl cl(1) by simp
  next
    case run
    obtain st' where nv: "next_visible H (head (sw_db w)) (sqlite_load (sw_db w)) ?st = (res, st')" "d = fst st'" "env = snd st'"
      using that[of "(d, env)"] run assms(2) by simp
    note next_core = ledger.next_visible_core[OF i(2) _ i(1), of m, simplified, OF i(3), unfolded nv(1)]
    show ?thesis
    proof (cases res)
      case (Got ev)
      then obtain k m' where k: "skipped ?c (sw_sub w) n k" "k < length ?c" "ev = ?c ! k" "visible (sw_sub w) ev"
        "core twin ?c (Suc k) st'" "window twin ?c m' (Suc k) (fst st')" "same_filters (sw_sub w) (fst st')"
        using next_core by auto
      have "start \<le> k" using i(5) k(1) by (simp add: skipped_def)
      then have "filter shown (drop start (take (Suc k) ?c)) = filter shown (drop start (take n ?c)) @ [ev]"
        using skipped_filter[OF k(1) _ i(5)] k(2,3,4) i(4) by (simp add: drop_take_Suc)
      then have "stands H twin start shown m' (Suc k) (w\<lparr>sw_sub := d, sw_env := env, sw_emitted := sw_emitted w @ [ev]\<rparr>)"
        using i k same_filters_visible[OF k(7)] nv(2,3) \<open>start \<le> k\<close> by (simp add: stands_def Let_def)
      then show ?thesis using Got by auto
    next
      case Wait
      then show ?thesis using next_core paused[OF nv(2,3)] by auto
    next
      case Stopped
      then show ?thesis using next_core paused[OF nv(2,3)] by auto
    next
      case (Raised err)
      then show ?thesis using next_core paused[OF nv(2,3)] by auto
    qed
  qed
qed

text \<open>An acknowledgement only moves the window.\<close>

lemma stands_ack:
  assumes "stands H twin start shown m k v" "acknowledge p (sw_sub v) = Inr (q, d)"
  shows "\<exists>m'. stands H twin start shown m' k (v\<lparr>sw_sub := d\<rparr>)"
proof -
  let ?c = "stream (sw_db v) twin"
  have inv: "db_inv H (sw_db v)" and c: "core twin ?c k (sw_sub v, sw_env v)" and w: "window twin ?c m k (sw_sub v)"
    using assms(1) by (simp_all add: stands_def Let_def streamable_def)
  have "k \<le> length ?c" "ds_position (sw_sub v) = position_at twin ?c k" using c by (simp_all add: core_def Let_def)
  from acknowledge_window[OF assms(2) w stream_chain[OF inv] this(1) _ this(2)] in_stream_twin[OF inv]
  obtain m' where m': "window twin ?c m' k d" "d = (sw_sub v)\<lparr>ds_outstanding := ds_outstanding d, ds_acknowledged := q\<rparr>"
    by blast
  have "core twin ?c k (d, sw_env v)" using c by (subst m'(2)) (simp add: core_def Let_def live_items_def live_of_def)
  moreover have "visible d = visible (sw_sub v)" by (subst m'(2)) (simp add: visible_def fun_eq_iff)
  ultimately show ?thesis using assms(1) m'(1) by (auto simp: stands_def Let_def)
qed

text \<open>The main law: every run keeps a standing, whatever is interleaved.\<close>

lemma streaming_stands:
  assumes "streaming H w v" "stands H twin start shown m0 n0 w"
  shows "\<exists>m n. stands H twin start shown m n v"
  using assms
proof (induction rule: streaming.induct)
  case (stream_append w v now ev n out db')
  then obtain m k where v: "stands H twin start shown m k v" by blast
  then have inv: "db_inv H (sw_db v)" by (simp add: stands_def Let_def streamable_def)
  have "prefix (stream (sw_db v) twin) (stream db' twin)"
    using append_stream[OF stream_append.hyps(2) inv stream_append.hyps(3)] by simp
  moreover have "db_inv H db'" by (rule append_inv[OF stream_append.hyps(2) inv stream_append.hyps(3)])
  moreover have "k \<le> length (stream (sw_db v) twin)" using v by (simp add: stands_def Let_def core_def)
  ultimately have "stands H twin start shown m k (v\<lparr>sw_db := db'\<rparr>)"
    using v core_growth window_growth by (auto simp: stands_def Let_def streamable_def prefix_def)
  then show ?case by blast
next
  case (stream_publish w v ev)
  then obtain m k where v: "stands H twin start shown m k v" by blast
  let ?env = "(sw_env v)\<lparr>se_broker := broker_publish ev (se_broker (sw_env v))\<rparr>"
  have "offered ev (live_of (sw_sub v, sw_env v)) (live_of (sw_sub v, ?env))"
    using offered_publish by (simp add: live_of_def)
  moreover have "ev \<in> set (stream (sw_db v) twin) \<or> twin_id ev \<noteq> twin" using stream_publish.hyps(2) by blast
  moreover have "core twin (stream (sw_db v) twin) k (sw_sub v, sw_env v)" using v by (simp add: stands_def Let_def)
  ultimately have "core twin (stream (sw_db v) twin) k (sw_sub v, ?env)" using core_offered by blast
  then have "stands H twin start shown m k (v\<lparr>sw_env := ?env\<rparr>)" using v by (simp add: stands_def Let_def)
  then show ?case by blast
next
  case (stream_next w v ev d env)
  then obtain m k where "stands H twin start shown m k v" by blast
  from stands_next[OF this stream_next.hyps(2)] show ?case by simp
next
  case (stream_pause w v res d env)
  then obtain m k where "stands H twin start shown m k v" by blast
  from stands_next[OF this stream_pause.hyps(2)] show ?case
    using stream_pause.hyps(3) by (cases res) auto
next
  case (stream_ack w v p q d)
  then show ?case using stands_ack by blast
qed blast

text \<open>The only error of a delivery is backpressure: the stream never breaks.\<close>

lemma stands_outcome:
  assumes "stands H twin start shown m n w" "sqlite_next H w = (Raised err, d, env)"
  shows "\<exists>reason. err = BackpressureExceeded reason"
proof -
  have i: "streamable H (sw_db w)" "core twin (stream (sw_db w) twin) n (sw_sub w, sw_env w)"
    "window twin (stream (sw_db w) twin) m n (sw_sub w)" using assms(1) by (simp_all add: stands_def Let_def)
  show ?thesis
    using ledger.next_visible_core[OF i(2) _ i(1), of m, simplified, OF i(3)] assms(2)
    by (auto simp: sqlite_next_def durable_next_def split: if_splits)
qed

text \<open>Where a delivery waits, every visible event up to the captured head was handed out.\<close>

lemma stands_caught_up:
  assumes "stands H twin start shown m n w" "sqlite_next H w = (Wait, d, env)"
  shows "\<exists>k \<le> length (stream (sw_db w) twin). ds_replay_head d \<le> int k
    \<and> sw_emitted w = filter shown (drop start (take k (stream (sw_db w) twin)))
    \<and> sb_queue (live_of (d, env)) = [] \<and> ds_position d = position_at twin (stream (sw_db w) twin) k"
proof -
  let ?c = "stream (sw_db w) twin"
  have i: "streamable H (sw_db w)" "core twin ?c n (sw_sub w, sw_env w)" "window twin ?c m n (sw_sub w)"
    "visible (sw_sub w) = shown" "start \<le> n" "sw_emitted w = filter shown (drop start (take n ?c))"
    using assms(1) by (simp_all add: stands_def Let_def)
  have "next_visible H (head (sw_db w)) (sqlite_load (sw_db w)) (sw_sub w, sw_env w) = (Wait, d, env)"
    using assms(2) by (auto simp: sqlite_next_def durable_next_def split: if_splits)
  then obtain k where k: "skipped ?c (sw_sub w) n k" "core twin ?c k (d, env)" "ds_replay_head d \<le> int k"
    "sb_queue (live_of (d, env)) = []"
    using ledger.next_visible_core[OF i(2) _ i(1), of m, simplified, OF i(3)] by auto
  moreover have "k \<le> length ?c" "ds_position d = position_at twin ?c k" using k(2) by (simp_all add: core_def Let_def)
  ultimately show ?thesis using skipped_filter[OF k(1) _ i(5)] i(4,6) by (intro exI[of _ k]) simp
qed

text \<open>Before that point the next visible event is handed out, while there is room in the window.\<close>

lemma stands_replays:
  assumes "stands H twin start shown m n w" "int n < ds_replay_head (sw_sub w)" "shown (stream (sw_db w) twin ! n)"
    and "\<not> ds_closed (sw_sub w)" "int (length (ds_outstanding (sw_sub w))) < sl_max_in_flight (ds_limits (sw_sub w))"
  shows "\<exists>rest env. sqlite_next H w = (Got (stream (sw_db w) twin ! n),
    (sw_sub w)\<lparr>ds_buffer := rest, ds_position := position_at twin (stream (sw_db w) twin) (Suc n),
      ds_outstanding := ds_outstanding (sw_sub w) @ [pos_of (stream (sw_db w) twin ! n)]\<rparr>, env)"
proof -
  have i: "streamable H (sw_db w)" "core twin (stream (sw_db w) twin) n (sw_sub w, sw_env w)"
    "window twin (stream (sw_db w) twin) m n (sw_sub w)" "visible (sw_sub w) = shown"
    using assms(1) by (simp_all add: stands_def Let_def)
  from ledger.replay_next[OF i(2,3) assms(2) _ assms(4,5) i(1)] i(4) assms(3) show ?thesis
    by (auto simp: sqlite_next_def)
qed

text \<open>A subscription opened on the ledger starts a run.\<close>

lemma open_stands:
  assumes "durable_open (head db) (sqlite_load db) p limits types planes env = (Inr d, env')" "streamable H db"
    and "1 \<le> sl_replay_page_size limits" "0 \<le> sp_sequence p" "sp_sequence p = 0 \<longrightarrow> sp_event_hash p = []" "sp_twin_id p \<noteq> []"
  shows "\<exists>n. p = position_at (sp_twin_id p) (stream db (sp_twin_id p)) n
    \<and> stands H (sp_twin_id p) n (visible d) n n \<lparr>sw_db = db, sw_env = env', sw_sub = d, sw_emitted = []\<rparr>"
  using ledger.open_core[OF assms(1,3-6) assms(2)] assms(2) by (auto simp: stands_def Let_def)

text \<open>
  Reconnecting where the client last acknowledged is accepted, and what the old subscription still
  had outstanding is exactly the visible part of the stream between there and where it stood.
\<close>

lemma stands_resume:
  assumes "stands H twin start shown m n w"
  shows "ds_acknowledged (sw_sub w) = position_at twin (stream (sw_db w) twin) m
    \<and> ok (fst (durable_open (head (sw_db w)) (sqlite_load (sw_db w)) (ds_acknowledged (sw_sub w)) limits types planes env))
    \<and> ds_outstanding (sw_sub w) = map pos_of (filter shown (drop m (take n (stream (sw_db w) twin))))"
proof -
  let ?c = "stream (sw_db w) twin"
  have i: "streamable H (sw_db w)" "core twin ?c n (sw_sub w, sw_env w)" "window twin ?c m n (sw_sub w)"
    "visible (sw_sub w) = shown" using assms by (simp_all add: stands_def Let_def)
  have "m \<le> length ?c" using i(2,3) by (simp add: core_def window_def Let_def)
  from ledger.check_start_ok[OF this i(1)] i(3,4) show ?thesis
    by (simp add: durable_open_def broker_subscribe_def window_def)
qed

end
