(* ===== verification/K2_Sync.thy ===== *)
theory K2_Sync
  imports K2_Stream_Run
begin

text \<open>
  The limits and acknowledgements of \<open>src/src/argo_dt/sync.py\<close>: \<open>SyncLimits\<close> with its checks, the
  acceptance of a telemetry batch, the negotiation of a window, and the record and stream
  acknowledgements. Shown: negotiation never loosens a limit, and a batch that passes is within
  every limit.
\<close>

section \<open>Limits\<close>

definition make_limits :: "int \<Rightarrow> int \<Rightarrow> int \<Rightarrow> int \<Rightarrow> int \<Rightarrow> int \<Rightarrow> sync_limits result" where
  "make_limits rec_bytes batch_bytes batch_recs page in_flight heartbeat =
     (if rec_bytes < 1 then Inl (ValueError ''max_record_bytes must be positive'')
      else if batch_bytes < 1 then Inl (ValueError ''max_batch_bytes must be positive'')
      else if batch_recs < 1 then Inl (ValueError ''max_batch_records must be positive'')
      else if page < 1 then Inl (ValueError ''replay_page_size must be positive'')
      else if in_flight < 1 then Inl (ValueError ''max_in_flight must be positive'')
      else if heartbeat < 1 then Inl (ValueError ''heartbeat_seconds must be positive'')
      else if batch_bytes < rec_bytes then Inl (ValueError ''max_record_bytes cannot exceed max_batch_bytes'')
      else Inr \<lparr>sl_max_record_bytes = rec_bytes, sl_max_batch_bytes = batch_bytes, sl_max_batch_records = batch_recs,
                sl_replay_page_size = page, sl_max_in_flight = in_flight, sl_heartbeat_seconds = heartbeat\<rparr>)"

definition limits_ok :: "sync_limits \<Rightarrow> bool" where
  "limits_ok l \<longleftrightarrow> 1 \<le> sl_max_record_bytes l \<and> sl_max_record_bytes l \<le> sl_max_batch_bytes l \<and> 1 \<le> sl_max_batch_records l
     \<and> 1 \<le> sl_replay_page_size l \<and> 1 \<le> sl_max_in_flight l \<and> 1 \<le> sl_heartbeat_seconds l"

lemma make_limits_ok: "make_limits a b c p f h = Inr l \<Longrightarrow> limits_ok l"
  by (auto simp: make_limits_def limits_ok_def split: if_splits)

text \<open>Sizes come from outside: \<open>isinstance(size, int)\<close>, a bool not counting.\<close>

fun int_size :: "pyval \<Rightarrow> int option" where
  "int_size (PInt n) = Some n"
| "int_size _ = None"

definition sizes_of :: "pyval list \<Rightarrow> int list option" where
  "sizes_of vs = (if list_all (\<lambda>v. int_size v \<noteq> None) vs then Some (map (the \<circ> int_size) vs) else None)"

definition too_large :: "string \<Rightarrow> 'a result" where
  "too_large m = Inl (MessageTooLarge m)"

definition validate_batch :: "sync_limits \<Rightarrow> pyval list \<Rightarrow> pyval \<Rightarrow> unit result" where
  "validate_batch l record_sizes serialized =
     (if record_sizes = [] then protocol_error ''telemetry batch must contain at least one record''
      else if sl_max_batch_records l < int (length record_sizes)
      then too_large ''telemetry batch exceeds the record-count limit''
      else (case int_size serialized of
        None \<Rightarrow> protocol_error ''serialized batch size must be an integer''
      | Some whole \<Rightarrow>
          (case sizes_of record_sizes of
             None \<Rightarrow> protocol_error ''serialized record sizes must be integers''
           | Some sizes \<Rightarrow>
               if whole < 0 \<or> list_ex (\<lambda>n. n < 0) sizes then protocol_error ''serialized byte sizes cannot be negative''
               else if whole < sum_list sizes then protocol_error ''batch size cannot be smaller than its records''
               else if list_ex (\<lambda>n. sl_max_record_bytes l < n) sizes then too_large ''telemetry record exceeds the byte limit''
               else if sl_max_batch_bytes l < whole then too_large ''telemetry batch exceeds the byte limit''
               else Inr ())))"

definition negotiate :: "sync_limits \<Rightarrow> pyval \<Rightarrow> sync_limits result" where
  "negotiate l requested =
     (if requested = PNone \<or> py_eq requested (PInt 0) then Inr l
      else (case int_size requested of
        None \<Rightarrow> protocol_error ''max_in_flight must be an integer''
      | Some n \<Rightarrow> if n < 1 \<or> sl_max_in_flight l < n then protocol_error ''max_in_flight exceeds the server limit''
          else Inr (l\<lparr>sl_max_in_flight := n\<rparr>)))"

lemma sizes_of_Some: "sizes_of vs = Some ns \<longleftrightarrow> vs = map PInt ns"
proof
  assume "sizes_of vs = Some ns"
  then have "list_all (\<lambda>v. int_size v \<noteq> None) vs" "ns = map (the \<circ> int_size) vs" by (simp_all add: sizes_of_def split: if_splits)
  moreover have "int_size v \<noteq> None \<Longrightarrow> PInt (the (int_size v)) = v" for v by (cases v) simp_all
  ultimately show "vs = map PInt ns" by (auto simp: list_all_iff intro!: map_idI[symmetric])
next
  assume "vs = map PInt ns"
  then show "sizes_of vs = Some ns" by (simp add: sizes_of_def list_all_iff comp_def)
qed

lemma int_size_Some: "int_size v = Some n \<longleftrightarrow> v = PInt n"
  by (cases v) auto

text \<open>A batch passes exactly when it has records and every size is an integer within its limit.\<close>

lemma validate_batch_ok:
  "validate_batch l vs v = Inr () \<longleftrightarrow>
     (\<exists>sizes whole. vs = map PInt sizes \<and> v = PInt whole \<and> sizes \<noteq> [] \<and> int (length sizes) \<le> sl_max_batch_records l
       \<and> (\<forall>n\<in>set sizes. 0 \<le> n \<and> n \<le> sl_max_record_bytes l) \<and> sum_list sizes \<le> whole \<and> whole \<le> sl_max_batch_bytes l)"
proof
  assume ok: "validate_batch l vs v = Inr ()"
  then obtain whole sizes where "v = PInt whole" "vs = map PInt sizes"
    by (auto simp: validate_batch_def protocol_error_def too_large_def int_size_Some sizes_of_Some
        split: if_splits option.splits)
  moreover have "sizes_of (map PInt sizes) = Some sizes" by (simp add: sizes_of_Some)
  ultimately show "\<exists>sizes whole. vs = map PInt sizes \<and> v = PInt whole \<and> sizes \<noteq> [] \<and> int (length sizes) \<le> sl_max_batch_records l
       \<and> (\<forall>n\<in>set sizes. 0 \<le> n \<and> n \<le> sl_max_record_bytes l) \<and> sum_list sizes \<le> whole \<and> whole \<le> sl_max_batch_bytes l"
    using ok by (intro exI[of _ sizes] exI[of _ whole])
      (auto simp: validate_batch_def protocol_error_def too_large_def list_ex_iff not_less split: if_splits)
next
  assume "\<exists>sizes whole. vs = map PInt sizes \<and> v = PInt whole \<and> sizes \<noteq> [] \<and> int (length sizes) \<le> sl_max_batch_records l
       \<and> (\<forall>n\<in>set sizes. 0 \<le> n \<and> n \<le> sl_max_record_bytes l) \<and> sum_list sizes \<le> whole \<and> whole \<le> sl_max_batch_bytes l"
  then obtain sizes whole where s: "vs = map PInt sizes" "v = PInt whole" "sizes \<noteq> []" "int (length sizes) \<le> sl_max_batch_records l"
    "\<forall>n\<in>set sizes. 0 \<le> n \<and> n \<le> sl_max_record_bytes l" "sum_list sizes \<le> whole" "whole \<le> sl_max_batch_bytes l" by blast
  have "sizes_of (map PInt sizes) = Some sizes" by (simp add: sizes_of_Some)
  moreover have "0 \<le> sum_list sizes" using s(5) by (intro sum_list_nonneg) simp
  ultimately show "validate_batch l vs v = Inr ()"
    using s by (force simp: validate_batch_def list_ex_iff)
qed

lemma negotiate_stricter:
  "negotiate l v = Inr l' \<Longrightarrow> limits_ok l \<Longrightarrow> limits_ok l' \<and> sl_max_in_flight l' \<le> sl_max_in_flight l
     \<and> l' = l\<lparr>sl_max_in_flight := sl_max_in_flight l'\<rparr>"
  by (auto simp: negotiate_def limits_ok_def protocol_error_def split: if_splits option.splits)

section \<open>Acknowledgements of telemetry\<close>

datatype record_status = COMMITTED | DUPLICATE | REJECTED

record record_ack =
  ra_record_index :: int
  ra_source_record_id :: string
  ra_status :: record_status
  ra_event_id :: "string option"
  ra_sequence :: "int option"
  ra_error_code :: "string option"
  ra_retryable :: bool

definition no_text :: "string option \<Rightarrow> bool" where
  "no_text s \<longleftrightarrow> s = None \<or> s = Some []"

definition make_record_ack :: "record_ack \<Rightarrow> record_ack result" where
  "make_record_ack a =
     (if ra_record_index a < 0 \<or> ra_source_record_id a = [] then protocol_error ''record acknowledgement identity is invalid''
      else if ra_status a = REJECTED
      then (if no_text (ra_error_code a) then protocol_error ''rejected record acknowledgement requires an error code'' else Inr a)
      else if no_text (ra_event_id a) \<or> (case ra_sequence a of None \<Rightarrow> True | Some n \<Rightarrow> n < 1)
      then protocol_error ''committed record acknowledgement lacks position''
      else if ra_error_code a \<noteq> None then protocol_error ''successful acknowledgement cannot carry an error''
      else Inr a)"

record stream_ack =
  sk_twin_id :: string
  sk_idempotency_key :: string
  sk_committed_sequence :: int
  sk_records :: "record_ack list"
  sk_resume_token :: string

definition make_stream_ack :: "stream_ack \<Rightarrow> stream_ack result" where
  "make_stream_ack a =
     (if sk_twin_id a = [] \<or> sk_idempotency_key a = [] \<or> sk_resume_token a = []
      then protocol_error ''stream acknowledgement identity is incomplete''
      else if sk_committed_sequence a < 0 then protocol_error ''committed sequence cannot be negative''
      else if \<not> distinct (map ra_record_index (sk_records a))
      then protocol_error ''record acknowledgement indices must be unique''
      else Inr a)"

text \<open>A record is acknowledged with a position or with an error code, never both.\<close>

lemma record_ack_exclusive:
  assumes "make_record_ack a = Inr b"
  shows "b = a \<and> (if ra_status a = REJECTED then \<not> no_text (ra_error_code a)
    else ra_error_code a = None \<and> \<not> no_text (ra_event_id a) \<and> (\<exists>n \<ge> 1. ra_sequence a = Some n))"
  using assms by (auto simp: make_record_ack_def protocol_error_def not_less split: if_splits option.splits)

end
