(* ===== verification/K2_Session.thy ===== *)
theory K2_Session
  imports K2_Sync
begin

text \<open>
  \<open>StateStreamSession\<close> of \<open>src/src/argo_dt/sync.py\<close>: the frames a client sees, and the session
  that turns the events of a durable subscription into frames with a resume token and turns tokens
  sent back into acknowledgements. The cursor codec is a \<open>cursor_ops\<close>: its three operations.
  Shown, for every codec that keeps the laws of \<open>cursor_codec\<close>: a frame carries the position of
  its event, the token of an outstanding frame is accepted and moves the acknowledged position to
  that frame, and an accepted token always names a position the session itself handed out.
\<close>

section \<open>Frames\<close>

definition stream_schema :: string where
  "stream_schema = ''argo.dt.state-stream/v1''"

record state_frame =
  sf_twin_id :: string
  sf_sequence :: int
  sf_event_type :: string
  sf_plane :: string
  sf_occurred_at :: string
  sf_recorded_at :: string
  sf_resume_token :: string
  sf_type :: string
  sf_schema_version :: string

definition frame_from_event :: "event \<Rightarrow> string \<Rightarrow> state_frame" where
  "frame_from_event ev token =
     \<lparr>sf_twin_id = twin_id ev, sf_sequence = sequence ev, sf_event_type = event_type ev,
      sf_plane = plane_text (event.plane ev), sf_occurred_at = iso_z (occurred_at ev),
      sf_recorded_at = iso_z (recorded_at ev), sf_resume_token = token, sf_type = ''event'',
      sf_schema_version = stream_schema\<rparr>"

definition frame_dict :: "state_frame \<Rightarrow> pyval" where
  "frame_dict f = to_primitive (PDict (dict_of
     [(''twin_id'', PStr (sf_twin_id f)), (''sequence'', PInt (sf_sequence f)), (''event_type'', PStr (sf_event_type f)),
      (''plane'', PStr (sf_plane f)), (''occurred_at'', PStr (sf_occurred_at f)),
      (''recorded_at'', PStr (sf_recorded_at f)), (''resume_token'', PStr (sf_resume_token f)),
      (''type'', PStr (sf_type f)), (''schema_version'', PStr (sf_schema_version f))]))"

record heartbeat_frame =
  hf_twin_id :: string
  hf_acknowledged_sequence :: int
  hf_resume_token :: string
  hf_sent_at :: string
  hf_type :: string
  hf_schema_version :: string

definition heartbeat_dict :: "heartbeat_frame \<Rightarrow> pyval" where
  "heartbeat_dict f = to_primitive (PDict (dict_of
     [(''twin_id'', PStr (hf_twin_id f)), (''acknowledged_sequence'', PInt (hf_acknowledged_sequence f)),
      (''resume_token'', PStr (hf_resume_token f)), (''sent_at'', PStr (hf_sent_at f)), (''type'', PStr (hf_type f)),
      (''schema_version'', PStr (hf_schema_version f))]))"

record close_frame =
  cf_twin_id :: string
  cf_code :: int
  cf_reason :: string
  cf_acknowledged_sequence :: int
  cf_resume_token :: string
  cf_type :: string
  cf_schema_version :: string

definition make_close_frame :: "string \<Rightarrow> int \<Rightarrow> string \<Rightarrow> int \<Rightarrow> string \<Rightarrow> close_frame result" where
  "make_close_frame twin code reason acked token =
     (if \<not> (1000 \<le> code \<and> code \<le> 4999) then protocol_error ''stream close code must be in [1000, 4999]''
      else if twin = [] \<or> token = [] then protocol_error ''stream close identity is incomplete''
      else if 256 < length reason then protocol_error ''stream close reason exceeds 256 characters''
      else Inr \<lparr>cf_twin_id = twin, cf_code = code, cf_reason = reason, cf_acknowledged_sequence = acked,
                cf_resume_token = token, cf_type = ''close'', cf_schema_version = stream_schema\<rparr>)"

definition close_dict :: "close_frame \<Rightarrow> pyval" where
  "close_dict f = to_primitive (PDict (dict_of
     [(''twin_id'', PStr (cf_twin_id f)), (''code'', PInt (cf_code f)), (''reason'', PStr (cf_reason f)),
      (''acknowledged_sequence'', PInt (cf_acknowledged_sequence f)), (''resume_token'', PStr (cf_resume_token f)),
      (''type'', PStr (cf_type f)), (''schema_version'', PStr (cf_schema_version f))]))"

section \<open>The session\<close>

text \<open>The protocol \<open>CursorCodec\<close>: issue at a time, verify at a time, bind to the chain.\<close>

record cursor_ops =
  co_issue :: "int \<Rightarrow> stream_position \<Rightarrow> string"
  co_verify :: "int \<Rightarrow> string \<Rightarrow> string \<Rightarrow> decoded_cursor result"
  co_bind :: "decoded_cursor \<Rightarrow> stream_position \<Rightarrow> stream_position result"

text \<open>\<open>__anext__\<close>: \<open>now\<close> is the clock \<open>issue\<close> reads.\<close>

definition session_next ::
  "(string \<Rightarrow> string) \<Rightarrow> head_op \<Rightarrow> load_op \<Rightarrow> cursor_ops \<Rightarrow> int \<Rightarrow> stream_state \<Rightarrow> state_frame outcome \<times> stream_state" where
  "session_next H head_op load_op co now st =
     (case durable_next H head_op load_op st of
        (Got ev, (d, env)) \<Rightarrow>
          (case make_position (twin_id ev) (sequence ev) (event_hash ev) of
             Inl err \<Rightarrow> (Raised err, (d, env))
           | Inr p \<Rightarrow> (Got (frame_from_event ev (co_issue co now p)), (d, count mx_emitted_frames_update env)))
      | (Wait, st') \<Rightarrow> (Wait, st')
      | (Stopped, st') \<Rightarrow> (Stopped, st')
      | (Raised err, st') \<Rightarrow> (Raised err, st'))"

definition session_acknowledge ::
  "cursor_ops \<Rightarrow> int \<Rightarrow> string \<Rightarrow> stream_state \<Rightarrow> (stream_position \<times> stream_state) result" where
  "session_acknowledge co now token st =
     (let (d, env) = st in
      bindE (co_verify co now token (sp_twin_id (ds_position d))) (\<lambda>decoded.
      bindE (acknowledgement_candidate (dc_sequence decoded) d) (\<lambda>candidate.
      bindE (co_bind co decoded candidate) (\<lambda>bound.
      bindE (acknowledge bound d) (\<lambda>(p, d'). Inr (p, (d', count mx_acknowledgements_update env)))))))"

definition session_heartbeat :: "cursor_ops \<Rightarrow> int \<Rightarrow> stream_state \<Rightarrow> heartbeat_frame \<times> stream_state" where
  "session_heartbeat co now st =
     (let (d, env) = st; p = ds_acknowledged d in
      (\<lparr>hf_twin_id = sp_twin_id p, hf_acknowledged_sequence = sp_sequence p, hf_resume_token = co_issue co now p,
        hf_sent_at = iso_z (utc now), hf_type = ''heartbeat'', hf_schema_version = stream_schema\<rparr>,
       (d, count mx_heartbeats_update env)))"

definition session_close :: "cursor_ops \<Rightarrow> int \<Rightarrow> int \<Rightarrow> string \<Rightarrow> stream_state \<Rightarrow> close_frame result \<times> stream_state" where
  "session_close co now code reason st =
     (let p = ds_acknowledged (fst st) in
      case make_close_frame (sp_twin_id p) code reason (sp_sequence p) (co_issue co now p) of
        Inl err \<Rightarrow> (Inl err, st)
      | Inr frame \<Rightarrow> (Inr frame, durable_close st))"

definition signer_ops :: "mac \<Rightarrow> cursor_signer \<Rightarrow> cursor_ops" where
  "signer_ops mac cs = \<lparr>co_issue = signer_issue mac cs, co_verify = signer_verify mac cs, co_bind = signer_binding mac cs\<rparr>"

definition ring_ops :: "mac \<Rightarrow> key_ring \<Rightarrow> cursor_ops" where
  "ring_ops mac ring = \<lparr>co_issue = ring_issue mac ring, co_verify = ring_verify mac ring, co_bind = ring_binding mac ring\<rparr>"

section \<open>Laws\<close>

lemma session_next_Got:
  assumes "session_next H head_op load_op co now st = (Got f, st')"
  obtains ev d env where "durable_next H head_op load_op st = (Got ev, (d, env))"
    "f = frame_from_event ev (co_issue co now (pos_of ev))" "st' = (d, count mx_emitted_frames_update env)"
  using assms
  by (auto simp: session_next_def make_position_def pos_of_def rejected_def split: prod.splits outcome.splits sum.splits if_splits)

text \<open>An accepted token names the acknowledged position or one still outstanding.\<close>

lemma acknowledgement_candidate_Inr:
  assumes "acknowledgement_candidate n d = Inr p"
  shows "p = ds_acknowledged d \<or> p \<in> set (ds_outstanding d)"
  using assms
  by (auto simp: acknowledgement_candidate_def outstanding_at_def protocol_error_def find_Some_iff split: if_splits option.splits)

lemma acknowledge_same:
  "sp_twin_id (ds_acknowledged d) = sp_twin_id (ds_position d) \<Longrightarrow> acknowledge (ds_acknowledged d) d = Inr (ds_acknowledged d, d)"
  by (simp add: acknowledge_def Let_def)

context cursor_codec
begin

lemma session_acknowledge_sound:
  assumes "co = \<lparr>co_issue = issue, co_verify = read, co_bind = bind_chain\<rparr>"
    and "session_acknowledge co now token st = Inr (p, st')"
  shows "p = ds_acknowledged (fst st) \<or> p \<in> set (ds_outstanding (fst st))"
proof -
  obtain decoded q r where a: "acknowledgement_candidate (dc_sequence decoded) (fst st) = Inr q"
      "bind_chain decoded q = Inr r" and ack: "acknowledge r (fst st) = Inr (p, fst st')"
    using assms by (auto simp: session_acknowledge_def bindE_Inr_iff split: prod.splits)
  have "r = q" using bind_position[OF a(2)] by simp
  moreover have "p = r \<or> p = ds_acknowledged (fst st)"
    using ack by (auto simp: acknowledge_def protocol_error_def Let_def split: if_splits option.splits)
  ultimately show ?thesis using acknowledgement_candidate_Inr[OF a(1)] by blast
qed

text \<open>The token of an outstanding position is accepted while it may be used.\<close>

lemma session_acknowledge_issued:
  assumes "co = \<lparr>co_issue = issue, co_verify = read, co_bind = bind_chain\<rparr>" "usable now later"
    and "sp_twin_id p = sp_twin_id (ds_position d)" "outstanding_at (sp_sequence p) d = Some p"
    and "sp_sequence (ds_acknowledged d) < sp_sequence p"
  shows "\<exists>d'. session_acknowledge co later (issue now p) (d, env) = Inr (p, (d', count mx_acknowledgements_update env))
    \<and> acknowledge p d = Inr (p, d') \<and> ds_acknowledged d' = p
    \<and> ds_outstanding d' = dropWhile (\<lambda>q. sp_sequence q \<le> sp_sequence p) (ds_outstanding d)"
proof -
  obtain c where c: "read later (issue now p) (sp_twin_id p) = Inr c" "dc_sequence c = sp_sequence p" "bind_chain c p = Inr p"
    using issued_read[OF assms(2), of p] by blast
  have "acknowledgement_candidate (dc_sequence c) d = Inr p"
    using assms(4,5) c(2) by (simp add: acknowledgement_candidate_def)
  moreover have "acknowledge p d = Inr (p, d\<lparr>ds_outstanding := dropWhile (\<lambda>q. sp_sequence q \<le> sp_sequence p) (ds_outstanding d),
      ds_acknowledged := p\<rparr>)"
    using assms(3-5) by (simp add: acknowledge_def Let_def)
  ultimately show ?thesis using assms(1,3) c by (simp add: session_acknowledge_def)
qed

text \<open>A heartbeat or a closing frame hands out the acknowledged position; resuming there is accepted.\<close>

lemma heartbeat_resumes:
  assumes "co = \<lparr>co_issue = issue, co_verify = read, co_bind = bind_chain\<rparr>" "usable now later"
    and "lookup (sp_sequence (ds_acknowledged d)) = Inr (ds_acknowledged d)"
  shows "bindE (co_verify co later (hf_resume_token (fst (session_heartbeat co now (d, env)))) (sp_twin_id (ds_acknowledged d)))
    (\<lambda>c. bindE (lookup (dc_sequence c)) (co_bind co c)) = Inr (ds_acknowledged d)"
  using resume_position[where lookup = lookup, OF assms(2,3)] assms(1) by (simp add: session_heartbeat_def Let_def)

end

lemma signer_ops_simps [simp]:
  "co_issue (signer_ops mac cs) = signer_issue mac cs" "co_verify (signer_ops mac cs) = signer_verify mac cs"
  "co_bind (signer_ops mac cs) = signer_binding mac cs"
  by (simp_all add: signer_ops_def)

section \<open>Sessions on the ledger\<close>

lemma stands_outstanding:
  assumes "stands H twin start shown m n w" "p \<in> set (ds_outstanding (sw_sub w))"
  shows "outstanding_at (sp_sequence p) (sw_sub w) = Some p" "sp_twin_id p = sp_twin_id (ds_position (sw_sub w))"
    "sp_sequence (ds_acknowledged (sw_sub w)) < sp_sequence p"
proof -
  let ?c = "stream (sw_db w) twin"
  have inv: "db_inv H (sw_db w)" and c: "core twin ?c n (sw_sub w, sw_env w)" and w: "window twin ?c m n (sw_sub w)"
    using assms(1) by (simp_all add: stands_def Let_def streamable_def)
  note chain = stream_chain[OF inv, of twin]
  obtain e where e: "e \<in> set (drop m (take n ?c))" "p = pos_of e" using assms(2) w by (auto simp: window_def)
  obtain k where k: "m \<le> k" "k < length ?c" "e = ?c ! k" using e(1) by (elim in_drop_take)
  have seq: "sp_sequence p = int k + 1" "sp_twin_id p = twin"
    using chain_verify_nth(2)[OF chain k(2)] e(2) k(2,3) in_stream_twin[OF inv, of "?c ! k" twin] by (simp_all add: pos_of_def)
  have "distinct (map sp_sequence (ds_outstanding (sw_sub w)))"
    using sorted_window[OF chain w] by (simp add: strict_sorted_iff)
  from find_by_key[OF this assms(2)] show "outstanding_at (sp_sequence p) (sw_sub w) = Some p"
    by (simp add: outstanding_at_def)
  show "sp_twin_id p = sp_twin_id (ds_position (sw_sub w))" using c seq(2) by (simp add: core_def Let_def position_at_def)
  show "sp_sequence (ds_acknowledged (sw_sub w)) < sp_sequence p"
    using w seq(1) k(1,2) by (simp add: window_def position_at_def)
qed

text \<open>A frame still outstanding is acknowledged by its token, and the run goes on from there.\<close>

lemma session_acknowledge_stands:
  assumes "stands H twin start shown m n w" "p \<in> set (ds_outstanding (sw_sub w))" "fresh_cursor cs now later"
  shows "\<exists>d' m'. session_acknowledge (signer_ops mac cs) later (signer_issue mac cs now p) (sw_sub w, sw_env w)
      = Inr (p, (d', count mx_acknowledgements_update (sw_env w)))
    \<and> ds_acknowledged d' = p \<and> stands H twin start shown m' n (w\<lparr>sw_sub := d'\<rparr>)"
proof -
  note out = stands_outstanding[OF assms(1,2)]
  from signer.session_acknowledge_issued[OF signer_ops_def assms(3) out(2,1,3)]
  obtain d' where d': "session_acknowledge (signer_ops mac cs) later (signer_issue mac cs now p) (sw_sub w, sw_env w)
      = Inr (p, (d', count mx_acknowledgements_update (sw_env w)))" "acknowledge p (sw_sub w) = Inr (p, d')"
      "ds_acknowledged d' = p" by blast
  from stands_ack[OF assms(1) d'(2)] d' show ?thesis by blast
qed

text \<open>Each frame carries the position of the event it reports, with a token for that position.\<close>

lemma session_next_frame:
  assumes "session_next H (head (sw_db w)) (sqlite_load (sw_db w)) co now (sw_sub w, sw_env w) = (Got f, (d, env))"
    and "stands H twin start shown m n w"
  shows "\<exists>ev env' m' n'. sqlite_next H w = (Got ev, d, env') \<and> shown ev \<and> f = frame_from_event ev (co_issue co now (pos_of ev))
    \<and> ev \<in> set (stream (sw_db w) twin) \<and> env = count mx_emitted_frames_update env'
    \<and> stands H twin start shown m' n' (w\<lparr>sw_sub := d, sw_env := env', sw_emitted := sw_emitted w @ [ev]\<rparr>)"
proof -
  from session_next_Got[OF assms(1)] obtain ev env' where ev: "sqlite_next H w = (Got ev, d, env')"
      "f = frame_from_event ev (co_issue co now (pos_of ev))" "env = count mx_emitted_frames_update env'"
    unfolding sqlite_next_def by (metis prod.inject)
  from stands_next[OF assms(2) ev(1)] obtain m' n' where s:
    "stands H twin start shown m' n' (w\<lparr>sw_sub := d, sw_env := env', sw_emitted := sw_emitted w @ [ev]\<rparr>)" by auto
  then have "sw_emitted w @ [ev] = filter shown (drop start (take n' (stream (sw_db w) twin)))"
    by (simp add: stands_def Let_def)
  then have "ev \<in> set (filter shown (drop start (take n' (stream (sw_db w) twin))))"
    by (metis in_set_conv_decomp)
  then have "shown ev" "ev \<in> set (stream (sw_db w) twin)" by (auto dest: in_set_dropD in_set_takeD)
  then show ?thesis using ev s by blast
qed

end
