(* ===== verification/K2_Examples_Sync.thy ===== *)
theory K2_Examples_Sync
  imports K2_Examples K2_Outbox_Laws K2_Session K2_Policy
begin

text \<open>
  Concrete inputs for the witnesses of the outbox, cursor and stream properties: the example ledger
  with its outbox row, a claim of it, a signer and its key, and a subscription opened on it.
\<close>

section \<open>The outbox of the example ledger\<close>

lemma ex_outbox:
  "\<exists>out db. append H 7 ex_event 0 empty_db = Inr (out, db) \<and> outbox_inv H db \<and> db_outbox db = [new_outbox out]
     \<and> twin_id out = ''t'' \<and> sequence out = 1 \<and> db_events db \<noteq> []"
proof -
  obtain out db where a: "append H 7 ex_event 0 empty_db = Inr (out, db)" using ex_append by blast
  obtain row prev where r: "seal H ex_event (0 + 1) prev (utc 7) = Inr out" "db_outbox db = db_outbox empty_db @ [new_outbox out]"
    "db_events db = db_events empty_db @ [row]"
    by (rule append_fresh_tables[OF a ex_no_duplicate])
  show ?thesis
    using a append_outbox_inv[OF a outbox_inv_empty ex_admissible] seal_fields[OF r(1)] r(2,3)
    by (simp add: ex_event_def empty_db_def)
qed

lemma ex_claim:
  "\<exists>out db recs db'. append H 7 ex_event 0 empty_db = Inr (out, db) \<and> outbox_inv H db
     \<and> claim_outbox H 9 ''w'' 10 30 db = Inr (recs, db') \<and> record_key ` set recs = {(''t'', 1, event_topic)}
     \<and> outbox_inv H db' \<and> db_outbox db = [new_outbox out]"
proof -
  obtain out db where d: "append H 7 ex_event 0 empty_db = Inr (out, db)" "outbox_inv H db"
    "db_outbox db = [new_outbox out]" "twin_id out = ''t''" "sequence out = 1" using ex_outbox by blast
  have "\<exists>recs db'. claim_outbox H 9 ''w'' 10 30 db = Inr (recs, db')
      \<and> record_key ` set recs = ob_key ` {r \<in> set (db_outbox db). leasable (isoformat (utc 9)) r}"
    by (rule claim_succeeds[OF d(2)])
      (simp_all add: lease_end_def outbox_backlog_def d(3))
  then obtain recs db' where c: "claim_outbox H 9 ''w'' 10 30 db = Inr (recs, db')"
    "record_key ` set recs = ob_key ` {r \<in> set (db_outbox db). leasable (isoformat (utc 9)) r}" by blast
  have "{r \<in> set (db_outbox db). leasable (isoformat (utc 9)) r} = {new_outbox out}"
    by (auto simp: d(3) leasable_def new_outbox_def)
  then have "record_key ` set recs = {(''t'', 1, event_topic)}"
    using c(2) d(4,5) by (simp add: ob_key_def new_outbox_def)
  then show ?thesis using d c(1) claim_inv[OF c(1) d(2)] by blast
qed

text \<open>A second claim while the lease runs finds nothing; one after its end takes the row over.\<close>

lemma ex_second_claim:
  assumes "0 \<le> later" "later < 100000000"
  shows "\<exists>db recs db' recs' db''. outbox_inv H db \<and> claim_outbox H 9 ''w'' 10 30 db = Inr (recs, db')
     \<and> record_key ` set recs = {(''t'', 1, event_topic)} \<and> claim_outbox H later ''v'' 10 30 db' = Inr (recs', db'')
     \<and> (lease_end 9 30 \<le> later \<longrightarrow> record_key ` set recs' = {(''t'', 1, event_topic)}) \<and> outbox_inv H db'"
proof -
  obtain out db recs db' where c: "outbox_inv H db" "claim_outbox H 9 ''w'' 10 30 db = Inr (recs, db')"
    "record_key ` set recs = {(''t'', 1, event_topic)}" "outbox_inv H db'" "db_outbox db = [new_outbox out]"
    using ex_claim[of H] by (elim exE conjE) (rule that; assumption)
  have "db_inv H db" using c(1) by (simp add: outbox_inv_def)
  obtain qs where qs0: "qs = due_rows (isoformat (utc 9)) 10 db" "mapE (record_of ''w'' db) qs = Inr recs"
    "db' = db\<lparr>db_outbox := leased ''w'' (isoformat (utc (lease_end 9 30))) (ob_key ` set qs) (db_outbox db)\<rparr>"
  proof (rule claim_Inr[OF c(2) \<open>db_inv H db\<close>])
    show thesis if "(10 :: int) \<le> 0" using that by simp
  qed (rule that)
  have qs: "qs = [new_outbox out]" unfolding qs0(1) due_rows_def c(5) by (simp add: leasable_def new_outbox_def)
  have row: "db_outbox db' = [take_lease ''w'' (isoformat (utc (lease_end 9 30))) (new_outbox out)]"
    unfolding qs0(3) qs by (simp add: leased_def c(5))
  have key: "ob_key (new_outbox out) = (''t'', 1, event_topic)"
    using record_key_set[OF qs0(2) \<open>db_inv H db\<close>] c(3,5) qs by simp
  have "\<exists>recs' db''. claim_outbox H later ''v'' 10 30 db' = Inr (recs', db'')
      \<and> record_key ` set recs' = ob_key ` {r \<in> set (db_outbox db'). leasable (isoformat (utc later)) r}"
    by (rule claim_succeeds[OF c(4)]) (use assms in \<open>simp_all add: lease_end_def outbox_backlog_def row\<close>)
  then obtain recs' db'' where s: "claim_outbox H later ''v'' 10 30 db' = Inr (recs', db'')"
    "record_key ` set recs' = ob_key ` {r \<in> set (db_outbox db'). leasable (isoformat (utc later)) r}" by blast
  have "record_key ` set recs' = {(''t'', 1, event_topic)}" if late: "lease_end 9 30 \<le> later"
  proof -
    have "isoformat (utc (lease_end 9 30)) \<le> isoformat (utc later)"
      using late assms(2) isoformat_utc_less[of "lease_end 9 30" later]
      by (cases "lease_end 9 30 = later") (simp_all add: lease_end_def)
    then have "{r \<in> set (db_outbox db'). leasable (isoformat (utc later)) r} = set (db_outbox db')"
      by (auto simp: row leasable_def take_lease_def new_outbox_def)
    then show ?thesis using s(2) key by (simp add: row take_lease_def ob_key_def)
  qed
  then have "lease_end 9 30 \<le> later \<longrightarrow> record_key ` set recs' = {(''t'', 1, event_topic)}" by (rule impI)
  then show ?thesis
    by (intro exI conjI) (rule c(1) c(2) c(3) s(1) c(4) | assumption)+
qed

text \<open>Append, claim and mark: the event is published.\<close>

lemma ex_delivery:
  "\<exists>v. delivery H \<lparr>w_db = empty_db, w_handed = [], w_done = []\<rparr> v \<and> w_done v \<noteq> []"
proof -
  let ?w = "\<lparr>w_db = empty_db, w_handed = [], w_done = []\<rparr>"
  obtain out db recs db' where c: "append H 7 ex_event 0 empty_db = Inr (out, db)" "outbox_inv H db"
    "claim_outbox H 9 ''w'' 10 30 db = Inr (recs, db')" "record_key ` set recs = {(''t'', 1, event_topic)}"
    using ex_claim[of H] by (elim exE conjE) (rule that; assumption)
  have "recs \<noteq> []" using c(4) by auto
  then obtain rec where rec: "rec \<in> set recs" by (cases recs) auto
  have l: "outbox_inv H db'" "holds rec db'" using claim_law[OF c(3,2)] rec by blast+
  obtain db'' where m: "mark_outbox_published 10 rec db' = (True, db'')"
    using mark_law[OF _ l(1), of 10 rec] l(2) by (metis surj_pair)
  have a: "append H 7 ex_event 0 (w_db ?w) = Inr (out, db)" using c(1) by simp
  have d1: "delivery H ?w (?w\<lparr>w_db := db\<rparr>)" by (rule deliver_append[OF deliver_refl a ex_admissible])
  have "claim_outbox H 9 ''w'' 10 30 (w_db (?w\<lparr>w_db := db\<rparr>)) = Inr (recs, db')" using c(3) by simp
  from deliver_claim[OF d1 this] have d2: "delivery H ?w \<lparr>w_db = db', w_handed = recs, w_done = []\<rparr>" by simp
  from deliver_mark[OF d2, of rec 10 True db''] rec m
  have "delivery H ?w \<lparr>w_db = db'', w_handed = recs, w_done = [rec]\<rparr>" by simp
  then show ?thesis by (intro exI[of _ "\<lparr>w_db = db'', w_handed = recs, w_done = [rec]\<rparr>"]) simp
qed

section \<open>A signer\<close>

definition ex_mac :: mac where
  "ex_mac key s = of_nat (length key + 3 * length s)"

definition ex_signer :: cursor_signer where
  "ex_signer = \<lparr>cs_key = replicate 32 CHR ''k'', cs_key_id = ''k1'', cs_max_age = Some 1000, cs_clock_skew = 0\<rparr>"

lemma ex_signer_made: "make_signer (replicate 32 CHR ''k'') ''k1'' (Some 1000) 0 = Inr ex_signer"
  by (simp add: make_signer_def ex_signer_def subject_token_def is_token_char_def Let_def is_digit_def digit_of_def)

definition ex_position :: stream_position where
  "ex_position = \<lparr>sp_twin_id = ''t'', sp_sequence = 1, sp_event_hash = ''sha256:'' @ replicate 64 CHR ''0''\<rparr>"

section \<open>A subscription on the example ledger\<close>

definition ex_hex :: "string \<Rightarrow> string" where
  "ex_hex s = replicate 64 CHR ''0''"

lemma ex_hex_digest: "hex_digest ex_hex"
  by (simp add: hex_digest_def ex_hex_def is_lower_hex_def is_digit_def digit_of_def list_all_iff)

definition ex_limits :: sync_limits where
  "ex_limits = \<lparr>sl_max_record_bytes = 10, sl_max_batch_bytes = 20, sl_max_batch_records = 3, sl_replay_page_size = 2,
     sl_max_in_flight = 2, sl_heartbeat_seconds = 30\<rparr>"

lemma ex_limits_made: "make_limits 10 20 3 2 2 30 = Inr ex_limits"
  by (simp add: make_limits_def ex_limits_def)

definition ex_env :: stream_env where
  "ex_env = \<lparr>se_broker = (case make_broker 4 of Inr b \<Rightarrow> b | Inl _ \<Rightarrow> undefined),
     se_metrics = \<lparr>mx_replayed_events = 0, mx_live_events = 0, mx_duplicate_events = 0, mx_emitted_frames = 0,
       mx_acknowledgements = 0, mx_heartbeats = 0, mx_closed_streams = 0, mx_integrity_failures = 0,
       mx_backpressure_closes = 0\<rparr>\<rparr>"

text \<open>Opened at the origin of the twin, it stands at 0.\<close>

definition ex_origin :: stream_position where
  "ex_origin = \<lparr>sp_twin_id = ''t'', sp_sequence = 0, sp_event_hash = []\<rparr>"

lemma ex_open:
  assumes "hex_digest H" "1 \<le> sl_replay_page_size limits"
  shows "\<exists>db sub env' out. durable_open (head db) (sqlite_load db) ex_origin limits [] [] ex_env = (Inr sub, env')
    \<and> db_inv H db \<and> stream db ''t'' = [out] \<and> ds_replay_head sub = 1 \<and> ds_outstanding sub = []
    \<and> \<not> ds_closed sub \<and> ds_limits sub = limits \<and> visible sub = (\<lambda>_. True)
    \<and> stands H ''t'' 0 (visible sub) 0 0 \<lparr>sw_db = db, sw_env = env', sw_sub = sub, sw_emitted = []\<rparr>"
proof -
  obtain out db where d: "db_inv H db" "stream db ''t'' = [persisted out]" using ex_ledger[of H] by blast
  have ok: "streamable H db" using d(1) assms(1) by (simp add: streamable_def)
  have h: "fst (head db ''t'') = 1" using ledger.head_law[OF ok, of "''t''"] d(2) by simp
  obtain sub env' where o: "durable_open (head db) (sqlite_load db) ex_origin limits [] [] ex_env = (Inr sub, env')"
    "ds_replay_head sub = 1" "ds_outstanding sub = []" "\<not> ds_closed sub" "ds_limits sub = limits"
    "ds_event_types sub = None" "ds_planes sub = None"
    using h by (simp add: durable_open_def broker_subscribe_def check_start_def Let_def ex_origin_def)
  from open_stands[OF o(1) ok assms(2)] obtain n where
    n: "ex_origin = position_at ''t'' (stream db ''t'') n"
      "stands H ''t'' n (visible sub) n n \<lparr>sw_db = db, sw_env = env', sw_sub = sub, sw_emitted = []\<rparr>"
    by (auto simp: ex_origin_def)
  have "n = 0" using n(1) by (simp add: position_at_def ex_origin_def)
  moreover have "visible sub = (\<lambda>_. True)" using o(6,7) by (simp add: visible_def fun_eq_iff)
  ultimately show ?thesis using n(2) o(1-5) d
    by (intro exI[of _ db] exI[of _ sub] exI[of _ env'] exI[of _ "persisted out"]) simp
qed

text \<open>After its first delivery the event is outstanding.\<close>

lemma ex_delivered:
  assumes "hex_digest H" "1 \<le> sl_replay_page_size limits" "1 \<le> sl_max_in_flight limits"
  shows "\<exists>w v ev m n. stands H ''t'' 0 (\<lambda>_. True) 0 0 w \<and> streaming H w v \<and> stands H ''t'' 0 (\<lambda>_. True) m n v
    \<and> durable_open (head (sw_db w)) (sqlite_load (sw_db w)) ex_origin limits [] [] ex_env = (Inr (sw_sub w), sw_env w)
    \<and> db_inv H (sw_db w) \<and> visible (sw_sub w) = (\<lambda>_. True) \<and> sw_emitted w = [] \<and> sw_emitted v = [ev] \<and> stream (sw_db v) ''t'' = [ev] \<and> ds_outstanding (sw_sub v) = [pos_of ev]
    \<and> \<not> ds_closed (sw_sub v) \<and> ds_limits (sw_sub v) = limits"
proof -
  obtain db sub env' out where o: "stream db ''t'' = [out]" "ds_replay_head sub = 1" "ds_outstanding sub = []"
    "\<not> ds_closed sub" "ds_limits sub = limits"
    "stands H ''t'' 0 (\<lambda>_. True) 0 0 \<lparr>sw_db = db, sw_env = env', sw_sub = sub, sw_emitted = []\<rparr>"
    "durable_open (head db) (sqlite_load db) ex_origin limits [] [] ex_env = (Inr sub, env')" "db_inv H db"
    "visible sub = (\<lambda>_. True)"
    using ex_open[OF assms(1,2)] by auto
  let ?w = "\<lparr>sw_db = db, sw_env = env', sw_sub = sub, sw_emitted = []\<rparr>"
  obtain rest env where s: "sqlite_next H ?w = (Got out, sub\<lparr>ds_buffer := rest, ds_position := position_at ''t'' [out] (Suc 0),
      ds_outstanding := [pos_of out]\<rparr>, env)"
    using stands_replays[OF o(6)] o assms(3) by auto
  let ?v = "\<lparr>sw_db = db, sw_env = env, sw_sub = sub\<lparr>ds_buffer := rest, ds_position := position_at ''t'' [out] (Suc 0),
      ds_outstanding := [pos_of out]\<rparr>, sw_emitted = [out]\<rparr>"
  have "streaming H ?w ?v" using stream_next[OF stream_refl s] by simp
  moreover obtain m n where "stands H ''t'' 0 (\<lambda>_. True) m n ?v" using stands_next[OF o(6) s] by auto
  ultimately show ?thesis using o by (intro exI[of _ ?w] exI[of _ ?v] exI[of _ out]) auto
qed

section \<open>Two claims that depend on each other\<close>

definition ex_edge :: "string \<Rightarrow> string \<Rightarrow> dependency_row" where
  "ex_edge a b = \<lparr>dp_twin_id = ''t'', dp_source_kind = ''claim'', dp_source_id = a, dp_dependent_kind = ''claim'',
     dp_dependent_id = b, dp_created_sequence = 1, dp_relation = ''superseded_by''\<rparr>"

definition ex_cycle_db :: db where
  "ex_cycle_db = empty_db\<lparr>db_dependencies := [ex_edge ''a'' ''b'', ex_edge ''b'' ''a'']\<rparr>"

lemma two_cycle_closure: "{y. (a, y) \<in> {(a, b), (b, a)}\<^sup>+} = {a, b}"
proof (rule Set.set_eqI)
  fix y
  have "(a, y) \<in> {(a, b), (b, a)}\<^sup>+ \<Longrightarrow> y \<in> {a, b}" by (induction rule: trancl_induct) auto
  moreover have "(a, b) \<in> {(a, b), (b, a)}\<^sup>+" by auto
  moreover from this have "(a, a) \<in> {(a, b), (b, a)}\<^sup>+" by (rule trancl_into_trancl) simp
  ultimately show "y \<in> {y. (a, y) \<in> {(a, b), (b, a)}\<^sup>+} \<longleftrightarrow> y \<in> {a, b}" by blast
qed

section \<open>An action and a grant\<close>

definition ex_action :: action_envelope where
  "ex_action = \<lparr>ae_action_id = ''a1'', ae_principal_id = ''p'', ae_actor_identity_id = ''bot'', ae_purpose = ''care'',
     ae_target = ''door'', ae_requested_capabilities = {''open''}, ae_impact = ''low'', ae_reversible = True,
     ae_evidence_ids = [''e1''], ae_constraint_version = ''v1'', ae_idempotency_key = ''k'', ae_issued_at = utc 1,
     ae_expires_at = utc 9\<rparr>"

definition ex_grant :: authority_grant where
  "ex_grant = \<lparr>ag_grant_id = ''g1'', ag_principal_id = ''p'', ag_actor_identity_id = ''bot'', ag_purposes = {''care''},
     ag_capabilities = {''open'', ''close''}, ag_maximum_impact = ''moderate'', ag_require_reversible = True,
     ag_valid_from = utc 0, ag_valid_until = utc 20, ag_revoked_at = None\<rparr>"

end
