(* ===== verification/K2_Compiler.thy ===== *)
theory K2_Compiler
  imports K2_Aggregate_Queries K2_Policy
begin

text \<open>
  The compilers of \<open>src/src/argo_dt/compiler.py\<close>: \<open>KernelCompiler.compile\<close> builds an artifact from
  the claims of a state, \<open>ProjectionCompiler.compile\<close> asks the policy and puts together what a
  recipient sees, with a receipt. Identifiers drawn by \<open>uuid4\<close> and clock readings are arguments,
  the policy is the operation \<open>evaluate\<close> of the port. Shown, for every policy that keeps the laws of
  \<open>policy_evaluator\<close>: a projection exists only under a consent that covers the request, holds one
  artifact for each granted field and nothing else, and each artifact shows exactly the claims that
  are live, within the sensitivity and the two times asked for, reduced to the five public fields.
\<close>

section \<open>Artifacts\<close>

definition artifact_fields :: "string list" where
  "artifact_fields =
     [''boundaries'', ''capabilities'', ''counterweights'', ''decision_model'', ''history'', ''kernel'', ''now'',
      ''people'', ''readiness'', ''voice'']"

definition claim_kind_to_artifact :: "string dict" where
  "claim_kind_to_artifact =
     [(''boundary'', ''boundaries''), (''capability'', ''capabilities''), (''communication'', ''voice''),
      (''current_state'', ''now''), (''decision_heuristic'', ''decision_model''), (''event'', ''history''),
      (''relationship'', ''people'')]"

definition disclosed_claim_fields :: "string list" where
  "disclosed_claim_fields = [''epistemic'', ''kind'', ''statement'', ''valid_from'', ''valid_until'']"

definition compiler_version :: string where
  "compiler_version = ''argo.dt.kernel-compiler/v1''"

text \<open>The local function \<open>visible\<close> of the counterweights.\<close>

definition visible_claim :: "datetime option \<Rightarrow> datetime option \<Rightarrow> sensitivity option \<Rightarrow> pydict \<Rightarrow> bool result" where
  "visible_claim valid_at known_at limit claim =
     bindE (too_sensitive limit claim) (\<lambda>a. if a then Inr False else
     bindE (outside_valid_time valid_at claim) (\<lambda>b. if b then Inr False else
     bindE (not_known_yet known_at claim) (\<lambda>d. Inr (\<not> d))))"

definition contested_claim ::
  "twin_state \<Rightarrow> datetime option \<Rightarrow> datetime option \<Rightarrow> sensitivity option \<Rightarrow> string \<Rightarrow> pydict list result" where
  "contested_claim s valid_at known_at limit c =
     (case map_of (st_claims s) c of
        None \<Rightarrow> Inr []
      | Some claim \<Rightarrow>
          if c \<in> st_stale_claim_ids s then Inr []
          else bindE (visible_claim valid_at known_at limit claim) (\<lambda>v. Inr (if v then [claim] else [])))"

definition contested_claims ::
  "twin_state \<Rightarrow> datetime option \<Rightarrow> datetime option \<Rightarrow> sensitivity option \<Rightarrow> pydict list result" where
  "contested_claims s valid_at known_at limit =
     bindE (mapE (contested_claim s valid_at known_at limit) (sorted_list_of_set (st_contested_claim_ids s)))
       (\<lambda>parts. Inr (concat parts))"

definition of_kind :: "string \<Rightarrow> pydict \<Rightarrow> bool" where
  "of_kind ty claim \<longleftrightarrow> map_of claim_kind_to_artifact (py_str (pget claim ''kind'')) = Some ty"

definition select_for ::
  "twin_state \<Rightarrow> string \<Rightarrow> datetime option \<Rightarrow> datetime option \<Rightarrow> sensitivity option \<Rightarrow> pydict list \<Rightarrow> pydict list result" where
  "select_for s ty valid_at known_at limit accepted =
     (if ty = ''kernel'' then Inr accepted
      else if ty = ''counterweights'' then contested_claims s valid_at known_at limit
      else if ty = ''readiness'' then Inr []
      else Inr (filter (of_kind ty) accepted))"

definition loss_report :: "twin_state \<Rightarrow> pydict" where
  "loss_report s =
     [(''degraded_reasons'', str_list (st_degraded_reasons s)),
      (''excluded_stale_claim_ids'', str_list (sorted_list_of_set (st_stale_claim_ids s))),
      (''unresolved_contradiction_ids'', str_list (sort (dict_keys (st_contradictions s))))]"

definition artifact_payload :: "twin_state \<Rightarrow> string \<Rightarrow> pydict list \<Rightarrow> pydict list \<Rightarrow> pydict" where
  "artifact_payload s ty accepted selected =
     (if ty = ''readiness''
      then [(''degraded_reasons'', str_list (st_degraded_reasons s)),
            (''visible_accepted_claims'', PInt (int (length accepted)))]
      else [(''claims'', PList (map PDict selected))])"

definition artifact_material :: "kernel_artifact \<Rightarrow> pyval" where
  "artifact_material a =
     PDict [(''artifact_type'', PStr (ka_artifact_type a)), (''compiler_version'', PStr (ka_compiler_version a)),
            (''loss_report'', PDict (ka_loss_report a)), (''payload'', PDict (ka_payload a)),
            (''source_claim_ids'', PTuple (map PStr (ka_source_claim_ids a))),
            (''source_sequence'', PInt (ka_source_sequence a)), (''status'', PStr (ka_status a)),
            (''twin_id'', PStr (ka_twin_id a))]"

definition kernel_compile ::
  "(string \<Rightarrow> string) \<Rightarrow> int \<Rightarrow> string \<Rightarrow> twin_state \<Rightarrow> string \<Rightarrow> datetime option \<Rightarrow> datetime option
     \<Rightarrow> sensitivity option \<Rightarrow> kernel_artifact result" where
  "kernel_compile H now ident s ty valid_at known_at limit =
     (if ty \<notin> set artifact_fields then violation (''unsupported artifact type: '' @ ty)
      else bindE (accepted_claims s valid_at known_at limit) (\<lambda>accepted.
        bindE (select_for s ty valid_at known_at limit accepted) (\<lambda>selected.
        bindE (mapE (\<lambda>claim. text_item claim ''claim_id'') selected) (\<lambda>claim_ids.
        let a = \<lparr>ka_artifact_id = ident, ka_twin_id = st_twin_id s, ka_artifact_type = ty,
                 ka_source_sequence = st_sequence s, ka_source_claim_ids = claim_ids,
                 ka_compiler_version = compiler_version,
                 ka_status = (if st_degraded_reasons s \<noteq> [] then ''degraded'' else ''ready''),
                 ka_payload = artifact_payload s ty accepted selected, ka_loss_report = loss_report s,
                 ka_compiled_at = utc now, ka_artifact_hash = []\<rparr>
        in bindE (content_hash H (artifact_material a)) (\<lambda>h. Inr (a\<lparr>ka_artifact_hash := h\<rparr>))))))"

section \<open>Projections\<close>

definition minimal_claim :: "pydict \<Rightarrow> pydict" where
  "minimal_claim claim = filter (\<lambda>(k, v). k \<in> set disclosed_claim_fields) claim"

definition disclosed_payload :: "pydict \<Rightarrow> pydict" where
  "disclosed_payload p =
     (case pget p ''claims'' of
        PList claims \<Rightarrow> [(''claims'', PList (map (\<lambda>v. PDict (minimal_claim (dict_val v))) (filter is_dict claims)))]
      | _ \<Rightarrow> p)"

definition disclosed_loss :: "kernel_artifact \<Rightarrow> pydict" where
  "disclosed_loss a = [(''degraded'', PBool (py_truthy (pget (ka_loss_report a) ''degraded_reasons'')))]"

definition project_artifact :: "(string \<Rightarrow> string) \<Rightarrow> string \<Rightarrow> kernel_artifact \<Rightarrow> pyval result" where
  "project_artifact H field a =
     bindE (content_hash H (PDict
        [(''artifact_type'', PStr field), (''loss_report'', PDict (disclosed_loss a)),
         (''payload'', PDict (disclosed_payload (ka_payload a))), (''source_sequence'', PInt (ka_source_sequence a)),
         (''status'', PStr (ka_status a))])) (\<lambda>h.
     Inr (PDict
        [(''artifact_hash'', PStr h), (''artifact_id'', PStr (ka_artifact_id a)),
         (''loss_report'', PDict (disclosed_loss a)), (''payload'', PDict (disclosed_payload (ka_payload a))),
         (''source_sequence'', PInt (ka_source_sequence a)), (''status'', PStr (ka_status a))]))"

definition compile_field ::
  "(string \<Rightarrow> string) \<Rightarrow> int \<Rightarrow> (string \<Rightarrow> string) \<Rightarrow> twin_state \<Rightarrow> projection_request \<Rightarrow> string
     \<Rightarrow> ((string \<times> pyval) \<times> string list) result" where
  "compile_field H now ids s rq field =
     bindE (kernel_compile H now (ids field) s field (Some (rq_as_of_valid_time rq)) (Some (rq_as_of_recorded_time rq))
        (Some (rq_maximum_sensitivity rq))) (\<lambda>a.
     bindE (project_artifact H field a) (\<lambda>v. Inr ((field, v), ka_source_claim_ids a)))"

definition projection_of :: "twin_state \<Rightarrow> projection_request \<Rightarrow> (string \<times> pyval) list \<Rightarrow> pydict" where
  "projection_of s rq artifacts =
     [(''artifacts'', PDict artifacts),
      (''as_of_recorded_time'', PStr (isoformat (rq_as_of_recorded_time rq))),
      (''as_of_valid_time'', PStr (isoformat (rq_as_of_valid_time rq))),
      (''purpose'', PStr (rq_purpose rq)), (''recipient_id'', PStr (rq_recipient_id rq)),
      (''schema_version'', PStr ''argo.dt.projection/v1''), (''subject_id'', PStr (rq_subject_id rq)),
      (''twin_id'', PStr (st_twin_id s))]"

abbreviation hour_us :: int where "hour_us \<equiv> 3600000000"

text \<open>\<open>min(consent.valid_until, issued_at + timedelta(hours=1))\<close>\<close>

definition receipt_expiry :: "int \<Rightarrow> consent_grant \<Rightarrow> datetime result" where
  "receipt_expiry issued c =
     (if 3652059 * day_us \<le> issued + hour_us then Inl OverflowError
      else bindE (dt_less (utc (issued + hour_us)) (cg_valid_until c)) (\<lambda>sooner.
        Inr (if sooner then utc (issued + hour_us) else cg_valid_until c)))"

text \<open>\<open>",".join(reasons)\<close> of a denial is the message of PolicyDenied.\<close>

definition compile_projection ::
  "(int \<Rightarrow> projection_request \<Rightarrow> consent_grant option \<Rightarrow> string set \<Rightarrow> projection_decision result)
     \<Rightarrow> (string \<Rightarrow> string) \<Rightarrow> int \<Rightarrow> int \<Rightarrow> (string \<Rightarrow> string) \<Rightarrow> string \<Rightarrow> twin_state \<Rightarrow> projection_request
     \<Rightarrow> consent_grant option \<Rightarrow> (pydict \<times> projection_receipt) result" where
  "compile_projection evaluate H asked issued ids ident s rq consent =
     (if rq_twin_id rq \<noteq> st_twin_id s then violation ''projection request twin does not match state''
      else if st_subject_id s \<noteq> Some (rq_subject_id rq)
      then violation ''projection request subject does not match twin''
      else bindE (evaluate asked rq consent (set artifact_fields)) (\<lambda>(allowed, reasons, fields).
        case consent of
          None \<Rightarrow> Inl (PolicyDenied (join '','' reasons))
        | Some c \<Rightarrow>
            if \<not> allowed then Inl (PolicyDenied (join '','' reasons))
            else bindE (mapE (compile_field H issued ids s rq) (sorted_list_of_set fields)) (\<lambda>parts.
              let projection = projection_of s rq (map fst parts);
                  sources = \<Union>(set ` snd ` set parts) in
              bindE (receipt_expiry issued c) (\<lambda>expires.
              bindE (content_hash H (PDict projection)) (\<lambda>h.
              Inr (projection,
                \<lparr>rc_projection_id = ident, rc_request_id = rq_request_id rq, rc_consent_id = cg_consent_id c,
                 rc_policy_version = cg_policy_version c, rc_issued_at = utc issued, rc_expires_at = expires,
                 rc_source_sequence = st_sequence s, rc_disclosed_fields = sorted_list_of_set fields,
                 rc_source_claim_ids = sorted_list_of_set sources, rc_artifact_hash = h,
                 rc_decision_reasons = reasons\<rparr>))))))"

section \<open>What an artifact shows\<close>

text \<open>
  The specification: the claims an artifact of a request shows. Counterweights show contested
  claims, the others accepted ones that are live; all within the sensitivity limit, valid at the
  valid time and recorded by the recorded time of the request; \<open>kernel\<close> and \<open>counterweights\<close> of any
  kind, the others of their own.
\<close>

definition claim_shown :: "twin_state \<Rightarrow> projection_request \<Rightarrow> string \<Rightarrow> pydict \<Rightarrow> bool" where
  "claim_shown s rq ty x \<longleftrightarrow>
     (\<exists>c. map_of (st_claims s) c = Some x \<and> c \<notin> st_stale_claim_ids s
        \<and> (if ty = ''counterweights'' then c \<in> st_contested_claim_ids s
           else c \<in> st_accepted_claim_ids s \<and> c \<notin> st_retired_claim_ids s \<and> c \<notin> st_superseded_claim_ids s))
     \<and> (ty = ''kernel'' \<or> ty = ''counterweights'' \<or> of_kind ty x)
     \<and> too_sensitive (Some (rq_maximum_sensitivity rq)) x = Inr False
     \<and> outside_valid_time (Some (rq_as_of_valid_time rq)) x = Inr False
     \<and> not_known_yet (Some (rq_as_of_recorded_time rq)) x = Inr False"

definition shown_claims :: "pyval \<Rightarrow> pyval list" where
  "shown_claims v = list_val (pget (dict_val (pget (dict_val v) ''payload'')) ''claims'')"

lemma visible_claim_True:
  "visible_claim valid_at known_at limit x = Inr True \<longleftrightarrow>
     too_sensitive limit x = Inr False \<and> outside_valid_time valid_at x = Inr False \<and> not_known_yet known_at x = Inr False"
  by (auto simp: visible_claim_def bindE_Inr_iff split: if_splits)

lemma concat_parts:
  assumes "mapE f xs = Inr parts"
  shows "y \<in> set (concat parts) \<longleftrightarrow> (\<exists>x\<in>set xs. \<exists>ys. f x = Inr ys \<and> y \<in> set ys)"
proof -
  have "list_all2 (\<lambda>x ys. f x = Inr ys) xs parts" using assms by (simp add: mapE_Inr_iff)
  then show ?thesis by (induction rule: list_all2_induct) auto
qed

lemma contested_claims_iff:
  assumes "contested_claims s valid_at known_at limit = Inr cs" "finite (st_contested_claim_ids s)"
  shows "x \<in> set cs \<longleftrightarrow>
    (\<exists>c. c \<in> st_contested_claim_ids s \<and> c \<notin> st_stale_claim_ids s \<and> map_of (st_claims s) c = Some x)
    \<and> too_sensitive limit x = Inr False \<and> outside_valid_time valid_at x = Inr False \<and> not_known_yet known_at x = Inr False"
proof -
  obtain parts where p: "mapE (contested_claim s valid_at known_at limit) (sorted_list_of_set (st_contested_claim_ids s)) = Inr parts"
    "cs = concat parts" using assms(1) by (auto simp: contested_claims_def bindE_Inr_iff)
  have one: "x \<in> set ys \<longleftrightarrow> c \<notin> st_stale_claim_ids s \<and> map_of (st_claims s) c = Some x \<and> too_sensitive limit x = Inr False
      \<and> outside_valid_time valid_at x = Inr False \<and> not_known_yet known_at x = Inr False"
    if "contested_claim s valid_at known_at limit c = Inr ys" for c ys
  proof (cases "map_of (st_claims s) c")
    case (Some y)
    then show ?thesis
      using that visible_claim_True[of valid_at known_at limit y]
      by (cases "visible_claim valid_at known_at limit y") (auto simp: contested_claim_def split: if_splits)
  qed (use that in \<open>simp add: contested_claim_def\<close>)
  have all: "\<exists>ys. contested_claim s valid_at known_at limit c = Inr ys" if "c \<in> st_contested_claim_ids s" for c
    using p(1) that assms(2) by (fastforce simp: mapE_Inr_iff dest: list_all2_set1)
  show ?thesis unfolding p(2) concat_parts[OF p(1)] using one all assms(2) by fastforce
qed

lemma select_for_iff:
  assumes "accepted_claims s (Some (rq_as_of_valid_time rq)) (Some (rq_as_of_recorded_time rq)) (Some (rq_maximum_sensitivity rq)) = Inr accepted"
    and "select_for s ty (Some (rq_as_of_valid_time rq)) (Some (rq_as_of_recorded_time rq)) (Some (rq_maximum_sensitivity rq)) accepted = Inr cs"
    and "twin_inv s" "ty \<noteq> ''readiness''"
  shows "x \<in> set cs \<longleftrightarrow> claim_shown s rq ty x"
proof (cases "ty = ''counterweights''")
  case True
  then show ?thesis
    using assms(2) contested_claims_iff twin_inv_finite(4)[OF assms(3)]
    by (auto simp: select_for_def claim_shown_def)
next
  case False
  have "cs = (if ty = ''kernel'' then accepted else filter (of_kind ty) accepted)"
    using assms(2,4) False by (auto simp: select_for_def split: if_splits)
  then show ?thesis
    using False accepted_claims_iff[OF assms(1) twin_inv_finite(3)[OF assms(3)], of x]
    by (auto simp: claim_shown_def excluded_def)
qed

text \<open>The payload of an artifact, once reduced, holds the public fields of the selected claims.\<close>

lemma disclosed_selected:
  "ty \<noteq> ''readiness'' \<Longrightarrow> disclosed_payload (artifact_payload s ty accepted cs) =
     [(''claims'', PList (map (\<lambda>x. PDict (minimal_claim x)) cs))]"
  by (simp add: disclosed_payload_def artifact_payload_def pget_def get_or_def filter_True comp_def)

lemma compile_field_ok:
  assumes "compile_field H now ids s rq field = Inr (part, sources)"
  obtains accepted cs a where
    "accepted_claims s (Some (rq_as_of_valid_time rq)) (Some (rq_as_of_recorded_time rq)) (Some (rq_maximum_sensitivity rq)) = Inr accepted"
    "select_for s field (Some (rq_as_of_valid_time rq)) (Some (rq_as_of_recorded_time rq)) (Some (rq_maximum_sensitivity rq)) accepted = Inr cs"
    "mapE (\<lambda>claim. text_item claim ''claim_id'') cs = Inr sources" "fst part = field" "field \<in> set artifact_fields"
    "pget (dict_val (snd part)) ''payload'' = PDict (disclosed_payload (artifact_payload s field accepted cs))"
  using assms
  by (auto simp: compile_field_def kernel_compile_def project_artifact_def bindE_Inr_iff violation_def Let_def pget_def get_or_def
      split: if_splits)

lemma compile_field_shows:
  assumes "compile_field H now ids s rq field = Inr (part, sources)" "twin_inv s" "keys_ok s"
  shows "fst part = field \<and> (field \<noteq> ''readiness'' \<longrightarrow>
      (\<exists>xs. shown_claims (snd part) = map (\<lambda>x. PDict (minimal_claim x)) xs \<and> set xs = {x. claim_shown s rq field x}))"
proof -
  from compile_field_ok[OF assms(1)] obtain accepted cs where
    c: "accepted_claims s (Some (rq_as_of_valid_time rq)) (Some (rq_as_of_recorded_time rq)) (Some (rq_maximum_sensitivity rq)) = Inr accepted"
    "select_for s field (Some (rq_as_of_valid_time rq)) (Some (rq_as_of_recorded_time rq)) (Some (rq_maximum_sensitivity rq)) accepted = Inr cs"
    "fst part = field" "pget (dict_val (snd part)) ''payload'' = PDict (disclosed_payload (artifact_payload s field accepted cs))"
    by metis
  show ?thesis
    using c(3,4) select_for_iff[OF c(1,2) assms(2)] disclosed_selected[of field s accepted cs]
    by (auto simp: shown_claims_def pget_def get_or_def list_val_def)
qed

lemma minimal_claim_fields: "k \<in> set (dict_keys (minimal_claim x)) \<Longrightarrow> k \<in> set disclosed_claim_fields"
  by (auto simp: minimal_claim_def)

section \<open>What a projection discloses\<close>

lemma receipt_expiry_bound:
  "receipt_expiry issued c = Inr e \<Longrightarrow>
     instant e \<le> issued + hour_us \<and> instant e \<le> instant (cg_valid_until c) \<and> \<not> naive e"
  by (auto simp: receipt_expiry_def bindE_Inr_iff dt_less_def split: if_splits)

lemma mapE_in:
  assumes "mapE f xs = Inr ys"
  shows "map f xs = map Inr ys"
  using assms by (induction xs arbitrary: ys) (auto simp: bindE_Inr_iff)

text \<open>The fields of a list of compiled parts, and what each of them shows.\<close>

lemma compile_fields:
  assumes "mapE (compile_field H now ids s rq) fs = Inr parts" "twin_inv s" "keys_ok s"
  shows "map (fst \<circ> fst) parts = fs"
    and "part \<in> set parts \<Longrightarrow> fst (fst part) \<noteq> ''readiness'' \<Longrightarrow>
      \<exists>xs. shown_claims (snd (fst part)) = map (\<lambda>x. PDict (minimal_claim x)) xs \<and> set xs = {x. claim_shown s rq (fst (fst part)) x}"
proof -
  have two: "list_all2 (\<lambda>f part. compile_field H now ids s rq f = Inr part) fs parts" using assms(1) by (simp add: mapE_Inr_iff)
  then show "map (fst \<circ> fst) parts = fs"
  proof (induction rule: list_all2_induct)
    case (Cons f fs part parts)
    then show ?case using compile_field_shows[of H now ids s rq f "fst part" "snd part"] assms(2,3) by simp
  qed simp
  assume p: "part \<in> set parts" "fst (fst part) \<noteq> ''readiness''"
  obtain f where f: "compile_field H now ids s rq f = Inr part" using list_all2_set2[OF two] p(1) by blast
  obtain entry sources where part: "part = (entry, sources)" by (cases part)
  from compile_field_shows[OF f[unfolded part] assms(2,3)] p(2) show
    "\<exists>xs. shown_claims (snd (fst part)) = map (\<lambda>x. PDict (minimal_claim x)) xs \<and> set xs = {x. claim_shown s rq (fst (fst part)) x}"
    unfolding part by simp
qed

text \<open>The sources of a compiled field are the identifiers of the claims it shows.\<close>

lemma shown_claim_id:
  assumes "claim_shown s rq f x" "keys_ok s" "text_item x ''claim_id'' = Inr c"
  shows "map_of (st_claims s) c = Some x"
proof -
  obtain k where "map_of (st_claims s) k = Some x" using assms(1) by (auto simp: claim_shown_def)
  moreover from this have "text_item x ''claim_id'' = Inr k"
    using assms(2) by (auto simp: keys_ok_def intro: filed_lookup)
  ultimately show ?thesis using assms(3) by simp
qed

lemma compile_field_sources:
  assumes "compile_field H now ids s rq field = Inr (part, sources)" "twin_inv s" "keys_ok s" "field \<noteq> ''readiness''"
  shows "set sources = {c. \<exists>x. map_of (st_claims s) c = Some x \<and> claim_shown s rq field x}"
proof -
  from compile_field_ok[OF assms(1)] obtain accepted cs where
    c: "accepted_claims s (Some (rq_as_of_valid_time rq)) (Some (rq_as_of_recorded_time rq)) (Some (rq_maximum_sensitivity rq)) = Inr accepted"
    "select_for s field (Some (rq_as_of_valid_time rq)) (Some (rq_as_of_recorded_time rq)) (Some (rq_maximum_sensitivity rq)) accepted = Inr cs"
    "mapE (\<lambda>claim. text_item claim ''claim_id'') cs = Inr sources" by metis
  note sel = select_for_iff[OF c(1,2) assms(2,4)]
  have "c \<in> set sources \<longleftrightarrow> (\<exists>x\<in>set cs. text_item x ''claim_id'' = Inr c)" for c
  proof -
    have "Inr c \<in> set (map Inr sources :: string result list) \<longleftrightarrow> (\<exists>x\<in>set cs. text_item x ''claim_id'' = Inr c)"
      unfolding mapE_in[OF c(3), symmetric] by (force simp: image_iff eq_commute)
    then show ?thesis by auto
  qed
  moreover have "text_item x ''claim_id'' = Inr c" if "map_of (st_claims s) c = Some x" for x c
    using that assms(3) by (auto simp: keys_ok_def intro: filed_lookup)
  ultimately show ?thesis using sel shown_claim_id[OF _ assms(3)] by blast
qed

lemma readiness_sources:
  "compile_field H now ids s rq ''readiness'' = Inr (part, sources) \<Longrightarrow> sources = []"
  by (erule compile_field_ok) (auto simp: select_for_def)

context policy_evaluator
begin

lemma compiled_consent:
  assumes "compile_projection evaluate H asked issued ids ident s rq consent = Inr (projection, rc)"
  obtains c reasons fields parts where
    "consent = Some c" "consent_covers asked rq c" "st_twin_id s = rq_twin_id rq" "st_subject_id s = Some (rq_subject_id rq)"
    "fields \<noteq> {}" "fields \<subseteq> rq_requested_fields rq \<inter> set artifact_fields"
    "mapE (compile_field H issued ids s rq) (sorted_list_of_set fields) = Inr parts"
    "projection = projection_of s rq (map fst parts)" "rc_disclosed_fields rc = sorted_list_of_set fields"
    "rc_source_claim_ids rc = sorted_list_of_set (\<Union>(set ` snd ` set parts))"
    "receipt_expiry issued c = Inr (rc_expires_at rc)" "content_hash H (PDict projection) = Inr (rc_artifact_hash rc)"
    "rc_source_sequence rc = st_sequence s" "rc_request_id rc = rq_request_id rq" "rc_consent_id rc = cg_consent_id c"
    "rc_projection_id rc = ident" "rc_decision_reasons rc = reasons"
proof -
  obtain reasons fields c parts where e: "evaluate asked rq consent (set artifact_fields) = Inr (True, reasons, fields)"
    "consent = Some c" and rest: "st_twin_id s = rq_twin_id rq" "st_subject_id s = Some (rq_subject_id rq)"
    "mapE (compile_field H issued ids s rq) (sorted_list_of_set fields) = Inr parts"
    "projection = projection_of s rq (map fst parts)" "rc_disclosed_fields rc = sorted_list_of_set fields"
    "rc_source_claim_ids rc = sorted_list_of_set (\<Union>(set ` snd ` set parts))"
    "receipt_expiry issued c = Inr (rc_expires_at rc)" "content_hash H (PDict projection) = Inr (rc_artifact_hash rc)"
    "rc_source_sequence rc = st_sequence s" "rc_request_id rc = rq_request_id rq" "rc_consent_id rc = cg_consent_id c"
    "rc_projection_id rc = ident" "rc_decision_reasons rc = reasons"
    using assms
    by (auto simp: compile_projection_def bindE_Inr_iff violation_def Let_def split: if_splits option.splits prod.splits)
  have "consent_covers asked rq c" using allow_consent[OF e(1)] e(2) by simp
  moreover have "fields \<noteq> {}" "fields \<subseteq> rq_requested_fields rq \<inter> set artifact_fields" using allow_fields[OF e(1)] by blast+
  ultimately show thesis using that e(2) rest by blast
qed

text \<open>
  Minimum necessary: a projection that comes back was covered by the consent, holds one artifact per
  granted field, and each shows exactly the claims the request may see, in their public fields; the
  receipt names exactly their identifiers and expires with the consent at the latest.
\<close>

lemma compiled_projection:
  assumes "compile_projection evaluate H asked issued ids ident s rq consent = Inr (projection, rc)"
    and "twin_inv s" "keys_ok s"
  shows "\<exists>c arts. consent = Some c \<and> consent_covers asked rq c \<and> pget projection ''artifacts'' = PDict arts
    \<and> map fst arts = rc_disclosed_fields rc \<and> set (map fst arts) \<subseteq> rq_requested_fields rq
    \<and> (\<forall>f v. (f, v) \<in> set arts \<and> f \<noteq> ''readiness'' \<longrightarrow>
        (\<exists>xs. shown_claims v = map (\<lambda>x. PDict (minimal_claim x)) xs \<and> set xs = {x. claim_shown s rq f x}))
    \<and> set (rc_source_claim_ids rc) = {k. \<exists>f x. f \<in> set (rc_disclosed_fields rc) \<and> f \<noteq> ''readiness''
        \<and> map_of (st_claims s) k = Some x \<and> claim_shown s rq f x}
    \<and> instant (rc_expires_at rc) \<le> instant (cg_valid_until c) \<and> instant (rc_expires_at rc) \<le> issued + hour_us"
proof -
  from assms(1) obtain c reasons fields parts where p:
    "consent = Some c" "consent_covers asked rq c" "fields \<subseteq> rq_requested_fields rq \<inter> set artifact_fields"
    "mapE (compile_field H issued ids s rq) (sorted_list_of_set fields) = Inr parts"
    "projection = projection_of s rq (map fst parts)" "rc_disclosed_fields rc = sorted_list_of_set fields"
    "rc_source_claim_ids rc = sorted_list_of_set (\<Union>(set ` snd ` set parts))" "receipt_expiry issued c = Inr (rc_expires_at rc)"
    by (rule compiled_consent)
  have fin: "finite fields" using p(3) finite_subset[of fields "set artifact_fields"] by simp
  let ?arts = "map fst parts"
  note fields = compile_fields[OF p(4) assms(2,3)]
  have keys: "map fst ?arts = rc_disclosed_fields rc" using fields(1) p(6) by (simp add: comp_def)
  have sources: "k \<in> set src \<longleftrightarrow> f \<noteq> ''readiness'' \<and> (\<exists>x. map_of (st_claims s) k = Some x \<and> claim_shown s rq f x)"
    if "compile_field H issued ids s rq f = Inr (part, src)" for f part src k
    using compile_field_sources[OF that assms(2,3)] readiness_sources[of H issued ids s rq part src] that
    by (cases "f = ''readiness''") auto
  have two: "list_all2 (\<lambda>f part. compile_field H issued ids s rq f = Inr part) (sorted_list_of_set fields) parts"
    using p(4) by (simp add: mapE_Inr_iff)
  have named: "set (rc_source_claim_ids rc) = \<Union>(set ` snd ` set parts)" unfolding p(7) by simp
  have shown: "k \<in> \<Union>(set ` snd ` set parts) \<longleftrightarrow> (\<exists>f x. f \<in> set (rc_disclosed_fields rc) \<and> f \<noteq> ''readiness''
        \<and> map_of (st_claims s) k = Some x \<and> claim_shown s rq f x)" for k
  proof
    assume "k \<in> \<Union>(set ` snd ` set parts)"
    then obtain part where part: "part \<in> set parts" "k \<in> set (snd part)" by auto
    obtain f where f: "f \<in> set (sorted_list_of_set fields)" "compile_field H issued ids s rq f = Inr (fst part, snd part)"
      using list_all2_set2[OF two] part(1) by fastforce
    from iffD1[OF sources[OF f(2), of k] part(2)] f(1) show "\<exists>f x. f \<in> set (rc_disclosed_fields rc) \<and> f \<noteq> ''readiness''
        \<and> map_of (st_claims s) k = Some x \<and> claim_shown s rq f x" unfolding p(6) by (elim conjE exE) (intro exI conjI)
  next
    assume "\<exists>f x. f \<in> set (rc_disclosed_fields rc) \<and> f \<noteq> ''readiness''
        \<and> map_of (st_claims s) k = Some x \<and> claim_shown s rq f x"
    then obtain f x where f: "f \<in> set (sorted_list_of_set fields)" "f \<noteq> ''readiness''" "map_of (st_claims s) k = Some x"
      "claim_shown s rq f x" using p(6) by auto
    obtain part where part: "part \<in> set parts" "compile_field H issued ids s rq f = Inr (fst part, snd part)"
      using list_all2_set1[OF two] f(1) by fastforce
    have "k \<in> set (snd part)" by (rule iffD2[OF sources[OF part(2), of k]]) (intro conjI exI[of _ x] f)
    then show "k \<in> \<Union>(set ` snd ` set parts)" using part(1) by blast
  qed
  have artifacts: "pget projection ''artifacts'' = PDict ?arts"
    unfolding p(5) by (simp add: projection_of_def pget_def get_or_def)
  have minimal: "\<exists>xs. shown_claims v = map (\<lambda>x. PDict (minimal_claim x)) xs \<and> set xs = {x. claim_shown s rq f x}"
    if art: "(f, v) \<in> set ?arts" and other: "f \<noteq> ''readiness''" for f v
  proof -
    obtain part where "part \<in> set parts" "fst part = (f, v)" using art by auto
    then show ?thesis using fields(2)[of part] other by simp
  qed
  have asked: "set (map fst ?arts) \<subseteq> rq_requested_fields rq" unfolding keys p(6) using p(3) fin by auto
  have ids: "set (rc_source_claim_ids rc) = {k. \<exists>f x. f \<in> set (rc_disclosed_fields rc) \<and> f \<noteq> ''readiness''
        \<and> map_of (st_claims s) k = Some x \<and> claim_shown s rq f x}"
    unfolding named by (rule set_eqI) (unfold mem_Collect_eq, rule shown)
  have "\<forall>f v. (f, v) \<in> set ?arts \<and> f \<noteq> ''readiness'' \<longrightarrow>
        (\<exists>xs. shown_claims v = map (\<lambda>x. PDict (minimal_claim x)) xs \<and> set xs = {x. claim_shown s rq f x})"
    by (intro allI impI, elim conjE) (rule minimal)
  then show ?thesis
    by (intro exI[of _ c] exI[of _ ?arts] conjI p(1,2) artifacts keys asked ids)
      (use receipt_expiry_bound[OF p(8)] in simp_all)
qed

end

text \<open>
  A loss report lists under \<open>unresolved_contradiction_ids\<close> every recorded contradiction, the
  resolved ones too.
\<close>

lemma loss_report_lists_resolved:
  assumes "kernel_compile H now ident s ty valid_at known_at limit = Inr a" "map_of (st_contradictions s) k = Some v"
  shows "PStr k \<in> set (list_val (pget (ka_loss_report a) ''unresolved_contradiction_ids''))"
proof -
  have "k \<in> set (dict_keys (st_contradictions s))" using map_of_SomeD[OF assms(2)] by force
  then have *: "PStr k \<in> PStr ` set (dict_keys (st_contradictions s))" by (rule imageI)
  have "ka_loss_report a = loss_report s" using assms(1)
    by (auto simp: kernel_compile_def bindE_Inr_iff violation_def Let_def split: if_splits)
  then show ?thesis using * by (simp add: loss_report_def pget_def get_or_def list_val_def str_list_def)
qed

end
