(* ===== verification/K2_Examples_Compiler.thy ===== *)
theory K2_Examples_Compiler
  imports K2_Compiler K2_Examples
begin

text \<open>
  A twin with one accepted boundary claim, a request of one recipient for the boundaries, and the
  consent that covers it: the inputs of the witnesses about projections.
\<close>

definition ex_claim_record :: pydict where
  "ex_claim_record =
     [(''claim_id'', PStr ''c1''), (''kind'', PStr ''boundary''), (''sensitivity'', PStr ''public''),
      (''statement'', PStr ''no calls''), (''valid_from'', PStr (isoformat (utc 0))), (''valid_until'', PNone)]"

definition ex_twin :: twin_state where
  "ex_twin = (init_state ''t'')\<lparr>st_subject_id := Some ''alice'', st_sequence := 3,
     st_claims := [(''c1'', ex_claim_record)], st_accepted_claim_ids := {''c1''}\<rparr>"

definition ex_request :: projection_request where
  "ex_request =
     \<lparr>rq_request_id = ''r1'', rq_twin_id = ''t'', rq_subject_id = ''alice'', rq_recipient_id = ''carer'',
      rq_purpose = ''care'', rq_requested_fields = {''boundaries''}, rq_maximum_sensitivity = PUBLIC,
      rq_as_of_valid_time = utc 4, rq_as_of_recorded_time = utc 5\<rparr>"

definition ex_consent :: consent_grant where
  "ex_consent =
     \<lparr>cg_consent_id = ''g1'', cg_subject_id = ''alice'', cg_recipient_id = ''carer'', cg_purposes = {''care''},
      cg_allowed_fields = {''boundaries'', ''voice''}, cg_max_sensitivity = INTERNAL, cg_valid_from = utc 0,
      cg_valid_until = utc 9, cg_policy_version = ''v1'', cg_revoked_at = None\<rparr>"

lemma ex_twin_inv: "twin_inv ex_twin" "keys_ok ex_twin"
  by (simp_all add: ex_twin_def init_state_def twin_inv_def claim_sets_ok_def other_sets_ok_def records_wf_def keys_ok_def
      filed_def ex_claim_record_def text_item_def item_def)

lemma parse_utc: "0 \<le> n \<Longrightarrow> n < 3652059 * day_us \<Longrightarrow> parse_time (isoformat (utc n)) = Inr (utc n)"
  by (subst parse_time_isoformat) (simp_all add: valid_dt_def utc_def naive_def astimezone_utc_def instant_def)

lemma ex_claim_visible:
  "too_sensitive (Some PUBLIC) ex_claim_record = Inr False" "outside_valid_time (Some (utc 4)) ex_claim_record = Inr False"
  "not_known_yet (Some (utc 5)) ex_claim_record = Inr False"
  by (simp_all add: too_sensitive_def outside_valid_time_def not_known_yet_def ex_claim_record_def get_or_def pget_def item_def
      parse_time_val_def parse_utc sensitivity_of_val_def sensitivity_of_def enum_of_def all_sensitivities_def)

lemma ex_accepted:
  "accepted_claims ex_twin (Some (utc 4)) (Some (utc 5)) (Some PUBLIC) = Inr [ex_claim_record]"
  using ex_claim_visible by (simp add: accepted_claims_def select_claim_def ex_twin_def init_state_def excluded_def)

definition digest_of :: "(string \<Rightarrow> string) \<Rightarrow> pyval \<Rightarrow> string" where
  "digest_of H v = ''sha256:'' @ H (dumps (to_primitive v))"

lemma content_hash_finite: "finite_floats v \<Longrightarrow> content_hash H v = Inr (digest_of H v)"
  by (simp add: content_hash_def canonical_json_def digest_of_def)

lemma ex_field:
  "\<exists>part. compile_field H 5 ids ex_twin ex_request ''boundaries'' = Inr (part, [''c1'']) \<and> finite_floats (PDict [part])"
proof -
  have k: "of_kind ''boundaries'' ex_claim_record" "text_item ex_claim_record ''claim_id'' = Inr ''c1''"
    by (simp_all add: of_kind_def claim_kind_to_artifact_def ex_claim_record_def text_item_def item_def pget_def get_or_def)
  have f: "finite_floats (PDict ex_claim_record)" "finite_floats (PDict (minimal_claim ex_claim_record))"
    by (simp_all add: ex_claim_record_def minimal_claim_def disclosed_claim_fields_def)
  show ?thesis
    using k f ex_accepted
    by (simp add: compile_field_def kernel_compile_def artifact_fields_def ex_request_def select_for_def artifact_payload_def
        loss_report_def artifact_material_def content_hash_finite project_artifact_def disclosed_payload_def
        disclosed_loss_def pget_def get_or_def ex_twin_def init_state_def str_list_def)
qed

lemma ex_projection:
  "\<exists>projection rc. compile_projection evaluate_projection H 5 5 ids ''p1'' ex_twin ex_request (Some ex_consent) = Inr (projection, rc)
     \<and> rc_source_claim_ids rc = [''c1'']"
proof -
  obtain part where part: "compile_field H 5 ids ex_twin ex_request ''boundaries'' = Inr (part, [''c1''])" "finite_floats (PDict [part])"
    using ex_field by blast
  have "finite_floats (PDict (projection_of ex_twin ex_request [part]))"
    using part(2) by (simp add: projection_of_def ex_twin_def init_state_def ex_request_def)
  note hash = content_hash_finite[OF this, of H]
  have "consent_covers 5 ex_request ex_consent"
    by (simp add: consent_covers_def ex_request_def ex_consent_def consent_active_at_def within_half_open_def less_eq_sensitivity_def)
  then have "evaluate_projection 5 ex_request (Some ex_consent) (set artifact_fields)
      = Inr (True, [''consent_and_policy_satisfied''], {''boundaries''})"
    unfolding evaluate_projection_allow by (simp add: ex_request_def artifact_fields_def)
  moreover have "receipt_expiry 5 ex_consent = Inr (utc 9)" by (simp add: receipt_expiry_def ex_consent_def)
  moreover have "rq_twin_id ex_request = st_twin_id ex_twin" "st_subject_id ex_twin = Some (rq_subject_id ex_request)"
    by (simp_all add: ex_twin_def init_state_def ex_request_def)
  ultimately show ?thesis using part(1) hash by (simp add: compile_projection_def Let_def)
qed

end
