(* ===== verification/K2_Service.thy ===== *)
theory K2_Service
  imports K2_Rebuild K2_Outbox_Laws K2_Ownership K2_Stream
begin

text \<open>
  The core of \<open>DigitalTwinService\<close> (\<open>src/src/argo_dt/service.py\<close>): the append pipeline (ownership,
  validation, preview of the transition, write, cache, periodic snapshot, publication), the bounded
  cache of twin states and the reading of a state.

  A call takes the service and gives its result, a value or the exception raised, and the service
  after it: what was done before an exception stays done. Every clock reading and fresh identifier
  of a call is an argument (\<open>readings\<close>). The cached object is the one the append updates in place;
  an entry is replaced here by the updated state. A call is one step: the store is synchronous, and
  the only suspension points of an append lie in the publication at its end.
\<close>

section \<open>State\<close>

record service_config =
  cf_snapshot_interval :: int
  cf_snapshot_retention :: int
  cf_outbox_retention :: int
  cf_cache_entries :: int
  cf_lease_owner :: string

record service =
  sv_db :: db
  sv_env :: stream_env
  sv_cache :: "(string \<times> twin_state) list"

record readings =
  rd_fresh :: string
  rd_new :: int
  rd_preview :: int
  rd_append :: int
  rd_snapshot :: int
  rd_prune :: int
  rd_claim :: int
  rd_mark :: "outbox_record \<Rightarrow> int"

text \<open>\<open>DigitalTwinService.__init__\<close>; a store that may hold a ledger already, and an empty cache.\<close>

definition make_service :: "service_config \<Rightarrow> db \<Rightarrow> stream_env \<Rightarrow> service result" where
  "make_service cf db env =
     (if cf_snapshot_interval cf < 0 then Inl (ValueError ''snapshot_interval cannot be negative'')
      else if cf_snapshot_retention cf < 1 then Inl (ValueError ''snapshot_retention must be positive'')
      else if cf_outbox_retention cf \<le> 0 then Inl (ValueError ''outbox_retention must be positive'')
      else if cf_cache_entries cf < 0 then Inl (ValueError ''state_cache_entries cannot be negative'')
      else Inr \<lparr>sv_db = db, sv_env = env, sv_cache = []\<rparr>)"

section \<open>Steps\<close>

type_synonym 'a step = "service \<Rightarrow> 'a result \<times> service"

definition doneS :: "'a result \<Rightarrow> 'a step" where
  "doneS r sv = (r, sv)"

definition andS :: "'a step \<Rightarrow> ('a \<Rightarrow> 'b step) \<Rightarrow> 'b step" where
  "andS m f sv = (case m sv of (Inl err, sv') \<Rightarrow> (Inl err, sv') | (Inr v, sv') \<Rightarrow> f v sv')"

text \<open>An operation of the store: a transaction, so a failure leaves the database as it was.\<close>

definition storeS :: "(db \<Rightarrow> ('a \<times> db) result) \<Rightarrow> 'a step" where
  "storeS f sv = (case f (sv_db sv) of Inl err \<Rightarrow> (Inl err, sv) | Inr (v, db) \<Rightarrow> (Inr v, sv\<lparr>sv_db := db\<rparr>))"

definition readS :: "(db \<Rightarrow> 'a result) \<Rightarrow> 'a step" where
  "readS f sv = (f (sv_db sv), sv)"

section \<open>The cache of states\<close>

text \<open>An \<open>OrderedDict\<close>, oldest entry first.\<close>

definition cache_drop :: "string \<Rightarrow> (string \<times> 'a) list \<Rightarrow> (string \<times> 'a) list" where
  "cache_drop k c = filter (\<lambda>kv. fst kv \<noteq> k) c"

definition cache_touch :: "string \<Rightarrow> (string \<times> 'a) list \<Rightarrow> (string \<times> 'a) list" where
  "cache_touch k c = cache_drop k c @ filter (\<lambda>kv. fst kv = k) c"

text \<open>\<open>while len(cache) > entries: cache.popitem(last=False)\<close>\<close>

fun evict :: "nat \<Rightarrow> 'a list \<Rightarrow> 'a list" where
  "evict n [] = []"
| "evict n (x # xs) = (if n < length (x # xs) then evict n xs else x # xs)"

definition cache_state :: "service_config \<Rightarrow> twin_state \<Rightarrow> service \<Rightarrow> service" where
  "cache_state cf s sv =
     (if cf_cache_entries cf = 0 then sv
      else sv\<lparr>sv_cache := evict (nat (cf_cache_entries cf)) (cache_drop (st_twin_id s) (sv_cache sv) @ [(st_twin_id s, s)])\<rparr>)"

definition forget_state :: "string \<Rightarrow> service \<Rightarrow> service" where
  "forget_state twin sv = sv\<lparr>sv_cache := cache_drop twin (sv_cache sv)\<rparr>"

definition rebuild_latest :: "(string \<Rightarrow> string) \<Rightarrow> service_config \<Rightarrow> string \<Rightarrow> twin_state step" where
  "rebuild_latest H cf twin =
     andS (readS (\<lambda>db. rebuild H db twin True None None)) (\<lambda>s sv. (Inr s, cache_state cf s sv))"

definition latest_state :: "(string \<Rightarrow> string) \<Rightarrow> service_config \<Rightarrow> string \<Rightarrow> twin_state step" where
  "latest_state H cf twin sv =
     (case map_of (sv_cache sv) twin of
        None \<Rightarrow> rebuild_latest H cf twin sv
      | Some s \<Rightarrow>
          if (st_sequence s, st_last_event_hash s) = head (sv_db sv) twin
          then (Inr s, sv\<lparr>sv_cache := cache_touch twin (sv_cache sv)\<rparr>)
          else rebuild_latest H cf twin (forget_state twin sv))"

definition service_state ::
  "(string \<Rightarrow> string) \<Rightarrow> service_config \<Rightarrow> string \<Rightarrow> int option \<Rightarrow> datetime option \<Rightarrow> datetime option \<Rightarrow> twin_state step" where
  "service_state H cf twin up_to valid_at as_of =
     andS (if up_to = None \<and> as_of = None then latest_state H cf twin
           else readS (\<lambda>db. rebuild H db twin True up_to as_of))
       (\<lambda>s. case valid_at of None \<Rightarrow> doneS (Inr s) | Some t \<Rightarrow> doneS (select_valid_at s t))"

section \<open>Publication\<close>

text \<open>
  The relay of the service publishes to its in-process broker, which never raises; the event is
  handed to the subscribers before its row is marked.
\<close>

definition relay_claim ::
  "(string \<Rightarrow> string) \<Rightarrow> readings \<Rightarrow> string \<Rightarrow> int \<Rightarrow> int \<Rightarrow> db \<times> stream_env \<Rightarrow> (outbox_record list \<times> db \<times> stream_env) result" where
  "relay_claim H rd owner limit seconds w =
     bindE (claim_outbox H (rd_claim rd) owner limit seconds (fst w)) (\<lambda>(recs, db). Inr (recs, db, snd w))"

definition relay_mark :: "readings \<Rightarrow> outbox_record \<Rightarrow> db \<times> stream_env \<Rightarrow> bool \<times> db \<times> stream_env" where
  "relay_mark rd rec w =
     (let env = (snd w)\<lparr>se_broker := broker_publish (or_event rec) (se_broker (snd w))\<rparr>;
          (marked, db) = mark_outbox_published (rd_mark rd rec) rec (fst w)
      in (marked, db, env))"

definition relay_release :: "string \<Rightarrow> outbox_record \<Rightarrow> db \<times> stream_env \<Rightarrow> bool \<times> db \<times> stream_env" where
  "relay_release err rec w = (let (released, db) = release_outbox err rec (fst w) in (released, db, snd w))"

definition relay_drain :: "(string \<Rightarrow> string) \<Rightarrow> service_config \<Rightarrow> readings \<Rightarrow> int \<Rightarrow> relay_batch step" where
  "relay_drain H cf rd limit sv =
     (let (r, db, env) = drain (relay_claim H rd) (relay_mark rd) relay_release (\<lambda>_. None) (cf_lease_owner cf) limit 30
            (sv_db sv, sv_env sv)
      in (r, sv\<lparr>sv_db := db, sv_env := env\<rparr>))"

definition flush_publications :: "(string \<Rightarrow> string) \<Rightarrow> service_config \<Rightarrow> readings \<Rightarrow> int \<Rightarrow> relay_batch step" where
  "flush_publications H cf rd limit = relay_drain H cf rd limit"

section \<open>Append\<close>

text \<open>\<open>utc_now() - self.outbox_retention\<close>\<close>

definition retention_bound :: "service_config \<Rightarrow> int \<Rightarrow> datetime result" where
  "retention_bound cf now =
     (if now - cf_outbox_retention cf < 0 then Inl OverflowError else Inr (utc (now - cf_outbox_retention cf)))"

definition periodic_snapshot :: "(string \<Rightarrow> string) \<Rightarrow> service_config \<Rightarrow> readings \<Rightarrow> event \<Rightarrow> unit step" where
  "periodic_snapshot H cf rd out =
     (if \<not> (0 < cf_snapshot_interval cf \<and> sequence out mod cf_snapshot_interval cf = 0) then doneS (Inr ())
      else
        andS (readS (\<lambda>db. rebuild H db (twin_id out) False None None)) (\<lambda>s.
        andS (doneS (to_snapshot H (rd_snapshot rd) s)) (\<lambda>sn.
        andS (storeS (save_snapshot H sn)) (\<lambda>_.
        andS (storeS (prune_snapshots (twin_id out) (cf_snapshot_retention cf))) (\<lambda>_.
        andS (doneS (retention_bound cf (rd_prune rd))) (\<lambda>before.
        andS (storeS (prune_outbox before 1000)) (\<lambda>_. doneS (Inr ()))))))))"

text \<open>The cached state after the write: brought up to date, or dropped.\<close>

definition update_cache :: "service_config \<Rightarrow> twin_state option \<Rightarrow> event \<Rightarrow> unit step" where
  "update_cache cf current out sv =
     (case current of
        None \<Rightarrow> (Inr (), forget_state (twin_id out) sv)
      | Some s \<Rightarrow>
          (case apply_event s out of
             Inl err \<Rightarrow> (Inl err, forget_state (twin_id out) sv)
           | Inr t \<Rightarrow> (Inr (), cache_state cf t sv)))"

text \<open>From the write to the publication.\<close>

definition commit_event ::
  "(string \<Rightarrow> string) \<Rightarrow> service_config \<Rightarrow> readings \<Rightarrow> event \<Rightarrow> int \<Rightarrow> int \<Rightarrow> twin_state option \<Rightarrow> event step" where
  "commit_event H cf rd ev expected head_sequence current =
     andS (storeS (append H (rd_append rd) ev expected)) (\<lambda>out.
     andS (if sequence out > head_sequence
           then andS (update_cache cf current out) (\<lambda>_. periodic_snapshot H cf rd out)
           else doneS (Inr ())) (\<lambda>_.
     andS (relay_drain H cf rd 100) (\<lambda>_. doneS (Inr out))))"

text \<open>The preview: the state at the head, and the transition it admits.\<close>

definition preview_event ::
  "(string \<Rightarrow> string) \<Rightarrow> service_config \<Rightarrow> readings \<Rightarrow> event \<Rightarrow> int \<Rightarrow> int \<times> string \<Rightarrow> twin_state step" where
  "preview_event H cf rd ev expected top_of =
     andS (latest_state H cf (twin_id ev)) (\<lambda>s.
       if st_sequence s \<noteq> fst top_of \<or> st_last_event_hash s \<noteq> snd top_of
       then doneS (Inl (ConcurrencyConflict ''stream changed during transition validation''))
       else doneS (bindE (seal H ev (expected + 1) (snd top_of) (utc (rd_preview rd))) (\<lambda>preview.
              bindE (apply_event s preview) (\<lambda>_. Inr s))))"

definition service_append ::
  "(string \<Rightarrow> string) \<Rightarrow> service_config \<Rightarrow> readings \<Rightarrow> event \<Rightarrow> actor \<Rightarrow> int \<Rightarrow> event step" where
  "service_append H cf rd ev a expected =
     andS (doneS (authorize ev a)) (\<lambda>_.
     andS (doneS (validate_event ev)) (\<lambda>_.
     if plane ev = SIMULATION
     then doneS (violation ''simulation events belong to SimulationBranch, not the authoritative store'')
     else andS (readS (\<lambda>db. Inr (head db (twin_id ev)))) (\<lambda>top_of.
       if fst top_of = expected
       then andS (preview_event H cf rd ev expected top_of) (\<lambda>s. commit_event H cf rd ev expected (fst top_of) (Some s))
       else commit_event H cf rd ev expected (fst top_of) None)))"

end
