(* ===== verification/K2_Service_Laws.thy ===== *)
theory K2_Service_Laws
  imports K2_Service
begin

text \<open>
  Laws of the application service: the invariant \<open>service_ok\<close> (a sound ledger, snapshots and a
  bounded cache of states that replays of prefixes reach) survives every call, whatever it raises;
  reading a state through the cache is replaying the stream; and an append leaves every twin
  readable, because the transition was tried on the state at the head first.
\<close>

section \<open>Steps\<close>

lemma doneS_simp [simp]: "doneS r sv = (r, sv)"
  by (simp add: doneS_def)

lemma andS_simp: "andS m f sv = (case fst (m sv) of Inl err \<Rightarrow> (Inl err, snd (m sv)) | Inr v \<Rightarrow> f v (snd (m sv)))"
  by (simp add: andS_def split: prod.splits sum.splits)

lemma andS_Inr: "m sv = (Inr v, sv') \<Longrightarrow> andS m f sv = f v sv'"
  and andS_Inl: "m sv = (Inl err, sv') \<Longrightarrow> andS m f sv = (Inl err, sv')"
  by (simp_all add: andS_def)

lemma andS_cong: "m sv = m' sv' \<Longrightarrow> andS m f sv = andS m' f sv'"
  by (simp add: andS_def)

text \<open>Every outcome of a step, an exception too, satisfies a postcondition.\<close>

definition stepS :: "(service \<Rightarrow> bool) \<Rightarrow> 'a step \<Rightarrow> ('a result \<Rightarrow> service \<Rightarrow> bool) \<Rightarrow> bool" where
  "stepS P m Q \<longleftrightarrow> (\<forall>sv. P sv \<longrightarrow> Q (fst (m sv)) (snd (m sv)))"

lemma stepS_and:
  assumes "stepS P m (\<lambda>r sv. case r of Inl err \<Rightarrow> Q (Inl err) sv | Inr v \<Rightarrow> R v sv)" "\<And>v. stepS (R v) (f v) Q"
  shows "stepS P (andS m f) Q"
  unfolding stepS_def andS_simp
proof (intro allI impI)
  fix sv
  assume "P sv"
  then have "case fst (m sv) of Inl err \<Rightarrow> Q (Inl err) (snd (m sv)) | Inr v \<Rightarrow> R v (snd (m sv))"
    using assms(1) by (auto simp: stepS_def)
  then show "Q (fst (case fst (m sv) of Inl err \<Rightarrow> (Inl err, snd (m sv)) | Inr v \<Rightarrow> f v (snd (m sv))))
      (snd (case fst (m sv) of Inl err \<Rightarrow> (Inl err, snd (m sv)) | Inr v \<Rightarrow> f v (snd (m sv))))"
    using assms(2) by (cases "fst (m sv)") (auto simp: stepS_def)
qed

lemma stepS_keep: "stepS P m (\<lambda>r. P) \<Longrightarrow> (\<And>v. stepS P (f v) (\<lambda>r. P)) \<Longrightarrow> stepS P (andS m f) (\<lambda>r. P)"
  by (rule stepS_and[where R = "\<lambda>v. P"]) (auto simp: stepS_def split: sum.splits)

lemma stepS_done: "stepS P (doneS r) Q \<longleftrightarrow> (\<forall>sv. P sv \<longrightarrow> Q r sv)"
  by (simp add: stepS_def)

lemma stepS_store:
  "(\<And>sv err. P sv \<Longrightarrow> f (sv_db sv) = Inl err \<Longrightarrow> Q (Inl err) sv) \<Longrightarrow>
   (\<And>sv v db. P sv \<Longrightarrow> f (sv_db sv) = Inr (v, db) \<Longrightarrow> Q (Inr v) (sv\<lparr>sv_db := db\<rparr>)) \<Longrightarrow> stepS P (storeS f) Q"
  by (auto simp: stepS_def storeS_def split: sum.splits)

lemma stepS_read: "stepS P (readS f) Q \<longleftrightarrow> (\<forall>sv. P sv \<longrightarrow> Q (f (sv_db sv)) sv)"
  by (simp add: stepS_def readS_def)

lemma stepS_weaken: "stepS P m Q \<Longrightarrow> (\<And>sv. P' sv \<Longrightarrow> P sv) \<Longrightarrow> (\<And>r sv. Q r sv \<Longrightarrow> Q' r sv) \<Longrightarrow> stepS P' m Q'"
  by (auto simp: stepS_def)

section \<open>The same transition at another time\<close>

text \<open>When an event was recorded and how it was hashed does not decide whether it applies.\<close>

definition restamp :: "datetime \<Rightarrow> string \<Rightarrow> event \<Rightarrow> event" where
  "restamp t h ev = ev\<lparr>recorded_at := t, event_hash := h\<rparr>"

lemma restamp_fields [simp]:
  "payload (restamp t h ev) = payload ev" "event_type (restamp t h ev) = event_type ev" "plane (restamp t h ev) = plane ev"
  "twin_id (restamp t h ev) = twin_id ev" "producer (restamp t h ev) = producer ev" "sequence (restamp t h ev) = sequence ev"
  "idempotency_key (restamp t h ev) = idempotency_key ev" "schema_version (restamp t h ev) = schema_version ev"
  "occurred_at (restamp t h ev) = occurred_at ev"
  by (simp_all add: restamp_def)

lemma validate_restamp [simp]: "validate_event (restamp t h ev) = validate_event ev"
  by (simp add: validate_event_def validate_payload_def validate_contradiction_detected_def Let_def)

lemma ok_simps:
  "ok (Inr v)" "\<not> ok (Inl err)" "ok (bindE r f) \<longleftrightarrow> (\<exists>v. r = Inr v \<and> ok (f v))"
  "ok (case z of None \<Rightarrow> a | Some y \<Rightarrow> g y) \<longleftrightarrow> (case z of None \<Rightarrow> ok a | Some y \<Rightarrow> ok (g y))"
  "ok (if b then a else d) \<longleftrightarrow> (if b then ok a else ok d)"
  by (auto simp: ok_iff bindE_Inr_iff split: option.splits)

lemma handler_restamp: "hd' \<in> snd ` set handlers \<Longrightarrow> ok (hd' (restamp t h ev) s) = ok (hd' ev s)"
  unfolding handlers_def
  by (simp only: list.set image_insert image_empty insert_iff snd_conv empty_iff simp_thms, elim disjE)
    (simp_all only: handler_defs ok_simps restamp_fields Let_def, simp)

lemma handle_restamp: "ok (handle (restamp t h ev) s) = ok (handle ev s)"
proof (cases "map_of handlers (event_type ev)")
  case (Some hd')
  then have "hd' \<in> snd ` set handlers" by (force dest: map_of_SomeD)
  then show ?thesis using Some handler_restamp by (simp add: handle_def)
qed (simp add: handle_def)

lemma apply_restamp: "ok (apply_event s (restamp t h ev)) = ok (apply_event s ev)"
  using handle_restamp[of t h ev s] by (simp add: apply_event_def ok_simps) (simp add: ok_iff)

section \<open>The invariant\<close>

text \<open>Every cached state is the replay of its stream up to the event it stands at.\<close>

definition cached_ok :: "(string \<Rightarrow> string) \<Rightarrow> db \<Rightarrow> string \<times> twin_state \<Rightarrow> bool" where
  "cached_ok H db ks \<longleftrightarrow>
     full_replay H db (fst ks) (Some (st_sequence (snd ks))) None = Inr (snd ks)
     \<and> 0 \<le> st_sequence (snd ks) \<and> st_sequence (snd ks) \<le> int (length (stream db (fst ks)))"

definition ledger_ok :: "(string \<Rightarrow> string) \<Rightarrow> db \<Rightarrow> bool" where
  "ledger_ok H db \<longleftrightarrow> outbox_inv H db \<and> snapshots_sound H db"

definition service_ok :: "(string \<Rightarrow> string) \<Rightarrow> service_config \<Rightarrow> service \<Rightarrow> bool" where
  "service_ok H cf sv \<longleftrightarrow>
     ledger_ok H (sv_db sv) \<and> list_all (cached_ok H (sv_db sv)) (sv_cache sv)
     \<and> distinct (map fst (sv_cache sv)) \<and> int (length (sv_cache sv)) \<le> cf_cache_entries cf"

lemma service_db_inv: "service_ok H cf sv \<Longrightarrow> db_inv H (sv_db sv)"
  by (simp add: service_ok_def ledger_ok_def outbox_inv_def)

lemma evict_drop: "evict n xs = drop (length xs - n) xs"
  by (induction xs) (auto simp: Suc_diff_le not_less)

lemma cache_drop_props:
  "distinct (map fst c) \<Longrightarrow> distinct (map fst (cache_drop k c))" "k \<notin> fst ` set (cache_drop k c)"
  "length (cache_drop k c) \<le> length c" "set (cache_drop k c) \<subseteq> set c"
  by (auto simp: cache_drop_def distinct_map inj_on_def)

lemma forget_ok: "service_ok H cf sv \<Longrightarrow> service_ok H cf (forget_state twin sv)"
  using cache_drop_props(1)[of "sv_cache sv" twin] cache_drop_props(3,4)[of twin "sv_cache sv"]
  by (auto simp: service_ok_def forget_state_def list_all_iff)

lemma cache_state_ok:
  assumes "service_ok H cf sv" "cached_ok H (sv_db sv) (st_twin_id s, s)"
  shows "service_ok H cf (cache_state cf s sv)"
proof (cases "cf_cache_entries cf = 0")
  case False
  define c where "c = cache_drop (st_twin_id s) (sv_cache sv) @ [(st_twin_id s, s)]"
  have ok: "list_all (cached_ok H (sv_db sv)) c" "distinct (map fst c)" "0 \<le> cf_cache_entries cf"
    using assms cache_drop_props(1)[of "sv_cache sv" "st_twin_id s"] cache_drop_props(2,4)[of "st_twin_id s" "sv_cache sv"]
    by (auto simp: c_def service_ok_def list_all_iff)
  have "set (evict n c) \<subseteq> set c" "distinct (map fst (evict n c))" "length (evict n c) \<le> n" for n
    using ok(2) set_drop_subset[of _ c] by (auto simp: evict_drop drop_map[symmetric])
  note kept = this[of "nat (cf_cache_entries cf)"]
  have "list_all (cached_ok H (sv_db sv)) (evict (nat (cf_cache_entries cf)) c)"
    using kept(1) ok(1) unfolding list_all_iff by blast
  moreover have "int (length (evict (nat (cf_cache_entries cf)) c)) \<le> cf_cache_entries cf" using kept(3) ok(3) by simp
  ultimately show ?thesis
    using assms(1) kept(2) False by (simp add: service_ok_def cache_state_def c_def[symmetric])
qed (simp add: cache_state_def assms)

lemma cache_touch_props:
  assumes "distinct (map fst c)"
  shows "set (cache_touch k c) = set c" "distinct (map fst (cache_touch k c))" "length (cache_touch k c) = length c"
proof -
  show s: "set (cache_touch k c) = set c" by (auto simp: cache_touch_def cache_drop_def)
  show l: "length (cache_touch k c) = length c"
    using sum_length_filter_compl[of "\<lambda>kv. fst kv \<noteq> k" c] by (simp add: cache_touch_def cache_drop_def)
  have "distinct (cache_touch k c)" using s l assms by (metis card_distinct distinct_card distinct_map)
  then show "distinct (map fst (cache_touch k c))" using assms s by (simp add: distinct_map)
qed

lemma cached_cut:
  assumes "cached_ok H db (k, s)" "st_sequence s = fst (head db k)" "db_inv H db"
  shows "full_replay H db k None None = Inr s"
  using assms head_stream[OF assms(3), of k] by (simp add: cached_ok_def full_replay_def cut_def)

lemma replay_cached:
  assumes "full_replay H db twin None None = Inr s" "db_inv H db"
  shows "cached_ok H db (twin, s)" "st_twin_id s = twin"
    "(st_sequence s, st_last_event_hash s) = head db twin"
proof -
  show "st_twin_id s = twin" using full_replay_ok(5)[OF assms] .
  have pos: "st_sequence s = int (length (stream db twin))" "st_last_event_hash s = last_hash [] (stream db twin)"
  proof -
    show "st_sequence s = int (length (stream db twin))"
      using assms(1) full_replay_head(1)[OF assms(2,1)]
      by (cases "stream db twin = []") (auto simp: full_replay_def cut_def init_state_def)
    show "st_last_event_hash s = last_hash [] (stream db twin)"
      using assms(1) full_replay_head(2)[OF assms(2,1)]
      by (cases "stream db twin = []") (auto simp: full_replay_def cut_def init_state_def last_hash_def)
  qed
  show "cached_ok H db (twin, s)" using assms(1) pos(1) by (simp add: cached_ok_def full_replay_def cut_def)
  show "(st_sequence s, st_last_event_hash s) = head db twin" using head_stream[OF assms(2)] pos by simp
qed

lemma rebuild_latest_law:
  assumes "service_ok H cf sv"
  shows "fst (rebuild_latest H cf twin sv) = full_replay H (sv_db sv) twin None None
    \<and> service_ok H cf (snd (rebuild_latest H cf twin sv)) \<and> sv_db (snd (rebuild_latest H cf twin sv)) = sv_db sv
    \<and> sv_env (snd (rebuild_latest H cf twin sv)) = sv_env sv"
proof -
  have inv: "db_inv H (sv_db sv)" "snapshots_sound H (sv_db sv)"
    using assms by (auto simp: service_ok_def ledger_ok_def outbox_inv_def)
  have "cached_ok H (sv_db sv) (st_twin_id s, s)" if "full_replay H (sv_db sv) twin None None = Inr s" for s
    using replay_cached[OF that inv(1)] by simp
  then show ?thesis
    using assms cache_state_ok[OF assms] rebuild_from_snapshot[OF inv, of twin None]
    by (auto simp: rebuild_latest_def andS_simp readS_def cache_state_def split: sum.splits)
qed

text \<open>The cache never shows: the latest state is the replay of the whole stream.\<close>

lemma latest_state_law:
  assumes "service_ok H cf sv"
  shows "fst (latest_state H cf twin sv) = full_replay H (sv_db sv) twin None None
    \<and> service_ok H cf (snd (latest_state H cf twin sv)) \<and> sv_db (snd (latest_state H cf twin sv)) = sv_db sv
    \<and> sv_env (snd (latest_state H cf twin sv)) = sv_env sv"
proof (cases "map_of (sv_cache sv) twin")
  case None
  then show ?thesis using rebuild_latest_law[OF assms] by (simp add: latest_state_def)
next
  case (Some s)
  show ?thesis
  proof (cases "(st_sequence s, st_last_event_hash s) = head (sv_db sv) twin")
    case True
    have "cached_ok H (sv_db sv) (twin, s)"
      using assms map_of_SomeD[OF Some] by (auto simp: service_ok_def list_all_iff)
    then have "full_replay H (sv_db sv) twin None None = Inr s"
      using True cached_cut[OF _ _ service_db_inv[OF assms]] by (metis fst_conv)
    moreover have "service_ok H cf (sv\<lparr>sv_cache := cache_touch twin (sv_cache sv)\<rparr>)"
      using assms cache_touch_props[of "sv_cache sv" twin] by (simp add: service_ok_def list_all_iff)
    ultimately show ?thesis using Some True by (simp add: latest_state_def)
  next
    case False
    then show ?thesis
      using Some rebuild_latest_law[OF forget_ok[OF assms], of twin twin] by (simp add: latest_state_def forget_state_def)
  qed
qed

section \<open>Publication\<close>

text \<open>What is read from the database, apart from the outbox.\<close>

lemma same_events:
  assumes "db_events db' = db_events db"
  shows "stream db' = stream db" "full_replay H db' = full_replay H db" "head db' = head db" "cached_ok H db' = cached_ok H db"
    "snapshot_sound H db' = snapshot_sound H db" "duplicate_row db' = duplicate_row db"
proof -
  show s: "stream db' = stream db" using assms by (simp add: stream_def stream_rows_def fun_eq_iff)
  show r: "full_replay H db' = full_replay H db" by (simp add: full_replay_def fun_eq_iff s)
  show "head db' = head db" using assms by (simp add: head_def head_row_def stream_rows_def fun_eq_iff)
  show "cached_ok H db' = cached_ok H db" by (simp add: cached_ok_def fun_eq_iff s r)
  show "snapshot_sound H db' = snapshot_sound H db" by (simp add: snapshot_sound_def fun_eq_iff s r)
  show "duplicate_row db' = duplicate_row db" using assms by (simp add: duplicate_row_def fun_eq_iff)
qed

lemma ledger_frame:
  "ledger_ok H db \<Longrightarrow> outbox_inv H db' \<Longrightarrow> db_events db' = db_events db \<Longrightarrow> set (db_snapshots db') \<subseteq> set (db_snapshots db) \<Longrightarrow>
   ledger_ok H db'"
  by (auto simp: ledger_ok_def snapshots_sound_def list_all_iff same_events[of db' db])

lemma service_frame:
  assumes "service_ok H cf sv" "outbox_inv H db" "db_events db = db_events (sv_db sv)"
    and "set (db_snapshots db) \<subseteq> set (db_snapshots (sv_db sv))"
  shows "service_ok H cf (sv\<lparr>sv_db := db, sv_env := env\<rparr>)" "service_ok H cf (sv\<lparr>sv_db := db\<rparr>)"
  using assms ledger_frame[of H "sv_db sv" db] by (simp_all add: service_ok_def same_events[of db "sv_db sv"])

text \<open>The relay of the service is an outbox store too, one that leaves the ledger alone.\<close>

definition relay_inv :: "(string \<Rightarrow> string) \<Rightarrow> event_row list \<Rightarrow> snapshot_row list \<Rightarrow> db \<times> 'e \<Rightarrow> bool" where
  "relay_inv H events snaps w \<longleftrightarrow> outbox_inv H (fst w) \<and> db_events (fst w) = events \<and> db_snapshots (fst w) = snaps"

lemma settle_tables:
  "db_inv H db \<Longrightarrow> mark_outbox_published now rec db = (b, db') \<Longrightarrow> db_events db' = db_events db \<and> db_snapshots db' = db_snapshots db"
  "db_inv H db \<Longrightarrow> release_outbox err rec db = (b, db') \<Longrightarrow> db_events db' = db_events db \<and> db_snapshots db' = db_snapshots db"
  "db_inv H db \<Longrightarrow> claim_outbox H now owner limit seconds db = Inr (recs, db') \<Longrightarrow>
     db_events db' = db_events db \<and> db_snapshots db' = db_snapshots db"
  by (auto simp: mark_eq release_eq rewrite_held_def elim!: claim_Inr)

interpretation service_relay: outbox_store "relay_inv H events snaps" "\<lambda>w. unpublished (fst w)" "\<lambda>rec w. holds rec (fst w)"
    "relay_claim H rd" "relay_mark rd" relay_release for H events snaps rd
proof unfold_locales
  fix owner limit seconds and w w' :: "db \<times> stream_env" and recs rec b err
  assume "relay_inv H events snaps w"
  then have inv: "outbox_inv H (fst w)" "db_inv H (fst w)" "db_events (fst w) = events" "db_snapshots (fst w) = snaps"
    by (auto simp: relay_inv_def outbox_inv_def)
  show "relay_inv H events snaps w' \<and> unpublished (fst w') = unpublished (fst w) \<and> distinct (map record_key recs)
      \<and> (\<forall>rec\<in>set recs. holds rec (fst w') \<and> record_key rec \<in> unpublished (fst w))
      \<and> (\<forall>old. holds old (fst w) \<and> record_key old \<in> record_key ` set recs \<longrightarrow> \<not> holds old (fst w'))"
    if claimed: "relay_claim H rd owner limit seconds w = Inr (recs, w')"
  proof -
    obtain db where c: "claim_outbox H (rd_claim rd) owner limit seconds (fst w) = Inr (recs, db)" "fst w' = db"
      using claimed by (auto simp: relay_claim_def bindE_Inr_iff)
    show ?thesis using claim_law[OF c(1) inv(1)] settle_tables(3)[OF inv(2) c(1)] inv(3,4) by (simp add: relay_inv_def c(2))
  qed
  show "relay_inv H events snaps w' \<and> b = holds rec (fst w) \<and> \<not> holds rec (fst w')
      \<and> unpublished (fst w') = (if b then unpublished (fst w) - {record_key rec} else unpublished (fst w))
      \<and> (\<forall>other. record_key other \<noteq> record_key rec \<longrightarrow> holds other (fst w') = holds other (fst w))"
    if "relay_mark rd rec w = (b, w')"
  proof -
    have m: "mark_outbox_published (rd_mark rd rec) rec (fst w) = (b, fst w')"
      using that by (auto simp: relay_mark_def Let_def split: prod.splits)
    show ?thesis using mark_law[OF m inv(1)] settle_tables(1)[OF inv(2) m] inv(3,4) by (simp add: relay_inv_def)
  qed
  show "relay_inv H events snaps w' \<and> b = holds rec (fst w) \<and> \<not> holds rec (fst w') \<and> unpublished (fst w') = unpublished (fst w)
      \<and> (\<forall>other. record_key other \<noteq> record_key rec \<longrightarrow> holds other (fst w') = holds other (fst w))"
    if "relay_release err rec w = (b, w')"
  proof -
    have m: "release_outbox err rec (fst w) = (b, fst w')"
      using that by (auto simp: relay_release_def split: prod.splits)
    show ?thesis using release_law[OF m inv(1)] settle_tables(2)[OF inv(2) m] inv(3,4) by (simp add: relay_inv_def)
  qed
qed

text \<open>
  A drain of the service publishes every record it claims, or claims nothing; the ledger, the
  snapshots and the cache are as before.
\<close>

lemma relay_drain_law:
  assumes "service_ok H cf sv" "relay_drain H cf rd limit sv = (r, sv')"
  shows "service_ok H cf sv' \<and> db_events (sv_db sv') = db_events (sv_db sv) \<and> sv_cache sv' = sv_cache sv
    \<and> (case r of Inl err \<Rightarrow> sv' = sv | Inr batch \<Rightarrow> rb_published batch = rb_claimed batch \<and> rb_failed batch = 0)"
proof (cases "relay_claim H rd (cf_lease_owner cf) limit 30 (sv_db sv, sv_env sv)")
  case (Inl err)
  then have "r = Inl err" "sv' = sv" using assms(2) by (auto simp: relay_drain_def drain_def)
  then show ?thesis using assms(1) by simp
next
  case (Inr claimed)
  obtain recs w1 where w1: "claimed = (recs, w1)" by (cases claimed)
  have "relay_inv H (db_events (sv_db sv)) (db_snapshots (sv_db sv)) (sv_db sv, sv_env sv)"
    using assms(1) by (simp add: relay_inv_def service_ok_def ledger_ok_def)
  from service_relay.drain_accounts[OF Inr[unfolded w1] this, of "\<lambda>_. None"]
  obtain w2 where w2: "drain (relay_claim H rd) (relay_mark rd) relay_release (\<lambda>_. None) (cf_lease_owner cf) limit 30
      (sv_db sv, sv_env sv) = (Inr \<lparr>rb_claimed = length recs, rb_published = length recs, rb_failed = 0\<rparr>, w2)"
    "relay_inv H (db_events (sv_db sv)) (db_snapshots (sv_db sv)) w2"
    by auto
  have "r = Inr \<lparr>rb_claimed = length recs, rb_published = length recs, rb_failed = 0\<rparr>"
    "sv' = sv\<lparr>sv_db := fst w2, sv_env := snd w2\<rparr>"
    using assms(2) w2(1) by (auto simp: relay_drain_def split: prod.splits)
  then show ?thesis using w2(2) service_frame(1)[OF assms(1), of "fst w2"] by (simp add: relay_inv_def)
qed

section \<open>The periodic snapshot\<close>

definition stays :: "(string \<Rightarrow> string) \<Rightarrow> service_config \<Rightarrow> db \<Rightarrow> service \<Rightarrow> bool" where
  "stays H cf db sv \<longleftrightarrow> service_ok H cf sv \<and> db_events (sv_db sv) = db_events db"

lemma stays_db: "stays H cf db sv \<Longrightarrow> full_replay H (sv_db sv) = full_replay H db \<and> stream (sv_db sv) = stream db \<and> db_inv H (sv_db sv)"
  using same_events[of "sv_db sv" db] service_db_inv[of H cf sv] by (simp add: stays_def)

lemma save_snapshot_stays:
  assumes "stays H cf db sv" "full_replay H db twin None None = Inr s" "stream db twin \<noteq> []" "twin \<noteq> []"
    and "to_snapshot H now s = Inr sn" "storable_time (utc now)" "save_snapshot H sn (sv_db sv) = Inr (out, db')"
  shows "stays H cf db (sv\<lparr>sv_db := db'\<rparr>)"
proof -
  note same = stays_db[OF assms(1)]
  have sn: "sn_twin_id sn = twin" "sn_sequence sn = st_sequence s"
    using assms(5) full_replay_ok(5)[of H "sv_db sv" twin None None s] assms(2) same
    by (auto simp: to_snapshot_def snapshot_new_def bindE_Inr_iff)
  show ?thesis
  proof (cases "find (\<lambda>q. sr_twin_id q = twin \<and> sr_sequence q = st_sequence s) (db_snapshots (sv_db sv))")
    case (Some q)
    then have "db' = sv_db sv" using assms(7) sn by (auto simp: save_snapshot_def bindE_Inr_iff split: option.splits if_splits)
    then show ?thesis using assms(1) by simp
  next
    case None
    obtain row where row: "save_snapshot H sn (sv_db sv) = Inr (sn, (sv_db sv)\<lparr>db_snapshots := db_snapshots (sv_db sv) @ [row]\<rparr>)"
      "snapshot_sound H (sv_db sv) row"
      by (rule save_snapshot_new[of H "sv_db sv" twin s now sn]) (use same assms None in auto)
    define db1 where "db1 = (sv_db sv)\<lparr>db_snapshots := db_snapshots (sv_db sv) @ [row]\<rparr>"
    have db': "db' = db1" using assms(7) row(1) by (simp add: db1_def)
    have ev: "db_events db1 = db_events (sv_db sv)" "db_outbox db1 = db_outbox (sv_db sv)" by (simp_all add: db1_def)
    have inv: "outbox_inv H (sv_db sv)" "snapshots_sound H (sv_db sv)"
      using assms(1) by (auto simp: stays_def service_ok_def ledger_ok_def)
    have "db_inv H db1"
      using inv(1) same_events(1)[OF ev(1)] ev by (simp add: outbox_inv_def db_inv_def twins_def keys_unique_def outbox_linked_def)
    then have "outbox_inv H db1" using inv(1) ev(2) by (simp add: outbox_inv_def)
    moreover have "snapshots_sound H db1"
      using inv(2) row(2) by (simp add: snapshots_sound_def same_events(5)[OF ev(1)]) (simp add: db1_def)
    ultimately show ?thesis
      using assms(1) ev unfolding db'
      by (simp add: stays_def service_ok_def ledger_ok_def same_events[OF ev(1)])
  qed
qed

lemma prune_outbox_tables:
  "prune_outbox before limit db = Inr (n, db') \<Longrightarrow> db_events db' = db_events db \<and> db_snapshots db' = db_snapshots db"
  by (auto simp: prune_outbox_def Let_def split: if_splits)

lemma prune_snapshots_tables:
  "prune_snapshots twin keep db = Inr (n, db') \<Longrightarrow>
     db_events db' = db_events db \<and> db_outbox db' = db_outbox db \<and> set (db_snapshots db') \<subseteq> set (db_snapshots db)"
  by (auto simp: prune_snapshots_def Let_def split: if_splits)

lemma outbox_inv_cong:
  assumes "outbox_inv H db" "db_events db' = db_events db" "db_outbox db' = db_outbox db"
  shows "outbox_inv H db'"
  using assms same_events(1)[OF assms(2)]
  by (simp add: outbox_inv_def db_inv_def twins_def keys_unique_def outbox_linked_def)

lemma prune_snapshots_stays:
  assumes "stays H cf db sv" "prune_snapshots twin keep (sv_db sv) = Inr (n, db')"
  shows "stays H cf db (sv\<lparr>sv_db := db'\<rparr>)"
proof -
  note t = prune_snapshots_tables[OF assms(2)]
  have "outbox_inv H db'" using assms(1) t outbox_inv_cong[of H "sv_db sv" db'] by (simp add: stays_def service_ok_def ledger_ok_def)
  then show ?thesis using assms(1) t service_frame(2)[of H cf sv db'] by (simp add: stays_def)
qed

lemma prune_outbox_stays:
  assumes "stays H cf db sv" "prune_outbox before limit (sv_db sv) = Inr (n, db')"
  shows "stays H cf db (sv\<lparr>sv_db := db'\<rparr>)"
proof -
  have "outbox_inv H db'" using prune_law[OF assms(2)] assms(1) by (simp add: stays_def service_ok_def ledger_ok_def)
  then show ?thesis
    using assms(1) prune_outbox_tables[OF assms(2)] service_frame(2)[of H cf sv db'] by (simp add: stays_def)
qed

lemma periodic_snapshot_law:
  assumes "stream db (twin_id out) \<noteq> []" "twin_id out \<noteq> []" "storable_time (utc (rd_snapshot rd))"
  shows "stepS (stays H cf db) (periodic_snapshot H cf rd out) (\<lambda>r. stays H cf db)"
proof (cases "0 < cf_snapshot_interval cf \<and> sequence out mod cf_snapshot_interval cf = 0")
  case True
  let ?twin = "twin_id out"
  have save: "stepS (\<lambda>sv. stays H cf db sv \<and> full_replay H db ?twin None None = Inr s \<and> to_snapshot H (rd_snapshot rd) s = Inr sn)
      (storeS (save_snapshot H sn)) (\<lambda>r. stays H cf db)" for s sn
    by (rule stepS_store) (simp, elim conjE, rule save_snapshot_stays[OF _ _ assms(1,2) _ assms(3)])
  have prune: "stepS (stays H cf db) (storeS (prune_snapshots ?twin (cf_snapshot_retention cf))) (\<lambda>r. stays H cf db)"
    "stepS (stays H cf db) (storeS (prune_outbox before 1000)) (\<lambda>r. stays H cf db)" for before
    by (rule stepS_store, simp, erule (1) prune_snapshots_stays) (rule stepS_store, simp, erule (1) prune_outbox_stays)
  have rest: "stepS (stays H cf db)
      (andS (storeS (prune_snapshots ?twin (cf_snapshot_retention cf))) (\<lambda>_.
       andS (doneS (retention_bound cf (rd_prune rd))) (\<lambda>before.
       andS (storeS (prune_outbox before 1000)) (\<lambda>_. doneS (Inr ()))))) (\<lambda>r. stays H cf db)"
    by (intro stepS_keep prune) (simp_all add: stepS_done)
  have snap: "stepS (\<lambda>sv. stays H cf db sv \<and> full_replay H db ?twin None None = Inr s)
      (andS (doneS (to_snapshot H (rd_snapshot rd) s)) (\<lambda>sn.
       andS (storeS (save_snapshot H sn)) (\<lambda>_.
       andS (storeS (prune_snapshots ?twin (cf_snapshot_retention cf))) (\<lambda>_.
       andS (doneS (retention_bound cf (rd_prune rd))) (\<lambda>before.
       andS (storeS (prune_outbox before 1000)) (\<lambda>_. doneS (Inr ()))))))) (\<lambda>r. stays H cf db)" for s
    by (rule stepS_and[where R = "\<lambda>sn sv. stays H cf db sv \<and> full_replay H db ?twin None None = Inr s
          \<and> to_snapshot H (rd_snapshot rd) s = Inr sn"], simp add: stepS_done split: sum.splits,
        rule stepS_and[where R = "\<lambda>_. stays H cf db", OF _ rest], rule stepS_weaken[OF save[of s]]) (simp_all split: sum.splits)
  have "rebuild H (sv_db sv) ?twin False None None = full_replay H db ?twin None None" if "stays H cf db sv" for sv
    using stays_db[OF that] rebuild_full[of H "sv_db sv" ?twin None None] by simp
  then have read: "stepS (stays H cf db) (readS (\<lambda>db. rebuild H db ?twin False None None))
      (\<lambda>r sv. case r of Inl err \<Rightarrow> stays H cf db sv | Inr s \<Rightarrow> stays H cf db sv \<and> full_replay H db ?twin None None = Inr s)"
    by (auto simp: stepS_read split: sum.splits)
  show ?thesis unfolding periodic_snapshot_def using True stepS_and[OF read snap] by simp
qed (simp add: periodic_snapshot_def stepS_done)

section \<open>The write\<close>

text \<open>What a request has to be for its event to read back as it was applied.\<close>

definition event_fit :: "readings \<Rightarrow> event \<Rightarrow> bool" where
  "event_fit rd ev \<longleftrightarrow>
     plain (payload ev) \<and> storable_time (occurred_at ev) \<and> storable_time (utc (rd_append rd)) \<and> storable_time (utc (rd_snapshot rd))"

lemma event_fit_admissible: "event_fit rd ev \<Longrightarrow> admissible (rd_append rd) ev"
  using jsonable_finite[of "PDict (payload ev)"]
  by (simp add: event_fit_def admissible_def storable_def plain_def jsonable_primitive del: to_primitive.simps jsonable.simps finite_floats.simps)

lemma zone_fields:
  "payload (ev\<lparr>occurred_at := u\<rparr>) = payload ev" "stamped (ev\<lparr>occurred_at := u\<rparr>) = stamped ev"
  by (simp_all add: stamped_def)

lemma handler_zone: "hd' \<in> snd ` set handlers \<Longrightarrow> hd' (ev\<lparr>occurred_at := u\<rparr>) = hd' ev"
  unfolding handlers_def
  by (simp only: list.set image_insert image_empty insert_iff snd_conv empty_iff simp_thms, elim disjE)
    (simp_all only: fun_eq_iff handler_defs zone_fields simp_thms)

lemma handle_zone: "handle (ev\<lparr>occurred_at := u\<rparr>) s = handle ev s"
proof (cases "map_of handlers (event_type ev)")
  case (Some hd')
  then have "hd' \<in> snd ` set handlers" by (force dest: map_of_SomeD)
  then show ?thesis using Some handler_zone by (simp add: handle_def)
qed (simp add: handle_def)

lemma apply_zone: "naive u = naive (occurred_at ev) \<Longrightarrow> apply_event s (ev\<lparr>occurred_at := u\<rparr>) = apply_event s ev"
  by (simp add: apply_event_def handle_zone validate_event_def validate_payload_def validate_contradiction_detected_def Let_def)

text \<open>The stored form of a JSON event applies as the event does.\<close>

lemma apply_persisted:
  assumes "plain (payload out)" "storable_time (occurred_at out)" "recorded_at out = utc n"
  shows "apply_event s (persisted out) = apply_event s out"
proof -
  have "persisted out = out\<lparr>occurred_at := astimezone_utc (occurred_at out)\<rparr>"
    using assms(1,3) jsonable_primitive[of "PDict (payload out)"] by (simp add: persisted_def plain_def astimezone_utc_def del: to_primitive.simps)
  then show ?thesis using assms(2) by (simp add: apply_zone storable_time_def)
qed

text \<open>The previewed event and the written one differ in their stamp alone.\<close>

lemma preview_restamp:
  assumes "seal H ev n prev t1 = Inr preview" "seal H ev n prev t2 = Inr out"
  shows "out = restamp (recorded_at out) (event_hash out) preview"
  using seal_Inr(2)[OF assms(1)] seal_Inr(2)[OF assms(2)] by (auto simp: restamp_def)

text \<open>A request that is not new leaves its stored event, at or before the head.\<close>

lemma retry_sequence:
  assumes "db_inv H db" "duplicate_row db ev = Some r" "row_to_event r = Inr out"
  shows "twin_id out = twin_id ev" "sequence out \<le> fst (head db (twin_id ev))"
proof -
  have r: "r \<in> set (db_events db)" "er_twin_id r = twin_id ev" using assms(2) by (auto simp: duplicate_row_def find_Some_iff)
  then show "twin_id out = twin_id ev" using row_to_event_fields[OF assms(3)] by simp
  have "r \<in> set (stream_rows db (twin_id ev))" using r by (simp add: stream_rows_def)
  then have "out \<in> set (stream db (twin_id ev))"
    using in_read_rows[OF readable_stream[OF assms(1), of "twin_id ev"]] assms(3) by (auto simp: stream_def)
  then obtain i where i: "i < length (stream db (twin_id ev))" "stream db (twin_id ev) ! i = out" by (auto simp: in_set_conv_nth)
  then show "sequence out \<le> fst (head db (twin_id ev))"
    using chain_ok_nth[OF stream_chain[OF assms(1), of "twin_id ev"] i(1)] head_stream[OF assms(1)] by simp
qed

text \<open>A fresh event is the next of its stream, and the state at the head moves on to it.\<close>

lemma append_next:
  assumes "append H (rd_append rd) ev n db = Inr (out, db')" "duplicate_row db ev = None" "db_inv H db" "event_fit rd ev"
    and "full_replay H db (twin_id ev) None None = Inr s" "apply_event s out = Inr t"
  shows "full_replay H db' (twin_id ev) None None = Inr t"
proof -
  let ?evs = "stream db (twin_id ev)" and ?x = "persisted out"
  obtain prev where "seal H ev (n + 1) prev (utc (rd_append rd)) = Inr out"
    by (rule append_fresh_tables[OF assms(1,2)])
  note f = seal_fields[OF this]
  have st: "stream db' (twin_id ev) = ?evs @ [?x]"
    using append_stream[OF assms(1,3) event_fit_admissible[OF assms(4)]] assms(2) by simp
  have "db_inv H db'" using append_inv[OF assms(1,3) event_fit_admissible[OF assms(4)]] .
  from stream_chain[OF this, of "twin_id ev"]
  have x: "sequence ?x = 1 + int (length ?evs)" "verify H ?x (last_hash [] ?evs) = Inr ()"
    unfolding st chain_ok_append by simp_all
  have "apply_event s ?x = Inr t"
    using apply_persisted[of out "rd_append rd" s] f assms(4,6) by (simp add: event_fit_def)
  moreover have "st_sequence s = int (length ?evs)"
    using replay_cached(3)[OF assms(5,3)] head_stream[OF assms(3), of "twin_id ev"] by simp
  moreover have "replay H None ?evs (init_state (twin_id ev)) [] = Inr s" using assms(5) by (simp add: full_replay_def cut_def)
  ultimately show ?thesis
    using x by (simp add: full_replay_def cut_def st replay_append last_hash_def)
qed

section \<open>An append through the service\<close>

text \<open>Every twin can be read: its stream replays without an error.\<close>

definition replays :: "(string \<Rightarrow> string) \<Rightarrow> db \<Rightarrow> bool" where
  "replays H db \<longleftrightarrow> (\<forall>twin. ok (full_replay H db twin None None))"

text \<open>What a call may have done to the ledger: nothing, or the one append it was asked for.\<close>

definition wrote :: "(string \<Rightarrow> string) \<Rightarrow> readings \<Rightarrow> event \<Rightarrow> int \<Rightarrow> db \<Rightarrow> db \<Rightarrow> bool" where
  "wrote H rd ev n db db' \<longleftrightarrow>
     (\<exists>out db1. append H (rd_append rd) ev n db = Inr (out, db1) \<and> duplicate_row db ev = None \<and> db_events db' = db_events db1)"

definition sound_after :: "(string \<Rightarrow> string) \<Rightarrow> service_config \<Rightarrow> readings \<Rightarrow> event \<Rightarrow> int \<Rightarrow> db \<Rightarrow> service \<Rightarrow> bool" where
  "sound_after H cf rd ev n db sv \<longleftrightarrow>
     service_ok H cf sv \<and> replays H (sv_db sv) \<and> (db_events (sv_db sv) = db_events db \<or> wrote H rd ev n db (sv_db sv))"

lemma replays_cong: "db_events db' = db_events db \<Longrightarrow> replays H db' = replays H db"
  by (simp add: replays_def same_events[of db' db])

lemma cached_grows:
  assumes "cached_ok H db ks" "prefix (stream db (fst ks)) (stream db' (fst ks))"
  shows "cached_ok H db' ks"
  using assms by (auto simp: cached_ok_def full_replay_def cut_def prefix_def)

lemma append_service_ok:
  assumes "append H (rd_append rd) ev n (sv_db sv) = Inr (out, db')" "service_ok H cf sv" "event_fit rd ev"
  shows "service_ok H cf (sv\<lparr>sv_db := db'\<rparr>)"
proof -
  note inv = service_db_inv[OF assms(2)] and adm = event_fit_admissible[OF assms(3)]
  have "prefix (stream (sv_db sv) twin) (stream db' twin)" for twin
    using append_stream[OF assms(1) inv adm, of twin] by simp
  then have "list_all (cached_ok H db') (sv_cache sv)"
    using assms(2) cached_grows by (auto simp: service_ok_def list_all_iff)
  moreover have "ledger_ok H db'"
    using assms(2) append_outbox_inv[OF assms(1) _ adm] append_snapshots_sound[OF assms(1) inv adm]
    by (simp add: service_ok_def ledger_ok_def)
  ultimately show ?thesis using assms(2) by (simp add: service_ok_def)
qed

lemma append_replays:
  assumes "append H (rd_append rd) ev n db = Inr (out, db')" "duplicate_row db ev = None" "db_inv H db" "event_fit rd ev"
    and "replays H db" "ok (full_replay H db' (twin_id ev) None None)"
  shows "replays H db'"
  unfolding replays_def
proof
  fix twin
  show "ok (full_replay H db' twin None None)"
  proof (cases "twin = twin_id ev")
    case False
    then have "stream db' twin = stream db twin"
      using append_stream[OF assms(1,3) event_fit_admissible[OF assms(4)], of twin] by simp
    then show ?thesis using assms(5) by (simp add: replays_def full_replay_def)
  qed (use assms(6) in simp)
qed

text \<open>The tail of an append: the cache, the snapshot and the publication keep what the write left.\<close>

lemma publish_law:
  assumes "service_ok H cf sv" "andS (relay_drain H cf rd limit) (\<lambda>_. doneS (Inr out)) sv = (r, sv')"
  shows "service_ok H cf sv' \<and> db_events (sv_db sv') = db_events (sv_db sv) \<and> (\<forall>v. r = Inr v \<longrightarrow> v = out)"
proof -
  obtain b sv1 where d: "relay_drain H cf rd limit sv = (b, sv1)" by (cases "relay_drain H cf rd limit sv")
  then have "sv' = sv1" "\<forall>v. r = Inr v \<longrightarrow> v = out" using assms(2) by (auto simp: andS_simp split: sum.splits)
  then show ?thesis using relay_drain_law[OF assms(1) d] by blast
qed

lemma written_sound:
  assumes "append H (rd_append rd) ev n db = Inr (out, db1)" "duplicate_row db ev = None" "stays H cf db1 sv" "replays H db1"
  shows "sound_after H cf rd ev n db sv"
proof -
  have "db_events (sv_db sv) = db_events db1" "service_ok H cf sv" using assms(3) by (auto simp: stays_def)
  then show ?thesis using assms(1,2,4) replays_cong[of "sv_db sv" db1 H] by (auto simp: sound_after_def wrote_def)
qed

lemma commit_law:
  assumes ok: "service_ok H cf sv" and rep: "replays H (sv_db sv)" and fit: "event_fit rd ev" and twin: "twin_id ev \<noteq> []"
    and head: "head (sv_db sv) (twin_id ev) = (h, prev)"
    and current: "case current of None \<Rightarrow> n \<noteq> h
      | Some s \<Rightarrow> full_replay H (sv_db sv) (twin_id ev) None None = Inr s \<and> n = h
          \<and> (\<exists>preview. seal H ev (n + 1) prev (utc (rd_preview rd)) = Inr preview \<and> ok (apply_event s preview))"
    and run: "commit_event H cf rd ev n h current sv = (r, sv')"
  shows "sound_after H cf rd ev n (sv_db sv) sv'
    \<and> (\<forall>out. r = Inr out \<longrightarrow>
        (\<exists>db1. append H (rd_append rd) ev n (sv_db sv) = Inr (out, db1) \<and> db_events (sv_db sv') = db_events db1))"
proof (cases "append H (rd_append rd) ev n (sv_db sv)")
  case (Inl err)
  then show ?thesis using run ok rep by (auto simp: commit_event_def andS_simp storeS_def sound_after_def)
next
  case (Inr answer)
  obtain out db1 where a: "append H (rd_append rd) ev n (sv_db sv) = Inr (out, db1)" using Inr by (cases answer) simp
  note inv = service_db_inv[OF ok]
  show ?thesis
  proof (cases "duplicate_row (sv_db sv) ev")
    case (Some row)
    from a have dup: "db1 = sv_db sv" "row_to_event row = Inr out" by (rule append_Inr; use Some in simp)+
    then have "\<not> h < sequence out" using retry_sequence(2)[OF inv Some dup(2)] head by simp
    moreover have "storeS (append H (rd_append rd) ev n) sv = (Inr out, sv)" by (simp add: storeS_def a dup(1))
    ultimately have "andS (relay_drain H cf rd 100) (\<lambda>_. doneS (Inr out)) sv = (r, sv')"
      using run unfolding commit_event_def by (simp add: andS_Inr)
    from publish_law[OF ok this] show ?thesis
      using a dup(1) rep replays_cong[of "sv_db sv'" "sv_db sv" H] by (auto simp: sound_after_def)
  next
    case None
    obtain prev' where f: "seal H ev (n + 1) prev' (utc (rd_append rd)) = Inr out" "head (sv_db sv) (twin_id ev) = (n, prev')"
      by (rule append_fresh_tables[OF a None])
    then have same: "n = h" "prev' = prev" using head by simp_all
    then obtain s preview where s: "current = Some s" "full_replay H (sv_db sv) (twin_id ev) None None = Inr s"
      "seal H ev (n + 1) prev (utc (rd_preview rd)) = Inr preview" "ok (apply_event s preview)"
      using current by (auto split: option.splits)
    have "ok (apply_event s out)" using s(4) preview_restamp[OF s(3) f(1)[unfolded same(2)]] apply_restamp by metis
    then obtain t where t: "apply_event s out = Inr t" by (auto simp: ok_iff)
    have full: "full_replay H db1 (twin_id ev) None None = Inr t" by (rule append_next[OF a None inv fit s(2) t])
    have rep1: "replays H db1" using append_replays[OF a None inv fit rep] full by simp
    have ok1: "service_ok H cf (sv\<lparr>sv_db := db1\<rparr>)" by (rule append_service_ok[OF a ok fit])
    have inv1: "db_inv H db1" using service_db_inv[OF ok1] by simp
    note out = seal_fields[OF f(1)]
    have st: "stream db1 (twin_id out) \<noteq> []" using append_stream[OF a inv event_fit_admissible[OF fit], of "twin_id ev"] None out by simp
    define sv1 where "sv1 = cache_state cf t (sv\<lparr>sv_db := db1\<rparr>)"
    have "stays H cf db1 sv1"
      using cache_state_ok[OF ok1, of t] replay_cached(1,2)[OF full inv1] by (simp add: stays_def sv1_def) (simp add: cache_state_def)
    then have snap: "stays H cf db1 (snd (periodic_snapshot H cf rd out sv1))"
      using periodic_snapshot_law[OF st _ _, of rd H cf] out twin fit by (simp add: stepS_def event_fit_def)
    have "h < sequence out" using out(1) same(1) by simp
    have "update_cache cf current out (sv\<lparr>sv_db := db1\<rparr>) = (Inr (), sv1)"
      by (simp add: update_cache_def s(1) t sv1_def)
    then have "andS (update_cache cf current out) (\<lambda>_. periodic_snapshot H cf rd out) (sv\<lparr>sv_db := db1\<rparr>)
        = periodic_snapshot H cf rd out sv1" by (rule andS_Inr)
    moreover have "storeS (append H (rd_append rd) ev n) sv = (Inr out, sv\<lparr>sv_db := db1\<rparr>)" by (simp add: storeS_def a)
    ultimately have "commit_event H cf rd ev n h current sv =
        andS (periodic_snapshot H cf rd out) (\<lambda>_. andS (relay_drain H cf rd 100) (\<lambda>_. doneS (Inr out))) sv1"
      using \<open>h < sequence out\<close> unfolding commit_event_def by (simp only: andS_Inr if_True) (rule andS_cong)
    with run have run2: "andS (periodic_snapshot H cf rd out) (\<lambda>_. andS (relay_drain H cf rd 100) (\<lambda>_. doneS (Inr out))) sv1 = (r, sv')"
      by simp
    obtain p sv2 where p: "periodic_snapshot H cf rd out sv1 = (p, sv2)" by (cases "periodic_snapshot H cf rd out sv1")
    with snap have st2: "stays H cf db1 sv2" by simp
    show ?thesis
    proof (cases p)
      case (Inl err)
      then show ?thesis using run2 written_sound[OF a None st2 rep1] by (auto simp: p andS_Inl)
    next
      case (Inr u)
      then have "andS (relay_drain H cf rd 100) (\<lambda>_. doneS (Inr out)) sv2 = (r, sv')" using run2 p by (simp add: andS_Inr)
      with st2 have pub: "stays H cf db1 sv'" "\<forall>v. r = Inr v \<longrightarrow> v = out"
        using publish_law[of H cf sv2 rd 100 out r sv'] by (auto simp: stays_def)
      then show ?thesis using written_sound[OF a None pub(1) rep1] a by (auto simp: stays_def)
    qed
  qed
qed

lemma sound_nothing:
  "service_ok H cf sv' \<Longrightarrow> sv_db sv' = sv_db sv \<Longrightarrow> replays H (sv_db sv) \<Longrightarrow> sound_after H cf rd ev n (sv_db sv) sv'"
  by (simp add: sound_after_def)

lemma validated_twin: "validate_event ev = Inr () \<Longrightarrow> twin_id ev \<noteq> []"
  by (auto simp: validate_event_def bindE_Inr_iff require_Inr)

lemma preview_law:
  assumes "service_ok H cf sv" "preview_event H cf rd ev n (h, prev) sv = (r, sv')"
  shows "service_ok H cf sv' \<and> sv_db sv' = sv_db sv \<and> (\<forall>s. r = Inr s \<longrightarrow>
      full_replay H (sv_db sv) (twin_id ev) None None = Inr s
      \<and> (\<exists>preview. seal H ev (n + 1) prev (utc (rd_preview rd)) = Inr preview \<and> ok (apply_event s preview)))"
  using latest_state_law[OF assms(1), of "twin_id ev"] assms(2)
  by (auto simp: preview_event_def andS_simp bindE_Inr_iff ok_iff split: sum.splits if_splits)

text \<open>
  Whatever an append returns or raises, the service stays sound, every twin stays readable, and the
  ledger is as before or has the one event more; it has only if the author may write that event,
  the event is valid and the writer stood at the head.
\<close>

lemma service_append_law:
  assumes "service_ok H cf sv" "replays H (sv_db sv)" "event_fit rd ev" "service_append H cf rd ev a n sv = (r, sv')"
  shows "sound_after H cf rd ev n (sv_db sv) sv'
    \<and> (\<forall>out. r = Inr out \<longrightarrow>
        (\<exists>db1. append H (rd_append rd) ev n (sv_db sv) = Inr (out, db1) \<and> db_events (sv_db sv') = db_events db1))
    \<and> (authorize ev a \<noteq> Inr () \<or> validate_event ev \<noteq> Inr () \<or> plane ev = SIMULATION \<longrightarrow> sv' = sv \<and> \<not> ok r)"
proof (cases "authorize ev a = Inr () \<and> validate_event ev = Inr () \<and> plane ev \<noteq> SIMULATION")
  case False
  have "authorize ev a = Inr () \<Longrightarrow> validate_event ev = Inr () \<Longrightarrow> plane ev = SIMULATION" using False by blast
  moreover have "\<exists>err. z = Inl err" if "z \<noteq> Inr ()" for z :: "unit result" using that by (cases z) simp_all
  ultimately have "sv' = sv \<and> \<not> ok r"
    using assms(4) by (cases "authorize ev a"; cases "validate_event ev") (auto simp: service_append_def andS_simp violation_def)
  then show ?thesis using sound_nothing[OF assms(1) _ assms(2)] by auto
next
  case True
  obtain h prev where hd: "head (sv_db sv) (twin_id ev) = (h, prev)" by (cases "head (sv_db sv) (twin_id ev)")
  have run: "(if h = n then andS (preview_event H cf rd ev n (h, prev)) (\<lambda>s. commit_event H cf rd ev n h (Some s))
      else commit_event H cf rd ev n h None) sv = (r, sv')"
    using assms(4) True hd by (simp add: service_append_def andS_simp readS_def split: if_splits)
  note twin = validated_twin[of ev]
  show ?thesis
  proof (cases "h = n")
    case False
    then have "commit_event H cf rd ev n h None sv = (r, sv')" using run by simp
    then show ?thesis using commit_law[OF assms(1-3) twin hd, where current = None and n = n] False True by auto
  next
    case same: True
    obtain p sv1 where p: "preview_event H cf rd ev n (h, prev) sv = (p, sv1)" by (cases "preview_event H cf rd ev n (h, prev) sv")
    note law = preview_law[OF assms(1) p]
    show ?thesis
    proof (cases p)
      case (Inl err)
      then have "r = Inl err" "sv' = sv1" using run same p by (simp_all add: andS_Inl)
      then show ?thesis using law sound_nothing[of H cf sv1 sv] assms(2) True by simp
    next
      case (Inr s)
      then have "commit_event H cf rd ev n h (Some s) sv1 = (r, sv')" using run same p by (simp add: andS_Inr)
      then show ?thesis
        using commit_law[where sv = sv1 and current = "Some s" and n = n and h = h and prev = prev and H = H and cf = cf and rd = rd and ev = ev] law Inr hd same assms(2,3) twin True by simp
    qed
  qed
qed

lemma and_read:
  "m sv = (res, sv1) \<Longrightarrow> andS m (\<lambda>s. case valid_at of None \<Rightarrow> doneS (Inr s) | Some t \<Rightarrow> doneS (f s t)) sv
     = (bindE res (\<lambda>s. case valid_at of None \<Rightarrow> Inr s | Some t \<Rightarrow> f s t), sv1)"
  by (cases res; cases valid_at) (simp_all add: andS_def)

text \<open>Reading a state is replaying the stream: the cache, the snapshots and the copy do not show.\<close>

lemma service_state_law:
  assumes "service_ok H cf sv" "service_state H cf twin up_to valid_at as_of sv = (r, sv')"
  shows "r = bindE (full_replay H (sv_db sv) twin up_to as_of)
      (\<lambda>s. case valid_at of None \<Rightarrow> Inr s | Some t \<Rightarrow> select_valid_at s t)
    \<and> service_ok H cf sv' \<and> sv_db sv' = sv_db sv \<and> sv_env sv' = sv_env sv"
proof -
  have inv: "db_inv H (sv_db sv)" "snapshots_sound H (sv_db sv)"
    using assms(1) by (auto simp: service_ok_def ledger_ok_def outbox_inv_def)
  have "rebuild H (sv_db sv) twin True up_to as_of = full_replay H (sv_db sv) twin up_to as_of"
  proof (cases as_of)
    case None
    then show ?thesis using rebuild_from_snapshot[OF inv] by simp
  next
    case (Some t)
    then show ?thesis using rebuild_full[OF inv(1), of twin up_to as_of] by (simp add: rebuild_def)
  qed
  note full = this
  obtain s1 where read: "(if up_to = None \<and> as_of = None then latest_state H cf twin
        else readS (\<lambda>db. rebuild H db twin True up_to as_of)) sv = (full_replay H (sv_db sv) twin up_to as_of, s1)"
    "service_ok H cf s1" "sv_db s1 = sv_db sv" "sv_env s1 = sv_env sv"
  proof (cases "up_to = None \<and> as_of = None")
    case True
    then show thesis
      using latest_state_law[OF assms(1), of twin] by (intro that[of "snd (latest_state H cf twin sv)"]) (simp_all add: prod_eq_iff)
  next
    case False
    show thesis using assms(1) full by (intro that[of sv]) (simp_all only: False if_False readS_def)
  qed
  have "service_state H cf twin up_to valid_at as_of sv = (bindE (full_replay H (sv_db sv) twin up_to as_of)
      (\<lambda>s. case valid_at of None \<Rightarrow> Inr s | Some t \<Rightarrow> select_valid_at s t), s1)"
    unfolding service_state_def by (rule and_read) (rule read(1))
  then have "r = bindE (full_replay H (sv_db sv) twin up_to as_of)
      (\<lambda>s. case valid_at of None \<Rightarrow> Inr s | Some t \<Rightarrow> select_valid_at s t)" "sv' = s1"
    using assms(2) by simp_all
  then show ?thesis using read(2-4) by simp
qed

lemma make_service_ok: "make_service cf db env = Inr sv \<Longrightarrow> ledger_ok H db \<Longrightarrow> service_ok H cf sv"
  by (auto simp: make_service_def service_ok_def split: if_splits)

text \<open>Any sequence of appends, reads and flushes.\<close>

inductive serving :: "(string \<Rightarrow> string) \<Rightarrow> service_config \<Rightarrow> service \<Rightarrow> service \<Rightarrow> bool" for H cf sv where
  serve_refl: "serving H cf sv sv"
| serve_append: "serving H cf sv sv1 \<Longrightarrow> event_fit rd ev \<Longrightarrow> service_append H cf rd ev a n sv1 = (r, sv2) \<Longrightarrow> serving H cf sv sv2"
| serve_state: "serving H cf sv sv1 \<Longrightarrow> service_state H cf twin up_to valid_at as_of sv1 = (s, sv2) \<Longrightarrow> serving H cf sv sv2"
| serve_flush: "serving H cf sv sv1 \<Longrightarrow> flush_publications H cf rd limit sv1 = (batch, sv2) \<Longrightarrow> serving H cf sv sv2"

lemma sound_prefix:
  assumes "sound_after H cf rd ev n db sv" "db_inv H db" "event_fit rd ev"
  shows "prefix (stream db twin) (stream (sv_db sv) twin)"
proof (cases "db_events (sv_db sv) = db_events db")
  case False
  then obtain out db1 where w: "append H (rd_append rd) ev n db = Inr (out, db1)" "db_events (sv_db sv) = db_events db1"
    using assms(1) by (auto simp: sound_after_def wrote_def)
  then show ?thesis
    using append_stream[OF w(1) assms(2) event_fit_admissible[OF assms(3)], of twin] same_events(1)[OF w(2)] by simp
qed (simp add: same_events(1)[of "sv_db sv" db])

lemma serving_sound:
  assumes "serving H cf sv sv'" "service_ok H cf sv" "replays H (sv_db sv)"
  shows "service_ok H cf sv' \<and> replays H (sv_db sv') \<and> prefix (stream (sv_db sv) twin) (stream (sv_db sv') twin)"
  using assms(1)
proof (induction rule: serving.induct)
  case serve_refl
  show ?case using assms(2,3) by (intro conjI prefix_order.refl)
next
  case (serve_append sv1 rd ev a n r sv2)
  then have ok: "service_ok H cf sv1" "replays H (sv_db sv1)" "prefix (stream (sv_db sv) twin) (stream (sv_db sv1) twin)" by blast+
  from service_append_law[OF ok(1,2) serve_append.hyps(2,3)] have s: "sound_after H cf rd ev n (sv_db sv1) sv2" by blast
  show ?case
    using s prefix_order.trans[OF ok(3) sound_prefix[OF s service_db_inv[OF ok(1)] serve_append.hyps(2)]]
    by (simp add: sound_after_def)
next
  case (serve_state sv1 twin' up_to valid_at as_of s sv2)
  then show ?case using service_state_law[OF _ serve_state.hyps(2)] by simp
next
  case (serve_flush sv1 rd limit batch sv2)
  then have ok: "service_ok H cf sv1" "replays H (sv_db sv1)" "prefix (stream (sv_db sv) twin) (stream (sv_db sv1) twin)" by blast+
  from relay_drain_law[OF ok(1) serve_flush.hyps(2)[unfolded flush_publications_def]]
  have law: "service_ok H cf sv2" "db_events (sv_db sv2) = db_events (sv_db sv1)" by blast+
  show ?case using ok(2,3) law(1) replays_cong[OF law(2)] same_events(1)[OF law(2)] by simp
qed

lemma replays_empty: "replays H empty_db"
  by (simp add: replays_def full_replay_def cut_def stream_def stream_rows_def empty_db_def)

lemma ledger_empty: "ledger_ok H empty_db"
  using outbox_inv_empty by (simp add: ledger_ok_def snapshots_sound_def empty_db_def)

lemma served_from_empty:
  assumes "make_service cf empty_db env = Inr sv" "serving H cf sv sv'"
  shows "(\<exists>s. full_replay H (sv_db sv') twin None None = Inr s \<and> twin_inv s \<and> lineage_ok s)
    \<and> int (length (sv_cache sv')) \<le> cf_cache_entries cf"
proof -
  have ok: "service_ok H cf sv" by (rule make_service_ok[OF assms(1) ledger_empty])
  have "sv_db sv = empty_db" using assms(1) by (auto simp: make_service_def split: if_splits)
  then have s: "service_ok H cf sv'" "replays H (sv_db sv')" using serving_sound[OF assms(2) ok] replays_empty by auto
  then obtain t where "full_replay H (sv_db sv') twin None None = Inr t" by (auto simp: replays_def ok_iff)
  then show ?thesis using s(1) full_replay_ok(1,2)[OF _ service_db_inv[OF s(1)]] by (auto simp: service_ok_def)
qed

end
