(* ===== verification/K2_Examples_Service.thy ===== *)
theory K2_Examples_Service
  imports K2_Service_Laws K2_Examples_Sync
begin

text \<open>
  A service on an empty ledger and a request to it: the inputs of the witnesses about the service.
\<close>

definition ex_config :: service_config where
  "ex_config = \<lparr>cf_snapshot_interval = 2, cf_snapshot_retention = 3, cf_outbox_retention = 5, cf_cache_entries = 1,
     cf_lease_owner = ''relay''\<rparr>"

definition ex_service :: service where
  "ex_service = \<lparr>sv_db = empty_db, sv_env = ex_env, sv_cache = []\<rparr>"

definition ex_readings :: readings where
  "ex_readings = \<lparr>rd_fresh = ''id1'', rd_new = 6, rd_preview = 7, rd_append = 8, rd_snapshot = 9, rd_prune = 10, rd_claim = 11,
     rd_mark = (\<lambda>_. 12)\<rparr>"

definition ex_actor :: actor where
  "ex_actor = \<lparr>identity_id = ''p'', roles = {INGEST_SERVICE}, actor_subject_id = None\<rparr>"

lemma ex_service_made: "make_service ex_config empty_db ex_env = Inr ex_service"
  by (simp add: make_service_def ex_config_def ex_service_def)

lemma ex_service_ok: "service_ok H ex_config ex_service"
  by (rule make_service_ok[OF ex_service_made ledger_empty])

lemma ex_replays: "replays H (sv_db ex_service)"
  using replays_empty by (simp add: ex_service_def)

lemma ex_event_fit: "event_fit ex_readings ex_event"
  using ex_plain by (simp add: event_fit_def ex_readings_def ex_event_def storable_time_def valid_dt_def utc_def naive_def)

lemma ex_authorized: "authorize ex_event ex_actor = Inr ()"
  by (simp add: authorize_def authorize_intent_def authorize_subject_def EVENT_OWNERS_def ex_actor_def ex_event_def)

end
