(* ===== verification/K2_Service_Run.thy ===== *)
theory K2_Service_Run
  imports K2_Service_Laws
begin

text \<open>
  Requests that succeed: an admissible event of an author who may write it, offered at the head of a
  stream whose state admits it, is written, cached and published, and the call returns it.
\<close>

lemma latest_state_Inr:
  assumes "service_ok H cf sv" "full_replay H (sv_db sv) twin None None = Inr s"
  obtains sv1 where "latest_state H cf twin sv = (Inr s, sv1)" "service_ok H cf sv1" "sv_db sv1 = sv_db sv"
  using latest_state_law[OF assms(1), of twin] assms(2) by (cases "latest_state H cf twin sv") auto

lemma preview_succeeds:
  assumes "service_ok H cf sv" "full_replay H (sv_db sv) (twin_id ev) None None = Inr s"
    and "head (sv_db sv) (twin_id ev) = (n, prev)"
    and "seal H ev (n + 1) prev (utc (rd_preview rd)) = Inr preview" "ok (apply_event s preview)"
  obtains sv1 where "preview_event H cf rd ev n (n, prev) sv = (Inr s, sv1)" "service_ok H cf sv1" "sv_db sv1 = sv_db sv"
proof -
  obtain sv1 where l: "latest_state H cf (twin_id ev) sv = (Inr s, sv1)" "service_ok H cf sv1" "sv_db sv1 = sv_db sv"
    by (rule latest_state_Inr[OF assms(1,2)])
  have "st_sequence s = n" "st_last_event_hash s = prev"
    using replay_cached(3)[OF assms(2) service_db_inv[OF assms(1)]] assms(3) by simp_all
  then have "preview_event H cf rd ev n (n, prev) sv = (Inr s, sv1)"
    using assms(4,5) l(1) by (auto simp: preview_event_def andS_Inr[of _ sv s sv1] ok_iff)
  then show thesis using that l(2,3) by blast
qed

lemma drain_succeeds:
  assumes "service_ok H cf sv" "cf_lease_owner cf \<noteq> []" "lease_end (rd_claim rd) 30 < 3652059 * day_us"
    and "0 < limit" "outbox_backlog (sv_db sv) \<le> nat limit"
  obtains batch sv' where "relay_drain H cf rd limit sv = (Inr batch, sv')"
proof -
  have inv: "outbox_inv H (sv_db sv)" using assms(1) by (simp add: service_ok_def ledger_ok_def)
  obtain recs db where c: "claim_outbox H (rd_claim rd) (cf_lease_owner cf) limit 30 (sv_db sv) = Inr (recs, db)"
    using claim_succeeds[OF inv assms(2) _ assms(3,4,5)] by auto
  then have claimed: "relay_claim H rd (cf_lease_owner cf) limit 30 (sv_db sv, sv_env sv) = Inr (recs, db, sv_env sv)"
    by (simp add: relay_claim_def)
  have "relay_inv H (db_events (sv_db sv)) (db_snapshots (sv_db sv)) (sv_db sv, sv_env sv)" using inv by (simp add: relay_inv_def)
  from service_relay.drain_accounts[OF claimed this, of "\<lambda>_. None"] show thesis
    using that by (auto simp: relay_drain_def)
qed

lemma service_append_succeeds:
  assumes ok: "service_ok H cf sv" and fit: "event_fit rd ev"
    and allowed: "authorize ev a = Inr ()" "validate_event ev = Inr ()" "plane ev \<noteq> SIMULATION" "schema_version ev = ''argo.dt.event/v2''"
    and hd: "head (sv_db sv) (twin_id ev) = (n, prev)"
    and fresh: "duplicate_row (sv_db sv) ev = None" "event_id ev \<notin> er_event_id ` set (db_events (sv_db sv))" "edges_of ev = Inr es"
    and admits: "full_replay H (sv_db sv) (twin_id ev) None None = Inr s"
      "seal H ev (n + 1) prev (utc (rd_preview rd)) = Inr preview" "ok (apply_event s preview)"
    and quiet: "\<not> (0 < cf_snapshot_interval cf \<and> (n + 1) mod cf_snapshot_interval cf = 0)"
    and relay: "cf_lease_owner cf \<noteq> []" "lease_end (rd_claim rd) 30 < 3652059 * day_us" "outbox_backlog (sv_db sv) < 100"
  shows "\<exists>out sv'. service_append H cf rd ev a n sv = (Inr out, sv')"
proof -
  obtain sv1 where p: "preview_event H cf rd ev n (n, prev) sv = (Inr s, sv1)" "service_ok H cf sv1" "sv_db sv1 = sv_db sv"
    by (rule preview_succeeds[OF ok admits(1) hd admits(2,3)])
  have inv: "db_inv H (sv_db sv)" by (rule service_db_inv[OF ok])
  obtain out db1 where app: "append H (rd_append rd) ev n (sv_db sv) = Inr (out, db1)"
    using append_succeeds[OF inv event_fit_admissible[OF fit] allowed(4,3) fresh(1,2) hd fresh(3)] by blast
  obtain prev' where f: "seal H ev (n + 1) prev' (utc (rd_append rd)) = Inr out" "head (sv_db sv) (twin_id ev) = (n, prev')"
    "db_outbox db1 = db_outbox (sv_db sv) @ [new_outbox out]"
    by (rule append_fresh_tables[OF app fresh(1)])
  then have same: "prev' = prev" using hd by simp
  have "ok (apply_event s out)" using admits(3) preview_restamp[OF admits(2) f(1)[unfolded same]] apply_restamp by metis
  then obtain t where t: "apply_event s out = Inr t" by (auto simp: ok_iff)
  define sv2 where "sv2 = cache_state cf t (sv1\<lparr>sv_db := db1\<rparr>)"
  have "append H (rd_append rd) ev n (sv_db sv1) = Inr (out, db1)" using app p(3) by simp
  note ok1 = append_service_ok[OF this p(2) fit]
  have "full_replay H db1 (twin_id ev) None None = Inr t" by (rule append_next[OF app fresh(1) inv fit admits(1) t])
  then have ok2: "service_ok H cf sv2" "sv_db sv2 = db1"
    using cache_state_ok[OF ok1, of t] replay_cached(1,2)[of H db1 "twin_id ev" t] service_db_inv[OF ok1]
    by (simp_all add: sv2_def) (simp add: cache_state_def)
  have "outbox_backlog (sv_db sv2) \<le> nat 100"
    using relay(3) f(3) ok2(2) by (simp add: outbox_backlog_def)
  then obtain batch sv3 where d: "relay_drain H cf rd 100 sv2 = (Inr batch, sv3)"
    using drain_succeeds[OF ok2(1) relay(1,2), of 100] by (metis zero_less_numeral)
  have store: "storeS (append H (rd_append rd) ev n) sv1 = (Inr out, sv1\<lparr>sv_db := db1\<rparr>)" using app p(3) by (simp add: storeS_def)
  have cache: "update_cache cf (Some s) out (sv1\<lparr>sv_db := db1\<rparr>) = (Inr (), sv2)" by (simp add: update_cache_def t sv2_def)
  have snap: "periodic_snapshot H cf rd out sv2 = (Inr (), sv2)"
    using quiet seal_fields(1)[OF f(1)] by (simp add: periodic_snapshot_def)
  have "commit_event H cf rd ev n n (Some s) sv1 = (Inr out, sv3)"
    unfolding commit_event_def andS_Inr[of "storeS (append H (rd_append rd) ev n)", OF store]
    using seal_fields(1)[OF f(1)] cache snap d
    by (simp add: andS_Inr[of _ "sv1\<lparr>sv_db := db1\<rparr>" "()" sv2] andS_Inr[of _ sv2 batch sv3])
  then show ?thesis
    using allowed(1,2,3) hd p(1) by (auto simp: service_append_def andS_simp readS_def)
qed

end
