(* ===== verification/K2_Commands.thy ===== *)
theory K2_Commands
  imports K2_Service K2_Compiler
begin

text \<open>
  The commands of \<open>DigitalTwinService\<close> (\<open>src/src/argo_dt/service.py\<close>), one definition per method: each
  asks the ownership policy for the intent, looks at the state where it needs to, makes the event
  and appends it. \<open>uuid5\<close> stands for \<open>str(uuid.uuid5(uuid.NAMESPACE_URL, name))\<close>; the payloads
  list their keys in ascending order.
\<close>

section \<open>Parts of the commands\<close>

definition intent :: "string \<Rightarrow> producer_role \<Rightarrow> actor \<Rightarrow> unit step" where
  "intent ty role a = doneS (authorize_intent ty role a)"

definition subject_scope :: "actor \<Rightarrow> string option \<Rightarrow> unit step" where
  "subject_scope a subject_id = doneS (authorize_subject a subject_id)"

definition current_state :: "(string \<Rightarrow> string) \<Rightarrow> service_config \<Rightarrow> string \<Rightarrow> twin_state step" where
  "current_state H cf twin = service_state H cf twin None None None"

definition check :: "bool \<Rightarrow> error \<Rightarrow> unit step" where
  "check b err = doneS (if b then Inr () else Inl err)"

definition opt_time :: "datetime option \<Rightarrow> pyval" where
  "opt_time t = (case t of None \<Rightarrow> PNone | Some u \<Rightarrow> PStr (isoformat u))"

definition opt_entry :: "string \<Rightarrow> string option \<Rightarrow> pydict" where
  "opt_entry k v = (case v of None \<Rightarrow> [] | Some s \<Rightarrow> [(k, PStr s)])"

text \<open>The name of a derived identity: \<open>canonical_json([kind, twin_id, ...])\<close>.\<close>

definition identity_name :: "string list \<Rightarrow> string result" where
  "identity_name parts = canonical_json (PList (map PStr parts))"

text \<open>\<open>EventEnvelope.new\<close> on the authoritative plane, and the append of it.\<close>

definition append_new ::
  "(string \<Rightarrow> string) \<Rightarrow> service_config \<Rightarrow> readings \<Rightarrow> actor \<Rightarrow> producer_role \<Rightarrow> string \<Rightarrow> string \<Rightarrow> pydict \<Rightarrow> datetime option
     \<Rightarrow> string \<Rightarrow> int \<Rightarrow> event step" where
  "append_new H cf rd a role twin ty body occurred key expected =
     service_append H cf rd
       (event_new (rd_fresh rd) (rd_new rd) twin ty AUTHORITATIVE body (identity_id a) role key occurred None None) a expected"

section \<open>Evidence\<close>

definition ingest_evidence ::
  "(string \<Rightarrow> string) \<Rightarrow> (string \<Rightarrow> string) \<Rightarrow> service_config \<Rightarrow> readings \<Rightarrow> string \<Rightarrow> string \<Rightarrow> string \<Rightarrow> string \<Rightarrow> pydict \<Rightarrow> pydict
     \<Rightarrow> sensitivity \<Rightarrow> datetime \<Rightarrow> datetime option \<Rightarrow> string \<Rightarrow> string option \<Rightarrow> string option \<Rightarrow> string option
     \<Rightarrow> int \<Rightarrow> string \<Rightarrow> actor \<Rightarrow> event step" where
  "ingest_evidence H uuid5 cf rd twin subject source source_record body rights level valid_from valid_until independence
      connector media source_hash expected key a =
     andS (intent ''EvidenceIngested'' INGEST_SERVICE a) (\<lambda>_.
     andS (subject_scope a (Some subject)) (\<lambda>_.
     andS (latest_state H cf twin) (\<lambda>s.
     andS (check (st_subject_id s = None \<or> st_subject_id s = Some subject)
        (InvariantViolation ''evidence subject does not match twin subject'')) (\<lambda>_.
     andS (doneS (content_hash H (PDict body))) (\<lambda>digest.
     append_new H cf rd a INGEST_SERVICE twin ''EvidenceIngested''
       (opt_entry ''connector_version'' connector @
        [(''content_hash'', PStr digest),
         (''evidence_id'', PStr (uuid5 (twin @ '':'' @ subject @ '':'' @ source @ '':'' @ source_record))),
         (''independence_group'', PStr independence)] @
        opt_entry ''media_type'' media @
        [(''normalized_payload'', PDict body), (''rights'', PDict rights),
         (''sensitivity'', PStr (sensitivity_text level)), (''source'', PStr source)] @
        opt_entry ''source_content_hash'' source_hash @
        [(''source_record_id'', PStr source_record), (''subject_id'', PStr subject),
         (''valid_from'', PStr (isoformat valid_from)), (''valid_until'', opt_time valid_until)])
       (Some valid_from) key expected)))))"

definition delete_evidence ::
  "(string \<Rightarrow> string) \<Rightarrow> service_config \<Rightarrow> readings \<Rightarrow> string \<Rightarrow> string \<Rightarrow> string \<Rightarrow> int \<Rightarrow> string \<Rightarrow> actor \<Rightarrow> event step" where
  "delete_evidence H cf rd twin evidence reason expected key a =
     andS (intent ''EvidenceDeleted'' INGEST_SERVICE a) (\<lambda>_.
     andS (current_state H cf twin) (\<lambda>s.
     andS (subject_scope a (st_subject_id s)) (\<lambda>_.
     andS (check (st_sequence s = expected) (ConcurrencyConflict
        (''deletion expected '' @ show_int expected @ '', state is '' @ show_int (st_sequence s)))) (\<lambda>_.
     andS (check (dict_has (st_evidence s) evidence) (InvariantViolation ''cannot delete unknown evidence'')) (\<lambda>_.
     append_new H cf rd a INGEST_SERVICE twin ''EvidenceDeleted''
       [(''evidence_id'', PStr evidence), (''reason'', PStr reason), (''subject_id'', opt_str (st_subject_id s))]
       None key expected)))))"

section \<open>Claims\<close>

definition propose_claim ::
  "(string \<Rightarrow> string) \<Rightarrow> (string \<Rightarrow> string) \<Rightarrow> service_config \<Rightarrow> readings \<Rightarrow> string \<Rightarrow> string \<Rightarrow> string \<Rightarrow> string \<Rightarrow> pydict list
     \<Rightarrow> sensitivity \<Rightarrow> datetime \<Rightarrow> datetime option \<Rightarrow> pydict \<Rightarrow> pydict \<Rightarrow> int \<Rightarrow> string \<Rightarrow> actor \<Rightarrow> event step" where
  "propose_claim H uuid5 cf rd twin subject text kind provenance level valid_from valid_until epistemic model_trace expected key a =
     andS (intent ''ClaimProposed'' ADJUDICATION_WORKER a) (\<lambda>_.
     andS (subject_scope a (Some subject)) (\<lambda>_.
     andS (check (provenance \<noteq> []) (InvariantViolation ''a claim cannot be proposed without provenance'')) (\<lambda>_.
     andS (doneS (validate_epistemic (PDict epistemic))) (\<lambda>_.
     andS (doneS (identity_name [''claim'', twin, key])) (\<lambda>name.
     append_new H cf rd a ADJUDICATION_WORKER twin ''ClaimProposed''
       [(''claim_id'', PStr (uuid5 name)), (''epistemic'', PDict epistemic), (''kind'', PStr kind),
        (''model_trace'', PDict model_trace), (''provenance'', PList (map PDict provenance)),
        (''review_state'', PStr ''unreviewed''), (''sensitivity'', PStr (sensitivity_text level)),
        (''statement'', PStr text), (''subject_id'', PStr subject), (''valid_from'', PStr (isoformat valid_from)),
        (''valid_until'', opt_time valid_until)]
       (Some valid_from) key expected)))))"

definition review_claim ::
  "(string \<Rightarrow> string) \<Rightarrow> service_config \<Rightarrow> readings \<Rightarrow> string \<Rightarrow> string \<Rightarrow> bool \<Rightarrow> string \<Rightarrow> datetime \<Rightarrow> int \<Rightarrow> string \<Rightarrow> actor
     \<Rightarrow> event step" where
  "review_claim H cf rd twin claim accepted rationale reviewed_at expected key a =
     (let ty = (if accepted then ''ClaimAccepted'' else ''ClaimContested'') in
     andS (intent ty HUMAN_REVIEW a) (\<lambda>_.
     andS (current_state H cf twin) (\<lambda>s.
     andS (subject_scope a (st_subject_id s)) (\<lambda>_.
     andS (check (dict_has (st_claims s) claim) (InvariantViolation ''cannot review an unknown claim'')) (\<lambda>_.
     append_new H cf rd a HUMAN_REVIEW twin ty
       [(''claim_id'', PStr claim), (''rationale'', PStr rationale), (''reviewer_identity_id'', PStr (identity_id a))]
       (Some reviewed_at) key expected)))))"

section \<open>Entities\<close>

definition link_entity ::
  "(string \<Rightarrow> string) \<Rightarrow> (string \<Rightarrow> string) \<Rightarrow> service_config \<Rightarrow> readings \<Rightarrow> string \<Rightarrow> string \<Rightarrow> string \<Rightarrow> string \<Rightarrow> pydict list
     \<Rightarrow> pyval \<Rightarrow> datetime \<Rightarrow> datetime option \<Rightarrow> int \<Rightarrow> string \<Rightarrow> actor \<Rightarrow> event step" where
  "link_entity H uuid5 cf rd twin subject namespace entity provenance confidence valid_from valid_until expected key a =
     andS (intent ''EntityLinked'' IDENTITY_WORKER a) (\<lambda>_.
     andS (subject_scope a (Some subject)) (\<lambda>_.
     andS (doneS (identity_name [''entity-link'', twin, subject, namespace, entity])) (\<lambda>name.
     append_new H cf rd a IDENTITY_WORKER twin ''EntityLinked''
       [(''confidence'', confidence), (''entity_id'', PStr entity), (''entity_link_id'', PStr (uuid5 name)),
        (''namespace'', PStr namespace), (''provenance'', PList (map PDict provenance)), (''subject_id'', PStr subject),
        (''valid_from'', PStr (isoformat valid_from)), (''valid_until'', opt_time valid_until)]
       (Some valid_from) key expected)))"

definition unlink_entity ::
  "(string \<Rightarrow> string) \<Rightarrow> service_config \<Rightarrow> readings \<Rightarrow> string \<Rightarrow> string \<Rightarrow> string \<Rightarrow> datetime \<Rightarrow> int \<Rightarrow> string \<Rightarrow> actor \<Rightarrow> event step" where
  "unlink_entity H cf rd twin link reason unlinked_at expected key a =
     andS (intent ''EntityUnlinked'' IDENTITY_WORKER a) (\<lambda>_.
     andS (current_state H cf twin) (\<lambda>s.
     andS (subject_scope a (st_subject_id s)) (\<lambda>_.
     append_new H cf rd a IDENTITY_WORKER twin ''EntityUnlinked''
       [(''entity_link_id'', PStr link), (''reason'', PStr reason), (''subject_id'', opt_str (st_subject_id s))]
       (Some unlinked_at) key expected)))"

section \<open>Contradictions and corrections\<close>

definition detect_contradiction ::
  "(string \<Rightarrow> string) \<Rightarrow> (string \<Rightarrow> string) \<Rightarrow> service_config \<Rightarrow> readings \<Rightarrow> string \<Rightarrow> string list \<Rightarrow> string \<Rightarrow> datetime \<Rightarrow> int
     \<Rightarrow> string \<Rightarrow> actor \<Rightarrow> event step" where
  "detect_contradiction H uuid5 cf rd twin claim_ids basis detected_at expected key a =
     andS (intent ''ContradictionDetected'' ADJUDICATION_WORKER a) (\<lambda>_.
     andS (current_state H cf twin) (\<lambda>s.
     andS (subject_scope a (st_subject_id s)) (\<lambda>_.
     andS (doneS (identity_name [''contradiction'', twin, key])) (\<lambda>name.
     append_new H cf rd a ADJUDICATION_WORKER twin ''ContradictionDetected''
       [(''basis'', PStr basis), (''claim_ids'', str_list claim_ids), (''contradiction_id'', PStr (uuid5 name)),
        (''subject_id'', opt_str (st_subject_id s))]
       (Some detected_at) key expected))))"

definition adjudicate_contradiction ::
  "(string \<Rightarrow> string) \<Rightarrow> service_config \<Rightarrow> readings \<Rightarrow> string \<Rightarrow> string \<Rightarrow> string \<Rightarrow> string list \<Rightarrow> string \<Rightarrow> datetime \<Rightarrow> int
     \<Rightarrow> string \<Rightarrow> actor \<Rightarrow> event step" where
  "adjudicate_contradiction H cf rd twin contradiction resolution preferred rationale adjudicated_at expected key a =
     andS (intent ''ContradictionAdjudicated'' HUMAN_REVIEW a) (\<lambda>_.
     andS (current_state H cf twin) (\<lambda>s.
     andS (subject_scope a (st_subject_id s)) (\<lambda>_.
     append_new H cf rd a HUMAN_REVIEW twin ''ContradictionAdjudicated''
       [(''contradiction_id'', PStr contradiction), (''preferred_claim_ids'', str_list preferred),
        (''rationale'', PStr rationale), (''resolution'', PStr resolution),
        (''reviewer_identity_id'', PStr (identity_id a)), (''subject_id'', opt_str (st_subject_id s))]
       (Some adjudicated_at) key expected)))"

definition record_correction ::
  "(string \<Rightarrow> string) \<Rightarrow> (string \<Rightarrow> string) \<Rightarrow> service_config \<Rightarrow> readings \<Rightarrow> string \<Rightarrow> string \<Rightarrow> string \<Rightarrow> string \<Rightarrow> string
     \<Rightarrow> datetime \<Rightarrow> int \<Rightarrow> string \<Rightarrow> actor \<Rightarrow> event step" where
  "record_correction H uuid5 cf rd twin target_kind target replacement rationale corrected_at expected key a =
     andS (intent ''CorrectionRecorded'' HUMAN_REVIEW a) (\<lambda>_.
     andS (current_state H cf twin) (\<lambda>s.
     andS (subject_scope a (st_subject_id s)) (\<lambda>_.
     andS (doneS (identity_name [''correction'', twin, key])) (\<lambda>name.
     append_new H cf rd a HUMAN_REVIEW twin ''CorrectionRecorded''
       [(''correction_id'', PStr (uuid5 name)), (''rationale'', PStr rationale), (''replacement_id'', PStr replacement),
        (''reviewer_identity_id'', PStr (identity_id a)), (''subject_id'', opt_str (st_subject_id s)),
        (''target_id'', PStr target), (''target_kind'', PStr target_kind)]
       (Some corrected_at) key expected))))"

section \<open>Projections\<close>

text \<open>The readings of a compilation: when the policy is asked, when the receipt is issued, and identifiers.\<close>

record projection_readings =
  pr_asked :: int
  pr_issued :: int
  pr_artifact_ids :: "string \<Rightarrow> string"
  pr_projection_id :: string

definition audit_payload :: "projection_request \<Rightarrow> projection_receipt \<Rightarrow> string \<Rightarrow> pydict" where
  "audit_payload rq rc receipt_hash =
     [(''disclosed_fields'', str_list (rc_disclosed_fields rc)), (''projection_id'', PStr (rc_projection_id rc)),
      (''purpose'', PStr (rq_purpose rq)), (''receipt_hash'', PStr receipt_hash), (''recipient_id'', PStr (rq_recipient_id rq)),
      (''source_claim_ids'', str_list (rc_source_claim_ids rc)), (''source_sequence'', PInt (rc_source_sequence rc))]"

definition issue_projection ::
  "(int \<Rightarrow> projection_request \<Rightarrow> consent_grant option \<Rightarrow> string set \<Rightarrow> projection_decision result)
     \<Rightarrow> (string \<Rightarrow> string) \<Rightarrow> service_config \<Rightarrow> readings \<Rightarrow> projection_readings \<Rightarrow> projection_request \<Rightarrow> consent_grant option \<Rightarrow> int
     \<Rightarrow> string \<Rightarrow> actor \<Rightarrow> (pydict \<times> projection_receipt \<times> event) step" where
  "issue_projection evaluate H cf rd pr rq consent expected key a =
     andS (intent ''ProjectionIssued'' PROJECTION_SERVICE a) (\<lambda>_.
     andS (subject_scope a (Some (rq_subject_id rq))) (\<lambda>_.
     andS (readS (\<lambda>db. Inr (fst (head db (rq_twin_id rq))))) (\<lambda>at_head.
     andS (check (at_head = expected) (ConcurrencyConflict
        (''projection expected '' @ show_int expected @ '', stream head is '' @ show_int at_head))) (\<lambda>_.
     andS (service_state H cf (rq_twin_id rq) None None (Some (rq_as_of_recorded_time rq))) (\<lambda>s.
     andS (check (st_subject_id s = Some (rq_subject_id rq))
        (InvariantViolation ''projection subject does not match twin subject'')) (\<lambda>_.
     andS (doneS (compile_projection evaluate H (pr_asked pr) (pr_issued pr) (pr_artifact_ids pr) (pr_projection_id pr) s rq consent))
       (\<lambda>compiled.
     andS (doneS (content_hash H (receipt_val (snd compiled)))) (\<lambda>receipt_hash.
     andS (service_append H cf rd
        (event_new (rd_fresh rd) (rd_new rd) (rq_twin_id rq) ''ProjectionIssued'' PROJECTION
           (audit_payload rq (snd compiled) receipt_hash) (identity_id a) PROJECTION_SERVICE key None None (Some (rq_request_id rq)))
        a expected) (\<lambda>out.
     doneS (Inr (fst compiled, snd compiled, out)))))))))))"

definition revoke_projection ::
  "(string \<Rightarrow> string) \<Rightarrow> service_config \<Rightarrow> readings \<Rightarrow> string \<Rightarrow> string \<Rightarrow> string \<Rightarrow> int \<Rightarrow> string \<Rightarrow> actor \<Rightarrow> event step" where
  "revoke_projection H cf rd twin projection reason expected key a =
     andS (intent ''ProjectionRevoked'' PROJECTION_SERVICE a) (\<lambda>_.
     andS (current_state H cf twin) (\<lambda>s.
     andS (subject_scope a (st_subject_id s)) (\<lambda>_.
     andS (check (st_sequence s = expected) (ConcurrencyConflict
        (''revocation expected '' @ show_int expected @ '', state is '' @ show_int (st_sequence s)))) (\<lambda>_.
     andS (check (dict_has (st_issued_projections s) projection) (InvariantViolation ''cannot revoke an unknown projection'')) (\<lambda>_.
     service_append H cf rd
       (event_new (rd_fresh rd) (rd_new rd) twin ''ProjectionRevoked'' PROJECTION
          [(''actor_identity_id'', PStr (identity_id a)), (''projection_id'', PStr projection), (''reason'', PStr reason)]
          (identity_id a) PROJECTION_SERVICE key None None None) a expected)))))"

end
