(* ===== verification/K2_Commands_Laws.thy ===== *)
theory K2_Commands_Laws
  imports K2_Commands K2_Service_Laws
begin

text \<open>
  Laws of the commands. Each is a number of checks that leave the ledger alone, followed by one append
  through the service of an event that the actor owns; so what holds of an append holds of every
  command. A projection that is handed out has been recorded.
\<close>

section \<open>Checks and one append\<close>

definition quiet :: "(string \<Rightarrow> string) \<Rightarrow> service_config \<Rightarrow> 'a step \<Rightarrow> bool" where
  "quiet H cf m \<longleftrightarrow> (\<forall>sv. service_ok H cf sv \<longrightarrow> service_ok H cf (snd (m sv)) \<and> sv_db (snd (m sv)) = sv_db sv)"

text \<open>A step that fails with the ledger as it was, or is an append of an event of that type, role and author.\<close>

definition commits :: "(string \<Rightarrow> string) \<Rightarrow> service_config \<Rightarrow> readings \<Rightarrow> actor \<Rightarrow> string \<Rightarrow> producer_role \<Rightarrow> event step \<Rightarrow> bool" where
  "commits H cf rd a ty role m \<longleftrightarrow> (\<forall>sv. service_ok H cf sv \<longrightarrow>
     (\<exists>err. fst (m sv) = Inl err \<and> service_ok H cf (snd (m sv)) \<and> sv_db (snd (m sv)) = sv_db sv)
     \<or> (\<exists>ev n sv1. service_ok H cf sv1 \<and> sv_db sv1 = sv_db sv \<and> m sv = service_append H cf rd ev a n sv1
          \<and> event_type ev = ty \<and> producer_role ev = role \<and> producer ev = identity_id a))"

named_theorems quiet_intros \<open>steps that leave the ledger alone, and commands that end in an append\<close>

lemma quiet_done [quiet_intros]: "quiet H cf (doneS r)"
  by (simp add: quiet_def)

lemma quiet_check [quiet_intros]: "quiet H cf (check b err)" "quiet H cf (intent ty role a)" "quiet H cf (subject_scope a sub)"
  by (simp_all add: quiet_def check_def intent_def subject_scope_def)

lemma quiet_read [quiet_intros]: "quiet H cf (readS f)"
  by (simp add: quiet_def readS_def)

lemma quiet_state [quiet_intros]: "quiet H cf (service_state H cf twin up_to valid_at as_of)" "quiet H cf (current_state H cf twin)"
  "quiet H cf (latest_state H cf twin)"
  using service_state_law[OF _ surjective_pairing] latest_state_law by (simp_all add: quiet_def current_state_def)

lemma quiet_and [quiet_intros]:
  assumes "quiet H cf m" "\<And>v. quiet H cf (f v)"
  shows "quiet H cf (andS m f)"
  using assms by (fastforce simp: quiet_def andS_def split: prod.splits sum.splits)

lemma quiet_if [quiet_intros]: "quiet H cf m \<Longrightarrow> quiet H cf n \<Longrightarrow> quiet H cf (if b then m else n)"
  by simp

lemma commits_and [quiet_intros]:
  assumes "quiet H cf m" "\<And>v. commits H cf rd a ty role (f v)"
  shows "commits H cf rd a ty role (andS m f)"
  unfolding commits_def
proof (intro allI impI)
  fix sv
  assume ok: "service_ok H cf sv"
  obtain r sv1 where m: "m sv = (r, sv1)" by (cases "m sv")
  have q: "service_ok H cf sv1" "sv_db sv1 = sv_db sv" using assms(1) ok m by (auto simp: quiet_def dest!: spec[of _ sv])
  show "(\<exists>err. fst (andS m f sv) = Inl err \<and> service_ok H cf (snd (andS m f sv)) \<and> sv_db (snd (andS m f sv)) = sv_db sv)
      \<or> (\<exists>ev n sv1. service_ok H cf sv1 \<and> sv_db sv1 = sv_db sv \<and> andS m f sv = service_append H cf rd ev a n sv1
          \<and> event_type ev = ty \<and> producer_role ev = role \<and> producer ev = identity_id a)"
  proof (cases r)
    case (Inl err)
    then show ?thesis using q m by (simp add: andS_Inl)
  next
    case (Inr v)
    have "andS m f sv = f v sv1" by (rule andS_Inr) (simp add: m Inr)
    then show ?thesis using assms(2)[of v, unfolded commits_def, rule_format, OF q(1)] unfolding q(2) by simp
  qed
qed

lemma commits_append:
  assumes "event_type ev = ty" "producer_role ev = role" "producer ev = identity_id a"
  shows "commits H cf rd a ty role (service_append H cf rd ev a n)"
  using assms unfolding commits_def by blast

lemma commits_new [quiet_intros]: "commits H cf rd a ty role (append_new H cf rd a role twin ty body occurred key expected)"
  unfolding append_new_def by (rule commits_append) (simp_all add: event_new_def)

lemma commands_commit:
  "commits H cf rd a ''EvidenceIngested'' INGEST_SERVICE (ingest_evidence H uuid5 cf rd twin subject source source_record body rights
      level valid_from valid_until independence connector media source_hash expected key a)"
  "commits H cf rd a ''EvidenceDeleted'' INGEST_SERVICE (delete_evidence H cf rd twin evidence reason expected key a)"
  "commits H cf rd a ''ClaimProposed'' ADJUDICATION_WORKER (propose_claim H uuid5 cf rd twin subject statement kind provenance
      level valid_from valid_until epistemic model_trace expected key a)"
  "commits H cf rd a (if accepted then ''ClaimAccepted'' else ''ClaimContested'') HUMAN_REVIEW
      (review_claim H cf rd twin claim accepted rationale reviewed_at expected key a)"
  "commits H cf rd a ''EntityLinked'' IDENTITY_WORKER (link_entity H uuid5 cf rd twin subject namespace entity provenance
      confidence valid_from valid_until expected key a)"
  "commits H cf rd a ''EntityUnlinked'' IDENTITY_WORKER (unlink_entity H cf rd twin link reason unlinked_at expected key a)"
  "commits H cf rd a ''ContradictionDetected'' ADJUDICATION_WORKER
      (detect_contradiction H uuid5 cf rd twin claim_ids basis detected_at expected key a)"
  "commits H cf rd a ''ContradictionAdjudicated'' HUMAN_REVIEW
      (adjudicate_contradiction H cf rd twin contradiction resolution preferred rationale adjudicated_at expected key a)"
  "commits H cf rd a ''CorrectionRecorded'' HUMAN_REVIEW
      (record_correction H uuid5 cf rd twin target_kind target replacement rationale corrected_at expected key a)"
  "commits H cf rd a ''ProjectionRevoked'' PROJECTION_SERVICE (revoke_projection H cf rd twin projection reason expected key a)"
  unfolding ingest_evidence_def delete_evidence_def propose_claim_def review_claim_def link_entity_def unlink_entity_def
    detect_contradiction_def adjudicate_contradiction_def record_correction_def revoke_projection_def Let_def
  by (intro quiet_intros commits_append; simp add: event_new_def)+

section \<open>Every command\<close>

inductive commanded ::
  "(string \<Rightarrow> string) \<Rightarrow> (string \<Rightarrow> string) \<Rightarrow> service_config \<Rightarrow> readings \<Rightarrow> actor \<Rightarrow> string \<Rightarrow> producer_role \<Rightarrow> event step \<Rightarrow> bool"
  for H uuid5 cf rd a where
  by_ingest: "commanded H uuid5 cf rd a ''EvidenceIngested'' INGEST_SERVICE (ingest_evidence H uuid5 cf rd twin subject source
      source_record body rights level valid_from valid_until independence connector media source_hash expected key a)"
| by_delete: "commanded H uuid5 cf rd a ''EvidenceDeleted'' INGEST_SERVICE (delete_evidence H cf rd twin evidence reason expected key a)"
| by_propose: "commanded H uuid5 cf rd a ''ClaimProposed'' ADJUDICATION_WORKER (propose_claim H uuid5 cf rd twin subject statement
      kind provenance level valid_from valid_until epistemic model_trace expected key a)"
| by_review: "commanded H uuid5 cf rd a (if accepted then ''ClaimAccepted'' else ''ClaimContested'') HUMAN_REVIEW
      (review_claim H cf rd twin claim accepted rationale reviewed_at expected key a)"
| by_link: "commanded H uuid5 cf rd a ''EntityLinked'' IDENTITY_WORKER (link_entity H uuid5 cf rd twin subject namespace entity
      provenance confidence valid_from valid_until expected key a)"
| by_unlink: "commanded H uuid5 cf rd a ''EntityUnlinked'' IDENTITY_WORKER (unlink_entity H cf rd twin link reason unlinked_at expected key a)"
| by_detect: "commanded H uuid5 cf rd a ''ContradictionDetected'' ADJUDICATION_WORKER
      (detect_contradiction H uuid5 cf rd twin claim_ids basis detected_at expected key a)"
| by_adjudicate: "commanded H uuid5 cf rd a ''ContradictionAdjudicated'' HUMAN_REVIEW
      (adjudicate_contradiction H cf rd twin contradiction resolution preferred rationale adjudicated_at expected key a)"
| by_correct: "commanded H uuid5 cf rd a ''CorrectionRecorded'' HUMAN_REVIEW
      (record_correction H uuid5 cf rd twin target_kind target replacement rationale corrected_at expected key a)"
| by_revoke: "commanded H uuid5 cf rd a ''ProjectionRevoked'' PROJECTION_SERVICE (revoke_projection H cf rd twin projection reason expected key a)"

lemma commanded_commits: "commanded H uuid5 cf rd a ty role m \<Longrightarrow> commits H cf rd a ty role m"
  by (induction rule: commanded.induct) (rule commands_commit)+

lemma commanded_owner: "commanded H uuid5 cf rd a ty role m \<Longrightarrow> owns role ty"
  by (induction rule: commanded.induct) (simp_all add: owns_def EVENT_OWNERS_def)

lemma append_answers:
  assumes "append H now ev n db = Inr (out, db')"
  shows "event_type out = event_type ev \<and> producer_role out = producer_role ev \<and> producer out = producer ev"
  using assms
proof (rule append_Inr)
  fix r
  assume "same_request out ev = Inr True"
  then show ?thesis by (auto simp: same_request_def bindE_Inr_iff split: if_splits)
qed (use seal_fields in auto)

text \<open>What a command can have done.\<close>

lemma commits_law:
  assumes "commits H cf rd a ty role m" "service_ok H cf sv" "replays H (sv_db sv)" "m sv = (r, sv')"
  shows "service_ok H cf sv' \<and> sv_db sv' = sv_db sv
    \<or> (\<exists>ev n. event_type ev = ty \<and> producer_role ev = role \<and> authorize ev a = Inr () \<and> validate_event ev = Inr ()
        \<and> (event_fit rd ev \<longrightarrow> sound_after H cf rd ev n (sv_db sv) sv'
            \<and> (\<forall>out. r = Inr out \<longrightarrow> event_type out = ty \<and> producer_role out = role \<and> producer out = identity_id a)))"
proof -
  from assms(1,2,4) consider (refused) "service_ok H cf sv' \<and> sv_db sv' = sv_db sv"
    | (appended) ev n sv1 where "service_ok H cf sv1" "sv_db sv1 = sv_db sv" "service_append H cf rd ev a n sv1 = (r, sv')"
      "event_type ev = ty" "producer_role ev = role" "producer ev = identity_id a"
    unfolding commits_def by (metis fst_conv snd_conv)
  then show ?thesis
  proof cases
    case appended
    show ?thesis
    proof (cases "authorize ev a = Inr () \<and> validate_event ev = Inr ()")
      case True
      have "sound_after H cf rd ev n (sv_db sv) sv'
            \<and> (\<forall>out. r = Inr out \<longrightarrow> event_type out = ty \<and> producer_role out = role \<and> producer out = identity_id a)" if "event_fit rd ev"
        using service_append_law[OF appended(1) _ that appended(3)] appended(2,4-6) assms(3) append_answers by metis
      then show ?thesis using True appended(4,5) by blast
    next
      case False
      then have "sv' = sv1"
        using appended(3) by (cases "authorize ev a"; cases "validate_event ev") (auto simp: service_append_def andS_simp)
      then show ?thesis using appended(1,2) by simp
    qed
  qed blast
qed

section \<open>Projections are recorded\<close>

text \<open>An answered append is an event of the stream, with the type and the payload of the request.\<close>

lemma append_answer_stored:
  assumes "append H (rd_append rd) ev n db = Inr (out, db')" "db_inv H db" "event_fit rd ev"
  shows "\<exists>e\<in>set (stream db' (twin_id ev)). event_type e = event_type ev \<and> payload e = payload ev"
proof (cases "duplicate_row db ev")
  case None
  obtain prev where "seal H ev (n + 1) prev (utc (rd_append rd)) = Inr out" by (rule append_fresh_tables[OF assms(1) None])
  note f = seal_fields[OF this]
  have "payload (persisted out) = payload ev"
    using f assms(3) jsonable_primitive[of "PDict (payload ev)"] by (simp add: persisted_def event_fit_def plain_def del: to_primitive.simps)
  then show ?thesis
    using append_stream[OF assms(1,2) event_fit_admissible[OF assms(3)], of "twin_id ev"] None f by (auto simp: persisted_def)
next
  case (Some r)
  from assms(1) have dup: "db' = db" "row_to_event r = Inr out" "same_request out ev = Inr True"
    by (rule append_Inr; use Some in simp)+
  have r: "r \<in> set (db_events db)" "er_twin_id r = twin_id ev" using Some by (auto simp: duplicate_row_def find_Some_iff)
  then have "r \<in> set (stream_rows db (twin_id ev))" by (simp add: stream_rows_def)
  then have mem: "out \<in> set (stream db (twin_id ev))"
    using in_read_rows[OF readable_stream[OF assms(2), of "twin_id ev"]] dup(2) by (auto simp: stream_def)
  have j: "jsonable (PDict (payload out))" "jsonable (PDict (payload ev))"
    using stream_plain[OF assms(2) mem] assms(3) by (simp_all only: event_fit_def plain_def)
  have "dumps (PDict (payload out)) = dumps (PDict (payload ev))"
    using dup(3) j by (simp add: same_request_def canonical_json_jsonable del: jsonable.simps dumps.simps split: if_splits)
  then have "payload out = payload ev" using dumps_inject[OF j] by simp
  then show ?thesis using mem append_answers[OF assms(1)] dup(1) by auto
qed

lemma audit_plain: "plain (audit_payload rq rc h)"
  by (simp add: plain_def audit_payload_def wf_dict_def str_list_def list_all_iff)

lemma current_step: "andS m f sv = (Inr v, sv') \<Longrightarrow> \<exists>x sv1. m sv = (Inr x, sv1) \<and> f x sv1 = (Inr v, sv')"
  by (auto simp: andS_def split: prod.splits sum.splits)

lemma current_stepE:
  assumes "andS m f sv = (Inr v, sv')"
  obtains x sv1 where "m sv = (Inr x, sv1)" "f x sv1 = (Inr v, sv')"
  using current_step[OF assms] by blast

lemma issue_projection_law:
  assumes "issue_projection evaluate H cf rd pr rq consent n key a sv = (Inr (projection, rc, out), sv')"
    and ok: "service_ok H cf sv" and rep: "replays H (sv_db sv)"
    and clocks: "storable_time (utc (rd_new rd))" "storable_time (utc (rd_append rd))" "storable_time (utc (rd_snapshot rd))"
  shows "\<exists>s h. full_replay H (sv_db sv) (rq_twin_id rq) None (Some (rq_as_of_recorded_time rq)) = Inr s
    \<and> compile_projection evaluate H (pr_asked pr) (pr_issued pr) (pr_artifact_ids pr) (pr_projection_id pr) s rq consent
        = Inr (projection, rc)
    \<and> content_hash H (receipt_val rc) = Inr h \<and> service_ok H cf sv' \<and> replays H (sv_db sv')
    \<and> (\<exists>e\<in>set (stream (sv_db sv') (rq_twin_id rq)). event_type e = ''ProjectionIssued'' \<and> payload e = audit_payload rq rc h)"
proof -
  obtain s sv1 h where st: "service_state H cf (rq_twin_id rq) None None (Some (rq_as_of_recorded_time rq)) sv = (Inr s, sv1)"
    and c: "compile_projection evaluate H (pr_asked pr) (pr_issued pr) (pr_artifact_ids pr) (pr_projection_id pr) s rq consent
      = Inr (projection, rc)" "content_hash H (receipt_val rc) = Inr h"
    and tail: "service_append H cf rd
        (event_new (rd_fresh rd) (rd_new rd) (rq_twin_id rq) ''ProjectionIssued'' PROJECTION
           (audit_payload rq rc h) (identity_id a) PROJECTION_SERVICE key None None (Some (rq_request_id rq)))
        a n sv1 = (Inr out, sv')"
    using assms(1) unfolding issue_projection_def
    by (auto dest!: current_step simp: intent_def subject_scope_def check_def readS_def split: if_splits)
  note law = service_state_law[OF ok st]
  define ev where "ev = event_new (rd_fresh rd) (rd_new rd) (rq_twin_id rq) ''ProjectionIssued'' PROJECTION
           (audit_payload rq rc h) (identity_id a) PROJECTION_SERVICE key None None (Some (rq_request_id rq))"
  have a: "service_append H cf rd ev a n sv1 = (Inr out, sv')" using tail by (simp add: ev_def)
  have fit: "event_fit rd ev"
    using clocks audit_plain by (simp add: event_fit_def ev_def event_new_def)
  have sv1: "service_ok H cf sv1" "sv_db sv1 = sv_db sv" using law by simp_all
  from service_append_law[OF sv1(1) _ fit a] rep sv1(2)
  obtain db1 where db1: "append H (rd_append rd) ev n (sv_db sv) = Inr (out, db1)" "db_events (sv_db sv') = db_events db1"
    and sound: "sound_after H cf rd ev n (sv_db sv) sv'" by auto
  have "\<exists>e\<in>set (stream (sv_db sv') (rq_twin_id rq)). event_type e = ''ProjectionIssued'' \<and> payload e = audit_payload rq rc h"
    using append_answer_stored[OF db1(1) service_db_inv[OF ok] fit] same_events(1)[OF db1(2)] by (simp add: ev_def event_new_def)
  moreover have "full_replay H (sv_db sv) (rq_twin_id rq) None (Some (rq_as_of_recorded_time rq)) = Inr s"
    using law by (cases "full_replay H (sv_db sv) (rq_twin_id rq) None (Some (rq_as_of_recorded_time rq))") simp_all
  ultimately show ?thesis using c sound by (auto simp: sound_after_def)
qed

end
