(* ===== verification/K2_Examples_Commands.thy ===== *)
theory K2_Examples_Commands
  imports K2_Commands_Laws K2_Service_Run K2_Examples_Service K2_Examples_Compiler
begin

text \<open>
  A service on a ledger with one event of evidence, and the issue of a projection to a carer: the
  inputs of the witnesses about commands.
\<close>

definition ex_quiet_config :: service_config where
  "ex_quiet_config = ex_config\<lparr>cf_snapshot_interval := 0\<rparr>"

lemma ex_quiet_service_ok: "service_ok H ex_quiet_config ex_service"
  by (rule make_service_ok[OF _ ledger_empty, where env = ex_env]) (simp add: make_service_def ex_quiet_config_def ex_config_def ex_service_def)

definition ex_worker :: actor where
  "ex_worker = \<lparr>identity_id = ''q'', roles = {PROJECTION_SERVICE, IDENTITY_WORKER}, actor_subject_id = Some ''alice''\<rparr>"

definition ex_bound :: "string \<Rightarrow> twin_state" where
  "ex_bound h = (init_state ''t'')\<lparr>st_subject_id := Some ''alice'', st_evidence := [(''e1'', ex_payload)], st_sequence := 1,
     st_last_event_hash := h\<rparr>"

definition ex_issue_readings :: readings where
  "ex_issue_readings = ex_readings\<lparr>rd_fresh := ''id2''\<rparr>"

definition ex_issue_ids :: projection_readings where
  "ex_issue_ids = \<lparr>pr_asked = 5, pr_issued = 5, pr_artifact_ids = id, pr_projection_id = ''p1''\<rparr>"

definition ex_late_request :: projection_request where
  "ex_late_request = ex_request\<lparr>rq_as_of_recorded_time := utc 8\<rparr>"

text \<open>The ledger after one append of evidence, with the rows that a later append meets.\<close>

lemma ex_bound_ledger:
  "\<exists>db out. ledger_ok H db \<and> stream db ''t'' = [out] \<and> recorded_at out = utc 7
     \<and> full_replay H db ''t'' None None = Inr (ex_bound (event_hash out))
     \<and> full_replay H db ''t'' None (Some (utc 8)) = Inr (ex_bound (event_hash out))
     \<and> map (\<lambda>r. (er_twin_id r, er_idempotency_key r, er_event_id r)) (db_events db) = [(''t'', ''k1'', ''id1'')]
     \<and> outbox_backlog db = 1"
proof -
  obtain out db where a: "append H 7 ex_event 0 empty_db = Inr (out, db)" using ex_append by blast
  have inv: "outbox_inv H db" by (rule append_outbox_inv[OF a outbox_inv_empty ex_admissible])
  then have dbi: "db_inv H db" by (simp add: outbox_inv_def)
  obtain row prev where r: "seal H ex_event (0 + 1) prev (utc 7) = Inr out" "db_snapshots db = db_snapshots empty_db"
    "event_to_row out = Inr row" "db_events db = db_events empty_db @ [row]" "db_outbox db = db_outbox empty_db @ [new_outbox out]"
    by (rule append_fresh_tables[OF a ex_no_duplicate])
  note f = seal_fields[OF r(1)]
  let ?x = "persisted out"
  have st: "stream db ''t'' = [?x]"
    using append_stream[OF a db_inv_empty ex_admissible, of "''t''"] ex_no_duplicate
    by (simp add: ex_event_def stream_def stream_rows_def empty_db_def)
  have pay: "payload out = ex_payload" "plain (payload out)" using f ex_plain(3) by (simp_all add: ex_event_def)
  have x: "apply_event (init_state ''t'') ?x = apply_event (init_state ''t'') out"
    using pay(2) f ex_event_fit by (intro apply_persisted) (simp_all add: event_fit_def)
  have "validate_event out = Inr ()"
    using f ex_validate by (simp add: validate_event_def validate_payload_def ex_event_def)
  then have "apply_event (init_state ''t'') out = Inr (ex_bound (event_hash out))"
    using f pay(1)
    by (simp add: apply_event_def require_def handle_def handlers_def h_evidence_ingested_def text_item_def item_def
      bind_subject_def init_state_def ex_event_def ex_payload_def ex_bound_def)
  moreover have "chain_ok H [] 1 [?x]" using stream_chain[OF dbi, of "''t''"] st by simp
  moreover have "event_hash ?x = event_hash out" "recorded_at ?x = utc 7" using f by (simp_all add: persisted_def astimezone_utc_def)
  ultimately have rep: "full_replay H db ''t'' None None = Inr (ex_bound (event_hash ?x))"
    "full_replay H db ''t'' None (Some (utc 8)) = Inr (ex_bound (event_hash ?x))"
    using st x by (simp_all add: full_replay_def cut_def init_state_def)
  have "er_twin_id row = ''t''" "er_idempotency_key row = ''k1''" "er_event_id row = ''id1''"
    using event_to_row_storable[OF seal_storable[OF r(1) ex_admissible]] r(3) f by (auto simp: ex_event_def)
  then show ?thesis
    using st rep r inv f
    by (intro exI[of _ db] exI[of _ ?x])
      (simp add: ledger_ok_def snapshots_sound_def empty_db_def outbox_backlog_def new_outbox_def persisted_def astimezone_utc_def)
qed

lemma ex_bound_projection:
  "\<exists>projection rc. compile_projection evaluate_projection H 5 5 id ''p1'' (ex_bound h) ex_late_request (Some ex_consent) = Inr (projection, rc)
     \<and> rc_projection_id rc = ''p1'' \<and> rc_source_claim_ids rc = []"
proof -
  have accepted: "accepted_claims (ex_bound h) v k m = Inr []" for v k m
    by (simp add: accepted_claims_def ex_bound_def init_state_def)
  have part: "\<exists>part. compile_field H 5 id (ex_bound h) ex_late_request ''boundaries'' = Inr (part, []) \<and> finite_floats (PDict [part])"
    using accepted
    by (simp add: compile_field_def kernel_compile_def artifact_fields_def ex_late_request_def ex_request_def select_for_def artifact_payload_def
        loss_report_def artifact_material_def content_hash_finite project_artifact_def disclosed_payload_def
        disclosed_loss_def pget_def get_or_def ex_bound_def init_state_def str_list_def)
  then obtain part where part: "compile_field H 5 id (ex_bound h) ex_late_request ''boundaries'' = Inr (part, [])" "finite_floats (PDict [part])"
    by blast
  have "finite_floats (PDict (projection_of (ex_bound h) ex_late_request [part]))"
    using part(2) by (simp add: projection_of_def ex_bound_def init_state_def ex_late_request_def ex_request_def)
  note hash = content_hash_finite[OF this, of H]
  have "consent_covers 5 ex_late_request ex_consent"
    by (simp add: consent_covers_def ex_late_request_def ex_request_def ex_consent_def consent_active_at_def within_half_open_def less_eq_sensitivity_def)
  then have "evaluate_projection 5 ex_late_request (Some ex_consent) (set artifact_fields)
      = Inr (True, [''consent_and_policy_satisfied''], {''boundaries''})"
    unfolding evaluate_projection_allow by (simp add: ex_late_request_def ex_request_def artifact_fields_def)
  moreover have "receipt_expiry 5 ex_consent = Inr (utc 9)" by (simp add: receipt_expiry_def ex_consent_def)
  moreover have "rq_twin_id ex_late_request = st_twin_id (ex_bound h)" "st_subject_id (ex_bound h) = Some (rq_subject_id ex_late_request)"
    by (simp_all add: ex_bound_def init_state_def ex_late_request_def ex_request_def)
  ultimately show ?thesis using part(1) hash by (simp add: compile_projection_def Let_def)
qed

text \<open>The audit event of that projection is admitted by the twin, and the issue succeeds.\<close>

lemma ex_issue:
  "\<exists>sv projection rc out sv'. service_ok H ex_quiet_config sv \<and> replays H (sv_db sv)
    \<and> issue_projection evaluate_projection H ex_quiet_config ex_issue_readings ex_issue_ids ex_late_request (Some ex_consent)
        1 ''k2'' ex_worker sv = (Inr (projection, rc, out), sv')"
proof -
  obtain db out where db: "ledger_ok H db" "stream db ''t'' = [out]"
    "full_replay H db ''t'' None None = Inr (ex_bound (event_hash out))"
    "full_replay H db ''t'' None (Some (utc 8)) = Inr (ex_bound (event_hash out))"
    "map (\<lambda>r. (er_twin_id r, er_idempotency_key r, er_event_id r)) (db_events db) = [(''t'', ''k1'', ''id1'')]"
    "outbox_backlog db = 1"
    using ex_bound_ledger[of H] by (elim exE conjE) (rule that; assumption)
  then obtain row where row: "db_events db = [row]" "er_twin_id row = ''t''" "er_idempotency_key row = ''k1''" "er_event_id row = ''id1''"
    by (cases "db_events db") auto
  define sv where "sv = \<lparr>sv_db = db, sv_env = ex_env, sv_cache = []\<rparr>"
  have made: "make_service ex_quiet_config db ex_env = Inr sv" by (simp add: make_service_def ex_quiet_config_def ex_config_def sv_def)
  have ok: "service_ok H ex_quiet_config sv" by (rule make_service_ok[OF made db(1)])
  have inv: "db_inv H db" using db(1) by (simp add: ledger_ok_def outbox_inv_def)
  have none: "stream db twin = []" if "twin \<noteq> ''t''" for twin
    using that row by (simp add: stream_def stream_rows_def)
  have rep: "replays H db"
    unfolding replays_def
  proof
    fix twin
    show "ok (full_replay H db twin None None)"
      using db(3) none[of twin] by (cases "twin = ''t''") (simp_all add: full_replay_def cut_def)
  qed
  let ?h = "event_hash out"
  obtain projection rc where p: "compile_projection evaluate_projection H 5 5 id ''p1'' (ex_bound ?h) ex_late_request (Some ex_consent)
      = Inr (projection, rc)" "rc_projection_id rc = ''p1''" "rc_source_claim_ids rc = []"
    using ex_bound_projection by blast
  obtain h where h: "content_hash H (receipt_val rc) = Inr h"
    by (simp add: content_hash_def canonical_json_def receipt_val_def str_list_def list_all_iff)
  define ev where "ev = event_new ''id2'' 6 ''t'' ''ProjectionIssued'' PROJECTION (audit_payload ex_late_request rc h) ''q'' PROJECTION_SERVICE
      ''k2'' None None (Some ''r1'')"
  note ev_simps = ev_def event_new_def
  obtain s1 where st: "service_state H ex_quiet_config ''t'' None None (Some (utc 8)) sv = (Inr (ex_bound ?h), s1)"
    "service_ok H ex_quiet_config s1" "sv_db s1 = db"
    using service_state_law[OF ok surjective_pairing, of "''t''" None None "Some (utc 8)"] db(4)
    by (simp add: sv_def prod_eq_iff)
  have fit: "event_fit ex_issue_readings ev"
    using audit_plain by (simp add: event_fit_def ev_simps ex_issue_readings_def ex_readings_def storable_time_def valid_dt_def utc_def naive_def)
  have auth: "authorize ev ex_worker = Inr ()"
    by (simp add: authorize_def authorize_intent_def authorize_subject_def EVENT_OWNERS_def ex_worker_def ev_simps audit_payload_def
        pget_def get_or_def opt_of_val_def)
  have valid: "validate_event (ev\<lparr>sequence := n\<rparr>) = Inr ()" for n
    by (simp add: validate_event_def require_def ev_simps validate_payload_def require_fields_def missing_fields_def audit_payload_def
        dict_has_def projection_events_def utc_def naive_def)
  have head: "head db ''t'' = (1, ?h)" using head_stream[OF inv, of "''t''"] db(2) by (simp add: last_hash_def)
  have json: "jsonable (to_primitive (PDict (payload ev)))"
    using audit_plain by (simp add: ev_simps plain_def jsonable_primitive del: to_primitive.simps jsonable.simps)
  obtain preview where pv: "seal H ev (1 + 1) ?h (utc 7) = Inr preview" using seal_ok[OF json] by blast
  have handled: "ok (handle ev (ex_bound ?h))"
    by (simp add: handle_def handlers_def h_projection_issued_def require_def ev_simps audit_payload_def text_item_def item_def
        ex_bound_def init_state_def p(2))
  have "validate_event preview = Inr ()" "plane preview = PROJECTION" "ok (handle preview (ex_bound ?h))"
    using valid[of 2] seal_fields[OF pv] seal_Inr(2)[OF pv] handled
    by (auto simp: validate_event_def validate_payload_def ev_simps handle_def handlers_def h_projection_issued_def)
  then have applied: "ok (apply_event (ex_bound ?h) preview)"
    by (auto simp: apply_event_def require_def ok_iff)
  have "\<exists>answer sv'. service_append H ex_quiet_config ex_issue_readings ev ex_worker 1 s1 = (Inr answer, sv')"
  proof (rule service_append_succeeds[OF st(2) fit auth])
    show "validate_event ev = Inr ()" using valid[of 0] by (simp add: ev_simps)
    show "head (sv_db s1) (twin_id ev) = (1, ?h)" using head st(3) by (simp add: ev_simps)
    show "duplicate_row (sv_db s1) ev = None" "event_id ev \<notin> er_event_id ` set (db_events (sv_db s1))"
      using st(3) row by (simp_all add: duplicate_row_def ev_simps)
    show "edges_of ev = Inr []" using p(3) by (simp add: edges_of_def ev_simps audit_payload_def get_or_def str_list_def text_list_def py_iter_def)
    show "full_replay H (sv_db s1) (twin_id ev) None None = Inr (ex_bound ?h)" using db(3) st(3) by (simp add: ev_simps)
    show "seal H ev (1 + 1) ?h (utc (rd_preview ex_issue_readings)) = Inr preview"
      using pv by (simp add: ex_issue_readings_def ex_readings_def)
    show "ok (apply_event (ex_bound ?h) preview)" by (rule applied)
    show "outbox_backlog (sv_db s1) < 100" using db(6) st(3) by simp
  qed (simp_all add: ev_simps ex_quiet_config_def ex_config_def ex_issue_readings_def ex_readings_def lease_end_def)
  then obtain answer sv' where run: "service_append H ex_quiet_config ex_issue_readings ev ex_worker 1 s1 = (Inr answer, sv')" by blast
  have "issue_projection evaluate_projection H ex_quiet_config ex_issue_readings ex_issue_ids ex_late_request (Some ex_consent)
        1 ''k2'' ex_worker sv = (Inr (projection, rc, answer), sv')"
    using run p(1) h st(1) head
    by (simp add: issue_projection_def intent_def subject_scope_def check_def readS_def andS_simp ex_late_request_def ex_request_def
        ex_issue_ids_def authorize_intent_def authorize_subject_def EVENT_OWNERS_def ex_worker_def sv_def ev_def
        ex_issue_readings_def ex_readings_def ex_bound_def)
  then show ?thesis using ok rep by (intro exI[of _ sv] exI) (auto simp: sv_def)
qed

end
