(* ===== verification/K2_Service_Streams.thy ===== *)
theory K2_Service_Streams
  imports K2_Commands_Laws K2_Session
begin

text \<open>
  The streams of \<open>DigitalTwinService\<close> (\<open>src/src/argo_dt/service.py\<close>): \<open>subscribe\<close> (the raw stream
  of operations), \<open>open_state_stream\<close> (the payload-minimised stream, from the beginning or from a resume
  token) and \<open>_stream_position\<close>. The configured limits and the cursor codec are arguments. Shown: a stream
  that opens was authorised and stands at a position of the replayed stream, so what is proved of durable
  subscriptions holds of it; and the token of a position of the stream reopens the stream there.
\<close>

section \<open>Operations\<close>

text \<open>\<open>_stream_position\<close>\<close>

definition service_position :: "string \<Rightarrow> int \<Rightarrow> stream_position step" where
  "service_position twin n =
     (if n < 0 then doneS (violation ''after_sequence cannot be negative'')
      else if n = 0 then doneS (make_position twin 0 [])
      else andS (readS (\<lambda>db. sqlite_load db twin (n - 1) (Some n) (Some 1))) (\<lambda>evs.
        case evs of
          [] \<Rightarrow> doneS (violation ''after_sequence is not present in the event stream'')
        | ev # _ \<Rightarrow>
            if sequence ev \<noteq> n then doneS (violation ''after_sequence is not present in the event stream'')
            else doneS (make_position twin n (event_hash ev))))"

text \<open>\<open>DurableSubscription.open\<close> on the store and the broker of the service.\<close>

definition open_durable :: "stream_position \<Rightarrow> sync_limits \<Rightarrow> string list \<Rightarrow> event_plane list \<Rightarrow> durable step" where
  "open_durable start limits types planes sv =
     (let (r, env) = durable_open (head (sv_db sv)) (sqlite_load (sv_db sv)) start limits types planes (sv_env sv)
      in (r, sv\<lparr>sv_env := env\<rparr>))"

definition denied :: "string \<Rightarrow> error" where
  "denied m = AuthorizationDenied m"

text \<open>An actor with a subject scope is held to the subject of the twin as it is now.\<close>

definition stream_scope :: "(string \<Rightarrow> string) \<Rightarrow> service_config \<Rightarrow> actor \<Rightarrow> string \<Rightarrow> unit step" where
  "stream_scope H cf a twin = andS (current_state H cf twin) (\<lambda>s. subject_scope a (st_subject_id s))"

definition service_subscribe ::
  "(string \<Rightarrow> string) \<Rightarrow> service_config \<Rightarrow> sync_limits \<Rightarrow> string \<Rightarrow> actor \<Rightarrow> int \<Rightarrow> durable step" where
  "service_subscribe H cf limits twin a after =
     andS (check (OPERATIONS_SERVICE \<in> roles a) (denied ''raw event subscriptions require operations role'')) (\<lambda>_.
     andS (if actor_subject_id a \<noteq> None then stream_scope H cf a twin else doneS (Inr ())) (\<lambda>_.
     andS (service_position twin after) (\<lambda>start.
     open_durable start limits [] [])))"

definition trusted_global_roles :: "producer_role set" where
  "trusted_global_roles = {OPERATIONS_SERVICE, PROJECTION_SERVICE}"

definition stream_gate :: "(string \<Rightarrow> string) \<Rightarrow> service_config \<Rightarrow> actor \<Rightarrow> string \<Rightarrow> unit step" where
  "stream_gate H cf a twin =
     (if actor_subject_id a = None
      then check (roles a \<inter> trusted_global_roles \<noteq> {}) (denied ''global state streams require operations or projection role'')
      else stream_scope H cf a twin)"

text \<open>The start of a stream: its origin, or the position the token names, looked up again.\<close>

definition resume_start :: "cursor_ops \<Rightarrow> int \<Rightarrow> string \<Rightarrow> string option \<Rightarrow> stream_position step" where
  "resume_start co now twin token =
     (case token of
        None \<Rightarrow> doneS (make_position twin 0 [])
      | Some t \<Rightarrow>
          andS (doneS (co_verify co now t twin)) (\<lambda>decoded.
          andS (service_position twin (dc_sequence decoded)) (\<lambda>p.
          doneS (co_bind co decoded p))))"

definition open_state_stream ::
  "(string \<Rightarrow> string) \<Rightarrow> service_config \<Rightarrow> sync_limits \<Rightarrow> cursor_ops option \<Rightarrow> int \<Rightarrow> string \<Rightarrow> actor \<Rightarrow> string option
     \<Rightarrow> string list \<Rightarrow> bool \<Rightarrow> pyval \<Rightarrow> durable step" where
  "open_state_stream H cf limits codec now twin a token types include_projection max_in_flight =
     andS (stream_gate H cf a twin) (\<lambda>_.
     case codec of
       None \<Rightarrow> doneS (violation ''state streams require an explicitly configured cursor signer'')
     | Some co \<Rightarrow>
         andS (resume_start co now twin token) (\<lambda>start.
         andS (doneS (negotiate limits max_in_flight)) (\<lambda>agreed.
         open_durable start agreed types (AUTHORITATIVE # (if include_projection then [PROJECTION] else [])))))"

section \<open>Quiet steps\<close>

lemma quiet_position [quiet_intros]: "quiet H cf (service_position twin n)"
  unfolding service_position_def by (intro quiet_intros) (simp split: list.split add: quiet_intros)

lemma quiet_scope [quiet_intros]: "quiet H cf (stream_scope H cf a twin)"
  unfolding stream_scope_def by (intro quiet_intros)

lemma quiet_resume [quiet_intros]: "quiet H cf (resume_start co now twin token)"
  unfolding resume_start_def by (simp split: option.split add: quiet_intros)

lemma quiet_open [quiet_intros]: "quiet H cf (open_durable start limits types planes)"
  by (auto simp: quiet_def open_durable_def service_ok_def split: prod.splits)

lemma quiet_gate [quiet_intros]: "quiet H cf (stream_gate H cf a twin)"
  unfolding stream_gate_def by (intro quiet_intros)

lemma stream_steps_quiet:
  "quiet H cf (service_subscribe H cf limits twin a after)"
  "quiet H cf (open_state_stream H cf limits codec now twin a token types include_projection max_in_flight)"
  unfolding service_subscribe_def open_state_stream_def by (intro quiet_intros; simp split: option.split add: quiet_intros)+

section \<open>What an opened stream is\<close>

definition proper_position :: "string \<Rightarrow> stream_position \<Rightarrow> bool" where
  "proper_position twin p \<longleftrightarrow> sp_twin_id p = twin \<and> twin \<noteq> [] \<and> 0 \<le> sp_sequence p \<and> (sp_sequence p = 0 \<longrightarrow> sp_event_hash p = [])"

lemma make_position_Inr: "make_position twin n h = Inr p \<Longrightarrow> proper_position twin p \<and> sp_sequence p = n"
  by (auto simp: make_position_def rejected_def proper_position_def split: if_splits)

lemma service_position_Inr:
  assumes "service_position twin n sv = (Inr p, sv')"
  shows "proper_position twin p \<and> sp_sequence p = n \<and> sv' = sv"
  using assms
  by (auto simp: service_position_def readS_def doneS_def violation_def andS_def dest: make_position_Inr
      split: if_splits list.splits sum.splits)

lemma stream_scope_Inr:
  assumes "service_ok H cf sv" "stream_scope H cf a twin sv = (Inr u, sv')"
  shows "service_ok H cf sv' \<and> sv_db sv' = sv_db sv \<and> (\<exists>s. full_replay H (sv_db sv) twin None None = Inr s
    \<and> (actor_subject_id a = None \<or> st_subject_id s = None \<or> actor_subject_id a = st_subject_id s))"
proof -
  from assms(2) obtain s sv1 where s: "service_state H cf twin None None None sv = (Inr s, sv1)"
    "subject_scope a (st_subject_id s) sv1 = (Inr u, sv')"
    unfolding stream_scope_def current_state_def by (rule current_stepE)
  have "full_replay H (sv_db sv) twin None None = Inr s" "service_ok H cf sv1" "sv_db sv1 = sv_db sv"
    using service_state_law[OF assms(1) s(1)] by (simp_all add: bindE_def split: sum.splits)
  moreover have "sv' = sv1" "authorize_subject a (st_subject_id s) = Inr ()" using s(2) by (simp_all add: subject_scope_def doneS_def)
  ultimately show ?thesis by (simp add: authorize_subject_iff)
qed

text \<open>From a proper position, the subscription stands on the stream of the ledger.\<close>

lemma open_durable_stands:
  assumes "open_durable start limits types planes sv = (Inr d, sv')" "streamable H (sv_db sv)" "proper_position twin start"
    and "1 \<le> sl_replay_page_size limits"
  shows "\<exists>n. start = position_at twin (stream (sv_db sv) twin) n \<and> int n = sp_sequence start
    \<and> stands H twin n (visible d) n n \<lparr>sw_db = sv_db sv, sw_env = sv_env sv', sw_sub = d, sw_emitted = []\<rparr>
    \<and> sv_db sv' = sv_db sv \<and> ds_limits d = limits
    \<and> ds_event_types d = (if types = [] then None else Some types) \<and> ds_planes d = (if planes = [] then None else Some planes)"
proof -
  from assms(1) obtain env where o: "durable_open (head (sv_db sv)) (sqlite_load (sv_db sv)) start limits types planes (sv_env sv) = (Inr d, env)"
    "sv' = sv\<lparr>sv_env := env\<rparr>" by (auto simp: open_durable_def split: prod.splits)
  have p: "0 \<le> sp_sequence start" "sp_sequence start = 0 \<longrightarrow> sp_event_hash start = []" "sp_twin_id start \<noteq> []" "sp_twin_id start = twin"
    using assms(3) by (simp_all add: proper_position_def)
  from open_stands[OF o(1) assms(2,4) p(1-3)] obtain n where
    n: "start = position_at twin (stream (sv_db sv) twin) n"
    "stands H twin n (visible d) n n \<lparr>sw_db = sv_db sv, sw_env = env, sw_sub = d, sw_emitted = []\<rparr>"
    using p(4) by auto
  have "int n = sp_sequence start" by (subst n(1)) (simp add: position_at_def)
  moreover have "ds_limits d = limits" "ds_event_types d = (if types = [] then None else Some types)"
    "ds_planes d = (if planes = [] then None else Some planes)"
    using ledger.open_core[OF o(1) assms(4) p(1-3) assms(2)] by auto
  ultimately show ?thesis using n o(2) by (intro exI[of _ n]) simp
qed

definition may_stream :: "(string \<Rightarrow> string) \<Rightarrow> db \<Rightarrow> actor \<Rightarrow> string \<Rightarrow> bool" where
  "may_stream H db a twin \<longleftrightarrow>
     (if actor_subject_id a = None then roles a \<inter> trusted_global_roles \<noteq> {}
      else \<exists>s. full_replay H db twin None None = Inr s \<and> (st_subject_id s = None \<or> actor_subject_id a = st_subject_id s))"

lemma stream_gate_Inr:
  assumes "service_ok H cf sv" "stream_gate H cf a twin sv = (Inr u, sv')"
  shows "may_stream H (sv_db sv) a twin \<and> service_ok H cf sv' \<and> sv_db sv' = sv_db sv"
proof (cases "actor_subject_id a = None")
  case True
  then show ?thesis using assms by (auto simp: may_stream_def stream_gate_def check_def doneS_def split: if_splits)
next
  case False
  then show ?thesis using assms(2) stream_scope_Inr[OF assms(1), of a twin u sv'] by (auto simp: may_stream_def stream_gate_def)
qed

text \<open>A position of the stream is found again by its sequence.\<close>

lemma service_position_at:
  assumes "streamable H (sv_db sv)" "n \<le> length (stream (sv_db sv) twin)" "twin \<noteq> []"
  shows "service_position twin (int n) sv = (Inr (position_at twin (stream (sv_db sv) twin) n), sv)"
proof (cases n)
  case 0
  then show ?thesis using assms(3) by (simp add: service_position_def doneS_def make_position_def position_at_def last_hash_def)
next
  case (Suc k)
  let ?c = "stream (sv_db sv) twin"
  have k: "k < length ?c" using assms(2) Suc by simp
  note chain = ledger.chain_law[OF assms(1), of twin]
  have "filter (\<lambda>e. int k < sequence e \<and> sequence e \<le> int k + 1) ?c = [?c ! k]"
    using chain_slice[OF chain, where n = k and u = "int k + 1"] k by (simp add: nat_add_distrib take_Suc_conv_app_nth)
  then have "sqlite_load (sv_db sv) twin (int k) (Some (int k + 1)) (Some 1) = Inr [?c ! k]"
    using ledger.load_law[OF assms(1), of "int k" 1 twin "int k + 1"] by simp
  moreover have "sequence (?c ! k) = int k + 1" using chain_verify_nth(2)[OF chain k] .
  moreover have "hash_pattern (event_hash (?c ! k))"
    using ledger.names_law[OF assms(1), of twin] k by (simp add: names_chain_def)
  ultimately show ?thesis
    using Suc k assms(3)
    by (simp add: service_position_def readS_def andS_simp make_position_def position_at_Suc doneS_def add.commute)
qed

lemma stream_gate_ok:
  assumes "service_ok H cf sv" "may_stream H (sv_db sv) a twin"
  shows "\<exists>sv1. stream_gate H cf a twin sv = (Inr (), sv1) \<and> service_ok H cf sv1 \<and> sv_db sv1 = sv_db sv"
proof (cases "actor_subject_id a = None")
  case True
  then show ?thesis using assms by (simp add: may_stream_def stream_gate_def check_def doneS_def)
next
  case False
  then obtain s where s: "full_replay H (sv_db sv) twin None None = Inr s" "authorize_subject a (st_subject_id s) = Inr ()"
    using assms(2) by (auto simp: may_stream_def authorize_subject_iff)
  obtain r sv1 where st: "service_state H cf twin None None None sv = (r, sv1)" by (cases "service_state H cf twin None None None sv")
  have "r = Inr s" "service_ok H cf sv1" "sv_db sv1 = sv_db sv" using service_state_law[OF assms(1) st] s(1) by simp_all
  then show ?thesis
    using False s(2) st by (simp add: stream_gate_def stream_scope_def current_state_def andS_simp subject_scope_def doneS_def del: not_None_eq)
qed

lemma opens_at:
  assumes ok: "service_ok H cf sv" "hex_digest H" "may_stream H (sv_db sv) a twin" "negotiate limits max_in_flight = Inr agreed"
    and start: "\<And>sv1. sv_db sv1 = sv_db sv \<Longrightarrow> resume_start co now twin token sv1 = (Inr p, sv1)"
    and p: "n \<le> length (stream (sv_db sv) twin)" "p = position_at twin (stream (sv_db sv) twin) n"
  shows "\<exists>d sv'. open_state_stream H cf limits (Some co) now twin a token types include_projection max_in_flight sv
    = (Inr d, sv') \<and> ds_position d = p \<and> ds_acknowledged d = p"
proof -
  obtain sv1 where gate: "stream_gate H cf a twin sv = (Inr (), sv1)" "service_ok H cf sv1" "sv_db sv1 = sv_db sv"
    using stream_gate_ok[OF ok(1,3)] by blast
  have st: "streamable H (sv_db sv1)" using service_db_inv[OF gate(2)] ok(2) by (simp add: streamable_def)
  have "check_start (head (sv_db sv1)) (sqlite_load (sv_db sv1)) p = Inr (int (length (stream (sv_db sv1) twin)))"
    using ledger.check_start_ok[OF _ st, of n twin] p gate(3) by simp
  then obtain d env where "durable_open (head (sv_db sv1)) (sqlite_load (sv_db sv1)) p agreed types
      (AUTHORITATIVE # (if include_projection then [PROJECTION] else [])) (sv_env sv1) = (Inr d, env)"
      "ds_position d = p" "ds_acknowledged d = p"
    by (simp add: durable_open_def broker_subscribe_def)
  then show ?thesis
    using gate(1) start[OF gate(3)] ok(4) by (simp add: open_state_stream_def open_durable_def andS_simp doneS_def)
qed

text \<open>From the origin; and a twin that no event has bound to a subject is open to an actor of any scope.\<close>

lemma open_state_stream_starts:
  assumes "service_ok H cf sv" "hex_digest H" "may_stream H (sv_db sv) a twin" "negotiate limits max_in_flight = Inr agreed" "twin \<noteq> []"
  shows "ok (fst (open_state_stream H cf limits (Some co) now twin a None types include_projection max_in_flight sv))"
proof -
  have "resume_start co now twin None sv1 = (Inr (position_at twin (stream (sv_db sv) twin) 0), sv1)" for sv1
    using assms(5) by (simp add: resume_start_def doneS_def make_position_def position_at_def last_hash_def)
  from opens_at[OF assms(1-4) this, where n = 0 and types = types and include_projection = include_projection]
  show ?thesis by (auto simp: ok_iff)
qed

lemma unbound_twin_is_open:
  assumes "service_ok H cf sv" "hex_digest H" "negotiate limits max_in_flight = Inr agreed" "twin \<noteq> []"
    and "full_replay H (sv_db sv) twin None None = Inr s" "st_subject_id s = None" "actor_subject_id a = Some scope"
  shows "ok (fst (open_state_stream H cf limits (Some co) now twin a None types include_projection max_in_flight sv))"
  using assms by (intro open_state_stream_starts) (auto simp: may_stream_def)

context cursor_codec
begin

lemma resume_start_Inr:
  assumes "co = \<lparr>co_issue = issue, co_verify = read, co_bind = bind_chain\<rparr>" "resume_start co now twin token sv = (Inr p, sv')"
  shows "proper_position twin p \<and> sv' = sv \<and>
    (case token of None \<Rightarrow> sp_sequence p = 0
     | Some t \<Rightarrow> \<exists>c. read now t twin = Inr c \<and> dc_twin_id c = twin \<and> dc_sequence c = sp_sequence p \<and> bind_chain c p = Inr p)"
proof (cases token)
  case None
  then show ?thesis
    using assms(2) make_position_Inr[of twin 0 "[]" p] by (simp add: resume_start_def doneS_def)
next
  case (Some t)
  from assms(2)[unfolded resume_start_def Some option.case] obtain c sv1 where
    c: "doneS (co_verify co now t twin) sv = (Inr c, sv1)"
      "andS (service_position twin (dc_sequence c)) (\<lambda>p. doneS (co_bind co c p)) sv1 = (Inr p, sv')"
    by (rule current_stepE)
  from c(2) obtain q sv2 where q: "service_position twin (dc_sequence c) sv1 = (Inr q, sv2)" "doneS (co_bind co c q) sv2 = (Inr p, sv')"
    by (rule current_stepE)
  have "read now t twin = Inr c" "bind_chain c q = Inr p" "sv1 = sv" "sv' = sv2" using c(1) q(2) assms(1) by (auto simp: doneS_def)
  then show ?thesis
    using service_position_Inr[OF q(1)] bind_position[of c q p] read_twin[of now t twin c] Some by simp
qed

lemma open_state_stream_law:
  assumes co: "co = \<lparr>co_issue = issue, co_verify = read, co_bind = bind_chain\<rparr>"
    and opened: "open_state_stream H cf limits (Some co) now twin a token types include_projection max_in_flight sv = (Inr d, sv')"
    and ok: "service_ok H cf sv" "hex_digest H" "limits_ok limits"
  shows "may_stream H (sv_db sv) a twin \<and> service_ok H cf sv' \<and> sv_db sv' = sv_db sv
    \<and> sl_max_in_flight (ds_limits d) \<le> sl_max_in_flight limits
    \<and> (\<forall>ev. visible d ev \<longleftrightarrow> (types = [] \<or> event_type ev \<in> set types)
         \<and> (plane ev = AUTHORITATIVE \<or> include_projection \<and> plane ev = PROJECTION))
    \<and> (\<exists>n. stands H twin n (visible d) n n \<lparr>sw_db = sv_db sv', sw_env = sv_env sv', sw_sub = d, sw_emitted = []\<rparr>
         \<and> (case token of None \<Rightarrow> n = 0
            | Some t \<Rightarrow> \<exists>c. read now t twin = Inr c \<and> dc_sequence c = int n
                \<and> bind_chain c (position_at twin (stream (sv_db sv) twin) n) = Inr (position_at twin (stream (sv_db sv) twin) n)))"
proof -
  from opened[unfolded open_state_stream_def] obtain u sv1 where
    gate: "stream_gate H cf a twin sv = (Inr u, sv1)"
    and rest: "andS (resume_start co now twin token) (\<lambda>start. andS (doneS (negotiate limits max_in_flight)) (\<lambda>agreed.
         open_durable start agreed types (AUTHORITATIVE # (if include_projection then [PROJECTION] else [])))) sv1 = (Inr d, sv')"
    by (rule current_stepE) simp
  note g = stream_gate_Inr[OF ok(1) gate]
  from rest obtain p sv2 where p: "resume_start co now twin token sv1 = (Inr p, sv2)"
    and rest2: "andS (doneS (negotiate limits max_in_flight)) (\<lambda>agreed.
         open_durable p agreed types (AUTHORITATIVE # (if include_projection then [PROJECTION] else []))) sv2 = (Inr d, sv')"
    by (rule current_stepE)
  note r = resume_start_Inr[OF co p]
  from rest2 obtain agreed sv3 where n: "doneS (negotiate limits max_in_flight) sv2 = (Inr agreed, sv3)"
    and o: "open_durable p agreed types (AUTHORITATIVE # (if include_projection then [PROJECTION] else [])) sv3 = (Inr d, sv')"
    by (rule current_stepE)
  have neg: "negotiate limits max_in_flight = Inr agreed" "sv3 = sv1" using n r by (simp_all add: doneS_def)
  have agreed: "limits_ok agreed" "sl_max_in_flight agreed \<le> sl_max_in_flight limits" using negotiate_stricter[OF neg(1) ok(3)] by simp_all
  have db: "sv_db sv3 = sv_db sv" "service_ok H cf sv3" using g neg(2) by simp_all
  have "streamable H (sv_db sv3)" using service_db_inv[OF db(2)] ok(2) by (simp add: streamable_def)
  moreover have "1 \<le> sl_replay_page_size agreed" using agreed(1) by (simp add: limits_ok_def)
  ultimately obtain k where k: "p = position_at twin (stream (sv_db sv3) twin) k" "int k = sp_sequence p"
    "stands H twin k (visible d) k k \<lparr>sw_db = sv_db sv3, sw_env = sv_env sv', sw_sub = d, sw_emitted = []\<rparr>"
    "sv_db sv' = sv_db sv3" "ds_limits d = agreed" "ds_event_types d = (if types = [] then None else Some types)"
    "ds_planes d = Some (AUTHORITATIVE # (if include_projection then [PROJECTION] else []))"
    using open_durable_stands[OF o, of H twin] r by auto
  have "visible d ev \<longleftrightarrow> (types = [] \<or> event_type ev \<in> set types)
         \<and> (plane ev = AUTHORITATIVE \<or> include_projection \<and> plane ev = PROJECTION)" for ev
    using k(6,7) by (auto simp: visible_def)
  moreover have "service_ok H cf sv'"
    using o db(2) by (auto simp: open_durable_def service_ok_def split: prod.splits)
  moreover have "case token of None \<Rightarrow> k = 0
            | Some t \<Rightarrow> \<exists>c. read now t twin = Inr c \<and> dc_sequence c = int k
                \<and> bind_chain c (position_at twin (stream (sv_db sv) twin) k) = Inr (position_at twin (stream (sv_db sv) twin) k)"
    using r k(1,2) db(1) by (auto split: option.splits)
  ultimately show ?thesis using g k(3,4,5) agreed(2) db(1) by auto
qed

text \<open>The token of a position of the stream opens the stream at that position.\<close>

lemma open_state_stream_resumes:
  assumes co: "co = \<lparr>co_issue = issue, co_verify = read, co_bind = bind_chain\<rparr>" and token: "usable now later"
    and ok: "service_ok H cf sv" "hex_digest H" "may_stream H (sv_db sv) a twin" "negotiate limits max_in_flight = Inr agreed"
    and p: "n \<le> length (stream (sv_db sv) twin)" "twin \<noteq> []" "p = position_at twin (stream (sv_db sv) twin) n"
  shows "\<exists>d sv'. open_state_stream H cf limits (Some co) later twin a (Some (issue now p)) types include_projection max_in_flight sv
    = (Inr d, sv') \<and> ds_position d = p \<and> ds_acknowledged d = p"
proof (rule opens_at[OF ok _ p(1,3)])
  fix sv1 :: service
  assume db: "sv_db sv1 = sv_db sv"
  have st: "streamable H (sv_db sv1)" using service_db_inv[OF ok(1)] ok(2) db by (simp add: streamable_def)
  have twin: "sp_twin_id p = twin" "sp_sequence p = int n" using p(3) by (simp_all add: position_at_def)
  obtain c where c: "read later (issue now p) twin = Inr c" "dc_sequence c = int n" "bind_chain c p = Inr p"
    using issued_read[OF token, of p] twin by auto
  have "service_position twin (int n) sv1 = (Inr p, sv1)" using service_position_at[OF st] p db by simp
  then show "resume_start co later twin (Some (issue now p)) sv1 = (Inr p, sv1)"
    using c co by (simp add: resume_start_def andS_simp doneS_def)
qed

end

end
