(* ===== verification/K2_Simulation.thy ===== *)
theory K2_Simulation
  imports K2_Commands_Laws
begin

text \<open>
  The simulation plane (\<open>src/src/argo_dt/simulation.py\<close>): branches forked from a state of a twin, the
  events they collect, and the review proposal they end in; and \<open>DigitalTwinService.fork_simulation\<close>.
  The fresh branch identifier is an argument. Shown: a branch holds simulation events of its own twin
  and nothing else, its predicted state is the left-to-right override of their predictions, and neither
  the twin, nor the ledger, nor the service takes any of its events.
\<close>

record branch =
  br_branch_id :: string
  br_twin_id :: string
  br_base_sequence :: int
  br_scenario :: string
  br_events :: "event list"
  br_predicted_state :: pydict

text \<open>\<open>self.predicted_state.update(changes)\<close>, where \<open>changes\<close> is a mapping.\<close>

definition dict_update :: "pydict \<Rightarrow> pydict \<Rightarrow> pydict" where
  "dict_update d changes = foldl (\<lambda>acc (k, v). dict_set k v acc) d changes"

definition prediction_of :: "event \<Rightarrow> pydict" where
  "prediction_of ev = (case pget (payload ev) ''predicted_state'' of PDict d \<Rightarrow> d | _ \<Rightarrow> [])"

definition branch_append :: "event \<Rightarrow> actor \<Rightarrow> branch \<Rightarrow> branch result" where
  "branch_append ev a b =
     bindE (authorize ev a) (\<lambda>_.
     if plane ev \<noteq> SIMULATION then violation ''simulation branch accepts simulation-plane events only''
     else if twin_id ev \<noteq> br_twin_id b then violation ''simulation event belongs to a different twin''
     else Inr (b\<lparr>br_events := br_events b @ [ev],
                 br_predicted_state := dict_update (br_predicted_state b) (prediction_of ev)\<rparr>))"

definition fork :: "string \<Rightarrow> twin_state \<Rightarrow> string \<Rightarrow> branch result" where
  "fork fresh s scenario =
     (if py_strip scenario = [] then violation ''simulation scenario is required''
      else Inr \<lparr>br_branch_id = fresh, br_twin_id = st_twin_id s, br_base_sequence = st_sequence s,
                br_scenario = scenario, br_events = [], br_predicted_state = []\<rparr>)"

definition proposal_payload :: "branch \<Rightarrow> pydict" where
  "proposal_payload b =
     [(''base_sequence'', PInt (br_base_sequence b)), (''branch_id'', PStr (br_branch_id b)),
      (''may_not_be_used_as_evidence'', PBool True), (''predicted_state'', PDict (br_predicted_state b)),
      (''requires_human_review'', PBool True), (''scenario'', PStr (br_scenario b)),
      (''simulation_event_ids'', str_list (map event_id (br_events b)))]"

definition fork_simulation :: "(string \<Rightarrow> string) \<Rightarrow> service_config \<Rightarrow> string \<Rightarrow> string \<Rightarrow> string \<Rightarrow> actor \<Rightarrow> branch step" where
  "fork_simulation H cf fresh twin scenario a =
     andS (intent ''ScenarioStatePredicted'' SIMULATION_SERVICE a) (\<lambda>_.
     andS (current_state H cf twin) (\<lambda>s.
     andS (subject_scope a (st_subject_id s)) (\<lambda>_.
     doneS (fork fresh s scenario))))"

section \<open>A branch collects simulation events of its twin\<close>

inductive branching :: "branch \<Rightarrow> branch \<Rightarrow> bool" for b where
  branch_refl: "branching b b"
| branch_step: "branching b c \<Longrightarrow> branch_append ev a c = Inr c' \<Longrightarrow> branching b c'"

inductive_cases branch_stepE: "branching b c"

lemma branch_append_Inr:
  assumes "branch_append ev a b = Inr b'"
  shows "authorize ev a = Inr ()" "plane ev = SIMULATION" "twin_id ev = br_twin_id b" "br_events b' = br_events b @ [ev]"
    "br_predicted_state b' = dict_update (br_predicted_state b) (prediction_of ev)"
    "br_branch_id b' = br_branch_id b" "br_twin_id b' = br_twin_id b" "br_base_sequence b' = br_base_sequence b"
    "br_scenario b' = br_scenario b"
  using assms by (auto simp: branch_append_def bindE_Inr_iff violation_def split: if_splits)

definition simulated :: "string \<Rightarrow> event \<Rightarrow> bool" where
  "simulated twin ev \<longleftrightarrow> plane ev = SIMULATION \<and> twin_id ev = twin \<and> owns (producer_role ev) (event_type ev)"

lemma branching_law:
  assumes "branching b c"
  shows "\<exists>evs. br_events c = br_events b @ evs \<and> list_all (simulated (br_twin_id b)) evs
    \<and> br_predicted_state c = foldl dict_update (br_predicted_state b) (map prediction_of evs)
    \<and> br_branch_id c = br_branch_id b \<and> br_twin_id c = br_twin_id b \<and> br_base_sequence c = br_base_sequence b
    \<and> br_scenario c = br_scenario b"
  using assms
proof (induction rule: branching.induct)
  case (branch_step c ev a c')
  then obtain evs where evs: "br_events c = br_events b @ evs" "list_all (simulated (br_twin_id b)) evs"
    "br_predicted_state c = foldl dict_update (br_predicted_state b) (map prediction_of evs)"
    "br_branch_id c = br_branch_id b" "br_twin_id c = br_twin_id b" "br_base_sequence c = br_base_sequence b"
    "br_scenario c = br_scenario b" by blast
  note s = branch_append_Inr[OF branch_step.hyps(2)]
  have "simulated (br_twin_id b) ev" using s(1-3) evs(5) by (simp add: simulated_def authorize_allow)
  then show ?case using s evs by (intro exI[of _ "evs @ [ev]"]) simp
qed simp

text \<open>The prediction of a key is that of the last event that predicts it.\<close>

lemma map_of_dict_update: "distinct (map fst e) \<Longrightarrow> map_of (dict_update d e) = map_of d ++ map_of e"
proof (induction e arbitrary: d)
  case (Cons kv e)
  obtain k v where kv: "kv = (k, v)" by (cases kv)
  then have "map_of (dict_update d (kv # e)) = map_of (dict_set k v d) ++ map_of e"
    using Cons by (simp add: dict_update_def)
  moreover have "map_of e k = None" using Cons.prems kv by (simp add: map_of_eq_None_iff)
  ultimately show ?case using kv by (auto simp: fun_eq_iff map_add_def dict_simps split: option.splits)
qed (simp add: dict_update_def)

section \<open>Nothing authoritative takes a simulation event\<close>

lemma simulation_refused:
  assumes "plane ev = SIMULATION"
  shows "\<not> ok (append H now ev n db)" "\<not> ok (apply_event s ev)" "\<not> ok (fst (service_append H cf rd ev a n sv))"
    "sv_db (snd (service_append H cf rd ev a n sv)) = sv_db sv"
  using assms
  by (auto simp: service_append_def andS_simp doneS_def violation_def ok_iff bindE_Inr_iff append_def apply_event_def require_def Let_def
      andS_def split: sum.splits prod.splits option.splits if_splits)

section \<open>Forks\<close>

text \<open>A fork is allowed by role and scope, changes nothing, and starts at the head of the replayed stream.\<close>

lemma fork_simulation_law:
  assumes "service_ok H cf sv" "fork_simulation H cf fresh twin scenario a sv = (Inr b, sv')"
  shows "SIMULATION_SERVICE \<in> roles a \<and> service_ok H cf sv' \<and> sv_db sv' = sv_db sv
    \<and> (\<exists>s. full_replay H (sv_db sv) twin None None = Inr s \<and> authorize_subject a (st_subject_id s) = Inr ()
        \<and> b = \<lparr>br_branch_id = fresh, br_twin_id = st_twin_id s, br_base_sequence = st_sequence s, br_scenario = scenario,
              br_events = [], br_predicted_state = []\<rparr>)"
proof -
  obtain s sv1 where st: "service_state H cf twin None None None sv = (Inr s, sv1)"
    and c: "authorize_intent ''ScenarioStatePredicted'' SIMULATION_SERVICE a = Inr ()" "authorize_subject a (st_subject_id s) = Inr ()"
      "fork fresh s scenario = Inr b" "sv' = sv1"
    using assms(2) unfolding fork_simulation_def current_state_def
    by (auto dest!: current_step simp: intent_def subject_scope_def doneS_def)
  have "full_replay H (sv_db sv) twin None None = Inr s" "service_ok H cf sv1" "sv_db sv1 = sv_db sv"
    using service_state_law[OF assms(1) st] by (simp_all add: bindE_def split: sum.splits)
  then show ?thesis using c by (auto simp: fork_def authorize_intent_iff violation_def split: if_splits)
qed

lemma branch_of_fork:
  assumes "service_ok H cf sv" "fork_simulation H cf fresh twin scenario a sv = (Inr b, sv')" "branching b c"
  shows "br_twin_id c = twin \<and> br_base_sequence c = fst (head (sv_db sv) twin) \<and> list_all (simulated twin) (br_events c)
    \<and> br_predicted_state c = foldl dict_update [] (map prediction_of (br_events c))"
proof -
  obtain s where s: "full_replay H (sv_db sv) twin None None = Inr s"
    "b = \<lparr>br_branch_id = fresh, br_twin_id = st_twin_id s, br_base_sequence = st_sequence s, br_scenario = scenario,
              br_events = [], br_predicted_state = []\<rparr>"
    using fork_simulation_law[OF assms(1,2)] by blast
  have "st_twin_id s = twin" "st_sequence s = fst (head (sv_db sv) twin)"
    using replay_cached[OF s(1) service_db_inv[OF assms(1)]] by (simp_all flip: prod.collapse add: prod_eq_iff)
  then show ?thesis using branching_law[OF assms(3)] s(2) by auto
qed

end
