(* ===== verification/K2_Epistemic.thy ===== *)
theory K2_Epistemic
  imports K2_Commands_Laws
begin

text \<open>
  Lineage traces and gap-directed elicitation (\<open>src/src/argo_dt/epistemic.py\<close>), with the calls of
  \<open>DigitalTwinService\<close> that lead to them. \<open>uuid5\<close> stands for \<open>str(uuid.uuid5(uuid.NAMESPACE_URL, text))\<close>. The
  gaps of a plan are first listed (\<open>ask\<close>: kind, targets, rationale, prompt and the rest of the identity)
  and then given their identifiers, in the same order.
\<close>

section \<open>Lineage\<close>

datatype node_kind = EVIDENCE_NODE | ENTITY_NODE | CLAIM_NODE | CONTRADICTION_NODE | CORRECTION_NODE | PROJECTION_NODE

fun node_kind_text :: "node_kind \<Rightarrow> string" where
  "node_kind_text EVIDENCE_NODE = ''evidence''"
| "node_kind_text ENTITY_NODE = ''entity''"
| "node_kind_text CLAIM_NODE = ''claim''"
| "node_kind_text CONTRADICTION_NODE = ''contradiction''"
| "node_kind_text CORRECTION_NODE = ''correction''"
| "node_kind_text PROJECTION_NODE = ''projection''"

definition all_node_kinds :: "node_kind list" where
  "all_node_kinds = [EVIDENCE_NODE, ENTITY_NODE, CLAIM_NODE, CONTRADICTION_NODE, CORRECTION_NODE, PROJECTION_NODE]"

definition node_kind_of :: "string \<Rightarrow> node_kind result" where
  "node_kind_of = enum_of node_kind_text all_node_kinds"

record lineage_node =
  ln_kind :: node_kind
  ln_node_id :: string

definition make_node :: "node_kind \<Rightarrow> string \<Rightarrow> lineage_node result" where
  "make_node kind ident =
     (if ident = [] then violation ''lineage node_id is required'' else Inr \<lparr>ln_kind = kind, ln_node_id = ident\<rparr>)"

definition node_of :: "node \<Rightarrow> lineage_node result" where
  "node_of n = bindE (node_kind_of (fst n)) (\<lambda>kind. make_node kind (snd n))"

record lineage_trace =
  lt_twin_id :: string
  lt_root :: lineage_node
  lt_ancestors :: "lineage_node list"
  lt_dependents :: "lineage_node list"
  lt_groups :: "(string \<times> string list) list"

definition group_of :: "twin_state \<Rightarrow> string \<Rightarrow> string" where
  "group_of s e = (case map_of (st_evidence s) e of None \<Rightarrow> [] | Some rec \<Rightarrow> py_str (get_or rec ''independence_group'' (PStr [])))"

text \<open>\<open>grouped.setdefault(group, []).append(evidence_id)\<close>, for evidence that has a group\<close>

definition group_evidence :: "twin_state \<Rightarrow> string list dict \<Rightarrow> string \<Rightarrow> string list dict" where
  "group_evidence s grouped e =
     (let g = group_of s e in
      if g = [] then grouped
      else dict_set g (case map_of grouped g of None \<Rightarrow> [e] | Some es \<Rightarrow> es @ [e]) grouped)"

definition trace_evidence :: "lineage_node \<Rightarrow> lineage_node list \<Rightarrow> string list" where
  "trace_evidence origin ancs =
     sort (remdups (map ln_node_id (filter (\<lambda>n. ln_kind n = EVIDENCE_NODE) ancs)
       @ (if ln_kind origin = EVIDENCE_NODE then [ln_node_id origin] else [])))"

definition trace :: "db \<Rightarrow> twin_state \<Rightarrow> lineage_node \<Rightarrow> lineage_trace result" where
  "trace db s origin =
     bindE (ancestors db (st_twin_id s) (node_kind_text (ln_kind origin)) (ln_node_id origin) True (Some (st_sequence s))) (\<lambda>ups.
     bindE (mapE node_of ups) (\<lambda>ancs.
     bindE (dependents db (st_twin_id s) (node_kind_text (ln_kind origin)) (ln_node_id origin) True (Some (st_sequence s))) (\<lambda>downs.
     bindE (mapE node_of downs) (\<lambda>deps.
     Inr \<lparr>lt_twin_id = st_twin_id s, lt_root = origin, lt_ancestors = ancs, lt_dependents = deps,
          lt_groups = foldl (group_evidence s) [] (trace_evidence origin ancs)\<rparr>))))"

definition node_dict :: "lineage_node \<Rightarrow> pyval" where
  "node_dict n = PDict [(''kind'', PStr (node_kind_text (ln_kind n))), (''node_id'', PStr (ln_node_id n))]"

definition trace_dict :: "lineage_trace \<Rightarrow> pydict" where
  "trace_dict t =
     [(''ancestors'', PList (map node_dict (lt_ancestors t))), (''dependents'', PList (map node_dict (lt_dependents t))),
      (''evidence_groups'', PList (map (\<lambda>(g, es). PDict [(''evidence_ids'', str_list es), (''independence_group'', PStr g)]) (lt_groups t))),
      (''root'', node_dict (lt_root t)), (''schema_version'', PStr ''argo.dt.lineage-trace/v1''), (''twin_id'', PStr (lt_twin_id t))]"

definition trace_lineage ::
  "(string \<Rightarrow> string) \<Rightarrow> service_config \<Rightarrow> string \<Rightarrow> node_kind \<Rightarrow> string \<Rightarrow> datetime option \<Rightarrow> lineage_trace step" where
  "trace_lineage H cf twin kind ident as_of =
     andS (service_state H cf twin None None as_of) (\<lambda>s.
     andS (doneS (make_node kind ident)) (\<lambda>origin.
     readS (\<lambda>db. trace db s origin)))"

section \<open>Elicitation plans\<close>

datatype gap_kind = MISSING_CLAIM | INDEPENDENCE_DEFICIT | CONTESTED_CLAIM | STALE_LINEAGE | UNRESOLVED_CONTRADICTION

fun gap_kind_text :: "gap_kind \<Rightarrow> string" where
  "gap_kind_text MISSING_CLAIM = ''missing_claim''"
| "gap_kind_text INDEPENDENCE_DEFICIT = ''independence_deficit''"
| "gap_kind_text CONTESTED_CLAIM = ''contested_claim''"
| "gap_kind_text STALE_LINEAGE = ''stale_lineage''"
| "gap_kind_text UNRESOLVED_CONTRADICTION = ''unresolved_contradiction''"

record epistemic_gap =
  gp_gap_id :: string
  gp_kind :: gap_kind
  gp_target_ids :: "string list"
  gp_rationale :: string

record elicitation_question =
  qn_question_id :: string
  qn_gap_id :: string
  qn_prompt :: string
  qn_requested_relation :: string

record elicitation_plan =
  ep_plan_id :: string
  ep_twin_id :: string
  ep_source_sequence :: int
  ep_objective :: string
  ep_claim_ids :: "string list"
  ep_gaps :: "epistemic_gap list"
  ep_questions :: "elicitation_question list"

definition plan_question :: "elicitation_plan \<Rightarrow> string \<Rightarrow> elicitation_question result" where
  "plan_question p ident =
     (case find (\<lambda>q. qn_question_id q = ident) (ep_questions p) of
        Some q \<Rightarrow> Inr q
      | None \<Rightarrow> violation ''question does not belong to elicitation plan'')"

definition gap_dict :: "epistemic_gap \<Rightarrow> pyval" where
  "gap_dict g = PDict [(''gap_id'', PStr (gp_gap_id g)), (''kind'', PStr (gap_kind_text (gp_kind g))),
     (''rationale'', PStr (gp_rationale g)), (''target_ids'', str_list (gp_target_ids g))]"

definition question_dict :: "elicitation_question \<Rightarrow> pyval" where
  "question_dict q = PDict [(''gap_id'', PStr (qn_gap_id q)), (''prompt'', PStr (qn_prompt q)),
     (''question_id'', PStr (qn_question_id q)), (''requested_relation'', PStr (qn_requested_relation q))]"

definition plan_dict :: "elicitation_plan \<Rightarrow> pydict" where
  "plan_dict p =
     [(''claim_ids'', str_list (ep_claim_ids p)), (''gaps'', PList (map gap_dict (ep_gaps p))), (''objective'', PStr (ep_objective p)),
      (''plan_id'', PStr (ep_plan_id p)), (''questions'', PList (map question_dict (ep_questions p))),
      (''schema_version'', PStr ''argo.dt.elicitation-plan/v1''), (''source_sequence'', PInt (ep_source_sequence p)),
      (''twin_id'', PStr (ep_twin_id p))]"

record elicitation_response =
  rs_response_id :: string
  rs_question_id :: string
  rs_answer :: string
  rs_sensitivity :: sensitivity
  rs_answered_at :: datetime

definition max_answer_bytes :: nat where
  "max_answer_bytes = 1024 * 1024"

definition make_response :: "elicitation_response \<Rightarrow> elicitation_response result" where
  "make_response r =
     (if rs_response_id r = [] \<or> rs_question_id r = [] \<or> py_strip (rs_answer r) = []
      then violation ''elicitation response identity and answer are required''
      else if max_answer_bytes < utf8_len (rs_answer r) then violation ''elicitation answer exceeds the 1 MiB limit''
      else if naive (rs_answered_at r) then violation ''elicitation answered_at must be timezone-aware''
      else Inr r)"

text \<open>\<open>GapDirectedElicitor.__init__\<close>: the number of independent groups a claim needs.\<close>

definition make_elicitor :: "int \<Rightarrow> int result" where
  "make_elicitor minimum =
     (if minimum < 1 then Inl (ValueError ''minimum_independence_groups must be positive'') else Inr minimum)"

definition stable_id :: "(string \<Rightarrow> string) \<Rightarrow> string \<Rightarrow> pyval list \<Rightarrow> string result" where
  "stable_id uuid5 kind parts =
     bindE (canonical_json (PList (PStr kind # parts))) (\<lambda>material. Inr (kind @ ''-'' @ uuid5 material))"

record ask =
  ak_kind :: gap_kind
  ak_targets :: "string list"
  ak_rationale :: string
  ak_prompt :: string
  ak_identity :: "string list"

definition add_gap ::
  "(string \<Rightarrow> string) \<Rightarrow> twin_state \<Rightarrow> string \<Rightarrow> ask \<Rightarrow> (epistemic_gap \<times> elicitation_question) result" where
  "add_gap uuid5 s objective k =
     bindE (stable_id uuid5 ''gap'' ([PStr (st_twin_id s), PInt (st_sequence s), PStr objective, PStr (gap_kind_text (ak_kind k))]
        @ map PStr (ak_targets k) @ map PStr (ak_identity k))) (\<lambda>gap_id.
     bindE (stable_id uuid5 ''question'' [PStr gap_id]) (\<lambda>question_id.
     Inr (\<lparr>gp_gap_id = gap_id, gp_kind = ak_kind k, gp_target_ids = ak_targets k, gp_rationale = ak_rationale k\<rparr>,
          \<lparr>qn_question_id = question_id, qn_gap_id = gap_id, qn_prompt = ak_prompt k,
           qn_requested_relation = ''supports_or_refutes''\<rparr>)))"

section \<open>The gaps of a state\<close>

text \<open>The independence groups that support a claim.\<close>

definition claim_groups :: "pydict \<Rightarrow> string list result" where
  "claim_groups claim =
     bindE (py_iter (get_or claim ''provenance'' (PList []))) (\<lambda>refs.
     Inr (remdups (map (\<lambda>d. py_str (get_or d ''independence_group'' (PStr [])))
       (filter (\<lambda>d. py_truthy (pget d ''independence_group'')) (map dict_val (filter is_dict refs))))))"

definition missing_ask :: "string \<Rightarrow> ask" where
  "missing_ask objective = \<lparr>ak_kind = MISSING_CLAIM, ak_targets = [], ak_rationale = ''No claim currently addresses the objective.'',
     ak_prompt = ''What firsthand observation or document would help establish: '' @ objective @ ''?'', ak_identity = []\<rparr>"

definition deficit_ask :: "int \<Rightarrow> string \<Rightarrow> string \<Rightarrow> nat \<Rightarrow> ask" where
  "deficit_ask minimum c statement n = \<lparr>ak_kind = INDEPENDENCE_DEFICIT, ak_targets = [c],
     ak_rationale = ''Claim has '' @ show_int (int n) @ '' independent group(s); '' @ show_int minimum @ '' required.'',
     ak_prompt = ''Provide an independent observation or source that supports or refutes: '' @ statement, ak_identity = []\<rparr>"

definition contested_ask :: "string \<Rightarrow> string \<Rightarrow> ask" where
  "contested_ask c statement = \<lparr>ak_kind = CONTESTED_CLAIM, ak_targets = [c], ak_rationale = ''The claim remains contested.'',
     ak_prompt = ''What evidence would distinguish the competing interpretations of: '' @ statement @ ''?'', ak_identity = []\<rparr>"

definition stale_ask :: "string \<Rightarrow> string \<Rightarrow> ask" where
  "stale_ask c statement = \<lparr>ak_kind = STALE_LINEAGE, ak_targets = [c],
     ak_rationale = ''The claim depends on deleted or superseded evidence.'',
     ak_prompt = ''Can you provide current replacement evidence for: '' @ statement @ ''?'', ak_identity = []\<rparr>"

definition contradiction_ask :: "string \<Rightarrow> string list \<Rightarrow> ask" where
  "contradiction_ask k targets = \<lparr>ak_kind = UNRESOLVED_CONTRADICTION, ak_targets = targets,
     ak_rationale = ''Competing claims have not been adjudicated.'',
     ak_prompt = ''What dated, firsthand, or independently sourced evidence resolves this contradiction?'', ak_identity = [k]\<rparr>"

definition claim_asks :: "int \<Rightarrow> twin_state \<Rightarrow> string \<Rightarrow> ask list result" where
  "claim_asks minimum s c =
     (case map_of (st_claims s) c of
       None \<Rightarrow> Inl (KeyError c)
     | Some claim \<Rightarrow>
         bindE (claim_groups claim) (\<lambda>groups.
         let statement = py_str (get_or claim ''statement'' (PStr c)) in
         Inr ((if int (length groups) < minimum then [deficit_ask minimum c statement (length groups)] else [])
           @ (if c \<in> st_contested_claim_ids s then [contested_ask c statement] else [])
           @ (if c \<in> st_stale_claim_ids s then [stale_ask c statement] else []))))"

text \<open>An unresolved contradiction, unless claims were asked for and it touches none of them.\<close>

definition contradiction_asks :: "twin_state \<Rightarrow> string list option \<Rightarrow> string list \<Rightarrow> string \<times> pydict \<Rightarrow> ask list result" where
  "contradiction_asks s claim_ids selected kr =
     (if fst kr \<in> st_resolved_contradiction_ids s then Inr []
      else bindE (text_list (get_or (snd kr) ''claim_ids'' (PList []))) (\<lambda>ids.
        let targets = sort ids in
        if claim_ids \<noteq> None \<and> set targets \<inter> set selected = {} then Inr []
        else Inr [contradiction_ask (fst kr) targets]))"

definition selected_claims :: "twin_state \<Rightarrow> string list option \<Rightarrow> string list" where
  "selected_claims s claim_ids = (case claim_ids of None \<Rightarrow> dict_keys (st_claims s) | Some cs \<Rightarrow> sort (remdups cs))"

definition asks :: "int \<Rightarrow> twin_state \<Rightarrow> string \<Rightarrow> string list option \<Rightarrow> ask list result" where
  "asks minimum s objective claim_ids =
     (let selected = selected_claims s claim_ids in
     bindE (mapE (claim_asks minimum s) selected) (\<lambda>on_claims.
     bindE (mapE (contradiction_asks s claim_ids selected) (st_contradictions s)) (\<lambda>on_contradictions.
     Inr ((if selected = [] then [missing_ask objective] else []) @ concat on_claims @ concat on_contradictions))))"

definition make_plan ::
  "(string \<Rightarrow> string) \<Rightarrow> int \<Rightarrow> twin_state \<Rightarrow> string \<Rightarrow> string list option \<Rightarrow> elicitation_plan result" where
  "make_plan uuid5 minimum s objective claim_ids =
     (let selected = selected_claims s claim_ids in
      if py_strip objective = [] then violation ''elicitation objective is required''
      else if \<not> list_all (dict_has (st_claims s)) selected then violation ''elicitation target references an unknown claim''
      else
        bindE (asks minimum s objective claim_ids) (\<lambda>ks.
        bindE (mapE (add_gap uuid5 s objective) ks) (\<lambda>found.
        bindE (stable_id uuid5 ''plan'' ([PStr (st_twin_id s), PInt (st_sequence s), PStr objective, PInt minimum]
          @ map PStr selected)) (\<lambda>plan_id.
        Inr \<lparr>ep_plan_id = plan_id, ep_twin_id = st_twin_id s, ep_source_sequence = st_sequence s, ep_objective = objective,
             ep_claim_ids = selected, ep_gaps = map fst found, ep_questions = map snd found\<rparr>))))"

definition verify_plan :: "(string \<Rightarrow> string) \<Rightarrow> int \<Rightarrow> twin_state \<Rightarrow> elicitation_plan \<Rightarrow> unit result" where
  "verify_plan uuid5 minimum s p =
     (if st_twin_id s \<noteq> ep_twin_id p \<or> st_sequence s \<noteq> ep_source_sequence p
      then violation ''elicitation plan source state is unavailable''
      else bindE (make_plan uuid5 minimum s (ep_objective p) (Some (ep_claim_ids p))) (\<lambda>expected.
        if expected \<noteq> p then violation ''elicitation plan authenticity check failed'' else Inr ()))"

definition plan_elicitation ::
  "(string \<Rightarrow> string) \<Rightarrow> (string \<Rightarrow> string) \<Rightarrow> service_config \<Rightarrow> string \<Rightarrow> string \<Rightarrow> string list option \<Rightarrow> elicitation_plan step" where
  "plan_elicitation H uuid5 cf twin objective claim_ids =
     andS (current_state H cf twin) (\<lambda>s. doneS (make_plan uuid5 2 s objective claim_ids))"

end
