(* ===== verification/K2_Epistemic_Laws.thy ===== *)
theory K2_Epistemic_Laws
  imports K2_Epistemic
begin

text \<open>
  Laws of lineage traces and elicitation: a trace is reversible and groups exactly the evidence behind
  its origin; a plan asks about exactly the gaps of the state, one question for each; and \<open>verify_plan\<close>
  accepts exactly the plans that \<open>make_plan\<close> makes of that state.
\<close>

section \<open>Traces\<close>

lemma node_kind_of_text [simp]: "node_kind_of (node_kind_text k) = Inr k"
  by (cases k) (simp_all add: node_kind_of_def enum_of_def all_node_kinds_def)

lemma node_kind_in_kinds [simp]: "node_kind_text k \<in> set lineage_kinds"
  by (cases k) (simp_all add: lineage_kinds_def)

lemma enum_of_Inr: "enum_of f xs t = Inr x \<Longrightarrow> f x = t \<and> x \<in> set xs"
  by (auto simp: enum_of_def find_Some_iff split: option.splits)

definition node_pair :: "lineage_node \<Rightarrow> node" where
  "node_pair n = (node_kind_text (ln_kind n), ln_node_id n)"

lemma node_of_Inr: "node_of p = Inr n \<Longrightarrow> node_pair n = p \<and> ln_node_id n \<noteq> []"
  by (auto simp: node_of_def make_node_def violation_def node_pair_def node_kind_of_def bindE_Inr_iff dest!: enum_of_Inr split: if_splits
      intro: prod_eqI)

lemma nodes_of_Inr: "mapE node_of ps = Inr ns \<Longrightarrow> map node_pair ns = ps"
  by (induction ps arbitrary: ns) (auto simp: bindE_Inr_iff dest: node_of_Inr)

lemma node_pair_inject: "node_pair m = node_pair n \<longleftrightarrow> m = n"
proof
  assume e: "node_pair m = node_pair n"
  then have "node_kind_of (node_kind_text (ln_kind m)) = node_kind_of (node_kind_text (ln_kind n))" by (simp add: node_pair_def)
  then show "m = n" using e by (simp add: node_pair_def)
qed simp

lemma trace_Inr:
  assumes "trace db s origin = Inr t"
  shows "ancestors db (st_twin_id s) (fst (node_pair origin)) (snd (node_pair origin)) True (Some (st_sequence s)) = Inr (map node_pair (lt_ancestors t))"
    "dependents db (st_twin_id s) (fst (node_pair origin)) (snd (node_pair origin)) True (Some (st_sequence s)) = Inr (map node_pair (lt_dependents t))"
    "lt_root t = origin" "lt_twin_id t = st_twin_id s"
    "lt_groups t = foldl (group_evidence s) [] (trace_evidence origin (lt_ancestors t))"
  using assms by (auto simp: trace_def bindE_Inr_iff node_pair_def dest!: nodes_of_Inr)

text \<open>Traces are reversible: a node is an ancestor of another exactly when that one depends on it.\<close>

lemma trace_reversible:
  assumes "trace db s a = Inr t" "trace db s b = Inr u"
  shows "b \<in> set (lt_dependents t) \<longleftrightarrow> a \<in> set (lt_ancestors u)"
proof -
  have "b \<in> set (lt_dependents t) \<longleftrightarrow> node_pair b \<in> set (map node_pair (lt_dependents t))"
    "a \<in> set (lt_ancestors u) \<longleftrightarrow> node_pair a \<in> set (map node_pair (lt_ancestors u))"
    by (auto simp: node_pair_inject)
  moreover have "node_pair b \<in> set (map node_pair (lt_dependents t)) \<longleftrightarrow> node_pair a \<in> set (map node_pair (lt_ancestors u))"
    using dependents_iff[OF trace_Inr(2)[OF assms(1)], of "node_pair b"] ancestors_iff[OF trace_Inr(1)[OF assms(2)], of "node_pair a"]
    by simp
  ultimately show ?thesis by simp
qed

section \<open>Evidence groups\<close>

definition grouped_ok :: "twin_state \<Rightarrow> string list \<Rightarrow> string list dict \<Rightarrow> bool" where
  "grouped_ok s es d \<longleftrightarrow> wf_dict d
     \<and> (\<forall>g. map_of d g = (let xs = filter (\<lambda>e. group_of s e = g) es in if g = [] \<or> xs = [] then None else Some xs))"

lemma group_evidence_ok: "grouped_ok s es d \<Longrightarrow> grouped_ok s (es @ [e]) (group_evidence s d e)"
  by (auto simp: grouped_ok_def group_evidence_def Let_def split: if_splits)

lemma groups_ok: "grouped_ok s es (foldl (group_evidence s) [] es)"
proof (induction es rule: rev_induct)
  case (snoc e es)
  from group_evidence_ok[OF this] show ?case by simp
qed (simp add: grouped_ok_def Let_def)

lemma set_trace_evidence:
  "set (trace_evidence origin ancs) = {e. \<exists>n \<in> insert origin (set ancs). ln_kind n = EVIDENCE_NODE \<and> ln_node_id n = e}"
  "sorted (trace_evidence origin ancs)" "distinct (trace_evidence origin ancs)"
  by (auto simp: trace_evidence_def)

text \<open>The groups are exactly the groups of the evidence behind the origin, each with its evidence in order.\<close>

lemma trace_groups:
  assumes "trace db s origin = Inr t"
  shows "map_of (lt_groups t) g = Some es \<longleftrightarrow>
      g \<noteq> [] \<and> es \<noteq> [] \<and> es = filter (\<lambda>e. group_of s e = g) (trace_evidence origin (lt_ancestors t))"
    "wf_dict (lt_groups t)"
  using groups_ok[of s "trace_evidence origin (lt_ancestors t)"] trace_Inr(5)[OF assms]
  by (auto simp: grouped_ok_def Let_def)

section \<open>Identifiers\<close>

lemma stable_id_Inr: "list_all finite_floats parts \<Longrightarrow> \<exists>i. stable_id uuid5 kind parts = Inr i"
  by (simp add: stable_id_def canonical_json_def del: dumps.simps)

lemma add_gap_total: "\<exists>g q. add_gap uuid5 s objective k = Inr (g, q) \<and> gp_kind g = ak_kind k \<and> gp_target_ids g = ak_targets k
    \<and> gp_rationale g = ak_rationale k \<and> qn_gap_id q = gp_gap_id g \<and> qn_prompt q = ak_prompt k"
proof -
  let ?parts = "[PStr (st_twin_id s), PInt (st_sequence s), PStr objective, PStr (gap_kind_text (ak_kind k))]
        @ map PStr (ak_targets k) @ map PStr (ak_identity k)"
  have "list_all finite_floats ?parts" by (auto simp: list_all_iff)
  from stable_id_Inr[OF this] obtain i where "stable_id uuid5 ''gap'' ?parts = Inr i" by blast
  moreover obtain j where "stable_id uuid5 ''question'' [PStr i] = Inr j" using stable_id_Inr[of "[PStr i]" uuid5 "''question''"] by auto
  ultimately show ?thesis by (simp add: add_gap_def)
qed

lemma add_gaps_total:
  "\<exists>found. mapE (add_gap uuid5 s objective) ks = Inr found
    \<and> map (\<lambda>gq. (gp_kind (fst gq), gp_target_ids (fst gq))) found = map (\<lambda>k. (ak_kind k, ak_targets k)) ks
    \<and> map (\<lambda>gq. qn_gap_id (snd gq)) found = map (\<lambda>gq. gp_gap_id (fst gq)) found"
proof (induction ks)
  case (Cons k ks)
  obtain g q where "add_gap uuid5 s objective k = Inr (g, q)" "gp_kind g = ak_kind k" "gp_target_ids g = ak_targets k"
    "qn_gap_id q = gp_gap_id g" using add_gap_total by blast
  then show ?case using Cons by auto
qed simp

section \<open>Plans ask about exactly the gaps\<close>

definition gap_wanted :: "int \<Rightarrow> twin_state \<Rightarrow> string list option \<Rightarrow> gap_kind \<Rightarrow> string list \<Rightarrow> bool" where
  "gap_wanted minimum s claim_ids kind targets \<longleftrightarrow>
     (let selected = selected_claims s claim_ids in
      case kind of
        MISSING_CLAIM \<Rightarrow> selected = [] \<and> targets = []
      | INDEPENDENCE_DEFICIT \<Rightarrow> \<exists>c claim groups. c \<in> set selected \<and> targets = [c] \<and> map_of (st_claims s) c = Some claim
          \<and> claim_groups claim = Inr groups \<and> int (length groups) < minimum
      | CONTESTED_CLAIM \<Rightarrow> \<exists>c. c \<in> set selected \<and> targets = [c] \<and> c \<in> st_contested_claim_ids s
      | STALE_LINEAGE \<Rightarrow> \<exists>c. c \<in> set selected \<and> targets = [c] \<and> c \<in> st_stale_claim_ids s
      | UNRESOLVED_CONTRADICTION \<Rightarrow> \<exists>k rec ids. (k, rec) \<in> set (st_contradictions s) \<and> k \<notin> st_resolved_contradiction_ids s
          \<and> text_list (get_or rec ''claim_ids'' (PList [])) = Inr ids \<and> targets = sort ids
          \<and> (claim_ids = None \<or> set ids \<inter> set selected \<noteq> {}))"

lemma in_concat_mapE:
  "mapE f xs = Inr yss \<Longrightarrow> y \<in> set (concat yss) \<longleftrightarrow> (\<exists>x\<in>set xs. \<exists>ys. f x = Inr ys \<and> y \<in> set ys)"
  by (induction xs arbitrary: yss) (auto simp: bindE_Inr_iff)

lemma in_image_mapE:
  assumes "mapE f xs = Inr yss"
  shows "z \<in> g ` set (concat yss) \<longleftrightarrow> (\<exists>x\<in>set xs. \<exists>ys. f x = Inr ys \<and> z \<in> g ` set ys)"
  unfolding image_iff using in_concat_mapE[OF assms] by blast

lemma mapE_all_Inr: "mapE f xs = Inr ys \<Longrightarrow> x \<in> set xs \<Longrightarrow> \<exists>y. f x = Inr y"
  by (induction xs arbitrary: ys) (auto simp: bindE_Inr_iff)

abbreviation asked :: "ask \<Rightarrow> gap_kind \<times> string list" where
  "asked k \<equiv> (ak_kind k, ak_targets k)"

lemma asked_simps [simp]:
  "ak_kind (deficit_ask minimum c t n) = INDEPENDENCE_DEFICIT" "ak_targets (deficit_ask minimum c t n) = [c]"
  "ak_kind (contested_ask c t) = CONTESTED_CLAIM" "ak_targets (contested_ask c t) = [c]"
  "ak_kind (stale_ask c t) = STALE_LINEAGE" "ak_targets (stale_ask c t) = [c]"
  "ak_kind (missing_ask t) = MISSING_CLAIM" "ak_targets (missing_ask t) = []"
  "ak_kind (contradiction_ask c ts) = UNRESOLVED_CONTRADICTION" "ak_targets (contradiction_ask c ts) = ts"
  by (simp_all add: deficit_ask_def contested_ask_def stale_ask_def missing_ask_def contradiction_ask_def)

lemma claim_asks_set:
  assumes "claim_asks minimum s c = Inr ks"
  shows "\<exists>claim groups. map_of (st_claims s) c = Some claim \<and> claim_groups claim = Inr groups \<and>
    asked ` set ks = (if int (length groups) < minimum then {(INDEPENDENCE_DEFICIT, [c])} else {})
      \<union> (if c \<in> st_contested_claim_ids s then {(CONTESTED_CLAIM, [c])} else {})
      \<union> (if c \<in> st_stale_claim_ids s then {(STALE_LINEAGE, [c])} else {})"
proof (cases "map_of (st_claims s) c")
  case (Some claim)
  with assms obtain groups where g: "claim_groups claim = Inr groups" by (auto simp: claim_asks_def bindE_Inr_iff)
  show ?thesis
    using assms Some g by (intro exI[of _ claim] exI[of _ groups]) (auto simp: claim_asks_def Let_def split: if_splits)
qed (use assms in \<open>simp add: claim_asks_def\<close>)

lemma contradiction_asks_set:
  assumes "contradiction_asks s claim_ids selected (k, rec) = Inr ks"
  shows "asked ` set ks = {(UNRESOLVED_CONTRADICTION, sort ids) | ids. k \<notin> st_resolved_contradiction_ids s
      \<and> text_list (get_or rec ''claim_ids'' (PList [])) = Inr ids \<and> (claim_ids = None \<or> set ids \<inter> set selected \<noteq> {})}"
  using assms by (auto simp: contradiction_asks_def bindE_Inr_iff Let_def split: if_splits)

lemma asks_set:
  assumes "asks minimum s objective claim_ids = Inr ks"
  shows "(kind, targets) \<in> asked ` set ks \<longleftrightarrow> gap_wanted minimum s claim_ids kind targets"
proof -
  let ?sel = "selected_claims s claim_ids"
  obtain cs rs where cs: "mapE (claim_asks minimum s) ?sel = Inr cs"
    and rs: "mapE (contradiction_asks s claim_ids ?sel) (st_contradictions s) = Inr rs"
    and ks: "ks = (if ?sel = [] then [missing_ask objective] else []) @ concat cs @ concat rs"
    using assms by (auto simp: asks_def bindE_Inr_iff Let_def)
  have per_claim: "(\<exists>ys. claim_asks minimum s c = Inr ys \<and> (kind, targets) \<in> asked ` set ys) \<longleftrightarrow> targets = [c] \<and>
      (kind = INDEPENDENCE_DEFICIT \<and> (\<exists>claim groups. map_of (st_claims s) c = Some claim \<and> claim_groups claim = Inr groups
         \<and> int (length groups) < minimum)
       \<or> kind = CONTESTED_CLAIM \<and> c \<in> st_contested_claim_ids s \<or> kind = STALE_LINEAGE \<and> c \<in> st_stale_claim_ids s)"
    if c: "c \<in> set ?sel" for c
  proof -
    obtain ys where ys: "claim_asks minimum s c = Inr ys" using mapE_all_Inr[OF cs c] by blast
    from claim_asks_set[OF ys] obtain claim groups where "map_of (st_claims s) c = Some claim" "claim_groups claim = Inr groups"
      "asked ` set ys = (if int (length groups) < minimum then {(INDEPENDENCE_DEFICIT, [c])} else {})
      \<union> (if c \<in> st_contested_claim_ids s then {(CONTESTED_CLAIM, [c])} else {})
      \<union> (if c \<in> st_stale_claim_ids s then {(STALE_LINEAGE, [c])} else {})" by (elim exE conjE) (rule that; assumption)
    with ys show ?thesis by simp blast
  qed
  have "(kind, targets) \<in> asked ` set (concat cs) \<longleftrightarrow>
      (\<exists>c\<in>set ?sel. \<exists>ys. claim_asks minimum s c = Inr ys \<and> (kind, targets) \<in> asked ` set ys)"
    by (rule in_image_mapE[OF cs])
  also have "\<dots> \<longleftrightarrow> (\<exists>c\<in>set ?sel. targets = [c] \<and>
      (kind = INDEPENDENCE_DEFICIT \<and> (\<exists>claim groups. map_of (st_claims s) c = Some claim \<and> claim_groups claim = Inr groups
         \<and> int (length groups) < minimum)
       \<or> kind = CONTESTED_CLAIM \<and> c \<in> st_contested_claim_ids s \<or> kind = STALE_LINEAGE \<and> c \<in> st_stale_claim_ids s))"
    by (rule bex_cong[OF refl per_claim])
  also have "\<dots> \<longleftrightarrow> kind \<in> {INDEPENDENCE_DEFICIT, CONTESTED_CLAIM, STALE_LINEAGE} \<and> gap_wanted minimum s claim_ids kind targets"
    by (cases kind) (simp_all add: gap_wanted_def Let_def Bex_def)
  finally have a: "(kind, targets) \<in> asked ` set (concat cs) \<longleftrightarrow>
      kind \<in> {INDEPENDENCE_DEFICIT, CONTESTED_CLAIM, STALE_LINEAGE} \<and> gap_wanted minimum s claim_ids kind targets" .
  have per_contradiction: "(\<exists>ys. contradiction_asks s claim_ids ?sel kr = Inr ys \<and> (kind, targets) \<in> asked ` set ys) \<longleftrightarrow>
      kind = UNRESOLVED_CONTRADICTION \<and> fst kr \<notin> st_resolved_contradiction_ids s
      \<and> (\<exists>ids. text_list (get_or (snd kr) ''claim_ids'' (PList [])) = Inr ids \<and> targets = sort ids
         \<and> (claim_ids = None \<or> set ids \<inter> set ?sel \<noteq> {}))" if kr: "kr \<in> set (st_contradictions s)" for kr
  proof -
    obtain ys where ys: "contradiction_asks s claim_ids ?sel (fst kr, snd kr) = Inr ys" using mapE_all_Inr[OF rs kr] by auto
    show ?thesis using ys contradiction_asks_set[OF ys] by auto
  qed
  have "(kind, targets) \<in> asked ` set (concat rs) \<longleftrightarrow>
      (\<exists>kr\<in>set (st_contradictions s). \<exists>ys. contradiction_asks s claim_ids ?sel kr = Inr ys \<and> (kind, targets) \<in> asked ` set ys)"
    by (rule in_image_mapE[OF rs])
  also have "\<dots> \<longleftrightarrow> (\<exists>kr\<in>set (st_contradictions s). kind = UNRESOLVED_CONTRADICTION \<and> fst kr \<notin> st_resolved_contradiction_ids s
      \<and> (\<exists>ids. text_list (get_or (snd kr) ''claim_ids'' (PList [])) = Inr ids \<and> targets = sort ids
         \<and> (claim_ids = None \<or> set ids \<inter> set ?sel \<noteq> {})))"
    by (rule bex_cong[OF refl per_contradiction])
  also have "\<dots> \<longleftrightarrow> kind = UNRESOLVED_CONTRADICTION \<and> gap_wanted minimum s claim_ids kind targets"
    by (cases kind) (simp_all add: gap_wanted_def Let_def Bex_def)
  finally have b: "(kind, targets) \<in> asked ` set (concat rs) \<longleftrightarrow> kind = UNRESOLVED_CONTRADICTION \<and> gap_wanted minimum s claim_ids kind targets" .
  have "(kind, targets) \<in> asked ` set (if ?sel = [] then [missing_ask objective] else [])
      \<longleftrightarrow> kind = MISSING_CLAIM \<and> gap_wanted minimum s claim_ids kind targets"
    by (auto simp: gap_wanted_def Let_def)
  with a b show ?thesis unfolding ks by (cases kind) (auto simp: image_Un)
qed

lemma make_plan_Inr:
  assumes "make_plan uuid5 minimum s objective claim_ids = Inr p"
  shows "ep_twin_id p = st_twin_id s" "ep_source_sequence p = st_sequence s" "ep_objective p = objective"
    "ep_claim_ids p = selected_claims s claim_ids" "map qn_gap_id (ep_questions p) = map gp_gap_id (ep_gaps p)"
    "\<exists>ks. asks minimum s objective claim_ids = Inr ks \<and> map (\<lambda>g. (gp_kind g, gp_target_ids g)) (ep_gaps p) = map asked ks"
proof -
  obtain ks found where ks: "asks minimum s objective claim_ids = Inr ks" and f: "mapE (add_gap uuid5 s objective) ks = Inr found"
    and p: "ep_twin_id p = st_twin_id s" "ep_source_sequence p = st_sequence s" "ep_objective p = objective"
      "ep_claim_ids p = selected_claims s claim_ids" "ep_gaps p = map fst found" "ep_questions p = map snd found"
    using assms by (auto simp: make_plan_def bindE_Inr_iff violation_def Let_def split: if_splits)
  obtain found' where "mapE (add_gap uuid5 s objective) ks = Inr found'"
    "map (\<lambda>gq. (gp_kind (fst gq), gp_target_ids (fst gq))) found' = map asked ks"
    "map (\<lambda>gq. qn_gap_id (snd gq)) found' = map (\<lambda>gq. gp_gap_id (fst gq)) found'"
    using add_gaps_total by blast
  then show "ep_twin_id p = st_twin_id s" "ep_source_sequence p = st_sequence s" "ep_objective p = objective"
    "ep_claim_ids p = selected_claims s claim_ids" "map qn_gap_id (ep_questions p) = map gp_gap_id (ep_gaps p)"
    "\<exists>ks. asks minimum s objective claim_ids = Inr ks \<and> map (\<lambda>g. (gp_kind g, gp_target_ids g)) (ep_gaps p) = map asked ks"
    using p f ks by (simp_all add: comp_def)
qed

lemma plan_gaps_exact:
  assumes "make_plan uuid5 minimum s objective claim_ids = Inr p"
  shows "(\<exists>g\<in>set (ep_gaps p). gp_kind g = kind \<and> gp_target_ids g = targets) \<longleftrightarrow> gap_wanted minimum s claim_ids kind targets"
proof -
  obtain ks where ks: "asks minimum s objective claim_ids = Inr ks"
    "map (\<lambda>g. (gp_kind g, gp_target_ids g)) (ep_gaps p) = map asked ks"
    using make_plan_Inr(6)[OF assms] by blast
  have "(\<exists>g\<in>set (ep_gaps p). gp_kind g = kind \<and> gp_target_ids g = targets)
      \<longleftrightarrow> (kind, targets) \<in> set (map (\<lambda>g. (gp_kind g, gp_target_ids g)) (ep_gaps p))" by auto
  then show ?thesis using asks_set[OF ks(1), of kind targets] unfolding ks(2) by simp
qed

section \<open>Recorded contradictions name recorded claims\<close>

definition names_claims :: "twin_state \<Rightarrow> pydict \<Rightarrow> bool" where
  "names_claims s rec \<longleftrightarrow> (\<exists>ids. text_list (get_or rec ''claim_ids'' (PList [])) = Inr ids \<and> ids \<noteq> []
     \<and> set ids \<subseteq> dom (map_of (st_claims s)))"

definition contradictions_known :: "twin_state \<Rightarrow> bool" where
  "contradictions_known s \<longleftrightarrow> list_all (\<lambda>kr. names_claims s (snd kr)) (st_contradictions s)"

lemma names_claims_mono: "names_claims s rec \<Longrightarrow> map_of (st_claims s) \<subseteq>\<^sub>m map_of (st_claims t) \<Longrightarrow> names_claims t rec"
  unfolding names_claims_def by (meson map_le_implies_dom_le order_trans)

lemma detected_names_claims:
  assumes "validate_event ev = Inr ()" "event_type ev = ''ContradictionDetected''" "h_contradiction_detected ev s = Inr t"
  shows "names_claims s (stamped ev)"
proof -
  obtain s1 v ids where v: "map_of (payload ev) ''claim_ids'' = Some v" "py_iter v = Inr ids"
    "list_all (\<lambda>x. dict_has (st_claims s1) (py_str x)) ids"
    and s1: "(if pget (payload ev) ''subject_id'' \<noteq> PNone
      then bind_subject s (py_str (pget (payload ev) ''subject_id'')) else Inr s) = Inr s1"
    using assms(3) unfolding h_contradiction_detected_def bindE_Inr_iff require_Inr item_Inr_iff by blast
  have same: "st_claims s1 = st_claims s" using s1 by (auto simp: bind_subject_Inr split: if_splits)
  have "validate_payload ev = Inr ()" using assms(1) unfolding validate_event_def by (elim bindE_InrE) simp
  then have "validate_contradiction_detected ev = Inr ()" using assms(2) unfolding validate_payload_def by simp
  then have "is_list v \<and> 2 \<le> length (list_val v)"
    using pget_Some[OF v(1)] unfolding validate_contradiction_detected_def Let_def bindE_Inr_iff require_Inr orE_def
    by (auto split: if_splits)
  then have "ids \<noteq> []" using v(2) by (auto simp: is_list_def list_val_def py_iter_def split: pyval.splits)
  moreover have "get_or (stamped ev) ''claim_ids'' (PList []) = v" using v(1) by (simp add: stamped_def get_or_def)
  ultimately show ?thesis
    using v(2,3) same by (auto simp: names_claims_def text_list_def list_all_iff dict_has_def dom_def)
qed

lemma handle_contradictions:
  assumes "handle ev s = Inr t"
  shows "st_contradictions t = st_contradictions s
    \<or> (event_type ev = ''ContradictionDetected'' \<and> h_contradiction_detected ev s = Inr t
       \<and> (\<exists>k. st_contradictions t = dict_set k (stamped ev) (st_contradictions s)))"
proof (cases "event_type ev = ''ContradictionDetected''")
  case True
  then have h: "h_contradiction_detected ev s = Inr t" using assms by (simp add: handle_def handlers_def)
  then obtain k sub where "t = s\<lparr>st_subject_id := sub, st_contradictions := dict_set k (stamped ev) (st_contradictions s)\<rparr>"
    by (rule contradiction_detected_effect)
  then show ?thesis using True h by auto
next
  case False
  have "event_type ev \<noteq> ''ContradictionDetected'' \<longrightarrow> st_contradictions t = st_contradictions s"
    by (rule handle_rel[OF assms, where R = "\<lambda>s t. event_type ev \<noteq> ''ContradictionDetected'' \<longrightarrow> st_contradictions t = st_contradictions s"];
        (erule effects)?; simp)
  then show ?thesis using False by simp
qed

lemma apply_event_contradictions:
  assumes "apply_event s ev = Inr t" "twin_inv s \<and> contradictions_known s"
  shows "twin_inv t \<and> contradictions_known t"
proof
  show inv: "twin_inv t" using apply_event_inv[OF assms(1)] assms(2) by simp
  obtain u where u: "validate_event ev = Inr ()" "handle ev s = Inr u" "st_contradictions t = st_contradictions u" "st_claims t = st_claims u"
    using assms(1) by (auto simp: apply_event_Inr)
  have mono: "map_of (st_claims s) \<subseteq>\<^sub>m map_of (st_claims t)" using apply_event_retains[OF assms(1)] assms(2) by (simp add: retains_def)
  have old: "names_claims t (snd kr)" if "kr \<in> set (st_contradictions s)" for kr
    using assms(2) that names_claims_mono[OF _ mono] by (auto simp: contradictions_known_def list_all_iff)
  from handle_contradictions[OF u(2)] show "contradictions_known t"
  proof
    assume "st_contradictions u = st_contradictions s"
    then show ?thesis using old u(3) by (simp add: contradictions_known_def list_all_iff)
  next
    assume d: "event_type ev = ''ContradictionDetected'' \<and> h_contradiction_detected ev s = Inr u
       \<and> (\<exists>k. st_contradictions u = dict_set k (stamped ev) (st_contradictions s))"
    then obtain k where k: "st_contradictions t = dict_set k (stamped ev) (st_contradictions s)" using u(3) by auto
    have "names_claims t (stamped ev)" using names_claims_mono[OF detected_names_claims[OF u(1)] mono] d by blast
    then show ?thesis using old set_dict_set[of k "stamped ev" "st_contradictions s"] k by (fastforce simp: contradictions_known_def list_all_iff)
  qed
qed

lemma full_replay_contradictions:
  assumes "full_replay H db twin up_to as_of = Inr s"
  shows "twin_inv s \<and> contradictions_known s"
proof -
  have "twin_inv (init_state twin) \<and> contradictions_known (init_state twin)"
    using init_state_inv by (simp add: contradictions_known_def) (simp add: init_state_def)
  from replay_invariant[OF assms[unfolded full_replay_def], where P = "\<lambda>u. twin_inv u \<and> contradictions_known u", OF this]
  show ?thesis using apply_event_contradictions by blast
qed

section \<open>Verification accepts exactly the plans of the state\<close>

lemma verify_plan_iff:
  "verify_plan uuid5 minimum s p = Inr () \<longleftrightarrow> make_plan uuid5 minimum s (ep_objective p) (Some (ep_claim_ids p)) = Inr p"
  using make_plan_Inr(1,2)[of uuid5 minimum s "ep_objective p" "Some (ep_claim_ids p)" p]
  by (auto simp: verify_plan_def bindE_Inr_iff violation_def split: if_splits)

lemma selected_again:
  assumes "records_wf s"
  shows "selected_claims s (Some (selected_claims s claim_ids)) = selected_claims s claim_ids"
proof (cases claim_ids)
  case None
  have "sorted (dict_keys (st_claims s))" "distinct (dict_keys (st_claims s))"
    using assms by (simp_all add: records_wf_def wf_dict_def strict_sorted_iff)
  then show ?thesis using None by (simp add: selected_claims_def sorted_sort_id distinct_remdups_id)
qed (simp add: selected_claims_def sorted_sort_id distinct_remdups_id)

lemma asks_again:
  assumes "records_wf s" "contradictions_known s"
  shows "asks minimum s objective (Some (selected_claims s claim_ids)) = asks minimum s objective claim_ids"
proof -
  let ?sel = "selected_claims s claim_ids"
  have "contradiction_asks s (Some ?sel) ?sel kr = contradiction_asks s claim_ids ?sel kr" if "kr \<in> set (st_contradictions s)" for kr
  proof (cases claim_ids)
    case None
    have "names_claims s (snd kr)" using assms(2) that by (simp add: contradictions_known_def list_all_iff)
    then obtain ids where "text_list (get_or (snd kr) ''claim_ids'' (PList [])) = Inr ids" "ids \<noteq> []" "set ids \<subseteq> dom (map_of (st_claims s))"
      unfolding names_claims_def by (elim exE conjE) (rule that; assumption)
    moreover from this have "set ids \<inter> set ?sel \<noteq> {}"
      using None by (cases ids) (auto simp: selected_claims_def dom_map_of_conv_image_fst)
    ultimately show ?thesis using None by (simp add: contradiction_asks_def)
  qed (simp add: contradiction_asks_def)
  then have "mapE (contradiction_asks s (Some ?sel) ?sel) (st_contradictions s) = mapE (contradiction_asks s claim_ids ?sel) (st_contradictions s)"
    by (rule mapE_cong[OF refl])
  then show ?thesis using selected_again[OF assms(1)] by (simp add: asks_def Let_def)
qed

text \<open>A plan made for any selection is verified in the state it was made in.\<close>

lemma made_plan_verifies:
  assumes "make_plan uuid5 minimum s objective claim_ids = Inr p" "twin_inv s" "contradictions_known s"
  shows "verify_plan uuid5 minimum s p = Inr ()"
proof -
  have wf: "records_wf s" using assms(2) by (simp add: twin_inv_def)
  note p = make_plan_Inr(3,4)[OF assms(1)]
  have "make_plan uuid5 minimum s objective (Some (selected_claims s claim_ids)) = make_plan uuid5 minimum s objective claim_ids"
    using selected_again[OF wf] asks_again[OF wf assms(3)] by (simp add: make_plan_def Let_def)
  then show ?thesis using assms(1) p by (simp add: verify_plan_iff)
qed

section \<open>The calls of the service\<close>

lemma current_state_Inr:
  assumes "service_ok H cf sv" "service_state H cf twin None None as_of sv = (Inr s, sv')"
  shows "full_replay H (sv_db sv) twin None as_of = Inr s \<and> service_ok H cf sv' \<and> sv_db sv' = sv_db sv"
  using service_state_law[OF assms] by (simp add: bindE_def split: sum.splits)

lemma plan_elicitation_law:
  assumes "service_ok H cf sv" "plan_elicitation H uuid5 cf twin objective claim_ids sv = (Inr p, sv')"
  shows "service_ok H cf sv' \<and> sv_db sv' = sv_db sv \<and> (\<exists>s. full_replay H (sv_db sv) twin None None = Inr s
    \<and> make_plan uuid5 2 s objective claim_ids = Inr p \<and> verify_plan uuid5 2 s p = Inr ())"
proof -
  obtain s sv1 where st: "service_state H cf twin None None None sv = (Inr s, sv1)" "make_plan uuid5 2 s objective claim_ids = Inr p" "sv' = sv1"
    using assms(2) unfolding plan_elicitation_def current_state_def by (auto dest!: current_step simp: doneS_def)
  note s = current_state_Inr[OF assms(1) st(1)]
  then have "verify_plan uuid5 2 s p = Inr ()" using made_plan_verifies[OF st(2)] full_replay_contradictions by blast
  then show ?thesis using s st(2,3) by blast
qed

lemma trace_lineage_law:
  assumes "service_ok H cf sv" "trace_lineage H cf twin kind ident as_of sv = (Inr t, sv')"
  shows "service_ok H cf sv' \<and> sv_db sv' = sv_db sv \<and> ident \<noteq> [] \<and> (\<exists>s. full_replay H (sv_db sv) twin None as_of = Inr s
    \<and> trace (sv_db sv) s \<lparr>ln_kind = kind, ln_node_id = ident\<rparr> = Inr t)"
proof -
  from assms(2)[unfolded trace_lineage_def] obtain s sv1 where st: "service_state H cf twin None None as_of sv = (Inr s, sv1)"
    and rest: "andS (doneS (make_node kind ident)) (\<lambda>origin. readS (\<lambda>db. trace db s origin)) sv1 = (Inr t, sv')" by (rule current_stepE)
  from rest obtain n sv2 where n: "doneS (make_node kind ident) sv1 = (Inr n, sv2)" "readS (\<lambda>db. trace db s n) sv2 = (Inr t, sv')"
    by (rule current_stepE)
  have "make_node kind ident = Inr n" "sv2 = sv1" "sv' = sv1" "trace (sv_db sv1) s n = Inr t" using n by (auto simp: doneS_def readS_def)
  then show ?thesis using current_state_Inr[OF assms(1) st] by (auto simp: make_node_def violation_def split: if_splits)
qed

end
