(* ===== verification/K2_Bronze.thy ===== *)
theory K2_Bronze
  imports K2_Encoding K2_Types "HOL-Library.Sublist"
begin

text \<open>
  The encrypted object vault (\<open>src/src/argo_dt/bronze.py\<close>): deterministic identities, the envelope around
  an object (magic, length, cleartext header, ciphertext of metadata and content) and \<open>put\<close>, \<open>get\<close>,
  \<open>delete\<close>. A byte string is a list of characters. The files of a vault are a map from subject digest
  and object identifier to a file or a symbolic link; directories, modes, \<open>fsync\<close> and the temporary file
  have no effect on it and are left out. SHA-256 (\<open>sha\<close>, its hexadecimal text), \<open>str(uuid.uuid5(..))\<close>
  (\<open>uuid5\<close>), AES-GCM (from the package \<open>cryptography\<close>: \<open>cipher\<close>, whose decryption may refuse) and the key
  provider are arguments; nonce and clock are readings.
\<close>

section \<open>Bytes\<close>

text \<open>\<open>n.to_bytes(k, "big")\<close> and \<open>int.from_bytes(s, "big")\<close>\<close>

fun be_bytes :: "nat \<Rightarrow> nat \<Rightarrow> string" where
  "be_bytes 0 n = []"
| "be_bytes (Suc k) n = be_bytes k (n div 256) @ [char_of (n mod 256)]"

definition be_value :: "string \<Rightarrow> nat" where
  "be_value s = foldl (\<lambda>acc c. acc * 256 + byte c) 0 s"

definition to_bytes :: "nat \<Rightarrow> nat \<Rightarrow> string result" where
  "to_bytes k n = (if n < 256 ^ k then Inr (be_bytes k n) else Inl OverflowError)"

text \<open>\<open>base64.b64encode\<close>, and \<open>b64decode(.., validate=True)\<close>: the standard alphabet, padded.\<close>

definition std_char :: "char \<Rightarrow> char" where
  "std_char c = (if c = CHR ''-'' then CHR ''+'' else if c = CHR ''_'' then CHR ''/'' else c)"

definition url_char :: "char \<Rightarrow> char option" where
  "url_char c = (if c = CHR ''+'' then Some (CHR ''-'') else if c = CHR ''/'' then Some (CHR ''_'')
     else if c = CHR ''-'' \<or> c = CHR ''_'' then None else Some c)"

definition b64_padding :: "nat \<Rightarrow> string" where
  "b64_padding n = (if n mod 4 = 2 then ''=='' else if n mod 4 = 3 then ''='' else [])"

definition b64_encode :: "string \<Rightarrow> string" where
  "b64_encode s = (let t = b64url_encode s in map std_char t @ b64_padding (length t))"

definition b64_decode :: "string \<Rightarrow> string result" where
  "b64_decode s =
     (let t = takeWhile (\<lambda>c. c \<noteq> CHR ''='') s; us = map url_char t in
      if drop (length t) s \<noteq> b64_padding (length t) \<or> length t mod 4 = 1 \<or> None \<in> set us then Inl (ValueError ''invalid base64'')
      else (case b64_values (map the us) of
          None \<Rightarrow> Inl (ValueError ''invalid base64'')
        | Some ns \<Rightarrow> (case b64_bytes ns of None \<Rightarrow> Inl (ValueError ''invalid base64'') | Some bs \<Rightarrow> Inr bs)))"

section \<open>uuid.UUID(text)\<close>

fun remove_all :: "string \<Rightarrow> nat \<Rightarrow> string \<Rightarrow> string" where
  "remove_all p skip [] = []"
| "remove_all p skip (c # s) =
     (if 0 < skip then remove_all p (skip - 1) s
      else if prefix p (c # s) then remove_all p (length p - 1) s
      else c # remove_all p 0 s)"

definition is_hex :: "char \<Rightarrow> bool" where
  "is_hex c \<longleftrightarrow> hex_value c \<noteq> None"

text \<open>Hexadecimal digits with single underscores between them, as \<open>int(text, 16)\<close> reads them.\<close>

fun hex_run :: "bool \<Rightarrow> string \<Rightarrow> bool" where
  "hex_run after_digit [] = after_digit"
| "hex_run after_digit (c # s) =
     (if is_hex c then hex_run True s else c = CHR ''_'' \<and> after_digit \<and> hex_run False s)"

definition int16_text :: "string \<Rightarrow> bool" where
  "int16_text s =
     (let t = py_strip s;
          u = (if t \<noteq> [] \<and> hd t = CHR ''+'' then tl t else t)
      in if 2 < length u \<and> take 2 u \<in> {''0x'', ''0X''} then hex_run True (drop 2 u)
         else hex_run False u)"

definition strip_braces :: "string \<Rightarrow> string" where
  "strip_braces s = (let brace = (\<lambda>c. c = CHR ''{'' \<or> c = CHR ''}'') in rev (dropWhile brace (rev (dropWhile brace s))))"

definition is_uuid :: "string \<Rightarrow> bool" where
  "is_uuid s =
     (let hex = remove_all ''-'' 0 (strip_braces (remove_all ''uuid:'' 0 (remove_all ''urn:'' 0 s)))
      in length hex = 32 \<and> int16_text hex)"

section \<open>Manifest, keys and identities\<close>

record acquisition_manifest =
  am_connector_id :: string
  am_connector_version :: string
  am_source_record_id :: string
  am_acquired_at :: datetime
  am_rights :: pydict
  am_sensitivity :: sensitivity

definition make_manifest :: "acquisition_manifest \<Rightarrow> acquisition_manifest result" where
  "make_manifest m =
     (if am_connector_id m = [] \<or> am_connector_version m = [] \<or> am_source_record_id m = []
      then Inl (InvariantViolation ''acquisition source identity is required'')
      else if naive (am_acquired_at m) then Inl (InvariantViolation ''acquired_at must be timezone-aware'')
      else Inr m)"

definition manifest_dict :: "acquisition_manifest \<Rightarrow> pydict" where
  "manifest_dict m =
     [(''acquired_at'', PStr (isoformat (am_acquired_at m))), (''connector_id'', PStr (am_connector_id m)),
      (''connector_version'', PStr (am_connector_version m)), (''rights'', PDict (am_rights m)),
      (''sensitivity'', PStr (sensitivity_text (am_sensitivity m))), (''source_record_id'', PStr (am_source_record_id m))]"

text \<open>The protocol \<open>KeyProvider\<close>, and the provider with a single key.\<close>

record key_ops =
  ko_active_key :: "string \<Rightarrow> (string \<times> string) result"
  ko_key_for_id :: "string \<Rightarrow> string \<Rightarrow> string result"

definition static_keys :: "string \<Rightarrow> string \<Rightarrow> key_ops result" where
  "static_keys key_id key =
     (if key_id = [] then Inl (ValueError ''key_id is required'')
      else if length key \<noteq> 32 then Inl (ValueError ''AES-256-GCM requires a 32-byte key'')
      else Inr \<lparr>ko_active_key = (\<lambda>subject. if subject = [] then Inl (ValueError ''subject_id is required'') else Inr (key_id, key)),
                ko_key_for_id = (\<lambda>subject i. if subject = [] \<or> i \<noteq> key_id then Inl (KeyError i) else Inr key)\<rparr>)"

text \<open>AES-GCM under a key: nonce, then plaintext or ciphertext, then associated data.\<close>

record cipher =
  ci_encrypt :: "string \<Rightarrow> string \<Rightarrow> string \<Rightarrow> string \<Rightarrow> string"
  ci_decrypt :: "string \<Rightarrow> string \<Rightarrow> string \<Rightarrow> string \<Rightarrow> string option"

record bronze_object =
  bo_object_uri :: string
  bo_subject_id :: string
  bo_media_type :: string
  bo_content_hash :: string
  bo_metadata :: pydict
  bo_key_id :: string
  bo_created_at :: datetime

record vault_config =
  vc_sha :: "string \<Rightarrow> string"
  vc_uuid5 :: "string \<Rightarrow> string"
  vc_cipher :: cipher
  vc_keys :: key_ops
  vc_max_object_bytes :: int

datatype entry = Regular string | Symlink

type_synonym files = "string \<times> string \<Rightarrow> entry option"

text \<open>\<open>EncryptedFileBronzeVault.__init__\<close>\<close>

definition make_vault :: "vault_config \<Rightarrow> vault_config result" where
  "make_vault vc = (if vc_max_object_bytes vc < 1 then Inl (ValueError ''max_object_bytes must be positive'') else Inr vc)"

definition subject_digest :: "vault_config \<Rightarrow> string \<Rightarrow> string" where
  "subject_digest vc subject = vc_sha vc (utf8_encode subject)"

definition bytes_hash :: "vault_config \<Rightarrow> string \<Rightarrow> string" where
  "bytes_hash vc content = ''sha256:'' @ vc_sha vc content"

definition deterministic_object_id :: "vault_config \<Rightarrow> string \<Rightarrow> string \<Rightarrow> string \<Rightarrow> pydict \<Rightarrow> string" where
  "deterministic_object_id vc subject media value_hash metadata =
     (let connector = py_str (get_or metadata ''connector_id'' (PStr []));
          source_record = py_str (get_or metadata ''source_record_id'' (PStr []));
          identity = (if connector \<noteq> [] \<and> source_record \<noteq> [] then ''source:'' @ connector @ '':'' @ source_record
                      else ''content:'' @ media @ '':'' @ value_hash)
      in vc_uuid5 vc (''argo-dt:'' @ subject @ '':'' @ identity))"

definition object_uri :: "string \<Rightarrow> string \<Rightarrow> string" where
  "object_uri digest ident = ''bronze://'' @ digest @ ''/'' @ ident"

definition parse_uri :: "string \<Rightarrow> (string \<times> string) result" where
  "parse_uri uri =
     (if \<not> prefix ''bronze://'' uri then Inl (InvariantViolation ''invalid Bronze object URI'')
      else (case split_on CHR ''/'' (drop 9 uri) of
          [digest, ident] \<Rightarrow>
            if length digest \<noteq> 64 then Inl (InvariantViolation ''invalid Bronze object URI'')
            else if \<not> list_all (\<lambda>c. c \<in> set ''0123456789abcdef'') digest
            then Inl (InvariantViolation ''invalid Bronze subject digest'')
            else if \<not> is_uuid ident then Inl (InvariantViolation ''invalid Bronze object identifier'')
            else Inr (digest, ident)
        | _ \<Rightarrow> Inl (InvariantViolation ''invalid Bronze object URI'')))"

text \<open>\<open>_path\<close>: a name with a slash would leave the directory of the subject.\<close>

definition vault_path :: "files \<Rightarrow> string \<Rightarrow> string \<Rightarrow> (string \<times> string) result" where
  "vault_path fs digest ident =
     (if CHR ''/'' \<in> set ident then Inl (InvariantViolation ''Bronze object path escaped its subject boundary'')
      else if fs (digest, ident) = Some Symlink then Inl (IntegrityError ''Bronze object cannot be a symbolic link'')
      else Inr (digest, ident))"

section \<open>Envelopes\<close>

definition magic :: string where
  "magic = ''ARGODTBRONZE1'' @ [char_of (0::nat)]"

definition nonce_bytes :: nat where
  "nonce_bytes = 12"

definition header_val :: "string \<Rightarrow> string \<Rightarrow> string \<Rightarrow> string \<Rightarrow> pyval" where
  "header_val key_id nonce ident digest =
     PDict [(''key_id'', PStr key_id), (''nonce'', PStr (b64_encode nonce)), (''object_id'', PStr ident),
            (''subject_digest'', PStr digest), (''version'', PStr ''argo.dt.bronze/v1'')]"

definition metadata_val :: "string \<Rightarrow> string \<Rightarrow> pydict \<Rightarrow> datetime \<Rightarrow> pyval" where
  "metadata_val media value_hash metadata created =
     PDict [(''content_hash'', PStr value_hash), (''created_at'', PStr (isoformat created)), (''media_type'', PStr media),
            (''metadata'', PDict metadata)]"

text \<open>
  \<open>json.loads\<close> of bytes. It guesses UTF-16 and UTF-32 from a byte order mark or null bytes at the start; those
  texts, and code points the model has no character for, are outside the model.
\<close>

definition loads_bytes :: "string \<Rightarrow> pyval result" where
  "loads_bytes bs =
     (if list_ex (\<lambda>c. byte c \<in> {0, 254, 255}) (take 4 bs) \<or> map byte (take 3 bs) = [239, 187, 191] then Inl OutOfModel
      else (case utf8_decode bs of None \<Rightarrow> Inl OutOfModel | Some s \<Rightarrow> loads s))"

definition wrong :: "string \<Rightarrow> 'a result" where
  "wrong m = Inl (IntegrityError m)"

text \<open>\<open>dict(v)\<close> for what \<open>json.loads\<close> returns; a list of pairs is outside the model.\<close>

definition dict_of_val :: "pyval \<Rightarrow> pydict result" where
  "dict_of_val v =
     (case v of
        PDict d \<Rightarrow> Inr d
      | PList [] \<Rightarrow> Inr []
      | PList _ \<Rightarrow> Inl OutOfModel
      | PStr [] \<Rightarrow> Inr []
      | PStr _ \<Rightarrow> Inl (ValueError ''dictionary update sequence element'')
      | _ \<Rightarrow> Inl TypeError)"

text \<open>The plaintext: the length of the metadata, the metadata, the content.\<close>

definition open_plaintext ::
  "vault_config \<Rightarrow> string \<Rightarrow> string \<Rightarrow> string \<Rightarrow> string \<Rightarrow> (bronze_object \<times> string) result" where
  "open_plaintext vc subject uri key_id plaintext =
     (let metadata_length = be_value (take 8 plaintext); metadata_end = 8 + metadata_length in
      if metadata_length < 2 \<or> length plaintext < metadata_end then wrong ''Bronze encrypted metadata length is invalid''
      else
        bindE (loads_bytes (take metadata_length (drop 8 plaintext))) (\<lambda>metadata.
        let content = drop metadata_end plaintext; value_hash = bytes_hash vc content in
        bindE (val_get metadata ''content_hash'') (\<lambda>stored.
        if \<not> py_eq stored (PStr value_hash) then wrong ''Bronze plaintext content hash mismatch''
        else
          bindE (val_item metadata ''media_type'') (\<lambda>media.
          bindE (bindE (val_item metadata ''metadata'') dict_of_val) (\<lambda>fields.
          bindE (bindE (val_item metadata ''created_at'') (\<lambda>t. parse_time (py_str t))) (\<lambda>created.
          Inr (\<lparr>bo_object_uri = uri, bo_subject_id = subject, bo_media_type = py_str media, bo_content_hash = value_hash,
                bo_metadata = fields, bo_key_id = key_id, bo_created_at = created\<rparr>, content)))))))"

definition open_envelope ::
  "vault_config \<Rightarrow> string \<Rightarrow> string \<Rightarrow> string \<Rightarrow> string \<Rightarrow> string \<Rightarrow> (bronze_object \<times> string) result" where
  "open_envelope vc subject uri digest ident envelope =
     (if \<not> prefix magic envelope then wrong ''Bronze envelope magic mismatch''
      else
        let offset = length magic; header_length = be_value (take 4 (drop offset envelope)) in
        if header_length < 1 \<or> 64 * 1024 < header_length then wrong ''Bronze envelope header length is invalid''
        else
          let header_start = offset + 4; header_bytes = take header_length (drop header_start envelope) in
          bindE (loads_bytes header_bytes) (\<lambda>header.
          bindE (val_get header ''version'') (\<lambda>version.
          if \<not> py_eq version (PStr ''argo.dt.bronze/v1'')
             \<or> \<not> py_eq (pget (dict_val header) ''object_id'') (PStr ident)
             \<or> \<not> py_eq (pget (dict_val header) ''subject_digest'') (PStr digest)
          then wrong ''Bronze envelope routing identity mismatch''
          else
            bindE (bindE (val_item header ''nonce'') (\<lambda>v. b64_decode (py_str v))) (\<lambda>nonce.
            if length nonce \<noteq> nonce_bytes then wrong ''Bronze envelope nonce length is invalid''
            else
              bindE (val_item header ''key_id'') (\<lambda>key_id.
              bindE (ko_key_for_id (vc_keys vc) subject (py_str key_id)) (\<lambda>key.
              if length key \<notin> {16, 24, 32} then Inl (ValueError ''AESGCM key must be 128, 192, or 256 bits.'')
              else (case ci_decrypt (vc_cipher vc) key nonce (drop (header_start + header_length) envelope) header_bytes of
                  None \<Rightarrow> Inl (ValueError ''InvalidTag'')
                | Some plaintext \<Rightarrow> open_plaintext vc subject uri (py_str key_id) plaintext)))))))"

text \<open>\<open>except (IntegrityError, NotFound): raise\<close>, everything else as an IntegrityError.\<close>

fun guarded :: "'a result \<Rightarrow> 'a result" where
  "guarded (Inr v) = Inr v"
| "guarded (Inl (IntegrityError m)) = Inl (IntegrityError m)"
| "guarded (Inl (NotFound m)) = Inl (NotFound m)"
| "guarded (Inl OutOfModel) = Inl OutOfModel"
| "guarded (Inl _) = wrong ''Bronze object authentication failed''"

section \<open>Operations\<close>

definition vault_get :: "vault_config \<Rightarrow> files \<Rightarrow> string \<Rightarrow> string \<Rightarrow> (bronze_object \<times> string) result" where
  "vault_get vc fs subject uri =
     bindE (parse_uri uri) (\<lambda>(digest, ident).
     if digest \<noteq> subject_digest vc subject then Inl (NotFound ''Bronze object does not belong to this subject'')
     else bindE (vault_path fs digest ident) (\<lambda>path.
       case fs path of
         Some (Regular envelope) \<Rightarrow> guarded (open_envelope vc subject uri digest ident envelope)
       | _ \<Rightarrow> Inl (NotFound ''Bronze object was not found'')))"

text \<open>An object stored already must be the one that is put.\<close>

definition same_acquisition ::
  "vault_config \<Rightarrow> files \<Rightarrow> string \<Rightarrow> string \<Rightarrow> string \<Rightarrow> string \<Rightarrow> pydict \<Rightarrow> string \<Rightarrow> unit result" where
  "same_acquisition vc fs subject uri media content metadata complaint =
     bindE (vault_get vc fs subject uri) (\<lambda>(stored, stored_content).
     if bo_content_hash stored \<noteq> bytes_hash vc content \<or> stored_content \<noteq> content \<or> bo_media_type stored \<noteq> media
     then Inl (InvariantViolation complaint)
     else
       bindE (canonical_json (PDict (bo_metadata stored))) (\<lambda>a.
       bindE (canonical_json (PDict metadata)) (\<lambda>b.
       if a \<noteq> b then Inl (InvariantViolation complaint) else Inr ())))"

definition seal_envelope ::
  "vault_config \<Rightarrow> string \<Rightarrow> int \<Rightarrow> string \<Rightarrow> string \<Rightarrow> string \<Rightarrow> string \<Rightarrow> string \<Rightarrow> pydict \<Rightarrow> string result" where
  "seal_envelope vc nonce now subject digest ident media content metadata =
     bindE (ko_active_key (vc_keys vc) subject) (\<lambda>(key_id, key).
     if length key \<noteq> 32 then Inl (InvariantViolation ''key provider did not return an AES-256 key'')
     else
       bindE (canonical_json (header_val key_id nonce ident digest)) (\<lambda>header_text.
       bindE (canonical_json (metadata_val media (bytes_hash vc content) metadata (utc now))) (\<lambda>metadata_text.
       let header = utf8_encode header_text; encrypted_metadata = utf8_encode metadata_text in
       bindE (to_bytes 8 (length encrypted_metadata)) (\<lambda>metadata_size.
       let plaintext = metadata_size @ encrypted_metadata @ content;
           ciphertext = ci_encrypt (vc_cipher vc) key nonce plaintext header in
       bindE (to_bytes 4 (length header)) (\<lambda>header_size.
       Inr (magic @ header_size @ header @ ciphertext))))))"

text \<open>
  \<open>put\<close>. \<open>others\<close> is what other writers did to the files between the check that the object is new and the
  exclusive link of the finished file; without other writers it is the identity.
\<close>

definition vault_put ::
  "vault_config \<Rightarrow> string \<Rightarrow> int \<Rightarrow> (files \<Rightarrow> files) \<Rightarrow> string \<Rightarrow> string \<Rightarrow> string \<Rightarrow> pydict \<Rightarrow> files
     \<Rightarrow> (string \<times> string) result \<times> files" where
  "vault_put vc nonce now others subject media content metadata fs =
     (if subject = [] \<or> media = [] then (Inl (InvariantViolation ''subject_id and media_type are required''), fs)
      else if vc_max_object_bytes vc < int (length content)
      then (Inl (InvariantViolation ''Bronze object exceeds the configured byte limit''), fs)
      else
        let digest = subject_digest vc subject; value_hash = bytes_hash vc content;
            ident = deterministic_object_id vc subject media value_hash metadata; uri = object_uri digest ident in
        case vault_path fs digest ident of
          Inl err \<Rightarrow> (Inl err, fs)
        | Inr path \<Rightarrow>
            if fs path \<noteq> None
            then (bindE (same_acquisition vc fs subject uri media content metadata
                    ''deterministic Bronze source identity changed acquisition material'') (\<lambda>_. Inr (uri, value_hash)), fs)
            else (case seal_envelope vc nonce now subject digest ident media content metadata of
                Inl err \<Rightarrow> (Inl err, fs)
              | Inr envelope \<Rightarrow>
                  let fs1 = others fs in
                  if fs1 path = None then (Inr (uri, value_hash), fs1(path := Some (Regular envelope)))
                  else (bindE (same_acquisition vc fs1 subject uri media content metadata
                          ''concurrent Bronze source identity changed acquisition material'') (\<lambda>_. Inr (uri, value_hash)), fs1)))"

definition vault_delete :: "vault_config \<Rightarrow> string \<Rightarrow> string \<Rightarrow> files \<Rightarrow> bool result \<times> files" where
  "vault_delete vc subject uri fs =
     (case parse_uri uri of
        Inl err \<Rightarrow> (Inl err, fs)
      | Inr (digest, ident) \<Rightarrow>
          if digest \<noteq> subject_digest vc subject then (Inl (NotFound ''Bronze object does not belong to this subject''), fs)
          else (case vault_path fs digest ident of
              Inl err \<Rightarrow> (Inl err, fs)
            | Inr path \<Rightarrow> if fs path = None then (Inr False, fs) else (Inr True, fs(path := None))))"

end
