(* ===== verification/K2_Bronze_Laws.thy ===== *)
theory K2_Bronze_Laws
  imports K2_Bronze K2_Cursor
begin

text \<open>
  Laws of the vault. What \<open>put\<close> stores, \<open>get\<close> returns, also where another writer was first; an object
  that \<open>get\<close> returns was encrypted under a key of the subject, for that subject and identity, and its hash
  is the hash of its content; and no call of \<open>put\<close> overwrites an object. What is assumed of the
  collaborators is stated by \<open>cipher_ok\<close>, \<open>cipher_sound\<close>, \<open>provider_ok\<close> and \<open>names_ok\<close>.
\<close>

section \<open>Integers and base64\<close>

lemma length_be_bytes [simp]: "length (be_bytes k n) = k"
  by (induction k n rule: be_bytes.induct) simp_all

lemma be_value_bytes: "n < 256 ^ k \<Longrightarrow> be_value (be_bytes k n) = n"
proof (induction k n rule: be_bytes.induct)
  case (2 k n)
  then have "n div 256 < 256 ^ k" by (simp add: less_mult_imp_div_less mult.commute)
  then show ?case using "2.IH" by (simp add: be_value_def of_char_of)
qed (simp add: be_value_def)

lemma to_bytes_Inr: "to_bytes k n = Inr bs \<Longrightarrow> length bs = k \<and> be_value bs = n"
  by (auto simp: to_bytes_def be_value_bytes split: if_splits)

lemma b64_chars: "byte (b64_char n) \<noteq> 43 \<and> byte (b64_char n) \<noteq> 47 \<and> byte (b64_char n) \<noteq> 61"
  by (auto simp: b64_char_def of_char_of)

lemma url_std_char: "url_char (std_char (b64_char n)) = Some (b64_char n)" "std_char (b64_char n) \<noteq> CHR ''=''"
proof -
  have "b64_char n \<noteq> CHR ''+'' \<and> b64_char n \<noteq> CHR ''/'' \<and> b64_char n \<noteq> CHR ''=''" using b64_chars[of n] by auto
  then show "url_char (std_char (b64_char n)) = Some (b64_char n)" "std_char (b64_char n) \<noteq> CHR ''=''"
    by (auto simp: url_char_def std_char_def)
qed

lemma b64_digits_length: "length (b64_digits s) mod 4 \<noteq> 1"
  by (induction s rule: b64_digits.induct) simp_all

lemma padding_start: "takeWhile (\<lambda>c. c \<noteq> CHR ''='') (b64_padding n) = []"
  by (simp add: b64_padding_def)

theorem b64_roundtrip: "b64_decode (b64_encode s) = Inr s"
proof -
  let ?ns = "b64_digits s"
  have enc: "b64_encode s = map (std_char \<circ> b64_char) ?ns @ b64_padding (length ?ns)"
    by (simp add: b64_encode_def b64_encode_digits Let_def)
  have head: "takeWhile (\<lambda>c. c \<noteq> CHR ''='') (b64_encode s) = map (std_char \<circ> b64_char) ?ns"
    using url_std_char(2) padding_start unfolding enc by (subst takeWhile_append2) auto
  have urls: "map url_char (map (std_char \<circ> b64_char) ?ns) = map (Some \<circ> b64_char) ?ns"
    by (simp add: url_std_char(1))
  have vals: "b64_values (map b64_char ?ns) = Some ?ns"
    by (intro b64_values_chars) (auto simp: list_all_iff b64_digits_bound)
  have rest: "drop (length ?ns) (b64_encode s) = b64_padding (length ?ns)" by (simp add: enc)
  have "map the (map (Some \<circ> b64_char) ?ns) = map b64_char ?ns" by simp
  then show ?thesis
    using b64_digits_length[of s] vals rest unfolding b64_decode_def head urls Let_def length_map
    by (auto simp: b64_bytes_digits comp_def)
qed

section \<open>Identifiers\<close>

text \<open>The text of a UUID: five groups of lower-case hexadecimal digits.\<close>

definition uuid_text :: "string \<Rightarrow> bool" where
  "uuid_text s \<longleftrightarrow> (\<exists>a b c d e. s = a @ ''-'' @ b @ ''-'' @ c @ ''-'' @ d @ ''-'' @ e \<and> list_all is_lower_hex (a @ b @ c @ d @ e)
     \<and> length a = 8 \<and> length b = 4 \<and> length c = 4 \<and> length d = 4 \<and> length e = 12)"

lemma lower_hex: "is_lower_hex c \<Longrightarrow> (48 \<le> byte c \<and> byte c \<le> 57) \<or> (97 \<le> byte c \<and> byte c \<le> 102)"
  by (auto simp: is_lower_hex_def is_digit_def digit_of_def Let_def split: if_splits)

lemma lower_hex_not [simp]:
  "is_lower_hex c \<Longrightarrow> c \<noteq> CHR ''u'' \<and> c \<noteq> CHR ''-'' \<and> c \<noteq> CHR ''/'' \<and> c \<noteq> CHR ''{'' \<and> c \<noteq> CHR ''}'' \<and> c \<noteq> CHR ''x'' \<and> c \<noteq> CHR ''X'' \<and> c \<noteq> CHR ''+''"
  by (drule lower_hex) auto

lemma lower_hex_is_hex: "is_lower_hex c \<Longrightarrow> is_hex c \<and> \<not> is_space c"
  by (drule lower_hex) (auto simp: is_hex_def hex_value_def is_space_def Let_def)

lemma remove_all_absent: "p \<noteq> [] \<Longrightarrow> hd p \<notin> set s \<Longrightarrow> remove_all p 0 s = s"
proof (induction s)
  case (Cons c s)
  then have "\<not> prefix p (c # s)" by (cases p) auto
  then show ?case using Cons by simp
qed simp

lemma remove_hyphens: "remove_all ''-'' 0 s = filter (\<lambda>c. c \<noteq> CHR ''-'') s"
  by (induction s) auto

lemma hex_run_digits: "list_all is_lower_hex s \<Longrightarrow> s \<noteq> [] \<Longrightarrow> hex_run b s"
proof (induction s arbitrary: b)
  case (Cons c s)
  then show ?case by (cases s) (simp_all add: lower_hex_is_hex)
qed simp

lemma strip_absent: "\<not> P (hd s) \<Longrightarrow> \<not> P (last s) \<Longrightarrow> rev (dropWhile P (rev (dropWhile P s))) = s"
proof (cases s rule: rev_cases)
  case (snoc t x)
  assume "\<not> P (hd s)" "\<not> P (last s)"
  then have "dropWhile P s = s" using snoc by (cases t) simp_all
  then show ?thesis using snoc \<open>\<not> P (last s)\<close> by simp
qed simp

lemma hex_numeral:
  assumes "list_all is_lower_hex h" "h \<noteq> []"
  shows "int16_text h"
proof -
  have ends: "is_lower_hex (hd h)" "is_lower_hex (last h)" using assms by (simp_all add: list_all_iff)
  then have strip: "py_strip h = h" using lower_hex_is_hex by (simp add: py_strip_def strip_absent)
  have "hd h \<noteq> CHR ''+''" using ends(1) by auto
  moreover have "take 2 h \<notin> {''0x'', ''0X''}"
  proof
    assume "take 2 h \<in> {''0x'', ''0X''}"
    then have "h ! 1 = CHR ''x'' \<or> h ! 1 = CHR ''X''" "1 < length h" by (cases h; cases "tl h"; auto)+
    then show False using assms(1) nth_mem[of 1 h] by (auto simp: list_all_iff)
  qed
  ultimately show ?thesis using hex_run_digits[OF assms] strip by (simp add: int16_text_def Let_def)
qed

lemma uuid_accepted:
  assumes "uuid_text s"
  shows "is_uuid s" "CHR ''/'' \<notin> set s"
proof -
  obtain a b c d e where s: "s = a @ ''-'' @ b @ ''-'' @ c @ ''-'' @ d @ ''-'' @ e" and h: "list_all is_lower_hex (a @ b @ c @ d @ e)"
    and len: "length a = 8" "length b = 4" "length c = 4" "length d = 4" "length e = 12"
    using assms unfolding uuid_text_def by blast
  have chars: "x \<in> set s \<Longrightarrow> is_lower_hex x \<or> x = CHR ''-''" for x using h s by (auto simp: list_all_iff)
  have absent: "CHR ''u'' \<notin> set s" "CHR ''{'' \<notin> set s" "CHR ''}'' \<notin> set s" "CHR ''/'' \<notin> set s"
    using chars lower_hex_not by blast+
  then show "CHR ''/'' \<notin> set s" by simp
  have ne: "s \<noteq> []" using len(1) s by auto
  then have "hd s \<in> set s" "last s \<in> set s" by simp_all
  then have "hd s \<noteq> CHR ''{'' \<and> hd s \<noteq> CHR ''}''" "last s \<noteq> CHR ''{'' \<and> last s \<noteq> CHR ''}''" using absent(2,3) by metis+
  then have strip: "strip_braces s = s" by (simp add: strip_braces_def Let_def strip_absent)
  have removed: "remove_all ''urn:'' 0 s = s" "remove_all ''uuid:'' 0 s = s" using absent(1) by (simp_all add: remove_all_absent)
  have "filter (\<lambda>c. c \<noteq> CHR ''-'') s = a @ b @ c @ d @ e"
    using h s by (simp add: list_all_iff filter_id_conv)
  moreover have "int16_text (a @ b @ c @ d @ e)" using hex_numeral[OF h] len(1) by fastforce
  ultimately show "is_uuid s" using len by (simp add: is_uuid_def removed strip remove_hyphens Let_def)
qed

section \<open>What the vault relies on\<close>

definition cipher_ok :: "cipher \<Rightarrow> bool" where
  "cipher_ok c \<longleftrightarrow> (\<forall>key nonce plain extra. ci_decrypt c key nonce (ci_encrypt c key nonce plain extra) extra = Some plain)"

text \<open>Authenticated encryption: only what was encrypted under the key, with that nonce and that header, decrypts.\<close>

definition cipher_sound :: "cipher \<Rightarrow> bool" where
  "cipher_sound c \<longleftrightarrow> (\<forall>key nonce x extra plain. ci_decrypt c key nonce x extra = Some plain \<longrightarrow> x = ci_encrypt c key nonce plain extra)"

definition provider_ok :: "key_ops \<Rightarrow> bool" where
  "provider_ok ks \<longleftrightarrow> (\<forall>subject i key. ko_active_key ks subject = Inr (i, key) \<longrightarrow> ko_key_for_id ks subject i = Inr key)"

definition names_ok :: "vault_config \<Rightarrow> bool" where
  "names_ok vc \<longleftrightarrow> (\<forall>t. uuid_text (vc_uuid5 vc t)) \<and> (\<forall>b. length (vc_sha vc b) = 64 \<and> list_all is_lower_hex (vc_sha vc b))"

definition vault_ok :: "vault_config \<Rightarrow> bool" where
  "vault_ok vc \<longleftrightarrow> cipher_ok (vc_cipher vc) \<and> provider_ok (vc_keys vc) \<and> names_ok vc"

lemma static_provider_ok: "static_keys key_id key = Inr ks \<Longrightarrow> provider_ok ks"
  by (auto simp: static_keys_def provider_ok_def split: if_splits)

section \<open>Addresses\<close>

lemma lower_hex_digit: "is_lower_hex c \<Longrightarrow> c \<in> set ''0123456789abcdef''"
proof -
  assume "is_lower_hex c"
  from lower_hex[OF this] have "byte c \<in> byte ` set ''0123456789abcdef''" by (simp; presburger)
  moreover have "inj byte" by (simp add: inj_def)
  ultimately show ?thesis using inj_image_mem_iff by metis
qed

lemma parse_object_uri:
  assumes "length digest = 64" "list_all is_lower_hex digest" "uuid_text ident"
  shows "parse_uri (object_uri digest ident) = Inr (digest, ident)"
proof -
  have "CHR ''/'' \<notin> set digest" using assms(2) lower_hex_not by (fastforce simp: list_all_iff)
  then have "split_on CHR ''/'' (digest @ ''/'' @ ident) = [digest, ident]"
    using uuid_accepted(2)[OF assms(3)] by (simp add: split_on_append_sep split_on_no_sep)
  moreover have "list_all (\<lambda>c. c \<in> set ''0123456789abcdef'') digest"
    using assms(2) lower_hex_digit unfolding list_all_iff by blast
  ultimately show ?thesis
    using assms(1) uuid_accepted(1)[OF assms(3)] by (simp add: parse_uri_def object_uri_def)
qed

lemma parse_uri_Inr:
  assumes "parse_uri uri = Inr (digest, ident)"
  shows "uri = object_uri digest ident \<and> CHR ''/'' \<notin> set ident"
proof -
  have join: "split_on c s = [a, b] \<Longrightarrow> s = a @ c # b \<and> c \<notin> set b" for c and s a b :: string
  proof (induction s arbitrary: a)
    case (Cons x s)
    show ?case
    proof (cases "x = c")
      case True
      then have "split_on c s = [b]" "a = []" using Cons.prems by auto
      moreover have "split_on c s = [b] \<Longrightarrow> s = b \<and> c \<notin> set b" for s b
        by (induction s arbitrary: b) (auto split: if_splits list.splits)
      ultimately show ?thesis using True by auto
    next
      case False
      then obtain w where "split_on c s = [w, b]" "a = x # w" using Cons.prems by (auto split: list.splits)
      then show ?thesis using Cons.IH[of w] False by auto
    qed
  qed simp
  have "prefix ''bronze://'' uri" "split_on CHR ''/'' (drop 9 uri) = [digest, ident]"
    using assms by (auto simp: parse_uri_def split: if_splits list.splits)
  then show ?thesis using join[of "CHR ''/''" "drop 9 uri" digest ident] by (auto simp: object_uri_def prefix_def)
qed

section \<open>What was sealed is opened\<close>

lemma take_json:
  "take 4 (utf8_encode (dumps (header_val key_id nonce ident digest))) = [CHR ''{'', dquote, CHR ''k'', CHR ''e'']"
  "take 4 (utf8_encode (dumps (metadata_val media value_hash metadata created))) = [CHR ''{'', dquote, CHR ''c'', CHR ''o'']"
  by (simp_all add: header_val_def metadata_val_def json_string_def json_char_def Let_def)

lemma loads_bytes_dumps:
  assumes "jsonable v" "take 4 (utf8_encode (dumps v)) = [CHR ''{'', dquote, c, d]" "byte c \<in> {1..127}" "byte d \<in> {1..127}"
  shows "loads_bytes (utf8_encode (dumps v)) = Inr v"
proof -
  have "take 3 (utf8_encode (dumps v)) = [CHR ''{'', dquote, c]"
    using arg_cong[OF assms(2), of "take 3"] by simp
  then show ?thesis using assms loads_dumps[OF assms(1)] by (simp add: loads_bytes_def)
qed

lemma seal_vals_jsonable:
  "jsonable (header_val key_id nonce ident digest)"
  "jsonable (PDict metadata) \<Longrightarrow> jsonable (metadata_val media value_hash metadata created)"
  by (simp_all add: header_val_def metadata_val_def wf_dict_def)

lemma open_plaintext_sealed:
  assumes "jsonable (PDict metadata)" "valid_dt (utc now)" "to_bytes 8 (length em) = Inr sz"
    and em: "em = utf8_encode (dumps (metadata_val media (bytes_hash vc content) metadata (utc now)))"
  shows "open_plaintext vc subject uri key_id (sz @ em @ content) =
    Inr (\<lparr>bo_object_uri = uri, bo_subject_id = subject, bo_media_type = media, bo_content_hash = bytes_hash vc content,
          bo_metadata = metadata, bo_key_id = key_id, bo_created_at = utc now\<rparr>, content)"
proof -
  let ?m = "metadata_val media (bytes_hash vc content) metadata (utc now)"
  have sz: "length sz = 8" "be_value sz = length em" using to_bytes_Inr[OF assms(3)] by simp_all
  have four: "take 4 em = [CHR ''{'', dquote, CHR ''c'', CHR ''o'']" unfolding em by (rule take_json(2))
  from arg_cong[OF this, of length] have "4 \<le> length em" by simp
  moreover have "loads_bytes em = Inr ?m"
    unfolding em by (rule loads_bytes_dumps[OF seal_vals_jsonable(2)[OF assms(1)] take_json(2)]) simp_all
  moreover have "parse_time (isoformat (utc now)) = Inr (utc now)"
    using parse_time_isoformat[OF assms(2)] by (simp add: astimezone_utc_def)
  ultimately show ?thesis
    using sz by (simp add: open_plaintext_def Let_def metadata_val_def val_item_def item_def dict_of_val_def pget_def get_or_def)
qed

lemma open_sealed:
  assumes sealed: "seal_envelope vc nonce now subject digest ident media content metadata = Inr envelope" and ok: "vault_ok vc"
    and input: "length nonce = 12" "jsonable (PDict metadata)" "valid_dt (utc now)"
    and fits: "\<And>key_id key. ko_active_key (vc_keys vc) subject = Inr (key_id, key) \<Longrightarrow>
      length (utf8_encode (dumps (header_val key_id nonce ident digest))) \<le> 64 * 1024"
  shows "\<exists>key_id. open_envelope vc subject uri digest ident envelope =
    Inr (\<lparr>bo_object_uri = uri, bo_subject_id = subject, bo_media_type = media, bo_content_hash = bytes_hash vc content,
          bo_metadata = metadata, bo_key_id = key_id, bo_created_at = utc now\<rparr>, content)"
proof -
  obtain key_id key where key: "ko_active_key (vc_keys vc) subject = Inr (key_id, key)" "length key = 32"
    using sealed by (auto simp: seal_envelope_def bindE_Inr_iff split: if_splits)
  let ?h = "header_val key_id nonce ident digest" and ?m = "metadata_val media (bytes_hash vc content) metadata (utc now)"
  define hb em where "hb = utf8_encode (dumps ?h)" and "em = utf8_encode (dumps ?m)"
  have json: "canonical_json ?h = Inr (dumps ?h)" "canonical_json ?m = Inr (dumps ?m)"
    using seal_vals_jsonable input(2) by (simp_all add: canonical_json_jsonable)
  obtain msize hsize where sz: "to_bytes 8 (length em) = Inr msize" "to_bytes 4 (length hb) = Inr hsize"
    and env: "envelope = magic @ hsize @ hb @ ci_encrypt (vc_cipher vc) key nonce (msize @ em @ content) hb"
    using sealed key json by (auto simp: seal_envelope_def bindE_Inr_iff Let_def hb_def em_def)
  have four: "take 4 hb = [CHR ''{'', dquote, CHR ''k'', CHR ''e'']" unfolding hb_def by (rule take_json(1))
  have h: "length hsize = 4" "be_value hsize = length hb" using to_bytes_Inr[OF sz(2)] by simp_all
  have len: "hb \<noteq> []" "length hb \<le> 64 * 1024"
    using four fits[OF key(1)] by (auto simp: hb_def)
  have read: "loads_bytes hb = Inr ?h"
    unfolding hb_def by (rule loads_bytes_dumps[OF seal_vals_jsonable(1) take_json(1)]) simp_all
  have law: "ko_key_for_id (vc_keys vc) subject key_id = Inr key"
    "ci_decrypt (vc_cipher vc) key nonce (ci_encrypt (vc_cipher vc) key nonce (msize @ em @ content) hb) hb = Some (msize @ em @ content)"
    using ok key(1) by (auto simp: vault_ok_def provider_ok_def cipher_ok_def)
  have slices: "be_value (take 4 (drop (length magic) envelope)) = length hb"
    "take (length hb) (drop (length magic + 4) envelope) = hb"
    "drop (length magic + 4 + length hb) envelope = ci_encrypt (vc_cipher vc) key nonce (msize @ em @ content) hb" "prefix magic envelope"
    using h by (simp_all add: env)
  have "open_envelope vc subject uri digest ident envelope = open_plaintext vc subject uri key_id (msize @ em @ content)"
    using slices len read law key(2) input(1) b64_roundtrip[of nonce]
    by (simp add: open_envelope_def Let_def header_val_def val_item_def item_def pget_def get_or_def nonce_bytes_def)
  also have "\<dots> = Inr (\<lparr>bo_object_uri = uri, bo_subject_id = subject, bo_media_type = media, bo_content_hash = bytes_hash vc content,
          bo_metadata = metadata, bo_key_id = key_id, bo_created_at = utc now\<rparr>, content)"
    by (rule open_plaintext_sealed[OF input(2,3) sz(1) em_def])
  finally show ?thesis by blast
qed

section \<open>Put and get\<close>

lemma put_path:
  assumes "names_ok vc" "value_hash = bytes_hash vc content"
  shows "parse_uri (object_uri (subject_digest vc subject) (deterministic_object_id vc subject media value_hash metadata))
      = Inr (subject_digest vc subject, deterministic_object_id vc subject media value_hash metadata)"
    "CHR ''/'' \<notin> set (deterministic_object_id vc subject media value_hash metadata)"
  using assms by (auto simp: names_ok_def subject_digest_def deterministic_object_id_def Let_def uuid_accepted(2) intro!: parse_object_uri)

definition stored_as :: "vault_config \<Rightarrow> files \<Rightarrow> string \<Rightarrow> string \<Rightarrow> string \<Rightarrow> string \<Rightarrow> pydict \<Rightarrow> bool" where
  "stored_as vc fs subject uri media content metadata \<longleftrightarrow>
     (\<exists>rec. vault_get vc fs subject uri = Inr (rec, content) \<and> bo_media_type rec = media \<and> bo_content_hash rec = bytes_hash vc content
        \<and> (\<exists>t. canonical_json (PDict (bo_metadata rec)) = Inr t \<and> canonical_json (PDict metadata) = Inr t))"

lemma same_acquisition_Inr:
  "same_acquisition vc fs subject uri media content metadata complaint = Inr u \<Longrightarrow> stored_as vc fs subject uri media content metadata"
  by (auto simp: same_acquisition_def stored_as_def bindE_Inr_iff split: if_splits)

text \<open>What was put is returned by \<open>get\<close>, whether this call or an earlier or concurrent one stored it.\<close>

lemma put_then_get:
  assumes put: "vault_put vc nonce now others subject media content metadata fs = (Inr (uri, h), fs')" and ok: "vault_ok vc"
    and input: "length nonce = 12" "jsonable (PDict metadata)" "valid_dt (utc now)"
    and fits: "\<And>key_id key. ko_active_key (vc_keys vc) subject = Inr (key_id, key) \<Longrightarrow>
      length (utf8_encode (dumps (header_val key_id nonce
        (deterministic_object_id vc subject media (bytes_hash vc content) metadata) (subject_digest vc subject)))) \<le> 64 * 1024"
  shows "h = bytes_hash vc content \<and> stored_as vc fs' subject uri media content metadata"
proof -
  define digest where "digest = subject_digest vc subject"
  define ident where "ident = deterministic_object_id vc subject media (bytes_hash vc content) metadata"
  have names: "names_ok vc" using ok by (simp add: vault_ok_def)
  note path = put_path[OF names refl, where subject = subject and media = media and metadata = metadata and content = content,
      folded digest_def ident_def]
  obtain p where p: "vault_path fs digest ident = Inr p"
    using put by (auto simp: vault_put_def Let_def digest_def ident_def split: if_splits sum.splits)
  then have p_is: "p = (digest, ident)" by (auto simp: vault_path_def split: if_splits)
  have reads: "subject \<noteq> []" "media \<noteq> []" "\<not> vc_max_object_bytes vc < int (length content)"
    using put by (auto simp: vault_put_def split: if_splits)
  note put' = put[unfolded vault_put_def Let_def, folded digest_def ident_def, simplified reads p p_is if_False simp_thms, simplified]
  consider (there) "fs (digest, ident) \<noteq> None" | (refused) err where "fs (digest, ident) = None"
      "seal_envelope vc nonce now subject digest ident media content metadata = Inl err"
    | (made) envelope where "fs (digest, ident) = None" "seal_envelope vc nonce now subject digest ident media content metadata = Inr envelope"
      "others fs (digest, ident) = None"
    | (raced) envelope where "fs (digest, ident) = None" "seal_envelope vc nonce now subject digest ident media content metadata = Inr envelope"
      "others fs (digest, ident) \<noteq> None"
    by (cases "seal_envelope vc nonce now subject digest ident media content metadata") blast+
  then show ?thesis
  proof cases
    case made
    obtain key_id where opened: "open_envelope vc subject uri digest ident envelope =
        Inr (\<lparr>bo_object_uri = uri, bo_subject_id = subject, bo_media_type = media, bo_content_hash = bytes_hash vc content,
          bo_metadata = metadata, bo_key_id = key_id, bo_created_at = utc now\<rparr>, content)"
      using open_sealed[OF made(2) ok input, of uri] fits digest_def ident_def by blast
    have result: "uri = object_uri digest ident" "h = bytes_hash vc content"
        "fs' = (others fs)((digest, ident) := Some (Regular envelope))"
      using put' made by simp_all
    have "vault_path fs' digest ident = Inr (digest, ident)" using path(2) result(3) by (simp add: vault_path_def)
    then have "vault_get vc fs' subject uri =
        Inr (\<lparr>bo_object_uri = uri, bo_subject_id = subject, bo_media_type = media, bo_content_hash = bytes_hash vc content,
          bo_metadata = metadata, bo_key_id = key_id, bo_created_at = utc now\<rparr>, content)"
      using path(1) result(1,3) opened by (simp add: vault_get_def digest_def)
    then show ?thesis using result(2) canonical_json_jsonable[OF input(2)] by (simp add: stored_as_def)
  next
    case there
    then show ?thesis using put' by (auto simp: bindE_Inr_iff dest: same_acquisition_Inr)
  next
    case raced
    then show ?thesis using put' by (auto simp: bindE_Inr_iff dest: same_acquisition_Inr)
  qed (use put' in simp)
qed

text \<open>A put of a new object within the limits succeeds.\<close>

lemma put_succeeds:
  assumes "names_ok vc" "subject \<noteq> []" "media \<noteq> []" "int (length content) \<le> vc_max_object_bytes vc" "\<And>k. fs k = None"
    and "ko_active_key (vc_keys vc) subject = Inr (key_id, key)" "length key = 32" "jsonable (PDict metadata)"
    and "length (utf8_encode (dumps (header_val key_id nonce
        (deterministic_object_id vc subject media (bytes_hash vc content) metadata) (subject_digest vc subject)))) < 256 ^ 4"
    and "length (utf8_encode (dumps (metadata_val media (bytes_hash vc content) metadata (utc now)))) < 256 ^ 8"
  shows "\<exists>uri h fs'. vault_put vc nonce now id subject media content metadata fs = (Inr (uri, h), fs')"
proof -
  let ?d = "subject_digest vc subject" and ?i = "deterministic_object_id vc subject media (bytes_hash vc content) metadata"
  have "canonical_json (header_val key_id nonce ?i ?d) = Inr (dumps (header_val key_id nonce ?i ?d))"
    "canonical_json (metadata_val media (bytes_hash vc content) metadata (utc now))
      = Inr (dumps (metadata_val media (bytes_hash vc content) metadata (utc now)))"
    using seal_vals_jsonable assms(8) by (simp_all add: canonical_json_jsonable)
  then obtain envelope where "seal_envelope vc nonce now subject ?d ?i media content metadata = Inr envelope"
    using assms(6,7,9,10) by (simp add: seal_envelope_def to_bytes_def Let_def)
  moreover have "vault_path fs ?d ?i = Inr (?d, ?i)" using put_path(2)[OF assms(1) refl] assms(5) by (simp add: vault_path_def)
  ultimately show ?thesis using assms(2-5) by (simp add: vault_put_def Let_def)
qed

text \<open>No put changes an object that is there when it links its file.\<close>

lemma put_keeps:
  assumes "others fs k = Some f" "fs k = Some f"
  shows "snd (vault_put vc nonce now others subject media content metadata fs) k = Some f"
  using assms by (auto simp: vault_put_def Let_def split: sum.splits)

section \<open>What get vouches for\<close>

lemma guarded_Inr: "guarded r = Inr v \<longleftrightarrow> r = Inr v"
  by (cases r; cases "projl r") (auto simp: wrong_def)

lemma wrong_not_Inr [simp]: "wrong m \<noteq> Inr v"
  by (simp add: wrong_def)

definition sealed_for :: "vault_config \<Rightarrow> string \<Rightarrow> string \<Rightarrow> string \<Rightarrow> bronze_object \<Rightarrow> string \<Rightarrow> string \<Rightarrow> bool" where
  "sealed_for vc subject digest ident rec content envelope \<longleftrightarrow>
     (\<exists>key nonce hsize hb header msize em. ko_key_for_id (vc_keys vc) subject (bo_key_id rec) = Inr key
        \<and> envelope = magic @ hsize @ hb @ ci_encrypt (vc_cipher vc) key nonce (msize @ em @ content) hb
        \<and> loads_bytes hb = Inr (PDict header) \<and> pget header ''object_id'' = PStr ident
        \<and> pget header ''subject_digest'' = PStr digest)"

lemma open_plaintext_Inr:
  assumes "open_plaintext vc subject uri key_id plain = Inr (rec, content)"
  shows "bo_object_uri rec = uri" "bo_subject_id rec = subject" "bo_key_id rec = key_id" "bo_content_hash rec = bytes_hash vc content"
    "\<exists>msize em. plain = msize @ em @ content"
proof -
  have f: "bo_object_uri rec = uri \<and> bo_subject_id rec = subject \<and> bo_key_id rec = key_id \<and> bo_content_hash rec = bytes_hash vc content
     \<and> content = drop (8 + be_value (take 8 plain)) plain"
    using assms by (auto simp: open_plaintext_def Let_def bindE_Inr_iff split: if_splits)
  then show "bo_object_uri rec = uri" "bo_subject_id rec = subject" "bo_key_id rec = key_id"
    "bo_content_hash rec = bytes_hash vc content" by simp_all
  have "plain = take 8 plain @ take (be_value (take 8 plain)) (drop 8 plain) @ content"
    using f by (metis add.commute append_take_drop_id drop_drop)
  then show "\<exists>msize em. plain = msize @ em @ content" by blast
qed

lemma get_sound:
  assumes get: "vault_get vc fs subject uri = Inr (rec, content)" and sound: "cipher_sound (vc_cipher vc)"
  shows "\<exists>ident envelope. uri = object_uri (subject_digest vc subject) ident
    \<and> fs (subject_digest vc subject, ident) = Some (Regular envelope)
    \<and> bo_object_uri rec = uri \<and> bo_subject_id rec = subject \<and> bo_content_hash rec = bytes_hash vc content
    \<and> sealed_for vc subject (subject_digest vc subject) ident rec content envelope"
proof -
  let ?d = "subject_digest vc subject"
  obtain ident envelope where u: "parse_uri uri = Inr (?d, ident)" "fs (?d, ident) = Some (Regular envelope)"
    and o: "open_envelope vc subject uri ?d ident envelope = Inr (rec, content)"
    using get by (auto simp: vault_get_def bindE_Inr_iff vault_path_def guarded_Inr split: if_splits option.splits entry.splits prod.splits)
  define hb where "hb = take (be_value (take 4 (drop (length magic) envelope))) (drop (length magic + 4) envelope)"
  define x where "x = drop (length magic + 4 + be_value (take 4 (drop (length magic) envelope))) envelope"
  obtain header version nonce key_id key plain where h: "prefix magic envelope" "loads_bytes hb = Inr header" "val_get header ''version'' = Inr version"
      "py_eq (pget (dict_val header) ''object_id'') (PStr ident)" "py_eq (pget (dict_val header) ''subject_digest'') (PStr ?d)"
      "ko_key_for_id (vc_keys vc) subject (py_str key_id) = Inr key" "ci_decrypt (vc_cipher vc) key nonce x hb = Some plain"
      "open_plaintext vc subject uri (py_str key_id) plain = Inr (rec, content)"
    using o by (auto simp: open_envelope_def Let_def bindE_Inr_iff hb_def x_def split: if_splits option.splits)
  obtain d where d: "header = PDict d" using h(3) by (auto simp: val_get_def split: pyval.splits)
  note p = open_plaintext_Inr[OF h(8)]
  obtain msize em where plain: "plain = msize @ em @ content" using p(5) by blast
  have x: "x = ci_encrypt (vc_cipher vc) key nonce plain hb" using sound h(7) by (auto simp: cipher_sound_def)
  obtain rest where rest: "envelope = magic @ rest" using h(1) by (auto simp: prefix_def)
  have "hb = take (be_value (take 4 rest)) (drop 4 rest)" "x = drop (be_value (take 4 rest)) (drop 4 rest)"
    unfolding hb_def x_def rest by (simp_all add: add.commute)
  then have "rest = take 4 rest @ hb @ x" by (simp only: append_take_drop_id)
  then have "envelope = magic @ take 4 rest @ hb @ ci_encrypt (vc_cipher vc) key nonce (msize @ em @ content) hb"
    using rest x plain by simp
  moreover have "ko_key_for_id (vc_keys vc) subject (bo_key_id rec) = Inr key" "loads_bytes hb = Inr (PDict d)"
      "pget d ''object_id'' = PStr ident" "pget d ''subject_digest'' = PStr ?d"
    using h(2,4-6) d p(3) by simp_all
  ultimately have "sealed_for vc subject ?d ident rec content envelope"
    unfolding sealed_for_def by blast
  then show ?thesis using u p(1,2,4) parse_uri_Inr[OF u(1)] by blast
qed

text \<open>A deleted object is gone, and nothing else is.\<close>

lemma delete_gone:
  assumes "vault_delete vc subject uri fs = (Inr b, fs')"
  shows "\<exists>ident. uri = object_uri (subject_digest vc subject) ident \<and> fs' = fs((subject_digest vc subject, ident) := None)
    \<and> vault_get vc fs' subject uri = Inl (NotFound ''Bronze object was not found'')"
proof -
  obtain digest ident where u: "parse_uri uri = Inr (digest, ident)"
    using assms by (auto simp: vault_delete_def split: sum.splits)
  have d: "digest = subject_digest vc subject"
    using assms u by (auto simp: vault_delete_def split: if_splits)
  have p: "vault_path fs digest ident = Inr (digest, ident)"
    using assms u d by (auto simp: vault_delete_def vault_path_def split: if_splits)
  have "fs' = fs((digest, ident) := None)"
    using assms u d p by (cases "fs (digest, ident) = None") (auto simp: vault_delete_def fun_upd_idem)
  then show ?thesis using parse_uri_Inr[OF u(1)] u d p by (auto simp: vault_get_def vault_path_def split: if_splits)
qed

end
