(* ===== verification/K2_Elicitation.thy ===== *)
theory K2_Elicitation
  imports K2_Epistemic_Laws K2_Bronze_Laws
begin

text \<open>
  \<open>DigitalTwinService.record_elicitation_response\<close> (\<open>src/src/argo_dt/service.py\<close>): the answer to a question of
  a verified plan goes into the bronze vault and then, as evidence, into the ledger. The vault is the port
  \<open>BronzeVault\<close> of \<open>ports.py\<close>: its \<open>put\<close> is an argument, its laws are the locale \<open>bronze_port\<close>, and the
  encrypted file vault is its interpretation. Shown: an answer is recorded only for a question of an
  authentic plan of that twin, its content can be read back from the address that its evidence names, and
  whatever fails, the service stays sound.
\<close>

section \<open>The command\<close>

type_synonym 'v put_op = "string \<Rightarrow> string \<Rightarrow> string \<Rightarrow> pydict \<Rightarrow> 'v \<Rightarrow> (string \<times> string) result \<times> 'v"

text \<open>The checks before anything is stored; the result is the question that is answered.\<close>

definition answer_gate ::
  "(string \<Rightarrow> string) \<Rightarrow> (string \<Rightarrow> string) \<Rightarrow> service_config \<Rightarrow> bool \<Rightarrow> string \<Rightarrow> string \<Rightarrow> elicitation_plan
     \<Rightarrow> elicitation_response \<Rightarrow> actor \<Rightarrow> elicitation_question step" where
  "answer_gate H uuid5 cf configured twin subject p response a =
     andS (intent ''EvidenceIngested'' INGEST_SERVICE a) (\<lambda>_.
     andS (subject_scope a (Some subject)) (\<lambda>_.
     andS (check configured (InvariantViolation ''elicitation requires a configured Bronze vault'')) (\<lambda>_.
     andS (check (ep_twin_id p = twin) (InvariantViolation ''elicitation plan belongs to a different twin'')) (\<lambda>_.
     andS (service_state H cf twin (Some (ep_source_sequence p)) None None) (\<lambda>source.
     andS (doneS (verify_plan uuid5 2 source p)) (\<lambda>_.
     andS (doneS (plan_question p (rs_question_id response))) (\<lambda>question.
     andS (current_state H cf twin) (\<lambda>s.
     andS (check (st_subject_id s = None \<or> st_subject_id s = Some subject)
        (InvariantViolation ''elicitation subject does not match twin subject'')) (\<lambda>_.
     doneS (Inr question))))))))))"

definition answer_content :: "elicitation_plan \<Rightarrow> elicitation_response \<Rightarrow> string result" where
  "answer_content p response =
     bindE (canonical_json (PDict
       [(''answer'', PStr (rs_answer response)), (''answered_at'', PTime (rs_answered_at response)),
        (''plan_id'', PStr (ep_plan_id p)), (''question_id'', PStr (rs_question_id response)),
        (''schema_version'', PStr ''argo.dt.elicitation-response/v1'')])) (\<lambda>t. Inr (utf8_encode t))"

definition answer_metadata :: "elicitation_plan \<Rightarrow> elicitation_response \<Rightarrow> pydict" where
  "answer_metadata p response =
     [(''connector_id'', PStr ''argo.dt.elicitation''), (''plan_id'', PStr (ep_plan_id p)),
      (''question_id'', PStr (rs_question_id response)), (''source_record_id'', PStr (rs_response_id response))]"

definition answer_payload ::
  "string \<Rightarrow> string \<Rightarrow> elicitation_plan \<Rightarrow> elicitation_response \<Rightarrow> elicitation_question \<Rightarrow> pydict \<Rightarrow> string \<Rightarrow> string \<Rightarrow> pydict" where
  "answer_payload evidence_id subject p response question rights uri source_hash =
     [(''bronze_uri'', PStr uri), (''content_hash'', PStr source_hash), (''evidence_id'', PStr evidence_id),
      (''independence_group'', PStr (''elicitation:'' @ ep_plan_id p)),
      (''normalized_payload'', PDict [(''gap_id'', PStr (qn_gap_id question)), (''plan_id'', PStr (ep_plan_id p)),
         (''plan_source_sequence'', PInt (ep_source_sequence p)), (''question_id'', PStr (qn_question_id question))]),
      (''rights'', PDict rights), (''sensitivity'', PStr (sensitivity_text (rs_sensitivity response))),
      (''source'', PStr ''elicitation''), (''source_record_id'', PStr (rs_response_id response)), (''subject_id'', PStr subject),
      (''valid_from'', PStr (isoformat (rs_answered_at response))), (''valid_until'', PNone)]"

text \<open>The evidence of a stored answer, and its append.\<close>

definition answer_evidence ::
  "(string \<Rightarrow> string) \<Rightarrow> (string \<Rightarrow> string) \<Rightarrow> service_config \<Rightarrow> readings \<Rightarrow> string \<Rightarrow> string \<Rightarrow> elicitation_plan
     \<Rightarrow> elicitation_response \<Rightarrow> pydict \<Rightarrow> int \<Rightarrow> string \<Rightarrow> actor \<Rightarrow> elicitation_question \<Rightarrow> string \<Rightarrow> string \<Rightarrow> event step" where
  "answer_evidence H uuid5 cf rd twin subject p response rights expected key a question uri source_hash =
     andS (doneS (identity_name [''elicitation'', twin, subject, rs_response_id response])) (\<lambda>name.
     append_new H cf rd a INGEST_SERVICE twin ''EvidenceIngested''
       (answer_payload (uuid5 name) subject p response question rights uri source_hash)
       (Some (rs_answered_at response)) key expected)"

definition record_elicitation_response ::
  "(string \<Rightarrow> string) \<Rightarrow> (string \<Rightarrow> string) \<Rightarrow> service_config \<Rightarrow> readings \<Rightarrow> 'v put_op option \<Rightarrow> string \<Rightarrow> string
     \<Rightarrow> elicitation_plan \<Rightarrow> elicitation_response \<Rightarrow> pydict \<Rightarrow> int \<Rightarrow> string \<Rightarrow> actor \<Rightarrow> service \<times> 'v \<Rightarrow> event result \<times> service \<times> 'v" where
  "record_elicitation_response H uuid5 cf rd vault twin subject p response rights expected key a w =
     (case answer_gate H uuid5 cf (vault \<noteq> None) twin subject p response a (fst w) of
        (Inl err, sv) \<Rightarrow> (Inl err, sv, snd w)
      | (Inr question, sv) \<Rightarrow>
          (case answer_content p response of
             Inl err \<Rightarrow> (Inl err, sv, snd w)
           | Inr content \<Rightarrow>
               (case the vault subject ''application/json'' content (answer_metadata p response) (snd w) of
                  (Inl err, v) \<Rightarrow> (Inl err, sv, v)
                | (Inr (uri, source_hash), v) \<Rightarrow>
                    (let (r, sv1) = answer_evidence H uuid5 cf rd twin subject p response rights expected key a question uri source_hash sv
                     in (r, sv1, v)))))"

section \<open>The port of the vault\<close>

locale bronze_port =
  fixes acceptable :: "string \<Rightarrow> string \<Rightarrow> string \<Rightarrow> pydict \<Rightarrow> bool"
    and put :: "'v put_op"
    and get :: "'v \<Rightarrow> string \<Rightarrow> string \<Rightarrow> (bronze_object \<times> string) result"
  assumes put_get: "put subject media content metadata v = (Inr (uri, h), v') \<Longrightarrow> acceptable subject media content metadata \<Longrightarrow>
      \<exists>rec. get v' subject uri = Inr (rec, content) \<and> bo_media_type rec = media \<and> bo_content_hash rec = h"

definition sealable :: "vault_config \<Rightarrow> string \<Rightarrow> int \<Rightarrow> string \<Rightarrow> string \<Rightarrow> string \<Rightarrow> pydict \<Rightarrow> bool" where
  "sealable vc nonce now subject media content metadata \<longleftrightarrow>
     vault_ok vc \<and> length nonce = 12 \<and> jsonable (PDict metadata) \<and> valid_dt (utc now)
     \<and> (\<forall>key_id key. ko_active_key (vc_keys vc) subject = Inr (key_id, key) \<longrightarrow>
          length (utf8_encode (dumps (header_val key_id nonce
            (deterministic_object_id vc subject media (bytes_hash vc content) metadata) (subject_digest vc subject)))) \<le> 64 * 1024)"

interpretation file_vault: bronze_port "sealable vc nonce now" "vault_put vc nonce now others" "vault_get vc"
proof
  fix subject media content metadata fs uri h fs'
  assume p: "vault_put vc nonce now others subject media content metadata fs = (Inr (uri, h), fs')"
    and a: "sealable vc nonce now subject media content metadata"
  have "h = bytes_hash vc content \<and> stored_as vc fs' subject uri media content metadata"
    by (rule put_then_get[OF p]) (use a in \<open>simp_all add: sealable_def del: jsonable.simps dumps.simps\<close>)
  then show "\<exists>rec. vault_get vc fs' subject uri = Inr (rec, content) \<and> bo_media_type rec = media \<and> bo_content_hash rec = h"
    by (auto simp: stored_as_def)
qed

section \<open>Laws\<close>

lemma answer_gate_quiet [quiet_intros]: "quiet H cf (answer_gate H uuid5 cf configured twin subject p response a)"
  unfolding answer_gate_def by (intro quiet_intros)

lemma answer_evidence_commits:
  "commits H cf rd a ''EvidenceIngested'' INGEST_SERVICE
     (answer_evidence H uuid5 cf rd twin subject p response rights expected key a question uri source_hash)"
  unfolding answer_evidence_def by (intro quiet_intros)

text \<open>What an answered question had to pass.\<close>

definition answers :: "(string \<Rightarrow> string) \<Rightarrow> (string \<Rightarrow> string) \<Rightarrow> db \<Rightarrow> string \<Rightarrow> string \<Rightarrow> elicitation_plan \<Rightarrow> string \<Rightarrow> actor
    \<Rightarrow> elicitation_question \<Rightarrow> bool" where
  "answers H uuid5 db twin subject p question_id a question \<longleftrightarrow>
     INGEST_SERVICE \<in> roles a \<and> authorize_subject a (Some subject) = Inr () \<and> ep_twin_id p = twin
     \<and> question \<in> set (ep_questions p) \<and> qn_question_id question = question_id
     \<and> (\<exists>source. full_replay H db twin (Some (ep_source_sequence p)) None = Inr source \<and> verify_plan uuid5 2 source p = Inr ())
     \<and> (\<exists>s. full_replay H db twin None None = Inr s \<and> (st_subject_id s = None \<or> st_subject_id s = Some subject))"

lemma plan_question_Inr: "plan_question p ident = Inr q \<Longrightarrow> q \<in> set (ep_questions p) \<and> qn_question_id q = ident"
  by (auto simp: plan_question_def find_Some_iff violation_def split: option.splits)

lemma service_read_Inr:
  assumes "service_ok H cf sv" "service_state H cf twin up_to None as_of sv = (Inr s, sv')"
  shows "full_replay H (sv_db sv) twin up_to as_of = Inr s \<and> service_ok H cf sv' \<and> sv_db sv' = sv_db sv"
  using service_state_law[OF assms] by (simp add: bindE_def split: sum.splits)

lemma answer_gate_Inr:
  assumes ok: "service_ok H cf sv" and gate: "answer_gate H uuid5 cf configured twin subject p response a sv = (Inr question, sv')"
  shows "configured \<and> answers H uuid5 (sv_db sv) twin subject p (rs_question_id response) a question
    \<and> service_ok H cf sv' \<and> sv_db sv' = sv_db sv"
proof -
  from gate obtain source sv1 s sv2 where st: "service_state H cf twin (Some (ep_source_sequence p)) None None sv = (Inr source, sv1)"
      "service_state H cf twin None None None sv1 = (Inr s, sv2)"
    and c: "authorize_intent ''EvidenceIngested'' INGEST_SERVICE a = Inr ()" "authorize_subject a (Some subject) = Inr ()"
      "configured" "ep_twin_id p = twin" "verify_plan uuid5 2 source p = Inr ()" "plan_question p (rs_question_id response) = Inr question"
      "st_subject_id s = None \<or> st_subject_id s = Some subject" "sv' = sv2"
    unfolding answer_gate_def current_state_def
    by (auto dest!: current_step simp: intent_def subject_scope_def check_def doneS_def split: if_splits)
  note r1 = service_read_Inr[OF ok st(1)]
  have r2: "full_replay H (sv_db sv1) twin None None = Inr s \<and> service_ok H cf sv2 \<and> sv_db sv2 = sv_db sv1"
    using service_read_Inr st(2) r1 by blast
  show ?thesis
    using r1 r2 c plan_question_Inr[OF c(6)] by (auto simp: answers_def authorize_intent_iff)
qed

text \<open>Whatever the command and the vault do, the service stays sound and no stream loses an event.\<close>

definition answer_fit :: "readings \<Rightarrow> elicitation_response \<Rightarrow> pydict \<Rightarrow> bool" where
  "answer_fit rd response rights \<longleftrightarrow> plain rights \<and> storable_time (rs_answered_at response)
     \<and> storable_time (utc (rd_append rd)) \<and> storable_time (utc (rd_snapshot rd))"

lemma answer_payload_plain: "plain rights \<Longrightarrow> plain (answer_payload i subject p response question rights uri h)"
  by (simp add: plain_def answer_payload_def wf_dict_def)

lemma answer_evidence_law:
  assumes "service_ok H cf sv" "replays H (sv_db sv)" "answer_fit rd response rights"
    and "answer_evidence H uuid5 cf rd twin subject p response rights expected key a question uri h sv = (r, sv')"
  shows "service_ok H cf sv' \<and> replays H (sv_db sv') \<and> (\<forall>out. r = Inr out \<longrightarrow>
    (\<exists>name. \<exists>e\<in>set (stream (sv_db sv') twin). event_type e = ''EvidenceIngested''
       \<and> payload e = answer_payload (uuid5 name) subject p response question rights uri h))"
proof (cases "identity_name [''elicitation'', twin, subject, rs_response_id response]")
  case (Inl err)
  then show ?thesis using assms by (auto simp: answer_evidence_def andS_simp doneS_def)
next
  case (Inr name)
  define ev where "ev = event_new (rd_fresh rd) (rd_new rd) twin ''EvidenceIngested'' AUTHORITATIVE
    (answer_payload (uuid5 name) subject p response question rights uri h) (identity_id a) INGEST_SERVICE key (Some (rs_answered_at response)) None None"
  have run: "service_append H cf rd ev a expected sv = (r, sv')"
    using assms(4) Inr by (simp add: answer_evidence_def andS_simp doneS_def append_new_def ev_def)
  have fit: "event_fit rd ev"
    using assms(3) answer_payload_plain by (simp add: event_fit_def answer_fit_def ev_def event_new_def)
  note law = service_append_law[OF assms(1,2) fit run]
  have "\<exists>e\<in>set (stream (sv_db sv') twin). event_type e = ''EvidenceIngested''
       \<and> payload e = answer_payload (uuid5 name) subject p response question rights uri h" if r: "r = Inr out" for out
  proof -
    obtain db1 where db1: "append H (rd_append rd) ev expected (sv_db sv) = Inr (out, db1)" "db_events (sv_db sv') = db_events db1"
      using law r by blast
    show ?thesis
      using append_answer_stored[OF db1(1) service_db_inv[OF assms(1)] fit] same_events(1)[OF db1(2)] by (simp add: ev_def event_new_def)
  qed
  then show ?thesis using law by (auto simp: sound_after_def)
qed

lemma recording_sound:
  assumes "service_ok H cf sv" "replays H (sv_db sv)" "answer_fit rd response rights"
    and "record_elicitation_response H uuid5 cf rd vault twin subject p response rights expected key a (sv, v) = (r, sv', v')"
  shows "service_ok H cf sv' \<and> replays H (sv_db sv')"
proof -
  obtain g sv1 where g: "answer_gate H uuid5 cf (vault \<noteq> None) twin subject p response a sv = (g, sv1)"
    by (cases "answer_gate H uuid5 cf (vault \<noteq> None) twin subject p response a sv")
  have q: "service_ok H cf sv1" "replays H (sv_db sv1)"
    using answer_gate_quiet[of H cf uuid5 "vault \<noteq> None" twin subject p response a] assms(1,2) g by (auto simp: quiet_def dest!: spec[of _ sv])
  show ?thesis
    using assms(4) g q answer_evidence_law[OF q assms(3)]
    by (auto simp: record_elicitation_response_def Let_def split: sum.splits prod.splits)
qed

context bronze_port
begin

text \<open>The content of a recorded answer is in the vault, where its evidence says.\<close>

lemma recorded_answer:
  assumes ok: "service_ok H cf sv" "replays H (sv_db sv)" "answer_fit rd response rights"
    and run: "record_elicitation_response H uuid5 cf rd (Some put) twin subject p response rights expected key a (sv, v) = (Inr out, sv', v')"
    and vault: "\<And>content. acceptable subject ''application/json'' content (answer_metadata p response)"
  shows "\<exists>question content rec name. answers H uuid5 (sv_db sv) twin subject p (rs_question_id response) a question
    \<and> answer_content p response = Inr content
    \<and> (\<exists>uri. get v' subject uri = Inr (rec, content) \<and> bo_media_type rec = ''application/json''
        \<and> (\<exists>e\<in>set (stream (sv_db sv') twin). event_type e = ''EvidenceIngested''
           \<and> payload e = answer_payload (uuid5 name) subject p response question rights uri (bo_content_hash rec)))"
proof -
  from run obtain question sv1 content uri h where
    g: "answer_gate H uuid5 cf True twin subject p response a sv = (Inr question, sv1)"
    and c: "answer_content p response = Inr content"
    and put: "put subject ''application/json'' content (answer_metadata p response) v = (Inr (uri, h), v')"
    and e: "answer_evidence H uuid5 cf rd twin subject p response rights expected key a question uri h sv1 = (Inr out, sv')"
    by (auto simp: record_elicitation_response_def Let_def split: sum.splits prod.splits)
  note gate = answer_gate_Inr[OF ok(1) g]
  then have sv1: "service_ok H cf sv1" "replays H (sv_db sv1)" using ok(2) by simp_all
  obtain rec where rec: "get v' subject uri = Inr (rec, content)" "bo_media_type rec = ''application/json''" "bo_content_hash rec = h"
    using put_get[OF put vault] by blast
  obtain name where "\<exists>e\<in>set (stream (sv_db sv') twin). event_type e = ''EvidenceIngested''
       \<and> payload e = answer_payload (uuid5 name) subject p response question rights uri h"
    using answer_evidence_law[OF sv1 ok(3) e] by blast
  then show ?thesis using gate c rec by blast
qed

end

end
