(* ===== verification/K2_Examples_Vault.thy ===== *)
theory K2_Examples_Vault
  imports K2_Elicitation K2_Examples_Service K2_Service_Streams K2_Simulation
begin

text \<open>
  A vault with one key and a cipher that hides nothing, and an object in it: the inputs of the witnesses
  about the vault, the elicitation and the streams of the service.
\<close>

definition ex_cipher :: cipher where
  "ex_cipher = \<lparr>ci_encrypt = (\<lambda>key nonce plain extra. plain), ci_decrypt = (\<lambda>key nonce x extra. Some x)\<rparr>"

definition ex_uuid :: string where
  "ex_uuid = ''00000000-0000-0000-0000-000000000000''"

definition ex_vault :: vault_config where
  "ex_vault = \<lparr>vc_sha = ex_hex, vc_uuid5 = (\<lambda>_. ex_uuid), vc_cipher = ex_cipher,
     vc_keys = (case static_keys ''k1'' (replicate 32 CHR ''k'') of Inr ks \<Rightarrow> ks | Inl _ \<Rightarrow> undefined),
     vc_max_object_bytes = 1000\<rparr>"

lemma ex_keys: "ko_active_key (vc_keys ex_vault) ''s'' = Inr (''k1'', replicate 32 CHR ''k'')"
  by (simp add: ex_vault_def static_keys_def)

lemma ex_vault_ok: "vault_ok ex_vault" "cipher_sound (vc_cipher ex_vault)"
proof -
  have u: "uuid_text ex_uuid"
    unfolding uuid_text_def ex_uuid_def
    by (intro exI[of _ "''00000000''"] exI[of _ "''0000''"] exI[of _ "''000000000000''"])
      (simp add: is_lower_hex_def is_digit_def digit_of_def)
  have "names_ok ex_vault"
    using u ex_hex_digest by (simp add: names_ok_def ex_vault_def hex_digest_def)
  moreover have "provider_ok (vc_keys ex_vault)"
    using static_provider_ok[of "''k1''" "replicate 32 CHR ''k''"] by (simp add: ex_vault_def static_keys_def)
  ultimately show "vault_ok ex_vault" by (simp add: vault_ok_def cipher_ok_def ex_vault_def ex_cipher_def)
  show "cipher_sound (vc_cipher ex_vault)" by (simp add: cipher_sound_def ex_vault_def ex_cipher_def)
qed

definition ex_nonce :: string where
  "ex_nonce = replicate 12 CHR ''n''"

lemma ex_header_fits: "length (utf8_encode (dumps (header_val ''k1'' ex_nonce ex_uuid (ex_hex [])))) \<le> 1000"
  by code_simp

lemma pad_digits:
  "pad 2 n = [digit_char (n div 10 mod 10), digit_char (n mod 10)]"
  "pad 4 n = [digit_char (n div 1000 mod 10), digit_char (n div 100 mod 10), digit_char (n div 10 mod 10), digit_char (n mod 10)]"
  "pad 6 n = pad 4 (n div 100) @ pad 2 n"
proof -
  show two: "pad 2 m = [digit_char (m div 10 mod 10), digit_char (m mod 10)]" for m by (simp add: numeral_2_eq_2)
  have four: "pad 4 m = pad 2 (m div 100) @ pad 2 m" for m
    using pad.simps(2)[of 3 m] pad.simps(2)[of 2 "m div 10"] two by (simp add: div_mult2_eq[symmetric])
  show "pad 4 n = [digit_char (n div 1000 mod 10), digit_char (n div 100 mod 10), digit_char (n div 10 mod 10), digit_char (n mod 10)]"
    using four two by (simp add: div_mult2_eq[symmetric])
  show "pad 6 n = pad 4 (n div 100) @ pad 2 n"
    using pad.simps(2)[of 5 n] pad.simps(2)[of 4 "n div 10"] two by (simp add: div_mult2_eq[symmetric])
qed

lemma ex_date: "isoformat (utc 5) = ''0001-01-01T00:00:00.000005+00:00''"
  by (simp add: isoformat_def iso_with_def utc_def date_text_def ymd_of_days_def month_lengths_def
    seconds_text_def fraction_text_def offset_text_def Let_def pad_digits digit_char_def char_of_eq_iff)

lemma ex_metadata_fits:
  "length (utf8_encode (dumps (metadata_val ''text/plain'' (''sha256:'' @ ex_hex []) [] (utc 5)))) \<le> 1000"
  unfolding metadata_val_def ex_date ex_hex_def by code_simp

lemma ex_put: "\<exists>uri h fs'. vault_put ex_vault ex_nonce 5 id ''s'' ''text/plain'' ''hello'' [] (\<lambda>_. None) = (Inr (uri, h), fs')"
proof (rule put_succeeds[OF _ _ _ _ _ ex_keys])
  have e: "ex_hex x = ex_hex []" for x by (simp add: ex_hex_def)
  have i: "deterministic_object_id ex_vault ''s'' ''text/plain'' (bytes_hash ex_vault ''hello'') [] = ex_uuid"
    "subject_digest ex_vault ''s'' = ex_hex []" "bytes_hash ex_vault ''hello'' = ''sha256:'' @ ex_hex []"
    by (simp_all add: deterministic_object_id_def subject_digest_def bytes_hash_def ex_vault_def Let_def ex_hex_def)
  show "names_ok ex_vault" using ex_vault_ok(1) by (simp add: vault_ok_def)
  show "length (utf8_encode (dumps (header_val ''k1'' ex_nonce
      (deterministic_object_id ex_vault ''s'' ''text/plain'' (bytes_hash ex_vault ''hello'') []) (subject_digest ex_vault ''s'')))) < 256 ^ 4"
    unfolding i(1,2) by (rule le_less_trans[OF ex_header_fits]) simp
  show "length (utf8_encode (dumps (metadata_val ''text/plain'' (bytes_hash ex_vault ''hello'') [] (utc 5)))) < 256 ^ 8"
    unfolding i(3) by (rule le_less_trans[OF ex_metadata_fits]) simp
qed (simp_all add: ex_vault_def)

end
