(* ===== verification/K2_Examples_Elicitation.thy ===== *)
theory K2_Examples_Elicitation
  imports K2_Examples_Vault K2_Examples_Commands
begin

text \<open>
  A plan for a twin without claims, an answer to its question, and the run that records the answer: the
  inputs of the witnesses about elicitation.
\<close>

definition ex_uuid5 :: "string \<Rightarrow> string" where
  "ex_uuid5 s = ex_uuid"

definition ex_plan :: elicitation_plan where
  "ex_plan = \<lparr>ep_plan_id = ''plan-'' @ ex_uuid, ep_twin_id = ''t'', ep_source_sequence = 0, ep_objective = ''goal'', ep_claim_ids = [],
     ep_gaps = [\<lparr>gp_gap_id = ''gap-'' @ ex_uuid, gp_kind = MISSING_CLAIM, gp_target_ids = [],
        gp_rationale = ak_rationale (missing_ask ''goal'')\<rparr>],
     ep_questions = [\<lparr>qn_question_id = ''question-'' @ ex_uuid, qn_gap_id = ''gap-'' @ ex_uuid, qn_prompt = ak_prompt (missing_ask ''goal''),
        qn_requested_relation = ''supports_or_refutes''\<rparr>]\<rparr>"

lemma ex_make_plan: "make_plan ex_uuid5 2 (init_state ''t'') ''goal'' None = Inr ex_plan"
  "make_plan ex_uuid5 2 (init_state ''t'') ''goal'' (Some []) = Inr ex_plan"
proof -
  have id: "list_all finite_floats parts \<Longrightarrow> stable_id ex_uuid5 kind parts = Inr (kind @ ''-'' @ ex_uuid)" for kind parts
    by (simp add: stable_id_def canonical_json_def ex_uuid5_def del: dumps.simps)
  have goal: "py_strip ''goal'' \<noteq> []" by (simp add: py_strip_def is_space_def Let_def)
  show "make_plan ex_uuid5 2 (init_state ''t'') ''goal'' None = Inr ex_plan"
    "make_plan ex_uuid5 2 (init_state ''t'') ''goal'' (Some []) = Inr ex_plan"
    using goal
    by (simp_all add: make_plan_def asks_def selected_claims_def init_state_def add_gap_def id missing_ask_def ex_plan_def)
qed

definition ex_response :: elicitation_response where
  "ex_response = \<lparr>rs_response_id = ''r1'', rs_question_id = ''question-'' @ ex_uuid, rs_answer = ''yes'', rs_sensitivity = PUBLIC,
     rs_answered_at = utc 5\<rparr>"

lemma ex_empty_replay: "full_replay H empty_db ''t'' up_to as_of = Inr (init_state ''t'')"
  by (simp add: full_replay_def cut_def stream_def stream_rows_def empty_db_def split: option.split)

lemma ex_state:
  assumes "service_ok H cf sv" "sv_db sv = empty_db"
  shows "\<exists>sv'. service_state H cf ''t'' up_to None as_of sv = (Inr (init_state ''t''), sv') \<and> service_ok H cf sv' \<and> sv_db sv' = empty_db"
  using service_state_law[OF assms(1) surjective_pairing, of "''t''" up_to None as_of] ex_empty_replay[of H up_to as_of] assms(2)
  by (intro exI[of _ "snd (service_state H cf ''t'' up_to None as_of sv)"]) (simp add: prod_eq_iff)

lemma ex_service_db: "sv_db ex_service = empty_db"
  by (simp add: ex_service_def)

lemma ex_plan_made: "\<exists>sv'. plan_elicitation ex_digest ex_uuid5 ex_config ''t'' ''goal'' None ex_service = (Inr ex_plan, sv')"
  using ex_state[OF ex_service_ok ex_service_db, of ex_digest None None] ex_make_plan(1) by (auto simp: plan_elicitation_def current_state_def andS_simp doneS_def)

lemma ex_trace: "\<exists>sv' t. trace_lineage ex_digest ex_config ''t'' EVIDENCE_NODE i None sv = (Inr t, sv')"
  if sv: "service_ok ex_digest ex_config sv" "sv_db sv = empty_db" and i: "i \<noteq> []"
proof -
  obtain sv1 where st: "service_state ex_digest ex_config ''t'' None None None sv = (Inr (init_state ''t''), sv1)" "sv_db sv1 = empty_db"
    using ex_state[OF sv, of None None] by blast
  have empty: "edges_up_to twin c (db_dependencies empty_db) = []" for twin c by (simp add: edges_up_to_def empty_db_def)
  have "dependents empty_db ''t'' ''evidence'' i True (Some 0) = Inr []" "ancestors empty_db ''t'' ''evidence'' i True (Some 0) = Inr []"
    using i empty by (simp_all add: dependents_def ancestors_def lineage_kinds_def Let_def impacted_def successors_def flip_def cutoff_of_def)
  then show ?thesis
    using st i by (simp add: trace_lineage_def andS_simp doneS_def readS_def make_node_def trace_def init_state_def)
qed

section \<open>Recording the answer\<close>

definition ex_content :: string where
  "ex_content = utf8_encode (dumps (PDict
     [(''answer'', PStr ''yes''), (''answered_at'', PStr ''0001-01-01T00:00:00.000005Z''), (''plan_id'', PStr (''plan-'' @ ex_uuid)),
      (''question_id'', PStr (''question-'' @ ex_uuid)), (''schema_version'', PStr ''argo.dt.elicitation-response/v1'')]))"

lemma ex_answer_content: "answer_content ex_plan ex_response = Inr ex_content"
  by (simp add: answer_content_def canonical_json_def ex_plan_def ex_response_def iso_z_def astimezone_utc_def ex_date ex_content_def
    del: dumps.simps)

lemma ex_content_fits: "length ex_content \<le> 1000"
  unfolding ex_content_def by code_simp

lemma ex_answer_metadata_fits:
  "length (utf8_encode (dumps (metadata_val ''application/json'' (''sha256:'' @ ex_hex []) (answer_metadata ex_plan ex_response) (utc 5)))) \<le> 2000"
  unfolding metadata_val_def ex_date ex_hex_def answer_metadata_def ex_plan_def ex_response_def
  by code_simp

lemma ex_vault_names: "ex_hex x = ex_hex []" "deterministic_object_id ex_vault subject media h metadata = ex_uuid"
  "subject_digest ex_vault subject = ex_hex []" "bytes_hash ex_vault content = ''sha256:'' @ ex_hex []"
  by (simp_all add: deterministic_object_id_def subject_digest_def bytes_hash_def ex_vault_def Let_def ex_hex_def)

lemma ex_vault_key: "subject \<noteq> [] \<Longrightarrow> ko_active_key (vc_keys ex_vault) subject = Inr (''k1'', replicate 32 CHR ''k'')"
  by (simp add: ex_vault_def static_keys_def)

lemma ex_answer_metadata: "jsonable (PDict (answer_metadata p r))"
  by (simp add: answer_metadata_def wf_dict_def)

lemma ex_sealable: "sealable ex_vault ex_nonce 5 ''alice'' ''application/json'' content (answer_metadata p r)"
  unfolding sealable_def
proof (intro conjI allI impI)
  show "length ex_nonce = 12" by (simp add: ex_nonce_def)
  show "valid_dt (utc 5)" by (simp add: valid_dt_def utc_def)
  fix key_id key
  assume "ko_active_key (vc_keys ex_vault) ''alice'' = Inr (key_id, key)"
  then have k: "key_id = ''k1''" using ex_vault_key[of "''alice''"] by simp
  show "length (utf8_encode (dumps (header_val key_id ex_nonce (deterministic_object_id ex_vault ''alice'' ''application/json''
      (bytes_hash ex_vault content) (answer_metadata p r)) (subject_digest ex_vault ''alice'')))) \<le> 64 * 1024"
    unfolding ex_vault_names(2,3) k by (rule order_trans[OF ex_header_fits]) simp
qed (rule ex_vault_ok ex_answer_metadata)+

lemma ex_answer_put: "\<exists>uri h fs'. vault_put ex_vault ex_nonce 5 id ''alice'' ''application/json'' ex_content (answer_metadata ex_plan ex_response)
    (\<lambda>_. None) = (Inr (uri, h), fs')"
proof (rule put_succeeds[OF _ _ _ _ _ ex_vault_key])
  show "names_ok ex_vault" using ex_vault_ok(1) by (simp add: vault_ok_def)
  show "length (utf8_encode (dumps (header_val ''k1'' ex_nonce (deterministic_object_id ex_vault ''alice'' ''application/json''
      (bytes_hash ex_vault ex_content) (answer_metadata ex_plan ex_response)) (subject_digest ex_vault ''alice'')))) < 256 ^ 4"
    unfolding ex_vault_names(2,3) by (rule le_less_trans[OF ex_header_fits]) simp
  show "length (utf8_encode (dumps (metadata_val ''application/json'' (bytes_hash ex_vault ex_content) (answer_metadata ex_plan ex_response)
      (utc 5)))) < 256 ^ 8"
    unfolding ex_vault_names(4) by (rule le_less_trans[OF ex_answer_metadata_fits]) simp
  show "int (length ex_content) \<le> vc_max_object_bytes ex_vault" using ex_content_fits by (simp add: ex_vault_def)
qed (rule ex_answer_metadata | simp)+

text \<open>The event of that answer is admitted by the empty twin.\<close>

definition ex_answer_event :: "string \<Rightarrow> string \<Rightarrow> event" where
  "ex_answer_event uri h = event_new ''id1'' 6 ''t'' ''EvidenceIngested'' AUTHORITATIVE
     (answer_payload ex_uuid ''alice'' ex_plan ex_response (hd (ep_questions ex_plan)) [] uri h) ''p'' INGEST_SERVICE ''k1'' (Some (utc 5)) None None"

lemma ex_answer_valid: "validate_event (ex_answer_event uri h\<lparr>sequence := n\<rparr>) = Inr ()" if "h \<noteq> []"
  using that
  by (simp add: validate_event_def ex_answer_event_def event_new_def require_def validate_payload_def projection_events_def
      validate_evidence_ingested_def require_fields_def missing_fields_def answer_payload_def dict_has_def ex_plan_def ex_response_def
      all_truthy_def pget_def get_or_def sensitivity_of_def enum_of_def all_sensitivities_def utc_def naive_def ex_uuid_def)

lemma ex_answer_handled: "ok (handle (ex_answer_event uri h) (init_state ''t''))"
  by (simp add: handle_def handlers_def h_evidence_ingested_def text_item_def item_def bind_subject_def init_state_def
      ex_answer_event_def event_new_def answer_payload_def require_def)

definition ex_ingester :: actor where
  "ex_ingester = \<lparr>identity_id = ''p'', roles = {INGEST_SERVICE}, actor_subject_id = Some ''alice''\<rparr>"

lemma ex_gate: "\<exists>sv1. answer_gate H ex_uuid5 ex_quiet_config True ''t'' ''alice'' ex_plan ex_response ex_ingester ex_service
    = (Inr (hd (ep_questions ex_plan)), sv1) \<and> service_ok H ex_quiet_config sv1 \<and> sv_db sv1 = empty_db"
proof -
  obtain sv1 where one: "service_state H ex_quiet_config ''t'' (Some 0) None None ex_service = (Inr (init_state ''t''), sv1)"
    "service_ok H ex_quiet_config sv1" "sv_db sv1 = empty_db"
    using ex_state[OF ex_quiet_service_ok ex_service_db, of H "Some 0" None] by blast
  obtain sv2 where two: "service_state H ex_quiet_config ''t'' None None None sv1 = (Inr (init_state ''t''), sv2)"
    "service_ok H ex_quiet_config sv2" "sv_db sv2 = empty_db"
    using ex_state[OF one(2,3), of None None] by blast
  have "verify_plan ex_uuid5 2 (init_state ''t'') ex_plan = Inr ()"
    using ex_make_plan(2) by (simp add: verify_plan_iff ex_plan_def)
  moreover have "plan_question ex_plan (rs_question_id ex_response) = Inr (hd (ep_questions ex_plan))"
    by (simp add: plan_question_def ex_plan_def ex_response_def)
  moreover have "ep_source_sequence ex_plan = 0" "ep_twin_id ex_plan = ''t''" by (simp_all add: ex_plan_def)
  moreover have "st_subject_id (init_state ''t'') = None" by (simp add: init_state_def)
  ultimately show ?thesis
    using one two
    by (simp add: answer_gate_def current_state_def andS_simp doneS_def intent_def subject_scope_def check_def authorize_intent_def
        authorize_subject_def EVENT_OWNERS_def ex_ingester_def)
qed

lemma ex_answer_append:
  assumes sv: "service_ok H ex_quiet_config sv" "sv_db sv = empty_db" and h: "h \<noteq> []"
  shows "\<exists>out sv'. service_append H ex_quiet_config ex_readings (ex_answer_event uri h) ex_ingester 0 sv = (Inr out, sv')"
proof -
  let ?ev = "ex_answer_event uri h"
  have plain: "plain (payload ?ev)"
    unfolding ex_answer_event_def event_new_def event.simps by (rule answer_payload_plain) (simp add: plain_def wf_dict_def)
  have fit: "event_fit ex_readings ?ev"
    using plain by (simp add: event_fit_def ex_readings_def storable_time_def valid_dt_def utc_def naive_def ex_answer_event_def event_new_def)
  have json: "jsonable (to_primitive (PDict (payload ?ev)))"
    using plain by (simp add: plain_def jsonable_primitive del: to_primitive.simps jsonable.simps)
  obtain preview where pv: "seal H ?ev (0 + 1) [] (utc 7) = Inr preview" using seal_ok[OF json] by blast
  have "validate_event preview = Inr ()" "plane preview = AUTHORITATIVE" "ok (handle preview (init_state ''t''))"
    using ex_answer_valid[OF h, where uri = uri and n = 1] seal_fields[OF pv] seal_Inr(2)[OF pv] ex_answer_handled[of uri h]
    by (auto simp: validate_event_def validate_payload_def handle_def handlers_def h_evidence_ingested_def ex_answer_event_def event_new_def)
  moreover have "twin_id preview = ''t''" "previous_hash preview = []" "sequence preview = 1"
    using seal_fields[OF pv] seal_Inr(2)[OF pv] by (simp_all add: ex_answer_event_def event_new_def)
  ultimately have applied: "ok (apply_event (init_state ''t'') preview)"
    by (auto simp: apply_event_def require_def ok_iff init_state_def)
  show ?thesis
  proof (rule service_append_succeeds[OF sv(1) fit])
    show "authorize ?ev ex_ingester = Inr ()"
      by (simp add: authorize_def authorize_intent_def authorize_subject_def EVENT_OWNERS_def ex_ingester_def ex_answer_event_def event_new_def
          answer_payload_def pget_def get_or_def opt_of_val_def)
    show "validate_event ?ev = Inr ()" using ex_answer_valid[OF h, where uri = uri and n = 0] by (simp add: ex_answer_event_def event_new_def)
    show "head (sv_db sv) (twin_id ?ev) = (0, [])" using sv(2) by (simp add: head_def head_row_def stream_rows_def empty_db_def)
    show "duplicate_row (sv_db sv) ?ev = None" "event_id ?ev \<notin> er_event_id ` set (db_events (sv_db sv))"
      using sv(2) by (simp_all add: duplicate_row_def empty_db_def)
    show "edges_of ?ev = Inr []" by (simp add: edges_of_def ex_answer_event_def event_new_def)
    show "full_replay H (sv_db sv) (twin_id ?ev) None None = Inr (init_state ''t'')"
      using ex_empty_replay[of H None None] sv(2) by (simp add: ex_answer_event_def event_new_def)
    show "seal H ?ev (0 + 1) [] (utc (rd_preview ex_readings)) = Inr preview" using pv by (simp add: ex_readings_def)
    show "ok (apply_event (init_state ''t'') preview)" by (rule applied)
    show "outbox_backlog (sv_db sv) < 100" using sv(2) by (simp add: outbox_backlog_def empty_db_def)
  qed (simp_all add: ex_answer_event_def event_new_def ex_quiet_config_def ex_config_def ex_readings_def lease_end_def)
qed

lemma ex_recorded:
  "\<exists>out sv' fs'. record_elicitation_response H ex_uuid5 ex_quiet_config ex_readings (Some (vault_put ex_vault ex_nonce 5 id)) ''t'' ''alice''
     ex_plan ex_response [] 0 ''k1'' ex_ingester (ex_service, \<lambda>_. None) = (Inr out, sv', fs')"
proof -
  obtain sv1 where g: "answer_gate H ex_uuid5 ex_quiet_config True ''t'' ''alice'' ex_plan ex_response ex_ingester ex_service
    = (Inr (hd (ep_questions ex_plan)), sv1)" "service_ok H ex_quiet_config sv1" "sv_db sv1 = empty_db" using ex_gate by blast
  obtain uri h fs' where p: "vault_put ex_vault ex_nonce 5 id ''alice'' ''application/json'' ex_content (answer_metadata ex_plan ex_response)
    (\<lambda>_. None) = (Inr (uri, h), fs')" using ex_answer_put by blast
  have h: "h \<noteq> []"
    using put_then_get[OF p] ex_sealable[unfolded sealable_def] by (simp add: bytes_hash_def del: jsonable.simps dumps.simps)
  obtain out sv2 where a: "service_append H ex_quiet_config ex_readings (ex_answer_event uri h) ex_ingester 0 sv1 = (Inr out, sv2)"
    using ex_answer_append[OF g(2,3) h] by blast
  have "identity_name [''elicitation'', ''t'', ''alice'', rs_response_id ex_response] = Inr (dumps (PList (map PStr [''elicitation'', ''t'', ''alice'', rs_response_id ex_response])))"
    by (simp add: identity_name_def canonical_json_def del: dumps.simps)
  then have "answer_evidence H ex_uuid5 ex_quiet_config ex_readings ''t'' ''alice'' ex_plan ex_response [] 0 ''k1'' ex_ingester
      (hd (ep_questions ex_plan)) uri h sv1 = (Inr out, sv2)"
    using a by (simp add: answer_evidence_def andS_simp doneS_def append_new_def ex_answer_event_def ex_readings_def ex_ingester_def ex_response_def ex_uuid5_def del: dumps.simps)
  then show ?thesis using g(1) p ex_answer_content by (simp add: record_elicitation_response_def)
qed

end
