(* ===== verification/K2_Semantic.thy ===== *)
theory K2_Semantic
  imports K2_Types
begin

text \<open>
  The semantic contracts shared with other systems (\<open>src/src/seed_contracts/semantic.py\<close>): references to
  subjects, representation snapshots and semantic bases, admission results and readiness results, with the
  checks of their constructors. A \<open>ContractViolation\<close> is a \<open>ValueError\<close>. Shown: the constructors accept
  exactly the coherent records, and a sealed basis depends on what it interprets and not on the time of the
  seal or the order in which its further references were given.
\<close>

section \<open>References\<close>

definition contract_violation :: "string \<Rightarrow> 'a result" where
  "contract_violation m = Inl (ValueError m)"

definition contract_require :: "bool \<Rightarrow> string \<Rightarrow> unit result" where
  "contract_require b m = (if b then Inr () else contract_violation m)"

definition required :: "string \<Rightarrow> string \<Rightarrow> unit result" where
  "required v name = contract_require (v \<noteq> []) (name @ '' is required'')"

lemma contract_require_Inr [simp]: "contract_require b m = Inr u \<longleftrightarrow> b"
  by (simp add: contract_require_def contract_violation_def)

lemma required_Inr [simp]: "required v name = Inr u \<longleftrightarrow> v \<noteq> []"
  by (simp add: required_def)

definition stable_ref :: "(string \<Rightarrow> string) \<Rightarrow> string \<Rightarrow> pyval \<Rightarrow> string" where
  "stable_ref H namespace v = namespace @ '':sha256:'' @ H (dumps v)"

record subject_ref =
  sj_subject_id :: string

definition make_subject_ref :: "string \<Rightarrow> subject_ref result" where
  "make_subject_ref s = bindE (required s ''subject_id'') (\<lambda>_. Inr \<lparr>sj_subject_id = s\<rparr>)"

record snapshot_ref =
  rp_subject_ref :: subject_ref
  rp_snapshot_id :: string
  rp_canonical_sequence :: int
  rp_integrity_ref :: string

definition make_snapshot_ref :: "snapshot_ref \<Rightarrow> snapshot_ref result" where
  "make_snapshot_ref r =
     bindE (required (rp_snapshot_id r) ''snapshot_id'') (\<lambda>_.
     bindE (required (rp_integrity_ref r) ''integrity_ref'') (\<lambda>_.
     bindE (contract_require (0 \<le> rp_canonical_sequence r) ''canonical_sequence cannot be negative'') (\<lambda>_. Inr r)))"

section \<open>Semantic bases\<close>

record semantic_basis =
  sb_semantic_basis_id :: string
  sb_subject_ref :: subject_ref
  sb_snapshot_ref :: snapshot_ref
  sb_schema_registry :: string
  sb_construct_registry :: string
  sb_admission_policy :: string
  sb_epistemic_policy :: string
  sb_constraint_policy :: string
  sb_other_refs :: "string list"
  sb_integrity_ref :: string
  sb_sealed_at :: datetime

definition make_basis :: "semantic_basis \<Rightarrow> semantic_basis result" where
  "make_basis b =
     bindE (required (sb_semantic_basis_id b) ''semantic_basis_id'') (\<lambda>_.
     bindE (required (sb_schema_registry b) ''schema_registry_snapshot_ref'') (\<lambda>_.
     bindE (required (sb_construct_registry b) ''construct_registry_snapshot_ref'') (\<lambda>_.
     bindE (required (sb_admission_policy b) ''admission_policy_ref'') (\<lambda>_.
     bindE (required (sb_epistemic_policy b) ''epistemic_policy_ref'') (\<lambda>_.
     bindE (required (sb_constraint_policy b) ''semantic_constraint_policy_ref'') (\<lambda>_.
     bindE (required (sb_integrity_ref b) ''integrity_ref'') (\<lambda>_.
     bindE (contract_require (rp_subject_ref (sb_snapshot_ref b) = sb_subject_ref b)
        ''semantic basis subject must match representation snapshot subject'') (\<lambda>_.
     bindE (contract_require (distinct (sb_other_refs b)) ''other_interpretation_critical_refs must be unique'') (\<lambda>_.
     bindE (contract_require (sb_other_refs b = sort (sb_other_refs b))
        ''other_interpretation_critical_refs must use canonical sorted order'') (\<lambda>_.
     bindE (contract_require (\<not> naive (sb_sealed_at b)) ''sealed_at must be timezone-aware'') (\<lambda>_. Inr b)))))))))))"

definition basis_material :: "subject_ref \<Rightarrow> snapshot_ref \<Rightarrow> string \<Rightarrow> string \<Rightarrow> string \<Rightarrow> string \<Rightarrow> string \<Rightarrow> string list \<Rightarrow> pyval" where
  "basis_material subject snapshot schema constructs admission epistemic constraint refs =
     PDict [(''admission_policy_ref'', PStr admission), (''construct_registry_snapshot_ref'', PStr constructs),
       (''epistemic_policy_ref'', PStr epistemic), (''other_interpretation_critical_refs'', PList (map PStr refs)),
       (''representation_integrity'', PStr (rp_integrity_ref snapshot)),
       (''representation_sequence'', PInt (rp_canonical_sequence snapshot)),
       (''representation_snapshot_id'', PStr (rp_snapshot_id snapshot)), (''schema_registry_snapshot_ref'', PStr schema),
       (''semantic_constraint_policy_ref'', PStr constraint), (''subject_id'', PStr (sj_subject_id subject))]"

text \<open>\<open>SemanticBasisRef.seal\<close>; \<open>now\<close> is the clock, used where no \<open>sealed_at\<close> is given.\<close>

definition seal_basis ::
  "(string \<Rightarrow> string) \<Rightarrow> int \<Rightarrow> subject_ref \<Rightarrow> snapshot_ref \<Rightarrow> string \<Rightarrow> string \<Rightarrow> string \<Rightarrow> string \<Rightarrow> string \<Rightarrow> string list
     \<Rightarrow> datetime option \<Rightarrow> semantic_basis result" where
  "seal_basis H now subject snapshot schema constructs admission epistemic constraint refs sealed_at =
     bindE (contract_require (rp_subject_ref snapshot = subject) ''semantic basis subject must match representation snapshot subject'') (\<lambda>_.
     bindE (contract_require (distinct refs) ''other_interpretation_critical_refs must be unique'') (\<lambda>_.
     let canonical = sort refs;
         material = basis_material subject snapshot schema constructs admission epistemic constraint canonical in
     make_basis
       \<lparr>sb_semantic_basis_id = stable_ref H ''semantic-basis'' material, sb_subject_ref = subject, sb_snapshot_ref = snapshot,
        sb_schema_registry = schema, sb_construct_registry = constructs, sb_admission_policy = admission,
        sb_epistemic_policy = epistemic, sb_constraint_policy = constraint, sb_other_refs = canonical,
        sb_integrity_ref = stable_ref H ''semantic-basis-integrity'' material,
        sb_sealed_at = (case sealed_at of None \<Rightarrow> utc now | Some t \<Rightarrow> t)\<rparr>))"

section \<open>Admission results\<close>

datatype admission_status = ADMITTED | REJECTED | DEFERRED

fun status_text :: "admission_status \<Rightarrow> string" where
  "status_text ADMITTED = ''admitted''"
| "status_text REJECTED = ''rejected''"
| "status_text DEFERRED = ''deferred''"

datatype admission_disposition = EFFECTS_APPLIED | NO_OP_ALREADY_CANONICAL | NO_OP_REDUNDANT

fun disposition_text :: "admission_disposition \<Rightarrow> string" where
  "disposition_text EFFECTS_APPLIED = ''effects_applied''"
| "disposition_text NO_OP_ALREADY_CANONICAL = ''no_op_already_canonical''"
| "disposition_text NO_OP_REDUNDANT = ''no_op_redundant''"

record canonical_effect =
  ce_effect_id :: string
  ce_effect_kind :: string
  ce_affected_ref :: string
  ce_source_request_id :: string
  ce_position :: snapshot_ref

definition make_effect :: "canonical_effect \<Rightarrow> canonical_effect result" where
  "make_effect e =
     bindE (required (ce_effect_id e) ''effect_id'') (\<lambda>_.
     bindE (required (ce_effect_kind e) ''effect_kind'') (\<lambda>_.
     bindE (required (ce_affected_ref e) ''affected_semantic_ref'') (\<lambda>_.
     bindE (required (ce_source_request_id e) ''source_request_id'') (\<lambda>_. Inr e))))"

record admission_result =
  ar_request_id :: string
  ar_admission_id :: string
  ar_status :: admission_status
  ar_disposition :: "admission_disposition option"
  ar_effects :: "canonical_effect list"
  ar_state_ref :: "snapshot_ref option"
  ar_replayed :: bool
  ar_original_ref :: "string option"

text \<open>The effects of an admission that applied some, checked one by one.\<close>

fun check_effects :: "string \<Rightarrow> snapshot_ref \<Rightarrow> canonical_effect list \<Rightarrow> unit result" where
  "check_effects request state_ref [] = Inr ()"
| "check_effects request state_ref (e # es) =
     bindE (contract_require (ce_source_request_id e = request)
        ''canonical effect source_request_id must match admission request_id'') (\<lambda>_.
     bindE (contract_require (rp_subject_ref (ce_position e) = rp_subject_ref state_ref)
        ''canonical effects cannot cross subjects within one admission'') (\<lambda>_.
     bindE (contract_require (ce_position e = state_ref)
        ''canonical effects must reference the admission final canonical position'') (\<lambda>_.
     check_effects request state_ref es)))"

definition check_status :: "admission_result \<Rightarrow> unit result" where
  "check_status r =
     (if ar_status r = ADMITTED then
        bindE (contract_require (ar_disposition r \<noteq> None) ''admitted results require an explicit disposition'') (\<lambda>_.
        bindE (contract_require (ar_state_ref r \<noteq> None) ''admitted results require the resulting canonical position'') (\<lambda>_.
        bindE (contract_require (\<not> (ar_disposition r = Some EFFECTS_APPLIED \<and> ar_effects r = []))
           ''effects_applied requires at least one canonical effect'') (\<lambda>_.
        contract_require (\<not> (ar_disposition r \<noteq> Some EFFECTS_APPLIED \<and> ar_effects r \<noteq> []))
           ''no-op dispositions require an empty canonical effect set'')))
      else
        bindE (contract_require (ar_disposition r = None) ''non-admitted results cannot carry an admission disposition'') (\<lambda>_.
        bindE (contract_require (ar_effects r = []) ''non-admitted results cannot carry canonical effects'') (\<lambda>_.
        contract_require (ar_state_ref r = None) ''non-admitted results cannot carry a resulting canonical position'')))"

definition make_admission :: "admission_result \<Rightarrow> admission_result result" where
  "make_admission r =
     bindE (required (ar_request_id r) ''request_id'') (\<lambda>_.
     bindE (required (ar_admission_id r) ''admission_id'') (\<lambda>_.
     bindE (check_status r) (\<lambda>_.
     bindE (if ar_status r = ADMITTED \<and> ar_disposition r = Some EFFECTS_APPLIED
        then (case ar_state_ref r of Some p \<Rightarrow> check_effects (ar_request_id r) p (ar_effects r) | None \<Rightarrow> Inr ())
        else Inr ()) (\<lambda>_.
     bindE (contract_require (\<not> (ar_replayed r \<and> (ar_original_ref r = None \<or> ar_original_ref r = Some [])))
        ''replayed results require original_result_ref'') (\<lambda>_.
     bindE (contract_require (\<not> (\<not> ar_replayed r \<and> ar_original_ref r \<noteq> None))
        ''original_result_ref is only valid for replayed results'') (\<lambda>_. Inr r))))))"

section \<open>Readiness\<close>

record readiness_result =
  rd_readiness_id :: string
  rd_basis_ref :: semantic_basis
  rd_profile_ref :: string
  rd_profile_hash :: string
  rd_outcome :: string
  rd_dependency_refs :: "string list"
  rd_evaluated_at :: datetime

definition make_readiness :: "readiness_result \<Rightarrow> readiness_result result" where
  "make_readiness r =
     bindE (required (rd_readiness_id r) ''readiness_result_id'') (\<lambda>_.
     bindE (required (rd_profile_ref r) ''readiness_profile_ref'') (\<lambda>_.
     bindE (required (rd_profile_hash r) ''readiness_profile_hash'') (\<lambda>_.
     bindE (required (rd_outcome r) ''result'') (\<lambda>_.
     bindE (contract_require (\<not> naive (rd_evaluated_at r)) ''evaluated_at must be timezone-aware'') (\<lambda>_. Inr r)))))"

section \<open>What the constructors accept\<close>

definition snapshot_ref_ok :: "snapshot_ref \<Rightarrow> bool" where
  "snapshot_ref_ok r \<longleftrightarrow> sj_subject_id (rp_subject_ref r) \<noteq> [] \<and> make_snapshot_ref r = Inr r"

lemma make_snapshot_ref_Inr:
  "make_snapshot_ref r = Inr s \<longleftrightarrow> s = r \<and> rp_snapshot_id r \<noteq> [] \<and> rp_integrity_ref r \<noteq> [] \<and> 0 \<le> rp_canonical_sequence r"
  by (auto simp: make_snapshot_ref_def bindE_Inr_iff)

lemma make_effect_Inr:
  "make_effect e = Inr f \<longleftrightarrow> f = e \<and> ce_effect_id e \<noteq> [] \<and> ce_effect_kind e \<noteq> [] \<and> ce_affected_ref e \<noteq> [] \<and> ce_source_request_id e \<noteq> []"
  by (auto simp: make_effect_def bindE_Inr_iff)

lemma check_effects_Inr:
  "check_effects request p es = Inr u \<longleftrightarrow> (\<forall>e\<in>set es. ce_source_request_id e = request \<and> ce_position e = p)"
  by (induction es) (auto simp: bindE_Inr_iff)

text \<open>A coherent admission: its effects and its position are those of one request, and only if it was admitted.\<close>

definition admission_coherent :: "admission_result \<Rightarrow> bool" where
  "admission_coherent r \<longleftrightarrow> ar_request_id r \<noteq> [] \<and> ar_admission_id r \<noteq> []
     \<and> (case ar_status r of
          ADMITTED \<Rightarrow> \<exists>d p. ar_disposition r = Some d \<and> ar_state_ref r = Some p \<and> (d = EFFECTS_APPLIED \<longleftrightarrow> ar_effects r \<noteq> [])
            \<and> (\<forall>e\<in>set (ar_effects r). ce_source_request_id e = ar_request_id r \<and> ce_position e = p)
        | _ \<Rightarrow> ar_disposition r = None \<and> ar_state_ref r = None \<and> ar_effects r = [])
     \<and> (if ar_replayed r then \<exists>i. ar_original_ref r = Some i \<and> i \<noteq> [] else ar_original_ref r = None)"

lemma make_admission_Inr: "make_admission r = Inr s \<longleftrightarrow> s = r \<and> admission_coherent r"
  by (cases "ar_status r"; cases "ar_disposition r"; cases "ar_state_ref r")
    (auto simp: make_admission_def check_status_def admission_coherent_def bindE_Inr_iff check_effects_Inr)

definition basis_coherent :: "semantic_basis \<Rightarrow> bool" where
  "basis_coherent b \<longleftrightarrow> [] \<notin> {sb_semantic_basis_id b, sb_schema_registry b, sb_construct_registry b, sb_admission_policy b,
       sb_epistemic_policy b, sb_constraint_policy b, sb_integrity_ref b}
     \<and> rp_subject_ref (sb_snapshot_ref b) = sb_subject_ref b \<and> distinct (sb_other_refs b) \<and> sorted (sb_other_refs b)
     \<and> \<not> naive (sb_sealed_at b)"

lemma make_basis_Inr: "make_basis b = Inr c \<longleftrightarrow> c = b \<and> basis_coherent b"
  by (auto simp: make_basis_def basis_coherent_def bindE_Inr_iff sorted_sort_id) (metis sorted_sort)

section \<open>The identity of a basis\<close>

lemma seal_basis_Inr:
  assumes "seal_basis H now subject snapshot schema constructs admission epistemic constraint refs sealed_at = Inr b"
  shows "basis_coherent b" "sb_other_refs b = sort refs"
    "sb_semantic_basis_id b = stable_ref H ''semantic-basis''
       (basis_material subject snapshot schema constructs admission epistemic constraint (sort refs))"
  using assms by (auto simp: seal_basis_def bindE_Inr_iff make_basis_Inr Let_def)

text \<open>Neither the time of the seal nor the order of the references shows in the identity.\<close>

lemma seal_basis_order:
  assumes "seal_basis H now subject snapshot schema constructs admission epistemic constraint refs sealed_at = Inr b"
    and "seal_basis H later subject snapshot schema constructs admission epistemic constraint refs' sealed_at' = Inr c"
    and "mset refs' = mset refs"
  shows "c = b\<lparr>sb_sealed_at := sb_sealed_at c\<rparr>"
proof -
  have "sort refs' = sort refs" using assms(3) by (metis properties_for_sort mset_sort sorted_sort)
  then show ?thesis using assms(1,2) by (auto simp: seal_basis_def bindE_Inr_iff make_basis_Inr Let_def)
qed

lemma basis_material_jsonable: "jsonable (basis_material subject snapshot schema constructs admission epistemic constraint refs)"
  by (simp add: basis_material_def wf_dict_def list_all_iff)

text \<open>Equal identities are equal interpretations, or a collision of the digest.\<close>

lemma basis_identity_binds:
  assumes "seal_basis H now subject snapshot schema constructs admission epistemic constraint refs sealed_at = Inr b"
    and "seal_basis H later subject' snapshot' schema' constructs' admission' epistemic' constraint' refs' sealed_at' = Inr c"
    and "sb_semantic_basis_id b = sb_semantic_basis_id c"
  shows "(subject = subject' \<and> snapshot = snapshot' \<and> schema = schema' \<and> constructs = constructs' \<and> admission = admission'
      \<and> epistemic = epistemic' \<and> constraint = constraint' \<and> set refs = set refs')
    \<or> (\<exists>x y. x \<noteq> y \<and> H x = H y)"
proof -
  let ?m = "basis_material subject snapshot schema constructs admission epistemic constraint (sort refs)"
  let ?n = "basis_material subject' snapshot' schema' constructs' admission' epistemic' constraint' (sort refs')"
  have h: "H (dumps ?m) = H (dumps ?n)"
    using assms(3) seal_basis_Inr(3)[OF assms(1)] seal_basis_Inr(3)[OF assms(2)] by (simp add: stable_ref_def)
  have s: "rp_subject_ref snapshot = subject" "rp_subject_ref snapshot' = subject'"
    using assms(1,2) by (auto simp: seal_basis_def bindE_Inr_iff)
  show ?thesis
  proof (cases "dumps ?m = dumps ?n")
    case True
    then have "?m = ?n" using dumps_inject[OF basis_material_jsonable basis_material_jsonable] by blast
    then have m: "admission = admission'" "constructs = constructs'" "epistemic = epistemic'" "sort refs = sort refs'"
      "rp_integrity_ref snapshot = rp_integrity_ref snapshot'" "rp_canonical_sequence snapshot = rp_canonical_sequence snapshot'"
      "rp_snapshot_id snapshot = rp_snapshot_id snapshot'" "schema = schema'" "constraint = constraint'"
      "sj_subject_id subject = sj_subject_id subject'"
      by (auto simp: basis_material_def inj_map_eq_map inj_def)
    then have "subject = subject'" by simp
    moreover have "snapshot = snapshot'" using m s \<open>subject = subject'\<close> by simp
    moreover have "set refs = set refs'" using m(4) by (metis set_sort)
    ultimately show ?thesis using m by simp
  next
    case False
    then show ?thesis using h by blast
  qed
qed

end
