(* ===== verification/K2_Contracts.thy ===== *)
theory K2_Contracts
  imports K2_Semantic K2_Aggregate_Queries
begin

text \<open>
  The public contracts (\<open>src/src/argo_dt/public/contracts.py\<close>): errors, requests and views with the checks of
  their constructors, their wire form (\<open>to_wire\<close>) and its reader (\<open>from_wire\<close>), and the JSON round trip of the
  simulated transport. A wire value is a JSON object, its keys in ascending order. Shown: every valid
  request and every view is read back from its wire form as it was, also through the JSON text.
\<close>

section \<open>Errors\<close>

datatype error_code = INVALID_REQUEST | AUTHORIZATION_DENIED | STALE_STATE | NOT_FOUND | INVARIANT_VIOLATION | TEMPORARILY_UNAVAILABLE

fun code_text :: "error_code \<Rightarrow> string" where
  "code_text INVALID_REQUEST = ''invalid_request''"
| "code_text AUTHORIZATION_DENIED = ''authorization_denied''"
| "code_text STALE_STATE = ''stale_state''"
| "code_text NOT_FOUND = ''not_found''"
| "code_text INVARIANT_VIOLATION = ''invariant_violation''"
| "code_text TEMPORARILY_UNAVAILABLE = ''temporarily_unavailable''"

definition all_codes :: "error_code list" where
  "all_codes = [INVALID_REQUEST, AUTHORIZATION_DENIED, STALE_STATE, NOT_FOUND, INVARIANT_VIOLATION, TEMPORARILY_UNAVAILABLE]"

definition retryable_for_code :: "error_code \<Rightarrow> bool" where
  "retryable_for_code c \<longleftrightarrow> c = TEMPORARILY_UNAVAILABLE"

record public_error =
  pe_code :: error_code
  pe_safe_message :: string
  pe_retryable :: bool

definition make_public_error :: "public_error \<Rightarrow> public_error result" where
  "make_public_error e =
     bindE (required (pe_safe_message e) ''safe_message'') (\<lambda>_.
     bindE (contract_require (pe_retryable e = retryable_for_code (pe_code e)) ''retryable must match the public error code semantics'') (\<lambda>_.
     Inr e))"

text \<open>\<open>K2PublicError\<close>: an exception with a code, a message (any text) and the code's retryability.\<close>

record public_failure =
  pf_code :: error_code
  pf_message :: string
  pf_retryable :: bool

definition make_failure :: "error_code \<Rightarrow> string \<Rightarrow> bool option \<Rightarrow> public_failure result" where
  "make_failure c m retryable =
     (let actual = (case retryable of None \<Rightarrow> retryable_for_code c | Some b \<Rightarrow> b) in
      bindE (contract_require (actual = retryable_for_code c) ''retryable must match the public error code semantics'') (\<lambda>_.
      Inr \<lparr>pf_code = c, pf_message = m, pf_retryable = actual\<rparr>))"

definition to_public_error :: "public_failure \<Rightarrow> public_error result" where
  "to_public_error f = make_public_error \<lparr>pe_code = pf_code f, pe_safe_message = pf_message f, pe_retryable = pf_retryable f\<rparr>"

definition from_public_error :: "public_error \<Rightarrow> public_failure result" where
  "from_public_error e = make_failure (pe_code e) (pe_safe_message e) (Some (pe_retryable e))"

section \<open>Reading wire values\<close>

text \<open>\<open>str(value.get(k, ""))\<close>, and \<open>str(value[k])\<close> where \<open>value.get(k)\<close> is not None.\<close>

definition wire_text :: "pydict \<Rightarrow> string \<Rightarrow> string" where
  "wire_text d k = py_str (get_or d k (PStr []))"

definition wire_opt :: "pydict \<Rightarrow> string \<Rightarrow> string option" where
  "wire_opt d k = (if pget d k = PNone then None else Some (py_str (pget d k)))"

definition wire_dict :: "pydict \<Rightarrow> string \<Rightarrow> string \<Rightarrow> pydict result" where
  "wire_dict d k m = bindE (contract_require (is_dict (pget d k)) m) (\<lambda>_. Inr (dict_val (pget d k)))"

definition wire_list :: "pyval \<Rightarrow> string \<Rightarrow> pyval list result" where
  "wire_list v m = (case v of PList xs \<Rightarrow> Inr xs | _ \<Rightarrow> contract_violation m)"

definition string_tuple :: "pyval \<Rightarrow> string list result" where
  "string_tuple v = bindE (wire_list v ''expected an array'') (\<lambda>xs. Inr (map py_str xs))"

definition format_time :: "datetime \<Rightarrow> string result" where
  "format_time t = bindE (contract_require (\<not> naive t) ''timestamps must be timezone-aware'') (\<lambda>_. Inr (isoformat t))"

definition wire_time :: "string \<Rightarrow> datetime result" where
  "wire_time s =
     (case fromisoformat (concat (map (\<lambda>c. if c = CHR ''Z'' then ''+00:00'' else [c]) s)) of
        None \<Rightarrow> contract_violation ''Invalid isoformat string''
      | Some t \<Rightarrow> bindE (contract_require (\<not> naive t) ''timestamps must be timezone-aware'') (\<lambda>_. Inr t))"

definition wire_int :: "pyval \<Rightarrow> string \<Rightarrow> int result" where
  "wire_int v name =
     (case v of
        PInt n \<Rightarrow> Inr n
      | PStr s \<Rightarrow> (case int_of_text s of Inr n \<Rightarrow> Inr n | Inl _ \<Rightarrow> contract_violation (name @ '' must be an integer''))
      | _ \<Rightarrow> contract_violation (name @ '' must be an integer''))"

definition error_to_wire :: "public_error \<Rightarrow> pydict" where
  "error_to_wire e = [(''code'', PStr (code_text (pe_code e))), (''retryable'', PBool (pe_retryable e)),
     (''safe_message'', PStr (pe_safe_message e))]"

definition error_from_wire :: "pydict \<Rightarrow> public_error result" where
  "error_from_wire d =
     bindE (enum_of code_text all_codes (wire_text d ''code'')) (\<lambda>c.
     case pget d ''retryable'' of
       PBool b \<Rightarrow> make_public_error \<lparr>pe_code = c, pe_safe_message = wire_text d ''safe_message'', pe_retryable = b\<rparr>
     | _ \<Rightarrow> contract_violation ''retryable must be a boolean'')"

section \<open>Requests\<close>

datatype public_node_kind = PUBLIC_EVIDENCE | REPRESENTATION_ENTITY | REPRESENTATION_ITEM | PUBLIC_CONTRADICTION | PUBLIC_CORRECTION
  | PUBLIC_PROJECTION

fun public_kind_text :: "public_node_kind \<Rightarrow> string" where
  "public_kind_text PUBLIC_EVIDENCE = ''evidence''"
| "public_kind_text REPRESENTATION_ENTITY = ''representation_entity''"
| "public_kind_text REPRESENTATION_ITEM = ''representation_item''"
| "public_kind_text PUBLIC_CONTRADICTION = ''contradiction''"
| "public_kind_text PUBLIC_CORRECTION = ''correction''"
| "public_kind_text PUBLIC_PROJECTION = ''projection''"

definition public_kind_of :: "string \<Rightarrow> public_node_kind result" where
  "public_kind_of = enum_of public_kind_text [PUBLIC_EVIDENCE, REPRESENTATION_ENTITY, REPRESENTATION_ITEM, PUBLIC_CONTRADICTION,
     PUBLIC_CORRECTION, PUBLIC_PROJECTION]"

record authority_context =
  au_identity_id :: string
  au_roles :: "string list"
  au_subject_id :: "string option"

definition make_authority_context :: "authority_context \<Rightarrow> authority_context result" where
  "make_authority_context a =
     bindE (required (au_identity_id a) ''identity_id'') (\<lambda>_.
     bindE (contract_require (au_roles a \<noteq> []) ''authority roles are required'') (\<lambda>_.
     bindE (contract_require ([] \<notin> set (au_roles a)) ''authority roles cannot be empty strings'') (\<lambda>_. Inr a)))"

definition authority_to_wire :: "authority_context \<Rightarrow> pyval" where
  "authority_to_wire a = PDict [(''identity_id'', PStr (au_identity_id a)), (''roles'', str_list (au_roles a)),
     (''subject_id'', opt_str (au_subject_id a))]"

definition authority_from_wire :: "pydict \<Rightarrow> authority_context result" where
  "authority_from_wire d =
     bindE (wire_list (pget d ''roles'') ''authority roles must be a list'') (\<lambda>roles.
     make_authority_context \<lparr>au_identity_id = wire_text d ''identity_id'', au_roles = map py_str roles, au_subject_id = wire_opt d ''subject_id''\<rparr>)"

text \<open>What \<open>json.dumps\<close> can write: no datetime and no set anywhere.\<close>

fun writable :: "pyval \<Rightarrow> bool" where
  "writable (PTime _) = False"
| "writable (PSet _) = False"
| "writable (PList xs) = list_all writable xs"
| "writable (PTuple xs) = list_all writable xs"
| "writable (PDict d) = list_all (\<lambda>(k, v). writable v) d"
| "writable v = True"

definition max_evidence_bytes :: nat where
  "max_evidence_bytes = 64 * 1024"

record admit_request =
  aq_request_id :: string
  aq_representation_id :: string
  aq_subject_ref :: subject_ref
  aq_source :: string
  aq_source_record_id :: string
  aq_evidence :: pydict
  aq_rights :: pydict
  aq_sensitivity :: string
  aq_valid_from :: datetime
  aq_valid_until :: "datetime option"
  aq_independence_group :: string
  aq_based_on_sequence :: int
  aq_authority :: authority_context
  aq_connector_version :: "string option"
  aq_media_type :: "string option"
  aq_source_hash :: "string option"

definition make_admit :: "admit_request \<Rightarrow> admit_request result" where
  "make_admit r =
     bindE (required (aq_request_id r) ''request_id'') (\<lambda>_.
     bindE (required (aq_representation_id r) ''representation_id'') (\<lambda>_.
     bindE (required (aq_source r) ''source'') (\<lambda>_.
     bindE (required (aq_source_record_id r) ''source_record_id'') (\<lambda>_.
     bindE (required (aq_sensitivity r) ''sensitivity'') (\<lambda>_.
     bindE (required (aq_independence_group r) ''independence_group'') (\<lambda>_.
     bindE (contract_require (0 \<le> aq_based_on_sequence r) ''based_on_sequence cannot be negative'') (\<lambda>_.
     bindE (contract_require (writable (PDict (aq_evidence r))) ''bounded_evidence must be JSON-serializable'') (\<lambda>_.
     bindE (contract_require (utf8_len (dumps (PDict (aq_evidence r))) \<le> max_evidence_bytes)
        ''bounded_evidence exceeds compatibility payload limit; preserve raw/bulk content outside the canonical event ledger'') (\<lambda>_.
     bindE (format_time (aq_valid_from r)) (\<lambda>_.
     bindE (case aq_valid_until r of
        None \<Rightarrow> Inr ()
      | Some t \<Rightarrow> bindE (format_time t) (\<lambda>_. bindE (dt_less t (aq_valid_from r)) (\<lambda>before.
          contract_require (\<not> before) ''valid_until precedes valid_from''))) (\<lambda>_. Inr r)))))))))))"

definition subject_to_wire :: "subject_ref \<Rightarrow> pyval" where
  "subject_to_wire s = PDict [(''subject_id'', PStr (sj_subject_id s))]"

definition admit_to_wire :: "admit_request \<Rightarrow> pydict result" where
  "admit_to_wire r =
     bindE (format_time (aq_valid_from r)) (\<lambda>from.
     bindE (case aq_valid_until r of None \<Rightarrow> Inr PNone | Some t \<Rightarrow> bindE (format_time t) (\<lambda>s. Inr (PStr s))) (\<lambda>until.
     Inr [(''authority'', authority_to_wire (aq_authority r)), (''based_on_sequence'', PInt (aq_based_on_sequence r)),
       (''bounded_evidence'', PDict (aq_evidence r)), (''connector_version'', opt_str (aq_connector_version r)),
       (''independence_group'', PStr (aq_independence_group r)), (''media_type'', opt_str (aq_media_type r)),
       (''representation_id'', PStr (aq_representation_id r)), (''request_id'', PStr (aq_request_id r)), (''rights'', PDict (aq_rights r)),
       (''schema_version'', PStr ''argo.dt.public.admit-evidence/v1''), (''sensitivity'', PStr (aq_sensitivity r)),
       (''source'', PStr (aq_source r)), (''source_content_hash'', opt_str (aq_source_hash r)),
       (''source_record_id'', PStr (aq_source_record_id r)), (''subject_ref'', subject_to_wire (aq_subject_ref r)),
       (''valid_from'', PStr from), (''valid_until'', until)]))"

definition admit_from_wire :: "pydict \<Rightarrow> admit_request result" where
  "admit_from_wire d =
     bindE (contract_require (py_eq (pget d ''schema_version'') (PStr ''argo.dt.public.admit-evidence/v1''))
        ''unsupported admit-evidence request schema'') (\<lambda>_.
     bindE (wire_dict d ''subject_ref'' ''subject_ref must be an object'') (\<lambda>subject_raw.
     bindE (wire_dict d ''authority'' ''authority must be an object'') (\<lambda>authority_raw.
     bindE (wire_dict d ''bounded_evidence'' ''bounded_evidence and rights must be objects'') (\<lambda>evidence.
     bindE (wire_dict d ''rights'' ''bounded_evidence and rights must be objects'') (\<lambda>rights.
     bindE (make_subject_ref (wire_text subject_raw ''subject_id'')) (\<lambda>subject.
     bindE (wire_time (wire_text d ''valid_from'')) (\<lambda>from.
     bindE (if pget d ''valid_until'' = PNone then Inr None
        else bindE (wire_time (py_str (pget d ''valid_until''))) (\<lambda>t. Inr (Some t))) (\<lambda>until.
     bindE (wire_int (get_or d ''based_on_sequence'' (PInt 0)) ''based_on_sequence'') (\<lambda>n.
     bindE (authority_from_wire authority_raw) (\<lambda>authority.
     make_admit
       \<lparr>aq_request_id = wire_text d ''request_id'', aq_representation_id = wire_text d ''representation_id'', aq_subject_ref = subject,
        aq_source = wire_text d ''source'', aq_source_record_id = wire_text d ''source_record_id'', aq_evidence = evidence,
        aq_rights = rights, aq_sensitivity = wire_text d ''sensitivity'', aq_valid_from = from, aq_valid_until = until,
        aq_independence_group = wire_text d ''independence_group'', aq_based_on_sequence = n, aq_authority = authority,
        aq_connector_version = wire_opt d ''connector_version'', aq_media_type = wire_opt d ''media_type'',
        aq_source_hash = wire_opt d ''source_content_hash''\<rparr>))))))))))"

record admission_lookup =
  al_representation_id :: string
  al_request_id :: string
  al_authority :: authority_context

definition lookup_to_wire :: "admission_lookup \<Rightarrow> pydict" where
  "lookup_to_wire r = [(''authority'', authority_to_wire (al_authority r)), (''representation_id'', PStr (al_representation_id r)),
     (''request_id'', PStr (al_request_id r))]"

definition lookup_from_wire :: "pydict \<Rightarrow> admission_lookup result" where
  "lookup_from_wire d =
     bindE (wire_dict d ''authority'' ''authority must be an object'') (\<lambda>raw.
     bindE (authority_from_wire raw) (\<lambda>authority.
     Inr \<lparr>al_representation_id = wire_text d ''representation_id'', al_request_id = wire_text d ''request_id'', al_authority = authority\<rparr>))"

record representation_query =
  qr_representation :: string
  qr_authority :: authority_context

definition query_to_wire :: "representation_query \<Rightarrow> pydict" where
  "query_to_wire r = [(''authority'', authority_to_wire (qr_authority r)), (''representation_id'', PStr (qr_representation r))]"

definition query_from_wire :: "pydict \<Rightarrow> representation_query result" where
  "query_from_wire d =
     bindE (wire_dict d ''authority'' ''authority must be an object'') (\<lambda>raw.
     bindE (authority_from_wire raw) (\<lambda>authority.
     Inr \<lparr>qr_representation = wire_text d ''representation_id'', qr_authority = authority\<rparr>))"

record lineage_query =
  lq_representation_id :: string
  lq_node_kind :: public_node_kind
  lq_node_id :: string
  lq_authority :: authority_context

definition lineage_to_wire :: "lineage_query \<Rightarrow> pydict" where
  "lineage_to_wire r = [(''authority'', authority_to_wire (lq_authority r)), (''node_id'', PStr (lq_node_id r)),
     (''node_kind'', PStr (public_kind_text (lq_node_kind r))), (''representation_id'', PStr (lq_representation_id r))]"

definition lineage_from_wire :: "pydict \<Rightarrow> lineage_query result" where
  "lineage_from_wire d =
     bindE (wire_dict d ''authority'' ''authority must be an object'') (\<lambda>raw.
     bindE (public_kind_of (wire_text d ''node_kind'')) (\<lambda>kind.
     bindE (authority_from_wire raw) (\<lambda>authority.
     Inr \<lparr>lq_representation_id = wire_text d ''representation_id'', lq_node_kind = kind, lq_node_id = wire_text d ''node_id'',
          lq_authority = authority\<rparr>)))"

section \<open>Views\<close>

definition snapshot_to_wire :: "snapshot_ref \<Rightarrow> pyval" where
  "snapshot_to_wire r = PDict [(''canonical_sequence'', PInt (rp_canonical_sequence r)), (''integrity_ref'', PStr (rp_integrity_ref r)),
     (''snapshot_id'', PStr (rp_snapshot_id r)), (''subject_ref'', subject_to_wire (rp_subject_ref r))]"

definition snapshot_from_wire :: "pydict \<Rightarrow> snapshot_ref result" where
  "snapshot_from_wire d =
     bindE (wire_dict d ''subject_ref'' ''snapshot subject_ref must be an object'') (\<lambda>raw.
     bindE (make_subject_ref (wire_text raw ''subject_id'')) (\<lambda>subject.
     bindE (wire_int (get_or d ''canonical_sequence'' (PInt 0)) ''canonical_sequence'') (\<lambda>n.
     make_snapshot_ref \<lparr>rp_subject_ref = subject, rp_snapshot_id = wire_text d ''snapshot_id'', rp_canonical_sequence = n,
        rp_integrity_ref = wire_text d ''integrity_ref''\<rparr>)))"

record state_view =
  vw_representation_id :: string
  vw_subject_ref :: subject_ref
  vw_snapshot_ref :: snapshot_ref
  vw_evidence_refs :: "string list"
  vw_item_refs :: "string list"
  vw_accepted_refs :: "string list"
  vw_contested_refs :: "string list"
  vw_contradiction_refs :: "string list"
  vw_degraded_reasons :: "string list"

definition view_to_wire :: "state_view \<Rightarrow> pydict" where
  "view_to_wire v =
     [(''accepted_representation_item_refs'', str_list (vw_accepted_refs v)),
      (''contested_representation_item_refs'', str_list (vw_contested_refs v)), (''contradiction_refs'', str_list (vw_contradiction_refs v)),
      (''degraded_reasons'', str_list (vw_degraded_reasons v)), (''evidence_refs'', str_list (vw_evidence_refs v)),
      (''representation_id'', PStr (vw_representation_id v)), (''representation_item_refs'', str_list (vw_item_refs v)),
      (''snapshot_ref'', snapshot_to_wire (vw_snapshot_ref v)), (''subject_ref'', subject_to_wire (vw_subject_ref v))]"

definition view_from_wire :: "pydict \<Rightarrow> state_view result" where
  "view_from_wire d =
     bindE (wire_dict d ''subject_ref'' ''state subject_ref and snapshot_ref must be objects'') (\<lambda>subject_raw.
     bindE (wire_dict d ''snapshot_ref'' ''state subject_ref and snapshot_ref must be objects'') (\<lambda>snapshot_raw.
     bindE (make_subject_ref (wire_text subject_raw ''subject_id'')) (\<lambda>subject.
     bindE (snapshot_from_wire snapshot_raw) (\<lambda>snapshot.
     bindE (string_tuple (pget d ''evidence_refs'')) (\<lambda>evidence.
     bindE (string_tuple (pget d ''representation_item_refs'')) (\<lambda>items.
     bindE (string_tuple (pget d ''accepted_representation_item_refs'')) (\<lambda>accepted.
     bindE (string_tuple (pget d ''contested_representation_item_refs'')) (\<lambda>contested.
     bindE (string_tuple (pget d ''contradiction_refs'')) (\<lambda>contradictions.
     bindE (string_tuple (pget d ''degraded_reasons'')) (\<lambda>reasons.
     Inr \<lparr>vw_representation_id = wire_text d ''representation_id'', vw_subject_ref = subject, vw_snapshot_ref = snapshot,
          vw_evidence_refs = evidence, vw_item_refs = items, vw_accepted_refs = accepted, vw_contested_refs = contested,
          vw_contradiction_refs = contradictions, vw_degraded_reasons = reasons\<rparr>))))))))))"

record deficit =
  df_deficit_id :: string
  df_kind :: string
  df_target_refs :: "string list"
  df_rationale :: string

definition deficit_to_wire :: "deficit \<Rightarrow> pydict" where
  "deficit_to_wire x = [(''deficit_id'', PStr (df_deficit_id x)), (''kind'', PStr (df_kind x)), (''rationale'', PStr (df_rationale x)),
     (''target_refs'', str_list (df_target_refs x))]"

definition deficit_from_wire :: "pydict \<Rightarrow> deficit result" where
  "deficit_from_wire d =
     bindE (string_tuple (pget d ''target_refs'')) (\<lambda>targets.
     Inr \<lparr>df_deficit_id = wire_text d ''deficit_id'', df_kind = wire_text d ''kind'', df_target_refs = targets,
          df_rationale = wire_text d ''rationale''\<rparr>)"

record node_ref =
  nr_kind :: public_node_kind
  nr_node_id :: string

definition node_to_wire :: "node_ref \<Rightarrow> pyval" where
  "node_to_wire n = PDict [(''kind'', PStr (public_kind_text (nr_kind n))), (''node_id'', PStr (nr_node_id n))]"

text \<open>\<open>LineageNodeRef.from_wire(item)\<close> on any value: one that is not an object has no \<open>get\<close>.\<close>

definition node_from_wire :: "pyval \<Rightarrow> node_ref result" where
  "node_from_wire v =
     (case v of
        PDict d \<Rightarrow> bindE (public_kind_of (wire_text d ''kind'')) (\<lambda>kind. Inr \<lparr>nr_kind = kind, nr_node_id = wire_text d ''node_id''\<rparr>)
      | _ \<Rightarrow> Inl AttributeError)"

record trace_view =
  tv_representation_id :: string
  tv_root :: node_ref
  tv_ancestors :: "node_ref list"
  tv_dependents :: "node_ref list"
  tv_groups :: "(string \<times> string list) list"

definition trace_to_wire :: "trace_view \<Rightarrow> pydict" where
  "trace_to_wire t =
     [(''ancestors'', PList (map node_to_wire (tv_ancestors t))), (''dependents'', PList (map node_to_wire (tv_dependents t))),
      (''evidence_by_independence_group'',
         PList (map (\<lambda>(g, refs). PDict [(''evidence_refs'', str_list refs), (''group'', PStr g)]) (tv_groups t))),
      (''representation_id'', PStr (tv_representation_id t)), (''root'', node_to_wire (tv_root t))]"

definition group_from_wire :: "pyval \<Rightarrow> (string \<times> string list) result" where
  "group_from_wire v =
     (case v of
        PDict d \<Rightarrow> bindE (string_tuple (pget d ''evidence_refs'')) (\<lambda>refs. Inr (wire_text d ''group'', refs))
      | _ \<Rightarrow> contract_violation ''lineage evidence group must be an object'')"

definition trace_from_wire :: "pydict \<Rightarrow> trace_view result" where
  "trace_from_wire d =
     bindE (wire_dict d ''root'' ''lineage root must be an object'') (\<lambda>origin_raw.
     bindE (wire_list (pget d ''ancestors'') ''lineage nodes must be arrays'') (\<lambda>ancestors_raw.
     bindE (wire_list (pget d ''dependents'') ''lineage nodes must be arrays'') (\<lambda>dependents_raw.
     bindE (wire_list (pget d ''evidence_by_independence_group'') ''lineage evidence groups must be an array'') (\<lambda>groups_raw.
     bindE (mapE group_from_wire groups_raw) (\<lambda>groups.
     bindE (node_from_wire (PDict origin_raw)) (\<lambda>origin.
     bindE (mapE node_from_wire ancestors_raw) (\<lambda>ancs.
     bindE (mapE node_from_wire dependents_raw) (\<lambda>deps.
     Inr \<lparr>tv_representation_id = wire_text d ''representation_id'', tv_root = origin, tv_ancestors = ancs, tv_dependents = deps,
          tv_groups = groups\<rparr>))))))))"

section \<open>Admission results\<close>

definition effect_to_wire :: "canonical_effect \<Rightarrow> pyval" where
  "effect_to_wire e = PDict [(''affected_semantic_ref'', PStr (ce_affected_ref e)), (''canonical_position'', snapshot_to_wire (ce_position e)),
     (''effect_id'', PStr (ce_effect_id e)), (''effect_kind'', PStr (ce_effect_kind e)),
     (''source_request_id'', PStr (ce_source_request_id e))]"

definition admission_to_wire :: "admission_result \<Rightarrow> pydict" where
  "admission_to_wire r =
     [(''admission_id'', PStr (ar_admission_id r)), (''canonical_effects'', PList (map effect_to_wire (ar_effects r))),
      (''disposition'', (case ar_disposition r of None \<Rightarrow> PNone | Some x \<Rightarrow> PStr (disposition_text x))),
      (''original_result_ref'', opt_str (ar_original_ref r)), (''replayed'', PBool (ar_replayed r)),
      (''request_id'', PStr (ar_request_id r)),
      (''resulting_representation_state_ref'', (case ar_state_ref r of None \<Rightarrow> PNone | Some p \<Rightarrow> snapshot_to_wire p)),
      (''status'', PStr (status_text (ar_status r)))]"

definition effect_from_wire :: "pyval \<Rightarrow> canonical_effect result" where
  "effect_from_wire v =
     (case v of
        PDict d \<Rightarrow>
          bindE (wire_dict d ''canonical_position'' ''canonical effect position must be an object'') (\<lambda>raw.
          bindE (snapshot_from_wire raw) (\<lambda>position.
          make_effect \<lparr>ce_effect_id = wire_text d ''effect_id'', ce_effect_kind = wire_text d ''effect_kind'',
             ce_affected_ref = wire_text d ''affected_semantic_ref'', ce_source_request_id = wire_text d ''source_request_id'',
             ce_position = position\<rparr>))
      | _ \<Rightarrow> contract_violation ''canonical effect must be an object'')"

definition admission_from_wire :: "pydict \<Rightarrow> admission_result result" where
  "admission_from_wire d =
     bindE (wire_list (pget d ''canonical_effects'') ''canonical_effects must be an array'') (\<lambda>raws.
     bindE (mapE effect_from_wire raws) (\<lambda>effects.
     bindE (enum_of status_text [ADMITTED, REJECTED, DEFERRED] (wire_text d ''status'')) (\<lambda>status.
     bindE (if pget d ''disposition'' = PNone then Inr None
        else bindE (enum_of disposition_text [EFFECTS_APPLIED, NO_OP_ALREADY_CANONICAL, NO_OP_REDUNDANT]
               (py_str (pget d ''disposition''))) (\<lambda>x. Inr (Some x))) (\<lambda>disposition.
     bindE (case pget d ''resulting_representation_state_ref'' of
          PDict raw \<Rightarrow> bindE (snapshot_from_wire raw) (\<lambda>p. Inr (Some p))
        | _ \<Rightarrow> Inr None) (\<lambda>state_ref.
     make_admission
       \<lparr>ar_request_id = wire_text d ''request_id'', ar_admission_id = wire_text d ''admission_id'', ar_status = status,
        ar_disposition = disposition, ar_effects = effects, ar_state_ref = state_ref,
        ar_replayed = py_truthy (get_or d ''replayed'' (PBool False)), ar_original_ref = wire_opt d ''original_result_ref''\<rparr>)))))"

section \<open>The JSON round trip\<close>

definition json_round_trip :: "pydict \<Rightarrow> pydict result" where
  "json_round_trip d =
     (if \<not> writable (PDict d) then Inl TypeError
      else bindE (loads (dumps (PDict d))) (\<lambda>v.
        case v of PDict e \<Rightarrow> Inr e | _ \<Rightarrow> contract_violation ''wire value must round-trip as an object''))"

section \<open>Round trips\<close>

named_theorems wire_simps \<open>reading the fields of a wire value\<close>

lemma wire_field_simps [wire_simps]:
  "wire_text d k = py_str (get_or d k (PStr []))" "wire_opt d k = (if pget d k = PNone then None else Some (py_str (pget d k)))"
  "wire_dict d k m = bindE (contract_require (is_dict (pget d k)) m) (\<lambda>_. Inr (dict_val (pget d k)))"
  "wire_list (PList xs) m = Inr xs" "get_or d k v = (case map_of d k of None \<Rightarrow> v | Some w \<Rightarrow> w)" "pget d k = get_or d k PNone"
  by (simp_all add: wire_text_def wire_opt_def wire_dict_def wire_list_def get_or_def pget_def)

lemma wire_more_simps [wire_simps]:
  "contract_require True m = Inr ()" "is_dict (PDict d)" "dict_val (PDict d) = d"
  "string_tuple (str_list ss) = Inr ss" "wire_int (PInt n) m = Inr n" "(opt_str s = PNone) = (s = None)"
  by (simp_all add: contract_require_def is_dict_def dict_val_def string_tuple_def str_list_def wire_list_def wire_int_def opt_str_def comp_def
    split: option.split)

lemma wire_opt_read: "pget d k = opt_str s \<Longrightarrow> wire_opt d k = s"
  by (cases s) (simp_all add: wire_opt_def opt_str_def)

lemma public_kind_of_text [simp]: "public_kind_of (public_kind_text k) = Inr k"
  by (cases k) (simp_all add: public_kind_of_def enum_of_def)

lemma code_of_text [simp]: "enum_of code_text all_codes (code_text c) = Inr c"
  by (cases c) (simp_all add: enum_of_def all_codes_def)

lemma status_of_text [simp]: "enum_of status_text [ADMITTED, REJECTED, DEFERRED] (status_text x) = Inr x"
  by (cases x) (simp_all add: enum_of_def)

lemma disposition_of_text [simp]:
  "enum_of disposition_text [EFFECTS_APPLIED, NO_OP_ALREADY_CANONICAL, NO_OP_REDUNDANT] (disposition_text x) = Inr x"
  by (cases x) (simp_all add: enum_of_def)

lemma wire_time_format: "valid_dt t \<Longrightarrow> \<not> naive t \<Longrightarrow> format_time t = Inr (isoformat t) \<and> wire_time (isoformat t) = Inr t"
  by (simp add: format_time_def wire_time_def concat_no_Z isoformat_not_Z fromisoformat_isoformat contract_require_def)

lemma error_wire:
  assumes "make_public_error e = Inr e"
  shows "error_from_wire (error_to_wire e) = Inr e"
  using assms by (cases e) (simp add: error_from_wire_def error_to_wire_def wire_simps)

lemma authority_wire:
  assumes "make_authority_context a = Inr a"
  shows "\<exists>d. authority_to_wire a = PDict d \<and> authority_from_wire d = Inr a"
  using assms by (cases a; cases "au_subject_id a") (simp_all add: authority_from_wire_def authority_to_wire_def wire_simps str_list_def comp_def opt_str_def)

lemma subject_wire:
  assumes "sj_subject_id s \<noteq> []"
  shows "\<exists>d. subject_to_wire s = PDict d \<and> make_subject_ref (wire_text d ''subject_id'') = Inr s"
  using assms by (simp add: subject_to_wire_def make_subject_ref_def required_def wire_simps)

lemma snapshot_wire:
  assumes "snapshot_ref_ok r"
  shows "\<exists>d. snapshot_to_wire r = PDict d \<and> snapshot_from_wire d = Inr r"
  using assms
  by (cases r)
    (simp add: snapshot_to_wire_def snapshot_from_wire_def subject_to_wire_def make_subject_ref_def required_def wire_simps snapshot_ref_ok_def
      make_snapshot_ref_Inr)

lemma node_wire: "node_from_wire (node_to_wire n) = Inr n"
  by (simp add: node_from_wire_def node_to_wire_def wire_simps)

lemma lookup_wire: "make_authority_context (al_authority r) = Inr (al_authority r) \<Longrightarrow> lookup_from_wire (lookup_to_wire r) = Inr r"
  using authority_wire[of "al_authority r"] by (auto simp: lookup_from_wire_def lookup_to_wire_def wire_simps)

lemma query_wire: "make_authority_context (qr_authority r) = Inr (qr_authority r) \<Longrightarrow> query_from_wire (query_to_wire r) = Inr r"
  using authority_wire[of "qr_authority r"] by (auto simp: query_from_wire_def query_to_wire_def wire_simps)

lemma lineage_wire: "make_authority_context (lq_authority r) = Inr (lq_authority r) \<Longrightarrow> lineage_from_wire (lineage_to_wire r) = Inr r"
  using authority_wire[of "lq_authority r"] by (auto simp: lineage_from_wire_def lineage_to_wire_def wire_simps)

lemma deficit_wire: "deficit_from_wire (deficit_to_wire x) = Inr x"
  by (simp add: deficit_from_wire_def deficit_to_wire_def wire_simps)

definition view_ok :: "state_view \<Rightarrow> bool" where
  "view_ok v \<longleftrightarrow> sj_subject_id (vw_subject_ref v) \<noteq> [] \<and> snapshot_ref_ok (vw_snapshot_ref v)"

lemma view_wire:
  assumes "view_ok v"
  shows "view_from_wire (view_to_wire v) = Inr v"
proof -
  obtain s where s: "subject_to_wire (vw_subject_ref v) = PDict s" "make_subject_ref (wire_text s ''subject_id'') = Inr (vw_subject_ref v)"
    using subject_wire assms by (auto simp: view_ok_def)
  obtain p where p: "snapshot_to_wire (vw_snapshot_ref v) = PDict p" "snapshot_from_wire p = Inr (vw_snapshot_ref v)"
    using snapshot_wire assms by (auto simp: view_ok_def)
  have "pget (view_to_wire v) ''subject_ref'' = PDict s" "pget (view_to_wire v) ''snapshot_ref'' = PDict p"
    by (simp_all add: view_to_wire_def s p pget_def get_or_def)
  then show ?thesis using s(2) p(2)
    by (simp add: view_from_wire_def wire_dict_def is_dict_def dict_val_def contract_require_def)
      (simp add: view_to_wire_def wire_simps)
qed

lemma trace_wire: "trace_from_wire (trace_to_wire t) = Inr t"
proof -
  have "mapE node_from_wire (map node_to_wire ns) = Inr ns" for ns by (induction ns) (simp_all add: node_wire)
  moreover have "mapE group_from_wire (map (\<lambda>(g, refs). PDict [(''evidence_refs'', str_list refs), (''group'', PStr g)]) gs) = Inr gs" for gs
    by (induction gs) (auto simp: group_from_wire_def wire_simps)
  moreover obtain d where "node_to_wire (tv_root t) = PDict d" by (simp add: node_to_wire_def)
  moreover from this have "node_from_wire (PDict d) = Inr (tv_root t)" using node_wire[of "tv_root t"] by simp
  ultimately show ?thesis by (simp add: trace_from_wire_def trace_to_wire_def wire_simps)
qed

text \<open>A result that its constructor and those of its parts accept.\<close>

definition admission_valid :: "admission_result \<Rightarrow> bool" where
  "admission_valid r \<longleftrightarrow> admission_coherent r \<and> (\<forall>p. ar_state_ref r = Some p \<longrightarrow> snapshot_ref_ok p)
     \<and> (\<forall>e\<in>set (ar_effects r). make_effect e = Inr e \<and> snapshot_ref_ok (ce_position e))"

lemma effect_wire:
  assumes "make_effect e = Inr e" "snapshot_ref_ok (ce_position e)"
  shows "effect_from_wire (effect_to_wire e) = Inr e"
  using assms(1) snapshot_wire[OF assms(2)] by (cases e) (auto simp: effect_from_wire_def effect_to_wire_def wire_simps)

lemma admission_wire:
  assumes "admission_valid r"
  shows "admission_from_wire (admission_to_wire r) = Inr r"
proof -
  have effects: "mapE effect_from_wire (map effect_to_wire es) = Inr es" if "set es \<subseteq> set (ar_effects r)" for es
    using that assms by (induction es) (auto simp: effect_wire admission_valid_def)
  have state: "(case (case ar_state_ref r of None \<Rightarrow> PNone | Some p \<Rightarrow> snapshot_to_wire p) of
      PDict raw \<Rightarrow> bindE (snapshot_from_wire raw) (\<lambda>p. Inr (Some p)) | _ \<Rightarrow> Inr None) = Inr (ar_state_ref r)"
  proof (cases "ar_state_ref r")
    case (Some p)
    then show ?thesis using snapshot_wire[of p] assms by (auto simp: admission_valid_def)
  qed simp
  have "make_admission r = Inr r" using assms by (simp add: admission_valid_def make_admission_Inr)
  then show ?thesis
    using effects[of "ar_effects r"] state
    by (cases r; cases "ar_disposition r"; cases "ar_original_ref r")
      (simp_all add: admission_from_wire_def admission_to_wire_def wire_simps opt_str_def)
qed

definition admit_ok :: "admit_request \<Rightarrow> bool" where
  "admit_ok r \<longleftrightarrow> make_admit r = Inr r \<and> sj_subject_id (aq_subject_ref r) \<noteq> [] \<and> make_authority_context (aq_authority r) = Inr (aq_authority r)
     \<and> valid_dt (aq_valid_from r) \<and> (\<forall>t. aq_valid_until r = Some t \<longrightarrow> valid_dt t)
     \<and> jsonable (PDict (aq_evidence r)) \<and> jsonable (PDict (aq_rights r))"

lemma admit_wire:
  assumes "admit_ok r"
  shows "\<exists>d. admit_to_wire r = Inr d \<and> admit_from_wire d = Inr r"
proof -
  have t: "\<not> naive (aq_valid_from r)" "\<And>u. aq_valid_until r = Some u \<Longrightarrow> \<not> naive u"
    using assms by (auto simp: admit_ok_def make_admit_def bindE_Inr_iff format_time_def split: option.splits)
  obtain a where a: "authority_to_wire (aq_authority r) = PDict a" "authority_from_wire a = Inr (aq_authority r)"
    using authority_wire assms by (auto simp: admit_ok_def)
  obtain s where s: "subject_to_wire (aq_subject_ref r) = PDict s" "make_subject_ref (wire_text s ''subject_id'') = Inr (aq_subject_ref r)"
    using subject_wire assms by (auto simp: admit_ok_def)
  define u where "u = (case aq_valid_until r of None \<Rightarrow> PNone | Some t \<Rightarrow> PStr (isoformat t))"
  have u: "(case aq_valid_until r of None \<Rightarrow> Inr PNone | Some t \<Rightarrow> bindE (format_time t) (\<lambda>s. Inr (PStr s))) = Inr u"
    "(if u = PNone then Inr None else bindE (wire_time (py_str u)) (\<lambda>t. Inr (Some t))) = Inr (aq_valid_until r)"
    using assms t(2) wire_time_format by (auto simp: u_def admit_ok_def split: option.split)
  have f: "format_time (aq_valid_from r) = Inr (isoformat (aq_valid_from r))" "wire_time (isoformat (aq_valid_from r)) = Inr (aq_valid_from r)"
    using wire_time_format assms t(1) by (simp_all add: admit_ok_def)
  define d where "d = projr (admit_to_wire r)"
  have d: "admit_to_wire r = Inr d" using u(1) f(1) by (simp add: admit_to_wire_def d_def)
  have fields: "pget d ''schema_version'' = PStr ''argo.dt.public.admit-evidence/v1''" "pget d ''subject_ref'' = PDict s" "pget d ''authority'' = PDict a"
    "pget d ''bounded_evidence'' = PDict (aq_evidence r)" "pget d ''rights'' = PDict (aq_rights r)"
    "wire_text d ''valid_from'' = isoformat (aq_valid_from r)" "pget d ''valid_until'' = u"
    "get_or d ''based_on_sequence'' (PInt 0) = PInt (aq_based_on_sequence r)" "wire_text d ''request_id'' = aq_request_id r"
    "wire_text d ''representation_id'' = aq_representation_id r" "wire_text d ''source'' = aq_source r"
    "wire_text d ''source_record_id'' = aq_source_record_id r" "wire_text d ''sensitivity'' = aq_sensitivity r"
    "wire_text d ''independence_group'' = aq_independence_group r" "wire_opt d ''connector_version'' = aq_connector_version r"
    "wire_opt d ''media_type'' = aq_media_type r" "wire_opt d ''source_content_hash'' = aq_source_hash r"
    by (simp_all add: d_def admit_to_wire_def u(1) f(1) a(1) s(1) wire_text_def wire_opt_read pget_def get_or_def)
  have m: "make_admit \<lparr>aq_request_id = aq_request_id r, aq_representation_id = aq_representation_id r, aq_subject_ref = aq_subject_ref r,
      aq_source = aq_source r, aq_source_record_id = aq_source_record_id r, aq_evidence = aq_evidence r, aq_rights = aq_rights r,
      aq_sensitivity = aq_sensitivity r, aq_valid_from = aq_valid_from r, aq_valid_until = aq_valid_until r,
      aq_independence_group = aq_independence_group r, aq_based_on_sequence = aq_based_on_sequence r, aq_authority = aq_authority r,
      aq_connector_version = aq_connector_version r, aq_media_type = aq_media_type r, aq_source_hash = aq_source_hash r\<rparr> = Inr r"
    using assms by (cases r) (simp add: admit_ok_def)
  have "admit_from_wire d = Inr r"
  proof (cases "aq_valid_until r")
    case None
    then have "u = PNone" by (simp add: u_def)
    then show ?thesis using m None
      by (simp add: admit_from_wire_def fields wire_dict_def is_dict_def dict_val_def contract_require_def wire_int_def a(2) s(2) f(2))
  next
    case (Some t)
    then have "u = PStr (isoformat t)" "wire_time (isoformat t) = Inr t" using wire_time_format t(2) assms by (auto simp: u_def admit_ok_def)
    then show ?thesis using m Some
      by (simp add: admit_from_wire_def fields wire_dict_def is_dict_def dict_val_def contract_require_def wire_int_def a(2) s(2) f(2))
  qed
  then show ?thesis using d by blast
qed

section \<open>What the readers accept\<close>

text \<open>Whatever text arrives, a record that is read has passed the checks of its constructor and of its parts.\<close>

lemma make_authority_Inr: "make_authority_context a = Inr b \<Longrightarrow> b = a"
  by (auto simp: make_authority_context_def bindE_Inr_iff)

lemma make_admit_Inr: "make_admit r = Inr q \<Longrightarrow> q = r"
  by (auto simp: make_admit_def bindE_Inr_iff)

lemma snapshot_read: "snapshot_from_wire d = Inr p \<Longrightarrow> snapshot_ref_ok p"
  by (auto simp: snapshot_from_wire_def bindE_Inr_iff make_subject_ref_def make_snapshot_ref_Inr snapshot_ref_ok_def)

lemma effect_read: "effect_from_wire v = Inr e \<Longrightarrow> make_effect e = Inr e \<and> snapshot_ref_ok (ce_position e)"
  by (auto simp: effect_from_wire_def bindE_Inr_iff make_effect_Inr contract_violation_def split: pyval.splits dest: snapshot_read)

lemma mapE_members: "mapE f xs = Inr ys \<Longrightarrow> y \<in> set ys \<Longrightarrow> \<exists>x. f x = Inr y"
  by (induction xs arbitrary: ys) (auto simp: bindE_Inr_iff)

lemma admission_read:
  assumes "admission_from_wire d = Inr r"
  shows "admission_valid r"
proof -
  from assms obtain raws effects where e: "mapE effect_from_wire raws = Inr effects" "ar_effects r = effects" "admission_coherent r"
    and p: "(case pget d ''resulting_representation_state_ref'' of
          PDict raw \<Rightarrow> bindE (snapshot_from_wire raw) (\<lambda>p. Inr (Some p)) | _ \<Rightarrow> Inr None) = Inr (ar_state_ref r)"
    unfolding admission_from_wire_def bindE_Inr_iff make_admission_Inr by (elim exE conjE) (rule that; simp)
  have "\<forall>q. ar_state_ref r = Some q \<longrightarrow> snapshot_ref_ok q" using p snapshot_read by (auto simp: bindE_Inr_iff split: pyval.splits)
  moreover have "\<forall>e\<in>set effects. make_effect e = Inr e \<and> snapshot_ref_ok (ce_position e)"
    using mapE_members[OF e(1)] effect_read by blast
  ultimately show ?thesis using e(2,3) by (simp add: admission_valid_def)
qed

lemma authority_read: "authority_from_wire d = Inr a \<Longrightarrow> make_authority_context a = Inr a"
  using make_authority_Inr by (fastforce simp: authority_from_wire_def bindE_Inr_iff)

lemma admit_read:
  assumes "admit_from_wire d = Inr r"
  shows "make_admit r = Inr r \<and> sj_subject_id (aq_subject_ref r) \<noteq> [] \<and> make_authority_context (aq_authority r) = Inr (aq_authority r)"
proof -
  from assms obtain raw authority_raw subject authority q where "make_subject_ref (wire_text raw ''subject_id'') = Inr subject"
    "authority_from_wire authority_raw = Inr authority" "make_admit q = Inr r" "aq_subject_ref q = subject" "aq_authority q = authority"
    unfolding admit_from_wire_def bindE_Inr_iff by (elim exE conjE) (rule that; (assumption | simp))
  moreover from this(3) have "q = r" using make_admit_Inr by blast
  moreover have "sj_subject_id subject \<noteq> []" using calculation(1) by (auto simp: make_subject_ref_def bindE_Inr_iff)
  ultimately show ?thesis using authority_read[of authority_raw authority] by simp
qed

section \<open>Through the JSON text\<close>

lemma jsonable_writable: "jsonable v \<Longrightarrow> writable v"
  by (induction v) (auto simp: list_all_iff)

lemma json_round_trip_same: "jsonable (PDict d) \<Longrightarrow> json_round_trip d = Inr d"
  using jsonable_writable[of "PDict d"] loads_dumps[of "PDict d"]
  by (simp add: json_round_trip_def del: jsonable.simps writable.simps dumps.simps)

lemma jsonable_opt [simp]: "jsonable (opt_str s)"
  by (cases s) (simp_all add: opt_str_def)

lemma jsonable_texts [simp]: "jsonable (str_list ss)"
  by (simp add: str_list_def list_all_iff)

lemma jsonable_authority [simp]: "jsonable (authority_to_wire a)"
  by (simp add: authority_to_wire_def wf_dict_def)

lemma jsonable_subject [simp]: "jsonable (subject_to_wire s)"
  by (simp add: subject_to_wire_def wf_dict_def)

lemma jsonable_snapshot [simp]: "jsonable (snapshot_to_wire p)"
  by (simp add: snapshot_to_wire_def wf_dict_def)

lemma jsonable_node [simp]: "jsonable (node_to_wire n)"
  by (simp add: node_to_wire_def wf_dict_def)

lemma jsonable_wires:
  "jsonable (PDict (error_to_wire e))" "jsonable (PDict (lookup_to_wire l))" "jsonable (PDict (query_to_wire q))"
  "jsonable (PDict (lineage_to_wire g))" "jsonable (PDict (view_to_wire v))" "jsonable (PDict (deficit_to_wire x))"
  "jsonable (PDict (trace_to_wire t))" "jsonable (PDict (admission_to_wire r))"
  by (auto simp: error_to_wire_def lookup_to_wire_def query_to_wire_def lineage_to_wire_def view_to_wire_def deficit_to_wire_def
      trace_to_wire_def admission_to_wire_def effect_to_wire_def wf_dict_def list_all_iff split: option.split)

lemma jsonable_admit: "admit_ok r \<Longrightarrow> admit_to_wire r = Inr d \<Longrightarrow> jsonable (PDict d)"
  by (auto simp: admit_to_wire_def admit_ok_def bindE_Inr_iff wf_dict_def split: option.splits)

end
