(* ===== verification/K2_Transport.thy ===== *)
theory K2_Transport
  imports K2_Contracts
begin

text \<open>
  The transport-simulated client (\<open>src/src/argo_dt/public/transport.py\<close>) over any backend that offers the
  operations of \<open>K2PublicAPI\<close>: every request, result and public failure takes the way through its wire form and
  the JSON text. Shown, in a locale for the interface of the backend: for valid requests the client is the
  backend, results, failures and effects alike.
\<close>

section \<open>Operations of the public interface\<close>

text \<open>What leaves an operation by an exception: a \<open>K2PublicError\<close>, or any other exception.\<close>

datatype raised = Public public_failure | Private error

type_synonym 'a outcome = "raised + 'a"

type_synonym ('a, 'w) operation = "'w \<Rightarrow> 'a outcome \<times> 'w"

section \<open>The client\<close>

definition transport_failure :: "public_failure \<Rightarrow> raised" where
  "transport_failure f =
     (case bindE (to_public_error f) (\<lambda>e. bindE (json_round_trip (error_to_wire e)) (\<lambda>d. bindE (error_from_wire d) from_public_error)) of
        Inl err \<Rightarrow> Private err
      | Inr g \<Rightarrow> Public g)"

definition transport_call :: "('a, 'w) operation \<Rightarrow> ('a, 'w) operation" where
  "transport_call m w =
     (case m w of
        (Inl (Public f), w') \<Rightarrow> (Inl (transport_failure f), w')
      | answer \<Rightarrow> answer)"

text \<open>A request on its way in, and a result on its way out.\<close>

definition inbound :: "'b result \<Rightarrow> ('b \<Rightarrow> ('a, 'w) operation) \<Rightarrow> ('a, 'w) operation" where
  "inbound r f w = (case r of Inl err \<Rightarrow> (Inl (Private err), w) | Inr x \<Rightarrow> f x w)"

definition outbound :: "('a \<Rightarrow> 'b result) \<Rightarrow> ('a, 'w) operation \<Rightarrow> ('b, 'w) operation" where
  "outbound g m w =
     (case m w of
        (Inl e, w') \<Rightarrow> (Inl e, w')
      | (Inr x, w') \<Rightarrow> (case g x of Inl err \<Rightarrow> (Inl (Private err), w') | Inr y \<Rightarrow> (Inr y, w')))"

definition carry_admission :: "admission_result \<Rightarrow> admission_result result" where
  "carry_admission r = bindE (json_round_trip (admission_to_wire r)) admission_from_wire"

definition client_admit_evidence ::
  "(admit_request \<Rightarrow> (admission_result, 'w) operation) \<Rightarrow> admit_request \<Rightarrow> (admission_result, 'w) operation" where
  "client_admit_evidence backend r =
     inbound (bindE (admit_to_wire r) (\<lambda>d. bindE (json_round_trip d) admit_from_wire)) (\<lambda>x.
     outbound carry_admission (transport_call (backend x)))"

definition client_get_admission ::
  "(admission_lookup \<Rightarrow> (admission_result option, 'w) operation) \<Rightarrow> admission_lookup \<Rightarrow> (admission_result option, 'w) operation" where
  "client_get_admission backend r =
     inbound (bindE (json_round_trip (lookup_to_wire r)) lookup_from_wire) (\<lambda>x.
     outbound (\<lambda>answer. case answer of None \<Rightarrow> Inr None | Some a \<Rightarrow> bindE (carry_admission a) (\<lambda>b. Inr (Some b)))
       (transport_call (backend x)))"

definition client_read_state ::
  "(representation_query \<Rightarrow> (state_view, 'w) operation) \<Rightarrow> representation_query \<Rightarrow> (state_view, 'w) operation" where
  "client_read_state backend r =
     inbound (bindE (json_round_trip (query_to_wire r)) query_from_wire) (\<lambda>x.
     outbound (\<lambda>v. bindE (json_round_trip (view_to_wire v)) view_from_wire) (transport_call (backend x)))"

definition client_read_deficits ::
  "(representation_query \<Rightarrow> (deficit list, 'w) operation) \<Rightarrow> representation_query \<Rightarrow> (deficit list, 'w) operation" where
  "client_read_deficits backend r =
     inbound (bindE (json_round_trip (query_to_wire r)) query_from_wire) (\<lambda>x.
     outbound (mapE (\<lambda>v. bindE (json_round_trip (deficit_to_wire v)) deficit_from_wire)) (transport_call (backend x)))"

definition client_trace_lineage ::
  "(lineage_query \<Rightarrow> (trace_view, 'w) operation) \<Rightarrow> lineage_query \<Rightarrow> (trace_view, 'w) operation" where
  "client_trace_lineage backend r =
     inbound (bindE (json_round_trip (lineage_to_wire r)) lineage_from_wire) (\<lambda>x.
     outbound (\<lambda>v. bindE (json_round_trip (trace_to_wire v)) trace_from_wire) (transport_call (backend x)))"

section \<open>Failures and results that travel unchanged\<close>

definition failure_ok :: "public_failure \<Rightarrow> bool" where
  "failure_ok f \<longleftrightarrow> pf_message f \<noteq> [] \<and> pf_retryable f = retryable_for_code (pf_code f)"

lemma failure_transported: "failure_ok f \<Longrightarrow> transport_failure f = Public f"
proof -
  assume ok: "failure_ok f"
  let ?e = "\<lparr>pe_code = pf_code f, pe_safe_message = pf_message f, pe_retryable = pf_retryable f\<rparr>"
  have e: "make_public_error ?e = Inr ?e"
    using ok by (simp add: make_public_error_def failure_ok_def required_def contract_require_def)
  have "to_public_error f = Inr ?e" by (simp add: to_public_error_def e)
  moreover have "from_public_error ?e = Inr f"
    using ok by (cases f) (simp add: from_public_error_def make_failure_def failure_ok_def contract_require_def)
  ultimately show ?thesis
    by (simp add: transport_failure_def json_round_trip_same[OF jsonable_wires(1)] error_wire[OF e])
qed

text \<open>What an operation may answer: results of one kind, and failures that a \<open>PublicError\<close> can describe.\<close>

definition replies :: "('a \<Rightarrow> bool) \<Rightarrow> ('a, 'w) operation \<Rightarrow> bool" where
  "replies P m \<longleftrightarrow> (\<forall>w. case fst (m w) of Inr x \<Rightarrow> P x | Inl (Public f) \<Rightarrow> failure_ok f | Inl (Private e) \<Rightarrow> True)"

lemma replies_Public: "replies P m \<Longrightarrow> m w = (Inl (Public f), w') \<Longrightarrow> failure_ok f"
  unfolding replies_def by (drule spec[of _ w]) simp

lemma replies_Inr: "replies P m \<Longrightarrow> m w = (Inr x, w') \<Longrightarrow> P x"
  unfolding replies_def by (drule spec[of _ w]) simp

lemma repliesI:
  assumes "\<And>w x w'. m w = (Inr x, w') \<Longrightarrow> P x" "\<And>w f w'. m w = (Inl (Public f), w') \<Longrightarrow> failure_ok f"
  shows "replies P m"
  unfolding replies_def
proof
  fix w
  obtain r w' where m: "m w = (r, w')" by (cases "m w")
  then show "case fst (m w) of Inr x \<Rightarrow> P x | Inl (Public f) \<Rightarrow> failure_ok f | Inl (Private e) \<Rightarrow> True"
    using assms by (auto split: sum.split raised.split)
qed

lemma call_same: "replies P m \<Longrightarrow> transport_call m = m"
  by (rule ext) (auto simp: transport_call_def failure_transported dest: replies_Public split: prod.splits sum.splits raised.splits)

lemma outbound_same: "replies P m \<Longrightarrow> (\<And>x. P x \<Longrightarrow> g x = Inr x) \<Longrightarrow> outbound g m = m"
  by (rule ext) (auto simp: outbound_def dest: replies_Inr split: prod.splits sum.splits)

lemma inbound_Inr [simp]: "inbound (Inr x) f = f x"
  by (rule ext) (simp add: inbound_def)

lemma carry_same: "admission_valid r \<Longrightarrow> carry_admission r = Inr r"
  by (simp add: carry_admission_def json_round_trip_same[OF jsonable_wires(8)] admission_wire)

section \<open>The interface\<close>

text \<open>\<open>K2PublicAPI\<close>: five operations over one world, whose results are those the contracts' constructors accept.\<close>

locale public_backend =
  fixes admit_op :: "admit_request \<Rightarrow> (admission_result, 'w) operation"
    and lookup_op :: "admission_lookup \<Rightarrow> (admission_result option, 'w) operation"
    and state_op :: "representation_query \<Rightarrow> (state_view, 'w) operation"
    and deficits_op :: "representation_query \<Rightarrow> (deficit list, 'w) operation"
    and trace_op :: "lineage_query \<Rightarrow> (trace_view, 'w) operation"
  assumes admit_answers: "replies admission_valid (admit_op r)"
    and lookup_answers: "replies (\<lambda>a. \<forall>x. a = Some x \<longrightarrow> admission_valid x) (lookup_op l)"
    and state_answers: "replies view_ok (state_op q)"
    and deficits_answers: "replies (\<lambda>xs. True) (deficits_op q)"
    and trace_answers: "replies (\<lambda>t. True) (trace_op g)"
begin

lemma client_admit: "admit_ok r \<Longrightarrow> client_admit_evidence admit_op r = admit_op r"
proof -
  assume ok: "admit_ok r"
  then obtain d where d: "admit_to_wire r = Inr d" "admit_from_wire d = Inr r" using admit_wire by blast
  show ?thesis
    using d json_round_trip_same[OF jsonable_admit[OF ok d(1)]] outbound_same[OF admit_answers] carry_same
    by (simp add: client_admit_evidence_def call_same[OF admit_answers])
qed

lemma client_lookup:
  "make_authority_context (al_authority r) = Inr (al_authority r) \<Longrightarrow> client_get_admission lookup_op r = lookup_op r"
  using outbound_same[OF lookup_answers] carry_same
  by (auto simp: client_get_admission_def json_round_trip_same[OF jsonable_wires(2)] lookup_wire call_same[OF lookup_answers]
      split: option.splits intro!: outbound_same[OF lookup_answers])

lemma client_state:
  "make_authority_context (qr_authority r) = Inr (qr_authority r) \<Longrightarrow> client_read_state state_op r = state_op r"
  by (simp add: client_read_state_def json_round_trip_same[OF jsonable_wires(3)] query_wire call_same[OF state_answers]
      outbound_same[OF state_answers] json_round_trip_same[OF jsonable_wires(5)] view_wire)

lemma client_deficits:
  "make_authority_context (qr_authority r) = Inr (qr_authority r) \<Longrightarrow> client_read_deficits deficits_op r = deficits_op r"
proof -
  assume a: "make_authority_context (qr_authority r) = Inr (qr_authority r)"
  have "mapE (\<lambda>v. bindE (json_round_trip (deficit_to_wire v)) deficit_from_wire) xs = Inr xs" for xs
    by (induction xs) (simp_all add: json_round_trip_same[OF jsonable_wires(6)] deficit_wire)
  then show ?thesis using a
    by (simp add: client_read_deficits_def json_round_trip_same[OF jsonable_wires(3)] query_wire call_same[OF deficits_answers]
        outbound_same[OF deficits_answers])
qed

lemma client_trace:
  "make_authority_context (lq_authority r) = Inr (lq_authority r) \<Longrightarrow> client_trace_lineage trace_op r = trace_op r"
  by (simp add: client_trace_lineage_def json_round_trip_same[OF jsonable_wires(4)] lineage_wire call_same[OF trace_answers]
      outbound_same[OF trace_answers] json_round_trip_same[OF jsonable_wires(7)] trace_wire)

end

end
