(* ===== verification/K2_Facade.thy ===== *)
theory K2_Facade
  imports K2_Epistemic K2_Transport
begin

text \<open>
  The public facade over the service (\<open>src/src/argo_dt/public/facade.py\<close>): the five operations of
  \<open>K2PublicAPI\<close>, the translation of the service's exceptions into public failures, and the public names of
  representation items and deficits. A call takes the service and gives its outcome and the service after it.
  Shown here: the facade is a backend whose answers travel unchanged, so it interprets the interface of the
  transport client.
\<close>

section \<open>Failures\<close>

type_synonym 'a call = "('a, service) operation"

text \<open>\<open>K2PublicError(code, message)\<close>\<close>

definition failure :: "error_code \<Rightarrow> string \<Rightarrow> public_failure" where
  "failure c m = \<lparr>pf_code = c, pf_message = m, pf_retryable = retryable_for_code c\<rparr>"

fun translate_error :: "raised \<Rightarrow> raised" where
  "translate_error (Public f) = Public f"
| "translate_error (Private OutOfModel) = Private OutOfModel"
| "translate_error (Private (AuthorizationDenied m)) = Public (failure AUTHORIZATION_DENIED ''authorization denied'')"
| "translate_error (Private (PolicyDenied m)) = Public (failure AUTHORIZATION_DENIED ''authorization denied'')"
| "translate_error (Private (ConcurrencyConflict m)) = Public (failure STALE_STATE ''canonical state precondition is stale'')"
| "translate_error (Private (NotFound m)) = Public (failure NOT_FOUND ''requested canonical resource was not found'')"
| "translate_error (Private (InvariantViolation m)) = Public (failure INVALID_REQUEST ''request violates the public canonical contract'')"
| "translate_error (Private (ValueError m)) = Public (failure INVALID_REQUEST ''request violates the public canonical contract'')"
| "translate_error (Private (ProtocolViolation m)) = Public (failure INVALID_REQUEST ''request violates the public canonical contract'')"
| "translate_error (Private (ResumeCursorRejected m)) = Public (failure INVALID_REQUEST ''request violates the public canonical contract'')"
| "translate_error (Private (MessageTooLarge m)) = Public (failure INVALID_REQUEST ''request violates the public canonical contract'')"
| "translate_error (Private (IntegrityError m)) = Public (failure INVARIANT_VIOLATION ''canonical integrity invariant could not be satisfied'')"
| "translate_error (Private e) = Public (failure TEMPORARILY_UNAVAILABLE ''canonical service is temporarily unavailable'')"

section \<open>Calls\<close>

definition andC :: "'a call \<Rightarrow> ('a \<Rightarrow> 'b call) \<Rightarrow> 'b call" where
  "andC m f sv = (case m sv of (Inl e, sv') \<Rightarrow> (Inl e, sv') | (Inr x, sv') \<Rightarrow> f x sv')"

definition doneC :: "'a \<Rightarrow> 'a call" where
  "doneC x sv = (Inr x, sv)"

definition fails :: "error_code \<Rightarrow> string \<Rightarrow> 'a call" where
  "fails c m sv = (Inl (Public (failure c m)), sv)"

text \<open>A call of the service, whose exceptions are private ones.\<close>

definition lifted :: "'a step \<Rightarrow> 'a call" where
  "lifted m sv = (case m sv of (Inl err, sv') \<Rightarrow> (Inl (Private err), sv') | (Inr x, sv') \<Rightarrow> (Inr x, sv'))"

definition made :: "'a result \<Rightarrow> 'a call" where
  "made r = lifted (doneS r)"

text \<open>\<open>try: ... except Exception as exc: raise self._translate_error(exc) from exc\<close>\<close>

definition translating :: "'a call \<Rightarrow> 'a call" where
  "translating m sv = (case m sv of (Inl e, sv') \<Rightarrow> (Inl (translate_error e), sv') | (Inr x, sv') \<Rightarrow> (Inr x, sv'))"

section \<open>Actors, names and kinds\<close>

definition actor_of :: "authority_context \<Rightarrow> actor call" where
  "actor_of a =
     (case mapE role_of (au_roles a) of
        Inl _ \<Rightarrow> fails INVALID_REQUEST ''authority contains an unsupported role''
      | Inr rs \<Rightarrow> made (make_actor (au_identity_id a) (set rs) (au_subject_id a)))"

definition item_ref :: "(string \<Rightarrow> string) \<Rightarrow> string \<Rightarrow> string \<Rightarrow> string" where
  "item_ref uuid5 rep claim = ''representation-item:'' @ uuid5 (''k2-public:'' @ rep @ '':representation-item:'' @ claim)"

definition deficit_ref :: "(string \<Rightarrow> string) \<Rightarrow> string \<Rightarrow> string \<Rightarrow> string \<Rightarrow> string" where
  "deficit_ref uuid5 rep kind target = ''representation-deficit:'' @ uuid5 (''k2-public:'' @ rep @ '':deficit:'' @ kind @ '':'' @ target)"

text \<open>The first claim of the dictionary whose public name this is.\<close>

definition private_claim_id :: "(string \<Rightarrow> string) \<Rightarrow> (string \<Rightarrow> string) \<Rightarrow> service_config \<Rightarrow> string \<Rightarrow> string \<Rightarrow> string call" where
  "private_claim_id H uuid5 cf rep public_ref =
     andC (lifted (service_state H cf rep None None None)) (\<lambda>s.
       case find (\<lambda>c. item_ref uuid5 rep c = public_ref) (dict_keys (st_claims s)) of
         Some c \<Rightarrow> doneC c
       | None \<Rightarrow> fails NOT_FOUND ''requested public representation item was not found'')"

fun private_node_kind :: "public_node_kind \<Rightarrow> node_kind" where
  "private_node_kind PUBLIC_EVIDENCE = EVIDENCE_NODE"
| "private_node_kind REPRESENTATION_ENTITY = ENTITY_NODE"
| "private_node_kind REPRESENTATION_ITEM = CLAIM_NODE"
| "private_node_kind PUBLIC_CONTRADICTION = CONTRADICTION_NODE"
| "private_node_kind PUBLIC_CORRECTION = CORRECTION_NODE"
| "private_node_kind PUBLIC_PROJECTION = PROJECTION_NODE"

fun public_kind_for :: "node_kind \<Rightarrow> public_node_kind" where
  "public_kind_for EVIDENCE_NODE = PUBLIC_EVIDENCE"
| "public_kind_for ENTITY_NODE = REPRESENTATION_ENTITY"
| "public_kind_for CLAIM_NODE = REPRESENTATION_ITEM"
| "public_kind_for CONTRADICTION_NODE = PUBLIC_CONTRADICTION"
| "public_kind_for CORRECTION_NODE = PUBLIC_CORRECTION"
| "public_kind_for PROJECTION_NODE = PUBLIC_PROJECTION"

definition public_node_ref :: "(string \<Rightarrow> string) \<Rightarrow> string \<Rightarrow> lineage_node \<Rightarrow> node_ref" where
  "public_node_ref uuid5 rep n =
     \<lparr>nr_kind = public_kind_for (ln_kind n),
      nr_node_id = (if ln_kind n = CLAIM_NODE then item_ref uuid5 rep (ln_node_id n) else ln_node_id n)\<rparr>"

section \<open>Admission\<close>

definition position_of :: "string \<Rightarrow> string \<Rightarrow> int \<Rightarrow> string \<Rightarrow> snapshot_ref result" where
  "position_of rep subject n integrity =
     bindE (make_subject_ref subject) (\<lambda>sub.
     make_snapshot_ref \<lparr>rp_subject_ref = sub, rp_snapshot_id = ''k2:'' @ rep @ '':sequence:'' @ show_int n, rp_canonical_sequence = n,
        rp_integrity_ref = ''event-chain:'' @ integrity\<rparr>)"

text \<open>\<open>_snapshot_ref\<close>, called with the hash of the event; an empty hash falls back to the state's.\<close>

definition facade_snapshot_ref :: "(string \<Rightarrow> string) \<Rightarrow> service_config \<Rightarrow> string \<Rightarrow> int \<Rightarrow> string option \<Rightarrow> snapshot_ref call" where
  "facade_snapshot_ref H cf rep n ev_hash =
     andC (lifted (service_state H cf rep (Some n) None None)) (\<lambda>s.
       case st_subject_id s of
         None \<Rightarrow> fails INVARIANT_VIOLATION ''canonical representation has no subject binding''
       | Some subject \<Rightarrow>
           (let integrity = (case ev_hash of None \<Rightarrow> st_last_event_hash s | Some h \<Rightarrow> if h = [] then st_last_event_hash s else h) in
            if integrity = [] then fails INVARIANT_VIOLATION ''canonical representation has no integrity anchor''
            else made (position_of rep subject n integrity)))"

definition event_to_result ::
  "(string \<Rightarrow> string) \<Rightarrow> (string \<Rightarrow> string) \<Rightarrow> service_config \<Rightarrow> event \<Rightarrow> string \<Rightarrow> bool \<Rightarrow> admission_result call" where
  "event_to_result H uuid5 cf ev request replayed =
     (if event_type ev \<noteq> ''EvidenceIngested''
      then fails INVARIANT_VIOLATION ''request does not resolve to an evidence admission''
      else andC (facade_snapshot_ref H cf (twin_id ev) (sequence ev) (Some (event_hash ev))) (\<lambda>position.
        let evidence = py_str (get_or (payload ev) ''evidence_id'' (PStr [])) in
        if evidence = [] then fails INVARIANT_VIOLATION ''canonical evidence event is missing evidence identity''
        else andC (made (make_effect
             \<lparr>ce_effect_id = uuid5 (event_id ev @ '':evidence_registered''), ce_effect_kind = ''evidence_registered'',
              ce_affected_ref = evidence, ce_source_request_id = request, ce_position = position\<rparr>)) (\<lambda>effect.
          made (make_admission
             \<lparr>ar_request_id = request, ar_admission_id = event_id ev, ar_status = ADMITTED, ar_disposition = Some EFFECTS_APPLIED,
              ar_effects = [effect], ar_state_ref = Some position, ar_replayed = replayed,
              ar_original_ref = (if replayed then Some (event_id ev) else None)\<rparr>))))"

text \<open>The result is built after the \<open>try\<close>: what it raises leaves untranslated.\<close>

definition admit_evidence ::
  "(string \<Rightarrow> string) \<Rightarrow> (string \<Rightarrow> string) \<Rightarrow> service_config \<Rightarrow> readings \<Rightarrow> admit_request \<Rightarrow> admission_result call" where
  "admit_evidence H uuid5 cf rd r =
     andC (translating
       (andC (actor_of (aq_authority r)) (\<lambda>a.
        andC (lifted (readS (\<lambda>db. Inr (fst (head db (aq_representation_id r)))))) (\<lambda>head_before.
        andC (made (sensitivity_of (aq_sensitivity r))) (\<lambda>level.
        andC (lifted (ingest_evidence H uuid5 cf rd (aq_representation_id r) (sj_subject_id (aq_subject_ref r)) (aq_source r)
            (aq_source_record_id r) (aq_evidence r) (aq_rights r) level (aq_valid_from r) (aq_valid_until r)
            (aq_independence_group r) (aq_connector_version r) (aq_media_type r) (aq_source_hash r)
            (aq_based_on_sequence r) (aq_request_id r) a)) (\<lambda>ev.
        doneC (ev, head_before))))))) (\<lambda>(ev, head_before).
     event_to_result H uuid5 cf ev (aq_request_id r) (sequence ev \<le> head_before))"

definition get_admission_result ::
  "(string \<Rightarrow> string) \<Rightarrow> (string \<Rightarrow> string) \<Rightarrow> service_config \<Rightarrow> admission_lookup \<Rightarrow> admission_result option call" where
  "get_admission_result H uuid5 cf r =
     andC (actor_of (al_authority r)) (\<lambda>a.
     translating
       (andC (lifted (readS (\<lambda>db. load db (al_representation_id r) 0 None [] None))) (\<lambda>evs.
          case find (\<lambda>ev. idempotency_key ev = al_request_id r) evs of
            None \<Rightarrow> doneC None
          | Some ev \<Rightarrow>
              if event_type ev \<noteq> ''EvidenceIngested'' then doneC None
              else andC (lifted (service_state H cf (al_representation_id r) (Some (sequence ev)) None None)) (\<lambda>s.
                   andC (made (authorize_subject a (st_subject_id s))) (\<lambda>_.
                   andC (event_to_result H uuid5 cf ev (al_request_id r) False) (\<lambda>x. doneC (Some x)))))))"

section \<open>Reading\<close>

definition state_view_of :: "(string \<Rightarrow> string) \<Rightarrow> string \<Rightarrow> twin_state \<Rightarrow> snapshot_ref \<Rightarrow> state_view" where
  "state_view_of uuid5 rep s position =
     \<lparr>vw_representation_id = rep, vw_subject_ref = rp_subject_ref position, vw_snapshot_ref = position,
      vw_evidence_refs = sort (dict_keys (st_evidence s)),
      vw_item_refs = map (item_ref uuid5 rep) (sort (dict_keys (st_claims s))),
      vw_accepted_refs = map (item_ref uuid5 rep) (sorted_list_of_set (st_accepted_claim_ids s)),
      vw_contested_refs = map (item_ref uuid5 rep) (sorted_list_of_set (st_contested_claim_ids s)),
      vw_contradiction_refs = sort (dict_keys (st_contradictions s)),
      vw_degraded_reasons = st_degraded_reasons s\<rparr>"

definition show_state :: "(string \<Rightarrow> string) \<Rightarrow> string \<Rightarrow> twin_state \<Rightarrow> state_view call" where
  "show_state uuid5 rep s =
     (case st_subject_id s of
        None \<Rightarrow> fails NOT_FOUND ''canonical representation is not initialized''
      | Some subject \<Rightarrow>
          if st_sequence s < 1 then fails NOT_FOUND ''canonical representation is not initialized''
          else andC (made (position_of rep subject (st_sequence s) (st_last_event_hash s))) (\<lambda>position.
            doneC (state_view_of uuid5 rep s position)))"

definition read_representation_state ::
  "(string \<Rightarrow> string) \<Rightarrow> (string \<Rightarrow> string) \<Rightarrow> service_config \<Rightarrow> representation_query \<Rightarrow> state_view call" where
  "read_representation_state H uuid5 cf r =
     andC (actor_of (qr_authority r)) (\<lambda>a.
     andC (translating
        (andC (lifted (service_state H cf (qr_representation r) None None None)) (\<lambda>s.
         andC (made (authorize_subject a (st_subject_id s))) (\<lambda>_. doneC s))))
       (show_state uuid5 (qr_representation r)))"

definition claim_deficit :: "(string \<Rightarrow> string) \<Rightarrow> string \<Rightarrow> string \<Rightarrow> string \<Rightarrow> string \<Rightarrow> deficit" where
  "claim_deficit uuid5 rep kind rationale claim =
     \<lparr>df_deficit_id = deficit_ref uuid5 rep kind claim, df_kind = kind, df_target_refs = [item_ref uuid5 rep claim], df_rationale = rationale\<rparr>"

text \<open>The deficits of a state; the reasons of degradation come from the view that was read before it.\<close>

definition deficits_of :: "(string \<Rightarrow> string) \<Rightarrow> string \<Rightarrow> twin_state \<Rightarrow> string list \<Rightarrow> deficit list" where
  "deficits_of uuid5 rep s reasons =
     (if st_claims s = []
      then [\<lparr>df_deficit_id = rep @ '':missing-representation'', df_kind = ''missing_representation'', df_target_refs = [],
             df_rationale = ''No canonical claim currently represents the subject.''\<rparr>] else [])
     @ map (claim_deficit uuid5 rep ''stale_representation'' ''Canonical representation item depends on stale evidence.'')
         (sorted_list_of_set (st_stale_claim_ids s))
     @ map (claim_deficit uuid5 rep ''contested_representation'' ''Canonical representation item remains contested.'')
         (sorted_list_of_set (st_contested_claim_ids s))
     @ map (\<lambda>c. \<lparr>df_deficit_id = rep @ '':contradiction:'' @ c, df_kind = ''unresolved_contradiction'', df_target_refs = [c],
             df_rationale = ''Canonical contradiction remains unresolved.''\<rparr>)
         (sorted_list_of_set (set (dict_keys (st_contradictions s)) - st_resolved_contradiction_ids s))
     @ map (\<lambda>(i, reason). \<lparr>df_deficit_id = rep @ '':degraded:'' @ show_int (int i), df_kind = ''degraded_state'', df_target_refs = [],
             df_rationale = reason\<rparr>)
         (zip [0..<length reasons] reasons)"

definition read_representation_deficits ::
  "(string \<Rightarrow> string) \<Rightarrow> (string \<Rightarrow> string) \<Rightarrow> service_config \<Rightarrow> representation_query \<Rightarrow> deficit list call" where
  "read_representation_deficits H uuid5 cf r =
     andC (read_representation_state H uuid5 cf r) (\<lambda>v.
     andC (lifted (service_state H cf (qr_representation r) None None None)) (\<lambda>s.
     doneC (deficits_of uuid5 (qr_representation r) s (vw_degraded_reasons v))))"

definition facade_trace_lineage ::
  "(string \<Rightarrow> string) \<Rightarrow> (string \<Rightarrow> string) \<Rightarrow> service_config \<Rightarrow> lineage_query \<Rightarrow> trace_view call" where
  "facade_trace_lineage H uuid5 cf r =
     (let rep = lq_representation_id r in
      andC (actor_of (lq_authority r)) (\<lambda>a.
      andC (translating
         (andC (lifted (service_state H cf rep None None None)) (\<lambda>s.
          andC (made (authorize_subject a (st_subject_id s))) (\<lambda>_.
          andC (if lq_node_kind r = REPRESENTATION_ITEM then private_claim_id H uuid5 cf rep (lq_node_id r)
                else doneC (lq_node_id r)) (\<lambda>ident.
          lifted (trace_lineage H cf rep (private_node_kind (lq_node_kind r)) ident None)))))) (\<lambda>t.
      doneC \<lparr>tv_representation_id = rep, tv_root = public_node_ref uuid5 rep (lt_root t),
        tv_ancestors = map (public_node_ref uuid5 rep) (lt_ancestors t),
        tv_dependents = map (public_node_ref uuid5 rep) (lt_dependents t), tv_groups = lt_groups t\<rparr>)))"

section \<open>The facade as a backend\<close>

named_theorems reply_intros \<open>what calls answer\<close>

lemma replies_and:
  assumes "replies Q m" "\<And>x. Q x \<Longrightarrow> replies P (f x)"
  shows "replies P (andC m f)"
proof (rule repliesI)
  fix w x w'
  assume "andC m f w = (Inr x, w')"
  then show "P x" using assms by (auto simp: andC_def dest: replies_Inr split: prod.splits sum.splits)
next
  fix w e w'
  assume "andC m f w = (Inl (Public e), w')"
  then show "failure_ok e" using assms by (auto simp: andC_def dest: replies_Inr replies_Public split: prod.splits sum.splits)
qed

lemma replies_done [reply_intros]: "P x \<Longrightarrow> replies P (doneC x)"
  by (rule repliesI) (auto simp: doneC_def)

lemma replies_fails [reply_intros]: "m \<noteq> [] \<Longrightarrow> replies P (fails c m)"
  by (rule repliesI) (auto simp: fails_def failure_def failure_ok_def)

lemma replies_lifted: "(\<And>w x w'. m w = (Inr x, w') \<Longrightarrow> P x) \<Longrightarrow> replies P (lifted m)"
  by (rule repliesI) (auto simp: lifted_def split: prod.splits sum.splits)

lemma replies_any [reply_intros]: "replies (\<lambda>x. True) (lifted m)"
  by (rule replies_lifted) simp

lemma replies_made [reply_intros]: "replies (\<lambda>x. r = Inr x) (made r)"
  unfolding made_def by (rule replies_lifted) (simp add: doneS_def)

lemma replies_made_any [reply_intros]: "replies (\<lambda>x. True) (made r)"
  unfolding made_def by (rule replies_any)

lemma replies_then [reply_intros]: "replies (\<lambda>x. True) m \<Longrightarrow> (\<And>x. replies P (f x)) \<Longrightarrow> replies P (andC m f)"
  by (rule replies_and)

lemma replies_cases [reply_intros]:
  "(b \<Longrightarrow> replies P m) \<Longrightarrow> (\<not> b \<Longrightarrow> replies P m') \<Longrightarrow> replies P (if b then m else m')"
  "(\<And>u v. replies P (g u v)) \<Longrightarrow> replies P (case pair of (u, v) \<Rightarrow> g u v)"
  "replies P m \<Longrightarrow> (\<And>v. replies P (h v)) \<Longrightarrow> replies P (case opt of None \<Rightarrow> m | Some v \<Rightarrow> h v)"
  by (simp_all split: prod.split option.split)

lemma translated_ok: "translate_error e = Public f \<Longrightarrow> (\<And>g. e = Public g \<Longrightarrow> failure_ok g) \<Longrightarrow> failure_ok f"
  by (cases e rule: translate_error.cases) (auto simp: failure_def failure_ok_def)

lemma replies_translating [reply_intros]:
  assumes "replies P m"
  shows "replies P (translating m)"
proof (rule repliesI)
  fix w x w'
  assume "translating m w = (Inr x, w')"
  then show "P x" using assms by (auto simp: translating_def dest: replies_Inr split: prod.splits sum.splits)
next
  fix w f w'
  assume "translating m w = (Inl (Public f), w')"
  then obtain e where e: "m w = (Inl e, w')" "translate_error e = Public f" by (auto simp: translating_def split: prod.splits sum.splits)
  show "failure_ok f" by (rule translated_ok[OF e(2)]) (use replies_Public[OF assms] e(1) in blast)
qed

lemma replies_actor [reply_intros]: "replies (\<lambda>x. True) (actor_of a)"
  unfolding actor_of_def made_def by (auto split: sum.split intro: reply_intros)

lemma position_ok: "position_of rep subject n integrity = Inr p \<Longrightarrow> snapshot_ref_ok p"
  by (auto simp: position_of_def snapshot_ref_ok_def bindE_Inr_iff make_subject_ref_def make_snapshot_ref_Inr)

lemma replies_snapshot_ref [reply_intros]: "replies snapshot_ref_ok (facade_snapshot_ref H cf rep n h)"
  unfolding facade_snapshot_ref_def Let_def made_def
  by (rule replies_and[OF replies_any])
    (auto split: option.split intro!: reply_intros replies_lifted dest: position_ok simp: doneS_def)

lemma replies_event_result [reply_intros]: "replies admission_valid (event_to_result H uuid5 cf ev request replayed)"
proof -
  have made_ok: "replies admission_valid (made (make_admission \<lparr>ar_request_id = request, ar_admission_id = event_id ev, ar_status = ADMITTED,
      ar_disposition = Some EFFECTS_APPLIED, ar_effects = [effect], ar_state_ref = Some p, ar_replayed = replayed, ar_original_ref = orig\<rparr>))"
    if "snapshot_ref_ok p" "make_effect \<lparr>ce_effect_id = i, ce_effect_kind = k, ce_affected_ref = a, ce_source_request_id = request, ce_position = p\<rparr> = Inr effect"
    for p i k a orig effect
    using that unfolding made_def
    by (intro replies_lifted) (auto simp: doneS_def admission_valid_def make_admission_Inr make_effect_Inr)
  show ?thesis
    unfolding event_to_result_def Let_def
    by (rule replies_cases replies_fails replies_and[OF replies_snapshot_ref] replies_and[OF replies_made] made_ok | assumption | simp)+
qed

lemma replies_admit: "replies admission_valid (admit_evidence H uuid5 cf rd r)"
  unfolding admit_evidence_def
  by (rule replies_then replies_translating replies_actor replies_any replies_made_any replies_done replies_cases replies_event_result TrueI)+

lemma replies_lookup: "replies (\<lambda>a. \<forall>x. a = Some x \<longrightarrow> admission_valid x) (get_admission_result H uuid5 cf r)"
  unfolding get_admission_result_def
  by (rule replies_and[OF replies_event_result] replies_then replies_translating replies_actor replies_any replies_made_any replies_done
      replies_cases | simp)+

lemma replies_position: "replies (\<lambda>p. snapshot_ref_ok p \<and> sj_subject_id (rp_subject_ref p) \<noteq> []) (made (position_of rep subject n h))"
  unfolding made_def
  by (rule replies_lifted) (auto simp: doneS_def dest!: position_ok, simp add: snapshot_ref_ok_def)

lemma replies_state: "replies view_ok (read_representation_state H uuid5 cf r)"
  unfolding read_representation_state_def show_state_def
  by (rule replies_and[OF replies_position] replies_then replies_translating replies_actor replies_any replies_made_any replies_done
      replies_cases replies_fails | simp add: view_ok_def state_view_of_def)+

lemma replies_deficits: "replies (\<lambda>xs. True) (read_representation_deficits H uuid5 cf r)"
  unfolding read_representation_deficits_def
  by (rule replies_and[OF replies_state]) (intro reply_intros TrueI)

lemma replies_trace: "replies (\<lambda>t. True) (facade_trace_lineage H uuid5 cf r)"
  unfolding facade_trace_lineage_def Let_def private_claim_id_def
  by (rule replies_then replies_translating replies_actor replies_any replies_made_any replies_done replies_cases replies_fails TrueI | simp)+

interpretation facade: public_backend "admit_evidence H uuid5 cf rd" "get_admission_result H uuid5 cf"
  "read_representation_state H uuid5 cf" "read_representation_deficits H uuid5 cf" "facade_trace_lineage H uuid5 cf"
  for H uuid5 cf rd
  by unfold_locales (rule replies_admit replies_lookup replies_state replies_deficits replies_trace)+

end
