(* ===== verification/K2_Facade_Laws.thy ===== *)
theory K2_Facade_Laws
  imports K2_Facade K2_Commands_Laws K2_Epistemic_Laws
begin

text \<open>
  Laws of the facade. Reads leave the ledger alone and show the replay of the representation, without the
  private identifiers of claims; an admission is answered with the stored event, and a later lookup finds the
  same answer; what leaves a translated call by an exception is one of a fixed list of public failures.
\<close>

section \<open>Calls that succeed\<close>

lemma andC_InrE:
  assumes "andC m f sv = (Inr v, sv')"
  obtains x sv1 where "m sv = (Inr x, sv1)" "f x sv1 = (Inr v, sv')"
  using assms by (auto simp: andC_def split: prod.splits sum.splits)

lemma call_Inr [simp]:
  "lifted m sv = (Inr x, sv') \<longleftrightarrow> m sv = (Inr x, sv')" "made r sv = (Inr x, sv') \<longleftrightarrow> r = Inr x \<and> sv' = sv"
  "translating c sv = (Inr x, sv') \<longleftrightarrow> c sv = (Inr x, sv')" "doneC y sv = (Inr x, sv') \<longleftrightarrow> x = y \<and> sv' = sv"
  "fails code msg sv = (Inr x, sv') \<longleftrightarrow> False"
  by (auto simp: lifted_def made_def doneS_def translating_def doneC_def fails_def split: prod.splits sum.splits)

lemma actor_of_Inr:
  assumes "actor_of a sv = (Inr x, sv')"
  shows "sv' = sv \<and> actor_subject_id x = au_subject_id a \<and> identity_id x = au_identity_id a"
  using assms by (auto simp: actor_of_def make_actor_def split: sum.splits if_splits)

lemma position_of_Inr:
  "position_of rep subject n integrity = Inr p \<longleftrightarrow> subject \<noteq> [] \<and> 0 \<le> n \<and>
     p = \<lparr>rp_subject_ref = \<lparr>sj_subject_id = subject\<rparr>, rp_snapshot_id = ''k2:'' @ rep @ '':sequence:'' @ show_int n,
        rp_canonical_sequence = n, rp_integrity_ref = ''event-chain:'' @ integrity\<rparr>"
  by (auto simp: position_of_def bindE_Inr_iff make_subject_ref_def make_snapshot_ref_Inr)

section \<open>Reading the state\<close>

lemma read_state_Inr:
  assumes "read_representation_state H uuid5 cf r sv = (Inr v, sv')" "service_ok H cf sv"
  obtains s subject where "full_replay H (sv_db sv) (qr_representation r) None None = Inr s" "st_subject_id s = Some subject"
    "au_subject_id (qr_authority r) \<in> {None, Some subject}" "1 \<le> st_sequence s"
    "v = state_view_of uuid5 (qr_representation r) s \<lparr>rp_subject_ref = \<lparr>sj_subject_id = subject\<rparr>,
          rp_snapshot_id = ''k2:'' @ qr_representation r @ '':sequence:'' @ show_int (st_sequence s),
          rp_canonical_sequence = st_sequence s, rp_integrity_ref = ''event-chain:'' @ st_last_event_hash s\<rparr>"
    "sv_db sv' = sv_db sv" "service_ok H cf sv'"
proof -
  from assms(1) obtain a sv1 s sv2 where a: "actor_of (qr_authority r) sv = (Inr a, sv1)"
    and st: "service_state H cf (qr_representation r) None None None sv1 = (Inr s, sv2)" "authorize_subject a (st_subject_id s) = Inr ()"
    and rest: "show_state uuid5 (qr_representation r) s sv2 = (Inr v, sv')"
    unfolding read_representation_state_def by (auto elim!: andC_InrE)
  note act = actor_of_Inr[OF a]
  have law: "full_replay H (sv_db sv) (qr_representation r) None None = Inr s \<and> service_ok H cf sv2 \<and> sv_db sv2 = sv_db sv"
    using current_state_Inr[OF _ st(1)] assms(2) act by simp
  obtain subject where sub: "st_subject_id s = Some subject" using rest by (cases "st_subject_id s") (simp_all add: show_state_def)
  show thesis
    using rest sub law st(2) act
    by (auto intro!: that elim!: andC_InrE simp: show_state_def position_of_Inr authorize_subject_iff split: if_splits)
qed

section \<open>Tracing\<close>

lemma public_kind_private [simp]: "public_kind_for (private_node_kind k) = k"
  by (cases k) simp_all

lemma private_kind_claim: "private_node_kind k = CLAIM_NODE \<longleftrightarrow> k = REPRESENTATION_ITEM"
  by (cases k) simp_all

lemma find_key: "find P xs = Some x \<Longrightarrow> P x \<and> x \<in> set xs"
  by (induction xs) (auto split: if_splits)

lemma private_claim_Inr:
  assumes "private_claim_id H uuid5 cf rep public_ref sv = (Inr c, sv')" "service_ok H cf sv"
  shows "item_ref uuid5 rep c = public_ref \<and> sv_db sv' = sv_db sv \<and> service_ok H cf sv'
    \<and> (\<exists>s. full_replay H (sv_db sv) rep None None = Inr s \<and> dict_has (st_claims s) c)"
proof -
  from assms(1) obtain s sv1 where s: "service_state H cf rep None None None sv = (Inr s, sv1)"
    "(case find (\<lambda>c. item_ref uuid5 rep c = public_ref) (dict_keys (st_claims s)) of
         Some c \<Rightarrow> doneC c
       | None \<Rightarrow> fails NOT_FOUND ''requested public representation item was not found'') sv1 = (Inr c, sv')"
    unfolding private_claim_id_def by (auto elim!: andC_InrE)
  then have "find (\<lambda>c. item_ref uuid5 rep c = public_ref) (dict_keys (st_claims s)) = Some c" "sv' = sv1"
    by (auto split: option.splits)
  moreover from find_key[OF this(1)] have "item_ref uuid5 rep c = public_ref \<and> dict_has (st_claims s) c"
    by (auto simp: dict_has_dom dom_map_of_conv_image_fst)
  ultimately show ?thesis using current_state_Inr[OF assms(2) s(1)] by blast
qed

lemma facade_trace_Inr:
  assumes "facade_trace_lineage H uuid5 cf r sv = (Inr v, sv')" "service_ok H cf sv"
  obtains s ident t where "full_replay H (sv_db sv) (lq_representation_id r) None None = Inr s"
    "au_subject_id (lq_authority r) = None \<or> st_subject_id s = None \<or> au_subject_id (lq_authority r) = st_subject_id s"
    "trace (sv_db sv) s \<lparr>ln_kind = private_node_kind (lq_node_kind r), ln_node_id = ident\<rparr> = Inr t"
    "if lq_node_kind r = REPRESENTATION_ITEM
     then item_ref uuid5 (lq_representation_id r) ident = lq_node_id r \<and> dict_has (st_claims s) ident else ident = lq_node_id r"
    "v = \<lparr>tv_representation_id = lq_representation_id r, tv_root = \<lparr>nr_kind = lq_node_kind r, nr_node_id = lq_node_id r\<rparr>,
       tv_ancestors = map (public_node_ref uuid5 (lq_representation_id r)) (lt_ancestors t),
       tv_dependents = map (public_node_ref uuid5 (lq_representation_id r)) (lt_dependents t), tv_groups = lt_groups t\<rparr>"
    "sv_db sv' = sv_db sv" "service_ok H cf sv'"
proof -
  let ?rep = "lq_representation_id r"
  from assms(1) obtain a sv1 s sv2 ident sv3 t where a: "actor_of (lq_authority r) sv = (Inr a, sv1)"
    and st: "service_state H cf ?rep None None None sv1 = (Inr s, sv2)" "authorize_subject a (st_subject_id s) = Inr ()"
    and i: "(if lq_node_kind r = REPRESENTATION_ITEM then private_claim_id H uuid5 cf ?rep (lq_node_id r) else doneC (lq_node_id r)) sv2 = (Inr ident, sv3)"
    and t: "trace_lineage H cf ?rep (private_node_kind (lq_node_kind r)) ident None sv3 = (Inr t, sv')"
    and v: "v = \<lparr>tv_representation_id = ?rep, tv_root = public_node_ref uuid5 ?rep (lt_root t),
       tv_ancestors = map (public_node_ref uuid5 ?rep) (lt_ancestors t),
       tv_dependents = map (public_node_ref uuid5 ?rep) (lt_dependents t), tv_groups = lt_groups t\<rparr>"
    unfolding facade_trace_lineage_def Let_def by (auto elim!: andC_InrE)
  note act = actor_of_Inr[OF a]
  have s: "full_replay H (sv_db sv) ?rep None None = Inr s \<and> service_ok H cf sv2 \<and> sv_db sv2 = sv_db sv"
    using current_state_Inr[OF _ st(1)] assms(2) act by simp
  have ident: "service_ok H cf sv3 \<and> sv_db sv3 = sv_db sv" "if lq_node_kind r = REPRESENTATION_ITEM
     then item_ref uuid5 ?rep ident = lq_node_id r \<and> dict_has (st_claims s) ident else ident = lq_node_id r"
    using i s private_claim_Inr[of H uuid5 cf ?rep "lq_node_id r" sv2 ident sv3] by (auto split: if_splits)
  from trace_lineage_law[OF _ t] ident(1) s
  have tr: "service_ok H cf sv'" "sv_db sv' = sv_db sv" "trace (sv_db sv) s \<lparr>ln_kind = private_node_kind (lq_node_kind r), ln_node_id = ident\<rparr> = Inr t"
    by auto
  have "lt_root t = \<lparr>ln_kind = private_node_kind (lq_node_kind r), ln_node_id = ident\<rparr>" using tr(3) by (auto simp: trace_def bindE_Inr_iff)
  then have "public_node_ref uuid5 ?rep (lt_root t) = \<lparr>nr_kind = lq_node_kind r, nr_node_id = lq_node_id r\<rparr>"
    using ident(2) by (auto simp: public_node_ref_def private_kind_claim)
  then show thesis using s st(2) act tr ident(2) v by (intro that[of s ident t]) (simp_all add: authorize_subject_iff)
qed

section \<open>What a call may raise\<close>

text \<open>Every failure of the facade: a code and a fixed text, nothing of the exception it stands for.\<close>

definition facade_failures :: "public_failure set" where
  "facade_failures =
     {failure AUTHORIZATION_DENIED ''authorization denied'', failure STALE_STATE ''canonical state precondition is stale'',
      failure NOT_FOUND ''requested canonical resource was not found'', failure INVALID_REQUEST ''request violates the public canonical contract'',
      failure INVARIANT_VIOLATION ''canonical integrity invariant could not be satisfied'',
      failure TEMPORARILY_UNAVAILABLE ''canonical service is temporarily unavailable'',
      failure INVALID_REQUEST ''authority contains an unsupported role'',
      failure NOT_FOUND ''requested public representation item was not found'',
      failure NOT_FOUND ''canonical representation is not initialized'',
      failure INVARIANT_VIOLATION ''canonical representation has no subject binding'',
      failure INVARIANT_VIOLATION ''canonical representation has no integrity anchor'',
      failure INVARIANT_VIOLATION ''request does not resolve to an evidence admission'',
      failure INVARIANT_VIOLATION ''canonical evidence event is missing evidence identity''}"

text \<open>What may leave: a failure of the list, or the mark of an input that the model does not follow.\<close>

definition safe_error :: "raised \<Rightarrow> bool" where
  "safe_error e \<longleftrightarrow> (case e of Public f \<Rightarrow> f \<in> facade_failures | Private err \<Rightarrow> err \<in> {OutOfModel})"

text \<open>\<open>raises A\<close>: public failures of the list, private exceptions only of \<open>A\<close>.\<close>

definition raises :: "error set \<Rightarrow> 'a call \<Rightarrow> bool" where
  "raises A m \<longleftrightarrow> (\<forall>sv e. fst (m sv) = Inl e \<longrightarrow> (case e of Public f \<Rightarrow> f \<in> facade_failures | Private err \<Rightarrow> err \<in> A))"

named_theorems raises_intros \<open>what calls raise\<close>

lemma raisesI:
  "(\<And>w e w'. m w = (Inl e, w') \<Longrightarrow> case e of Public f \<Rightarrow> f \<in> facade_failures | Private err \<Rightarrow> err \<in> A) \<Longrightarrow> raises A m"
  unfolding raises_def by (metis prod.collapse)

lemma raisesD: "raises A m \<Longrightarrow> m w = (Inl e, w') \<Longrightarrow> case e of Public f \<Rightarrow> f \<in> facade_failures | Private err \<Rightarrow> err \<in> A"
  unfolding raises_def by (metis fst_conv)

lemma raises_and [raises_intros]: "raises A m \<Longrightarrow> (\<And>x. raises A (f x)) \<Longrightarrow> raises A (andC m f)"
  by (rule raisesI) (auto simp: andC_def dest: raisesD split: prod.splits sum.splits)

lemma raises_simple [raises_intros]:
  "raises A (doneC x)" "raises UNIV (lifted m)" "raises UNIV (made r)" "failure c msg \<in> facade_failures \<Longrightarrow> raises A (fails c msg)"
  by (rule raisesI, auto simp: doneC_def lifted_def made_def doneS_def fails_def split: prod.splits sum.splits)+

lemma raises_cases [raises_intros]:
  "raises A m \<Longrightarrow> raises A m' \<Longrightarrow> raises A (if b then m else m')"
  "(\<And>u v. raises A (g u v)) \<Longrightarrow> raises A (case pair of (u, v) \<Rightarrow> g u v)"
  "raises A m \<Longrightarrow> (\<And>v. raises A (h v)) \<Longrightarrow> raises A (case opt of None \<Rightarrow> m | Some v \<Rightarrow> h v)"
  by (simp_all split: prod.split option.split)

text \<open>A translated call raises no exception of the program but public failures.\<close>

lemma translated_listed:
  "(\<And>f. e = Public f \<Longrightarrow> f \<in> facade_failures) \<Longrightarrow> case translate_error e of Public f \<Rightarrow> f \<in> facade_failures | Private err \<Rightarrow> err = OutOfModel"
  by (cases e rule: translate_error.cases) (auto simp: facade_failures_def)

lemma raises_translating [raises_intros]: "raises UNIV m \<Longrightarrow> raises {OutOfModel} (translating m)"
proof (rule raisesI)
  fix w e w'
  assume m: "raises UNIV m" "translating m w = (Inl e, w')"
  then obtain x where x: "m w = (Inl x, w')" "e = translate_error x" by (auto simp: translating_def split: prod.splits sum.splits)
  have "x = Public f \<Longrightarrow> f \<in> facade_failures" for f using raisesD[OF m(1) x(1)] by simp
  from translated_listed[of x, OF this] show "case e of Public f \<Rightarrow> f \<in> facade_failures | Private err \<Rightarrow> err \<in> {OutOfModel}"
    using x(2) by (simp split: raised.splits)
qed

lemma raises_actor: "make_authority_context a = Inr a \<Longrightarrow> raises A (actor_of a)"
proof -
  assume a: "make_authority_context a = Inr a"
  have "rs \<noteq> []" if "mapE role_of (au_roles a) = Inr rs" for rs
    using that a by (cases "au_roles a") (auto simp: make_authority_context_def bindE_Inr_iff)
  then show ?thesis using a
    by (intro raisesI)
      (auto simp: actor_of_def make_actor_def make_authority_context_def bindE_Inr_iff fails_def made_def doneS_def lifted_def facade_failures_def
        split: sum.splits if_splits)
qed

lemma raises_any_actor [raises_intros]: "raises UNIV (actor_of a)"
  unfolding actor_of_def by (auto split: sum.split intro!: raises_intros simp: facade_failures_def)

lemma raises_event_result [raises_intros]: "raises UNIV (event_to_result H uuid5 cf ev request replayed)"
  unfolding event_to_result_def facade_snapshot_ref_def Let_def
  by (rule raises_intros | simp add: facade_failures_def)+

lemma raises_private_claim [raises_intros]: "raises UNIV (private_claim_id H uuid5 cf rep public_ref)"
  unfolding private_claim_id_def by (rule raises_intros | simp add: facade_failures_def)+

lemma raises_lookup: "make_authority_context (al_authority r) = Inr (al_authority r) \<Longrightarrow> raises {OutOfModel} (get_admission_result H uuid5 cf r)"
  unfolding get_admission_result_def by (rule raises_intros raises_actor | assumption)+

lemma raises_trace: "make_authority_context (lq_authority r) = Inr (lq_authority r) \<Longrightarrow> raises {OutOfModel} (facade_trace_lineage H uuid5 cf r)"
  unfolding facade_trace_lineage_def Let_def by (rule raises_actor raises_intros | assumption)+

text \<open>An admission raises a private exception only after the evidence was written.\<close>

lemma raises_admit:
  assumes "admit_evidence H uuid5 cf rd r sv = (Inl (Private err), sv')" "err \<noteq> OutOfModel"
  obtains a level ev sv1 where
    "ingest_evidence H uuid5 cf rd (aq_representation_id r) (sj_subject_id (aq_subject_ref r)) (aq_source r)
       (aq_source_record_id r) (aq_evidence r) (aq_rights r) level (aq_valid_from r) (aq_valid_until r) (aq_independence_group r)
       (aq_connector_version r) (aq_media_type r) (aq_source_hash r) (aq_based_on_sequence r) (aq_request_id r) a sv = (Inr ev, sv1)"
    "event_to_result H uuid5 cf ev (aq_request_id r) (sequence ev \<le> fst (head (sv_db sv) (aq_representation_id r))) sv1
       = (Inl (Private err), sv')"
proof -
  define body where "body = andC (actor_of (aq_authority r)) (\<lambda>a.
        andC (lifted (readS (\<lambda>db. Inr (fst (head db (aq_representation_id r)))))) (\<lambda>head_before.
        andC (made (sensitivity_of (aq_sensitivity r))) (\<lambda>level.
        andC (lifted (ingest_evidence H uuid5 cf rd (aq_representation_id r) (sj_subject_id (aq_subject_ref r)) (aq_source r)
            (aq_source_record_id r) (aq_evidence r) (aq_rights r) level (aq_valid_from r) (aq_valid_until r)
            (aq_independence_group r) (aq_connector_version r) (aq_media_type r) (aq_source_hash r)
            (aq_based_on_sequence r) (aq_request_id r) a)) (\<lambda>ev. doneC (ev, head_before)))))"
  let ?result = "\<lambda>(ev, head_before). event_to_result H uuid5 cf ev (aq_request_id r) (sequence ev \<le> head_before)"
  have admit: "admit_evidence H uuid5 cf rd r sv = andC (translating body) ?result sv" by (simp add: admit_evidence_def body_def)
  have "raises UNIV body" unfolding body_def by (rule raises_intros)+
  then have raises: "raises {OutOfModel} (translating body)" by (rule raises_translating)
  obtain x sv1 where x: "translating body sv = (x, sv1)" by fastforce
  have "\<exists>p. x = Inr p"
  proof (cases x)
    case (Inl e)
    then have "translating body sv = (Inl (Private err), sv')" using assms(1) x unfolding admit by (simp add: andC_def)
    from raisesD[OF raises this] show ?thesis using assms(2) by simp
  qed simp
  then obtain ev n where fin: "x = Inr (ev, n)" by auto
  then have res: "event_to_result H uuid5 cf ev (aq_request_id r) (sequence ev \<le> n) sv1 = (Inl (Private err), sv')"
    using assms(1) x unfolding admit by (simp add: andC_def)
  from x[unfolded fin(1) body_def] obtain a level sv2 where "actor_of (aq_authority r) sv = (Inr a, sv2)"
    and n: "n = fst (head (sv_db sv2) (aq_representation_id r))"
    and i: "ingest_evidence H uuid5 cf rd (aq_representation_id r) (sj_subject_id (aq_subject_ref r)) (aq_source r)
       (aq_source_record_id r) (aq_evidence r) (aq_rights r) level (aq_valid_from r) (aq_valid_until r) (aq_independence_group r)
       (aq_connector_version r) (aq_media_type r) (aq_source_hash r) (aq_based_on_sequence r) (aq_request_id r) a sv2 = (Inr ev, sv1)"
    by (auto elim!: andC_InrE simp: readS_def)
  moreover from actor_of_Inr[OF this(1)] have "sv2 = sv" by simp
  ultimately show thesis using that[of level a ev sv1] res by simp
qed

section \<open>The subject of a representation\<close>

lemma handle_subject: "handle ev s = Inr t \<Longrightarrow> st_subject_id t = st_subject_id s \<or> (\<exists>x. st_subject_id t = Some x \<and> x \<noteq> [])"
  by (erule handle_rel[where R = "\<lambda>s t. st_subject_id t = st_subject_id s \<or> (\<exists>x. st_subject_id t = Some x \<and> x \<noteq> [])"];
      (simp; fail)?; (auto simp: step_simps h_correct_evidence_def h_correct_claim_def split: if_splits option.splits; fail)?)

lemma replay_subject: "full_replay H db twin up_to as_of = Inr s \<Longrightarrow> st_subject_id s \<noteq> Some []"
proof -
  assume r: "full_replay H db twin up_to as_of = Inr s"
  have step: "st_subject_id t \<noteq> Some []" if "st_subject_id s \<noteq> Some []" "apply_event s ev = Inr t" for s ev t
    using that handle_subject[of ev s] by (auto simp: apply_event_Inr)
  have "st_subject_id (init_state twin) \<noteq> Some []" by (simp add: init_state_def)
  from replay_invariant[OF r[unfolded full_replay_def], where P = "\<lambda>s. st_subject_id s \<noteq> Some []", OF this]
  show ?thesis using step by blast
qed

section \<open>Reading without a leak, and the deficits\<close>

lemma raises_show: "st_subject_id s \<noteq> Some [] \<Longrightarrow> raises A (show_state uuid5 rep s)"
  by (rule raisesI)
    (auto simp: show_state_def fails_def facade_failures_def position_of_def make_subject_ref_def make_snapshot_ref_def required_def
      contract_require_def made_def lifted_def doneS_def doneC_def andC_def split: option.splits if_splits)

lemma raised_by:
  "andC m f sv = (Inl e, sv') \<Longrightarrow> m sv = (Inl e, sv') \<or> (\<exists>x sv1. m sv = (Inr x, sv1) \<and> f x sv1 = (Inl e, sv'))"
  by (auto simp: andC_def split: prod.splits sum.splits)

lemma read_state_raises:
  assumes "read_representation_state H uuid5 cf r sv = (Inl e, sv')" "service_ok H cf sv"
    and "make_authority_context (qr_authority r) = Inr (qr_authority r)"
  shows "case e of Public f \<Rightarrow> f \<in> facade_failures | Private err \<Rightarrow> err \<in> {OutOfModel}"
  using raised_by[OF assms(1)[unfolded read_representation_state_def]]
proof (elim disjE exE conjE)
  assume "actor_of (qr_authority r) sv = (Inl e, sv')"
  then show ?thesis by (rule raisesD[OF raises_actor[OF assms(3)]])
next
  fix a sv1
  let ?body = "andC (lifted (service_state H cf (qr_representation r) None None None)) (\<lambda>s.
         andC (made (authorize_subject a (st_subject_id s))) (\<lambda>_. doneC s))"
  assume a: "actor_of (qr_authority r) sv = (Inr a, sv1)" and rest: "andC (translating ?body) (show_state uuid5 (qr_representation r)) sv1 = (Inl e, sv')"
  have "raises UNIV ?body" by (rule raises_intros)+
  note raises = raises_translating[OF this]
  from raised_by[OF rest] show ?thesis
  proof (elim disjE exE conjE)
    assume "translating ?body sv1 = (Inl e, sv')"
    then show ?thesis by (rule raisesD[OF raises])
  next
    fix s sv2
    assume s: "translating ?body sv1 = (Inr s, sv2)" and fin: "show_state uuid5 (qr_representation r) s sv2 = (Inl e, sv')"
    from s obtain sv3 where st: "service_state H cf (qr_representation r) None None None sv = (Inr s, sv3)"
      using actor_of_Inr[OF a] by (auto elim!: andC_InrE)
    have "full_replay H (sv_db sv) (qr_representation r) None None = Inr s" using current_state_Inr[OF assms(2) st] by simp
    from raisesD[OF raises_show[OF replay_subject[OF this]] fin] show ?thesis .
  qed
qed

lemma read_deficits_Inr:
  assumes "read_representation_deficits H uuid5 cf r sv = (Inr ds, sv')" "service_ok H cf sv"
  obtains s where "full_replay H (sv_db sv) (qr_representation r) None None = Inr s" "sv_db sv' = sv_db sv"
    "ds = deficits_of uuid5 (qr_representation r) s (st_degraded_reasons s)"
proof -
  from assms(1) obtain v sv1 s' where v: "read_representation_state H uuid5 cf r sv = (Inr v, sv1)"
    and st: "service_state H cf (qr_representation r) None None None sv1 = (Inr s', sv')"
    and ds: "ds = deficits_of uuid5 (qr_representation r) s' (vw_degraded_reasons v)"
    unfolding read_representation_deficits_def by (auto elim!: andC_InrE)
  from v assms(2) obtain s where s: "full_replay H (sv_db sv) (qr_representation r) None None = Inr s"
    "vw_degraded_reasons v = st_degraded_reasons s" "sv_db sv1 = sv_db sv" "service_ok H cf sv1"
    by (rule read_state_Inr) (simp add: state_view_of_def)
  have "s' = s" "sv_db sv' = sv_db sv" using current_state_Inr[OF s(4) st] s(1,3) by simp_all
  then show thesis using that s(1,2) ds by simp
qed

text \<open>Kinds and targets of the deficits of a state.\<close>

lemma deficit_targets:
  assumes "twin_inv s"
  shows "(\<lambda>d. (df_kind d, df_target_refs d)) ` set (deficits_of uuid5 rep s reasons) =
    (if st_claims s = [] then {(''missing_representation'', [])} else {})
    \<union> (\<lambda>c. (''stale_representation'', [item_ref uuid5 rep c])) ` st_stale_claim_ids s
    \<union> (\<lambda>c. (''contested_representation'', [item_ref uuid5 rep c])) ` st_contested_claim_ids s
    \<union> (\<lambda>c. (''unresolved_contradiction'', [c])) ` (dom (map_of (st_contradictions s)) - st_resolved_contradiction_ids s)
    \<union> (if reasons = [] then {} else {(''degraded_state'', [])})"
proof -
  have "(\<lambda>d. (df_kind d, df_target_refs d)) ` (\<lambda>(i, reason). \<lparr>df_deficit_id = rep @ '':degraded:'' @ show_int (int i), df_kind = ''degraded_state'',
      df_target_refs = [], df_rationale = reason\<rparr>) ` set (zip [0..<length reasons] reasons) = (if reasons = [] then {} else {(''degraded_state'', [])})"
    by (cases reasons) (auto simp: image_iff set_zip)
  then show ?thesis
    using twin_inv_finite[OF assms]
    by (simp add: deficits_of_def image_Un image_image claim_deficit_def dom_map_of_conv_image_fst Un_assoc)
qed

end
