(* ===== verification/K2_Facade_Admission.thy ===== *)
theory K2_Facade_Admission
  imports K2_Facade_Laws
begin

text \<open>
  Admissions through the facade. The answer to an admission is computed from an event of the ledger; the event is
  new, or it is the one the same request wrote before, and then the answer says so. A lookup of the request
  computes the same answer from the same event.
\<close>

section \<open>Ingested evidence in a replay\<close>

lemma replay_ingested:
  assumes "replay H None evs s prev = Inr t" "twin_inv s" "ev \<in> set evs" "event_type ev = ''EvidenceIngested''"
  shows "\<exists>v e. map_of (payload ev) ''subject_id'' = Some v \<and> st_subject_id t = Some (py_str v)
    \<and> text_item (payload ev) ''evidence_id'' = Inr e"
  using assms
proof (induction evs arbitrary: s prev)
  case (Cons e evs)
  from Cons.prems(1) obtain u where u: "apply_event s e = Inr u" "replay H None evs u (event_hash e) = Inr t"
    by (auto simp: bindE_Inr_iff split: if_splits)
  have inv: "twin_inv u" by (rule apply_event_inv[OF u(1) Cons.prems(2)])
  show ?case
  proof (cases "e = ev")
    case True
    then obtain w where "h_evidence_ingested ev s = Inr w" "st_subject_id u = st_subject_id w"
      using u(1) Cons.prems(4) by (auto simp: apply_event_Inr handle_def handlers_def)
    then obtain v x where "map_of (payload ev) ''subject_id'' = Some v" "st_subject_id u = Some (py_str v)"
      "text_item (payload ev) ''evidence_id'' = Inr x"
      by (auto simp: h_evidence_ingested_def bindE_Inr_iff bind_subject_Inr text_item_Inr)
    then show ?thesis using replay_retains[OF u(2) inv] by (auto simp: retains_def)
  next
    case False
    then show ?thesis using Cons.IH[OF u(2) inv] Cons.prems(3,4) by simp
  qed
qed simp

lemma full_replay_ingested:
  assumes "full_replay H db twin up_to None = Inr s" "ev \<in> set (cut up_to (stream db twin))" "event_type ev = ''EvidenceIngested''"
  shows "\<exists>v e. map_of (payload ev) ''subject_id'' = Some v \<and> st_subject_id s = Some (py_str v)
    \<and> text_item (payload ev) ''evidence_id'' = Inr e"
  by (rule replay_ingested[OF assms(1)[unfolded full_replay_def] init_state_inv assms(2,3)])

section \<open>Events of a stream\<close>

lemma stream_nth:
  assumes "db_inv H db" "ev \<in> set (stream db twin)"
  shows "1 \<le> sequence ev" "sequence ev \<le> int (length (stream db twin))"
    "ev \<in> set (cut (Some (sequence ev)) (stream db twin))" "twin_id ev = twin"
proof -
  obtain i where i: "i < length (stream db twin)" "stream db twin ! i = ev" using assms(2) by (auto simp: in_set_conv_nth)
  have seq: "sequence ev = 1 + int i" using chain_ok_nth[OF stream_chain[OF assms(1)] i(1)] i(2) by simp
  then show "1 \<le> sequence ev" "sequence ev \<le> int (length (stream db twin))"
    using i by simp_all
  show "ev \<in> set (cut (Some (sequence ev)) (stream db twin))"
    using i seq by (auto simp: cut_def in_set_conv_nth intro!: exI[of _ i])
  have "readable rows \<Longrightarrow> e \<in> set (read_rows rows) \<Longrightarrow> \<exists>r\<in>set rows. row_to_event r = Inr e" for rows e
    by (induction rows) (auto simp: readable_def ok_iff)
  from this[OF readable_stream[OF assms(1)]] assms(2) show "twin_id ev = twin"
    unfolding stream_def by (auto simp: stream_rows_def dest: row_to_event_fields)
qed

lemma stream_keys:
  assumes "db_inv H db"
  shows "distinct (map idempotency_key (stream db twin))"
proof -
  have "distinct (map (\<lambda>r. (er_twin_id r, er_idempotency_key r)) (stream_rows db twin))"
    using assms by (auto simp: db_inv_def keys_unique_def stream_rows_def intro: distinct_map_filter)
  then have "distinct (map er_idempotency_key (stream_rows db twin))"
    by (auto simp: distinct_map inj_on_def stream_rows_def)
  moreover have "readable rows \<Longrightarrow> map idempotency_key (read_rows rows) = map er_idempotency_key rows" for rows
    by (induction rows) (auto simp: readable_def ok_iff dest: row_to_event_fields)
  ultimately show ?thesis using readable_stream[OF assms] by (simp add: stream_def)
qed

lemma find_distinct: "distinct (map f xs) \<Longrightarrow> x \<in> set xs \<Longrightarrow> find (\<lambda>y. f y = f x) xs = Some x"
  by (induction xs) (auto simp: image_iff)

text \<open>What an append answers is in the stream, up to the zone of its times.\<close>

lemma append_in_stream:
  assumes "append H (rd_append rd) ev n db = Inr (out, db')" "db_inv H db" "event_fit rd ev"
  shows "idempotency_key out = idempotency_key ev \<and> twin_id out = twin_id ev \<and> event_type out = event_type ev \<and> payload out = payload ev
    \<and> (\<exists>e\<in>set (stream db' (twin_id ev)). event_id e = event_id out \<and> sequence e = sequence out \<and> event_hash e = event_hash out
         \<and> payload e = payload ev \<and> event_type e = event_type ev \<and> idempotency_key e = idempotency_key ev
         \<and> (if sequence out \<le> fst (head db (twin_id ev)) then db' = db \<and> e \<in> set (stream db (twin_id ev))
            else stream db' (twin_id ev) = stream db (twin_id ev) @ [e]))"
proof (cases "duplicate_row db ev")
  case None
  obtain prev where sealed: "seal H ev (n + 1) prev (utc (rd_append rd)) = Inr out" "head db (twin_id ev) = (n, prev)"
    by (rule append_fresh_tables[OF assms(1) None])
  note f = seal_fields[OF sealed(1)]
  have body: "payload (persisted out) = payload ev"
    using f assms(3) jsonable_primitive[of "PDict (payload ev)"] by (simp add: persisted_def event_fit_def plain_def del: to_primitive.simps)
  have "stream db' (twin_id ev) = stream db (twin_id ev) @ [persisted out]"
    using append_stream[OF assms(1,2) event_fit_admissible[OF assms(3)], of "twin_id ev"] None by simp
  then show ?thesis using f body sealed(2) by (auto simp: persisted_def intro!: bexI[of _ "persisted out"])
next
  case (Some r)
  from assms(1) have dup: "db' = db" "row_to_event r = Inr out" "same_request out ev = Inr True"
    by (rule append_Inr; use Some in simp)+
  have r: "r \<in> set (db_events db)" "er_twin_id r = twin_id ev" "er_idempotency_key r = idempotency_key ev"
    using Some by (auto simp: duplicate_row_def find_Some_iff)
  then have "r \<in> set (stream_rows db (twin_id ev))" by (simp add: stream_rows_def)
  then have mem: "out \<in> set (stream db (twin_id ev))"
    using in_read_rows[OF readable_stream[OF assms(2), of "twin_id ev"]] dup(2) by (auto simp: stream_def)
  have j: "jsonable (PDict (payload out))" "jsonable (PDict (payload ev))"
    using stream_plain[OF assms(2) mem] assms(3) by (simp_all only: event_fit_def plain_def)
  have "dumps (PDict (payload out)) = dumps (PDict (payload ev))"
    using dup(3) j by (simp add: same_request_def canonical_json_jsonable del: jsonable.simps dumps.simps split: if_splits)
  then have "payload out = payload ev" using dumps_inject[OF j] by simp
  moreover have "sequence out \<le> fst (head db (twin_id ev))" using stream_nth(2)[OF assms(2) mem] head_stream[OF assms(2)] by simp
  ultimately show ?thesis using mem append_answers[OF assms(1)] dup(1) row_to_event_fields[OF dup(2)] r by (auto intro!: bexI[of _ out])
qed

section \<open>The answer to an admission\<close>

text \<open>The answer computed from an event of the stream, for the subject of the twin and the integrity anchor.\<close>

definition admission_of :: "(string \<Rightarrow> string) \<Rightarrow> event \<Rightarrow> string \<Rightarrow> string \<Rightarrow> string \<Rightarrow> bool \<Rightarrow> admission_result" where
  "admission_of uuid5 ev request subject integrity replayed =
     (let position = \<lparr>rp_subject_ref = \<lparr>sj_subject_id = subject\<rparr>, rp_snapshot_id = ''k2:'' @ twin_id ev @ '':sequence:'' @ show_int (sequence ev),
        rp_canonical_sequence = sequence ev, rp_integrity_ref = ''event-chain:'' @ integrity\<rparr>
      in \<lparr>ar_request_id = request, ar_admission_id = event_id ev, ar_status = ADMITTED, ar_disposition = Some EFFECTS_APPLIED,
        ar_effects = [\<lparr>ce_effect_id = uuid5 (event_id ev @ '':evidence_registered''), ce_effect_kind = ''evidence_registered'',
          ce_affected_ref = py_str (get_or (payload ev) ''evidence_id'' (PStr [])), ce_source_request_id = request, ce_position = position\<rparr>],
        ar_state_ref = Some position, ar_replayed = replayed, ar_original_ref = (if replayed then Some (event_id ev) else None)\<rparr>)"

definition anchor :: "event \<Rightarrow> twin_state \<Rightarrow> string" where
  "anchor ev s = (if event_hash ev = [] then st_last_event_hash s else event_hash ev)"

text \<open>What makes an answer: the names the answer needs are there.\<close>

definition answerable :: "(string \<Rightarrow> string) \<Rightarrow> event \<Rightarrow> string \<Rightarrow> bool" where
  "answerable uuid5 ev request \<longleftrightarrow> event_type ev = ''EvidenceIngested'' \<and> request \<noteq> [] \<and> event_id ev \<noteq> []
     \<and> py_str (get_or (payload ev) ''evidence_id'' (PStr [])) \<noteq> [] \<and> uuid5 (event_id ev @ '':evidence_registered'') \<noteq> []"

lemma snapshot_ref_Inr:
  "facade_snapshot_ref H cf rep n (Some h) sv = (Inr p, sv') \<longleftrightarrow>
     (\<exists>s subject. service_state H cf rep (Some n) None None sv = (Inr s, sv') \<and> st_subject_id s = Some subject
        \<and> (if h = [] then st_last_event_hash s else h) \<noteq> []
        \<and> position_of rep subject n (if h = [] then st_last_event_hash s else h) = Inr p)"
proof -
  obtain r sv1 where st: "service_state H cf rep (Some n) None None sv = (r, sv1)" by fastforce
  show ?thesis
  proof (cases r)
    case (Inr s)
    then show ?thesis by (cases "st_subject_id s") (auto simp: facade_snapshot_ref_def andC_def lifted_def st Let_def split: if_splits)
  qed (simp add: facade_snapshot_ref_def andC_def lifted_def st)
qed

lemma event_to_result_Inr:
  assumes "event_to_result H uuid5 cf ev request replayed sv = (Inr x, sv')" "service_ok H cf sv"
  obtains s subject where "answerable uuid5 ev request" "full_replay H (sv_db sv) (twin_id ev) (Some (sequence ev)) None = Inr s"
    "st_subject_id s = Some subject" "anchor ev s \<noteq> []" "x = admission_of uuid5 ev request subject (anchor ev s) replayed"
    "sv_db sv' = sv_db sv" "service_ok H cf sv'"
proof -
  let ?i = "py_str (get_or (payload ev) ''evidence_id'' (PStr []))"
  have ty: "event_type ev = ''EvidenceIngested''" using assms(1) by (auto simp: event_to_result_def split: if_splits)
  with assms(1) obtain p where p: "facade_snapshot_ref H cf (twin_id ev) (sequence ev) (Some (event_hash ev)) sv = (Inr p, sv')"
    and i: "?i \<noteq> []"
    and e: "make_effect \<lparr>ce_effect_id = uuid5 (event_id ev @ '':evidence_registered''), ce_effect_kind = ''evidence_registered'',
              ce_affected_ref = ?i, ce_source_request_id = request, ce_position = p\<rparr>
          = Inr \<lparr>ce_effect_id = uuid5 (event_id ev @ '':evidence_registered''), ce_effect_kind = ''evidence_registered'',
              ce_affected_ref = ?i, ce_source_request_id = request, ce_position = p\<rparr>"
    and x: "x = \<lparr>ar_request_id = request, ar_admission_id = event_id ev, ar_status = ADMITTED, ar_disposition = Some EFFECTS_APPLIED,
              ar_effects = [\<lparr>ce_effect_id = uuid5 (event_id ev @ '':evidence_registered''), ce_effect_kind = ''evidence_registered'',
              ce_affected_ref = ?i, ce_source_request_id = request, ce_position = p\<rparr>], ar_state_ref = Some p, ar_replayed = replayed,
              ar_original_ref = (if replayed then Some (event_id ev) else None)\<rparr>"
    and a: "request \<noteq> []" "event_id ev \<noteq> []"
    by (auto simp: event_to_result_def Let_def make_effect_Inr make_admission_Inr admission_coherent_def elim!: andC_InrE split: if_splits)
  from p obtain s subject where s: "service_state H cf (twin_id ev) (Some (sequence ev)) None None sv = (Inr s, sv')" "st_subject_id s = Some subject"
    "anchor ev s \<noteq> []" "position_of (twin_id ev) subject (sequence ev) (anchor ev s) = Inr p"
    by (auto simp: snapshot_ref_Inr anchor_def)
  have "full_replay H (sv_db sv) (twin_id ev) (Some (sequence ev)) None = Inr s \<and> service_ok H cf sv' \<and> sv_db sv' = sv_db sv"
    using service_state_law[OF assms(2) s(1)] by (simp add: bindE_def split: sum.splits)
  moreover have "x = admission_of uuid5 ev request subject (anchor ev s) replayed"
    using s(4) by (simp add: admission_of_def x position_of_Inr Let_def)
  moreover have "answerable uuid5 ev request" using ty i e a by (simp add: answerable_def make_effect_Inr)
  ultimately show thesis using s(2,3) that by blast
qed

lemma event_to_result_answers:
  assumes "service_ok H cf sv" "answerable uuid5 ev request" "full_replay H (sv_db sv) (twin_id ev) (Some (sequence ev)) None = Inr s"
    and "st_subject_id s = Some subject" "anchor ev s \<noteq> []" "0 \<le> sequence ev"
  obtains sv' where "event_to_result H uuid5 cf ev request replayed sv = (Inr (admission_of uuid5 ev request subject (anchor ev s) replayed), sv')"
    "sv_db sv' = sv_db sv" "service_ok H cf sv'"
proof -
  obtain r sv1 where st: "service_state H cf (twin_id ev) (Some (sequence ev)) None None sv = (r, sv1)" by fastforce
  from service_state_law[OF assms(1) st] have law: "r = Inr s" "service_ok H cf sv1" "sv_db sv1 = sv_db sv" by (simp_all add: assms(3))
  have "subject \<noteq> []" using replay_subject[OF assms(3)] assms(4) by simp
  then obtain p where p: "position_of (twin_id ev) subject (sequence ev) (anchor ev s) = Inr p" using assms(6) by (simp add: position_of_Inr)
  then have "facade_snapshot_ref H cf (twin_id ev) (sequence ev) (Some (event_hash ev)) sv = (Inr p, sv1)"
    using st law(1) assms(4,5) by (simp add: snapshot_ref_Inr anchor_def)
  then have "event_to_result H uuid5 cf ev request replayed sv = (Inr (admission_of uuid5 ev request subject (anchor ev s) replayed), sv1)"
    using assms(2) p
    by (simp add: event_to_result_def andC_def answerable_def make_effect_def required_def contract_require_def made_def lifted_def doneS_def
        make_admission_def check_status_def admission_of_def position_of_Inr Let_def)
  then show thesis using that law(2,3) by blast
qed

section \<open>Admission\<close>

text \<open>The ingestion of the service: the checks, and the append of the event that the request describes.\<close>

lemma ingest_cases:
  assumes "ingest_evidence H uuid5 cf rd twin subject source source_record body rights level valid_from valid_until independence
      connector media source_hash expected key a sv = (r, sv')" "service_ok H cf sv"
    and "jsonable (PDict body)" "jsonable (PDict rights)" "storable_time valid_from"
    and "storable_time (utc (rd_append rd))" "storable_time (utc (rd_snapshot rd))"
  obtains (refused) err where "r = Inl err" "service_ok H cf sv'" "sv_db sv' = sv_db sv"
  | (appended) ev sv1 where "service_append H cf rd ev a expected sv1 = (r, sv')" "service_ok H cf sv1" "sv_db sv1 = sv_db sv"
    "event_fit rd ev" "event_type ev = ''EvidenceIngested''" "twin_id ev = twin" "idempotency_key ev = key" "event_id ev = rd_fresh rd"
    "map_of (payload ev) ''subject_id'' = Some (PStr subject)"
    "map_of (payload ev) ''evidence_id'' = Some (PStr (uuid5 (twin @ '':'' @ subject @ '':'' @ source @ '':'' @ source_record)))"
    "actor_subject_id a = None \<or> actor_subject_id a = Some subject"
proof -
  obtain st sv1 where st: "latest_state H cf twin sv = (st, sv1)" by fastforce
  have ok1: "service_ok H cf sv1" "sv_db sv1 = sv_db sv" using latest_state_law[OF assms(2), of twin] st by simp_all
  let ?body = "\<lambda>digest. opt_entry ''connector_version'' connector @
        [(''content_hash'', PStr digest),
         (''evidence_id'', PStr (uuid5 (twin @ '':'' @ subject @ '':'' @ source @ '':'' @ source_record))),
         (''independence_group'', PStr independence)] @
        opt_entry ''media_type'' media @
        [(''normalized_payload'', PDict body), (''rights'', PDict rights),
         (''sensitivity'', PStr (sensitivity_text level)), (''source'', PStr source)] @
        opt_entry ''source_content_hash'' source_hash @
        [(''source_record_id'', PStr source_record), (''subject_id'', PStr subject),
         (''valid_from'', PStr (isoformat valid_from)), (''valid_until'', opt_time valid_until)]"
  consider (no) err where "r = Inl err" "sv' = sv \<or> sv' = sv1"
    | (yes) digest where "authorize_subject a (Some subject) = Inr ()"
      "append_new H cf rd a INGEST_SERVICE twin ''EvidenceIngested'' (?body digest) (Some valid_from) key expected sv1 = (r, sv')"
    using assms(1) st unfolding ingest_evidence_def
    by (cases "authorize_intent ''EvidenceIngested'' INGEST_SERVICE a"; cases "authorize_subject a (Some subject)"; cases st)
      (auto simp: andS_simp intent_def subject_scope_def check_def split: if_splits sum.splits)
  then show thesis
  proof cases
    case no
    then show thesis using ok1 assms(2) by (intro refused) auto
  next
    case yes
    have "jsonable (opt_time valid_until)" by (simp add: opt_time_def split: option.split)
    then have plain: "plain (?body digest)"
      using assms(3,4)
      by (cases connector; cases media; cases source_hash) (simp_all add: plain_def opt_entry_def wf_dict_def del: jsonable.simps(1))
    have fields: "map_of (?body digest) ''subject_id'' = Some (PStr subject)"
      "map_of (?body digest) ''evidence_id'' = Some (PStr (uuid5 (twin @ '':'' @ subject @ '':'' @ source @ '':'' @ source_record)))"
      by (cases connector; cases media; cases source_hash; simp add: opt_entry_def)+
    have scope_ok: "actor_subject_id a = None \<or> actor_subject_id a = Some subject" using yes(1) by (simp add: authorize_subject_iff)
    define ev where "ev = event_new (rd_fresh rd) (rd_new rd) twin ''EvidenceIngested'' AUTHORITATIVE (?body digest) (identity_id a)
      INGEST_SERVICE key (Some valid_from) None None"
    have "service_append H cf rd ev a expected sv1 = (r, sv')" using yes(2) by (simp add: append_new_def ev_def)
    then show thesis
      using ok1 plain fields assms(5-7) scope_ok ev_def
      by (intro appended[of ev sv1]) (simp_all only: event_fit_def event_new_def event.simps option.case refl simp_thms)
  qed
qed

text \<open>After an ingestion that returns, the event it returns is in the stream; it is the one more event, or was there.\<close>

lemma ingest_stored:
  assumes "ingest_evidence H uuid5 cf rd twin subject source source_record body rights level valid_from valid_until independence
      connector media source_hash expected key a sv = (Inr out, sv')" "service_ok H cf sv" "replays H (sv_db sv)"
    and "jsonable (PDict body)" "jsonable (PDict rights)" "storable_time valid_from"
    and "storable_time (utc (rd_append rd))" "storable_time (utc (rd_snapshot rd))"
  obtains e where "service_ok H cf sv'" "replays H (sv_db sv')" "e \<in> set (stream (sv_db sv') twin)" "event_id e = event_id out"
    "sequence e = sequence out" "event_hash e = event_hash out" "payload e = payload out" "event_type e = ''EvidenceIngested''"
    "idempotency_key e = key" "twin_id out = twin" "event_type out = ''EvidenceIngested''"
    "map_of (payload e) ''subject_id'' = Some (PStr subject)"
    "map_of (payload e) ''evidence_id'' = Some (PStr (uuid5 (twin @ '':'' @ subject @ '':'' @ source @ '':'' @ source_record)))"
    "sequence out \<le> fst (head (sv_db sv) twin) \<longleftrightarrow> e \<in> set (stream (sv_db sv) twin)"
    "stream (sv_db sv') twin = stream (sv_db sv) twin @ (if e \<in> set (stream (sv_db sv) twin) then [] else [e])"
    "actor_subject_id a = None \<or> actor_subject_id a = Some subject"
    "e \<in> set (stream (sv_db sv) twin) \<or> event_id e = rd_fresh rd"
  using assms(1,2,4-8)
proof (cases rule: ingest_cases)
  case (appended ev sv1)
  have inv: "db_inv H (sv_db sv)" by (rule service_db_inv[OF assms(2)])
  from service_append_law[OF appended(2) _ appended(4,1)] obtain db1 where w: "service_ok H cf sv'" "replays H (sv_db sv')"
    "append H (rd_append rd) ev expected (sv_db sv) = Inr (out, db1)" "db_events (sv_db sv') = db_events db1"
    using assms(3) appended(3) by (auto simp: sound_after_def)
  have str: "stream (sv_db sv') twin = stream db1 twin" by (rule same_events(1)[OF w(4), THEN fun_cong])
  from append_in_stream[OF w(3) inv appended(4), unfolded appended(5-7)] obtain e where e: "e \<in> set (stream db1 twin)" "event_id e = event_id out"
    "sequence e = sequence out" "event_hash e = event_hash out" "payload e = payload ev" "event_type e = ''EvidenceIngested''"
    "idempotency_key e = key" "payload out = payload ev" "twin_id out = twin" "event_type out = ''EvidenceIngested''"
    "if sequence out \<le> fst (head (sv_db sv) twin) then db1 = sv_db sv \<and> e \<in> set (stream (sv_db sv) twin) else stream db1 twin = stream (sv_db sv) twin @ [e]"
    by (elim conjE bexE) (rule that)
  have new: "sequence out \<le> fst (head (sv_db sv) twin) \<longleftrightarrow> e \<in> set (stream (sv_db sv) twin)"
    using e(3,11) stream_nth(2)[OF inv, of e twin] head_stream[OF inv, of twin] by auto
  have fresh: "e \<in> set (stream (sv_db sv) twin) \<or> event_id e = rd_fresh rd"
  proof (cases "duplicate_row (sv_db sv) ev")
    case None
    from w(3) this obtain prev where "seal H ev (expected + 1) prev (utc (rd_append rd)) = Inr out" by (rule append_fresh_tables)
    then show ?thesis using seal_fields(4) e(2) appended(8) by metis
  next
    case (Some row)
    then show ?thesis using append_retry_unchanged[OF w(3)] e(1) by simp
  qed
  show thesis
    using that[of e] w(1,2) e str new fresh appended(9-11) by (auto split: if_splits)
qed simp

lemma replay_front: "replay H None (xs @ ys) s prev = Inr t \<Longrightarrow> \<exists>u. replay H None xs s prev = Inr u"
  by (induction xs arbitrary: s prev) (auto simp: bindE_Inr_iff split: if_splits)

lemma replay_up_to:
  assumes "replays H db"
  obtains s where "full_replay H db twin (Some n) None = Inr s"
proof -
  obtain t where "replay H None (stream db twin) (init_state twin) [] = Inr t"
    using assms by (auto simp: replays_def full_replay_def cut_def ok_iff)
  then have "replay H None (take (nat n) (stream db twin) @ drop (nat n) (stream db twin)) (init_state twin) [] = Inr t" by simp
  from replay_front[OF this] show thesis using that by (auto simp: full_replay_def cut_def)
qed

lemma stream_hash:
  assumes "db_inv H db" "ev \<in> set (stream db twin)"
  shows "event_hash ev \<noteq> []"
proof -
  have "chain_ok H prev n evs \<Longrightarrow> ev \<in> set evs \<Longrightarrow> \<exists>p. verify H ev p = Inr ()" for prev n evs
    by (induction evs arbitrary: prev n) auto
  then show ?thesis using stream_chain[OF assms(1)] assms(2) content_hash_nonempty by (fastforce simp: verify_def bindE_Inr_iff split: if_splits)
qed

text \<open>What a lookup answers for an event of the ledger.\<close>

lemma ingested_event:
  assumes "service_ok H cf sv" "replays H (sv_db sv)" "e \<in> set (stream (sv_db sv) rep)" "event_type e = ''EvidenceIngested''"
    and "map_of (payload e) ''subject_id'' = Some (PStr subject)"
  obtains s where "full_replay H (sv_db sv) rep (Some (sequence e)) None = Inr s" "st_subject_id s = Some subject" "anchor e s = event_hash e"
    "anchor e s \<noteq> []" "0 \<le> sequence e"
proof -
  note inv = service_db_inv[OF assms(1)]
  obtain s where s: "full_replay H (sv_db sv) rep (Some (sequence e)) None = Inr s" by (rule replay_up_to[OF assms(2)])
  have "st_subject_id s = Some subject"
    using full_replay_ingested[OF s stream_nth(3)[OF inv assms(3)] assms(4)] assms(5) by simp
  then show thesis using that s stream_hash[OF inv assms(3)] stream_nth(1)[OF inv assms(3)] by (simp add: anchor_def)
qed

lemma lookup_law:
  assumes "service_ok H cf sv" "replays H (sv_db sv)" "e \<in> set (stream (sv_db sv) (al_representation_id l))"
    and "map_of (payload e) ''subject_id'' = Some (PStr subject)" "idempotency_key e = al_request_id l" "answerable uuid5 e (al_request_id l)"
    and "actor_of (al_authority l) sv0 = (Inr a, sv0)" "actor_subject_id a = None \<or> actor_subject_id a = Some subject"
  obtains sv' where "get_admission_result H uuid5 cf l sv
      = (Inr (Some (admission_of uuid5 e (al_request_id l) subject (event_hash e) False)), sv')" "sv_db sv' = sv_db sv" "service_ok H cf sv'"
proof -
  note inv = service_db_inv[OF assms(1)]
  have ty: "event_type e = ''EvidenceIngested''" using assms(6) by (simp add: answerable_def)
  obtain s where s: "full_replay H (sv_db sv) (al_representation_id l) (Some (sequence e)) None = Inr s" "st_subject_id s = Some subject"
    "anchor e s = event_hash e" "anchor e s \<noteq> []" "0 \<le> sequence e"
    by (rule ingested_event[OF assms(1-3) ty assms(4)])
  have actor: "actor_of (al_authority l) sv = (Inr a, sv)"
    using assms(7) by (auto simp: actor_of_def made_def lifted_def doneS_def fails_def split: sum.splits)
  have evs: "load (sv_db sv) (al_representation_id l) 0 None [] None = Inr (stream (sv_db sv) (al_representation_id l))" by (rule load_all[OF inv])
  have found: "find (\<lambda>ev. idempotency_key ev = al_request_id l) (stream (sv_db sv) (al_representation_id l)) = Some e"
    using find_distinct[OF stream_keys[OF inv] assms(3)] assms(5) by simp
  obtain r sv1 where st: "service_state H cf (al_representation_id l) (Some (sequence e)) None None sv = (r, sv1)" by fastforce
  from service_state_law[OF assms(1) st] have law: "r = Inr s" "service_ok H cf sv1" "sv_db sv1 = sv_db sv" by (simp_all add: s(1))
  have twin: "twin_id e = al_representation_id l" by (rule stream_nth(4)[OF inv assms(3)])
  from event_to_result_answers[OF law(2) assms(6) _ s(2,4,5), where replayed = False] obtain sv2 where
    e: "event_to_result H uuid5 cf e (al_request_id l) False sv1 = (Inr (admission_of uuid5 e (al_request_id l) subject (anchor e s) False), sv2)"
    "sv_db sv2 = sv_db sv1" "service_ok H cf sv2"
    using s(1) law(3) twin by metis
  have "get_admission_result H uuid5 cf l sv = (Inr (Some (admission_of uuid5 e (al_request_id l) subject (event_hash e) False)), sv2)"
    using actor evs found st law(1) ty e(1) s(2,3) assms(8)
    by (simp add: get_admission_result_def andC_def translating_def lifted_def readS_def made_def doneS_def doneC_def authorize_subject_def)
  then show thesis using that e(2,3) law(3) by simp
qed

text \<open>What an admission did, and what it answers.\<close>

lemma admit_law:
  assumes "admit_evidence H uuid5 cf rd r sv = (Inr x, sv')" "service_ok H cf sv" "replays H (sv_db sv)" "admit_ok r"
    and "storable_time (utc (rd_append rd))" "storable_time (utc (rd_snapshot rd))"
  obtains e a where "service_ok H cf sv'" "replays H (sv_db sv')" "e \<in> set (stream (sv_db sv') (aq_representation_id r))"
    "idempotency_key e = aq_request_id r" "map_of (payload e) ''subject_id'' = Some (PStr (sj_subject_id (aq_subject_ref r)))"
    "map_of (payload e) ''evidence_id'' = Some (PStr (uuid5 (aq_representation_id r @ '':'' @ sj_subject_id (aq_subject_ref r) @ '':''
        @ aq_source r @ '':'' @ aq_source_record_id r)))"
    "answerable uuid5 e (aq_request_id r)"
    "x = admission_of uuid5 e (aq_request_id r) (sj_subject_id (aq_subject_ref r)) (event_hash e)
       (e \<in> set (stream (sv_db sv) (aq_representation_id r)))"
    "stream (sv_db sv') (aq_representation_id r) = stream (sv_db sv) (aq_representation_id r)
       @ (if e \<in> set (stream (sv_db sv) (aq_representation_id r)) then [] else [e])"
    "actor_of (aq_authority r) sv = (Inr a, sv)" "actor_subject_id a = None \<or> actor_subject_id a = Some (sj_subject_id (aq_subject_ref r))"
proof -
  let ?rep = "aq_representation_id r" and ?sub = "sj_subject_id (aq_subject_ref r)" and ?n = "fst (head (sv_db sv) (aq_representation_id r))"
  from assms(1) obtain a sv0 level out sv1 where a: "actor_of (aq_authority r) sv = (Inr a, sv0)"
    and i: "ingest_evidence H uuid5 cf rd ?rep ?sub (aq_source r) (aq_source_record_id r) (aq_evidence r) (aq_rights r) level (aq_valid_from r)
       (aq_valid_until r) (aq_independence_group r) (aq_connector_version r) (aq_media_type r) (aq_source_hash r) (aq_based_on_sequence r)
       (aq_request_id r) a sv0 = (Inr out, sv1)"
    and res: "event_to_result H uuid5 cf out (aq_request_id r) (sequence out \<le> fst (head (sv_db sv0) ?rep)) sv1 = (Inr x, sv')"
    unfolding admit_evidence_def by (auto elim!: andC_InrE simp: readS_def)
  have sv0: "sv0 = sv" using actor_of_Inr[OF a] by simp
  have time: "storable_time (aq_valid_from r)"
    using assms(4) by (auto simp: admit_ok_def storable_time_def make_admit_def bindE_Inr_iff format_time_def)
  have json: "jsonable (PDict (aq_evidence r))" "jsonable (PDict (aq_rights r))" using assms(4) unfolding admit_ok_def by blast+
  from ingest_stored[OF i[unfolded sv0] assms(2,3) json time assms(5,6)] obtain e where w: "service_ok H cf sv1" "replays H (sv_db sv1)"
    and e: "e \<in> set (stream (sv_db sv1) ?rep)" "event_id e = event_id out" "sequence e = sequence out" "event_hash e = event_hash out"
    "payload e = payload out" "event_type e = ''EvidenceIngested''" "idempotency_key e = aq_request_id r" "twin_id out = ?rep"
    "event_type out = ''EvidenceIngested''" "map_of (payload e) ''subject_id'' = Some (PStr ?sub)"
    "map_of (payload e) ''evidence_id'' = Some (PStr (uuid5 (?rep @ '':'' @ ?sub @ '':'' @ aq_source r @ '':'' @ aq_source_record_id r)))"
    and new: "sequence out \<le> ?n \<longleftrightarrow> e \<in> set (stream (sv_db sv) ?rep)"
    and str: "stream (sv_db sv1) ?rep = stream (sv_db sv) ?rep @ (if e \<in> set (stream (sv_db sv) ?rep) then [] else [e])"
    and scope: "actor_subject_id a = None \<or> actor_subject_id a = Some ?sub" by metis
  from res w(1) obtain s subject where s: "answerable uuid5 out (aq_request_id r)"
    "full_replay H (sv_db sv1) (twin_id out) (Some (sequence out)) None = Inr s" "st_subject_id s = Some subject"
    "x = admission_of uuid5 out (aq_request_id r) subject (anchor out s) (sequence out \<le> ?n)" "sv_db sv' = sv_db sv1" "service_ok H cf sv'"
    unfolding sv0 by (rule event_to_result_Inr)
  have twin: "twin_id e = ?rep" by (rule stream_nth(4)[OF service_db_inv[OF w(1)] e(1)])
  obtain s' where s': "full_replay H (sv_db sv1) ?rep (Some (sequence e)) None = Inr s'" "st_subject_id s' = Some ?sub" "anchor e s' = event_hash e"
    by (rule ingested_event[OF w(1,2) e(1,6,10)])
  have "s' = s" using s'(1) s(2) e(3,8) by simp
  then have "anchor out s = event_hash e" "subject = ?sub"
    using s(3) s'(2,3) e(4) stream_hash[OF service_db_inv[OF w(1)] e(1)] by (simp_all add: anchor_def)
  then have "x = admission_of uuid5 e (aq_request_id r) ?sub (event_hash e) (e \<in> set (stream (sv_db sv) ?rep))"
    using s(4) e(2,3,5,8) twin new by (simp add: admission_of_def)
  moreover have "answerable uuid5 e (aq_request_id r)" using s(1) e(2,5,6,9) by (simp add: answerable_def)
  ultimately show thesis
    using that[of e a] s(5,6) w(2) e(1,7,10,11) str scope a sv0 by simp
qed

end
