(* ===== verification/K2_Examples_Facade.thy ===== *)
theory K2_Examples_Facade
  imports K2_Facade_Admission K2_Examples_Commands
begin

text \<open>
  Requests to the facade, and an admission that succeeds on an empty ledger: the inputs of the witnesses about
  the public interface.
\<close>

definition ex_authority :: authority_context where
  "ex_authority = \<lparr>au_identity_id = ''q'', au_roles = [''ingest_service''], au_subject_id = Some ''alice''\<rparr>"

definition ex_admit :: admit_request where
  "ex_admit = \<lparr>aq_request_id = ''k1'', aq_representation_id = ''t'', aq_subject_ref = \<lparr>sj_subject_id = ''alice''\<rparr>, aq_source = ''s'',
     aq_source_record_id = ''1'', aq_evidence = [], aq_rights = [], aq_sensitivity = ''public'', aq_valid_from = utc 5,
     aq_valid_until = None, aq_independence_group = ''g'', aq_based_on_sequence = 0, aq_authority = ex_authority,
     aq_connector_version = None, aq_media_type = None, aq_source_hash = None\<rparr>"

definition ex_item_uuid :: "string \<Rightarrow> string" where
  "ex_item_uuid s = ''u''"

lemma ex_authority_made: "make_authority_context ex_authority = Inr ex_authority"
  by (simp add: ex_authority_def make_authority_context_def required_def contract_require_def)

lemma ex_admit_ok: "admit_ok ex_admit"
  using ex_authority_made
  by (simp add: admit_ok_def ex_admit_def make_admit_def required_def contract_require_def max_evidence_bytes_def utf8_len_def format_time_def
      valid_dt_def utc_def naive_def)

lemma ex_request_actor: "actor_of ex_authority sv = (Inr \<lparr>identity_id = ''q'', roles = {INGEST_SERVICE}, actor_subject_id = Some ''alice''\<rparr>, sv)"
  by (simp add: actor_of_def ex_authority_def role_of_def enum_of_def all_roles_def make_actor_def made_def lifted_def doneS_def)

definition ex_body :: "string option \<Rightarrow> string option \<Rightarrow> string option \<Rightarrow> string \<Rightarrow> pydict" where
  "ex_body connector media source_hash digest =
     opt_entry ''connector_version'' connector @
     [(''content_hash'', PStr digest), (''evidence_id'', PStr ''u''), (''independence_group'', PStr ''g'')] @
     opt_entry ''media_type'' media @
     [(''normalized_payload'', PDict []), (''rights'', PDict []), (''sensitivity'', PStr ''public''), (''source'', PStr ''s'')] @
     opt_entry ''source_content_hash'' source_hash @
     [(''source_record_id'', PStr ''1''), (''subject_id'', PStr ''alice''), (''valid_from'', PStr (isoformat (utc 5))),
      (''valid_until'', PNone)]"

lemma ex_body_plain: "plain (ex_body c m h digest)"
  by (cases c; cases m; cases h) (simp_all add: ex_body_def opt_entry_def plain_def wf_dict_def)

lemma opt_entry_skip: "j \<noteq> k \<Longrightarrow> map_of (opt_entry k v @ xs) j = map_of xs j"
  by (cases v) (simp_all add: opt_entry_def)

lemma ex_body_get:
  "map_of (ex_body c m h digest) ''content_hash'' = Some (PStr digest)"
  "map_of (ex_body c m h digest) ''evidence_id'' = Some (PStr ''u'')"
  "map_of (ex_body c m h digest) ''independence_group'' = Some (PStr ''g'')"
  "map_of (ex_body c m h digest) ''normalized_payload'' = Some (PDict [])"
  "map_of (ex_body c m h digest) ''rights'' = Some (PDict [])"
  "map_of (ex_body c m h digest) ''sensitivity'' = Some (PStr ''public'')"
  "map_of (ex_body c m h digest) ''source'' = Some (PStr ''s'')"
  "map_of (ex_body c m h digest) ''source_record_id'' = Some (PStr ''1'')"
  "map_of (ex_body c m h digest) ''subject_id'' = Some (PStr ''alice'')"
  "map_of (ex_body c m h digest) ''valid_from'' = Some (PStr (isoformat (utc 5)))"
  "map_of (ex_body c m h digest) ''valid_until'' = Some PNone"
  by (simp_all add: ex_body_def opt_entry_skip del: map_of_append)

lemma ex_body_applies:
  assumes "payload ev = ex_body c m h digest" "digest \<noteq> []" "event_type ev = ''EvidenceIngested''" "plane ev = AUTHORITATIVE"
    and "twin_id ev = ''t''" "producer ev = ''q''" "idempotency_key ev \<noteq> []"
    and "schema_version ev = ''argo.dt.event/v2''" "\<not> naive (occurred_at ev)"
  shows "validate_event ev = Inr ()" "ok (apply_event (init_state ''t'') ev)"
proof -
  show v: "validate_event ev = Inr ()"
    using assms
    by (simp add: validate_event_def require_def validate_payload_def projection_events_def
        validate_evidence_ingested_def require_fields_def missing_fields_def ex_body_get dict_has_def all_truthy_def pget_def get_or_def sensitivity_of_def enum_of_def all_sensitivities_def)
  then have "\<exists>t. apply_event (init_state ''t'') ev = Inr t"
    using assms
    by (simp add: apply_event_Inr require_def handle_def handlers_def h_evidence_ingested_def text_item_def item_def
        bind_subject_def init_state_def ex_body_get)
  then show "ok (apply_event (init_state ''t'') ev)" by (auto simp: ok_iff)
qed

definition ex_ingestor :: actor where
  "ex_ingestor = \<lparr>identity_id = ''q'', roles = {INGEST_SERVICE}, actor_subject_id = Some ''alice''\<rparr>"

lemma ex_ingest:
  "\<exists>out sv'. service_append H ex_quiet_config ex_readings
     (event_new ''id1'' 6 ''t'' ''EvidenceIngested'' AUTHORITATIVE (ex_body c m h digest) ''q'' INGEST_SERVICE key (Some (utc 5)) None None)
     ex_ingestor 0 sv = (Inr out, sv')"
  if "digest \<noteq> []" "service_ok H ex_quiet_config sv" "sv_db sv = empty_db" "key \<noteq> []"
proof -
  let ?ev = "event_new ''id1'' 6 ''t'' ''EvidenceIngested'' AUTHORITATIVE (ex_body c m h digest) ''q'' INGEST_SERVICE key (Some (utc 5)) None None"
  have json: "jsonable (to_primitive (PDict (payload ?ev)))"
    using ex_body_plain[of c m h digest] by (simp add: event_new_def plain_def jsonable_primitive del: to_primitive.simps jsonable.simps)
  obtain preview where pv: "seal H ?ev (0 + 1) [] (utc 7) = Inr preview" using seal_ok[OF json] by blast
  have subject: "pget (ex_body c m h digest) ''subject_id'' = PStr ''alice''"
    by (simp add: ex_body_get pget_def get_or_def)
  show ?thesis
  proof (rule service_append_succeeds[OF that(2)])
    show "event_fit ex_readings ?ev"
      using ex_body_plain by (simp add: event_fit_def event_new_def ex_readings_def storable_time_def valid_dt_def utc_def naive_def)
    show "authorize ?ev ex_ingestor = Inr ()"
      by (simp add: authorize_def authorize_intent_def authorize_subject_def EVENT_OWNERS_def event_new_def subject opt_of_val_def ex_ingestor_def)
    show "validate_event ?ev = Inr ()" by (rule ex_body_applies(1)[OF _ that(1)]) (simp_all add: event_new_def utc_def naive_def that(4))
    show "head (sv_db sv) (twin_id ?ev) = (0, [])" by (simp add: that(3) head_def head_row_def stream_rows_def empty_db_def)
    show "duplicate_row (sv_db sv) ?ev = None" "event_id ?ev \<notin> er_event_id ` set (db_events (sv_db sv))"
      by (simp_all add: that(3) duplicate_row_def empty_db_def)
    show "edges_of ?ev = Inr []" by (simp add: edges_of_def event_new_def)
    show "full_replay H (sv_db sv) (twin_id ?ev) None None = Inr (init_state ''t'')"
      by (simp add: that(3) full_replay_def cut_def stream_def stream_rows_def empty_db_def event_new_def)
    show "seal H ?ev (0 + 1) [] (utc (rd_preview ex_readings)) = Inr preview" using pv by (simp add: ex_readings_def)
    show "ok (apply_event (init_state ''t'') preview)"
      by (rule ex_body_applies(2)[OF _ that(1)]) (use seal_fields[OF pv] in \<open>simp_all add: event_new_def utc_def naive_def that(4)\<close>)
    show "outbox_backlog (sv_db sv) < 100" by (simp add: that(3) outbox_backlog_def empty_db_def)
  qed (simp_all add: event_new_def ex_quiet_config_def ex_config_def ex_readings_def lease_end_def)
qed

lemma ex_ingested_as:
  assumes "key \<noteq> []"
  shows "\<exists>out sv'. ingest_evidence H ex_item_uuid ex_quiet_config ex_readings ''t'' ''alice'' ''s'' ''1'' [] [] PUBLIC (utc 5) None ''g'' c m h
     0 key ex_ingestor ex_service = (Inr out, sv')"
proof -
  obtain digest where d: "content_hash H (PDict []) = Inr digest" by (simp add: content_hash_def canonical_json_def)
  have "full_replay H (sv_db ex_service) ''t'' None None = Inr (init_state ''t'')"
    by (simp add: full_replay_def cut_def stream_def stream_rows_def empty_db_def ex_service_def)
  then obtain sv1 where st: "latest_state H ex_quiet_config ''t'' ex_service = (Inr (init_state ''t''), sv1)" "service_ok H ex_quiet_config sv1"
    "sv_db sv1 = empty_db"
    using latest_state_Inr[OF ex_quiet_service_ok] by (metis ex_service_def service.select_convs(1))
  obtain out sv2 where "service_append H ex_quiet_config ex_readings
     (event_new ''id1'' 6 ''t'' ''EvidenceIngested'' AUTHORITATIVE (ex_body c m h digest) ''q'' INGEST_SERVICE key (Some (utc 5)) None None)
     ex_ingestor 0 sv1 = (Inr out, sv2)"
    using ex_ingest[OF content_hash_nonempty[OF d] st(2,3) assms] by blast
  then have "ingest_evidence H ex_item_uuid ex_quiet_config ex_readings ''t'' ''alice'' ''s'' ''1'' [] [] PUBLIC (utc 5) None ''g'' c m h
     0 key ex_ingestor ex_service = (Inr out, sv2)"
    using st(1) d
    by (simp add: ingest_evidence_def intent_def subject_scope_def check_def andS_simp authorize_intent_def authorize_subject_def EVENT_OWNERS_def
        append_new_def ex_body_def ex_item_uuid_def opt_time_def init_state_def ex_readings_def ex_ingestor_def)
  then show ?thesis by blast
qed

lemma ex_ingested:
  "\<exists>out sv'. ingest_evidence H ex_item_uuid ex_quiet_config ex_readings ''t'' ''alice'' ''s'' ''1'' [] [] PUBLIC (utc 5) None ''g'' None None None
     0 ''k1'' \<lparr>identity_id = ''q'', roles = {INGEST_SERVICE}, actor_subject_id = Some ''alice''\<rparr> ex_service = (Inr out, sv')"
  using ex_ingested_as[of "''k1''"] by (simp add: ex_ingestor_def)

lemma ex_admission: "\<exists>x sv'. admit_evidence H ex_item_uuid ex_quiet_config ex_readings ex_admit ex_service = (Inr x, sv')"
proof -
  obtain out sv1 where i: "ingest_evidence H ex_item_uuid ex_quiet_config ex_readings ''t'' ''alice'' ''s'' ''1'' [] [] PUBLIC (utc 5) None ''g'' None None None
     0 ''k1'' \<lparr>identity_id = ''q'', roles = {INGEST_SERVICE}, actor_subject_id = Some ''alice''\<rparr> ex_service = (Inr out, sv1)"
    using ex_ingested by blast
  have times: "storable_time (utc 5)" "storable_time (utc (rd_append ex_readings))" "storable_time (utc (rd_snapshot ex_readings))"
    by (simp_all add: ex_readings_def storable_time_def valid_dt_def utc_def naive_def)
  obtain ev sv2 where ev: "service_append H ex_quiet_config ex_readings ev \<lparr>identity_id = ''q'', roles = {INGEST_SERVICE}, actor_subject_id = Some ''alice''\<rparr> 0 sv2
      = (Inr out, sv1)" "service_ok H ex_quiet_config sv2" "sv_db sv2 = sv_db ex_service" "event_fit ex_readings ev" "event_type ev = ''EvidenceIngested''"
    "twin_id ev = ''t''" "idempotency_key ev = ''k1''" "event_id ev = ''id1''" "map_of (payload ev) ''subject_id'' = Some (PStr ''alice'')"
    "map_of (payload ev) ''evidence_id'' = Some (PStr ''u'')"
    by (rule ingest_cases[OF i ex_quiet_service_ok _ _ times]) (simp_all add: wf_dict_def ex_item_uuid_def ex_readings_def)
  from service_append_law[OF ev(2) _ ev(4,1)] obtain db1 where w: "service_ok H ex_quiet_config sv1" "replays H (sv_db sv1)"
    "append H (rd_append ex_readings) ev 0 (sv_db ex_service) = Inr (out, db1)" "db_events (sv_db sv1) = db_events db1"
    using ex_replays ev(3) by (auto simp: sound_after_def)
  from append_in_stream[OF w(3) service_db_inv[OF ex_quiet_service_ok] ev(4), unfolded ev(5-7)]
  obtain e where e: "e \<in> set (stream db1 ''t'')" "event_id e = event_id out" "sequence e = sequence out" "event_hash e = event_hash out"
    "payload e = payload ev" "event_type e = ''EvidenceIngested''" "payload out = payload ev" "twin_id out = ''t''" "event_type out = ''EvidenceIngested''"
    by (elim conjE bexE) (rule that)
  have "e \<in> set (stream (sv_db sv1) ''t'')" using e(1) same_events(1)[OF w(4)] by simp
  then obtain s where s: "full_replay H (sv_db sv1) ''t'' (Some (sequence e)) None = Inr s" "st_subject_id s = Some ''alice''"
    "anchor e s \<noteq> []" "0 \<le> sequence e"
    by (rule ingested_event[OF w(1,2) _ e(6)]) (use e(5) ev(9) in simp)
  have "duplicate_row (sv_db ex_service) ev = None" by (simp add: duplicate_row_def ex_service_def empty_db_def)
  from w(3) this obtain prev where "seal H ev (0 + 1) prev (utc (rd_append ex_readings)) = Inr out" by (rule append_fresh_tables)
  then have id1: "event_id out = ''id1''" "sequence out = 1" using seal_fields(1,4) ev(8) by fastforce+
  have out: "answerable ex_item_uuid out ''k1''"
    using id1 e(7,9) ev(10) by (simp add: answerable_def ex_item_uuid_def get_or_def)
  have same: "anchor out s = anchor e s" by (simp add: anchor_def e(4))
  obtain x sv' where "event_to_result H ex_item_uuid ex_quiet_config out ''k1'' (sequence out \<le> 0) sv1 = (Inr x, sv')"
    by (rule event_to_result_answers[OF w(1) out _ s(2), where replayed = "sequence out \<le> 0"]) (use s e(3,8) same in simp_all)
  then have "admit_evidence H ex_item_uuid ex_quiet_config ex_readings ex_admit ex_service = (Inr x, sv')"
    using i ex_request_actor[of ex_service]
    by (simp add: admit_evidence_def ex_admit_def andC_def translating_def lifted_def readS_def made_def doneS_def doneC_def sensitivity_of_def
        enum_of_def all_sensitivities_def ex_service_def head_def head_row_def stream_rows_def empty_db_def)
  then show ?thesis by blast
qed

text \<open>Values of the public contracts.\<close>

definition ex_public_position :: snapshot_ref where
  "ex_public_position = \<lparr>rp_subject_ref = \<lparr>sj_subject_id = ''alice''\<rparr>, rp_snapshot_id = ''k2:t:sequence:1'', rp_canonical_sequence = 1,
     rp_integrity_ref = ''event-chain:h''\<rparr>"

definition ex_admission_result :: admission_result where
  "ex_admission_result = \<lparr>ar_request_id = ''k1'', ar_admission_id = ''id1'', ar_status = ADMITTED, ar_disposition = Some EFFECTS_APPLIED,
     ar_effects = [\<lparr>ce_effect_id = ''u'', ce_effect_kind = ''evidence_registered'', ce_affected_ref = ''u'', ce_source_request_id = ''k1'',
        ce_position = ex_public_position\<rparr>],
     ar_state_ref = Some ex_public_position, ar_replayed = True, ar_original_ref = Some ''id1''\<rparr>"

definition ex_view :: state_view where
  "ex_view = \<lparr>vw_representation_id = ''t'', vw_subject_ref = \<lparr>sj_subject_id = ''alice''\<rparr>, vw_snapshot_ref = ex_public_position,
     vw_evidence_refs = [''u''], vw_item_refs = [], vw_accepted_refs = [], vw_contested_refs = [], vw_contradiction_refs = [],
     vw_degraded_reasons = [''slow'']\<rparr>"

definition ex_lookup :: admission_lookup where
  "ex_lookup = \<lparr>al_representation_id = ''t'', al_request_id = ''k1'', al_authority = ex_authority\<rparr>"

definition ex_query :: representation_query where
  "ex_query = \<lparr>qr_representation = ''t'', qr_authority = ex_authority\<rparr>"

definition ex_lineage_query :: lineage_query where
  "ex_lineage_query = \<lparr>lq_representation_id = ''t'', lq_node_kind = PUBLIC_EVIDENCE, lq_node_id = ''u'', lq_authority = ex_authority\<rparr>"

lemma ex_public_position_ok: "snapshot_ref_ok ex_public_position"
  by (simp add: ex_public_position_def snapshot_ref_ok_def make_snapshot_ref_Inr)

lemma ex_result_valid: "admission_valid ex_admission_result"
  using ex_public_position_ok by (simp add: admission_valid_def ex_admission_result_def admission_coherent_def make_effect_Inr)

lemma ex_view_ok: "view_ok ex_view"
  using ex_public_position_ok by (simp add: view_ok_def ex_view_def)

lemma ex_authorities:
  "make_authority_context (al_authority ex_lookup) = Inr (al_authority ex_lookup)"
  "make_authority_context (qr_authority ex_query) = Inr (qr_authority ex_query)"
  "make_authority_context (lq_authority ex_lineage_query) = Inr (lq_authority ex_lineage_query)"
  by (simp_all add: ex_lookup_def ex_query_def ex_lineage_query_def ex_authority_made)

lemma ex_admit_times: "storable_time (utc (rd_append ex_readings))" "storable_time (utc (rd_snapshot ex_readings))"
  by (simp_all add: ex_readings_def storable_time_def valid_dt_def utc_def naive_def)

text \<open>Reads: the state after the admission, its deficits, and a trace on the empty ledger.\<close>

lemma ex_empty_state:
  obtains sv where "service_state H ex_quiet_config ''t'' None None None ex_service = (Inr (init_state ''t''), sv)"
    "service_ok H ex_quiet_config sv" "sv_db sv = empty_db"
proof -
  obtain r sv where st: "service_state H ex_quiet_config ''t'' None None None ex_service = (r, sv)" by fastforce
  have "full_replay H (sv_db ex_service) ''t'' None None = Inr (init_state ''t'')"
    by (simp add: full_replay_def cut_def stream_def stream_rows_def empty_db_def ex_service_def)
  then show thesis using that st service_state_law[OF ex_quiet_service_ok st] by (simp add: ex_service_def)
qed

lemma ex_missing: "\<exists>f. fst (read_representation_state H ex_item_uuid ex_quiet_config ex_query ex_service) = Inl (Public f)"
proof -
  obtain sv where "service_state H ex_quiet_config ''t'' None None None ex_service = (Inr (init_state ''t''), sv)" by (rule ex_empty_state)
  then show ?thesis
    using ex_request_actor[of ex_service]
    by (simp add: read_representation_state_def ex_query_def andC_def translating_def lifted_def made_def doneS_def doneC_def authorize_subject_def
        init_state_def show_state_def fails_def)
qed

lemma ex_read:
  "\<exists>sv v sv' ds sv''. service_ok H ex_quiet_config sv \<and> read_representation_state H ex_item_uuid ex_quiet_config ex_query sv = (Inr v, sv')
     \<and> read_representation_deficits H ex_item_uuid ex_quiet_config ex_query sv = (Inr ds, sv'')"
proof -
  obtain x sv where a: "admit_evidence H ex_item_uuid ex_quiet_config ex_readings ex_admit ex_service = (Inr x, sv)" using ex_admission by blast
  obtain e where e: "service_ok H ex_quiet_config sv" "replays H (sv_db sv)" "e \<in> set (stream (sv_db sv) ''t'')"
    "map_of (payload e) ''subject_id'' = Some (PStr ''alice'')" "event_type e = ''EvidenceIngested''"
    by (rule admit_law[OF a ex_quiet_service_ok ex_replays ex_admit_ok ex_admit_times]) (simp add: ex_admit_def answerable_def)
  obtain s where s: "full_replay H (sv_db sv) ''t'' None None = Inr s" using e(2) by (auto simp: replays_def ok_iff)
  have subject: "st_subject_id s = Some ''alice''"
    using full_replay_ingested[OF s _ e(5)] e(3,4) by (simp add: cut_def)
  have "st_sequence s = int (length (stream (sv_db sv) ''t''))"
    using replay_cached(3)[OF s service_db_inv[OF e(1)]] head_stream[OF service_db_inv[OF e(1)], of "''t''"] by simp
  then have seq: "1 \<le> st_sequence s" using e(3) by (cases "stream (sv_db sv) ''t''") simp_all
  have state: "\<exists>v sv'. read_representation_state H ex_item_uuid ex_quiet_config ex_query sv = (Inr v, sv')"
  proof -
    obtain r sv1 where st: "service_state H ex_quiet_config ''t'' None None None sv = (r, sv1)" by fastforce
    have "r = Inr s" using service_state_law[OF e(1) st] s by simp
    then show ?thesis
      using st subject seq ex_request_actor[of sv]
      by (simp add: read_representation_state_def ex_query_def andC_def translating_def lifted_def made_def doneS_def doneC_def authorize_subject_def
          show_state_def position_of_def make_subject_ref_def required_def contract_require_def make_snapshot_ref_def)
  qed
  then obtain v sv' where v: "read_representation_state H ex_item_uuid ex_quiet_config ex_query sv = (Inr v, sv')" by blast
  from v e(1) have ok: "service_ok H ex_quiet_config sv'" "sv_db sv' = sv_db sv" by (rule read_state_Inr; simp)+
  obtain r sv1 where st: "service_state H ex_quiet_config ''t'' None None None sv' = (r, sv1)" by fastforce
  have "r = Inr s" using service_state_law[OF ok(1) st] s ok(2) by simp
  then have "\<exists>ds sv''. read_representation_deficits H ex_item_uuid ex_quiet_config ex_query sv = (Inr ds, sv'')"
    using v st by (simp add: read_representation_deficits_def andC_def lifted_def doneC_def ex_query_def)
  then show ?thesis using e(1) v by blast
qed

lemma ex_public_trace: "\<exists>v sv'. facade_trace_lineage H ex_item_uuid ex_quiet_config ex_lineage_query ex_service = (Inr v, sv')"
proof -
  obtain sv where sv: "service_state H ex_quiet_config ''t'' None None None ex_service = (Inr (init_state ''t''), sv)"
    "service_ok H ex_quiet_config sv" "sv_db sv = empty_db" by (rule ex_empty_state)
  obtain r sv1 where st: "service_state H ex_quiet_config ''t'' None None None sv = (r, sv1)" by fastforce
  have "full_replay H (sv_db sv) ''t'' None None = Inr (init_state ''t'')"
    by (simp add: sv(3) full_replay_def cut_def stream_def stream_rows_def empty_db_def)
  then have r: "r = Inr (init_state ''t'')" "sv_db sv1 = empty_db" using service_state_law[OF sv(2) st] sv(3) by simp_all
  have "\<exists>t. trace empty_db (init_state ''t'') \<lparr>ln_kind = EVIDENCE_NODE, ln_node_id = ''u''\<rparr> = Inr t"
  proof -
    have empty: "edges_up_to twin c (db_dependencies empty_db) = []" for twin c by (simp add: edges_up_to_def empty_db_def)
    have "dependents empty_db ''t'' ''evidence'' ''u'' True (Some 0) = Inr []" "ancestors empty_db ''t'' ''evidence'' ''u'' True (Some 0) = Inr []"
      using empty by (simp_all add: dependents_def ancestors_def lineage_kinds_def Let_def impacted_def successors_def flip_def cutoff_of_def)
    then show ?thesis by (simp add: trace_def init_state_def)
  qed
  then show ?thesis
    using sv(1) st r ex_request_actor[of ex_service]
    by (auto simp: facade_trace_lineage_def ex_lineage_query_def andC_def translating_def lifted_def made_def doneS_def doneC_def
        authorize_subject_def trace_lineage_def andS_simp make_node_def readS_def init_state_def Let_def)
qed

end
