(* ===== verification/K2_Conformance.thy ===== *)
theory K2_Conformance
  imports K2_Rebuild
begin

text \<open>
  \<open>src/src/argo_dt/conformance.py\<close>: the reader of an event from its JSON form, the reader of a golden replay
  and the replay of its events. The file is its text; \<open>json.loads\<close> is the reader of \<open>K2_Json\<close>. Shown: an
  event is read back from the form \<open>to_primitive\<close> gives it, as the ledger would return it; the events
  of an accepted golden replay are numbered from one, form one hash chain and are each written by a
  role that owns them; and a stream of the ledger, written out as a document, is accepted unchanged.
\<close>

section \<open>Reading one event\<close>

definition event_required :: "string list" where
  "event_required =
     [''event_hash'', ''event_id'', ''event_type'', ''idempotency_key'', ''occurred_at'', ''payload'', ''plane'',
      ''previous_hash'', ''producer'', ''recorded_at'', ''schema_version'', ''sequence'', ''twin_id'']"

definition event_allowed :: "string list" where
  "event_allowed = event_required @ [''producer_role'', ''causation_id'', ''correlation_id'']"

text \<open>\<open>str(value[k])\<close>\<close>

definition str_item :: "pydict \<Rightarrow> string \<Rightarrow> string result" where
  "str_item d k = bindE (item d k) (\<lambda>v. Inr (py_str v))"

text \<open>\<open>value.get(k)\<close> into an optional text; the code keeps any value here, the model's events only texts.\<close>

definition opt_text_item :: "pydict \<Rightarrow> string \<Rightarrow> string option result" where
  "opt_text_item d k = (case pget d k of PNone \<Rightarrow> Inr None | PStr s \<Rightarrow> Inr (Some s) | _ \<Rightarrow> Inl OutOfModel)"

definition golden_role :: "pydict \<Rightarrow> producer_role result" where
  "golden_role d =
     (if dict_has d ''producer_role'' then bindE (str_item d ''producer_role'') role_of
      else bindE (str_item d ''event_type'') sole_event_owner)"

definition event_of_fields :: "pydict \<Rightarrow> string \<Rightarrow> producer_role \<Rightarrow> event result" where
  "event_of_fields d schema role =
     bindE (str_item d ''event_id'') (\<lambda>ident.
     bindE (str_item d ''twin_id'') (\<lambda>twin.
     bindE (str_item d ''event_type'') (\<lambda>ty.
     bindE (bindE (str_item d ''plane'') plane_of) (\<lambda>pl.
     bindE (bindE (item d ''payload'') dict_of_val) (\<lambda>body.
     bindE (bindE (str_item d ''occurred_at'') parse_time) (\<lambda>occurred.
     bindE (bindE (str_item d ''recorded_at'') parse_time) (\<lambda>recorded.
     bindE (str_item d ''producer'') (\<lambda>who.
     bindE (str_item d ''idempotency_key'') (\<lambda>key.
     bindE (bindE (item d ''sequence'') py_int) (\<lambda>n.
     bindE (opt_text_item d ''causation_id'') (\<lambda>cause.
     bindE (opt_text_item d ''correlation_id'') (\<lambda>corr.
     bindE (str_item d ''previous_hash'') (\<lambda>prev.
     bindE (str_item d ''event_hash'') (\<lambda>h.
     Inr \<lparr>event_id = ident, twin_id = twin, event_type = ty, plane = pl, payload = body, occurred_at = occurred,
          recorded_at = recorded, producer = who, producer_role = role, idempotency_key = key,
          schema_version = schema, sequence = n, causation_id = cause, correlation_id = corr,
          previous_hash = prev, event_hash = h\<rparr>))))))))))))))"

definition event_from_primitive :: "pydict \<Rightarrow> event result" where
  "event_from_primitive d =
     (let missing = filter (\<lambda>k. \<not> dict_has d k) event_required;
          extra = filter (\<lambda>k. k \<notin> set event_allowed) (map fst d) in
      if missing \<noteq> [] then violation (''golden event missing fields: '' @ join '', '' missing)
      else bindE (str_item d ''schema_version'') (\<lambda>schema.
        if schema \<notin> {''argo.dt.event/v1'', ''argo.dt.event/v2''}
        then violation ''unsupported golden event schema version''
        else if schema = ''argo.dt.event/v2'' \<and> \<not> dict_has d ''producer_role''
        then violation ''golden v2 event missing producer_role''
        else if extra \<noteq> [] then violation (''golden event has unknown fields: '' @ join '', '' extra)
        else bindE (golden_role d) (event_of_fields d schema)))"

section \<open>Golden replays\<close>

text \<open>
  An element of the list of events. \<open>required.difference\<close> accepts any iterable: the characters of a text
  are no field names, and a list of names is outside the model.
\<close>

definition event_from_val :: "pyval \<Rightarrow> event result" where
  "event_from_val v =
     (case v of
        PDict d \<Rightarrow> event_from_primitive d
      | PStr _ \<Rightarrow> violation (''golden event missing fields: '' @ join '', '' event_required)
      | PList _ \<Rightarrow> Inl OutOfModel
      | _ \<Rightarrow> Inl TypeError)"

fun check_golden :: "(string \<Rightarrow> string) \<Rightarrow> int \<Rightarrow> string \<Rightarrow> event list \<Rightarrow> unit result" where
  "check_golden H n prev [] = Inr ()"
| "check_golden H n prev (ev # evs) =
     (if sequence ev \<noteq> n then Inl (IntegrityError ''golden replay sequence is not contiguous'')
      else bindE (verify H ev prev) (\<lambda>_.
        bindE (make_actor (producer ev) {producer_role ev} None) (\<lambda>a.
        bindE (authorize ev a) (\<lambda>_.
        check_golden H (n + 1) (event_hash ev) evs))))"

definition load_golden_replay :: "(string \<Rightarrow> string) \<Rightarrow> string \<Rightarrow> (event list \<times> pydict) result" where
  "load_golden_replay H text =
     bindE (loads text) (\<lambda>v.
     bindE (case v of PDict d \<Rightarrow> Inr d | _ \<Rightarrow> Inl AttributeError) (\<lambda>d.
     if \<not> py_eq (pget d ''fixture_version'') (PStr ''argo.dt.fixture/v1'')
     then violation ''unsupported fixture version''
     else bindE (py_iter (get_or d ''events'' (PList []))) (\<lambda>items.
       bindE (mapE event_from_val items) (\<lambda>evs.
       if evs = [] then violation ''golden replay requires at least one event''
       else bindE (check_golden H 1 [] evs) (\<lambda>_.
         bindE (dict_of_val (get_or d ''expected_state'' (PDict []))) (\<lambda>expected.
         Inr (evs, expected)))))))"

text \<open>\<open>replay_events\<close>; the list has a first element, as every accepted replay has.\<close>

definition replay_events :: "event list \<Rightarrow> twin_state result" where
  "replay_events evs =
     (case evs of [] \<Rightarrow> Inl OutOfModel | ev # _ \<Rightarrow> foldE apply_event (init_state (twin_id ev)) evs)"

section \<open>An event is read back from its JSON form\<close>

definition event_schemas :: "string set" where
  "event_schemas = {''argo.dt.event/v1'', ''argo.dt.event/v2''}"

definition json_event :: "event \<Rightarrow> bool" where
  "json_event ev \<longleftrightarrow> schema_version ev \<in> event_schemas \<and> jsonable (to_primitive (PDict (payload ev)))
     \<and> valid_dt (astimezone_utc (occurred_at ev)) \<and> valid_dt (astimezone_utc (recorded_at ev))"

lemma event_val_jsonable: "jsonable (to_primitive (PDict (payload ev))) \<Longrightarrow> jsonable (PDict (event_val ev))"
  by (auto simp: event_val_def opt_str_def split: option.splits)

lemma event_val_keys: "map fst (event_val ev) =
   [''causation_id'', ''correlation_id'', ''event_hash'', ''event_id'', ''event_type'', ''idempotency_key'', ''occurred_at'',
    ''payload'', ''plane'', ''previous_hash'', ''producer'', ''producer_role'', ''recorded_at'', ''schema_version'', ''sequence'', ''twin_id'']"
  by (simp add: event_val_def)

lemma event_val_has: "dict_has (event_val ev) k \<longleftrightarrow> k \<in> set (map fst (event_val ev))"
  by (simp add: dict_has_keys)

lemma event_val_item:
  "item (event_val ev) ''event_id'' = Inr (PStr (event_id ev))"
  "item (event_val ev) ''twin_id'' = Inr (PStr (twin_id ev))"
  "item (event_val ev) ''event_type'' = Inr (PStr (event_type ev))"
  "item (event_val ev) ''plane'' = Inr (PStr (plane_text (plane ev)))"
  "item (event_val ev) ''payload'' = Inr (to_primitive (PDict (payload ev)))"
  "item (event_val ev) ''occurred_at'' = Inr (PStr (iso_z (occurred_at ev)))"
  "item (event_val ev) ''recorded_at'' = Inr (PStr (iso_z (recorded_at ev)))"
  "item (event_val ev) ''producer'' = Inr (PStr (producer ev))"
  "item (event_val ev) ''producer_role'' = Inr (PStr (role_text (producer_role ev)))"
  "item (event_val ev) ''idempotency_key'' = Inr (PStr (idempotency_key ev))"
  "item (event_val ev) ''schema_version'' = Inr (PStr (schema_version ev))"
  "item (event_val ev) ''sequence'' = Inr (PInt (sequence ev))"
  "item (event_val ev) ''previous_hash'' = Inr (PStr (previous_hash ev))"
  "item (event_val ev) ''event_hash'' = Inr (PStr (event_hash ev))"
  "pget (event_val ev) ''causation_id'' = opt_str (causation_id ev)"
  "pget (event_val ev) ''correlation_id'' = opt_str (correlation_id ev)"
  by (simp_all add: event_val_def item_def pget_def get_or_def del: to_primitive.simps)

lemma opt_text_item_opt_str: "pget d k = opt_str s \<Longrightarrow> opt_text_item d k = Inr s"
  by (cases s) (simp_all add: opt_text_item_def opt_str_def)

theorem event_from_event_val:
  assumes "json_event ev"
  shows "event_from_primitive (event_val ev) = Inr (persisted ev)"
proof -
  note j = assms[unfolded json_event_def]
  have "event_of_fields (event_val ev) (schema_version ev) (producer_role ev) = Inr (persisted ev)"
    using j by (simp add: event_of_fields_def str_item_def event_val_item opt_text_item_opt_str parse_time_iso_z persisted_def
        dict_of_val_def)
  moreover have "golden_role (event_val ev) = Inr (producer_role ev)"
    by (simp add: golden_role_def event_val_has event_val_keys str_item_def event_val_item)
  moreover have "filter (\<lambda>k. \<not> dict_has (event_val ev) k) event_required = []"
    by (simp add: event_val_has event_val_keys event_required_def)
  moreover have "filter (\<lambda>k. k \<notin> set event_allowed) (map fst (event_val ev)) = []"
    by (simp add: event_val_keys event_required_def event_allowed_def)
  moreover have "str_item (event_val ev) ''schema_version'' = Inr (schema_version ev)"
    by (simp add: str_item_def event_val_item)
  moreover have "schema_version ev \<in> {''argo.dt.event/v1'', ''argo.dt.event/v2''}" using j by (simp add: event_schemas_def)
  moreover have "dict_has (event_val ev) ''producer_role''" by (simp add: event_val_has event_val_keys)
  ultimately show ?thesis by (simp add: event_from_primitive_def del: insert_iff)
qed

section \<open>What an accepted replay is\<close>

definition written_by_owner :: "event \<Rightarrow> bool" where
  "written_by_owner ev \<longleftrightarrow> producer ev \<noteq> [] \<and> owns (producer_role ev) (event_type ev)"

definition hash_before :: "string \<Rightarrow> event list \<Rightarrow> nat \<Rightarrow> string" where
  "hash_before prev evs i = (case i of 0 \<Rightarrow> prev | Suc j \<Rightarrow> event_hash (evs ! j))"

lemma authorize_owner:
  assumes "make_actor (producer ev) {producer_role ev} None = Inr a"
  shows "authorize ev a = Inr () \<longleftrightarrow> owns (producer_role ev) (event_type ev)"
  using assms by (auto simp: make_actor_def authorize_def bindE_Inr_iff authorize_intent_iff authorize_subject_iff owns_def split: if_splits)

lemma check_golden_Cons:
  "check_golden H n prev (ev # evs) = Inr () \<longleftrightarrow>
     sequence ev = n \<and> verify H ev prev = Inr () \<and> written_by_owner ev \<and> check_golden H (n + 1) (event_hash ev) evs = Inr ()"
proof (cases "producer ev = []")
  case False
  then obtain a where "make_actor (producer ev) {producer_role ev} None = Inr a" by (simp add: make_actor_def)
  then show ?thesis using False authorize_owner[of ev a] by (auto simp: bindE_Inr_iff written_by_owner_def)
qed (auto simp: make_actor_def bindE_Inr_iff written_by_owner_def)

lemma check_golden_iff:
  "check_golden H n prev evs = Inr () \<longleftrightarrow>
     (\<forall>i < length evs. sequence (evs ! i) = n + int i \<and> verify H (evs ! i) (hash_before prev evs i) = Inr ()
        \<and> written_by_owner (evs ! i))"
proof (induction evs arbitrary: n prev)
  case (Cons ev evs)
  have "hash_before prev (ev # evs) (Suc i) = hash_before (event_hash ev) evs i" for i
    by (cases i) (simp_all add: hash_before_def)
  then show ?case
    unfolding check_golden_Cons Cons.IH
    by (auto simp: All_less_Suc2 hash_before_def add.assoc)
qed simp

lemma load_golden_Inr:
  assumes "load_golden_replay H text = Inr (evs, expected)"
  shows "evs \<noteq> [] \<and> check_golden H 1 [] evs = Inr ()"
  using assms by (auto simp: load_golden_replay_def bindE_Inr_iff violation_def split: if_splits)

text \<open>On such a list the bare fold of \<open>replay_events\<close> is the checked replay of the aggregate.\<close>

lemma fold_verified:
  "check_golden H (st_sequence s + 1) prev evs = Inr () \<Longrightarrow> foldE apply_event s evs = replay H None evs s prev"
proof (induction evs arbitrary: s prev)
  case (Cons ev evs)
  then have h: "sequence ev = st_sequence s + 1" "verify H ev prev = Inr ()" "check_golden H (st_sequence s + 1 + 1) (event_hash ev) evs = Inr ()"
    by (simp_all add: check_golden_Cons del: check_golden.simps)
  show ?case
  proof (cases "apply_event s ev")
    case (Inr t)
    then have "st_sequence t = st_sequence s + 1" using apply_event_position h(1) by auto
    then show ?thesis using Cons.IH[of t "event_hash ev"] h Inr by simp
  qed (simp add: h)
qed simp

lemma replay_events_verified:
  assumes "check_golden H 1 [] evs = Inr ()" "evs \<noteq> []"
  shows "replay_events evs = replay H None evs (init_state (twin_id (hd evs))) []"
  using fold_verified[of H "init_state (twin_id (hd evs))" "[]" evs] assms
  by (cases evs) (simp_all add: replay_events_def init_state_def)

section \<open>A stream, written out and loaded\<close>

definition golden_document :: "event list \<Rightarrow> pydict \<Rightarrow> pyval" where
  "golden_document evs expected =
     PDict [(''events'', PList (map (\<lambda>ev. PDict (event_val ev)) evs)), (''expected_state'', PDict expected),
            (''fixture_version'', PStr ''argo.dt.fixture/v1'')]"

lemma chain_golden:
  assumes "chain_ok H prev n evs" "\<forall>ev \<in> set evs. storable ev \<and> written_by_owner ev"
  shows "check_golden H n prev (map persisted evs) = Inr ()"
  using assms
proof (induction evs arbitrary: n prev)
  case (Cons ev evs)
  then show ?case by (simp add: check_golden_Cons verify_persisted written_by_owner_def del: check_golden.simps)
qed simp

theorem golden_roundtrip:
  assumes "chain_ok H [] 1 evs" "evs \<noteq> []" "\<forall>ev \<in> set evs. json_event ev \<and> storable ev \<and> written_by_owner ev"
    and "jsonable (PDict expected)"
  shows "load_golden_replay H (dumps (golden_document evs expected)) = Inr (map persisted evs, expected)"
proof -
  have "jsonable (golden_document evs expected)"
    using assms(3,4) event_val_jsonable
    by (simp add: golden_document_def list_all_iff[of jsonable "map f xs" for f xs] json_event_def del: to_primitive.simps)
  then have "loads (dumps (golden_document evs expected)) = Inr (golden_document evs expected)" by (rule loads_dumps)
  moreover have "mapE event_from_val (map (\<lambda>ev. PDict (event_val ev)) evs) = Inr (map persisted evs)"
    using assms(3) by (induction evs) (simp_all add: event_from_val_def event_from_event_val)
  moreover have "check_golden H 1 [] (map persisted evs) = Inr ()" using chain_golden assms(1,3) by blast
  ultimately show ?thesis
    using assms(2) by (simp add: load_golden_replay_def golden_document_def pget_def get_or_def py_iter_def dict_of_val_def)
qed

end
