(* ===== verification/K2_Bytes.thy ===== *)
theory K2_Bytes
  imports K2_Encoding
begin

text \<open>
  What the transport adapters do with received bytes: \<open>payload.decode("utf-8")\<close> and \<open>json.loads\<close> with the
  hook that refuses duplicate keys (the same function in \<open>adapters/nats.py\<close>, \<open>adapters/websocket.py\<close> and
  \<open>adapters/telemetry.py\<close>). Well-formed UTF-8 with a code point from 256 up is outside the model's
  characters; everything else that is not decoded is a UnicodeDecodeError, a subclass of ValueError. The
  nesting depth at which \<open>json.loads\<close> gives up (RecursionError) is not modelled.
\<close>

definition continuation :: "char \<Rightarrow> bool" where
  "continuation c \<longleftrightarrow> 128 \<le> byte c \<and> byte c < 192"

text \<open>The number of bytes after the first, and what the second may be.\<close>

definition trailing :: "nat \<Rightarrow> nat" where
  "trailing n = (if 194 \<le> n \<and> n \<le> 223 then 1 else if 224 \<le> n \<and> n \<le> 239 then 2 else if 240 \<le> n \<and> n \<le> 244 then 3 else 0)"

definition second_byte :: "nat \<Rightarrow> nat \<Rightarrow> bool" where
  "second_byte n m \<longleftrightarrow> (n = 224 \<longrightarrow> 160 \<le> m) \<and> (n = 237 \<longrightarrow> m \<le> 159) \<and> (n = 240 \<longrightarrow> 144 \<le> m) \<and> (n = 244 \<longrightarrow> m \<le> 143)"

function utf8_valid :: "string \<Rightarrow> bool" where
  "utf8_valid [] = True"
| "utf8_valid (c # s) =
     (if byte c < 128 then utf8_valid s
      else (let k = trailing (byte c) in
        0 < k \<and> k \<le> length s \<and> list_all continuation (take k s) \<and> second_byte (byte c) (byte (hd s)) \<and> utf8_valid (drop k s)))"
  by pat_completeness auto
termination by (relation "measure length") auto

definition decode_text :: "string \<Rightarrow> string result" where
  "decode_text bs =
     (case utf8_decode bs of
        Some s \<Rightarrow> Inr s
      | None \<Rightarrow> Inl (if utf8_valid bs then OutOfModel else ValueError ''utf-8 codec cannot decode''))"

text \<open>\<open>strict\<close>: the adapter also refuses the words NaN, Infinity and -Infinity.\<close>

definition read_json :: "bool \<Rightarrow> string \<Rightarrow> pyval result" where
  "read_json strict bs = bindE (decode_text bs) (loads_with True strict)"

text \<open>\<open>except Exception\<close> and the like: any failure becomes the one given; what the model cannot hold stays so.\<close>

definition instead :: "error \<Rightarrow> 'a result \<Rightarrow> 'a result" where
  "instead err m = (case m of Inl OutOfModel \<Rightarrow> Inl OutOfModel | Inl _ \<Rightarrow> Inl err | Inr x \<Rightarrow> Inr x)"

lemma instead_Inr [simp]: "instead err m = Inr x \<longleftrightarrow> m = Inr x" "instead err (Inr x) = Inr x"
  by (auto simp: instead_def split: sum.splits error.splits)

lemma instead_Inl: "instead err m = Inl e \<Longrightarrow> e = err \<or> e = OutOfModel"
  by (auto simp: instead_def split: sum.splits error.splits)

lemma read_json_dumps: "jsonable v \<Longrightarrow> read_json strict (utf8_encode (dumps v)) = Inr v"
  by (simp add: read_json_def decode_text_def loads_with_dumps)

lemma length_utf8: "length (utf8_encode s) = utf8_len s"
  by (induction s) (simp_all add: utf8_len_def)

end
