(* ===== verification/K2_Json_Reader.thy ===== *)
theory K2_Json_Reader
  imports K2_Bytes
begin

text \<open>
  What \<open>json.loads\<close> returns when NaN and the infinities are refused is JSON data in canonical form: its
  dictionaries are well formed, and the text of each of its floats is read back as that float.
\<close>

section \<open>Numbers\<close>

lemma takeWhile_stop: "list_all P xs \<Longrightarrow> u = [] \<or> \<not> P (hd u) \<Longrightarrow> takeWhile P (xs @ u) = xs"
  by (induction xs) (cases u; simp)+

lemma takeWhile_all_digits [simp]: "list_all is_digit (takeWhile is_digit s)"
  by (induction s) simp_all

lemma not_digits [simp]: "\<not> is_digit (CHR ''.'')" "\<not> is_digit (CHR ''e'')" "\<not> is_digit (CHR ''E'')" "\<not> is_digit (CHR ''-'')" "\<not> is_digit (CHR ''+'')"
  by (simp_all add: is_digit_def digit_of_def)

lemma int_part_again:
  assumes "int_part t \<noteq> []" "u = [] \<or> \<not> is_digit (hd u)"
  shows "int_part (int_part t @ u) = int_part t"
proof (cases "t \<noteq> [] \<and> hd t = CHR ''0''")
  case False
  define ds where "ds = takeWhile is_digit t"
  have ds: "int_part t = ds" using False unfolding int_part_def ds_def by auto
  moreover obtain d r where "ds = d # r" using assms(1) ds by (cases ds) auto
  moreover have "d \<noteq> CHR ''0''" using False \<open>ds = d # r\<close> unfolding ds_def by (cases t) (auto split: if_splits)
  moreover have "takeWhile is_digit (ds @ u) = ds" using assms(2) unfolding ds_def by (intro takeWhile_stop) auto
  ultimately show ?thesis by (simp add: int_part_def)
qed (simp add: int_part_def)

lemma frac_part_again:
  assumes "u = [] \<or> (\<not> is_digit (hd u) \<and> hd u \<noteq> CHR ''.'')"
  shows "frac_part (frac_part t @ u) = frac_part t"
proof (cases "frac_part t = []")
  case True
  then show ?thesis using assms by (auto simp: frac_part_def)
next
  case False
  define ds where "ds = takeWhile is_digit (tl t)"
  have f: "frac_part t = CHR ''.'' # ds" "ds \<noteq> []" using False by (auto simp: frac_part_def ds_def split: if_splits)
  moreover have "takeWhile is_digit (ds @ u) = ds" using assms unfolding ds_def by (intro takeWhile_stop) auto
  ultimately show ?thesis by (simp add: frac_part_def)
qed

lemma exp_part_again: "exp_part (exp_part t) = exp_part t"
proof (cases "exp_part t = []")
  case False
  define sg where "sg = (if tl t \<noteq> [] \<and> hd (tl t) \<in> {CHR ''+'', CHR ''-''} then [hd (tl t)] else [])"
  define ds where "ds = takeWhile is_digit (drop (length sg) (tl t))"
  have t: "hd t \<in> {CHR ''e'', CHR ''E''}" "ds \<noteq> []" "exp_part t = hd t # sg @ ds"
    using False unfolding exp_part_def Let_def sg_def[symmetric] ds_def[symmetric] by (auto split: if_splits)
  have d: "list_all is_digit ds" by (simp add: ds_def)
  then have w: "takeWhile is_digit ds = ds" by (rule takeWhile_all)
  have "hd ds \<notin> {CHR ''+'', CHR ''-''}" using d t(2) not_digits by (cases ds) auto
  moreover have "sg = [] \<or> (\<exists>c. sg = [c] \<and> c \<in> {CHR ''+'', CHR ''-''})" unfolding sg_def by simp
  ultimately have "(if sg @ ds \<noteq> [] \<and> hd (sg @ ds) \<in> {CHR ''+'', CHR ''-''} then [hd (sg @ ds)] else []) = sg" by auto
  then show ?thesis unfolding t(3) using t(1,2) by (simp add: exp_part_def Let_def w del: takeWhile_eq_all_conv)
qed (simp add: exp_part_def)

lemma exp_part_hd: "exp_part t = [] \<or> hd (exp_part t) \<in> {CHR ''e'', CHR ''E''}"
  by (auto simp: exp_part_def Let_def)

lemma frac_part_hd: "frac_part t = [] \<or> hd (frac_part t) = CHR ''.''"
  by (auto simp: frac_part_def)

lemma int_part_hd: "int_part t = [] \<or> is_digit (hd (int_part t))"
  by (cases t) (auto simp: int_part_def is_digit_def digit_of_def)

lemma jnumber_jsonable:
  assumes "jnumber s = Some (v, r)"
  shows "jsonable v"
proof -
  define neg where "neg = (s \<noteq> [] \<and> hd s = CHR ''-'')"
  define i where "i = int_part (if neg then tl s else s)"
  define f where "f = frac_part (drop (length i) (if neg then tl s else s))"
  define e where "e = exp_part (drop (length f) (drop (length i) (if neg then tl s else s)))"
  have s: "i \<noteq> []" "(f = [] \<and> e = [] \<and> (\<exists>n. v = PInt n)) \<or> (\<not> (f = [] \<and> e = []) \<and> v = PFloat (Finite ((if neg then ''-'' else []) @ i @ f @ e)))"
    using assms unfolding jnumber_def Let_def neg_def[symmetric] i_def[symmetric] f_def[symmetric] e_def[symmetric]
    by (auto split: if_splits)
  show ?thesis
  proof (cases "f = [] \<and> e = []")
    case False
    have e: "e = [] \<or> (\<not> is_digit (hd e) \<and> hd e \<noteq> CHR ''.'')" using exp_part_hd unfolding e_def by fastforce
    have "f = [] \<or> hd f = CHR ''.''" unfolding f_def by (rule frac_part_hd)
    then have fe: "f @ e = [] \<or> \<not> is_digit (hd (f @ e))" using e by (cases f) auto
    have parts: "int_part (i @ f @ e) = i" "frac_part (f @ e) = f" "exp_part e = e"
      using int_part_again[OF s(1)[unfolded i_def] fe] frac_part_again[OF e] exp_part_again by (simp_all add: i_def f_def e_def)
    have "is_digit (hd i)" using int_part_hd[of "if neg then tl s else s"] s(1) unfolding i_def by blast
    then have "hd i \<noteq> CHR ''-''" by auto
    then have "jnumber ((if neg then ''-'' else []) @ i @ f @ e) = Some (PFloat (Finite ((if neg then ''-'' else []) @ i @ f @ e)), [])"
      using s(1) False parts by (cases neg) (auto simp: jnumber_def Let_def)
    then show ?thesis using s(2) False by (auto simp: float_text_def)
  qed (use s in auto)
qed

section \<open>Values\<close>

lemma jword_jsonable: "jword True s = Some (v, r) \<Longrightarrow> jsonable v"
  by (auto simp: jword_def split: if_splits)

lemma jobject_jsonable:
  assumes "jobject unique kvs = Some v" "\<forall>(k, x) \<in> set kvs. jsonable x"
  shows "jsonable v"
proof -
  have "\<forall>(k, x) \<in> set (dict_of kvs). jsonable x"
  proof clarify
    fix k x
    assume "(k, x) \<in> set (dict_of kvs)"
    then have "map_of (dict_of kvs) k = Some x" by (simp add: wf_dict_distinct)
    then have "map_of (rev kvs) k = Some x" by (simp add: map_of_dict_of)
    then have "(k, x) \<in> set (rev kvs)" by (rule map_of_SomeD)
    then show "jsonable x" using assms(2) by auto
  qed
  then show ?thesis using assms(1) by (auto simp: jobject_def list_all_iff split: if_splits)
qed

lemma jvalue_jsonable:
  "jvalue unique True n s = Some (v, r) \<Longrightarrow> jsonable v"
  "jelems unique True n s = Some (vs, r) \<Longrightarrow> list_all jsonable vs"
  "jmembers unique True n s = Some (kvs, r) \<Longrightarrow> list_all (\<lambda>(k, v). jsonable v) kvs"
proof (induction unique "True" n s and unique "True" n s and unique "True" n s
    arbitrary: v r and vs r and kvs r rule: jvalue_jelems_jmembers.induct)
  case (2 unique n s)
  show ?case
  proof (cases "\<exists>t d u kvs. s = CHR ''{'' # t \<and> skip_ws t = d # u \<and> d \<noteq> CHR ''}'' \<and> jmembers unique True n (d # u) = Some (kvs, r)
      \<and> jobject unique kvs = Some v")
    case True
    then obtain t d u kvs where k: "s = CHR ''{'' # t" "skip_ws t = d # u" "d \<noteq> CHR ''}''" "jmembers unique True n (d # u) = Some (kvs, r)"
      "jobject unique kvs = Some v" by blast
    have "list_all (\<lambda>(k, v). jsonable v) kvs" using k by (intro 2(2)[OF k(1) _ _ _ k(2) _ k(4)]) simp_all
    then show ?thesis by (intro jobject_jsonable[OF k(5)]) (simp add: list_all_iff)
  next
    case False
    then show ?thesis using 2(1,3)
      by (auto simp: bind_eq_Some_conv split: list.splits if_splits option.splits dest: jword_jsonable jnumber_jsonable)
  qed
next
  case (4 unique n s)
  then show ?case by (auto split: list.splits if_splits option.splits)
next
  case (6 unique n s)
  then show ?case by (auto split: list.splits if_splits option.splits)
qed simp_all

theorem loads_strict_jsonable: "loads_with unique True s = Inr v \<Longrightarrow> jsonable v"
  by (auto simp: loads_with_def simp del: jvalue.simps split: option.splits if_splits dest: jvalue_jsonable(1))

lemma read_json_jsonable: "read_json True bs = Inr v \<Longrightarrow> jsonable v"
  by (auto simp: read_json_def bindE_Inr_iff dest: loads_strict_jsonable)

end
