(* ===== verification/K2_Nats.thy ===== *)
theory K2_Nats
  imports K2_Conformance K2_Session K2_Bytes
begin

text \<open>
  The NATS side of the program: \<open>NatsSubjectTopology\<close> of \<open>src/src/argo_dt/sync.py\<close> and the JetStream
  publisher and consumer of \<open>src/src/argo_dt/adapters/nats.py\<close>. JetStream is a server that answers every action
  (\<open>publish\<close>, \<open>ack\<close>, \<open>nak\<close>, \<open>term\<close>) with success or an exception: the parameter \<open>server\<close>. The actions it accepted
  are kept in a log. The derived handler is the parameter \<open>handler\<close>. What the other theories say of these is in
  \<open>K2_Nats_Laws\<close>.
\<close>

section \<open>Subjects\<close>

definition nats_token :: "string \<Rightarrow> string \<Rightarrow> string result" where
  "nats_token value name =
     (if subject_token value then Inr value
      else Inl (ProtocolViolation (name @ '' must be 1-64 URL-safe characters without NATS wildcards'')))"

definition bounded_subject :: "string \<Rightarrow> string list \<Rightarrow> string result" where
  "bounded_subject message tokens =
     (let subject = join ''.'' tokens in
      if 255 < utf8_len subject then Inl (ProtocolViolation message) else Inr subject)"

definition event_subject :: "string \<Rightarrow> event \<Rightarrow> string result" where
  "event_subject tenant ev =
     bindE (nats_token tenant ''tenant'') (\<lambda>a.
     bindE (nats_token (twin_id ev) ''twin_id'') (\<lambda>b.
     bindE (nats_token (plane_text (plane ev)) ''plane'') (\<lambda>c.
     bindE (nats_token (event_type ev) ''event_type'') (\<lambda>d.
     bounded_subject ''NATS subject exceeds the 255-byte project limit'' [''argo'', ''dt'', a, b, c, d]))))"

definition deadletter_subject :: "string \<Rightarrow> string \<Rightarrow> string \<Rightarrow> string result" where
  "deadletter_subject tenant twin stage =
     bindE (nats_token tenant ''tenant'') (\<lambda>a.
     bindE (nats_token twin ''twin_id'') (\<lambda>b.
     bindE (nats_token stage ''stage'') (\<lambda>c.
     bounded_subject ''NATS dead-letter subject exceeds project limit'' [''argo'', ''dt'', a, b, ''deadletter'', c])))"

definition token_or_star :: "string option \<Rightarrow> string \<Rightarrow> string result" where
  "token_or_star v name = (case v of None \<Rightarrow> Inr ''*'' | Some s \<Rightarrow> nats_token s name)"

definition consumer_filter :: "string \<Rightarrow> string option \<Rightarrow> string option \<Rightarrow> string option \<Rightarrow> string result" where
  "consumer_filter tenant twin pl ty =
     bindE (nats_token tenant ''tenant'') (\<lambda>a.
     bindE (token_or_star twin ''twin_id'') (\<lambda>b.
     bindE (token_or_star pl ''plane'') (\<lambda>c.
     bindE (token_or_star ty ''event_type'') (\<lambda>d.
     bounded_subject ''NATS consumer filter exceeds project limit'' [''argo'', ''dt'', a, b, c, d]))))"

section \<open>JetStream\<close>

record nats_message =
  nm_subject :: string
  nm_data :: string
  nm_timeout :: "rat option"
  nm_headers :: "string dict"

datatype nats_action = Publish nats_message | Ack | Nak rat | Term

type_synonym nats_server = "nats_action \<Rightarrow> unit result"

text \<open>An awaited call: where the server raises, nothing is logged and the exception goes on.\<close>

definition act :: "nats_server \<Rightarrow> nats_action \<Rightarrow> nats_action list \<Rightarrow> unit result \<times> nats_action list" where
  "act server a acts = (case server a of Inl err \<Rightarrow> (Inl err, acts) | Inr _ \<Rightarrow> (Inr (), acts @ [a]))"

section \<open>The publisher\<close>

record nats_publisher =
  np_tenant :: string
  np_timeout :: rat
  np_max_event_bytes :: int

definition make_publisher :: "string \<Rightarrow> rat \<Rightarrow> int \<Rightarrow> nats_publisher result" where
  "make_publisher tenant timeout max_bytes =
     (if timeout \<le> 0 \<or> max_bytes < 1024 then Inl (ValueError ''NATS publisher limits are invalid'')
      else Inr \<lparr>np_tenant = tenant, np_timeout = timeout, np_max_event_bytes = max_bytes\<rparr>)"

definition event_message :: "(string \<Rightarrow> string) \<Rightarrow> nats_publisher \<Rightarrow> event \<Rightarrow> nats_message result" where
  "event_message H p ev =
     (if sequence ev < 1 \<or> event_hash ev = [] then Inl (IntegrityError ''NATS publisher requires a persisted event'')
      else bindE (verify H ev (previous_hash ev)) (\<lambda>_.
        bindE (canonical_json (PDict (event_val ev))) (\<lambda>text.
        if np_max_event_bytes p < int (length (utf8_encode text))
        then Inl (MessageTooLarge ''canonical NATS event exceeds its byte limit'')
        else bindE (event_subject (np_tenant p) ev) (\<lambda>subject.
          Inr \<lparr>nm_subject = subject, nm_data = utf8_encode text, nm_timeout = Some (np_timeout p),
               nm_headers = [(''Argo-Schema'', schema_version ev), (''Content-Type'', ''application/json''),
                 (''Nats-Msg-Id'', event_id ev)]\<rparr>))))"

definition nats_publish ::
  "(string \<Rightarrow> string) \<Rightarrow> nats_server \<Rightarrow> nats_publisher \<Rightarrow> event \<Rightarrow> nats_action list \<Rightarrow> unit result \<times> nats_action list" where
  "nats_publish H server p ev acts =
     (case event_message H p ev of Inl err \<Rightarrow> (Inl err, acts) | Inr m \<Rightarrow> act server (Publish m) acts)"

section \<open>The consumer\<close>

record nats_stats =
  ns_received :: nat
  ns_acknowledged :: nat
  ns_retried :: nat
  ns_deadlettered :: nat
  ns_malformed :: nat

definition no_stats :: nats_stats where
  "no_stats = \<lparr>ns_received = 0, ns_acknowledged = 0, ns_retried = 0, ns_deadlettered = 0, ns_malformed = 0\<rparr>"

definition stats_snapshot :: "nats_stats \<Rightarrow> nat dict" where
  "stats_snapshot st =
     dict_of [(''received'', ns_received st), (''acknowledged'', ns_acknowledged st), (''retried'', ns_retried st),
       (''deadlettered'', ns_deadlettered st), (''malformed'', ns_malformed st)]"

record nats_consumer =
  nc_tenant :: string
  nc_stage :: string
  nc_max_deliver :: int
  nc_retry_delay :: rat
  nc_max_event_bytes :: int

definition make_consumer :: "string \<Rightarrow> string \<Rightarrow> int \<Rightarrow> rat \<Rightarrow> int \<Rightarrow> nats_consumer result" where
  "make_consumer tenant stage max_deliver delay max_bytes =
     (if max_deliver < 1 \<or> delay < 0 \<or> max_bytes < 1024 then Inl (ValueError ''NATS consumer limits are invalid'')
      else bindE (deadletter_subject tenant ''validation'' stage) (\<lambda>_.
        Inr \<lparr>nc_tenant = tenant, nc_stage = stage, nc_max_deliver = max_deliver, nc_retry_delay = delay,
             nc_max_event_bytes = max_bytes\<rparr>))"

text \<open>What \<open>bind\<close> passes to \<open>subscribe\<close>; the callback is \<open>process\<close>, acknowledgement is manual.\<close>

record nats_binding =
  nb_subject :: string
  nb_durable :: string
  nb_stream :: string
  nb_pending_msgs :: int
  nb_pending_bytes :: int

definition nats_bind ::
  "nats_consumer \<Rightarrow> string \<Rightarrow> string \<Rightarrow> string option \<Rightarrow> string option \<Rightarrow> string option \<Rightarrow> int \<Rightarrow> int \<Rightarrow> nats_binding result" where
  "nats_bind c durable stream_name twin pl ty pending pending_bytes =
     (if pending < 1 \<or> pending_bytes < 1024 then Inl (ValueError ''NATS pending limits are invalid'')
      else bindE (nats_token durable ''durable'') (\<lambda>d.
        bindE (nats_token stream_name ''stream'') (\<lambda>s.
        bindE (consumer_filter (nc_tenant c) twin pl ty) (\<lambda>subject.
        Inr \<lparr>nb_subject = subject, nb_durable = d, nb_stream = s, nb_pending_msgs = pending,
             nb_pending_bytes = pending_bytes\<rparr>))))"

text \<open>A received message; \<open>metadata.num_delivered\<close> may be absent or anything.\<close>

record nats_delivery =
  nd_subject :: string
  nd_data :: string
  nd_num_delivered :: "pyval option"

definition delivery_count :: "nats_delivery \<Rightarrow> int" where
  "delivery_count m = (case nd_num_delivered m of Some (PInt n) \<Rightarrow> if 0 < n then n else 1 | _ \<Rightarrow> 1)"

text \<open>\<open>_decode\<close>\<close>

definition nats_decode :: "(string \<Rightarrow> string) \<Rightarrow> nats_consumer \<Rightarrow> string \<Rightarrow> event result" where
  "nats_decode H c body =
     (if nc_max_event_bytes c < int (length body) then protocol_error ''NATS event exceeds its byte limit''
      else bindE (instead (ProtocolViolation ''NATS event is invalid JSON'') (read_json False body)) (\<lambda>v.
        bindE (case v of PDict d \<Rightarrow> Inr d | _ \<Rightarrow> protocol_error ''NATS event must be an object'') (\<lambda>d.
        bindE (instead (ProtocolViolation ''NATS event envelope is invalid'') (event_from_primitive d)) (\<lambda>ev.
        if schema_version ev \<noteq> ''argo.dt.event/v2'' then protocol_error ''NATS accepts only EventEnvelope v2''
        else bindE (verify H ev (previous_hash ev)) (\<lambda>_. Inr ev)))))"

text \<open>What goes wrong in the guarded part: the two classes of the adapter, or an exception of the program.\<close>

datatype consumer_error = PermanentConsumerError string | RetryableConsumerError string | Failed error

fun malformed :: "consumer_error \<Rightarrow> bool" where
  "malformed (PermanentConsumerError _) = True"
| "malformed (Failed (ProtocolViolation _)) = True"
| "malformed (Failed (ResumeCursorRejected _)) = True"
| "malformed (Failed (MessageTooLarge _)) = True"
| "malformed (Failed (IntegrityError _)) = True"
| "malformed _ = False"

definition deadletter_marker :: "nats_consumer \<Rightarrow> int \<Rightarrow> nats_delivery \<Rightarrow> event option \<Rightarrow> string \<Rightarrow> pydict" where
  "deadletter_marker c now m ev reason =
     [(''delivery_count'', PInt (delivery_count m)),
      (''observed_at'', PStr (iso_z (utc now))),
      (''reason'', PStr reason),
      (''schema_version'', PStr ''argo.dt.deadletter/v1''),
      (''sequence'', PInt (case ev of None \<Rightarrow> 0 | Some e \<Rightarrow> sequence e)),
      (''stage'', PStr (nc_stage c)),
      (''twin_id'', PStr (case ev of None \<Rightarrow> ''unknown'' | Some e \<Rightarrow> twin_id e))]"

definition deadletter_message :: "nats_consumer \<Rightarrow> int \<Rightarrow> nats_delivery \<Rightarrow> event option \<Rightarrow> string \<Rightarrow> nats_message result" where
  "deadletter_message c now m ev reason =
     bindE (deadletter_subject (nc_tenant c) (case ev of None \<Rightarrow> ''unknown'' | Some e \<Rightarrow> twin_id e) (nc_stage c)) (\<lambda>subject.
     bindE (canonical_json (PDict (deadletter_marker c now m ev reason))) (\<lambda>text.
     Inr \<lparr>nm_subject = subject, nm_data = utf8_encode text, nm_timeout = None,
          nm_headers = [(''Content-Type'', ''application/json'')]\<rparr>))"

type_synonym consumer_state = "nats_stats \<times> nats_action list"

definition settle :: "nats_server \<Rightarrow> nats_action \<Rightarrow> (nats_stats \<Rightarrow> nats_stats) \<Rightarrow> consumer_state \<Rightarrow> unit result \<times> consumer_state" where
  "settle server a bump st =
     (let (stats, acts) = st; (r, acts') = act server a acts
      in (r, (case r of Inr _ \<Rightarrow> bump stats | Inl _ \<Rightarrow> stats), acts'))"

definition deadletter ::
  "nats_server \<Rightarrow> nats_consumer \<Rightarrow> int \<Rightarrow> nats_delivery \<Rightarrow> event option \<Rightarrow> string \<Rightarrow> consumer_state \<Rightarrow> unit result \<times> consumer_state" where
  "deadletter server c now m ev reason st =
     (case deadletter_message c now m ev reason of
        Inl err \<Rightarrow> (Inl err, st)
      | Inr out \<Rightarrow>
          (case act server (Publish out) (snd st) of
             (Inl err, acts) \<Rightarrow> (Inl err, fst st, acts)
           | (Inr _, acts) \<Rightarrow> settle server Term (ns_deadlettered_update Suc) (fst st, acts)))"

text \<open>The two except clauses of \<open>process\<close>.\<close>

definition consumer_failed ::
  "nats_server \<Rightarrow> nats_consumer \<Rightarrow> int \<Rightarrow> nats_delivery \<Rightarrow> event option \<Rightarrow> consumer_error \<Rightarrow> consumer_state \<Rightarrow> unit result \<times> consumer_state" where
  "consumer_failed server c now m ev err st =
     (if err = Failed OutOfModel then (Inl OutOfModel, st)
      else if malformed err then deadletter server c now m ev ''INVALID_EVENT'' (ns_malformed_update Suc (fst st), snd st)
      else if nc_max_deliver c \<le> delivery_count m then deadletter server c now m ev ''MAX_DELIVER_EXCEEDED'' st
      else settle server (Nak (nc_retry_delay c)) (ns_retried_update Suc) st)"

definition nats_process ::
  "(string \<Rightarrow> string) \<Rightarrow> nats_server \<Rightarrow> (event \<Rightarrow> consumer_error option) \<Rightarrow> nats_consumer \<Rightarrow> int \<Rightarrow> nats_delivery
     \<Rightarrow> consumer_state \<Rightarrow> unit result \<times> consumer_state" where
  "nats_process H server handler c now m st0 =
     (let st = (ns_received_update Suc (fst st0), snd st0) in
      case nats_decode H c (nd_data m) of
        Inl err \<Rightarrow> consumer_failed server c now m None (Failed err) st
      | Inr ev \<Rightarrow>
          (case event_subject (nc_tenant c) ev of
             Inl err \<Rightarrow> consumer_failed server c now m (Some ev) (Failed err) st
           | Inr expected \<Rightarrow>
               if nd_subject m \<noteq> expected
               then consumer_failed server c now m (Some ev) (PermanentConsumerError ''SUBJECT_EVENT_MISMATCH'') st
               else (case handler ev of
                 Some err \<Rightarrow> consumer_failed server c now m (Some ev) err st
               | None \<Rightarrow> settle server Ack (ns_acknowledged_update Suc) st)))"

end
