(* ===== verification/K2_Nats_Laws.thy ===== *)
theory K2_Nats_Laws
  imports K2_Nats
begin

text \<open>
  Laws of the NATS adapters. Subjects: they are read back into their tokens, so an event subject identifies
  tenant, twin, plane and type, and a consumer filter selects exactly the events it names. The consumer:
  what happens to a delivery, by cases; a published event reaches the handler of a consumer of the same
  tenant; and the one kind of delivery that is never settled.
\<close>

section \<open>Subjects\<close>

lemma token_char: "is_token_char c \<Longrightarrow> c \<noteq> CHR ''.'' \<and> c \<noteq> CHR ''*'' \<and> byte c < 128"
proof -
  assume a: "is_token_char c"
  have "is_digit c \<Longrightarrow> byte c < 128"
    by (auto simp: is_digit_def digit_of_def Let_def split: if_splits)
  moreover have "\<not> is_token_char (CHR ''.'')" "\<not> is_token_char (CHR ''*'')"
    by (simp_all add: is_token_char_def is_digit_def digit_of_def)
  ultimately show ?thesis using a by (auto simp: is_token_char_def Let_def)
qed

lemma subject_token_facts:
  assumes "subject_token s"
  shows "CHR ''.'' \<notin> set s" "s \<noteq> ''*''" "utf8_len s \<le> 64"
proof -
  have chars: "\<forall>c \<in> set s. c \<noteq> CHR ''.'' \<and> c \<noteq> CHR ''*'' \<and> byte c < 128"
    using assms token_char unfolding subject_token_def list_all_iff by blast
  then show "CHR ''.'' \<notin> set s" by blast
  show "s \<noteq> ''*''" using chars by (metis list.set_intros(1))
  have "utf8_len s = length s" using chars by (induction s) (simp_all add: utf8_len_def)
  then show "utf8_len s \<le> 64" using assms by (simp add: subject_token_def)
qed

lemma split_join:
  assumes "ts \<noteq> []" "\<forall>t \<in> set ts. c \<notin> set t"
  shows "split_on c (join [c] ts) = ts"
  using assms by (induction "[c]" ts rule: join.induct) (simp_all add: split_on_no_sep split_on_append_sep)

lemma plane_is_token [simp]: "subject_token (plane_text pl)"
  by (cases pl) (simp_all add: subject_token_def is_token_char_def)

lemma nats_token_Inr: "nats_token v n = Inr t \<longleftrightarrow> subject_token v \<and> t = v"
  by (auto simp: nats_token_def)

lemma utf8_len_plane: "utf8_len (plane_text pl) \<le> 13"
  by (cases pl) (simp_all add: utf8_len_def)

text \<open>The bound of 255 bytes can not be met by four tokens of which one is a plane.\<close>

lemma event_subject_Inr:
  "event_subject tenant ev = Inr s \<longleftrightarrow> subject_token tenant \<and> subject_token (twin_id ev) \<and> subject_token (event_type ev)
     \<and> s = join ''.'' [''argo'', ''dt'', tenant, twin_id ev, plane_text (plane ev), event_type ev]"
proof -
  have "utf8_len (join ''.'' [''argo'', ''dt'', tenant, twin_id ev, plane_text (plane ev), event_type ev]) \<le> 255"
    if "subject_token tenant" "subject_token (twin_id ev)" "subject_token (event_type ev)"
    using subject_token_facts(3)[OF that(1)] subject_token_facts(3)[OF that(2)] subject_token_facts(3)[OF that(3)]
      utf8_len_plane[of "plane ev"] by (simp add: utf8_len_def)
  then show ?thesis by (auto simp: event_subject_def bindE_Inr_iff nats_token_Inr bounded_subject_def Let_def simp del: join.simps)
qed

lemma deadletter_subject_Inr:
  "deadletter_subject tenant twin stage = Inr s \<longleftrightarrow> subject_token tenant \<and> subject_token twin \<and> subject_token stage
     \<and> s = join ''.'' [''argo'', ''dt'', tenant, twin, ''deadletter'', stage]"
proof -
  have "utf8_len (join ''.'' [''argo'', ''dt'', tenant, twin, ''deadletter'', stage]) \<le> 255"
    if "subject_token tenant" "subject_token twin" "subject_token stage"
    using subject_token_facts(3)[OF that(1)] subject_token_facts(3)[OF that(2)] subject_token_facts(3)[OF that(3)]
    by (simp add: utf8_len_def)
  then show ?thesis by (auto simp: deadletter_subject_def bindE_Inr_iff nats_token_Inr bounded_subject_def Let_def simp del: join.simps)
qed

lemma split_event_subject:
  assumes "event_subject tenant ev = Inr s"
  shows "split_on CHR ''.'' s = [''argo'', ''dt'', tenant, twin_id ev, plane_text (plane ev), event_type ev]"
  using assms subject_token_facts(1)[of tenant] subject_token_facts(1)[of "twin_id ev"] subject_token_facts(1)[of "event_type ev"]
    subject_token_facts(1)[of "plane_text (plane ev)"]
  unfolding event_subject_Inr by (auto intro!: split_join simp del: join.simps)

lemma event_subject_inject:
  assumes "event_subject t1 e1 = Inr s" "event_subject t2 e2 = Inr s"
  shows "t1 = t2 \<and> twin_id e1 = twin_id e2 \<and> plane e1 = plane e2 \<and> event_type e1 = event_type e2"
  using split_event_subject[OF assms(1)] split_event_subject[OF assms(2)] plane_text_inject by simp

text \<open>How NATS matches a subject against a filter with the one-token wildcard.\<close>

definition subject_matches :: "string \<Rightarrow> string \<Rightarrow> bool" where
  "subject_matches f s \<longleftrightarrow> list_all2 (\<lambda>p t. p = ''*'' \<or> p = t) (split_on CHR ''.'' f) (split_on CHR ''.'' s)"

definition star_or :: "string option \<Rightarrow> string" where
  "star_or v = (case v of None \<Rightarrow> ''*'' | Some s \<Rightarrow> s)"

lemma token_or_star_Inr: "token_or_star v n = Inr t \<longleftrightarrow> t = star_or v \<and> (\<forall>s. v = Some s \<longrightarrow> subject_token s)"
  by (cases v) (auto simp: token_or_star_def star_or_def nats_token_Inr)

lemma star_or_dot: "(\<forall>s. v = Some s \<longrightarrow> subject_token s) \<Longrightarrow> CHR ''.'' \<notin> set (star_or v)"
  by (cases v) (simp_all add: star_or_def subject_token_facts)

lemma star_or_matches: "(\<forall>s. v = Some s \<longrightarrow> subject_token s) \<Longrightarrow> star_or v = ''*'' \<or> star_or v = t \<longleftrightarrow> v = None \<or> v = Some t"
  using subject_token_facts(2) by (cases v) (auto simp: star_or_def)

lemma consumer_filter_Inr:
  assumes "consumer_filter tenant twin pl ty = Inr f"
  shows "subject_token tenant \<and> (\<forall>v \<in> {twin, pl, ty}. \<forall>s. v = Some s \<longrightarrow> subject_token s)
    \<and> split_on CHR ''.'' f = [''argo'', ''dt'', tenant, star_or twin, star_or pl, star_or ty]"
proof -
  have t: "subject_token tenant" "\<forall>v \<in> {twin, pl, ty}. \<forall>s. v = Some s \<longrightarrow> subject_token s"
    "f = join ''.'' [''argo'', ''dt'', tenant, star_or twin, star_or pl, star_or ty]"
    using assms by (auto simp: consumer_filter_def bindE_Inr_iff nats_token_Inr token_or_star_Inr bounded_subject_def Let_def
        simp del: join.simps split: if_splits)
  moreover have "split_on CHR ''.'' f = [''argo'', ''dt'', tenant, star_or twin, star_or pl, star_or ty]"
    unfolding t(3) using t(1,2) star_or_dot subject_token_facts(1)[of tenant] by (intro split_join) auto
  ultimately show ?thesis by blast
qed

lemma filter_selects:
  assumes "consumer_filter tenant twin pl ty = Inr f" "event_subject owner ev = Inr s"
  shows "subject_matches f s \<longleftrightarrow> tenant = owner \<and> twin \<in> {None, Some (twin_id ev)}
    \<and> pl \<in> {None, Some (plane_text (plane ev))} \<and> ty \<in> {None, Some (event_type ev)}"
proof -
  note c = consumer_filter_Inr[OF assms(1)]
  have "tenant \<noteq> ''*''" using c subject_token_facts(2) by blast
  then show ?thesis
    using c split_event_subject[OF assms(2)] star_or_matches[of twin "twin_id ev"] star_or_matches[of pl "plane_text (plane ev)"]
      star_or_matches[of ty "event_type ev"]
    by (auto simp: subject_matches_def)
qed

text \<open>A filter without a plane and a type also selects the dead letters of its tenant.\<close>

lemma filter_selects_deadletters:
  assumes "consumer_filter tenant twin None None = Inr f" "deadletter_subject tenant t stage = Inr s" "twin \<in> {None, Some t}"
  shows "subject_matches f s"
proof -
  have d: "subject_token tenant" "subject_token t" "subject_token stage" "s = join ''.'' [''argo'', ''dt'', tenant, t, ''deadletter'', stage]"
    using assms(2) by (auto simp: deadletter_subject_Inr simp del: join.simps)
  have "split_on CHR ''.'' s = [''argo'', ''dt'', tenant, t, ''deadletter'', stage]"
    unfolding d(4) using d(1-3) subject_token_facts(1) by (intro split_join) auto
  then show ?thesis using consumer_filter_Inr[OF assms(1)] assms(3) by (auto simp: subject_matches_def star_or_def)
qed

section \<open>From the publisher to the handler\<close>

lemma event_message_Inr:
  assumes "event_message H p ev = Inr m"
  shows "1 \<le> sequence ev \<and> verify H ev (previous_hash ev) = Inr ()
    \<and> (\<exists>text. canonical_json (PDict (event_val ev)) = Inr text \<and> nm_data m = utf8_encode text
        \<and> int (length (utf8_encode text)) \<le> np_max_event_bytes p)
    \<and> event_subject (np_tenant p) ev = Inr (nm_subject m)
    \<and> map_of (nm_headers m) ''Nats-Msg-Id'' = Some (event_id ev)"
  using assms by (auto simp: event_message_def bindE_Inr_iff split: if_splits)

lemma event_subject_persisted [simp]: "event_subject t (persisted ev) = event_subject t ev"
  by (simp add: event_subject_def)

lemma published_is_decoded:
  assumes "event_message H p ev = Inr m" "json_event ev" "storable ev" "schema_version ev = ''argo.dt.event/v2''"
    and "np_max_event_bytes p \<le> nc_max_event_bytes c"
  shows "nats_decode H c (nm_data m) = Inr (persisted ev)"
proof -
  note m = event_message_Inr[OF assms(1)]
  have j: "jsonable (PDict (event_val ev))" using assms(2) event_val_jsonable by (auto simp: json_event_def)
  then have d: "nm_data m = utf8_encode (dumps (PDict (event_val ev)))" using m canonical_json_jsonable by auto
  have "int (length (nm_data m)) \<le> nc_max_event_bytes c" using m assms(5) by auto
  moreover have "read_json False (nm_data m) = Inr (PDict (event_val ev))" unfolding d using j by (rule read_json_dumps)
  ultimately show ?thesis
    using m assms(2-4) by (simp add: nats_decode_def event_from_event_val verify_persisted)
qed

section \<open>What happens to a delivery\<close>

lemma act_Inr: "act server a acts = (Inr u, acts') \<longleftrightarrow> server a = Inr () \<and> acts' = acts @ [a]"
  by (auto simp: act_def split: sum.splits)

lemma settle_Inr:
  "settle server a bump (stats, acts) = (Inr u, stats', acts') \<longleftrightarrow> server a = Inr () \<and> stats' = bump stats \<and> acts' = acts @ [a]"
  by (auto simp: settle_def act_def split: sum.splits)

lemma deadletter_Inr:
  "deadletter server c now m ev reason (stats, acts) = (Inr u, stats', acts') \<longleftrightarrow>
     (\<exists>out. deadletter_message c now m ev reason = Inr out \<and> server (Publish out) = Inr () \<and> server Term = Inr ()
        \<and> stats' = ns_deadlettered_update Suc stats \<and> acts' = acts @ [Publish out, Term])"
  by (auto simp: deadletter_def settle_def act_def split: sum.splits)

text \<open>The ways in which \<open>process\<close> can return.\<close>

definition handled :: "(string \<Rightarrow> string) \<Rightarrow> (event \<Rightarrow> consumer_error option) \<Rightarrow> nats_consumer \<Rightarrow> nats_delivery \<Rightarrow> bool" where
  "handled H handler c m \<longleftrightarrow>
     (\<exists>ev. nats_decode H c (nd_data m) = Inr ev \<and> event_subject (nc_tenant c) ev = Inr (nd_subject m) \<and> handler ev = None)"

definition acknowledged_by :: "consumer_state \<Rightarrow> consumer_state \<Rightarrow> bool" where
  "acknowledged_by st st' \<longleftrightarrow> st' = (ns_acknowledged_update Suc (ns_received_update Suc (fst st)), snd st @ [Ack])"

definition retried_by :: "nats_consumer \<Rightarrow> consumer_state \<Rightarrow> consumer_state \<Rightarrow> bool" where
  "retried_by c st st' \<longleftrightarrow> st' = (ns_retried_update Suc (ns_received_update Suc (fst st)), snd st @ [Nak (nc_retry_delay c)])"

definition deadlettered_by ::
  "nats_consumer \<Rightarrow> int \<Rightarrow> nats_delivery \<Rightarrow> event option \<Rightarrow> string \<Rightarrow> (nats_stats \<Rightarrow> nats_stats) \<Rightarrow> consumer_state \<Rightarrow> consumer_state \<Rightarrow> bool" where
  "deadlettered_by c now m ev reason count_bad st st' \<longleftrightarrow>
     (\<exists>out. deadletter_message c now m ev reason = Inr out
        \<and> st' = (ns_deadlettered_update Suc (count_bad (ns_received_update Suc (fst st))), snd st @ [Publish out, Term]))"

definition settled_as ::
  "(string \<Rightarrow> string) \<Rightarrow> (event \<Rightarrow> consumer_error option) \<Rightarrow> nats_consumer \<Rightarrow> int \<Rightarrow> nats_delivery \<Rightarrow> consumer_state \<Rightarrow> consumer_state \<Rightarrow> bool" where
  "settled_as H handler c now m st st' \<longleftrightarrow>
     handled H handler c m \<and> acknowledged_by st st'
   \<or> \<not> handled H handler c m \<and> (delivery_count m < nc_max_deliver c \<and> retried_by c st st'
       \<or> (\<exists>ev. deadlettered_by c now m ev ''INVALID_EVENT'' (ns_malformed_update Suc) st st')
       \<or> nc_max_deliver c \<le> delivery_count m \<and> (\<exists>ev. deadlettered_by c now m ev ''MAX_DELIVER_EXCEEDED'' id st st'))"

lemma consumer_failed_Inr:
  assumes "consumer_failed server c now m ev err (ns_received_update Suc (fst st), snd st) = (Inr u, st')"
  shows "delivery_count m < nc_max_deliver c \<and> retried_by c st st'
       \<or> (\<exists>ev. deadlettered_by c now m ev ''INVALID_EVENT'' (ns_malformed_update Suc) st st')
       \<or> nc_max_deliver c \<le> delivery_count m \<and> (\<exists>ev. deadlettered_by c now m ev ''MAX_DELIVER_EXCEEDED'' id st st')"
proof -
  obtain stats' acts' where st': "st' = (stats', acts')" by (cases st')
  show ?thesis
    using assms unfolding st'
    by (auto simp: consumer_failed_def settle_Inr deadletter_Inr retried_by_def deadlettered_by_def not_le split: if_splits)
qed

theorem process_settles:
  assumes "nats_process H server handler c now m st = (Inr u, st')"
  shows "settled_as H handler c now m st st'"
proof (cases "handled H handler c m")
  case True
  then obtain ev where "nats_decode H c (nd_data m) = Inr ev" "event_subject (nc_tenant c) ev = Inr (nd_subject m)" "handler ev = None"
    by (auto simp: handled_def)
  then show ?thesis
    using assms True by (cases st') (simp add: nats_process_def settle_Inr settled_as_def acknowledged_by_def)
next
  case False
  then have "\<exists>ev err. consumer_failed server c now m ev err (ns_received_update Suc (fst st), snd st) = (Inr u, st')"
    using assms unfolding nats_process_def handled_def Let_def
    by (auto split: sum.splits option.splits if_splits)
  then show ?thesis using consumer_failed_Inr False unfolding settled_as_def by blast
qed

text \<open>A delivery that is not handled cannot be acknowledged, whatever the server does.\<close>

lemma deadletter_acts:
  "deadletter server c now m ev reason (stats, acts) = (r, stats', acts') \<Longrightarrow>
     acts' = acts \<or> (\<exists>out. deadletter_message c now m ev reason = Inr out \<and> (acts' = acts @ [Publish out] \<or> acts' = acts @ [Publish out, Term]))"
  by (auto simp: deadletter_def settle_def act_def split: sum.splits)

lemma failed_acts:
  assumes "consumer_failed server c now m ev err (stats, acts) = (r, stats', acts')"
  shows "\<exists>new. acts' = acts @ new \<and> Ack \<notin> set new
    \<and> (\<forall>out. Publish out \<in> set new \<longrightarrow>
        (\<exists>reason \<in> {''INVALID_EVENT'', ''MAX_DELIVER_EXCEEDED''}. deadletter_message c now m ev reason = Inr out))"
  using assms
  by (auto simp: consumer_failed_def settle_def act_def split: sum.splits if_splits dest!: deadletter_acts)

theorem process_acts:
  assumes "nats_process H server handler c now m (stats, acts) = (r, stats', acts')"
  shows "\<exists>new. acts' = acts @ new \<and> (Ack \<in> set new \<longrightarrow> handled H handler c m)
    \<and> (\<forall>out. Publish out \<in> set new \<longrightarrow>
        (\<exists>ev. \<exists>reason \<in> {''INVALID_EVENT'', ''MAX_DELIVER_EXCEEDED''}. deadletter_message c now m ev reason = Inr out))"
proof (cases "handled H handler c m")
  case True
  then obtain ev where "nats_decode H c (nd_data m) = Inr ev" "event_subject (nc_tenant c) ev = Inr (nd_subject m)" "handler ev = None"
    by (auto simp: handled_def)
  then show ?thesis
    using assms True by (auto simp: nats_process_def settle_def act_def split: sum.splits)
next
  case False
  then obtain ev err where "consumer_failed server c now m ev err (ns_received_update Suc stats, acts) = (r, stats', acts')"
    using assms unfolding nats_process_def handled_def Let_def
    by (auto split: sum.splits option.splits if_splits)
  from failed_acts[OF this] obtain new where n: "acts' = acts @ new" "Ack \<notin> set new"
    "\<And>out. Publish out \<in> set new \<Longrightarrow>
        \<exists>reason \<in> {''INVALID_EVENT'', ''MAX_DELIVER_EXCEEDED''}. deadletter_message c now m ev reason = Inr out" by blast
  then show ?thesis by (intro exI[of _ new]) blast
qed

section \<open>Dead letters\<close>

lemma deadletter_marker_jsonable: "jsonable (PDict (deadletter_marker c now m ev reason))"
  by (simp add: deadletter_marker_def)

lemma deadletter_read:
  assumes "deadletter_message c now m ev reason = Inr out"
  shows "read_json False (nm_data out) = Inr (PDict (deadletter_marker c now m ev reason))"
    "deadletter_subject (nc_tenant c) (case ev of None \<Rightarrow> ''unknown'' | Some e \<Rightarrow> twin_id e) (nc_stage c) = Inr (nm_subject out)"
  using assms canonical_json_jsonable[OF deadletter_marker_jsonable[of c now m ev reason]]
    read_json_dumps[OF deadletter_marker_jsonable[of c now m ev reason]]
  by (auto simp: deadletter_message_def bindE_Inr_iff)

section \<open>When a delivery is settled\<close>

definition consumer_ok :: "nats_consumer \<Rightarrow> bool" where
  "consumer_ok c \<longleftrightarrow> 1 \<le> nc_max_deliver c \<and> 0 \<le> nc_retry_delay c \<and> 1024 \<le> nc_max_event_bytes c
     \<and> subject_token (nc_tenant c) \<and> subject_token (nc_stage c)"

lemma make_consumer_ok: "make_consumer tenant stage n delay b = Inr c \<Longrightarrow> consumer_ok c"
  by (auto simp: make_consumer_def bindE_Inr_iff deadletter_subject_Inr consumer_ok_def simp del: join.simps split: if_splits)

lemma deadletter_message_ok:
  assumes "consumer_ok c" "\<forall>e. ev = Some e \<longrightarrow> subject_token (twin_id e)"
  shows "\<exists>out. deadletter_message c now m ev reason = Inr out"
proof -
  have "subject_token ''unknown''" by (simp add: subject_token_def is_token_char_def)
  then have "\<exists>s. deadletter_subject (nc_tenant c) (case ev of None \<Rightarrow> ''unknown'' | Some e \<Rightarrow> twin_id e) (nc_stage c) = Inr s"
    using assms by (auto simp: deadletter_subject_Inr consumer_ok_def simp del: join.simps split: option.split)
  then show ?thesis
    using canonical_json_jsonable[OF deadletter_marker_jsonable] by (auto simp: deadletter_message_def)
qed

text \<open>The event that names a twin no subject can name: its delivery ends in an exception and stays unsettled.\<close>

definition unroutable :: "(string \<Rightarrow> string) \<Rightarrow> nats_consumer \<Rightarrow> nats_delivery \<Rightarrow> bool" where
  "unroutable H c m \<longleftrightarrow> (\<exists>ev. nats_decode H c (nd_data m) = Inr ev \<and> \<not> subject_token (twin_id ev))"

lemma consumer_failed_returns:
  assumes "consumer_ok c" "\<forall>a. server a = Inr ()" "\<forall>e. ev = Some e \<longrightarrow> subject_token (twin_id e)" "err \<noteq> Failed OutOfModel"
  shows "fst (consumer_failed server c now m ev err st) = Inr ()"
proof -
  have dl: "fst (deadletter server c now m ev reason st') = Inr ()" for reason st'
  proof -
    obtain out where "deadletter_message c now m ev reason = Inr out" using deadletter_message_ok[OF assms(1,3)] by blast
    then show ?thesis using assms(2) by (simp add: deadletter_def settle_def act_def)
  qed
  show ?thesis
    using assms(2,4) by (cases st) (simp add: consumer_failed_def dl settle_def act_def)
qed

theorem unroutable_unsettled:
  assumes "unroutable H c m" "consumer_ok c"
  shows "\<exists>msg. nats_process H server handler c now m (stats, acts) =
    (Inl (ProtocolViolation msg), ns_malformed_update Suc (ns_received_update Suc stats), acts)"
proof -
  obtain ev where ev: "nats_decode H c (nd_data m) = Inr ev" "\<not> subject_token (twin_id ev)" using assms(1) by (auto simp: unroutable_def)
  then show ?thesis
    using assms(2)
    by (auto simp: nats_process_def event_subject_def nats_token_def consumer_ok_def consumer_failed_def deadletter_def
        deadletter_message_def deadletter_subject_def)
qed

theorem process_returns:
  assumes "consumer_ok c" "\<forall>a. server a = Inr ()" "\<not> unroutable H c m"
    and "nats_decode H c (nd_data m) \<noteq> Inl OutOfModel" "\<forall>ev. handler ev \<noteq> Some (Failed OutOfModel)"
  shows "fst (nats_process H server handler c now m st) = Inr ()"
proof (cases "nats_decode H c (nd_data m)")
  case (Inl err)
  then show ?thesis using assms consumer_failed_returns[of c server None "Failed err" now m] by (simp add: nats_process_def)
next
  case (Inr ev)
  have tok: "\<forall>e. Some ev = Some e \<longrightarrow> subject_token (twin_id e)" using assms(3) Inr by (auto simp: unroutable_def)
  have sv: "server = (\<lambda>_. Inr ())" using assms(2) by auto
  note failed = consumer_failed_returns[OF assms(1,2) tok, unfolded sv]
  show ?thesis
  proof (cases "event_subject (nc_tenant c) ev")
    case (Inl err)
    moreover have "err \<noteq> OutOfModel"
      using Inl by (auto simp: event_subject_def bindE_Inl_iff nats_token_def bounded_subject_def Let_def split: if_splits)
    ultimately show ?thesis using failed[of "Failed err"] Inr by (simp add: nats_process_def sv)
  next
    case (Inr s)
    then show ?thesis
      using failed \<open>nats_decode H c (nd_data m) = Inr ev\<close> assms(5)[rule_format, of ev]
      by (cases st; cases "handler ev") (auto simp: sv nats_process_def settle_def act_def Let_def)
  qed
qed

end
