(* ===== verification/K2_Telemetry.thy ===== *)
theory K2_Telemetry
  imports K2_Commands K2_Session K2_Json_Reader
begin

text \<open>
  \<open>src/src/argo_dt/adapters/telemetry.py\<close>: the check of one telemetry record, the decoding of its payload, and
  the processing of a batch over the application service. Bytes are hashed by the parameter \<open>sha\<close>
  (\<open>hashlib.sha256(payload).hexdigest()\<close>); each record has its own readings of the clock. Between two calls of the
  service no other task is scheduled. Shown here: the walk over a decoded payload accepts exactly the values
  within the limits of nodes and depth, and an accepted payload is JSON data in canonical form.
\<close>

section \<open>Input\<close>

record telemetry_record =
  tr_source_record_id :: string
  tr_valid_from :: datetime
  tr_valid_until :: "datetime option"
  tr_media_type :: string
  tr_payload :: string
  tr_content_hash :: string
  tr_independence_group :: string
  tr_sensitivity :: string
  tr_rights :: pydict

record telemetry_batch =
  tb_twin_id :: string
  tb_subject_id :: string
  tb_source :: string
  tb_connector_version :: string
  tb_idempotency_key :: string
  tb_expected_sequence :: int
  tb_records :: "telemetry_record list"

section \<open>The shape of a payload\<close>

fun children :: "pyval \<Rightarrow> pyval list" where
  "children (PDict d) = map snd d"
| "children (PList xs) = xs"
| "children _ = []"

fun nodes :: "pyval \<Rightarrow> nat" where
  "nodes (PDict d) = Suc (sum_list (map (\<lambda>(k, v). nodes v) d))"
| "nodes (PList xs) = Suc (sum_list (map nodes xs))"
| "nodes _ = 1"

lemma nodes_children: "nodes v = Suc (sum_list (map nodes (children v)))"
  by (cases v) (simp_all add: case_prod_unfold comp_def)

lemma sum_children: "sum_list (map nodes (children v)) < nodes v"
  using nodes_children[of v] by simp

definition max_json_depth :: nat where
  "max_json_depth = 64"

definition max_json_nodes :: nat where
  "max_json_nodes = 100000"

text \<open>The stack of pending values, its top first; \<open>extend\<close> leaves the last child on top.\<close>

function shape_loop :: "nat \<Rightarrow> (pyval \<times> nat) list \<Rightarrow> unit result" where
  "shape_loop visited [] = Inr ()"
| "shape_loop visited ((v, depth) # pending) =
     (if max_json_nodes < visited + 1 then Inl (ValueError ''JSON node limit exceeded'')
      else if max_json_depth < depth then Inl (ValueError ''JSON depth limit exceeded'')
      else shape_loop (visited + 1) (rev (map (\<lambda>x. (x, depth + 1)) (children v)) @ pending))"
  by pat_completeness auto
termination
  by (relation "measure (\<lambda>(n, st). sum_list (map (nodes \<circ> fst) st))") (auto simp: sum_children rev_map[symmetric] sum_list_rev comp_def)

definition validate_json_shape :: "pyval \<Rightarrow> unit result" where
  "validate_json_shape v = shape_loop 0 [(v, 1)]"

section \<open>One record\<close>

text \<open>\<open>str.lower\<close> for code points below 256.\<close>

definition lower_char :: "char \<Rightarrow> char" where
  "lower_char c = (let n = byte c in
     if (65 \<le> n \<and> n \<le> 90) \<or> (192 \<le> n \<and> n \<le> 222 \<and> n \<noteq> 215) then char_of (n + 32) else c)"

definition base_media_type :: "string \<Rightarrow> string" where
  "base_media_type media = map lower_char (py_strip (takeWhile (\<lambda>c. c \<noteq> CHR '';'') media))"

definition decode_json_payload :: "(string \<Rightarrow> string) \<Rightarrow> telemetry_record \<Rightarrow> pydict result" where
  "decode_json_payload sha r =
     (let media = base_media_type (tr_media_type r) in
      if media \<noteq> ''application/json'' \<and> \<not> suffix ''+json'' media then violation ''UNSUPPORTED_MEDIA_TYPE''
      else if \<not> hash_pattern (tr_content_hash r) then violation ''INVALID_CONTENT_HASH''
      else if ''sha256:'' @ sha (tr_payload r) \<noteq> tr_content_hash r then violation ''CONTENT_HASH_MISMATCH''
      else bindE (instead (InvariantViolation ''INVALID_JSON_PAYLOAD'') (read_json True (tr_payload r))) (\<lambda>v.
        case v of
          PDict d \<Rightarrow>
            bindE (instead (InvariantViolation ''INVALID_JSON_SHAPE'') (validate_json_shape v)) (\<lambda>_. Inr d)
        | _ \<Rightarrow> violation ''JSON_PAYLOAD_MUST_BE_OBJECT''))"

text \<open>\<open>_validate_record\<close>; the rights are a mapping by their type.\<close>

definition validate_record :: "(string \<Rightarrow> string) \<Rightarrow> telemetry_record \<Rightarrow> pydict result" where
  "validate_record sha r =
     (if tr_source_record_id r = [] \<or> 512 < length (tr_source_record_id r) then violation ''INVALID_SOURCE_RECORD_ID''
      else if tr_independence_group r = [] \<or> 512 < length (tr_independence_group r)
      then violation ''INVALID_INDEPENDENCE_GROUP''
      else if naive (tr_valid_from r) then violation ''INVALID_VALID_FROM''
      else bindE (case tr_valid_until r of
          None \<Rightarrow> Inr False
        | Some u \<Rightarrow> if naive u then Inr True else dt_less u (tr_valid_from r)) (\<lambda>bad.
        if bad then violation ''INVALID_VALID_UNTIL''
        else bindE (instead (InvariantViolation ''INVALID_SENSITIVITY'') (sensitivity_of (tr_sensitivity r))) (\<lambda>_.
          decode_json_payload sha r)))"

section \<open>A batch\<close>

definition validate_batch_header :: "telemetry_batch \<Rightarrow> unit result" where
  "validate_batch_header b =
     (if list_ex (\<lambda>s. s = [] \<or> 512 < length s)
           [tb_twin_id b, tb_subject_id b, tb_source b, tb_connector_version b, tb_idempotency_key b]
      then protocol_error ''telemetry batch identity is invalid''
      else if tb_expected_sequence b < 0 then protocol_error ''expected_sequence cannot be negative''
      else if \<not> distinct (map tr_source_record_id (tb_records b))
      then protocol_error ''source_record_id must be unique within a batch''
      else Inr ())"

definition record_idempotency_key :: "(string \<Rightarrow> string) \<Rightarrow> telemetry_batch \<Rightarrow> telemetry_record \<Rightarrow> string" where
  "record_idempotency_key uuid5 b r =
     ''telemetry:'' @ uuid5 (''argo-dt-telemetry:'' @
       dumps (PList [PStr (tb_twin_id b), PStr (tb_idempotency_key b), PStr (tr_source_record_id r)]))"

definition rejected_ack :: "int \<Rightarrow> string \<Rightarrow> string \<Rightarrow> bool \<Rightarrow> record_ack result" where
  "rejected_ack i ident code retryable =
     make_record_ack \<lparr>ra_record_index = i,
       ra_source_record_id = (if ident = [] then ''invalid-'' @ show_int i else ident), ra_status = REJECTED,
       ra_event_id = None, ra_sequence = None, ra_error_code = Some code, ra_retryable = retryable\<rparr>"

definition is_code_char :: "char \<Rightarrow> bool" where
  "is_code_char c \<longleftrightarrow> (65 \<le> byte c \<and> byte c \<le> 90) \<or> is_digit c \<or> c = CHR ''_''"

text \<open>The regular expression \<open>[A-Z][A-Z0-9_]{2,63}\<close>, matched in full.\<close>

definition error_code :: "string \<Rightarrow> bool" where
  "error_code s \<longleftrightarrow> 3 \<le> length s \<and> length s \<le> 64 \<and> 65 \<le> byte (hd s) \<and> byte (hd s) \<le> 90 \<and> list_all is_code_char s"

text \<open>\<open>except (InvariantViolation, ValueError)\<close>: the code of the record, if the exception is one of these.\<close>

fun record_error :: "error \<Rightarrow> string option" where
  "record_error (InvariantViolation m) = Some (if error_code m then m else ''INVALID_RECORD'')"
| "record_error (ValueError m) = Some (if error_code m then m else ''INVALID_RECORD'')"
| "record_error _ = None"

text \<open>The guarded part: the head before the write and the event the service returned.\<close>

definition ingest_record ::
  "(string \<Rightarrow> string) \<Rightarrow> (string \<Rightarrow> string) \<Rightarrow> (string \<Rightarrow> string) \<Rightarrow> service_config \<Rightarrow> readings \<Rightarrow> actor \<Rightarrow> telemetry_batch
     \<Rightarrow> telemetry_record \<Rightarrow> int \<Rightarrow> (int \<times> event) step" where
  "ingest_record H sha uuid5 cf rd a b r expected =
     andS (doneS (validate_record sha r)) (\<lambda>body.
     andS (readS (\<lambda>db. Inr (fst (head db (tb_twin_id b))))) (\<lambda>before.
     andS (doneS (sensitivity_of (tr_sensitivity r))) (\<lambda>level.
     andS (ingest_evidence H uuid5 cf rd (tb_twin_id b) (tb_subject_id b) (tb_source b) (tr_source_record_id r) body (tr_rights r)
        level (tr_valid_from r) (tr_valid_until r) (tr_independence_group r) (Some (tb_connector_version b))
        (Some (tr_media_type r)) (Some (tr_content_hash r)) expected (record_idempotency_key uuid5 b r) a) (\<lambda>ev.
     doneS (Inr (before, ev))))))"

definition stored_ack :: "int \<Rightarrow> telemetry_record \<Rightarrow> int \<Rightarrow> event \<Rightarrow> record_ack result" where
  "stored_ack i r before ev =
     make_record_ack \<lparr>ra_record_index = i, ra_source_record_id = tr_source_record_id r,
       ra_status = (if sequence ev \<le> before then DUPLICATE else COMMITTED), ra_event_id = Some (event_id ev),
       ra_sequence = Some (sequence ev), ra_error_code = None, ra_retryable = False\<rparr>"

definition conflict_code :: string where
  "conflict_code = ''CONCURRENCY_CONFLICT''"

text \<open>
  The loop over the records: \<open>i\<close> is the index, \<open>expected\<close> and \<open>blocked\<close> are the variables of the loop.
  An acknowledgement is made before the next record is looked at.
\<close>

definition consS :: "'a result \<Rightarrow> 'a list step \<Rightarrow> 'a list step" where
  "consS x m = andS (doneS x) (\<lambda>v. andS m (\<lambda>vs. doneS (Inr (v # vs))))"

fun telemetry_loop ::
  "(string \<Rightarrow> string) \<Rightarrow> (string \<Rightarrow> string) \<Rightarrow> (string \<Rightarrow> string) \<Rightarrow> service_config \<Rightarrow> (nat \<Rightarrow> readings) \<Rightarrow> actor \<Rightarrow> telemetry_batch
     \<Rightarrow> nat \<Rightarrow> int \<Rightarrow> bool \<Rightarrow> telemetry_record list \<Rightarrow> record_ack list step" where
  "telemetry_loop H sha uuid5 cf rds a b i expected blocked [] sv = (Inr [], sv)"
| "telemetry_loop H sha uuid5 cf rds a b i expected blocked (r # rs) sv =
     (if blocked
      then consS (rejected_ack (int i) (tr_source_record_id r) conflict_code True)
        (telemetry_loop H sha uuid5 cf rds a b (Suc i) expected True rs) sv
      else (case ingest_record H sha uuid5 cf (rds i) a b r expected sv of
          (Inl (ConcurrencyConflict _), sv1) \<Rightarrow>
            consS (rejected_ack (int i) (tr_source_record_id r) conflict_code True)
              (telemetry_loop H sha uuid5 cf rds a b (Suc i) expected True rs) sv1
        | (Inl err, sv1) \<Rightarrow>
            (case record_error err of
               None \<Rightarrow> (Inl err, sv1)
             | Some code \<Rightarrow>
                 consS (rejected_ack (int i) (tr_source_record_id r) code False)
                   (telemetry_loop H sha uuid5 cf rds a b (Suc i) expected False rs) sv1)
        | (Inr (before, ev), sv1) \<Rightarrow>
            consS (stored_ack (int i) r before ev)
              (telemetry_loop H sha uuid5 cf rds a b (Suc i) (max expected (sequence ev)) False rs) sv1))"

definition telemetry_process ::
  "(string \<Rightarrow> string) \<Rightarrow> (string \<Rightarrow> string) \<Rightarrow> (string \<Rightarrow> string) \<Rightarrow> service_config \<Rightarrow> sync_limits \<Rightarrow> cursor_ops option \<Rightarrow> int
     \<Rightarrow> (nat \<Rightarrow> readings) \<Rightarrow> actor \<Rightarrow> telemetry_batch \<Rightarrow> pyval list \<Rightarrow> pyval \<Rightarrow> stream_ack step" where
  "telemetry_process H sha uuid5 cf limits codec now rds a b sizes whole =
     andS (check (length sizes = length (tb_records b))
       (ProtocolViolation ''serialized record sizes must correspond to every telemetry record'')) (\<lambda>_.
     andS (doneS (validate_batch limits sizes whole)) (\<lambda>_.
     andS (doneS (validate_batch_header b)) (\<lambda>_.
     case codec of
       None \<Rightarrow> doneS (violation ''telemetry ingestion requires a cursor signer'')
     | Some co \<Rightarrow>
         andS (telemetry_loop H sha uuid5 cf rds a b 0 (tb_expected_sequence b) False (tb_records b)) (\<lambda>acks.
         andS (readS (\<lambda>db. Inr (head db (tb_twin_id b)))) (\<lambda>(n, h).
         andS (doneS (make_position (tb_twin_id b) n h)) (\<lambda>p.
         doneS (make_stream_ack \<lparr>sk_twin_id = tb_twin_id b, sk_idempotency_key = tb_idempotency_key b,
           sk_committed_sequence = n, sk_records = acks, sk_resume_token = co_issue co now p\<rparr>)))))))"

section \<open>The walk accepts what is within the limits\<close>

fun height :: "pyval \<Rightarrow> nat" where
  "height (PDict d) = Suc (fold max (map (\<lambda>(k, v). height v) d) 0)"
| "height (PList xs) = Suc (fold max (map height xs) 0)"
| "height _ = 1"

lemma fold_max_le: "fold max xs m \<le> n \<longleftrightarrow> m \<le> n \<and> (\<forall>x \<in> set xs. x \<le> (n::nat))"
  by (induction xs arbitrary: m) auto

lemma height_le: "height v \<le> Suc n \<longleftrightarrow> (\<forall>x \<in> set (children v). height x \<le> n)"
  by (cases v) (auto simp: fold_max_le)

lemma height_pos: "1 \<le> height v"
  by (cases v) simp_all

lemma shape_loop_Inr:
  "visited \<le> max_json_nodes \<Longrightarrow> shape_loop visited st = Inr () \<longleftrightarrow>
     visited + sum_list (map (nodes \<circ> fst) st) \<le> max_json_nodes \<and> (\<forall>(v, d) \<in> set st. height v + d \<le> Suc max_json_depth)"
proof (induction visited st rule: shape_loop.induct)
  case (2 visited v depth pending)
  show ?case
  proof (cases "visited + 1 \<le> max_json_nodes \<and> depth \<le> max_json_depth")
    case True
    have h: "height v + depth \<le> Suc max_json_depth \<longleftrightarrow> (\<forall>x \<in> set (children v). height x + Suc depth \<le> Suc max_json_depth)"
      using True height_le[of v "max_json_depth - depth"] by (auto simp: Suc_diff_le le_diff_conv2)
    have "shape_loop visited ((v, depth) # pending) = shape_loop (visited + 1) (rev (map (\<lambda>x. (x, depth + 1)) (children v)) @ pending)"
      using True by simp
    also have "\<dots> = Inr () \<longleftrightarrow> visited + 1 + sum_list (map (nodes \<circ> fst) (rev (map (\<lambda>x. (x, depth + 1)) (children v)) @ pending)) \<le> max_json_nodes
        \<and> (\<forall>(v, d) \<in> set (rev (map (\<lambda>x. (x, depth + 1)) (children v)) @ pending). height v + d \<le> Suc max_json_depth)"
      using True by (intro 2) auto
    finally show ?thesis
      unfolding h[symmetric] set_rev set_map set_append ball_Un list.set ball_simps prod.case
      by (simp add: h ball_Un nodes_children[of v] rev_map[symmetric] sum_list_rev comp_def add.assoc)
  next
    case False
    have "1 \<le> nodes v" by (simp add: nodes_children)
    then show ?thesis using False height_pos[of v] by auto
  qed
qed simp

theorem shape_within_limits:
  "validate_json_shape v = Inr () \<longleftrightarrow> nodes v \<le> max_json_nodes \<and> height v \<le> max_json_depth"
  using shape_loop_Inr[of 0 "[(v, 1)]"] by (simp add: validate_json_shape_def)

lemma object_Inr: "(case v of PDict d \<Rightarrow> f d | _ \<Rightarrow> violation m) = Inr x \<longleftrightarrow> (\<exists>d. v = PDict d \<and> f d = Inr x)"
  by (cases v) (simp_all add: violation_def)

lemma payload_Inr:
  assumes "validate_record sha r = Inr body"
  shows "jsonable (PDict body) \<and> nodes (PDict body) \<le> max_json_nodes \<and> height (PDict body) \<le> max_json_depth
    \<and> ''sha256:'' @ sha (tr_payload r) = tr_content_hash r \<and> read_json True (tr_payload r) = Inr (PDict body)
    \<and> \<not> naive (tr_valid_from r)"
  using assms read_json_jsonable[of "tr_payload r" "PDict body"]
  by (auto simp: validate_record_def decode_json_payload_def bindE_Inr_iff object_Inr shape_within_limits Let_def
      simp del: height.simps nodes.simps jsonable.simps split: if_splits)

end
