(* ===== verification/K2_Telemetry_Laws.thy ===== *)
theory K2_Telemetry_Laws
  imports K2_Telemetry K2_Facade_Admission
begin

text \<open>
  Laws of telemetry ingestion. Whatever happens to a batch, the service stays sound and its streams only grow. A
  batch that is answered has one acknowledgement per record, in order: a committed record names an event of
  the stream that the batch added, a duplicate an event of the stream, and from the first conflict on
  everything is rejected as retryable without touching the service.
\<close>

section \<open>Streams only grow\<close>

definition grows :: "string \<Rightarrow> db \<Rightarrow> db \<Rightarrow> bool" where
  "grows twin db db' \<longleftrightarrow> (\<exists>new. stream db' twin = stream db twin @ new)"

lemma grows_refl [simp]: "grows twin db db"
  by (simp add: grows_def)

lemma grows_trans: "grows twin a b \<Longrightarrow> grows twin b c \<Longrightarrow> grows twin a c"
  by (auto simp: grows_def)

lemma grows_set: "grows twin db db' \<Longrightarrow> set (stream db twin) \<subseteq> set (stream db' twin)"
  by (auto simp: grows_def)

lemma sound_grows:
  assumes "sound_after H cf rd ev n db sv" "db_inv H db" "event_fit rd ev"
  shows "grows twin db (sv_db sv)"
proof -
  from assms(1) consider "db_events (sv_db sv) = db_events db"
    | out db1 where "append H (rd_append rd) ev n db = Inr (out, db1)" "db_events (sv_db sv) = db_events db1"
    by (auto simp: sound_after_def wrote_def)
  then show ?thesis
  proof cases
    case 1
    then show ?thesis using same_events(1)[OF 1, THEN fun_cong, of twin] by (simp add: grows_def)
  next
    case 2
    then show ?thesis
      using append_stream[OF 2(1) assms(2) event_fit_admissible[OF assms(3)], of twin] same_events(1)[OF 2(2), THEN fun_cong, of twin]
      by (auto simp: grows_def)
  qed
qed

section \<open>One record\<close>

definition clocks_ok :: "(nat \<Rightarrow> readings) \<Rightarrow> bool" where
  "clocks_ok rds \<longleftrightarrow> (\<forall>i. storable_time (utc (rd_append (rds i))) \<and> storable_time (utc (rd_snapshot (rds i))))"

definition record_fit :: "telemetry_record \<Rightarrow> bool" where
  "record_fit r \<longleftrightarrow> jsonable (PDict (tr_rights r)) \<and> valid_dt (tr_valid_from r)"

lemma ingest_record_sound:
  assumes "ingest_record H sha uuid5 cf (rds i) a b r expected sv = (res, sv')" "service_ok H cf sv" "replays H (sv_db sv)"
    and "clocks_ok rds" "record_fit r"
  shows "service_ok H cf sv' \<and> replays H (sv_db sv') \<and> grows (tb_twin_id b) (sv_db sv) (sv_db sv')"
proof (cases "validate_record sha r")
  case (Inl err)
  then show ?thesis using assms by (simp add: ingest_record_def andS_simp doneS_def)
next
  case (Inr body)
  note p = payload_Inr[OF Inr]
  show ?thesis
  proof (cases "sensitivity_of (tr_sensitivity r)")
    case (Inl err)
    then show ?thesis using assms Inr by (simp add: ingest_record_def andS_simp doneS_def readS_def)
  next
    case level: (Inr level)
    obtain w sv1 where i: "ingest_evidence H uuid5 cf (rds i) (tb_twin_id b) (tb_subject_id b) (tb_source b) (tr_source_record_id r) body (tr_rights r)
        level (tr_valid_from r) (tr_valid_until r) (tr_independence_group r) (Some (tb_connector_version b))
        (Some (tr_media_type r)) (Some (tr_content_hash r)) expected (record_idempotency_key uuid5 b r) a sv = (w, sv1)" by fastforce
    then have sv': "sv' = sv1"
      using assms(1) Inr level by (cases w) (auto simp: ingest_record_def andS_simp doneS_def readS_def)
    have json: "jsonable (PDict body)" "jsonable (PDict (tr_rights r))" "storable_time (tr_valid_from r)"
      "storable_time (utc (rd_append (rds i)))" "storable_time (utc (rd_snapshot (rds i)))"
      using p assms(4,5) by (simp_all only: record_fit_def clocks_ok_def storable_time_def simp_thms)
    from i assms(2) json show ?thesis
    proof (cases rule: ingest_cases)
      case (appended ev sv2)
      have inv: "db_inv H (sv_db sv)" by (rule service_db_inv[OF assms(2)])
      have "sound_after H cf (rds i) ev expected (sv_db sv) sv1"
        using service_append_law[OF appended(2) _ appended(4,1)] assms(3) appended(3) by simp
      then show ?thesis using sound_grows[OF _ inv appended(4)] sv' by (auto simp: sound_after_def)
    qed (use assms(3) sv' in simp)
  qed
qed

lemma ingest_record_stored:
  assumes "ingest_record H sha uuid5 cf (rds i) a b r expected sv = (Inr (before, out), sv')" "service_ok H cf sv" "replays H (sv_db sv)"
    and "clocks_ok rds" "record_fit r"
  shows "\<exists>e \<in> set (stream (sv_db sv') (tb_twin_id b)). event_id e = event_id out \<and> sequence e = sequence out
    \<and> idempotency_key e = record_idempotency_key uuid5 b r
    \<and> map_of (payload e) ''evidence_id'' = Some (PStr (uuid5 (tb_twin_id b @ '':'' @ tb_subject_id b @ '':'' @ tb_source b @ '':'' @ tr_source_record_id r)))
    \<and> (sequence out \<le> before \<longleftrightarrow> e \<in> set (stream (sv_db sv) (tb_twin_id b)))"
proof -
  from assms(1) obtain body level where v: "validate_record sha r = Inr body" "sensitivity_of (tr_sensitivity r) = Inr level"
    and before: "before = fst (head (sv_db sv) (tb_twin_id b))"
    and i: "ingest_evidence H uuid5 cf (rds i) (tb_twin_id b) (tb_subject_id b) (tb_source b) (tr_source_record_id r) body (tr_rights r)
        level (tr_valid_from r) (tr_valid_until r) (tr_independence_group r) (Some (tb_connector_version b))
        (Some (tr_media_type r)) (Some (tr_content_hash r)) expected (record_idempotency_key uuid5 b r) a sv = (Inr out, sv')"
    unfolding ingest_record_def by (auto simp: readS_def dest!: current_step)
  have json: "jsonable (PDict body)" "jsonable (PDict (tr_rights r))" "storable_time (tr_valid_from r)"
    "storable_time (utc (rd_append (rds i)))" "storable_time (utc (rd_snapshot (rds i)))"
    using payload_Inr[OF v(1)] assms(4,5) by (simp_all only: record_fit_def clocks_ok_def storable_time_def simp_thms)
  show ?thesis by (rule ingest_stored[OF i assms(2,3) json]) (use before in auto)
qed

section \<open>The records of a batch\<close>

text \<open>What an acknowledgement says of its record, given the stream before the batch and after it.\<close>

definition accounts_for :: "(string \<Rightarrow> string) \<Rightarrow> telemetry_batch \<Rightarrow> event list \<Rightarrow> event list \<Rightarrow> telemetry_record \<Rightarrow> record_ack \<Rightarrow> bool" where
  "accounts_for uuid5 b old all r ack \<longleftrightarrow>
     (ra_status ack \<noteq> record_status.REJECTED \<longrightarrow>
       ra_source_record_id ack = tr_source_record_id r \<and> \<not> ra_retryable ack \<and> ra_error_code ack = None
       \<and> (\<exists>e \<in> set all. ra_event_id ack = Some (event_id e) \<and> ra_sequence ack = Some (sequence e)
           \<and> idempotency_key e = record_idempotency_key uuid5 b r
           \<and> map_of (payload e) ''evidence_id''
               = Some (PStr (uuid5 (tb_twin_id b @ '':'' @ tb_subject_id b @ '':'' @ tb_source b @ '':'' @ tr_source_record_id r)))
           \<and> (ra_status ack = COMMITTED \<longrightarrow> e \<notin> set old)))
   \<and> (ra_status ack = record_status.REJECTED \<longrightarrow> (\<exists>code. ra_error_code ack = Some code \<and> code \<noteq> []))"

lemma accounts_for_mono: "accounts_for uuid5 b old all r ack \<Longrightarrow> set all \<subseteq> set all' \<Longrightarrow> accounts_for uuid5 b old all' r ack"
  by (auto simp: accounts_for_def)

lemma accounts_for_later: "accounts_for uuid5 b old' all r ack \<Longrightarrow> set old \<subseteq> set old' \<Longrightarrow> accounts_for uuid5 b old all r ack"
  by (auto simp: accounts_for_def)

lemma rejected_ack_Inr:
  "rejected_ack i ident code retry = Inr ack \<longleftrightarrow> 0 \<le> i \<and> code \<noteq> [] \<and>
     ack = \<lparr>ra_record_index = i, ra_source_record_id = (if ident = [] then ''invalid-'' @ show_int i else ident), ra_status = record_status.REJECTED,
       ra_event_id = None, ra_sequence = None, ra_error_code = Some code, ra_retryable = retry\<rparr>"
  by (auto simp: rejected_ack_def make_record_ack_def protocol_error_def no_text_def)

lemma stored_ack_Inr:
  "stored_ack i r before ev = Inr ack \<Longrightarrow>
     ack = \<lparr>ra_record_index = i, ra_source_record_id = tr_source_record_id r,
       ra_status = (if sequence ev \<le> before then DUPLICATE else COMMITTED), ra_event_id = Some (event_id ev),
       ra_sequence = Some (sequence ev), ra_error_code = None, ra_retryable = False\<rparr>"
  by (auto simp: stored_ack_def make_record_ack_def protocol_error_def split: if_splits)

lemma record_error_code: "record_error err = Some code \<Longrightarrow> code \<noteq> []"
  by (cases err) (auto simp: error_code_def split: if_splits)

lemma consS_Inr:
  "consS x m sv = (Inr vs, sv') \<longleftrightarrow> (\<exists>v ws. x = Inr v \<and> m sv = (Inr ws, sv') \<and> vs = v # ws)"
  by (auto simp: consS_def andS_simp doneS_def split: sum.splits) (metis prod.collapse)+

text \<open>After the first conflict the service is not called again.\<close>

lemma telemetry_blocked:
  "telemetry_loop H sha uuid5 cf rds a b i expected True rs sv = (res, sv') \<Longrightarrow>
     sv' = sv \<and> (\<forall>acks. res = Inr acks \<longrightarrow> length acks = length rs \<and> map ra_record_index acks = map int [i..<i + length rs]
       \<and> (\<forall>ack \<in> set acks. ra_status ack = record_status.REJECTED \<and> ra_retryable ack \<and> ra_error_code ack = Some conflict_code))"
proof (induction rs arbitrary: i res sv')
  case (Cons r rs)
  obtain res1 sv1 where t: "telemetry_loop H sha uuid5 cf rds a b (Suc i) expected True rs sv = (res1, sv1)" by fastforce
  note ih = Cons.IH[OF t]
  have "rejected_ack (int i) (tr_source_record_id r) conflict_code True = Inr ack \<longrightarrow>
      ra_record_index ack = int i \<and> ra_status ack = record_status.REJECTED \<and> ra_retryable ack \<and> ra_error_code ack = Some conflict_code" for ack
    by (simp add: rejected_ack_Inr)
  then show ?case
    using Cons.prems ih t
    by (auto simp: consS_def andS_simp doneS_def upt_conv_Cons simp del: upt_Suc split: sum.splits)
qed simp


text \<open>One round: what the loop does with a record while it is not blocked.\<close>

lemma telemetry_round:
  assumes "telemetry_loop H sha uuid5 cf rds a b i expected False (r # rs) sv = (Inr acks, sv')"
  obtains (conflict) sv1 ack acks1 m where "ingest_record H sha uuid5 cf (rds i) a b r expected sv = (Inl (ConcurrencyConflict m), sv1)"
      "rejected_ack (int i) (tr_source_record_id r) conflict_code True = Inr ack"
      "telemetry_loop H sha uuid5 cf rds a b (Suc i) expected True rs sv1 = (Inr acks1, sv')" "acks = ack # acks1"
  | (refused) sv1 ack acks1 err code where "ingest_record H sha uuid5 cf (rds i) a b r expected sv = (Inl err, sv1)"
      "record_error err = Some code" "rejected_ack (int i) (tr_source_record_id r) code False = Inr ack"
      "telemetry_loop H sha uuid5 cf rds a b (Suc i) expected False rs sv1 = (Inr acks1, sv')" "acks = ack # acks1"
  | (stored) sv1 ack acks1 before ev where "ingest_record H sha uuid5 cf (rds i) a b r expected sv = (Inr (before, ev), sv1)"
      "stored_ack (int i) r before ev = Inr ack"
      "telemetry_loop H sha uuid5 cf rds a b (Suc i) (max expected (sequence ev)) False rs sv1 = (Inr acks1, sv')" "acks = ack # acks1"
proof -
  obtain res sv1 where t: "ingest_record H sha uuid5 cf (rds i) a b r expected sv = (res, sv1)" by fastforce
  show thesis
  proof (cases res)
    case (Inl err)
    then show thesis
      using assms t by (cases err) (auto simp: consS_Inr intro: conflict refused)
  next
    case (Inr w)
    then show thesis using assms t by (cases w) (auto simp: consS_Inr intro: stored)
  qed
qed

definition batch_answered ::
  "(string \<Rightarrow> string) \<Rightarrow> telemetry_batch \<Rightarrow> event list \<Rightarrow> event list \<Rightarrow> nat \<Rightarrow> telemetry_record list \<Rightarrow> record_ack list \<Rightarrow> bool" where
  "batch_answered uuid5 b old all i rs acks \<longleftrightarrow>
     map ra_record_index acks = map int [i..<i + length rs]
   \<and> list_all2 (accounts_for uuid5 b old all) rs acks
   \<and> (\<exists>answered conflicts. acks = answered @ conflicts \<and> (\<forall>ack \<in> set answered. \<not> ra_retryable ack)
        \<and> (\<forall>ack \<in> set conflicts. ra_status ack = record_status.REJECTED \<and> ra_retryable ack \<and> ra_error_code ack = Some conflict_code))"

lemma batch_answered_Nil [simp]: "batch_answered uuid5 b old all i [] []"
  by (simp add: batch_answered_def)

lemma batch_answered_Cons:
  assumes "batch_answered uuid5 b old all (Suc i) rs acks" "ra_record_index ack = int i" "accounts_for uuid5 b old all r ack" "\<not> ra_retryable ack"
  shows "batch_answered uuid5 b old all i (r # rs) (ack # acks)"
proof -
  from assms(1) obtain xs ys where "acks = xs @ ys" "\<forall>ack \<in> set xs. \<not> ra_retryable ack"
    "\<forall>ack \<in> set ys. ra_status ack = record_status.REJECTED \<and> ra_retryable ack \<and> ra_error_code ack = Some conflict_code"
    by (auto simp: batch_answered_def)
  then have "\<exists>answered conflicts. ack # acks = answered @ conflicts \<and> (\<forall>ack \<in> set answered. \<not> ra_retryable ack)
        \<and> (\<forall>ack \<in> set conflicts. ra_status ack = record_status.REJECTED \<and> ra_retryable ack \<and> ra_error_code ack = Some conflict_code)"
    using assms(4) by (intro exI[of _ "ack # xs"] exI[of _ ys]) auto
  then show ?thesis using assms by (simp add: batch_answered_def upt_conv_Cons del: upt_Suc)
qed

lemma batch_answered_conflict:
  assumes "map ra_record_index acks = map int [Suc i..<Suc i + length rs]"
    and "\<forall>ack \<in> set (ack # acks). ra_status ack = record_status.REJECTED \<and> ra_retryable ack \<and> ra_error_code ack = Some conflict_code"
    and "ra_record_index ack = int i" "length acks = length rs"
  shows "batch_answered uuid5 b old all i (r # rs) (ack # acks)"
proof -
  have "accounts_for uuid5 b old all r x" if "x \<in> set (ack # acks)" for r x
    using assms(2) that by (auto simp: accounts_for_def conflict_code_def)
  then have "list_all2 (accounts_for uuid5 b old all) (r # rs) (ack # acks)"
    using assms(4) by (auto simp: list_all2_conv_all_nth nth_Cons split: nat.splits)
  then show ?thesis
    unfolding batch_answered_def using assms
    by (intro conjI exI[of _ "[]"] exI[of _ "ack # acks"]) (simp_all add: upt_conv_Cons del: upt_Suc)
qed

lemma batch_answered_weaken:
  assumes "batch_answered uuid5 b old' all i rs acks" "set old \<subseteq> set old'"
  shows "batch_answered uuid5 b old all i rs acks"
  using assms accounts_for_later unfolding batch_answered_def by (blast intro: list_all2_mono)

lemma telemetry_loop_law:
  assumes "telemetry_loop H sha uuid5 cf rds a b i expected False rs sv = (Inr acks, sv')" "service_ok H cf sv" "replays H (sv_db sv)"
    and "clocks_ok rds" "\<forall>r \<in> set rs. record_fit r"
  shows "service_ok H cf sv' \<and> replays H (sv_db sv') \<and> grows (tb_twin_id b) (sv_db sv) (sv_db sv')
    \<and> batch_answered uuid5 b (stream (sv_db sv) (tb_twin_id b)) (stream (sv_db sv') (tb_twin_id b)) i rs acks"
  using assms
proof (induction rs arbitrary: i expected sv acks)
  case (Cons r rs)
  have fit: "record_fit r" "\<forall>r \<in> set rs. record_fit r" using Cons.prems(5) by auto
  from Cons.prems(1) show ?case
  proof (cases rule: telemetry_round)
    case (conflict sv1 ack acks1 m)
    note s = ingest_record_sound[OF conflict(1) Cons.prems(2-4) fit(1)]
    have b: "sv' = sv1" "map ra_record_index acks1 = map int [Suc i..<Suc i + length rs]" "length acks1 = length rs"
      "\<forall>ack \<in> set acks1. ra_status ack = record_status.REJECTED \<and> ra_retryable ack \<and> ra_error_code ack = Some conflict_code"
      using telemetry_blocked[OF conflict(3)] by auto
    then show ?thesis
      using s conflict(2,4) by (auto simp: rejected_ack_Inr intro!: batch_answered_conflict)
  next
    case (refused sv1 ack acks1 err code)
    note s = ingest_record_sound[OF refused(1) Cons.prems(2-4) fit(1)]
    note ih = Cons.IH[OF refused(4) _ _ Cons.prems(4) fit(2)]
    have "accounts_for uuid5 b (stream (sv_db sv) (tb_twin_id b)) (stream (sv_db sv') (tb_twin_id b)) r ack"
      using refused(2,3) record_error_code by (auto simp: rejected_ack_Inr accounts_for_def)
    then show ?thesis
      using ih s refused(3,5) grows_trans batch_answered_weaken grows_set
      by (auto simp: rejected_ack_Inr intro!: batch_answered_Cons)
  next
    case (stored sv1 ack acks1 before ev)
    note s = ingest_record_sound[OF stored(1) Cons.prems(2-4) fit(1)]
    note st = ingest_record_stored[OF stored(1) Cons.prems(2-4) fit(1)]
    note ih = Cons.IH[OF stored(3) _ _ Cons.prems(4) fit(2)]
    note ack = stored_ack_Inr[OF stored(2)]
    have "accounts_for uuid5 b (stream (sv_db sv) (tb_twin_id b)) (stream (sv_db sv1) (tb_twin_id b)) r ack"
      using st by (auto simp: accounts_for_def ack eq_commute[of "event_id ev"] eq_commute[of "sequence ev"] intro: bexI)
    then have "accounts_for uuid5 b (stream (sv_db sv) (tb_twin_id b)) (stream (sv_db sv') (tb_twin_id b)) r ack"
      by (rule accounts_for_mono) (use ih s grows_set in blast)
    then show ?thesis
      using ih s stored(4) ack grows_trans batch_answered_weaken grows_set
      by (auto intro!: batch_answered_Cons)
  qed
qed simp

text \<open>Answered or broken off by an exception, the batch leaves the service sound.\<close>

lemma consS_snd: "snd (consS x m sv) = sv \<or> snd (consS x m sv) = snd (m sv)"
  by (auto simp: consS_def andS_simp doneS_def split: sum.splits)

lemma telemetry_loop_sound:
  assumes "service_ok H cf sv" "replays H (sv_db sv)" "clocks_ok rds" "\<forall>r \<in> set rs. record_fit r"
  shows "service_ok H cf (snd (telemetry_loop H sha uuid5 cf rds a b i expected blocked rs sv))
    \<and> replays H (sv_db (snd (telemetry_loop H sha uuid5 cf rds a b i expected blocked rs sv)))
    \<and> grows (tb_twin_id b) (sv_db sv) (sv_db (snd (telemetry_loop H sha uuid5 cf rds a b i expected blocked rs sv)))"
  using assms
proof (induction rs arbitrary: i expected blocked sv)
  case (Cons r rs)
  have fit: "record_fit r" "\<forall>r \<in> set rs. record_fit r" using Cons.prems(4) by auto
  obtain res sv1 where t: "ingest_record H sha uuid5 cf (rds i) a b r expected sv = (res, sv1)" by fastforce
  note s = ingest_record_sound[OF t Cons.prems(1-3) fit(1)]
  let ?run = "telemetry_loop H sha uuid5 cf rds a b i expected blocked (r # rs) sv"
  consider "snd ?run = sv1"
    | x n bl sv2 where "sv2 \<in> {sv, sv1}" "?run = consS x (telemetry_loop H sha uuid5 cf rds a b (Suc i) n bl rs) sv2"
  proof (cases "snd ?run = sv1")
    case False
    then have "\<exists>x n bl. ?run = consS x (telemetry_loop H sha uuid5 cf rds a b (Suc i) n bl rs) sv
        \<or> ?run = consS x (telemetry_loop H sha uuid5 cf rds a b (Suc i) n bl rs) sv1"
      using t by (cases res; cases blocked) (auto split: error.splits option.splits prod.splits)
    then show thesis using that(2) by blast
  qed
  then show ?case
  proof cases
    case 2
    have sv2: "service_ok H cf sv2" "replays H (sv_db sv2)" "grows (tb_twin_id b) (sv_db sv) (sv_db sv2)"
      using 2(1) s Cons.prems(1,2) by auto
    show ?thesis
      using consS_snd[of x "telemetry_loop H sha uuid5 cf rds a b (Suc i) n bl rs" sv2] sv2
        Cons.IH[OF sv2(1,2) Cons.prems(3) fit(2), of "Suc i" n bl] grows_trans[OF sv2(3)]
      unfolding 2(2) by metis
  qed (use s in simp)
qed simp

text \<open>The answer to a batch.\<close>

theorem telemetry_law:
  assumes "telemetry_process H sha uuid5 cf limits codec now rds a b sizes whole sv = (Inr ack, sv')"
    and "service_ok H cf sv" "replays H (sv_db sv)" "clocks_ok rds" "\<forall>r \<in> set (tb_records b). record_fit r"
  shows "service_ok H cf sv' \<and> replays H (sv_db sv') \<and> grows (tb_twin_id b) (sv_db sv) (sv_db sv')
    \<and> batch_answered uuid5 b (stream (sv_db sv) (tb_twin_id b)) (stream (sv_db sv') (tb_twin_id b)) 0 (tb_records b) (sk_records ack)
    \<and> sk_committed_sequence ack = int (length (stream (sv_db sv') (tb_twin_id b)))
    \<and> (\<exists>co p. codec = Some co \<and> sk_resume_token ack = co_issue co now p
        \<and> make_position (tb_twin_id b) (fst (head (sv_db sv') (tb_twin_id b))) (snd (head (sv_db sv') (tb_twin_id b))) = Inr p)"
proof -
  from assms(1) obtain co acks p where c: "codec = Some co"
    "telemetry_loop H sha uuid5 cf rds a b 0 (tb_expected_sequence b) False (tb_records b) sv = (Inr acks, sv')"
    "make_position (tb_twin_id b) (fst (head (sv_db sv') (tb_twin_id b))) (snd (head (sv_db sv') (tb_twin_id b))) = Inr p"
    "make_stream_ack \<lparr>sk_twin_id = tb_twin_id b, sk_idempotency_key = tb_idempotency_key b,
           sk_committed_sequence = fst (head (sv_db sv') (tb_twin_id b)), sk_records = acks, sk_resume_token = co_issue co now p\<rparr> = Inr ack"
    unfolding telemetry_process_def
    by (auto simp: check_def readS_def doneS_def violation_def split: option.splits if_splits prod.splits dest!: current_step)
  note law = telemetry_loop_law[OF c(2) assms(2-5)]
  have "ack = \<lparr>sk_twin_id = tb_twin_id b, sk_idempotency_key = tb_idempotency_key b,
           sk_committed_sequence = fst (head (sv_db sv') (tb_twin_id b)), sk_records = acks, sk_resume_token = co_issue co now p\<rparr>"
    using c(4) by (auto simp: make_stream_ack_def protocol_error_def split: if_splits)
  then show ?thesis
    using law c(1,3) head_stream[OF service_db_inv, of H cf sv'] by simp
qed

end
