(* ===== verification/K2_Examples_Adapters.thy ===== *)
theory K2_Examples_Adapters
  imports K2_Telemetry_Laws K2_Nats_Laws K2_Examples_Facade
begin

text \<open>
  Inputs of the witnesses about the adapters: a telemetry batch of one record that is committed to an empty
  ledger, and an event that a publisher sends.
\<close>

section \<open>Telemetry\<close>

definition ex_zeros :: "string \<Rightarrow> string" where
  "ex_zeros s = replicate 64 CHR ''0''"

definition ex_record :: telemetry_record where
  "ex_record = \<lparr>tr_source_record_id = ''1'', tr_valid_from = utc 5, tr_valid_until = None, tr_media_type = ''application/json'',
     tr_payload = ''{}'', tr_content_hash = ''sha256:'' @ ex_zeros [], tr_independence_group = ''g'', tr_sensitivity = ''public'',
     tr_rights = []\<rparr>"

definition ex_batch :: telemetry_batch where
  "ex_batch = \<lparr>tb_twin_id = ''t'', tb_subject_id = ''alice'', tb_source = ''s'', tb_connector_version = ''c'',
     tb_idempotency_key = ''k'', tb_expected_sequence = 0, tb_records = [ex_record]\<rparr>"

definition ex_batch_limits :: sync_limits where
  "ex_batch_limits = \<lparr>sl_max_record_bytes = 10, sl_max_batch_bytes = 10, sl_max_batch_records = 1, sl_replay_page_size = 1,
     sl_max_in_flight = 1, sl_heartbeat_seconds = 1\<rparr>"

definition ex_codec :: cursor_ops where
  "ex_codec = \<lparr>co_issue = (\<lambda>_ _. ''token''), co_verify = (\<lambda>_ _ _. rejected ''no''), co_bind = (\<lambda>_ p. Inr p)\<rparr>"

lemma ex_record_valid: "validate_record ex_zeros ex_record = Inr []"
proof -
  have "read_json True (utf8_encode (dumps (PDict []))) = Inr (PDict [])" by (rule read_json_dumps) (simp add: wf_dict_def)
  then have "read_json True ''{}'' = Inr (PDict [])" by simp
  moreover have "validate_json_shape (PDict []) = Inr ()" by (simp add: shape_within_limits max_json_nodes_def max_json_depth_def)
  moreover have "base_media_type ''application/json'' = ''application/json''"
    by (simp add: base_media_type_def py_strip_def is_space_def lower_char_def)
  moreover have "hash_pattern (''sha256:'' @ ex_zeros [])"
    by (simp add: hash_pattern_def ex_zeros_def is_lower_hex_def is_digit_def digit_of_def numeral_eq_Suc)
  ultimately show ?thesis
    by (simp add: validate_record_def decode_json_payload_def ex_record_def ex_zeros_def utc_def naive_def sensitivity_of_def enum_of_def
        all_sensitivities_def)
qed

lemma ex_clocks: "clocks_ok (\<lambda>_. ex_readings)" "record_fit ex_record"
  by (simp_all add: clocks_ok_def record_fit_def ex_record_def ex_readings_def storable_time_def valid_dt_def utc_def naive_def wf_dict_def)

lemma zero_hash: "content_hash ex_zeros v = Inr h \<Longrightarrow> hash_pattern h"
  by (auto simp: content_hash_def bindE_Inr_iff hash_pattern_def ex_zeros_def is_lower_hex_def is_digit_def digit_of_def numeral_eq_Suc)

lemma ex_telemetry:
  "\<exists>ack sv'. telemetry_process ex_zeros ex_zeros ex_item_uuid ex_quiet_config ex_batch_limits (Some ex_codec) 9 (\<lambda>_. ex_readings) ex_ingestor
     ex_batch [PInt 2] (PInt 2) ex_service = (Inr ack, sv')"
proof -
  have key: "record_idempotency_key ex_item_uuid ex_batch ex_record \<noteq> []" by (simp add: record_idempotency_key_def)
  obtain out sv1 where i: "ingest_evidence ex_zeros ex_item_uuid ex_quiet_config ex_readings ''t'' ''alice'' ''s'' ''1'' [] [] PUBLIC (utc 5) None ''g''
      (Some ''c'') (Some ''application/json'') (Some (''sha256:'' @ ex_zeros [])) 0 (record_idempotency_key ex_item_uuid ex_batch ex_record)
      ex_ingestor ex_service = (Inr out, sv1)"
    using ex_ingested_as[OF key] by blast
  have h0: "head (sv_db ex_service) ''t'' = (0, [])"
    by (simp add: ex_service_def head_def head_row_def stream_rows_def empty_db_def)
  have str0: "stream (sv_db ex_service) ''t'' = []" by (simp add: ex_service_def stream_def stream_rows_def empty_db_def)
  have times: "storable_time (utc 5)" "storable_time (utc (rd_append ex_readings))" "storable_time (utc (rd_snapshot ex_readings))"
    by (simp_all add: ex_readings_def storable_time_def valid_dt_def utc_def naive_def)
  have replays: "replays ex_zeros (sv_db ex_service)" by (rule ex_replays)
  have plain: "jsonable (PDict [])" by (simp add: wf_dict_def)
  obtain e where f: "service_ok ex_zeros ex_quiet_config sv1" "event_id e = event_id out" "sequence e = sequence out"
    "stream (sv_db sv1) ''t'' = stream (sv_db ex_service) ''t'' @ (if e \<in> set (stream (sv_db ex_service) ''t'') then [] else [e])"
    "e \<in> set (stream (sv_db ex_service) ''t'') \<or> event_id e = rd_fresh ex_readings"
    by (rule ingest_stored[OF i ex_quiet_service_ok replays plain plain times]) (rule that)
  have e: "service_ok ex_zeros ex_quiet_config sv1" "event_id e = event_id out" "sequence e = sequence out"
    "stream (sv_db sv1) ''t'' = [e]" "event_id e = ''id1''"
    using f by (simp_all add: str0 ex_readings_def)
  have inv: "db_inv ex_zeros (sv_db sv1)" by (rule service_db_inv[OF e(1)])
  have chain: "sequence e = 1" "verify ex_zeros e [] = Inr ()" using stream_chain[OF inv, of "''t''"] e(4) by simp_all
  have pattern: "hash_pattern (event_hash e)"
    using chain(2) zero_hash verify_Inr by metis
  have h1: "head (sv_db sv1) ''t'' = (1, event_hash e)" using head_stream[OF inv, of "''t''"] e(4) by (simp add: last_hash_def)
  have "event_id out = ''id1''" using e(2,5) by metis
  then have id_ok: "event_id out \<noteq> []" by simp
  have ing: "ingest_record ex_zeros ex_zeros ex_item_uuid ex_quiet_config ex_readings ex_ingestor ex_batch ex_record 0 ex_service = (Inr (0, out), sv1)"
    using i ex_record_valid h0
    by (simp add: ingest_record_def andS_simp doneS_def readS_def ex_record_def ex_batch_def sensitivity_of_def enum_of_def all_sensitivities_def)
  obtain ack where ack: "stored_ack 0 ex_record 0 out = Inr ack" "ra_record_index ack = 0"
    using chain(1) e(3) id_ok by (simp add: stored_ack_def make_record_ack_def no_text_def ex_record_def)
  have loop: "telemetry_loop ex_zeros ex_zeros ex_item_uuid ex_quiet_config (\<lambda>_. ex_readings) ex_ingestor ex_batch 0 0 False [ex_record] ex_service
      = (Inr [ack], sv1)"
    using ing ack(1) by (simp add: consS_def andS_simp doneS_def)
  have "make_position ''t'' 1 (event_hash e) = Inr \<lparr>sp_twin_id = ''t'', sp_sequence = 1, sp_event_hash = event_hash e\<rparr>"
    using pattern by (simp add: make_position_def)
  then show ?thesis
    using loop h1
    by (simp add: telemetry_process_def check_def andS_simp doneS_def readS_def validate_batch_def ex_batch_limits_def sizes_of_def
        validate_batch_header_def ex_batch_def ex_record_def make_stream_ack_def ex_codec_def)
qed

section \<open>NATS\<close>

definition ex_publisher :: "int \<Rightarrow> nats_publisher" where
  "ex_publisher n = \<lparr>np_tenant = ''acme'', np_timeout = 2, np_max_event_bytes = n\<rparr>"

definition ex_consumer :: "int \<Rightarrow> nats_consumer" where
  "ex_consumer n = \<lparr>nc_tenant = ''acme'', nc_stage = ''graph'', nc_max_deliver = 5, nc_retry_delay = 1, nc_max_event_bytes = n\<rparr>"

lemma ex_tokens: "subject_token ''acme''" "subject_token ''t''" "subject_token ''EvidenceIngested''" "subject_token ''graph''"
  by (simp_all add: subject_token_def is_token_char_def)

lemma ex_consumer_made: "1024 \<le> n \<Longrightarrow> make_consumer ''acme'' ''graph'' 5 1 n = Inr (ex_consumer n)"
proof -
  assume "1024 \<le> n"
  moreover have "subject_token ''validation''" by (simp add: subject_token_def is_token_char_def)
  then have "deadletter_subject ''acme'' ''validation'' ''graph'' = Inr (join ''.'' [''argo'', ''dt'', ''acme'', ''validation'', ''deadletter'', ''graph''])"
    using ex_tokens unfolding deadletter_subject_Inr by simp
  ultimately show ?thesis by (simp add: make_consumer_def ex_consumer_def)
qed

text \<open>The example event as it is stored, and its message.\<close>

lemma ex_sent:
  "\<exists>ev n m. seal ex_digest ex_event 1 [] (utc 7) = Inr ev \<and> json_event ev \<and> storable ev \<and> schema_version ev = ''argo.dt.event/v2''
     \<and> 1024 \<le> n \<and> event_message ex_digest (ex_publisher n) ev = Inr m"
proof -
  obtain ev where sealed: "seal ex_digest ex_event 1 [] (utc 7) = Inr ev"
    using seal_ok[of ex_event ex_digest 1 "[]" "utc 7"] ex_plain by (auto simp: ex_event_def)
  note f = seal_fields[OF sealed]
  have json: "json_event ev" "storable ev" "schema_version ev = ''argo.dt.event/v2''"
    using f ex_plain
    by (simp_all add: json_event_def storable_def storable_time_def ex_event_def event_schemas_def valid_dt_def utc_def naive_def astimezone_utc_def
        instant_def)
  have v: "verify ex_digest ev (previous_hash ev) = Inr ()" using seal_Inr(1)[OF sealed] f(2) by simp
  have h: "event_hash ev \<noteq> []" by (rule verify_hash_nonempty[OF v])
  obtain js where js: "canonical_json (PDict (event_val ev)) = Inr js"
    using event_val_jsonable[of ev] json(1) canonical_json_jsonable by (auto simp: json_event_def)
  define n where "n = max 1024 (int (length (utf8_encode js)))"
  have "\<exists>s. event_subject ''acme'' ev = Inr s"
    using f ex_tokens unfolding event_subject_Inr by (simp add: ex_event_def)
  then have "\<exists>m. event_message ex_digest (ex_publisher n) ev = Inr m"
    using f(1) v h js by (auto simp: event_message_def ex_publisher_def n_def)
  moreover have "1024 \<le> n" by (simp add: n_def)
  ultimately show ?thesis using sealed json by blast
qed

end
