(* ===== verification/K2_Credentials.thy ===== *)
theory K2_Credentials
  imports K2_Telemetry
begin

text \<open>
  \<open>src/src/argo_dt/adapters/auth.py\<close>: what a transport hands to the authenticator of the deployment
  and what it gets back. The authenticator itself is a parameter of the definitions that use it. Shown: the
  normalised metadata has bounded names and values, and its names are the trimmed lower-case forms of
  the given ones, none of them twice.
\<close>

section \<open>Credentials\<close>

record credentials =
  tc_transport :: string
  tc_metadata :: "(string \<times> string) list"
  tc_peer :: "string option"

definition py_lower :: "string \<Rightarrow> string" where
  "py_lower s = map lower_char s"

definition malformed_credentials :: error where
  "malformed_credentials = AuthorizationDenied ''transport credentials are malformed''"

definition normal_name :: "string \<Rightarrow> string" where
  "normal_name name = py_lower (py_strip name)"

text \<open>The loop over \<open>metadata.items()\<close>; the dictionary keeps the order of insertion.\<close>

fun normalize_metadata :: "(string \<times> string) list \<Rightarrow> (string \<times> string) list \<Rightarrow> (string \<times> string) list result" where
  "normalize_metadata normalized [] = Inr normalized"
| "normalize_metadata normalized ((name, val) # rest) =
     (let key = normal_name name in
      if key = [] \<or> 128 < length key \<or> 8192 < length val \<or> key \<in> fst ` set normalized then Inl malformed_credentials
      else normalize_metadata (normalized @ [(key, val)]) rest)"

definition make_credentials :: "string \<Rightarrow> (string \<times> string) list \<Rightarrow> string option \<Rightarrow> credentials result" where
  "make_credentials transport metadata peer =
     (if transport \<notin> {''grpc'', ''websocket''} then Inl (ValueError ''unsupported authentication transport'')
      else if 64 < length metadata then Inl malformed_credentials
      else bindE (normalize_metadata [] metadata) (\<lambda>normalized.
        Inr \<lparr>tc_transport = transport, tc_metadata = normalized, tc_peer = peer\<rparr>))"

definition authorization :: "credentials \<Rightarrow> string option" where
  "authorization c = map_of (tc_metadata c) ''authorization''"

section \<open>Principals\<close>

record principal =
  ap_actor :: actor
  ap_scopes :: "string list"

definition make_principal :: "actor \<Rightarrow> string list \<Rightarrow> principal result" where
  "make_principal a scopes =
     (if list_ex (\<lambda>s. s = [] \<or> 128 < length s) scopes
      then Inl (AuthorizationDenied ''authenticated scope set is invalid'')
      else Inr \<lparr>ap_actor = a, ap_scopes = scopes\<rparr>)"

definition require_scope :: "string \<Rightarrow> principal \<Rightarrow> unit result" where
  "require_scope scope p =
     (if scope \<notin> set (ap_scopes p) then Inl (AuthorizationDenied ''required transport scope is absent'') else Inr ())"

type_synonym authenticator = "credentials \<Rightarrow> principal result"

section \<open>Normalised metadata\<close>

definition bounded_entry :: "string \<times> string \<Rightarrow> bool" where
  "bounded_entry kv \<longleftrightarrow> fst kv \<noteq> [] \<and> length (fst kv) \<le> 128 \<and> length (snd kv) \<le> 8192"

lemma normalize_metadata_Inr:
  "normalize_metadata normalized items = Inr out \<Longrightarrow>
     out = normalized @ map (\<lambda>(k, v). (normal_name k, v)) items
     \<and> (\<forall>kv \<in> set items. bounded_entry (normal_name (fst kv), snd kv))"
proof (induction normalized items rule: normalize_metadata.induct)
  case (2 normalized name val rest)
  then show ?case by (auto simp: Let_def bounded_entry_def split: if_splits)
qed simp

lemma normalize_metadata_distinct:
  "normalize_metadata normalized items = Inr out \<Longrightarrow> distinct (map fst normalized) \<Longrightarrow> distinct (map fst out)"
proof (induction normalized items rule: normalize_metadata.induct)
  case (2 normalized name val rest)
  then show ?case by (simp add: Let_def split: if_splits)
qed simp

theorem make_credentials_Inr:
  assumes "make_credentials transport metadata peer = Inr c"
  shows "tc_metadata c = map (\<lambda>(k, v). (normal_name k, v)) metadata" "distinct (map fst (tc_metadata c))"
    "\<forall>kv \<in> set (tc_metadata c). bounded_entry kv" "length (tc_metadata c) \<le> 64" "transport \<in> {''grpc'', ''websocket''}"
proof -
  have n: "normalize_metadata [] metadata = Inr (tc_metadata c)" "length metadata \<le> 64" "transport \<in> {''grpc'', ''websocket''}"
    using assms by (auto simp: make_credentials_def bindE_Inr_iff split: if_splits)
  note r = normalize_metadata_Inr[OF n(1)]
  show "tc_metadata c = map (\<lambda>(k, v). (normal_name k, v)) metadata" using r by simp
  show "distinct (map fst (tc_metadata c))" using normalize_metadata_distinct[OF n(1)] by simp
  show "\<forall>kv \<in> set (tc_metadata c). bounded_entry kv" using r by fastforce
  show "length (tc_metadata c) \<le> 64" using r n(2) by simp
  show "transport \<in> {''grpc'', ''websocket''}" by (rule n(3))
qed

end
