(* ===== verification/K2_WebSocket.thy ===== *)
theory K2_WebSocket
  imports K2_Service_Streams K2_Credentials
begin

text \<open>
  \<open>src/src/argo_dt/adapters/websocket.py\<close>: the codec of the control frames and the ASGI application
  that serves a state stream. The application runs two tasks beside its main loop, one receiving control frames and
  one waiting for the next frame of the session. A connection is a record of what the tasks and the loop have done so
  far; each of the three moves by a step of its own, so that any interleaving of them is a sequence of
  steps. The authenticator, the codec of the cursors, the limits and the clock are arguments. \<open>send\<close> does
  not raise; what was sent is kept in the order of sending.
\<close>

section \<open>Control frames\<close>

datatype control =
    SubscribeControl "string option" "string list" bool "int option"
  | AcknowledgeControl string
  | HeartbeatControl datetime
  | ClientCloseControl int string

definition require_keys :: "pydict \<Rightarrow> string set \<Rightarrow> unit result" where
  "require_keys d allowed =
     (if set (map fst d) \<noteq> allowed then protocol_error ''WebSocket control frame shape is invalid'' else Inr ())"

definition frame_token :: "pyval \<Rightarrow> string result" where
  "frame_token v =
     (case v of
        PStr s \<Rightarrow> if 32 \<le> length s \<and> length s \<le> 2048 then Inr s else protocol_error ''resume token is invalid''
      | _ \<Rightarrow> protocol_error ''resume token is invalid'')"

fun type_name :: "pyval \<Rightarrow> string option" where
  "type_name (PStr s) = (if 1 \<le> length s \<and> length s \<le> 128 then Some s else None)"
| "type_name _ = None"

definition decode_event_types :: "pyval \<Rightarrow> string list result" where
  "decode_event_types v =
     (case v of
        PList raw \<Rightarrow>
          if 64 < length raw then protocol_error ''event_types must be an array of at most 64 values''
          else if list_ex (\<lambda>x. type_name x = None) raw then protocol_error ''event_types contains an invalid value''
          else (let names = map (the \<circ> type_name) raw in
            if \<not> distinct names then protocol_error ''event_types values must be unique'' else Inr names)
      | _ \<Rightarrow> protocol_error ''event_types must be an array of at most 64 values'')"

definition decode_max_in_flight :: "pyval option \<Rightarrow> int option result" where
  "decode_max_in_flight v =
     (case v of
        None \<Rightarrow> Inr None
      | Some (PInt n) \<Rightarrow> if n < 1 then protocol_error ''max_in_flight must be positive'' else Inr (Some n)
      | Some _ \<Rightarrow> protocol_error ''max_in_flight must be an integer'')"

definition decode_subscribe :: "pydict \<Rightarrow> control result" where
  "decode_subscribe d =
     (if \<not> set (map fst d) \<subseteq> {''type'', ''resume_token'', ''event_types'', ''include_projection_events'', ''max_in_flight''}
      then protocol_error ''subscribe frame contains unknown fields''
      else bindE (case map_of d ''resume_token'' of None \<Rightarrow> Inr None | Some v \<Rightarrow> bindE (frame_token v) (\<lambda>s. Inr (Some s))) (\<lambda>token.
        bindE (decode_event_types (get_or d ''event_types'' (PList []))) (\<lambda>types.
        bindE (case get_or d ''include_projection_events'' (PBool False) of
            PBool b \<Rightarrow> Inr b | _ \<Rightarrow> protocol_error ''include_projection_events must be boolean'') (\<lambda>projection.
        bindE (decode_max_in_flight (map_of d ''max_in_flight'')) (\<lambda>n.
        Inr (SubscribeControl token types projection n))))))"

text \<open>Five minutes, in microseconds.\<close>

definition clock_skew :: int where
  "clock_skew = 300000000"

definition decode_heartbeat :: "int \<Rightarrow> pydict \<Rightarrow> control result" where
  "decode_heartbeat now d =
     bindE (require_keys d {''type'', ''sent_at''}) (\<lambda>_.
     bindE (case pget d ''sent_at'' of PStr s \<Rightarrow> Inr s | _ \<Rightarrow> protocol_error ''heartbeat sent_at must be a timestamp'') (\<lambda>s.
     bindE (instead (ProtocolViolation ''heartbeat sent_at must be a timestamp'') (parse_time s)) (\<lambda>parsed.
     bindE (dt_less (utc (now + clock_skew)) parsed) (\<lambda>early.
     if early then protocol_error ''heartbeat sent_at is too far in the future'' else Inr (HeartbeatControl parsed)))))"

definition decode_close :: "pydict \<Rightarrow> control result" where
  "decode_close d =
     bindE (require_keys d {''type'', ''code'', ''reason''}) (\<lambda>_.
     bindE (case pget d ''code'' of PInt n \<Rightarrow> Inr n | _ \<Rightarrow> protocol_error ''close code must be an integer'') (\<lambda>code.
     if \<not> (1000 \<le> code \<and> code \<le> 4999) then protocol_error ''close code is outside the WebSocket range''
     else (case pget d ''reason'' of
         PStr reason \<Rightarrow> if 256 < length reason then protocol_error ''close reason is invalid'' else Inr (ClientCloseControl code reason)
       | _ \<Rightarrow> protocol_error ''close reason is invalid'')))"

definition make_ws_codec :: "int \<Rightarrow> int result" where
  "make_ws_codec max_bytes =
     (if max_bytes < 256 then Inl (ValueError ''max_frame_bytes must be at least 256'') else Inr max_bytes)"

text \<open>\<open>decode\<close> of the bytes of a frame; a text frame is encoded first.\<close>

definition ws_decode :: "int \<Rightarrow> int \<Rightarrow> string \<Rightarrow> control result" where
  "ws_decode max_bytes now encoded =
     (if max_bytes < int (length encoded) then Inl (MessageTooLarge ''WebSocket control frame exceeds its byte limit'')
      else bindE (instead (ProtocolViolation ''WebSocket control frame is invalid JSON'') (read_json False encoded)) (\<lambda>v.
        case v of
          PDict d \<Rightarrow>
            (let kind = pget d ''type'' in
             if kind = PStr ''subscribe'' then decode_subscribe d
             else if kind = PStr ''acknowledge''
             then bindE (require_keys d {''type'', ''resume_token''}) (\<lambda>_.
               bindE (frame_token (pget d ''resume_token'')) (\<lambda>s. Inr (AcknowledgeControl s)))
             else if kind = PStr ''heartbeat'' then decode_heartbeat now d
             else if kind = PStr ''close'' then decode_close d
             else protocol_error ''unknown WebSocket control frame type'')
        | _ \<Rightarrow> protocol_error ''WebSocket control frame must be an object''))"

text \<open>\<open>encode\<close>\<close>

definition ws_encode :: "pyval \<Rightarrow> string result" where
  "ws_encode v =
     (if finite_floats v then Inr (dumps v) else Inl (ValueError ''Out of range float values are not JSON compliant''))"

section \<open>ASGI messages\<close>

record asgi_message =
  am_type :: string
  am_text :: "string option"
  am_bytes :: "string option"

definition decode_asgi :: "int \<Rightarrow> int \<Rightarrow> asgi_message \<Rightarrow> control result" where
  "decode_asgi max_bytes now m =
     (if am_type m \<noteq> ''websocket.receive'' then protocol_error ''expected a WebSocket data frame''
      else (case (am_text m, am_bytes m) of
          (Some text, None) \<Rightarrow> ws_decode max_bytes now (utf8_encode text)
        | (None, Some raw) \<Rightarrow> ws_decode max_bytes now raw
        | _ \<Rightarrow> protocol_error ''WebSocket frame must contain text or bytes''))"

datatype asgi_send = WsAccept string | WsSend string | WsClose int string

record ws_scope =
  ws_type :: string
  ws_path :: "string option"
  ws_subprotocols :: "string list"
  ws_headers :: "(string \<times> string) list option"
  ws_client :: "string option"

definition ws_subprotocol :: string where
  "ws_subprotocol = ''argo.dt.state-stream.v1''"

section \<open>The path\<close>

text \<open>
  \<open>urllib.parse.unquote\<close>. Bytes from 128 up become some character outside ASCII, which the pattern of a twin
  identifier refuses like the byte that stands for it here.
\<close>

fun unquote :: "string \<Rightarrow> string" where
  "unquote (c # a # b # s) =
     (case (c = CHR ''%'', hex_value a, hex_value b) of
        (True, Some x, Some y) \<Rightarrow> char_of (16 * x + y) # unquote s
      | _ \<Rightarrow> c # unquote (a # b # s))"
| "unquote s = s"

definition ws_twin_pattern :: "string \<Rightarrow> bool" where
  "ws_twin_pattern s \<longleftrightarrow> 1 \<le> length s \<and> length s \<le> 128 \<and> list_all is_token_char s"

definition twin_of_path :: "string option \<Rightarrow> string option" where
  "twin_of_path path =
     (case path of
        None \<Rightarrow> None
      | Some p \<Rightarrow>
          if \<not> prefix ''/v1/twins/'' p \<or> \<not> suffix ''/events'' p then None
          else (let encoded = drop 10 (take (length p - 7) p) in
            if encoded = [] \<or> CHR ''/'' \<in> set encoded then None
            else if ws_twin_pattern (unquote encoded) then Some (unquote encoded) else None))"

section \<open>Headers\<close>

fun ws_header_dict :: "(string \<times> string) list \<Rightarrow> (string \<times> string) list \<Rightarrow> (string \<times> string) list result" where
  "ws_header_dict acc [] = Inr acc"
| "ws_header_dict acc ((raw_name, val) # rest) =
     (if list_ex (\<lambda>c. 128 \<le> byte c) raw_name then Inl (AuthorizationDenied ''transport headers are malformed'')
      else if py_lower raw_name \<in> fst ` set acc then Inl (AuthorizationDenied ''duplicate transport header'')
      else ws_header_dict (acc @ [(py_lower raw_name, val)]) rest)"

definition headers_of :: "(string \<times> string) list option \<Rightarrow> (string \<times> string) list result" where
  "headers_of raw =
     (case raw of None \<Rightarrow> Inl (AuthorizationDenied ''transport headers are malformed'') | Some hs \<Rightarrow> ws_header_dict [] hs)"

section \<open>The handshake\<close>

definition ws_authenticate :: "authenticator \<Rightarrow> ws_scope \<Rightarrow> principal result" where
  "ws_authenticate auth scope =
     bindE (headers_of (ws_headers scope)) (\<lambda>hs.
     bindE (make_credentials ''websocket'' hs (ws_client scope)) (\<lambda>c.
     bindE (auth c) (\<lambda>p.
     bindE (require_scope ''dt.stream'' p) (\<lambda>_. Inr p))))"

text \<open>
  From the scope and the first message, which is None if it did not come in time: what is sent, and the twin and
  principal of an accepted connection. An exception other than AuthorizationDenied leaves the application.
\<close>

definition ws_admit :: "authenticator \<Rightarrow> ws_scope \<Rightarrow> asgi_message option \<Rightarrow> (asgi_send list \<times> (string \<times> principal) option) result" where
  "ws_admit auth scope first =
     (if ws_type scope \<noteq> ''websocket'' then Inl (ValueError ''StateWebSocketApp accepts only ASGI WebSocket scopes'')
      else (case first of
        None \<Rightarrow> Inr ([WsClose 4410 ''connect timeout''], None)
      | Some m \<Rightarrow>
          if am_type m \<noteq> ''websocket.connect'' then Inr ([WsClose 4400 ''invalid connection lifecycle''], None)
          else (case twin_of_path (ws_path scope) of
            None \<Rightarrow> Inr ([WsClose 4404 ''not found''], None)
          | Some twin \<Rightarrow>
              if ws_subprotocol \<notin> set (ws_subprotocols scope) then Inr ([WsClose 4406 ''subprotocol required''], None)
              else (case ws_authenticate auth scope of
                Inl (AuthorizationDenied reason) \<Rightarrow> Inr ([WsClose 4403 ''access denied''], None)
              | Inl err \<Rightarrow> Inl err
              | Inr p \<Rightarrow> Inr ([WsAccept ws_subprotocol], Some (twin, p))))))"

section \<open>Failures\<close>

text \<open>What can end the guarded part: a timeout, the end of the iteration, or an exception of the program.\<close>

datatype ws_failure = TimedOut | StopIteration | Failure error

fun fail_close :: "ws_failure \<Rightarrow> int \<times> string" where
  "fail_close TimedOut = (4410, ''stream timeout'')"
| "fail_close (Failure (AuthorizationDenied _)) = (4403, ''access denied'')"
| "fail_close (Failure (MessageTooLarge _)) = (4413, ''frame too large'')"
| "fail_close (Failure (ProtocolViolation _)) = (4400, ''invalid stream frame'')"
| "fail_close (Failure (ResumeCursorRejected _)) = (4400, ''invalid stream frame'')"
| "fail_close (Failure (BackpressureExceeded _)) = (4408, ''acknowledgement required'')"
| "fail_close (Failure (IntegrityError _)) = (4411, ''stream integrity failure'')"
| "fail_close _ = (1011, ''internal stream error'')"

text \<open>Only the last clause raises again.\<close>

definition reraised :: "ws_failure \<Rightarrow> ws_failure option" where
  "reraised f = (if fst (fail_close f) = 1011 then Some f else None)"

section \<open>A connection\<close>

text \<open>The receiving task is running or done, with a close frame of the client, a disconnection (None) or an exception.\<close>

datatype receiver = Receiving | Received "ws_failure + (int \<times> string) option"

text \<open>The other task waits for the next frame of the session or is done.\<close>

datatype upcoming = Awaiting | Upcoming "ws_failure + state_frame"

text \<open>How the application ended: it returned, or an exception left it.\<close>

datatype ws_end = Returned | Escaped ws_failure

record ws_conn =
  wc_sub :: durable
  wc_receiver :: receiver
  wc_next :: upcoming
  wc_sent :: "asgi_send list"
  wc_end :: "ws_end option"

type_synonym ws_world = "ws_conn \<times> service"

definition sub_state :: "ws_world \<Rightarrow> stream_state" where
  "sub_state w = (wc_sub (fst w), sv_env (snd w))"

definition put_state :: "stream_state \<Rightarrow> ws_world \<Rightarrow> ws_world" where
  "put_state st w = ((fst w)\<lparr>wc_sub := fst st\<rparr>, (snd w)\<lparr>sv_env := snd st\<rparr>)"

definition put_sent :: "asgi_send list \<Rightarrow> ws_world \<Rightarrow> ws_world" where
  "put_sent outs w = ((fst w)\<lparr>wc_sent := wc_sent (fst w) @ outs\<rparr>, snd w)"

text \<open>The \<open>finally\<close> clause of \<open>__call__\<close>: the session is closed, whatever happened.\<close>

definition ws_finish :: "cursor_ops \<Rightarrow> int \<Rightarrow> ws_end \<Rightarrow> ws_world \<Rightarrow> ws_world" where
  "ws_finish co now e w =
     (let (r, st) = session_close co now 1000 ''normal'' (sub_state w); (c, sv) = put_state st w
      in (c\<lparr>wc_end := Some (case r of Inl err \<Rightarrow> Escaped (Failure err) | Inr _ \<Rightarrow> e)\<rparr>, sv))"

text \<open>\<open>session.close\<close>, then its frame and the close message; an exception of these goes to the given handler.\<close>

definition ws_send_close ::
  "cursor_ops \<Rightarrow> int \<Rightarrow> int \<Rightarrow> string \<Rightarrow> (error \<Rightarrow> ws_world \<Rightarrow> ws_world) \<Rightarrow> (ws_world \<Rightarrow> ws_world) \<Rightarrow> ws_world \<Rightarrow> ws_world" where
  "ws_send_close co now code reason failed finish w =
     (case session_close co now code reason (sub_state w) of
        (Inl err, st) \<Rightarrow> failed err (put_state st w)
      | (Inr frame, st) \<Rightarrow>
          (case ws_encode (close_dict frame) of
             Inl err \<Rightarrow> failed err (put_state st w)
           | Inr text \<Rightarrow> finish (put_sent [WsSend text, WsClose code reason] (put_state st w))))"

text \<open>\<open>_fail\<close> with a session, inside an except clause.\<close>

definition ws_fail :: "cursor_ops \<Rightarrow> int \<Rightarrow> ws_failure \<Rightarrow> ws_world \<Rightarrow> ws_world" where
  "ws_fail co now f w =
     (let (code, reason) = fail_close f in
      ws_send_close co now code reason (\<lambda>err. ws_finish co now (Escaped (Failure err)))
        (ws_finish co now (case reraised f of None \<Rightarrow> Returned | Some g \<Rightarrow> Escaped g)) w)"

section \<open>Steps of an open connection\<close>

text \<open>The receiving task takes a message, or None when none came before the idle timeout.\<close>

definition ws_receive :: "cursor_ops \<Rightarrow> int \<Rightarrow> int \<Rightarrow> asgi_message option \<Rightarrow> ws_world \<Rightarrow> ws_world" where
  "ws_receive co max_bytes now message w =
     (let (c, sv) = w; finished = (\<lambda>r. (c\<lparr>wc_receiver := Received r\<rparr>, sv)) in
      if wc_end c \<noteq> None \<or> wc_receiver c \<noteq> Receiving then w
      else (case message of
        None \<Rightarrow> finished (Inl TimedOut)
      | Some m \<Rightarrow>
          if am_type m = ''websocket.disconnect'' then finished (Inr None)
          else (case decode_asgi max_bytes now m of
            Inl err \<Rightarrow> finished (Inl (Failure err))
          | Inr (SubscribeControl t ts b n) \<Rightarrow> finished (Inl (Failure (ProtocolViolation ''a stream can subscribe only once'')))
          | Inr (AcknowledgeControl token) \<Rightarrow>
              (case session_acknowledge co now token (sub_state w) of
                 Inl err \<Rightarrow> finished (Inl (Failure err))
               | Inr (p, st) \<Rightarrow> put_state st w)
          | Inr (HeartbeatControl t) \<Rightarrow> w
          | Inr (ClientCloseControl code reason) \<Rightarrow> finished (Inr (Some (code, reason))))))"

text \<open>The task of \<open>session.__anext__()\<close> runs as far as it gets.\<close>

definition ws_advance :: "(string \<Rightarrow> string) \<Rightarrow> cursor_ops \<Rightarrow> int \<Rightarrow> ws_world \<Rightarrow> ws_world" where
  "ws_advance H co now w =
     (let (c, sv) = w in
      if wc_end c \<noteq> None \<or> wc_next c \<noteq> Awaiting then w
      else (case session_next H (head (sv_db sv)) (sqlite_load (sv_db sv)) co now (sub_state w) of
          (Wait, st) \<Rightarrow> put_state st w
        | (Got frame, st) \<Rightarrow> (let (c', sv') = put_state st w in (c'\<lparr>wc_next := Upcoming (Inr frame)\<rparr>, sv'))
        | (Stopped, st) \<Rightarrow> (let (c', sv') = put_state st w in (c'\<lparr>wc_next := Upcoming (Inl StopIteration)\<rparr>, sv'))
        | (Raised err, st) \<Rightarrow> (let (c', sv') = put_state st w in (c'\<lparr>wc_next := Upcoming (Inl (Failure err))\<rparr>, sv'))))"

text \<open>The main loop wakes up: for the receiver, for the next frame, or for a heartbeat.\<close>

definition ws_wake :: "cursor_ops \<Rightarrow> int \<Rightarrow> ws_world \<Rightarrow> ws_world" where
  "ws_wake co now w =
     (let (c, sv) = w in
      if wc_end c \<noteq> None then w
      else (case wc_receiver c of
        Received (Inl f) \<Rightarrow> ws_fail co now f w
      | Received (Inr None) \<Rightarrow> ws_finish co now Returned w
      | Received (Inr (Some (code, reason))) \<Rightarrow>
          ws_send_close co now code reason (\<lambda>err. ws_fail co now (Failure err)) (ws_finish co now Returned) w
      | Receiving \<Rightarrow>
          (case wc_next c of
             Upcoming (Inl f) \<Rightarrow> ws_fail co now f w
           | Upcoming (Inr frame) \<Rightarrow>
               (case ws_encode (frame_dict frame) of
                  Inl err \<Rightarrow> ws_fail co now (Failure err) w
                | Inr text \<Rightarrow> put_sent [WsSend text] (c\<lparr>wc_next := Awaiting\<rparr>, sv))
           | Awaiting \<Rightarrow>
               (let (beat, st) = session_heartbeat co now (sub_state w) in
                case ws_encode (heartbeat_dict beat) of
                  Inl err \<Rightarrow> ws_fail co now (Failure err) (put_state st w)
                | Inr text \<Rightarrow> put_sent [WsSend text] (put_state st w)))))"

section \<open>The first control frame\<close>

text \<open>The result of opening: the failure that ended it with what was sent, or an open connection.\<close>

definition ws_open ::
  "(string \<Rightarrow> string) \<Rightarrow> service_config \<Rightarrow> sync_limits \<Rightarrow> cursor_ops option \<Rightarrow> int \<Rightarrow> int \<Rightarrow> string \<Rightarrow> principal
     \<Rightarrow> asgi_message option \<Rightarrow> asgi_send list \<Rightarrow> service \<Rightarrow> (asgi_send list \<times> ws_end + ws_conn) \<times> service" where
  "ws_open H cf limits codec max_bytes now twin p message outs sv =
     (let failed = (\<lambda>f. Inl (outs @ [WsClose (fst (fail_close f)) (snd (fail_close f))],
            case reraised f of None \<Rightarrow> Returned | Some g \<Rightarrow> Escaped g)) in
      case message of
        None \<Rightarrow> (failed TimedOut, sv)
      | Some m \<Rightarrow>
          if am_type m = ''websocket.disconnect'' then (Inl (outs, Returned), sv)
          else (case decode_asgi max_bytes now m of
            Inl err \<Rightarrow> (failed (Failure err), sv)
          | Inr (SubscribeControl token types projection n) \<Rightarrow>
              (case open_state_stream H cf limits codec now twin (ap_actor p) token types projection
                  (case n of None \<Rightarrow> PNone | Some k \<Rightarrow> PInt k) sv of
                 (Inl err, sv') \<Rightarrow> (failed (Failure err), sv')
               | (Inr d, sv') \<Rightarrow>
                   (Inr \<lparr>wc_sub = d, wc_receiver = Receiving, wc_next = Awaiting, wc_sent = outs, wc_end = None\<rparr>, sv'))
          | Inr control \<Rightarrow> (failed (Failure (ProtocolViolation ''first WebSocket frame must subscribe'')), sv)))"

end
