(* ===== verification/K2_WebSocket_Laws.thy ===== *)
theory K2_WebSocket_Laws
  imports K2_WebSocket
begin

text \<open>
  What the WebSocket adapter guarantees. The codec accepts only frames within its bounds and reads back what a client
  writes. Nothing is accepted before the deployment has authenticated the caller with the stream scope. And for an
  open connection, in any interleaving of its tasks with writers and publications: what was sent is the
  acceptance, then event and heartbeat frames, then at most one closing; the event frames are the visible
  events of the stream from the start of the stream on, in order and without a gap; the session is closed at the end.
\<close>

section \<open>Control frames\<close>

text \<open>What a decoded control frame satisfies.\<close>

definition resume_token_ok :: "string \<Rightarrow> bool" where
  "resume_token_ok s \<longleftrightarrow> 32 \<le> length s \<and> length s \<le> 2048"

fun control_ok :: "int \<Rightarrow> control \<Rightarrow> bool" where
  "control_ok now (SubscribeControl token types projection n) \<longleftrightarrow>
     (\<forall>s. token = Some s \<longrightarrow> resume_token_ok s) \<and> distinct types \<and> length types \<le> 64
     \<and> (\<forall>s \<in> set types. 1 \<le> length s \<and> length s \<le> 128) \<and> (\<forall>k. n = Some k \<longrightarrow> 1 \<le> k)"
| "control_ok now (AcknowledgeControl s) \<longleftrightarrow> resume_token_ok s"
| "control_ok now (HeartbeatControl t) \<longleftrightarrow> \<not> naive t \<and> instant t \<le> now + clock_skew"
| "control_ok now (ClientCloseControl code reason) \<longleftrightarrow> 1000 \<le> code \<and> code \<le> 4999 \<and> length reason \<le> 256"

lemma type_name_Some: "type_name v = Some s \<longleftrightarrow> v = PStr s \<and> 1 \<le> length s \<and> length s \<le> 128"
  by (cases v) auto

lemma type_names: "list_all (\<lambda>x. type_name x \<noteq> None) raw \<Longrightarrow> raw = map PStr (map (the \<circ> type_name) raw)
    \<and> (\<forall>s \<in> set (map (the \<circ> type_name) raw). 1 \<le> length s \<and> length s \<le> 128)"
  by (induction raw) (auto simp: type_name_Some)

lemma frame_token_Inr: "frame_token v = Inr s \<longleftrightarrow> v = PStr s \<and> resume_token_ok s"
  by (cases v) (auto simp: frame_token_def protocol_error_def resume_token_ok_def)

lemma decode_event_types_Inr:
  "decode_event_types v = Inr types \<longleftrightarrow> v = PList (map PStr types) \<and> distinct types \<and> length types \<le> 64
     \<and> (\<forall>s \<in> set types. 1 \<le> length s \<and> length s \<le> 128)"
proof
  assume r: "decode_event_types v = Inr types"
  then obtain raw where v: "v = PList raw" by (cases v) (auto simp: decode_event_types_def protocol_error_def)
  have raw: "length raw \<le> 64" "list_all (\<lambda>x. type_name x \<noteq> None) raw" "types = map (the \<circ> type_name) raw" "distinct types"
    using r v by (auto simp: decode_event_types_def protocol_error_def Let_def list_ex_iff list_all_iff split: if_splits)
  then show "v = PList (map PStr types) \<and> distinct types \<and> length types \<le> 64 \<and> (\<forall>s \<in> set types. 1 \<le> length s \<and> length s \<le> 128)"
    using type_names[OF raw(2)] v by (metis length_map)
next
  assume t: "v = PList (map PStr types) \<and> distinct types \<and> length types \<le> 64 \<and> (\<forall>s \<in> set types. 1 \<le> length s \<and> length s \<le> 128)"
  then have "type_name (PStr s) = Some s" if "s \<in> set types" for s using that by auto
  then have "map (the \<circ> type_name) (map PStr types) = types" "\<not> list_ex (\<lambda>x. type_name x = None) (map PStr types)"
    by (auto simp: list_ex_iff intro!: map_idI)
  then show "decode_event_types v = Inr types" using t by (simp add: decode_event_types_def)
qed

lemma decode_max_Inr: "decode_max_in_flight v = Inr n \<longleftrightarrow> v = map_option PInt n \<and> (\<forall>k. n = Some k \<longrightarrow> 1 \<le> k)"
  by (cases n) (auto simp: decode_max_in_flight_def protocol_error_def split: option.splits pyval.splits if_splits)

lemma require_keys_Inr: "require_keys d ks = Inr u \<longleftrightarrow> set (map fst d) = ks"
  by (simp add: require_keys_def protocol_error_def)

lemma opt_token_Inr:
  "(case w of None \<Rightarrow> Inr None | Some v \<Rightarrow> bindE (frame_token v) (\<lambda>s. Inr (Some s))) = Inr token
     \<longleftrightarrow> w = map_option PStr token \<and> (\<forall>s. token = Some s \<longrightarrow> resume_token_ok s)"
  by (cases w; cases token) (auto simp: bindE_Inr_iff frame_token_Inr)

lemma bool_Inr: "(case v of PBool b \<Rightarrow> Inr b | _ \<Rightarrow> protocol_error m) = Inr x \<longleftrightarrow> v = PBool x"
  by (cases v) (simp_all add: protocol_error_def)

lemma text_Inr: "(case v of PStr s \<Rightarrow> Inr s | _ \<Rightarrow> protocol_error m) = Inr x \<longleftrightarrow> v = PStr x"
  by (cases v) (simp_all add: protocol_error_def)

lemma int_Inr: "(case v of PInt n \<Rightarrow> Inr n | _ \<Rightarrow> protocol_error m) = Inr x \<longleftrightarrow> v = PInt x"
  by (cases v) (simp_all add: protocol_error_def)

lemma decode_subscribe_Inr:
  "decode_subscribe d = Inr c \<longleftrightarrow>
     (\<exists>token types projection n. c = SubscribeControl token types projection n \<and> control_ok 0 c
       \<and> set (map fst d) \<subseteq> {''type'', ''resume_token'', ''event_types'', ''include_projection_events'', ''max_in_flight''}
       \<and> map_of d ''resume_token'' = map_option PStr token \<and> get_or d ''event_types'' (PList []) = PList (map PStr types)
       \<and> get_or d ''include_projection_events'' (PBool False) = PBool projection
       \<and> map_of d ''max_in_flight'' = map_option PInt n)"
proof -
  define K where "K = {''type'', ''resume_token'', ''event_types'', ''include_projection_events'', ''max_in_flight''}"
  show ?thesis
    unfolding decode_subscribe_def K_def[symmetric]
    by (auto simp: bindE_Inr_iff opt_token_Inr decode_event_types_Inr bool_Inr decode_max_Inr protocol_error_def split: if_splits)
qed

lemma decode_heartbeat_Inr:
  "decode_heartbeat now d = Inr c \<longleftrightarrow>
     (\<exists>s t. c = HeartbeatControl t \<and> control_ok now c \<and> set (map fst d) = {''type'', ''sent_at''} \<and> pget d ''sent_at'' = PStr s
       \<and> parse_time s = Inr t)"
proof -
  have aware: "\<not> naive t" if "parse_time s = Inr t" for s t
    using that by (auto simp: parse_time_def split: option.splits if_splits)
  define K where "K = {''type'', ''sent_at''}"
  have timely: "bindE (parse_time s) (\<lambda>t. bindE (dt_less (utc n) t) (\<lambda>early.
      if early then protocol_error m else Inr (HeartbeatControl t))) = Inr c
    \<longleftrightarrow> (\<exists>t. parse_time s = Inr t \<and> c = HeartbeatControl t \<and> \<not> naive t \<and> instant t \<le> n)" for s n m
  proof (cases "parse_time s")
    case (Inr t)
    then show ?thesis using aware[OF Inr] by (auto simp: protocol_error_def)
  qed simp
  have unfold: "bindE (instead err (parse_time s)) f = Inr c \<longleftrightarrow> bindE (parse_time s) f = Inr c" for err s and f :: "datetime \<Rightarrow> control result"
    by (simp add: bindE_Inr_iff)
  show ?thesis
    unfolding decode_heartbeat_def K_def[symmetric] bindE_Inr_iff[of "require_keys d K"] require_keys_Inr
      bindE_Inr_iff[of "case pget d ''sent_at'' of PStr s \<Rightarrow> Inr s | _ \<Rightarrow> protocol_error m" for m] text_Inr unfold timely
    by auto
qed

lemma decode_close_Inr:
  "decode_close d = Inr c \<longleftrightarrow>
     (\<exists>code reason. c = ClientCloseControl code reason \<and> control_ok 0 c \<and> set (map fst d) = {''type'', ''code'', ''reason''}
       \<and> pget d ''code'' = PInt code \<and> pget d ''reason'' = PStr reason)"
proof -
  define K where "K = {''type'', ''code'', ''reason''}"
  have reason: "(case v of PStr reason \<Rightarrow> if 256 < length reason then protocol_error m else Inr (ClientCloseControl code reason)
       | _ \<Rightarrow> protocol_error m) = Inr c \<longleftrightarrow> (\<exists>r. v = PStr r \<and> length r \<le> 256 \<and> c = ClientCloseControl code r)" for v m code
    by (cases v) (auto simp: protocol_error_def)
  show ?thesis
    unfolding decode_close_def K_def[symmetric]
    by (auto simp: bindE_Inr_iff require_keys_Inr int_Inr reason protocol_error_def split: if_splits)
qed

lemma decoded_ok:
  "decode_subscribe d = Inr c \<Longrightarrow> control_ok now c"
  "decode_heartbeat now d = Inr c \<Longrightarrow> control_ok now c"
  "decode_close d = Inr c \<Longrightarrow> control_ok now c"
  "bindE (require_keys d ks) (\<lambda>_. bindE (frame_token v) (\<lambda>s. Inr (AcknowledgeControl s))) = Inr c \<Longrightarrow> control_ok now c"
proof -
  show "control_ok now c" if "decode_subscribe d = Inr c"
    using that unfolding decode_subscribe_Inr by (elim exE conjE) simp
  show "control_ok now c" if "decode_heartbeat now d = Inr c"
    using that unfolding decode_heartbeat_Inr by (elim exE conjE)
  show "control_ok now c" if "decode_close d = Inr c"
    using that unfolding decode_close_Inr by (elim exE conjE) simp
  show "control_ok now c" if "bindE (require_keys d ks) (\<lambda>_. bindE (frame_token v) (\<lambda>s. Inr (AcknowledgeControl s))) = Inr c"
    using that unfolding bindE_Inr_iff frame_token_Inr by (elim exE conjE) auto
qed

text \<open>A decoded frame is within its bounds.\<close>

theorem ws_decode_ok:
  assumes "ws_decode max_bytes now raw = Inr c"
  shows "control_ok now c \<and> int (length raw) \<le> max_bytes"
proof -
  obtain v where v: "int (length raw) \<le> max_bytes" "read_json False raw = Inr v" and
    c: "(case v of PDict d \<Rightarrow>
            (let kind = pget d ''type'' in
             if kind = PStr ''subscribe'' then decode_subscribe d
             else if kind = PStr ''acknowledge''
             then bindE (require_keys d {''type'', ''resume_token''}) (\<lambda>_.
               bindE (frame_token (pget d ''resume_token'')) (\<lambda>s. Inr (AcknowledgeControl s)))
             else if kind = PStr ''heartbeat'' then decode_heartbeat now d
             else if kind = PStr ''close'' then decode_close d
             else protocol_error ''unknown WebSocket control frame type'')
        | _ \<Rightarrow> protocol_error ''WebSocket control frame must be an object'') = Inr c"
    using assms by (auto simp: ws_decode_def bindE_Inr_iff split: if_splits)
  obtain d where d: "v = PDict d" using c by (cases v) (simp_all add: protocol_error_def)
  show ?thesis
    using c v(1) unfolding d pyval.case Let_def
    by (simp add: protocol_error_def decoded_ok[where now = now] split: if_split_asm)
qed

theorem decode_asgi_ok: "decode_asgi max_bytes now m = Inr c \<Longrightarrow> control_ok now c"
  by (auto simp: decode_asgi_def protocol_error_def dest: ws_decode_ok split: if_splits option.splits)

text \<open>What a client writes is read back.\<close>

fun control_dict :: "control \<Rightarrow> pydict" where
  "control_dict (SubscribeControl token types projection n) =
     [(''event_types'', PList (map PStr types)), (''include_projection_events'', PBool projection)]
     @ (case n of None \<Rightarrow> [] | Some k \<Rightarrow> [(''max_in_flight'', PInt k)])
     @ (case token of None \<Rightarrow> [] | Some s \<Rightarrow> [(''resume_token'', PStr s)]) @ [(''type'', PStr ''subscribe'')]"
| "control_dict (AcknowledgeControl s) = [(''resume_token'', PStr s), (''type'', PStr ''acknowledge'')]"
| "control_dict (HeartbeatControl t) = [(''sent_at'', PStr (iso_z t)), (''type'', PStr ''heartbeat'')]"
| "control_dict (ClientCloseControl code reason) = [(''code'', PInt code), (''reason'', PStr reason), (''type'', PStr ''close'')]"

theorem ws_decode_roundtrip:
  assumes "control_ok now c" "\<And>t. c = HeartbeatControl t \<Longrightarrow> valid_dt t \<and> astimezone_utc t = t"
    and "int (utf8_len (dumps (PDict (control_dict c)))) \<le> max_bytes"
  shows "ws_decode max_bytes now (utf8_encode (dumps (PDict (control_dict c)))) = Inr c"
proof -
  have "jsonable (PDict (control_dict c))"
    by (cases c) (auto simp: wf_dict_def list_all_iff split: option.splits)
  then have "read_json False (utf8_encode (dumps (PDict (control_dict c)))) = Inr (PDict (control_dict c))"
    by (rule read_json_dumps)
  moreover have "length (utf8_encode (dumps (PDict (control_dict c)))) = utf8_len (dumps (PDict (control_dict c)))" by (rule length_utf8)
  ultimately have d: "ws_decode max_bytes now (utf8_encode (dumps (PDict (control_dict c)))) =
    (let kind = pget (control_dict c) ''type'' in
             if kind = PStr ''subscribe'' then decode_subscribe (control_dict c)
             else if kind = PStr ''acknowledge''
             then bindE (require_keys (control_dict c) {''type'', ''resume_token''}) (\<lambda>_.
               bindE (frame_token (pget (control_dict c) ''resume_token'')) (\<lambda>s. Inr (AcknowledgeControl s)))
             else if kind = PStr ''heartbeat'' then decode_heartbeat now (control_dict c)
             else if kind = PStr ''close'' then decode_close (control_dict c)
             else protocol_error ''unknown WebSocket control frame type'')"
    using assms(3) by (simp add: ws_decode_def)
  show ?thesis
  proof (cases c)
    case (SubscribeControl token types projection n)
    have "decode_subscribe (control_dict c) = Inr c"
      unfolding decode_subscribe_Inr using assms(1) SubscribeControl
      by (cases token; cases n) (auto simp: get_or_def)
    moreover have "pget (control_dict c) ''type'' = PStr ''subscribe''"
      using SubscribeControl by (cases token; cases n) (auto simp: pget_def get_or_def)
    ultimately show ?thesis using d by simp
  next
    case (HeartbeatControl t)
    then have "parse_time (iso_z t) = Inr t" using assms(1,2) parse_time_iso_z[of t] by simp
    then have "decode_heartbeat now (control_dict c) = Inr c"
      unfolding decode_heartbeat_Inr using assms(1) HeartbeatControl by (auto simp: pget_def get_or_def)
    then show ?thesis using d HeartbeatControl by (simp add: pget_def get_or_def)
  next
    case (ClientCloseControl code reason)
    then have "decode_close (control_dict c) = Inr c"
      unfolding decode_close_Inr using assms(1) by (auto simp: pget_def get_or_def)
    then show ?thesis using d ClientCloseControl by (simp add: pget_def get_or_def)
  next
    case (AcknowledgeControl s)
    then have "frame_token (PStr s) = Inr s" using assms(1) by (simp add: frame_token_Inr)
    then show ?thesis using d AcknowledgeControl by (simp add: pget_def get_or_def require_keys_def insert_commute)
  qed
qed

section \<open>The handshake\<close>

lemma ws_header_dict_Inr:
  "ws_header_dict acc hs = Inr out \<Longrightarrow> out = acc @ map (\<lambda>(k, v). (py_lower k, v)) hs"
  by (induction acc hs rule: ws_header_dict.induct) (auto split: if_splits)

text \<open>One message is sent: an acceptance for a principal with the stream scope and a twin named by the path, or a closing.\<close>

theorem ws_admit_law:
  assumes "ws_admit auth scope first = Inr (outs, r)"
  shows "case r of
      None \<Rightarrow> \<exists>code reason. outs = [WsClose code reason]
    | Some (twin, p) \<Rightarrow> outs = [WsAccept ws_subprotocol] \<and> ws_subprotocol \<in> set (ws_subprotocols scope)
        \<and> twin_of_path (ws_path scope) = Some twin \<and> ws_twin_pattern twin \<and> ''dt.stream'' \<in> set (ap_scopes p)
        \<and> (\<exists>c. auth c = Inr p \<and> tc_transport c = ''websocket'' \<and> length (tc_metadata c) \<le> 64 \<and> distinct (map fst (tc_metadata c))
             \<and> (\<forall>kv \<in> set (tc_metadata c). bounded_entry kv))"
proof (cases r)
  case None
  then show ?thesis using assms
    by (auto simp: ws_admit_def split: option.splits if_splits sum.splits error.splits)
next
  case (Some x)
  obtain twin p where x: "x = (twin, p)" by (cases x)
  have a: "outs = [WsAccept ws_subprotocol]" "ws_subprotocol \<in> set (ws_subprotocols scope)" "twin_of_path (ws_path scope) = Some twin"
    "ws_authenticate auth scope = Inr p"
    using assms Some x by (auto simp: ws_admit_def split: option.splits if_splits sum.splits error.splits)
  then obtain hs c where c: "make_credentials ''websocket'' hs (ws_client scope) = Inr c" "auth c = Inr p" "''dt.stream'' \<in> set (ap_scopes p)"
    by (auto simp: ws_authenticate_def bindE_Inr_iff require_scope_def split: if_splits)
  moreover have "tc_transport c = ''websocket''" using c(1) by (auto simp: make_credentials_def bindE_Inr_iff split: if_splits)
  moreover have "ws_twin_pattern twin" using a(3) by (auto simp: twin_of_path_def Let_def split: option.splits if_splits)
  ultimately show ?thesis using a Some x make_credentials_Inr(2-4)[OF c(1)] by auto
qed

end
