(* ===== verification/K2_WebSocket_Run.thy ===== *)
theory K2_WebSocket_Run
  imports K2_WebSocket_Laws
begin

text \<open>
  An open WebSocket connection in any interleaving of its receiving task, its delivering task and its main loop with
  writers and publications. Shown: the event frames sent are the visible events of the ledger from the start of the
  stream, in order and without a gap or a repetition; a connection that ended has closed its subscription, and
  at most one closing follows the frames.
\<close>

section \<open>Runs\<close>

inductive ws_run :: "(string \<Rightarrow> string) \<Rightarrow> cursor_ops \<Rightarrow> int \<Rightarrow> ws_world \<Rightarrow> ws_world \<Rightarrow> bool" for H co max_bytes w where
  ws_start: "ws_run H co max_bytes w w"
| ws_run_receive: "ws_run H co max_bytes w v \<Longrightarrow> ws_run H co max_bytes w (ws_receive co max_bytes now m v)"
| ws_run_advance: "ws_run H co max_bytes w v \<Longrightarrow> ws_run H co max_bytes w (ws_advance H co now v)"
| ws_run_wake: "ws_run H co max_bytes w v \<Longrightarrow> ws_run H co max_bytes w (ws_wake co now v)"
| ws_run_append: "ws_run H co max_bytes w (c, sv) \<Longrightarrow> append H now ev n (sv_db sv) = Inr (out, db') \<Longrightarrow> admissible now ev \<Longrightarrow>
    ws_run H co max_bytes w (c, sv\<lparr>sv_db := db'\<rparr>)"
| ws_run_publish: "ws_run H co max_bytes w (c, sv) \<Longrightarrow> ev \<in> set (stream (sv_db sv) (twin_id ev)) \<Longrightarrow>
    ws_run H co max_bytes w (c, sv\<lparr>sv_env := (sv_env sv)\<lparr>se_broker := broker_publish ev (se_broker (sv_env sv))\<rparr>\<rparr>)"

section \<open>Standing of the subscription\<close>

definition world_of :: "event list \<Rightarrow> ws_world \<Rightarrow> stream_world" where
  "world_of evs w = \<lparr>sw_db = sv_db (snd w), sw_env = sv_env (snd w), sw_sub = wc_sub (fst w), sw_emitted = evs\<rparr>"

lemma world_of_put [simp]:
  "world_of evs (put_state (d, env) w) = (world_of evs' w)\<lparr>sw_sub := d, sw_env := env, sw_emitted := evs\<rparr>"
  by (simp add: world_of_def put_state_def)

lemma stands_metrics:
  assumes "stands H twin start shown m n w" "se_broker env = se_broker (sw_env w)"
  shows "stands H twin start shown m n (w\<lparr>sw_env := env\<rparr>)"
  using assms by (simp add: stands_def Let_def core_def live_items_def live_of_def)

lemma stands_closed:
  assumes "stands H twin start shown m n w" "durable_close (sw_sub w, sw_env w) = (d, env)"
  shows "stands H twin start shown m n (w\<lparr>sw_sub := d, sw_env := env\<rparr>)" "ds_closed d"
proof -
  have d: "d = (sw_sub w)\<lparr>ds_closed := True\<rparr>" using core_close(2)[of twin "stream (sw_db w) twin" n "(sw_sub w, sw_env w)"] assms
    by (simp add: stands_def Let_def)
  have "core twin (stream (sw_db w) twin) n (d, env)"
    using core_close(1)[of twin "stream (sw_db w) twin" n "(sw_sub w, sw_env w)"] assms by (simp add: stands_def Let_def)
  then show "stands H twin start shown m n (w\<lparr>sw_sub := d, sw_env := env\<rparr>)" using assms(1) d by (simp add: stands_def Let_def window_def)
  show "ds_closed d" by (simp add: d)
qed

lemma stands_append:
  assumes "stands H twin start shown m n w" "append H now ev k (sw_db w) = Inr (out, db')" "admissible now ev"
  shows "\<exists>m n. stands H twin start shown m n (w\<lparr>sw_db := db'\<rparr>)"
  using streaming_stands[OF streaming.stream_append[OF streaming.stream_refl assms(2,3)] assms(1)] .

lemma stands_publish:
  assumes "stands H twin start shown m n w" "ev \<in> set (stream (sw_db w) (twin_id ev))"
  shows "\<exists>m n. stands H twin start shown m n (w\<lparr>sw_env := (sw_env w)\<lparr>se_broker := broker_publish ev (se_broker (sw_env w))\<rparr>\<rparr>)"
  using streaming_stands[OF streaming.stream_publish[OF streaming.stream_refl assms(2)] assms(1)] .

lemma stands_twin:
  assumes "stands H twin start shown m n w"
  shows "sp_twin_id (ds_acknowledged (sw_sub w)) = twin" "twin \<noteq> []"
  using assms by (simp_all add: stands_def Let_def core_def window_def position_at_def)

section \<open>Texts of frames\<close>

definition flat :: "pyval \<Rightarrow> bool" where
  "flat v \<longleftrightarrow> (\<exists>s. v = PStr s) \<or> (\<exists>n. v = PInt n)"

lemma set_dict_of: "set (dict_of kvs) \<subseteq> set kvs"
proof -
  have "set (fold (\<lambda>kv d. dict_set (fst kv) (snd kv) d) kvs d) \<subseteq> set kvs \<union> set d" for d
    by (induction kvs arbitrary: d) (use set_dict_set in fastforce)+
  from this[of "[]"] show ?thesis by (simp add: dict_of_def)
qed

lemma flat_dict: "\<forall>(k, v) \<in> set kvs. flat v \<Longrightarrow> finite_floats (to_primitive (PDict (dict_of kvs)))"
  using set_dict_of[of kvs] by (force simp: list_all_iff flat_def)

lemma frames_encode [simp]:
  "ws_encode (frame_dict f) = Inr (dumps (frame_dict f))"
  "ws_encode (heartbeat_dict b) = Inr (dumps (heartbeat_dict b))"
  "ws_encode (close_dict c) = Inr (dumps (close_dict c))"
  unfolding ws_encode_def frame_dict_def heartbeat_dict_def close_dict_def
  by (subst flat_dict; simp add: flat_def)+

section \<open>The invariant\<close>

definition item_dict :: "state_frame + heartbeat_frame \<Rightarrow> pyval" where
  "item_dict i = (case i of Inl f \<Rightarrow> frame_dict f | Inr b \<Rightarrow> heartbeat_dict b)"

definition frames_of :: "(state_frame + heartbeat_frame) list \<Rightarrow> state_frame list" where
  "frames_of items = concat (map (case_sum (\<lambda>f. [f]) (\<lambda>b. [])) items)"

definition reports :: "cursor_ops \<Rightarrow> event \<Rightarrow> state_frame \<Rightarrow> bool" where
  "reports co ev f \<longleftrightarrow> (\<exists>now. f = frame_from_event ev (co_issue co now (pos_of ev)))"

text \<open>Nothing after a disconnection, otherwise a close frame with its close message.\<close>

definition closing_ok :: "string \<Rightarrow> asgi_send list \<Rightarrow> bool" where
  "closing_ok twin closing \<longleftrightarrow> closing = [] \<or> (\<exists>code reason frame. closing = [WsSend (dumps (close_dict frame)), WsClose code reason]
     \<and> cf_twin_id frame = twin \<and> cf_code frame = code \<and> cf_reason frame = reason \<and> 1000 \<le> code \<and> code \<le> 4999)"

definition pending :: "upcoming \<Rightarrow> state_frame list" where
  "pending u = (case u of Upcoming (Inr f) \<Rightarrow> [f] | _ \<Rightarrow> [])"

definition close_request_ok :: "receiver \<Rightarrow> bool" where
  "close_request_ok r \<longleftrightarrow> (\<forall>code reason. r = Received (Inr (Some (code, reason))) \<longrightarrow> 1000 \<le> code \<and> code \<le> 4999 \<and> length reason \<le> 256)"

definition ws_inv ::
  "(string \<Rightarrow> string) \<Rightarrow> cursor_ops \<Rightarrow> string \<Rightarrow> nat \<Rightarrow> (event \<Rightarrow> bool) \<Rightarrow> asgi_send list \<Rightarrow> ws_world \<Rightarrow> bool" where
  "ws_inv H co twin start shown outs w \<longleftrightarrow> (\<exists>m n evs items closing.
     stands H twin start shown m n (world_of evs w)
     \<and> wc_sent (fst w) = outs @ map (\<lambda>i. WsSend (dumps (item_dict i))) items @ closing
     \<and> close_request_ok (wc_receiver (fst w))
     \<and> (if wc_end (fst w) = None then closing = [] \<and> list_all2 (reports co) evs (frames_of items @ pending (wc_next (fst w)))
        else closing_ok twin closing \<and> ds_closed (wc_sub (fst w)) \<and> (\<exists>k. list_all2 (reports co) (take k evs) (frames_of items))))"

lemma frames_of_inl: "frames_of items = [f. Inl f \<leftarrow> items]"
  by (induction items) (auto simp: frames_of_def split: sum.split)

lemma frames_of_simps [simp]:
  "frames_of (xs @ ys) = frames_of xs @ frames_of ys" "frames_of [Inl f] = [f]" "frames_of [Inr b] = []" "frames_of [] = []"
  by (simp_all add: frames_of_def)

text \<open>Ending: the session is closed in the \<open>finally\<close> clause, whatever was sent before.\<close>

lemma close_succeeds:
  assumes "stands H twin start shown m n (world_of evs w)" "\<And>now p. co_issue co now p \<noteq> []"
    and "1000 \<le> code" "code \<le> 4999" "length reason \<le> 256"
  shows "\<exists>frame d env. session_close co now code reason (sub_state w) = (Inr frame, (d, env)) \<and> cf_twin_id frame = twin
    \<and> cf_code frame = code \<and> cf_reason frame = reason
    \<and> stands H twin start shown m n (world_of evs (put_state (d, env) w)) \<and> ds_closed d"
proof -
  obtain d env where de: "durable_close (sub_state w) = (d, env)" by (cases "durable_close (sub_state w)")
  have "durable_close (sw_sub (world_of evs w), sw_env (world_of evs w)) = (d, env)" using de by (simp add: sub_state_def world_of_def)
  from stands_closed[OF assms(1) this] have s: "stands H twin start shown m n (world_of evs (put_state (d, env) w))" "ds_closed d"
    by (simp_all add: world_of_def put_state_def)
  have "sp_twin_id (ds_acknowledged (wc_sub (fst w))) = twin" "twin \<noteq> []"
    using stands_twin[OF assms(1)] by (simp_all add: world_of_def)
  then show ?thesis
    using s assms(2-5) de by (simp add: session_close_def make_close_frame_def Let_def sub_state_def)
qed

lemma finish_inv:
  assumes "stands H twin start shown m n (world_of evs w)" "\<And>now p. co_issue co now p \<noteq> []"
    and "wc_sent (fst w) = outs @ map (\<lambda>i. WsSend (dumps (item_dict i))) items @ closing" "close_request_ok (wc_receiver (fst w))"
    and "closing_ok twin closing" "list_all2 (reports co) (take k evs) (frames_of items)"
  shows "ws_inv H co twin start shown outs (ws_finish co now e w)"
proof -
  from close_succeeds[where code = 1000 and reason = "''normal''" and now = now, OF assms(1,2)] obtain frame d env where
    c: "session_close co now 1000 ''normal'' (sub_state w) = (Inr frame, (d, env))"
      "stands H twin start shown m n (world_of evs (put_state (d, env) w))" "ds_closed d" by auto
  have f: "ws_finish co now e w = ((fst (put_state (d, env) w))\<lparr>wc_end := Some e\<rparr>, snd (put_state (d, env) w))"
    using c(1) by (simp add: ws_finish_def put_state_def)
  have "stands H twin start shown m n (world_of evs (ws_finish co now e w))"
    using c(2) unfolding f by (simp add: world_of_def put_state_def)
  then show ?thesis
    unfolding ws_inv_def using assms(3-6) c(3)
    by (intro exI[of _ m] exI[of _ n] exI[of _ evs] exI[of _ items] exI[of _ closing]) (auto simp: f put_state_def)
qed

lemma send_close_inv:
  assumes "stands H twin start shown m n (world_of evs w)" "\<And>now p. co_issue co now p \<noteq> []"
    and "wc_sent (fst w) = outs @ map (\<lambda>i. WsSend (dumps (item_dict i))) items" "close_request_ok (wc_receiver (fst w))"
    and "list_all2 (reports co) (take k evs) (frames_of items)" "1000 \<le> code" "code \<le> 4999" "length reason \<le> 256"
  shows "ws_inv H co twin start shown outs (ws_send_close co now code reason failed (ws_finish co now e) w)"
proof -
  from close_succeeds[OF assms(1,2,6-8)] obtain frame d env where
    c: "session_close co now code reason (sub_state w) = (Inr frame, (d, env))" "cf_twin_id frame = twin" "cf_code frame = code"
      "cf_reason frame = reason" "stands H twin start shown m n (world_of evs (put_state (d, env) w))" by blast
  let ?w = "put_sent [WsSend (dumps (close_dict frame)), WsClose code reason] (put_state (d, env) w)"
  have "ws_send_close co now code reason failed (ws_finish co now e) w = ws_finish co now e ?w"
    using c(1) by (simp add: ws_send_close_def)
  moreover have "ws_inv H co twin start shown outs (ws_finish co now e ?w)"
  proof (rule finish_inv[OF _ assms(2) _ _ _ assms(5)])
    show "stands H twin start shown m n (world_of evs ?w)" using c(5) by (simp add: world_of_def put_sent_def put_state_def)
    show "wc_sent (fst ?w) = outs @ map (\<lambda>i. WsSend (dumps (item_dict i))) items @ [WsSend (dumps (close_dict frame)), WsClose code reason]"
      by (simp add: put_sent_def put_state_def assms(3))
    show "close_request_ok (wc_receiver (fst ?w))" using assms(4) by (simp add: put_sent_def put_state_def)
    show "closing_ok twin [WsSend (dumps (close_dict frame)), WsClose code reason]"
      using c(2-4) assms(6,7) by (auto simp: closing_ok_def)
  qed
  ultimately show ?thesis by simp
qed

lemma fail_close_bounds: "1000 \<le> fst (fail_close f) \<and> fst (fail_close f) \<le> 4999 \<and> length (snd (fail_close f)) \<le> 256"
  by (induction f rule: fail_close.induct) simp_all

lemma fail_inv:
  assumes "stands H twin start shown m n (world_of evs w)" "\<And>now p. co_issue co now p \<noteq> []"
    and "wc_sent (fst w) = outs @ map (\<lambda>i. WsSend (dumps (item_dict i))) items" "close_request_ok (wc_receiver (fst w))"
    and "list_all2 (reports co) (take k evs) (frames_of items)"
  shows "ws_inv H co twin start shown outs (ws_fail co now f w)"
  using send_close_inv[OF assms, of "fst (fail_close f)" "snd (fail_close f)"] fail_close_bounds[of f]
  by (simp add: ws_fail_def case_prod_beta' Let_def)

section \<open>Every step keeps the invariant\<close>

text \<open>A delivery that hands out no frame handed out no event: the position of an event of the stream is always made.\<close>

lemma position_made:
  assumes "stands H twin start shown m n w" "sqlite_next H w = (Got ev, d, env)"
  shows "make_position (twin_id ev) (sequence ev) (event_hash ev) = Inr (pos_of ev)"
proof -
  let ?c = "stream (sw_db w) twin"
  have st: "streamable H (sw_db w)" using assms(1) by (simp add: stands_def Let_def)
  then have inv: "db_inv H (sw_db w)" by (simp add: streamable_def)
  from stands_next[OF assms] obtain m' n' where
    "stands H twin start shown m' n' (w\<lparr>sw_sub := d, sw_env := env, sw_emitted := sw_emitted w @ [ev]\<rparr>)" by auto
  then have "sw_emitted w @ [ev] = filter shown (drop start (take n' ?c))" by (simp add: stands_def Let_def)
  then have "ev \<in> set (filter shown (drop start (take n' ?c)))" by (metis in_set_conv_decomp)
  then have ev: "ev \<in> set ?c" by (auto dest: in_set_dropD in_set_takeD)
  then obtain k where k: "k < length ?c" "ev = ?c ! k" by (metis in_set_conv_nth)
  have "sequence ev = int k + 1" using chain_verify_nth(2)[OF ledger.chain_law[OF st] k(1)] k(2) by simp
  moreover have "hash_pattern (event_hash ev)" using ledger.names_law[OF st, of twin] k by (simp add: names_chain_def)
  moreover have "twin_id ev \<noteq> []" using in_stream_twin[OF inv ev] stands_twin(2)[OF assms(1)] by simp
  ultimately show ?thesis by (simp add: make_position_def pos_of_def)
qed

lemma session_next_other:
  assumes "session_next H (head (sw_db w)) (sqlite_load (sw_db w)) co now (sw_sub w, sw_env w) = (res, (d, env))"
    and "\<forall>f. res \<noteq> Got f" "stands H twin start shown m n w"
  shows "\<exists>m' n'. stands H twin start shown m' n' (w\<lparr>sw_sub := d, sw_env := env\<rparr>)"
proof -
  obtain r d' env' where r: "sqlite_next H w = (r, d', env')" by (metis prod.exhaust)
  have "\<forall>ev. r \<noteq> Got ev" "d' = d" "env' = env"
    using assms(1,2) r position_made[OF assms(3)]
    by (auto simp: session_next_def sqlite_next_def split: outcome.splits)
  then show ?thesis using stands_next[OF assms(3) r] by (cases r) auto
qed

lemma session_acknowledge_inner:
  assumes "session_acknowledge co now token (d0, env0) = Inr (p, (d, env))"
  shows "\<exists>q. acknowledge q d0 = Inr (p, d) \<and> env = count mx_acknowledgements_update env0"
  using assms by (auto simp: session_acknowledge_def bindE_Inr_iff split: prod.splits)

lemma receive_inv:
  assumes "ws_inv H co twin start shown outs w"
  shows "ws_inv H co twin start shown outs (ws_receive co max_bytes now message w)"
proof (cases "wc_end (fst w) \<noteq> None \<or> wc_receiver (fst w) \<noteq> Receiving")
  case True
  then show ?thesis using assms by (auto simp: ws_receive_def Let_def split: prod.splits)
next
  case False
  obtain c sv where w: "w = (c, sv)" by (cases w)
  from assms False obtain m n evs items where i: "stands H twin start shown m n (world_of evs w)"
    "wc_sent c = outs @ map (\<lambda>i. WsSend (dumps (item_dict i))) items"
    "list_all2 (reports co) evs (frames_of items @ pending (wc_next c))" "wc_end c = None"
    unfolding ws_inv_def w by auto
  have over: "ws_inv H co twin start shown outs (c\<lparr>wc_receiver := Received r\<rparr>, sv)" if "close_request_ok (Received r)" for r
    unfolding ws_inv_def using i that
    by (intro exI[of _ m] exI[of _ n] exI[of _ evs] exI[of _ items] exI[of _ "[]"]) (simp add: world_of_def w)
  have acked: "ws_inv H co twin start shown outs (put_state st w)"
    if accepted: "session_acknowledge co now token (sub_state w) = Inr (p, st)" for token p st
  proof -
    obtain d env where st: "st = (d, env)" by (cases st)
    obtain q where a: "acknowledge q (wc_sub c) = Inr (p, d)" "env = count mx_acknowledgements_update (sv_env sv)"
      using session_acknowledge_inner[of co now token "wc_sub c" "sv_env sv" p d env] accepted st w by (auto simp: sub_state_def)
    have "acknowledge q (sw_sub (world_of evs w)) = Inr (p, d)" using a(1) by (simp add: world_of_def w)
    from stands_ack[OF i(1) this] obtain m' where "stands H twin start shown m' n ((world_of evs w)\<lparr>sw_sub := d\<rparr>)" by blast
    from stands_metrics[OF this, of env] have s: "stands H twin start shown m' n (world_of evs (put_state st w))"
      using a(2) by (simp add: st world_of_def w put_state_def)
    show ?thesis
      unfolding ws_inv_def using s i(2-4)
      by (intro exI[of _ m'] exI[of _ n] exI[of _ evs] exI[of _ items] exI[of _ "[]"])
        (use False in \<open>auto simp: put_state_def w close_request_ok_def\<close>)
  qed
  show ?thesis
  proof (cases message)
    case None
    then show ?thesis using False w over by (simp add: ws_receive_def close_request_ok_def)
  next
    case (Some msg)
    show ?thesis
    proof (cases "am_type msg = ''websocket.disconnect''")
      case True
      then show ?thesis using False w Some over by (simp add: ws_receive_def close_request_ok_def)
    next
      case no: False
      show ?thesis
      proof (cases "decode_asgi max_bytes now msg")
        case (Inl err)
        then show ?thesis using False w Some no over by (simp add: ws_receive_def close_request_ok_def)
      next
        case (Inr control)
        have "control_ok now control" by (rule decode_asgi_ok[OF Inr])
        then show ?thesis
          using False w Some no Inr over acked assms
          by (cases control) (auto simp: ws_receive_def close_request_ok_def Let_def split: sum.splits)
      qed
    qed
  qed
qed

lemma advance_inv:
  assumes "ws_inv H co twin start shown outs w"
  shows "ws_inv H co twin start shown outs (ws_advance H co now w)"
proof (cases "wc_end (fst w) \<noteq> None \<or> wc_next (fst w) \<noteq> Awaiting")
  case True
  then show ?thesis using assms by (auto simp: ws_advance_def Let_def split: prod.splits)
next
  case False
  obtain c sv where w: "w = (c, sv)" by (cases w)
  from assms False obtain m n evs items where i: "stands H twin start shown m n (world_of evs w)"
    "wc_sent c = outs @ map (\<lambda>i. WsSend (dumps (item_dict i))) items"
    "list_all2 (reports co) evs (frames_of items)" "wc_end c = None" "wc_next c = Awaiting" "close_request_ok (wc_receiver c)"
    unfolding ws_inv_def w by (auto simp: pending_def)
  obtain res d env where nxt: "session_next H (head (sv_db sv)) (sqlite_load (sv_db sv)) co now (sub_state w) = (res, (d, env))"
    by (metis prod.exhaust)
  have nxt': "session_next H (head (sw_db (world_of evs w))) (sqlite_load (sw_db (world_of evs w))) co now
      (sw_sub (world_of evs w), sw_env (world_of evs w)) = (res, (d, env))"
    using nxt by (simp add: world_of_def w sub_state_def)
  show ?thesis
  proof (cases "\<exists>f. res = Got f")
    case True
    then obtain f where f: "res = Got f" by blast
    from session_next_frame[OF nxt'[unfolded f] i(1)] obtain ev env' m' n' where
      e: "f = frame_from_event ev (co_issue co now (pos_of ev))" "env = count mx_emitted_frames_update env'"
        "stands H twin start shown m' n' ((world_of evs w)\<lparr>sw_sub := d, sw_env := env', sw_emitted := evs @ [ev]\<rparr>)"
      by (auto simp: world_of_def)
    from stands_metrics[OF e(3), of env] have s: "stands H twin start shown m' n' (world_of (evs @ [ev]) (put_state (d, env) w))"
      using e(2) by (simp add: world_of_def put_state_def)
    have "ws_advance H co now w = ((fst (put_state (d, env) w))\<lparr>wc_next := Upcoming (Inr f)\<rparr>, snd (put_state (d, env) w))"
      using False nxt f w by (simp add: ws_advance_def put_state_def)
    then show ?thesis
      unfolding ws_inv_def using s i(2-4,6) e(1)
      by (intro exI[of _ m'] exI[of _ n'] exI[of _ "evs @ [ev]"] exI[of _ items] exI[of _ "[]"])
        (auto simp: world_of_def put_state_def w pending_def reports_def intro!: list_all2_appendI)
  next
    case no: False
    from session_next_other[OF nxt' _ i(1)] no obtain m' n' where
      "stands H twin start shown m' n' ((world_of evs w)\<lparr>sw_sub := d, sw_env := env\<rparr>)" by auto
    then have s: "stands H twin start shown m' n' (world_of evs (put_state (d, env) w))"
      by (simp add: world_of_def put_state_def)
    have same: "c\<lparr>wc_sub := d\<rparr> = c\<lparr>wc_sub := d, wc_next := Awaiting\<rparr>" using i(5) by (cases c) simp
    have "\<exists>u. pending u = [] \<and> ws_advance H co now w = ((fst (put_state (d, env) w))\<lparr>wc_next := u\<rparr>, snd (put_state (d, env) w))"
    proof (cases res)
      case Wait
      then show ?thesis using False nxt w same by (intro exI[of _ Awaiting]) (simp add: ws_advance_def put_state_def pending_def)
    next
      case Stopped
      then show ?thesis using False nxt w
        by (intro exI[of _ "Upcoming (Inl StopIteration)"]) (simp add: ws_advance_def put_state_def pending_def)
    next
      case (Raised err)
      then show ?thesis using False nxt w
        by (intro exI[of _ "Upcoming (Inl (Failure err))"]) (simp add: ws_advance_def put_state_def pending_def)
    qed (use no in simp)
    then obtain u where u: "pending u = []" "ws_advance H co now w = ((fst (put_state (d, env) w))\<lparr>wc_next := u\<rparr>, snd (put_state (d, env) w))"
      by blast
    show ?thesis
      unfolding ws_inv_def u(2) using s i(2-4,6) u(1)
      by (intro exI[of _ m'] exI[of _ n'] exI[of _ evs] exI[of _ items] exI[of _ "[]"]) (auto simp: world_of_def put_state_def w)
  qed
qed

lemma wake_inv:
  assumes "ws_inv H co twin start shown outs w" "\<And>now p. co_issue co now p \<noteq> []"
  shows "ws_inv H co twin start shown outs (ws_wake co now w)"
proof (cases "wc_end (fst w) \<noteq> None")
  case True
  then show ?thesis using assms(1) by (auto simp: ws_wake_def Let_def split: prod.splits)
next
  case False
  obtain c sv where w: "w = (c, sv)" by (cases w)
  from assms(1) False obtain m n evs items where i: "stands H twin start shown m n (world_of evs w)"
    "wc_sent c = outs @ map (\<lambda>i. WsSend (dumps (item_dict i))) items"
    "list_all2 (reports co) evs (frames_of items @ pending (wc_next c))" "wc_end c = None" "close_request_ok (wc_receiver c)"
    unfolding ws_inv_def w by auto
  have sent: "list_all2 (reports co) (take (length (frames_of items)) evs) (frames_of items)"
    using list_all2_takeI[OF i(3), of "length (frames_of items)"] by simp
  note ends = fail_inv[OF i(1) assms(2) _ _ sent, where outs = outs] send_close_inv[OF i(1) assms(2) _ _ sent, where outs = outs]
    finish_inv[OF i(1) assms(2) _ _ _ sent, where outs = outs and closing = "[]"]
  show ?thesis
  proof (cases "wc_receiver c")
    case (Received r)
    then consider (failed) f where "r = Inl f" | (gone) "r = Inr None" | (close) code reason where "r = Inr (Some (code, reason))"
      by (cases r) (auto, metis option.exhaust prod.exhaust)
    then show ?thesis
    proof cases
      case failed
      then show ?thesis using ends(1)[where now = now and f = f] i False Received w by (simp add: ws_wake_def)
    next
      case gone
      then show ?thesis using ends(3)[where now = now and e = Returned] i False Received w by (simp add: ws_wake_def closing_ok_def)
    next
      case close
      then have b: "1000 \<le> code" "code \<le> 4999" "length reason \<le> 256" using i(5) Received by (simp_all add: close_request_ok_def)
      show ?thesis using ends(2)[where code = code and reason = reason and now = now and e = Returned] b i False Received w close by (simp add: ws_wake_def)
    qed
  next
    case Receiving
    show ?thesis
    proof (cases "wc_next c")
      case (Upcoming r)
      show ?thesis
      proof (cases r)
        case (Inl f)
        then show ?thesis using ends(1)[where now = now and f = f] i False Receiving Upcoming w by (simp add: ws_wake_def)
      next
        case (Inr f)
        have "ws_wake co now w = put_sent [WsSend (dumps (frame_dict f))] (c\<lparr>wc_next := Awaiting\<rparr>, sv)"
          using False Receiving Upcoming Inr w by (simp add: ws_wake_def)
        then show ?thesis
          unfolding ws_inv_def using i Upcoming Inr
          by (intro exI[of _ m] exI[of _ n] exI[of _ evs] exI[of _ "items @ [Inl f]"] exI[of _ "[]"])
            (simp add: world_of_def put_sent_def w pending_def item_dict_def)
      qed
    next
      case Awaiting
      obtain beat d env where b: "session_heartbeat co now (sub_state w) = (beat, (d, env))" by (metis prod.exhaust)
      then have e: "d = wc_sub c" "env = count mx_heartbeats_update (sv_env sv)"
        by (auto simp: session_heartbeat_def sub_state_def w Let_def)
      from stands_metrics[OF i(1), of env] e have s: "stands H twin start shown m n (world_of evs (put_state (d, env) w))"
        by (simp add: world_of_def put_state_def w)
      have "ws_wake co now w = put_sent [WsSend (dumps (heartbeat_dict beat))] (put_state (d, env) w)"
        using False Receiving Awaiting b w by (simp add: ws_wake_def)
      then show ?thesis
        unfolding ws_inv_def using i s
        by (intro exI[of _ m] exI[of _ n] exI[of _ evs] exI[of _ "items @ [Inr beat]"] exI[of _ "[]"])
          (simp add: world_of_def put_sent_def put_state_def w item_dict_def)
    qed
  qed
qed

lemma world_grows:
  assumes "ws_inv H co twin start shown outs (c, sv)"
    and "\<And>m n evs. stands H twin start shown m n (world_of evs (c, sv)) \<Longrightarrow> \<exists>m n. stands H twin start shown m n (world_of evs (c, sv'))"
  shows "ws_inv H co twin start shown outs (c, sv')"
  using assms unfolding ws_inv_def fst_conv by blast

lemma connection_inv:
  assumes "ws_run H co max_bytes w v" "ws_inv H co twin start shown outs w" "\<And>now p. co_issue co now p \<noteq> []"
  shows "ws_inv H co twin start shown outs v"
  using assms
proof (induction rule: ws_run.induct)
  case (ws_run_append c sv now ev n out db')
  from world_grows[OF ws_run_append.IH[OF ws_run_append.prems], of "sv\<lparr>sv_db := db'\<rparr>"]
    stands_append[of H twin start shown _ _ "world_of _ (c, sv)" now ev n out db'] ws_run_append.hyps(2,3)
  show ?case by (simp add: world_of_def)
next
  case (ws_run_publish c sv ev)
  from world_grows[OF ws_run_publish.IH[OF ws_run_publish.prems],
      of "sv\<lparr>sv_env := (sv_env sv)\<lparr>se_broker := broker_publish ev (se_broker (sv_env sv))\<rparr>\<rparr>"]
    stands_publish[of H twin start shown _ _ "world_of _ (c, sv)" ev] ws_run_publish.hyps(2)
  show ?case by (simp add: world_of_def)
qed (simp_all add: receive_inv advance_inv wake_inv)

section \<open>From the first control frame on\<close>

lemma ws_open_Inr:
  assumes "ws_open H cf limits codec max_bytes now twin p message outs sv = (Inr c, sv')"
  obtains m token types projection n d where "message = Some m"
    "decode_asgi max_bytes now m = Inr (SubscribeControl token types projection n)"
    "open_state_stream H cf limits codec now twin (ap_actor p) token types projection (case n of None \<Rightarrow> PNone | Some k \<Rightarrow> PInt k) sv
       = (Inr d, sv')"
    "c = \<lparr>wc_sub = d, wc_receiver = Receiving, wc_next = Awaiting, wc_sent = outs, wc_end = None\<rparr>"
  using assms
  by (auto simp: ws_open_def Let_def split: option.splits if_splits sum.splits control.splits prod.splits)

lemma signer_issue_nonempty: "co_issue (signer_ops mac cs) now p \<noteq> []"
  by (simp add: signer_issue_def Let_def)

context cursor_codec
begin

lemma ws_open_inv:
  assumes co: "co = \<lparr>co_issue = issue, co_verify = read, co_bind = bind_chain\<rparr>"
    and opened: "open_state_stream H cf limits (Some co) now twin a token types projection max_in_flight sv = (Inr d, sv')"
    and ok: "service_ok H cf sv" "hex_digest H" "limits_ok limits"
    and c: "c = \<lparr>wc_sub = d, wc_receiver = Receiving, wc_next = Awaiting, wc_sent = outs, wc_end = None\<rparr>"
  shows "may_stream H (sv_db sv) a twin \<and> (\<exists>start. (token = None \<longrightarrow> start = 0) \<and> ws_inv H co twin start
    (\<lambda>ev. (types = [] \<or> event_type ev \<in> set types) \<and> (plane ev = AUTHORITATIVE \<or> projection \<and> plane ev = PROJECTION)) outs (c, sv'))"
proof -
  note law = open_state_stream_law[OF co opened ok]
  then obtain n where n: "stands H twin n (visible d) n n \<lparr>sw_db = sv_db sv', sw_env = sv_env sv', sw_sub = d, sw_emitted = []\<rparr>"
    "token = None \<longrightarrow> n = 0" by (auto split: option.splits)
  have "visible d = (\<lambda>ev. (types = [] \<or> event_type ev \<in> set types) \<and> (plane ev = AUTHORITATIVE \<or> projection \<and> plane ev = PROJECTION))"
    using law by blast
  moreover have "ws_inv H co twin n (visible d) outs (c, sv')"
    unfolding ws_inv_def using n(1) c
    by (intro exI[of _ n] exI[of _ n] exI[of _ "[]"] exI[of _ "[]"] exI[of _ "[]"])
      (simp add: world_of_def pending_def close_request_ok_def)
  ultimately show ?thesis using law n(2) by auto
qed

end

text \<open>What the invariant says of a world: the frames sent are a first part of the visible stream.\<close>

lemma ws_inv_sent:
  assumes "ws_inv H co twin start shown outs (c, sv)"
  shows "\<exists>items closing k. wc_sent c = outs @ map (\<lambda>i. WsSend (dumps (item_dict i))) items @ closing
    \<and> list_all2 (reports co) (take k (filter shown (drop start (stream (sv_db sv) twin)))) (frames_of items)
    \<and> closing_ok twin closing \<and> (wc_end c = None \<longrightarrow> closing = []) \<and> (wc_end c \<noteq> None \<longrightarrow> ds_closed (wc_sub c))"
proof -
  from assms obtain m n evs items closing where i: "stands H twin start shown m n (world_of evs (c, sv))"
    "wc_sent c = outs @ map (\<lambda>i. WsSend (dumps (item_dict i))) items @ closing"
    "if wc_end c = None then closing = [] \<and> list_all2 (reports co) evs (frames_of items @ pending (wc_next c))
        else closing_ok twin closing \<and> ds_closed (wc_sub c) \<and> (\<exists>k. list_all2 (reports co) (take k evs) (frames_of items))"
    unfolding ws_inv_def fst_conv by (elim exE conjE) (rule that; assumption)
  let ?c = "stream (sv_db sv) twin"
  have evs: "evs = filter shown (drop start (take n ?c))" using i(1) by (simp add: stands_def Let_def world_of_def)
  have "prefix evs (filter shown (drop start ?c))"
  proof -
    have "drop start ?c = drop start (take n ?c) @ drop (start - length (take n ?c)) (drop n ?c)"
      by (metis append_take_drop_id drop_append)
    then show ?thesis unfolding evs by simp
  qed
  then have first: "take j evs = take (min j (length evs)) (filter shown (drop start ?c))" for j
    by (cases "j \<le> length evs") (auto simp: prefix_def min_def)
  obtain j where "list_all2 (reports co) (take j evs) (frames_of items)" "closing_ok twin closing"
    "wc_end c = None \<longrightarrow> closing = []" "wc_end c \<noteq> None \<longrightarrow> ds_closed (wc_sub c)"
  proof (cases "wc_end c = None")
    case True
    then have "list_all2 (reports co) (take (length (frames_of items)) evs) (frames_of items)"
      using list_all2_takeI[of "reports co" evs "frames_of items @ pending (wc_next c)" "length (frames_of items)"] i(3) by simp
    then show thesis using that True i(3) by (simp add: closing_ok_def)
  qed (use i(3) that in auto)
  then show ?thesis using i(2) first by metis
qed

section \<open>A full window\<close>

text \<open>
  The main loop asks for the next frame as soon as one is sent, and asking with a full window ends the stream: a
  client has to acknowledge a frame before it is asked for the next one, so of a window of \<open>n\<close> at most \<open>n - 1\<close> frames
  can stay unacknowledged, and with a window of one the stream ends after its first frame.
\<close>

theorem full_window_ends_stream:
  assumes "wc_end c = None" "wc_receiver c = Receiving" "wc_next c = Awaiting" "\<not> ds_closed (wc_sub c)"
    and "sl_max_in_flight (ds_limits (wc_sub c)) \<le> int (length (ds_outstanding (wc_sub c)))"
    and "stands H twin start shown m n (world_of evs (c, sv))" "\<And>now p. co_issue co now p \<noteq> []"
  shows "\<exists>frame. wc_sent (fst (ws_wake co later (ws_advance H co now (c, sv))))
    = wc_sent c @ [WsSend (dumps (close_dict frame)), WsClose 4408 ''acknowledgement required'']"
proof -
  let ?w = "ws_advance H co now (c, sv)"
  obtain d env where cl: "durable_close (wc_sub c, count mx_backpressure_closes_update (sv_env sv)) = (d, env)"
    by (metis prod.exhaust)
  have w: "?w = (c\<lparr>wc_sub := d, wc_next := Upcoming (Inl (Failure (BackpressureExceeded
      ''unacknowledged delivery window exceeded; reconnect with last cursor'')))\<rparr>, sv\<lparr>sv_env := env\<rparr>)"
    using assms(1,3-5) cl by (simp add: ws_advance_def session_next_def durable_next_def sub_state_def put_state_def)
  have "stands H twin start shown m n ((world_of evs (c, sv))\<lparr>sw_env := count mx_backpressure_closes_update (sv_env sv)\<rparr>)"
    by (rule stands_metrics[OF assms(6)]) (simp add: world_of_def)
  from stands_closed(1)[OF this, of d env] cl have "stands H twin start shown m n (world_of evs ?w)"
    unfolding w by (simp add: world_of_def)
  from close_succeeds[OF this assms(7), of 4408 "''acknowledgement required''" later] obtain frame d' env' where
    "session_close co later 4408 ''acknowledgement required'' (sub_state ?w) = (Inr frame, (d', env'))" by auto
  then have "ws_wake co later ?w = ws_finish co later Returned
      (put_sent [WsSend (dumps (close_dict frame)), WsClose 4408 ''acknowledgement required''] (put_state (d', env') ?w))"
    using assms(1,2) unfolding w by (simp add: ws_wake_def ws_fail_def ws_send_close_def reraised_def)
  then show ?thesis unfolding w
    by (intro exI[of _ frame]) (simp add: ws_finish_def put_sent_def put_state_def Let_def split: prod.splits)
qed

end
