(* ===== verification/K2_Observability.thy ===== *)
theory K2_Observability
  imports K2_Session
begin

text \<open>
  \<open>src/src/argo_dt/adapters/observability.py\<close>: the export of the synchronisation counters to an OpenTelemetry meter.
  A counter of the meter is known by what was added to it; the additions are kept in order. Shown: as long as
  the in-process counters only grow, the sum of what was added to a counter is the value of its metric at the last
  export, so nothing is counted twice or lost; and only attributes of the allow-list are ever attached.
\<close>

section \<open>Operations\<close>

text \<open>\<open>SyncMetrics.snapshot\<close>\<close>

definition metrics_snapshot :: "sync_metrics \<Rightarrow> (string \<times> nat) list" where
  "metrics_snapshot m =
     [(''replayed_events'', mx_replayed_events m), (''live_events'', mx_live_events m),
      (''duplicate_events'', mx_duplicate_events m), (''emitted_frames'', mx_emitted_frames m),
      (''acknowledgements'', mx_acknowledgements m), (''heartbeats'', mx_heartbeats m),
      (''closed_streams'', mx_closed_streams m), (''integrity_failures'', mx_integrity_failures m),
      (''backpressure_closes'', mx_backpressure_closes m)]"

definition counter_names :: "(string \<times> string) list" where
  "counter_names =
     [(''replayed_events'', ''argo.dt.sync.events.replayed''), (''live_events'', ''argo.dt.sync.events.live''),
      (''duplicate_events'', ''argo.dt.sync.events.duplicate''), (''emitted_frames'', ''argo.dt.sync.frames.emitted''),
      (''acknowledgements'', ''argo.dt.sync.acknowledgements''), (''heartbeats'', ''argo.dt.sync.heartbeats''),
      (''closed_streams'', ''argo.dt.sync.streams.closed''), (''integrity_failures'', ''argo.dt.sync.failures.integrity''),
      (''backpressure_closes'', ''argo.dt.sync.failures.backpressure'')]"

definition allowed_attributes :: "string set" where
  "allowed_attributes = {''service.name'', ''service.version'', ''deployment.environment.name'', ''network.transport''}"

record otel_exporter =
  ox_attributes :: pydict
  ox_previous :: "(string \<times> nat) list"

text \<open>What was added: the counter, the amount and the attributes.\<close>

type_synonym otel_log = "(string \<times> nat \<times> pydict) list"

fun short_text :: "pyval \<Rightarrow> bool" where
  "short_text (PStr s) = (s \<noteq> [] \<and> length s \<le> 128)"
| "short_text _ = False"

definition make_exporter :: "pydict \<Rightarrow> otel_exporter result" where
  "make_exporter supplied =
     (if \<not> fst ` set supplied \<subseteq> allowed_attributes
      then Inl (ValueError ''OpenTelemetry attributes exceed the fixed allow-list'')
      else if list_ex (\<lambda>(k, v). \<not> short_text v) supplied
      then Inl (ValueError ''OpenTelemetry attributes must be short non-empty strings'')
      else Inr \<lparr>ox_attributes = supplied, ox_previous = map (\<lambda>(key, name). (key, 0)) counter_names\<rparr>)"

definition metric_of :: "(string \<times> nat) list \<Rightarrow> string \<Rightarrow> nat" where
  "metric_of snap key = the (map_of snap key)"

definition export_delta :: "nat \<Rightarrow> nat \<Rightarrow> nat" where
  "export_delta val previous = (if previous \<le> val then val - previous else val)"

text \<open>The loop over the counters: the deltas so far and the additions.\<close>

fun export_loop ::
  "pydict \<Rightarrow> (string \<times> nat) list \<Rightarrow> (string \<times> nat) list \<Rightarrow> (string \<times> string) list \<Rightarrow> (string \<times> nat) list \<times> otel_log
     \<Rightarrow> (string \<times> nat) list \<times> otel_log" where
  "export_loop attributes current previous [] acc = acc"
| "export_loop attributes current previous ((key, name) # counters) (deltas, added) =
     (let delta = export_delta (metric_of current key) (metric_of previous key) in
      export_loop attributes current previous counters
        (deltas @ [(key, delta)], if delta = 0 then added else added @ [(name, delta, attributes)]))"

definition otel_export :: "sync_metrics \<Rightarrow> otel_exporter \<times> otel_log \<Rightarrow> (string \<times> nat) list \<times> otel_exporter \<times> otel_log" where
  "otel_export m st =
     (let (ox, added) = st; current = metrics_snapshot m;
          (deltas, added') = export_loop (ox_attributes ox) current (ox_previous ox) counter_names ([], added)
      in (deltas, ox\<lparr>ox_previous := current\<rparr>, added'))"

section \<open>Nothing is counted twice or lost\<close>

definition added_to :: "string \<Rightarrow> otel_log \<Rightarrow> nat" where
  "added_to name entries = sum_list (map (\<lambda>(n, amount, attributes). if n = name then amount else 0) entries)"

lemma added_to_simps [simp]:
  "added_to name [] = 0" "added_to name (xs @ ys) = added_to name xs + added_to name ys"
  "added_to name [(n, amount, attributes)] = (if n = name then amount else 0)"
  by (simp_all add: added_to_def)

lemma counter_names_distinct: "distinct (map snd counter_names)" "map fst counter_names = map fst (metrics_snapshot m)"
  by (simp_all add: counter_names_def metrics_snapshot_def)

lemma export_loop_added:
  "distinct (map snd counters) \<Longrightarrow> export_loop attributes current previous counters (deltas, added) = (deltas', added') \<Longrightarrow>
     (\<forall>(key, name) \<in> set counters. added_to name added' = added_to name added + export_delta (metric_of current key) (metric_of previous key))
     \<and> (\<forall>name. name \<notin> snd ` set counters \<longrightarrow> added_to name added' = added_to name added)
     \<and> (\<exists>more. added' = added @ more \<and> (\<forall>(n, amount, as) \<in> set more. as = attributes \<and> 0 < amount))"
proof (induction counters arbitrary: deltas added)
  case (Cons c counters)
  obtain key name where c: "c = (key, name)" by (cases c)
  define delta where "delta = export_delta (metric_of current key) (metric_of previous key)"
  define added1 where "added1 = (if delta = 0 then added else added @ [(name, delta, attributes)])"
  have "export_loop attributes current previous counters (deltas @ [(key, delta)], added1) = (deltas', added')"
    using Cons.prems(2) unfolding c export_loop.simps Let_def delta_def[symmetric] added1_def[symmetric] .
  note ih = Cons.IH[OF _ this]
  have fresh: "name \<notin> snd ` set counters" "distinct (map snd counters)" using Cons.prems(1) c by auto
  have one: "added_to n added1 = added_to n added + (if n = name then delta else 0)" for n by (simp add: added1_def)
  obtain more where more: "added' = added1 @ more" "\<forall>(n, amount, as) \<in> set more. as = attributes \<and> 0 < amount"
    using ih fresh(2) by blast
  have "\<exists>more. added' = added @ more \<and> (\<forall>(n, amount, as) \<in> set more. as = attributes \<and> 0 < amount)"
    using more by (intro exI[of _ "(if delta = 0 then [] else [(name, delta, attributes)]) @ more"]) (auto simp: added1_def)
  moreover have "added_to name added' = added_to name added + delta" using ih fresh one[of name] by simp
  moreover have "added_to n added' = added_to n added + export_delta (metric_of current k) (metric_of previous k)"
    if "(k, n) \<in> set counters" for k n
  proof -
    have "n \<noteq> name" using that fresh(1) by (metis image_eqI snd_conv)
    then show ?thesis using ih fresh(2) that one[of n] by fastforce
  qed
  moreover have "added_to n added' = added_to n added" if "n \<notin> snd ` set (c # counters)" for n
    using ih fresh(2) one[of n] that c by auto
  ultimately show ?case using c delta_def by auto
qed simp

text \<open>What holds between two exports.\<close>

definition exported :: "sync_metrics option \<Rightarrow> otel_exporter \<times> otel_log \<Rightarrow> bool" where
  "exported last_metrics st \<longleftrightarrow> (\<forall>(key, name) \<in> set counter_names.
     metric_of (ox_previous (fst st)) key = (case last_metrics of None \<Rightarrow> 0 | Some m \<Rightarrow> metric_of (metrics_snapshot m) key)
     \<and> added_to name (snd st) = metric_of (ox_previous (fst st)) key)"

definition grown :: "sync_metrics \<Rightarrow> sync_metrics \<Rightarrow> bool" where
  "grown m m' \<longleftrightarrow> (\<forall>key \<in> fst ` set counter_names. metric_of (metrics_snapshot m) key \<le> metric_of (metrics_snapshot m') key)"

lemma make_exporter_Inr:
  assumes "make_exporter supplied = Inr ox"
  shows "exported None (ox, [])" "fst ` set (ox_attributes ox) \<subseteq> allowed_attributes"
    "\<forall>(k, v) \<in> set (ox_attributes ox). short_text v"
proof -
  have ox: "ox = \<lparr>ox_attributes = supplied, ox_previous = map (\<lambda>(key, name). (key, 0)) counter_names\<rparr>"
    "fst ` set supplied \<subseteq> allowed_attributes" "\<forall>(k, v) \<in> set supplied. short_text v"
    using assms by (auto simp: make_exporter_def list_ex_iff split: if_splits)
  then show "fst ` set (ox_attributes ox) \<subseteq> allowed_attributes" "\<forall>(k, v) \<in> set (ox_attributes ox). short_text v" by simp_all
  show "exported None (ox, [])" unfolding exported_def ox(1) by (simp add: counter_names_def metric_of_def)
qed

lemma otel_export_law:
  assumes "otel_export m (ox, added) = (deltas, ox', added')" "exported last_metrics (ox, added)"
    and "\<forall>m0. last_metrics = Some m0 \<longrightarrow> grown m0 m"
  shows "exported (Some m) (ox', added') \<and> ox_attributes ox' = ox_attributes ox
    \<and> (\<exists>more. added' = added @ more \<and> (\<forall>(n, amount, as) \<in> set more. as = ox_attributes ox \<and> 0 < amount))"
proof -
  have e: "export_loop (ox_attributes ox) (metrics_snapshot m) (ox_previous ox) counter_names ([], added) = (deltas, added')"
    "ox' = ox\<lparr>ox_previous := metrics_snapshot m\<rparr>"
    using assms(1) by (auto simp: otel_export_def Let_def split: prod.splits)
  note loop = export_loop_added[OF counter_names_distinct(1) e(1)]
  have "added_to name added' = metric_of (metrics_snapshot m) key" if k: "(key, name) \<in> set counter_names" for key name
  proof -
    have p: "added_to name added = metric_of (ox_previous ox) key" using assms(2) k unfolding exported_def by auto
    have "metric_of (ox_previous ox) key \<le> metric_of (metrics_snapshot m) key"
      using assms(2,3) k unfolding exported_def grown_def by (cases last_metrics) force+
    then show ?thesis using loop k p by (auto simp: export_delta_def)
  qed
  then show ?thesis using loop e(2) by (auto simp: exported_def)
qed

text \<open>Any sequence of exports.\<close>

fun otel_exports :: "sync_metrics list \<Rightarrow> otel_exporter \<times> otel_log \<Rightarrow> otel_exporter \<times> otel_log" where
  "otel_exports [] st = st"
| "otel_exports (m # ms) st = otel_exports ms (snd (otel_export m st))"

lemma otel_exports_law:
  assumes "exported last_metrics st" "sorted_wrt grown (case last_metrics of None \<Rightarrow> ms | Some m \<Rightarrow> m # ms)"
  shows "exported (if ms = [] then last_metrics else Some (last ms)) (otel_exports ms st)
    \<and> ox_attributes (fst (otel_exports ms st)) = ox_attributes (fst st)
    \<and> (\<exists>more. snd (otel_exports ms st) = snd st @ more \<and> (\<forall>(n, amount, as) \<in> set more. as = ox_attributes (fst st) \<and> 0 < amount))"
  using assms
proof (induction ms arbitrary: st last_metrics)
  case (Cons m ms)
  obtain ox added deltas ox' added' where st: "st = (ox, added)" and e: "otel_export m (ox, added) = (deltas, ox', added')"
    by (metis prod.exhaust)
  from otel_export_law[OF e, of last_metrics] Cons.prems st have l: "exported (Some m) (ox', added')" "ox_attributes ox' = ox_attributes ox"
    and more: "\<exists>more. added' = added @ more \<and> (\<forall>(n, amount, as) \<in> set more. as = ox_attributes ox \<and> 0 < amount)"
    by (auto split: option.splits)
  have "sorted_wrt grown (m # ms)" using Cons.prems(2) by (auto split: option.splits)
  with Cons.IH[OF l(1)] show ?case using l(2) more e st by (fastforce split: if_splits)
qed simp

end
