(* ===== verification/K2_Examples_WebSocket.thy ===== *)
theory K2_Examples_WebSocket
  imports K2_WebSocket_Run K2_Observability K2_Examples_Sync K2_Examples_Commands
begin

text \<open>
  Concrete inputs for the witnesses of the WebSocket and observability properties: a caller with its headers, an
  authenticator that knows it, its first control frame, the connection it opens, and counters.
\<close>

definition ex_principal :: principal where
  "ex_principal = \<lparr>ap_actor = ex_actor\<lparr>roles := {OPERATIONS_SERVICE}\<rparr>, ap_scopes = [''dt.stream'']\<rparr>"

definition ex_authenticator :: authenticator where
  "ex_authenticator c =
     (if authorization c = Some ''Bearer k'' then Inr ex_principal else Inl (AuthorizationDenied ''unknown caller''))"

definition ex_scope :: ws_scope where
  "ex_scope = \<lparr>ws_type = ''websocket'', ws_path = Some ''/v1/twins/%74/events'', ws_subprotocols = [ws_subprotocol],
     ws_headers = Some [(''Authorization'', ''Bearer k'')], ws_client = Some ''peer''\<rparr>"

definition ex_connect :: asgi_message where
  "ex_connect = \<lparr>am_type = ''websocket.connect'', am_text = None, am_bytes = None\<rparr>"

lemma ex_path: "twin_of_path (Some ''/v1/twins/%74/events'') = Some ''t''"
  by code_simp

lemma ex_headers: "headers_of (ws_headers ex_scope) = Inr [(''authorization'', ''Bearer k'')]"
  by code_simp

definition ex_credentials :: credentials where
  "ex_credentials = \<lparr>tc_transport = ''websocket'', tc_metadata = [(''authorization'', ''Bearer k'')], tc_peer = Some ''peer''\<rparr>"

lemma ex_credentials_made: "make_credentials ''websocket'' [(''authorization'', ''Bearer k'')] (Some ''peer'') = Inr ex_credentials"
  by code_simp

lemma ex_admitted: "ws_admit ex_authenticator ex_scope (Some ex_connect) = Inr ([WsAccept ws_subprotocol], Some (''t'', ex_principal))"
proof -
  have "ws_client ex_scope = Some ''peer''" "ws_path ex_scope = Some ''/v1/twins/%74/events''" "ws_type ex_scope = ''websocket''"
    "ws_subprotocols ex_scope = [ws_subprotocol]" "am_type ex_connect = ''websocket.connect''"
    by (simp_all add: ex_scope_def ex_connect_def)
  moreover have "ex_authenticator ex_credentials = Inr ex_principal" by (simp add: ex_authenticator_def ex_credentials_def authorization_def)
  moreover have "require_scope ''dt.stream'' ex_principal = Inr ()" by (simp add: require_scope_def ex_principal_def)
  ultimately show ?thesis
    using ex_headers ex_credentials_made ex_path by (simp add: ws_admit_def ws_authenticate_def)
qed

definition ex_subscribe :: control where
  "ex_subscribe = SubscribeControl None [] False None"

definition ex_first :: asgi_message where
  "ex_first = \<lparr>am_type = ''websocket.receive'', am_text = None, am_bytes = Some (utf8_encode (dumps (PDict (control_dict ex_subscribe))))\<rparr>"

lemma ex_subscribe_short: "int (utf8_len (dumps (PDict (control_dict ex_subscribe)))) \<le> 16384"
  by code_simp

lemma ex_first_decoded: "decode_asgi 16384 5 ex_first = Inr ex_subscribe"
  using ws_decode_roundtrip[of 5 ex_subscribe 16384] ex_subscribe_short by (simp add: decode_asgi_def ex_first_def) (simp add: ex_subscribe_def)

lemma ex_opened:
  "\<exists>c sv. ws_open ex_hex ex_config ex_limits (Some (signer_ops ex_mac ex_signer)) 16384 5 ''t'' ex_principal (Some ex_first)
    [WsAccept ws_subprotocol] ex_service = (Inr c, sv)"
proof -
  have "may_stream ex_hex (sv_db ex_service) (ap_actor ex_principal) ''t''"
    by (simp add: may_stream_def ex_actor_def trusted_global_roles_def ex_principal_def)
  moreover have "negotiate ex_limits PNone = Inr ex_limits" by (simp add: negotiate_def)
  ultimately obtain d sv where "open_state_stream ex_hex ex_config ex_limits (Some (signer_ops ex_mac ex_signer)) 5 ''t''
      (ap_actor ex_principal) None [] False PNone ex_service = (Inr d, sv)"
    using open_state_stream_starts[OF ex_service_ok ex_hex_digest, of "ap_actor ex_principal" "''t''" ex_limits PNone ex_limits
        "signer_ops ex_mac ex_signer" 5 "[]" False]
    by (auto simp: ok_iff prod_eq_iff)
  moreover have "am_type ex_first \<noteq> ''websocket.disconnect''" by (simp add: ex_first_def)
  ultimately show ?thesis using ex_first_decoded by (simp add: ws_open_def ex_subscribe_def)
qed

definition ex_metrics :: "nat \<Rightarrow> sync_metrics" where
  "ex_metrics n = \<lparr>mx_replayed_events = n, mx_live_events = 0, mx_duplicate_events = 0, mx_emitted_frames = n, mx_acknowledgements = 0,
     mx_heartbeats = 0, mx_closed_streams = 0, mx_integrity_failures = 0, mx_backpressure_closes = 0\<rparr>"

lemma ex_metrics_grow: "m \<le> n \<Longrightarrow> grown (ex_metrics m) (ex_metrics n)"
  by (simp add: grown_def ex_metrics_def counter_names_def metrics_snapshot_def metric_of_def)

end
