(* ===== verification/K2_Further_Properties.thy ===== *)
theory K2_Further_Properties
  imports K2_Examples_Compiler K2_Examples_Commands K2_Facade_Admission K2_Cursor K2_Examples_Vault K2_Stream_Run K2_Session K2_Service_Streams K2_Service_Run K2_Nats_Laws K2_Telemetry_Laws
begin

text \<open>
  Further theorems of the components: what the ledger refuses, what the outbox and the relay keep, which
  cursors and resume tokens are accepted, whom the ownership policy lets write, which claims a state accepts,
  what a deletion invalidates, and what the policy and the degradation handlers do.
\<close>

text \<open>Optimistic concurrency: a new request whose expected sequence is not the sequence of the stream's
  last event is refused with ConcurrencyConflict.\<close>

theorem append_stale_writer:
  assumes "db_inv H db" "schema_version ev = ''argo.dt.event/v2''" "plane ev \<noteq> SIMULATION"
    and "duplicate_row db ev = None" "n \<noteq> int (length (stream db (twin_id ev)))"
  shows "\<exists>m. append H now ev n db = Inl (ConcurrencyConflict m)"
  using append_stale[OF assms(2-4)] assms(5) head_stream[OF assms(1), of "twin_id ev"] by simp

text \<open>An admissible event with a fresh identifier and key, offered at the head of its stream, is
  written: the stream that \<open>load\<close> returns afterwards is the old one followed by that event.\<close>

theorem append_at_head_succeeds:
  assumes "db_inv H db" "admissible now ev" "schema_version ev = ''argo.dt.event/v2''" "plane ev \<noteq> SIMULATION"
    and "duplicate_row db ev = None" "event_id ev \<notin> er_event_id ` set (db_events db)" "edges_of ev = Inr es"
  shows "\<exists>out db' old. append H now ev (int (length (stream db (twin_id ev)))) db = Inr (out, db')
    \<and> load db (twin_id ev) 0 None [] None = Inr old \<and> load db' (twin_id ev) 0 None [] None = Inr (old @ [persisted out])"
proof -
  obtain out db' where a: "append H now ev (int (length (stream db (twin_id ev)))) db = Inr (out, db')"
    using append_succeeds[OF assms(1-6) head_stream[OF assms(1)] assms(7)] by blast
  then show ?thesis
    using load_all[OF assms(1)] load_all[OF append_inv[OF a assms(1,2)]] append_stream[OF a assms(1,2)] assms(5) by simp
qed

text \<open>History is append-only: over any sequence of appends, accepted or answered from the ledger, the
  events a stream had remain its first events.\<close>

theorem history_is_append_only:
  assumes "sqlite.run H db db'" "db_inv H db"
  shows "prefix (stream db twin) (stream db' twin)"
  by (rule sqlite.run_prefix[OF assms])

text \<open>Round trip: \<open>TwinState.from_dict\<close> reads from \<open>to_dict\<close> exactly the state that was written, for
  every well-formed state of JSON data that stands at an event.\<close>

theorem state_snapshot_roundtrip:
  assumes "twin_inv s" "plain_state s" "1 \<le> st_sequence s" "st_twin_id s \<noteq> []" "st_last_event_hash s \<noteq> []"
  shows "from_dict (to_dict s) = Inr s"
  by (rule from_to_dict[OF assms])

text \<open>Fencing: when a claim takes over a row whose lease another record held, that older record can no
  longer mark the row published nor release it, even where the owner is the same: the attempt count
  moved on.\<close>

theorem stale_claimant_is_fenced:
  assumes "claim_outbox H now owner limit seconds db = Inr (recs, db')" "outbox_inv H db"
    and "holds old db" "record_key old \<in> record_key ` set recs"
  shows "fst (mark_outbox_published t old db') = False \<and> fst (release_outbox err old db') = False"
  by (rule sqlite_outbox.fenced[OF assms])

text \<open>No row is stuck: a claim whose limit covers the backlog succeeds, and hands out exactly the
  unpublished rows that have no lease or whose lease is over.\<close>

theorem claim_reaches_the_backlog:
  assumes "outbox_inv H db" "owner \<noteq> []" "1 \<le> seconds" "lease_end now seconds < 3652059 * day_us"
    and "0 < limit" "outbox_backlog db \<le> nat limit"
  shows "\<exists>recs db'. claim_outbox H now owner limit seconds db = Inr (recs, db')
    \<and> record_key ` set recs = ob_key ` {r \<in> set (db_outbox db). leasable (isoformat (utc now)) r}"
  by (rule claim_succeeds[OF assms])

text \<open>\<open>OutboxRelay.drain\<close> on the store: it raises no error of its own once the claim succeeded, its
  batch counts every claimed record as published or failed, exactly the rows the publisher accepted
  leave the backlog, and no lease of the claim is left behind.\<close>

theorem drain_accounts_for_all:
  assumes "claim_outbox H now owner limit seconds db = Inr (recs, db1)" "outbox_inv H db"
  shows "\<exists>db'. drain (claim_outbox H now) (\<lambda>rec. mark_outbox_published (clock rec) rec) release_outbox publish owner limit seconds db =
      (Inr \<lparr>rb_claimed = length recs, rb_published = length (filter (\<lambda>rec. publish (or_event rec) = None) recs),
            rb_failed = length (filter (\<lambda>rec. publish (or_event rec) \<noteq> None) recs)\<rparr>, db')
    \<and> outbox_inv H db' \<and> unpublished db' = unpublished db - record_key ` {rec \<in> set recs. publish (or_event rec) = None}
    \<and> (\<forall>rec\<in>set recs. \<not> holds rec db')"
  by (rule sqlite_outbox.drain_accounts[OF assms])

text \<open>Pruning the outbox never touches the backlog: unpublished rows stay, at most the asked number of
  rows goes, and each deleted row was published at a time whose text is before the bound.\<close>

theorem pruning_keeps_the_backlog:
  assumes "prune_outbox before limit db = Inr (n, db')" "outbox_inv H db"
  shows "outbox_inv H db' \<and> unpublished db' = unpublished db \<and> set (db_outbox db') \<subseteq> set (db_outbox db)
    \<and> int n \<le> max 0 limit
    \<and> (\<forall>r\<in>set (db_outbox db) - set (db_outbox db'). \<exists>p. ob_published_at r = Some p \<and> p < isoformat before)"
  by (rule prune_law[OF assms])

text \<open>A delivery from the ledger never finds a break: the only error it raises, in any reachable state,
  is the deliberate disconnection for backpressure. None of the integrity errors can occur.\<close>

theorem stream_fails_only_by_backpressure:
  assumes "streaming H w v" "stands H twin start shown m n w"
    and "durable_next H (head (sw_db v)) (sqlite_load (sw_db v)) (sw_sub v, sw_env v) = (Raised err, d, env)"
  shows "\<exists>reason. err = BackpressureExceeded reason"
  using streaming_stands[OF assms(1,2)] stands_outcome assms(3) by (fastforce simp: sqlite_next_def)

text \<open>Reconnecting at the last acknowledged position is accepted, at any later state of the run, and
  the new subscription starts where the unacknowledged events of the old one begin: nothing that was
  not acknowledged is lost.\<close>

theorem stream_resumes_where_acknowledged:
  assumes "streaming H w v" "stands H twin start shown m n w"
  shows "\<exists>a k. ds_acknowledged (sw_sub v) = position_at twin (stream (sw_db v) twin) a
    \<and> ok (fst (durable_open (head (sw_db v)) (sqlite_load (sw_db v)) (ds_acknowledged (sw_sub v)) limits types planes env))
    \<and> ds_position (sw_sub v) = position_at twin (stream (sw_db v) twin) k
    \<and> ds_outstanding (sw_sub v) = map pos_of (filter shown (drop a (take k (stream (sw_db v) twin))))"
proof -
  obtain a k where s: "stands H twin start shown a k v" using streaming_stands[OF assms] by blast
  from stands_resume[OF s, of limits types planes env] s show ?thesis by (auto simp: stands_def core_def Let_def)
qed

text \<open>The resume token of a frame that is still outstanding is accepted by the session until it
  expires: the acknowledged position becomes that frame's position, and the subscription goes on
  from the state it was in.\<close>

theorem session_token_acknowledges:
  assumes "stands H twin start shown m n w" "p \<in> set (ds_outstanding (sw_sub w))" "fresh_cursor cs now later"
  shows "\<exists>d env m'. session_acknowledge (signer_ops mac cs) later (signer_issue mac cs now p) (sw_sub w, sw_env w)
      = Inr (p, (d, env)) \<and> ds_acknowledged d = p \<and> stands H twin start shown m' n (w\<lparr>sw_sub := d\<rparr>)"
  using session_acknowledge_stands[OF assms, of mac] by blast

text \<open>Round trip of resume cursors: what \<open>issue\<close> wrote, \<open>verify\<close> reads back as the same twin, sequence,
  chain tag and time, until the cursor expires, and \<open>verify_chain_binding\<close> accepts it at its own position.\<close>

theorem cursor_roundtrip:
  assumes "fresh_cursor cs now later"
  shows "signer_verify mac cs later (signer_issue mac cs now p) (sp_twin_id p) = Inr (cursor_for mac cs now p)
    \<and> signer_binding mac cs (cursor_for mac cs now p) p = Inr p"
  using signer_roundtrip[OF assms] binding_issued by blast

text \<open>An accepted cursor is authentic: the token is the one canonical spelling of a payload and of the
  signer's code of that payload, it is for the twin that was asked for, and its age is within
  bounds.\<close>

theorem cursor_acceptance:
  assumes "signer_verify mac cs now token twin = Inr d"
  shows "(\<exists>body. signed_by mac cs body token) \<and> dc_twin_id d = twin \<and> dc_signing_key_id d = cs_key_id cs
    \<and> instant (dc_issued_at d) \<le> now + cs_clock_skew cs
    \<and> (\<forall>a. cs_max_age cs = Some a \<longrightarrow> now - instant (dc_issued_at d) \<le> a)"
  by (rule verify_sound[OF assms])

text \<open>Key rotation: with a retain count in range it never fails, the ring it returns has the new signer
  active, at most eight keys with different identifiers, and after it the newest of the old ones, as
  many as asked for.\<close>

theorem rotation_is_bounded:
  assumes "ring_ok ring" "0 \<le> retain" "retain < int max_keys"
  shows "\<exists>ring'. rotate_ring ring fresh retain = Inr ring' \<and> ring_ok ring' \<and> kr_active ring' = fresh
    \<and> kr_order ring' = fresh # take (nat retain) (filter (\<lambda>cs. cs_key_id cs \<noteq> cs_key_id fresh) (kr_order ring))"
  by (rule rotate_ok[OF assms])

text \<open>Removing a key revokes its cursors at once: a ring without the key rejects every cursor the key
  issued, provided the keys in question do not give the cursor's payload the same code.\<close>

theorem removed_key_is_revoked:
  assumes "keys_separate mac (cs # kr_order ring) (utf8_encode (dumps (cursor_material now (chain_tag mac cs p) p)))"
    and "cs \<notin> set (kr_order ring)"
  shows "ring_verify mac ring later (signer_issue mac cs now p) twin = rejected ''resume cursor signature is invalid''"
  by (rule ring_verify_removed[OF issue_signed assms])

text \<open>A twin that is written through the service alone is never poisoned: over any sequence of appends
  (accepted, refused or failing), reads and flushes from a new service on an empty ledger, every stream
  replays without an error and the cache keeps within its bound.\<close>

theorem served_twins_stay_readable:
  assumes "make_service cf empty_db env = Inr sv" "serving H cf sv sv'"
  shows "(\<exists>s. full_replay H (sv_db sv') twin None None = Inr s \<and> twin_inv s \<and> lineage_ok s)
    \<and> int (length (sv_cache sv')) \<le> cf_cache_entries cf"
  by (rule served_from_empty[OF assms])

text \<open>Default deny: a projection is allowed exactly when there is a consent, active at that instant, of
  that subject to that recipient, for that purpose, at least that sensitivity and all the requested
  fields, and all of them are available; it grants exactly the requested fields.\<close>

theorem projection_needs_consent:
  "evaluate_projection now rq consent available = Inr (True, reasons, granted) \<longleftrightarrow>
     (\<exists>c. consent = Some c \<and> consent_covers now rq c \<and> rq_requested_fields rq \<subseteq> available
        \<and> granted = rq_requested_fields rq \<and> granted \<noteq> {} \<and> reasons = [''consent_and_policy_satisfied''])"
  by (rule evaluate_projection_allow)

text \<open>An action is allowed exactly by a grant that is active, of the same principal and actor, and covers
  its purpose, capabilities and impact, while the action's own window is open, and with evidence; an
  impact outside the scale is never covered.\<close>

theorem action_needs_authority:
  assumes "\<not> naive (ae_issued_at a)" "\<not> naive (ae_expires_at a)"
  shows "(evaluate_action now a grant = Inr (True, reasons) \<longleftrightarrow>
      (\<exists>g. grant = Some g \<and> authority_covers now a g) \<and> reasons = [''authority_and_constraints_satisfied''])
    \<and> (\<forall>g. map_of impact_order (ae_impact a) = None \<longrightarrow> \<not> authority_covers now a g)"
  using evaluate_action_allow[OF assms] impact_unknown_denied by blast

text \<open>Only the owner writes: an event is authorised exactly when its producer is the authenticated
  identity, that identity holds the producer role, the role owns the event type, and the actor's
  subject scope admits the payload's subject. No event type has two owners.\<close>

theorem ownership_is_exact:
  "(authorize ev a = Inr () \<longleftrightarrow>
     producer ev = identity_id a \<and> producer_role ev \<in> roles a \<and> owns (producer_role ev) (event_type ev)
     \<and> (actor_subject_id a = None \<or> pget (payload ev) ''subject_id'' = PNone
        \<or> actor_subject_id a = Some (py_str (pget (payload ev) ''subject_id''))))
   \<and> (sole_event_owner ty = Inr r \<longleftrightarrow> owns r ty)"
  using authorize_allow sole_event_owner_iff by blast

text \<open>Deleting evidence queues for invalidation exactly what depends on it, directly or through claims,
  contradictions, corrections and projections, at any distance.\<close>

theorem deletion_queues_all_dependents:
  assumes "index_dependencies ev db = Inr db'" "event_type ev = ''EvidenceDeleted''"
    and "e = text_or_empty (payload ev) ''evidence_id''" "e \<noteq> []"
    and "queued db (twin_id ev) (sequence ev) = {}"
  shows "queued db' (twin_id ev) (sequence ev)
    = {y. ((''evidence'', e), y) \<in> (set (all_edges (twin_id ev) (db_dependencies db)))\<^sup>+}"
  by (rule deletion_queues[OF assms])

text \<open>The canonical text of a JSON value is read back as that value, so equal texts are equal values:
  hashing the text hashes the value.\<close>

theorem canonical_json_roundtrip:
  assumes "jsonable v"
  shows "\<exists>text. canonical_json v = Inr text \<and> loads text = Inr v"
  using assms canonical_json_jsonable loads_dumps by blast

text \<open>The query for accepted claims returns exactly the claims that are accepted, not contested, retired,
  superseded or stale, not above the sensitivity limit, valid at the asked valid time and recorded by
  the asked time.\<close>

theorem accepted_claims_are_exact:
  assumes "accepted_claims s valid_at known_at limit = Inr cs" "twin_inv s"
  shows "x \<in> set cs \<longleftrightarrow>
    (\<exists>c. c \<in> st_accepted_claim_ids s \<and> \<not> excluded s c \<and> map_of (st_claims s) c = Some x
       \<and> too_sensitive limit x = Inr False \<and> outside_valid_time valid_at x = Inr False
       \<and> not_known_yet known_at x = Inr False)"
  using accepted_claims_iff[OF assms(1)] twin_inv_finite[OF assms(2)] by blast

text \<open>A degradation event without a reason passes \<open>validate_event\<close>, and applying it then raises KeyError:
  the check is missing from the validation, so the failure is not one of the program's own errors.\<close>

theorem degradation_without_reason_fails:
  assumes "event_type ev \<in> {''DegradationDeclared'', ''DegradationCleared''}"
    and "validate_event ev = Inr ()" "plane ev \<noteq> SIMULATION" "map_of (payload ev) ''reason'' = None"
  shows "apply_event s ev = Inl (KeyError ''reason'')"
  by (rule degradation_without_reason[OF assms])

text \<open>Round trip of resume tokens through the service: for every position of the stream, the token that
  was issued there, presented while it is fresh by an actor who may stream, opens a state stream
  whose position and acknowledged position are that position.\<close>

theorem stream_token_reopens:
  assumes "fresh_cursor cs now later" "service_ok H cf sv" "hex_digest H" "may_stream H (sv_db sv) a twin"
    and "negotiate limits max_in_flight = Inr agreed" "n \<le> length (stream (sv_db sv) twin)" "twin \<noteq> []"
  shows "\<exists>d sv'. open_state_stream H cf limits (Some (signer_ops mac cs)) later twin a
      (Some (signer_issue mac cs now (position_at twin (stream (sv_db sv) twin) n))) types include_projection max_in_flight sv = (Inr d, sv')
    \<and> ds_position d = position_at twin (stream (sv_db sv) twin) n \<and> ds_acknowledged d = position_at twin (stream (sv_db sv) twin) n"
  by (rule signer.open_state_stream_resumes[OF signer_ops_def assms refl])

text \<open>The snapshot form of a rebuilt state is well typed: its records hold only what JSON can hold, so
  \<open>canonical_json\<close> of \<open>to_dict\<close> never raises and its text is read back as the same dictionary.\<close>

theorem rebuilt_state_is_json:
  assumes "rebuild H db twin False up_to as_of = Inr s" "db_inv H db"
  shows "plain_state s \<and> (\<exists>text. canonical_json (PDict (to_dict s)) = Inr text \<and> loads text = Inr (PDict (to_dict s)))"
proof -
  have "full_replay H db twin up_to as_of = Inr s" using assms by (simp add: rebuild_full)
  then have "plain_state s" using full_replay_ok(4) assms(2) by blast
  moreover from plain_to_dict[OF this] have "jsonable (PDict (to_dict s))" by (simp only: plain_def)
  ultimately show ?thesis using canonical_json_jsonable loads_dumps by blast
qed

text \<open>The readers are a boundary: whatever object arrives, an admission result that is read is coherent
  (effects and position only if admitted, all of one request and one position, a replay with the original),
  and an admission request that is read is one that the constructors of the request, its subject and its
  authority accept.\<close>

theorem wire_readers_validate:
  assumes "admission_from_wire d = Inr x" "admit_from_wire e = Inr r"
  shows "admission_valid x \<and> make_admit r = Inr r \<and> sj_subject_id (aq_subject_ref r) \<noteq> []
    \<and> make_authority_context (aq_authority r) = Inr (aq_authority r)"
  using admission_read[OF assms(1)] admit_read[OF assms(2)] by blast

text \<open>After an admission the result can be looked up: \<open>get_admission_result\<close> finds the event of the request,
  and answers with the same identifiers, effects and canonical position as the admission did, not marked as
  a replay.\<close>

theorem lookup_repeats_admission:
  assumes "admit_evidence H uuid5 cf rd r sv = (Inr x, sv')" "service_ok H cf sv" "replays H (sv_db sv)" "admit_ok r"
    and "storable_time (utc (rd_append rd))" "storable_time (utc (rd_snapshot rd))"
  shows "\<exists>sv''. get_admission_result H uuid5 cf
      \<lparr>al_representation_id = aq_representation_id r, al_request_id = aq_request_id r, al_authority = aq_authority r\<rparr> sv'
    = (Inr (Some (x\<lparr>ar_replayed := False, ar_original_ref := None\<rparr>)), sv'')"
proof -
  from assms obtain e a where e: "service_ok H cf sv'" "replays H (sv_db sv')"
    "e \<in> set (stream (sv_db sv') (aq_representation_id r))" "map_of (payload e) ''subject_id'' = Some (PStr (sj_subject_id (aq_subject_ref r)))"
    "idempotency_key e = aq_request_id r" "answerable uuid5 e (aq_request_id r)" "actor_of (aq_authority r) sv = (Inr a, sv)"
    "actor_subject_id a = None \<or> actor_subject_id a = Some (sj_subject_id (aq_subject_ref r))"
    and x: "x = admission_of uuid5 e (aq_request_id r) (sj_subject_id (aq_subject_ref r)) (event_hash e)
       (e \<in> set (stream (sv_db sv) (aq_representation_id r)))"
    by (rule admit_law)
  obtain sv'' where "get_admission_result H uuid5 cf
      \<lparr>al_representation_id = aq_representation_id r, al_request_id = aq_request_id r, al_authority = aq_authority r\<rparr> sv'
    = (Inr (Some (admission_of uuid5 e (aq_request_id r) (sj_subject_id (aq_subject_ref r)) (event_hash e) False)), sv'')"
    by (rule lookup_law[OF e(1,2), of e
        "\<lparr>al_representation_id = aq_representation_id r, al_request_id = aq_request_id r, al_authority = aq_authority r\<rparr>"])
      (use e in simp_all)
  then show ?thesis by (simp add: x admission_of_def Let_def)
qed

text \<open>What \<open>read_representation_state\<close> shows is the state that the stream replays to: the subject it is bound to,
  the position after its last event, the identifiers of its evidence and contradictions, and its claims,
  the accepted and the contested ones, under their public names. It changes nothing, and an authority scoped
  to another subject is not answered.\<close>

theorem public_state_mirrors_replay:
  assumes "read_representation_state H uuid5 cf r sv = (Inr v, sv')" "service_ok H cf sv"
  shows "sv_db sv' = sv_db sv \<and> (\<exists>s subject. full_replay H (sv_db sv) (qr_representation r) None None = Inr s
    \<and> st_subject_id s = Some subject \<and> au_subject_id (qr_authority r) \<in> {None, Some subject} \<and> sj_subject_id (vw_subject_ref v) = subject
    \<and> rp_canonical_sequence (vw_snapshot_ref v) = int (length (stream (sv_db sv) (qr_representation r)))
    \<and> set (vw_evidence_refs v) = dom (map_of (st_evidence s)) \<and> set (vw_contradiction_refs v) = dom (map_of (st_contradictions s))
    \<and> set (vw_item_refs v) = item_ref uuid5 (qr_representation r) ` dom (map_of (st_claims s))
    \<and> set (vw_accepted_refs v) = item_ref uuid5 (qr_representation r) ` st_accepted_claim_ids s
    \<and> set (vw_contested_refs v) = item_ref uuid5 (qr_representation r) ` st_contested_claim_ids s
    \<and> set (vw_accepted_refs v) \<union> set (vw_contested_refs v) \<subseteq> set (vw_item_refs v) \<and> vw_degraded_reasons v = st_degraded_reasons s)"
proof -
  from assms obtain s subject where s: "full_replay H (sv_db sv) (qr_representation r) None None = Inr s" "st_subject_id s = Some subject"
    "au_subject_id (qr_authority r) \<in> {None, Some subject}" "sv_db sv' = sv_db sv"
    and v: "v = state_view_of uuid5 (qr_representation r) s \<lparr>rp_subject_ref = \<lparr>sj_subject_id = subject\<rparr>,
          rp_snapshot_id = ''k2:'' @ qr_representation r @ '':sequence:'' @ show_int (st_sequence s),
          rp_canonical_sequence = st_sequence s, rp_integrity_ref = ''event-chain:'' @ st_last_event_hash s\<rparr>"
    by (rule read_state_Inr)
  note inv = service_db_inv[OF assms(2)]
  have "st_sequence s = int (length (stream (sv_db sv) (qr_representation r)))"
    using replay_cached(3)[OF s(1) inv] head_stream[OF inv, of "qr_representation r"] by simp
  moreover have "twin_inv s" using full_replay_ok(1)[OF s(1) inv] .
  moreover from this have "st_accepted_claim_ids s \<union> st_contested_claim_ids s \<subseteq> dom (map_of (st_claims s))"
    by (auto simp: twin_inv_def claim_sets_ok_def)
  ultimately show ?thesis
    using s twin_inv_finite[of s] by (intro conjI exI[of _ s] exI[of _ subject]) (auto simp: v state_view_of_def dom_map_of_conv_image_fst)
qed

text \<open>A public trace: its root is the reference that was asked for; a representation item stands for a claim of
  the replayed state with that public name; ancestors and dependents are those of the private trace, each
  claim among them under its public name; and the ledger is as before.\<close>

theorem public_trace_keeps_names:
  assumes "facade_trace_lineage H uuid5 cf r sv = (Inr v, sv')" "service_ok H cf sv"
  shows "sv_db sv' = sv_db sv \<and> tv_root v = \<lparr>nr_kind = lq_node_kind r, nr_node_id = lq_node_id r\<rparr>
    \<and> (\<exists>s ident t. full_replay H (sv_db sv) (lq_representation_id r) None None = Inr s
        \<and> (lq_node_kind r = REPRESENTATION_ITEM \<longrightarrow> item_ref uuid5 (lq_representation_id r) ident = lq_node_id r \<and> dict_has (st_claims s) ident)
        \<and> (lq_node_kind r \<noteq> REPRESENTATION_ITEM \<longrightarrow> ident = lq_node_id r)
        \<and> trace (sv_db sv) s \<lparr>ln_kind = private_node_kind (lq_node_kind r), ln_node_id = ident\<rparr> = Inr t
        \<and> map nr_kind (tv_ancestors v) = map (\<lambda>n. public_kind_for (ln_kind n)) (lt_ancestors t)
        \<and> map nr_kind (tv_dependents v) = map (\<lambda>n. public_kind_for (ln_kind n)) (lt_dependents t))
    \<and> (\<forall>n\<in>set (tv_ancestors v @ tv_dependents v). nr_kind n = REPRESENTATION_ITEM
        \<longrightarrow> (\<exists>c. nr_node_id n = item_ref uuid5 (lq_representation_id r) c))"
proof -
  from assms obtain s ident t where s: "full_replay H (sv_db sv) (lq_representation_id r) None None = Inr s"
    "trace (sv_db sv) s \<lparr>ln_kind = private_node_kind (lq_node_kind r), ln_node_id = ident\<rparr> = Inr t"
    "if lq_node_kind r = REPRESENTATION_ITEM
     then item_ref uuid5 (lq_representation_id r) ident = lq_node_id r \<and> dict_has (st_claims s) ident else ident = lq_node_id r"
    "sv_db sv' = sv_db sv"
    and v: "v = \<lparr>tv_representation_id = lq_representation_id r, tv_root = \<lparr>nr_kind = lq_node_kind r, nr_node_id = lq_node_id r\<rparr>,
       tv_ancestors = map (public_node_ref uuid5 (lq_representation_id r)) (lt_ancestors t),
       tv_dependents = map (public_node_ref uuid5 (lq_representation_id r)) (lt_dependents t), tv_groups = lt_groups t\<rparr>"
    by (rule facade_trace_Inr)
  have "\<exists>c. nr_node_id (public_node_ref uuid5 rep n) = item_ref uuid5 rep c" if "nr_kind (public_node_ref uuid5 rep n) = REPRESENTATION_ITEM" for rep n
    using that by (cases "ln_kind n") (auto simp: public_node_ref_def)
  then show ?thesis using s
    by (intro conjI exI[of _ s] exI[of _ ident] exI[of _ t]) (auto simp: v public_node_ref_def split: if_splits)
qed

text \<open>The identifier of a sealed basis is its interpretation: equal identifiers come from equal subjects,
  snapshots, registries, policies and sets of further references (or from two texts with one digest), and
  the same arguments give the same basis whatever the order of the references, up to the time of the seal.\<close>

theorem sealed_basis_identifies_its_interpretation:
  assumes "seal_basis H now subject snapshot schema constructs admission epistemic constraint refs sealed_at = Inr b"
    and "seal_basis H later subject' snapshot' schema' constructs' admission' epistemic' constraint' refs' sealed_at' = Inr c"
  shows "(sb_semantic_basis_id b = sb_semantic_basis_id c \<longrightarrow>
      (subject = subject' \<and> snapshot = snapshot' \<and> schema = schema' \<and> constructs = constructs' \<and> admission = admission'
        \<and> epistemic = epistemic' \<and> constraint = constraint' \<and> set refs = set refs')
      \<or> (\<exists>x y. x \<noteq> y \<and> H x = H y))
    \<and> (subject = subject' \<and> snapshot = snapshot' \<and> schema = schema' \<and> constructs = constructs' \<and> admission = admission'
        \<and> epistemic = epistemic' \<and> constraint = constraint' \<and> mset refs' = mset refs
        \<longrightarrow> c = b\<lparr>sb_sealed_at := sb_sealed_at c\<rparr>)"
  using basis_identity_binds[OF assms] seal_basis_order[OF assms(1)] assms(2) by blast

text \<open>The stack-based walk over a decoded payload accepts exactly the values with at most 100000 nodes that
  are nested at most 64 deep, as the recursive measures of the value count them.\<close>

theorem telemetry_payload_is_bounded:
  "validate_json_shape v = Inr () \<longleftrightarrow> nodes v \<le> 100000 \<and> height v \<le> 64"
  using shape_within_limits[of v] by (simp add: max_json_nodes_def max_json_depth_def)

text \<open>Under the one-token wildcard matching of NATS, a consumer filter selects the subject of an event exactly
  when the tenants agree and so do the twin, the plane and the type, where the filter names them.\<close>

theorem consumer_filter_selects_exactly:
  assumes "consumer_filter tenant twin pl ty = Inr f" "event_subject owner ev = Inr s"
  shows "list_all2 (\<lambda>p t. p = ''*'' \<or> p = t) (split_on CHR ''.'' f) (split_on CHR ''.'' s) \<longleftrightarrow>
    tenant = owner \<and> twin \<in> {None, Some (twin_id ev)} \<and> pl \<in> {None, Some (plane_text (plane ev))}
      \<and> ty \<in> {None, Some (event_type ev)}"
  using filter_selects[OF assms] unfolding subject_matches_def .

end
