(* ===== verification/Spec2Isabelle.thy ===== *)
theory Spec2Isabelle
  imports K2_Prelude K2_Text K2_Time K2_Values K2_Json K2_Types K2_Ownership K2_Policy K2_Aggregate
    K2_Aggregate_Laws K2_Aggregate_Queries K2_Tables K2_Lineage_Index K2_Store K2_Store_Laws K2_Rebuild
    K2_Examples K2_Outbox K2_Outbox_Laws K2_Encoding K2_Cursor K2_Stream K2_Stream_Laws K2_Stream_Run
    K2_Sync K2_Session K2_Examples_Sync K2_Compiler K2_Examples_Compiler K2_Service K2_Service_Laws
    K2_Examples_Service K2_Service_Run K2_Commands K2_Commands_Laws K2_Examples_Commands
    K2_Service_Streams K2_Simulation K2_Epistemic K2_Epistemic_Laws K2_Bronze K2_Bronze_Laws K2_Elicitation K2_Examples_Vault K2_Examples_Elicitation
    K2_Semantic K2_Contracts K2_Transport K2_Facade K2_Facade_Laws K2_Facade_Admission K2_Examples_Facade
    K2_Conformance K2_Bytes K2_Json_Reader K2_Nats K2_Nats_Laws K2_Telemetry K2_Telemetry_Laws K2_Examples_Adapters K2_Credentials K2_WebSocket K2_WebSocket_Laws K2_WebSocket_Run K2_Observability K2_Examples_WebSocket K2_Further_Properties
begin

text \<open>
  Verification of K2S0, the event-sourced digital-twin core under \<open>src/src/argo_dt\<close>.

  The program. A twin is the state that the events of one stream add up to. Events are immutable
  envelopes (\<open>types.py\<close>), written to a SQLite ledger (\<open>event_store.py\<close>) under optimistic
  concurrency and idempotency keys; each is hashed together with the hash of the one before. The
  aggregate (\<open>aggregate.py\<close>) validates an event and folds it into the twin state; \<open>rebuild\<close> replays a
  stream, from a snapshot where there is one. The same transaction that writes an event puts a row
  into the outbox; a relay (\<open>sync.py\<close>) leases rows, publishes them and marks them. Subscribers read a
  stream through durable subscriptions (replay up to a captured head, then the live queue of the
  broker) and resume with signed cursors. Who may write which event is decided by \<open>ownership.py\<close>, who
  may see what by \<open>policy.py\<close>, and \<open>compiler.py\<close> puts together what a recipient sees.
  \<open>service.py\<close> joins these into the commands and queries of the application; \<open>simulation.py\<close> branches
  an isolated copy of a twin, \<open>epistemic.py\<close> traces claims to their evidence and asks for what is missing,
  \<open>bronze.py\<close> keeps raw evidence in a content-addressed vault. Outside callers reach the service through
  the data contracts of \<open>public/contracts.py\<close> (with the signed bases of \<open>seed_contracts/semantic.py\<close>), the facade
  \<open>public/facade.py\<close> and the in-process client \<open>public/transport.py\<close>; devices send telemetry batches to
  \<open>adapters/telemetry.py\<close>, \<open>adapters/nats.py\<close> carries the events of the ledger to derived consumers, and
  \<open>adapters/websocket.py\<close> serves the state streams of \<open>service.py\<close> to clients.

  How it is modelled. Records, enumerations and tables follow the code's classes and columns; a
  raise is a value of the type \<open>error\<close> in a \<open>result\<close>, and a transaction that raises returns no new
  database. Dynamically typed payloads are \<open>pyval\<close> (\<open>K2_Values\<close>), a dictionary is an association
  list in ascending key order, a Python int is an \<open>int\<close>, a datetime its reading in microseconds with
  its offset. The clock, fresh identifiers, SHA-256 and HMAC are arguments of the definitions that
  use them; nothing depends on how they are computed, and where two values must not collide that is a
  visible hypothesis or a disjunct of the statement.

  Theories, in the order of the code:
  \<^item> \<open>K2_Prelude\<close>, \<open>K2_Text\<close>, \<open>K2_Time\<close>, \<open>K2_Values\<close>: errors (\<open>errors.py\<close>), dictionaries, decimal
    numerals, Python's \<open>datetime\<close> with \<open>isoformat\<close> and \<open>fromisoformat\<close>, payload values.
  \<^item> \<open>K2_Json\<close>, \<open>K2_Types\<close>: \<open>types.py\<close>: \<open>to_primitive\<close>, \<open>canonical_json\<close>, \<open>content_hash\<close>, the reader
    \<open>json.loads\<close>, the dataclasses with the checks of their \<open>__post_init__\<close>, \<open>EventEnvelope.seal\<close> and
    \<open>verify\<close>, snapshots.
  \<^item> \<open>K2_Ownership\<close>, \<open>K2_Policy\<close>: \<open>ownership.py\<close>, \<open>policy.py\<close>. The locale \<open>policy_evaluator\<close> is the
    policy port, interpreted on \<open>DefaultDenyPolicy\<close>.
  \<^item> \<open>K2_Aggregate\<close>, \<open>K2_Aggregate_Laws\<close>, \<open>K2_Aggregate_Queries\<close>: \<open>aggregate.py\<close>: validation, one handler
    per event type, \<open>apply_event\<close>, the snapshot form, the valid-time selection, accepted claims, the
    replay loop. The laws are the invariant \<open>twin_inv\<close>, monotonicity, lineage, and the claim life cycle as an
    abstract state machine that every applied event simulates.
  \<^item> \<open>K2_Tables\<close>, \<open>K2_Lineage_Index\<close>, \<open>K2_Store\<close>, \<open>K2_Store_Laws\<close>, \<open>K2_Rebuild\<close>: \<open>event_store.py\<close>: rows and
    their conversions, the dependency index with its recursive queries, \<open>append\<close>, \<open>load\<close>, \<open>head\<close>,
    \<open>verify_chain\<close>, the snapshot table, the producer-role migration; and \<open>TwinAggregate.rebuild\<close> over it.
    The locale \<open>event_ledger\<close> is the event-store port, interpreted on the SQLite model.
  \<^item> \<open>K2_Outbox\<close>, \<open>K2_Outbox_Laws\<close>: the outbox operations and \<open>OutboxRelay.drain\<close>. The locale
    \<open>outbox_store\<close> is what the relay uses; the step relation \<open>delivery\<close> covers every interleaving of
    writers, relays and pruning.
  \<^item> \<open>K2_Encoding\<close>, \<open>K2_Cursor\<close>: URL-safe base64, the HMAC cursor signer and the rotating key ring. The
    locale \<open>cursor_codec\<close> is the protocol \<open>CursorCodec\<close>, interpreted on the signer.
  \<^item> \<open>K2_Stream\<close>, \<open>K2_Stream_Laws\<close>, \<open>K2_Stream_Run\<close>: the broker, the live queues (a heap of shared objects)
    and \<open>DurableSubscription\<close>. The locale \<open>event_source\<close> is what a subscription uses of the store; the
    step relation \<open>streaming\<close> covers writers, publications, deliveries and acknowledgements in any order.
  \<^item> \<open>K2_Sync\<close>, \<open>K2_Session\<close>: the limits and acknowledgement records of \<open>sync.py\<close>, and
    \<open>StateStreamSession\<close>, proved for every codec that keeps the laws of \<open>cursor_codec\<close>.
  \<^item> \<open>K2_Compiler\<close>: \<open>compiler.py\<close>, proved for every policy that keeps the laws of \<open>policy_evaluator\<close>.
  \<^item> \<open>K2_Service\<close>, \<open>K2_Service_Laws\<close>: the append pipeline, the cache of states and the reading of a state
    of \<open>service.py\<close>. The relay inside the service is a second interpretation of \<open>outbox_store\<close>; the relation
    \<open>serving\<close> covers any sequence of calls. \<open>K2_Service_Run\<close> chains calls (\<open>andC\<close>) and reasons over such chains.
  \<^item> \<open>K2_Commands\<close>, \<open>K2_Commands_Laws\<close>, \<open>K2_Service_Streams\<close>: the commands, the queries, the projection and action
    entry points and the state streams of \<open>service.py\<close>.
  \<^item> \<open>K2_Simulation\<close>: \<open>simulation.py\<close>: branches with a chain of their own over a read-only base.
  \<^item> \<open>K2_Epistemic\<close>, \<open>K2_Epistemic_Laws\<close>: \<open>epistemic.py\<close>: tracing of lineage in both directions, evidence
    deficits, the elicitation plan.
  \<^item> \<open>K2_Bronze\<close>, \<open>K2_Bronze_Laws\<close>, \<open>K2_Elicitation\<close>: \<open>bronze.py\<close> and the answering of elicitation requests.
    The locale \<open>bronze_port\<close> is what the coordinator uses of the vault.
  \<^item> \<open>K2_Semantic\<close>, \<open>K2_Contracts\<close>: \<open>seed_contracts/semantic.py\<close>, \<open>public/contracts.py\<close>: the published
    requests, views and errors with their checks, wire forms and readers.
  \<^item> \<open>K2_Transport\<close>, \<open>K2_Facade\<close>, \<open>K2_Facade_Laws\<close>, \<open>K2_Facade_Admission\<close>: \<open>public/transport.py\<close> and
    \<open>public/facade.py\<close>. The locale \<open>public_backend\<close> is what the client relies on, interpreted on the facade over
    the service model.
  \<^item> \<open>K2_Conformance\<close>: \<open>conformance.py\<close>: the strict event reader, the golden replay and its loader.
  \<^item> \<open>K2_Bytes\<close>, \<open>K2_Json_Reader\<close>: how a received byte string becomes a JSON value: UTF-8 decoding and the reader
    of \<open>K2_Json\<close>, with the switches of \<open>json.loads\<close> that the adapters set (duplicate keys, constants).
  \<^item> \<open>K2_Nats\<close>, \<open>K2_Nats_Laws\<close>: \<open>NatsSubjectTopology\<close> of \<open>sync.py\<close> and \<open>adapters/nats.py\<close>: subjects and
    filters, the publisher, and the consumer with its retry and dead-letter lanes over a server that may fail at any
    action.
  \<^item> \<open>K2_Telemetry\<close>, \<open>K2_Telemetry_Laws\<close>: \<open>adapters/telemetry.py\<close>: the decoding of a batch with its bounds, the
    ingestion of its records over the service model, and the acknowledgement.
  \<^item> \<open>K2_Credentials\<close>, \<open>K2_WebSocket\<close>, \<open>K2_WebSocket_Laws\<close>, \<open>K2_WebSocket_Run\<close>: \<open>adapters/auth.py\<close> and
    \<open>adapters/websocket.py\<close>: the control frames, the handshake, and an open connection whose receiving task,
    delivering task and main loop move by separate steps; the relation \<open>ws_run\<close> covers every interleaving of them with
    writers and publications.
  \<^item> \<open>K2_Observability\<close>: the export of the synchronisation counters of \<open>adapters/observability.py\<close>.
  \<^item> \<open>K2_Examples\<close> and the other \<open>K2_Examples_\<close> theories: the concrete inputs of the witnesses.
  \<^item> \<open>K2_Further_Properties\<close>: properties of single components beside the ones of this theory.

  Termination. Every definition is total. The loops of the code that are not structural are the
  work list of the recursive queries (\<open>impacted_loop\<close>: each round takes one row off the queue or finds new
  nodes of a finite graph), the delivery loop of \<open>DurableSubscription.__anext__\<close>, which ends
  because each round brings the position closer to the head or shortens the live queue, and the explicit stack of the
  payload walk (\<open>shape_loop\<close>: each round takes one node of a finite value off the stack). They carry a
  termination proof and need no fuel.

  Not modelled, and why. \<open>adapters/grpc.py\<close> and \<open>cli.py\<close>: glue over generated protobuf classes that are not in the
  repository, grpc and argparse.
  \<open>invariants.py\<close>: a registry of documentation.
  \<open>ports.py\<close>: protocol classes without bodies; the ones the model needs are the locales above. Of
  \<open>event_store.py\<close>: the connection set-up, \<open>checkpoint_wal\<close> and \<open>reclaim_space\<close> (SQLite maintenance with no
  effect on the tables). Cancellation and thread scheduling inside one store call are not modelled: a
  call is one step, as the store's lock makes it. Text is a list of characters up to 255: a JSON document with an
  escape beyond that, or a value on which the model and Python could differ, is answered by the error
  \<open>OutOfModel\<close>, and the recursion limit of \<open>json.loads\<close> is not modelled.
\<close>

section \<open>Properties\<close>

text \<open>C1. \<open>SQLiteEventStore.append\<close> keeps the ledger invariant, whatever it is asked to write: streams
  numbered from one without a gap and hash-chained, unique keys, outbox rows that point at events.
  \<open>verify_chain\<close> then accepts every stream of the new ledger.\<close>

theorem append_keeps_ledger:
  assumes "append H now ev n db = Inr (out, db')" "db_inv H db" "admissible now ev"
  shows "db_inv H db' \<and> (\<forall>twin. verify_chain H db' twin = Inr True)"
  using append_inv[OF assms] by (simp add: verify_chain_ok)

text \<open>The property at a concrete input.\<close>

theorem append_keeps_ledger_witness:
  "\<exists>out db. append ex_digest 7 ex_event 0 empty_db = Inr (out, db) \<and> db_inv ex_digest db"
  using ex_append[of ex_digest] append_keeps_ledger[OF _ db_inv_empty ex_admissible] by blast

text \<open>C2. Rebuilding a twin from its latest snapshot and the events after it gives the same result as
  replaying its whole stream, the error included: a snapshot is only a saving.\<close>

theorem snapshot_rebuild_equals_replay:
  assumes "db_inv H db" "snapshots_sound H db"
  shows "rebuild H db twin True up_to None = replay H None (cut up_to (stream db twin)) (init_state twin) []"
  using rebuild_from_snapshot[OF assms] by (simp add: full_replay_def)

text \<open>The property at a concrete input.\<close>

theorem snapshot_rebuild_equals_replay_witness:
  "\<exists>db. db_snapshots db \<noteq> [] \<and> ok (rebuild ex_digest db ''t'' True None None)"
proof -
  obtain db where "db_inv ex_digest db" "db_snapshots db \<noteq> []" "snapshots_sound ex_digest db"
    "ok (full_replay ex_digest db ''t'' None None)"
    using ex_snapshot_ledger by blast
  then show ?thesis
    using snapshot_rebuild_equals_replay[of ex_digest db "''t''" None] by (auto simp: full_replay_def)
qed

text \<open>C3. Every state that \<open>rebuild\<close> returns is well formed: identifier sets name recorded objects only, no
  claim is accepted and contested at once or either after it was retired or superseded, the
  adjudications are those of the resolved contradictions, every record is filed under its own
  identifier, and a claim or entity link that cites evidence the twin no longer holds, or of another
  independence group, is marked stale.\<close>

theorem rebuilt_state_sound:
  assumes "rebuild H db twin False up_to as_of = Inr s" "db_inv H db"
  shows "twin_inv s \<and> lineage_ok s \<and> keys_ok s \<and> st_twin_id s = twin"
proof -
  have "full_replay H db twin up_to as_of = Inr s" using assms by (simp add: rebuild_full)
  from full_replay_ok[OF this assms(2)] show ?thesis by blast
qed

text \<open>The property at a concrete input.\<close>

theorem rebuilt_state_sound_witness:
  "\<exists>db s. rebuild ex_digest db ''t'' False None None = Inr s \<and> twin_inv s \<and> lineage_ok s"
proof -
  obtain db s where d: "db_inv ex_digest db" "full_replay ex_digest db ''t'' None None = Inr s"
    using ex_ledger[of ex_digest] by blast
  then have "rebuild ex_digest db ''t'' False None None = Inr s" by (simp add: rebuild_full)
  with rebuilt_state_sound[OF this d(1)] show ?thesis by blast
qed

text \<open>C4. Idempotent retry: after a new event was appended, the same request sent again (with a fresh event
  identifier, another clock reading and any expected sequence) is answered with the stored event,
  and the ledger is left as it is.\<close>

theorem append_retry_returns_stored:
  assumes "append H now ev n db = Inr (out, db')" "duplicate_row db ev = None" "admissible now ev"
  shows "append H later (ev\<lparr>event_id := x, recorded_at := y, sequence := z\<rparr>) m db' = Inr (persisted out, db')"
  by (rule append_idempotent[OF assms refl])

text \<open>The property at a concrete input.\<close>

theorem append_retry_returns_stored_witness:
  "\<exists>out db. append ex_digest 7 ex_event 0 empty_db = Inr (out, db) \<and>
     append ex_digest 99 (ex_event\<lparr>event_id := ''id2'', recorded_at := utc 98, sequence := 4\<rparr>) 12 db = Inr (persisted out, db)"
  using ex_append[of ex_digest] append_retry_returns_stored[OF _ ex_no_duplicate ex_admissible] by blast

text \<open>C5. Applying an event never rewrites a record: claims, entity links, contradictions, adjudications,
  corrections and projections stay as they were recorded, marks (retired, superseded, resolved,
  revoked, unlinked, stale) are never taken back, and a bound subject stays bound; evidence
  leaves only by a deletion that names it.\<close>

theorem records_are_never_lost:
  assumes "apply_event s ev = Inr t" "twin_inv s"
  shows "retains s t \<and> (\<forall>e rec. map_of (st_evidence s) e = Some rec \<longrightarrow> map_of (st_evidence t) e = Some rec
      \<or> event_type ev = ''EvidenceDeleted'' \<and> py_str (pget (payload ev) ''evidence_id'') = e)"
  using apply_event_retains[OF assms] apply_event_evidence[OF assms(1)] by blast

text \<open>The property at a concrete input.\<close>

theorem records_are_never_lost_witness:
  "\<exists>t. apply_event (init_state ''t'') ex_event = Inr t \<and> retains (init_state ''t'') t"
  using ex_apply records_are_never_lost[OF _ init_state_inv] by blast

text \<open>C6. The handlers implement the claim life cycle: each applied event takes each claim along one edge of
  the state machine \<open>lifecycle\<close>, or leaves it; hence a claim that was retired or superseded stays
  so, and is not accepted, however the replay goes on.\<close>

theorem claim_lifecycle_refinement:
  assumes "twin_inv s"
  shows "(\<forall>t. apply_event s ev = Inr t \<longrightarrow> lifecycle (claim_status s c) (claim_status t c))
    \<and> (\<forall>u. replay H cutoff evs s prev = Inr u \<and> closed_status (claim_status s c) \<longrightarrow>
      closed_status (claim_status u c) \<and> c \<notin> st_accepted_claim_ids u)"
proof (intro conjI allI impI)
  show "lifecycle (claim_status s c) (claim_status t c)" if "apply_event s ev = Inr t" for t
    using that apply_event_lifecycle assms by blast
  fix u assume u: "replay H cutoff evs s prev = Inr u \<and> closed_status (claim_status s c)"
  show "closed_status (claim_status u c)"
    using lifecycle_closed[OF replay_lifecycle[OF conjunct1[OF u] assms]] u by blast
  moreover have "claim_sets_ok u" using replay_twin_inv[OF conjunct1[OF u] assms] by (simp add: twin_inv_def)
  ultimately show "c \<notin> st_accepted_claim_ids u"
    using claim_status_accepted[of u c] by (auto simp: closed_status_def)
qed

text \<open>The property at a concrete input.\<close>

theorem claim_lifecycle_refinement_witness:
  "\<exists>t. apply_event (init_state ''t'') ex_event = Inr t
     \<and> lifecycle (claim_status (init_state ''t'') ''c'') (claim_status t ''c'')"
  using ex_apply claim_lifecycle_refinement[OF init_state_inv] by blast

text \<open>C7. Leases exclude each other: while the lease of a claim runs, no other claim, by any owner, hands
  out a row of it. The table compares the times as text, so this also rests on the order of the
  formatted times being the order of time.\<close>

theorem leases_are_exclusive:
  assumes "claim_outbox H now owner limit seconds db = Inr (recs, db')" "outbox_inv H db"
    and "claim_outbox H later other limit' seconds' db' = Inr (recs', db'')"
    and "0 \<le> later" "later < lease_end now seconds"
  shows "record_key ` set recs \<inter> record_key ` set recs' = {}"
  by (rule leases_exclusive[OF assms])

text \<open>The property at a concrete input.\<close>

theorem leases_are_exclusive_witness:
  "\<exists>db recs db' recs' db''. claim_outbox ex_digest 9 ''w'' 10 30 db = Inr (recs, db')
     \<and> claim_outbox ex_digest 20 ''v'' 10 30 db' = Inr (recs', db'') \<and> recs \<noteq> []
     \<and> record_key ` set recs \<inter> record_key ` set recs' = {}"
proof -
  have b: "(0 :: int) \<le> 20" "(20 :: int) < 100000000" "(20 :: int) < lease_end 9 30" by (simp_all add: lease_end_def)
  obtain db recs db' recs' db'' where c: "outbox_inv ex_digest db" "claim_outbox ex_digest 9 ''w'' 10 30 db = Inr (recs, db')"
    "record_key ` set recs = {(''t'', 1, event_topic)}" "claim_outbox ex_digest 20 ''v'' 10 30 db' = Inr (recs', db'')"
    using ex_second_claim[OF b(1,2), of ex_digest] by (elim exE conjE) (rule that; assumption)
  have "recs \<noteq> []" using c(3) by auto
  moreover note leases_are_exclusive[OF c(2,1,4) b(1,3)]
  ultimately show ?thesis using c(2,4) by (intro exI conjI)
qed

text \<open>C8. Whatever writers, relays and pruning do in whatever order, and however late a record that was
  handed out is settled: each outbox row is marked published with success once at most.\<close>

theorem published_once:
  assumes "delivery H \<lparr>w_db = empty_db, w_handed = [], w_done = []\<rparr> v"
  shows "distinct (map record_key (w_done v)) \<and> record_key ` set (w_done v) \<inter> unpublished (w_db v) = {}
    \<and> outbox_inv H (w_db v)"
proof -
  have "world_ok H \<lparr>w_db = empty_db, w_handed = [], w_done = []\<rparr>" by (simp add: world_ok_def outbox_inv_empty)
  from delivery_world_ok[OF assms this] show ?thesis by (auto simp: world_ok_def settled_def)
qed

text \<open>The property at a concrete input.\<close>

theorem published_once_witness:
  "\<exists>v :: world. w_done v \<noteq> [] \<and> distinct (map record_key (w_done v)) \<and> outbox_inv ex_digest (w_db v)"
proof -
  obtain v where v: "delivery ex_digest \<lparr>w_db = empty_db, w_handed = [], w_done = []\<rparr> v" "w_done v \<noteq> []"
    using ex_delivery[of ex_digest] by (elim exE conjE) (rule that)
  show ?thesis using published_once[OF v(1)] v(2) by (intro exI[of _ v]) simp
qed

text \<open>C9. Exactly once, in order: a subscription opened on the ledger hands out, in every interleaving of
  appends, publications in any order and any number of times, deliveries and acknowledgements, the
  visible events of the stream from its start to where it stands, each once and in order. The
  backlog replay and the live queue meet without a gap and without a repetition.\<close>

theorem stream_delivers_exactly:
  assumes "durable_open (head db) (sqlite_load db) p limits types planes env = (Inr d, env')"
    and "db_inv H db" "hex_digest H" "1 \<le> sl_replay_page_size limits" "0 \<le> sp_sequence p"
    and "sp_sequence p = 0 \<longrightarrow> sp_event_hash p = []" "sp_twin_id p \<noteq> []"
    and "streaming H \<lparr>sw_db = db, sw_env = env', sw_sub = d, sw_emitted = []\<rparr> v"
  shows "\<exists>n. ds_position (sw_sub v) = position_at (sp_twin_id p) (stream (sw_db v) (sp_twin_id p)) n
    \<and> sw_emitted v = filter (visible d) (drop (nat (sp_sequence p)) (take n (stream (sw_db v) (sp_twin_id p))))"
proof -
  have "streamable H db" using assms(2,3) by (simp add: streamable_def)
  from open_stands[OF assms(1) this assms(4-7)] obtain k where k: "p = position_at (sp_twin_id p) (stream db (sp_twin_id p)) k"
    "stands H (sp_twin_id p) k (visible d) k k \<lparr>sw_db = db, sw_env = env', sw_sub = d, sw_emitted = []\<rparr>" by blast
  from streaming_stands[OF assms(8) k(2)] obtain m n where "stands H (sp_twin_id p) k (visible d) m n v" by blast
  moreover have "nat (sp_sequence p) = k" using k(1) by (metis nat_int position_at_def stream_position.select_convs(2))
  ultimately show ?thesis by (auto simp: stands_def core_def Let_def)
qed

text \<open>The property at a concrete input.\<close>

theorem stream_delivers_exactly_witness:
  "\<exists>(v :: stream_world) ev n. stream (sw_db v) ''t'' = [ev] \<and> sw_emitted v = [ev] \<and> ds_position (sw_sub v) = position_at ''t'' [ev] n
     \<and> sw_emitted v = filter (\<lambda>_. True) (drop 0 (take n [ev]))"
proof -
  obtain w v ev where o: "streaming ex_hex w v" "sw_emitted v = [ev]" "stream (sw_db v) ''t'' = [ev]" "sw_emitted w = []"
    "durable_open (head (sw_db w)) (sqlite_load (sw_db w)) ex_origin ex_limits [] [] ex_env = (Inr (sw_sub w), sw_env w)"
    "db_inv ex_hex (sw_db w)" "visible (sw_sub w) = (\<lambda>_. True)"
    using ex_delivered[OF ex_hex_digest, of ex_limits] by (auto simp: ex_limits_def)
  have p: "1 \<le> sl_replay_page_size ex_limits" "0 \<le> sp_sequence ex_origin" "sp_sequence ex_origin = 0 \<longrightarrow> sp_event_hash ex_origin = []"
    "sp_twin_id ex_origin \<noteq> []" by (simp_all add: ex_limits_def ex_origin_def)
  have "streaming ex_hex \<lparr>sw_db = sw_db w, sw_env = sw_env w, sw_sub = sw_sub w, sw_emitted = []\<rparr> v"
    using o(1,4) by (cases w) simp
  from stream_delivers_exactly[OF o(5,6) ex_hex_digest p this] obtain n where
    "ds_position (sw_sub v) = position_at (sp_twin_id ex_origin) (stream (sw_db v) (sp_twin_id ex_origin)) n"
    "sw_emitted v = filter (visible (sw_sub w)) (drop (nat (sp_sequence ex_origin)) (take n (stream (sw_db v) (sp_twin_id ex_origin))))"
    by blast
  then have "ds_position (sw_sub v) = position_at ''t'' [ev] n" "sw_emitted v = filter (\<lambda>_. True) (drop 0 (take n [ev]))"
    unfolding o(7) by (simp_all add: ex_origin_def o(3))
  then show ?thesis using o(2,3) by (intro exI[of _ v] exI[of _ ev] exI[of _ n]) simp
qed



text \<open>C11. An append through the service is safe, also where it raises half-way (after the write, in the
  snapshot, in the publication): the service invariant holds afterwards (sound ledger and snapshots, a
  cache within its bound whose states are replays), every stream still replays without an error, no
  stream lost an event, a result is the store's answer to the request, and a request that is not
  authorised, not valid or of the simulation plane raises and changes nothing.\<close>

theorem service_append_is_sound:
  assumes "service_ok H cf sv" "replays H (sv_db sv)" "event_fit rd ev" "service_append H cf rd ev a n sv = (r, sv')"
  shows "service_ok H cf sv' \<and> replays H (sv_db sv') \<and> prefix (stream (sv_db sv) twin) (stream (sv_db sv') twin)
    \<and> (\<forall>out. r = Inr out \<longrightarrow>
        (\<exists>db1. append H (rd_append rd) ev n (sv_db sv) = Inr (out, db1) \<and> db_events (sv_db sv') = db_events db1))
    \<and> (authorize ev a \<noteq> Inr () \<or> validate_event ev \<noteq> Inr () \<or> plane ev = SIMULATION \<longrightarrow> sv' = sv \<and> \<not> ok r)"
  using service_append_law[OF assms] sound_prefix[OF _ service_db_inv[OF assms(1)] assms(3)]
  by (auto simp: sound_after_def)

text \<open>The property at a concrete input.\<close>

theorem service_append_is_sound_witness:
  "service_ok ex_digest ex_config (snd (service_append ex_digest ex_config ex_readings ex_event ex_actor 0 ex_service))
   \<and> replays ex_digest (sv_db (snd (service_append ex_digest ex_config ex_readings ex_event ex_actor 0 ex_service)))"
  using service_append_is_sound[OF ex_service_ok ex_replays ex_event_fit surjective_pairing] by blast

text \<open>C12. The cache and the snapshots do not show: reading a state gives exactly what a replay of the stream up
  to the asked sequence and recorded time gives, followed by the valid-time selection, errors
  included; the ledger and the broker are untouched and the cache stays sound.\<close>

theorem service_state_is_replay:
  assumes "service_ok H cf sv" "service_state H cf twin up_to valid_at as_of sv = (r, sv')"
  shows "r = bindE (full_replay H (sv_db sv) twin up_to as_of)
      (\<lambda>s. case valid_at of None \<Rightarrow> Inr s | Some t \<Rightarrow> select_valid_at s t)
    \<and> service_ok H cf sv' \<and> sv_db sv' = sv_db sv \<and> sv_env sv' = sv_env sv"
  using assms by (rule service_state_law)

text \<open>The property at a concrete input.\<close>

theorem service_state_is_replay_witness:
  "fst (service_state ex_digest ex_config ''t'' None None None ex_service) = Inr (init_state ''t'')"
proof -
  have "full_replay ex_digest (sv_db ex_service) ''t'' None None = Inr (init_state ''t'')"
    by (simp add: full_replay_def cut_def ex_service_def stream_def stream_rows_def empty_db_def)
  with service_state_is_replay[OF ex_service_ok surjective_pairing, of ex_digest "''t''" None None None] show ?thesis by simp
qed



text \<open>C14. No disclosure without a record: when \<open>issue_projection\<close> returns a projection and its receipt, they are
  the compilation of the state that the stream up to the recorded time of the request replays to, and the
  stream holds a ProjectionIssued event whose payload names the projection, its fields, its source
  claims and the hash of the receipt.\<close>

theorem projection_is_recorded:
  assumes "issue_projection evaluate H cf rd pr rq consent n key a sv = (Inr (projection, rc, out), sv')"
    and "service_ok H cf sv" "replays H (sv_db sv)"
    and "storable_time (utc (rd_new rd))" "storable_time (utc (rd_append rd))" "storable_time (utc (rd_snapshot rd))"
  shows "\<exists>s h. full_replay H (sv_db sv) (rq_twin_id rq) None (Some (rq_as_of_recorded_time rq)) = Inr s
    \<and> compile_projection evaluate H (pr_asked pr) (pr_issued pr) (pr_artifact_ids pr) (pr_projection_id pr) s rq consent
        = Inr (projection, rc)
    \<and> content_hash H (receipt_val rc) = Inr h \<and> service_ok H cf sv' \<and> replays H (sv_db sv')
    \<and> (\<exists>e\<in>set (stream (sv_db sv') (rq_twin_id rq)). event_type e = ''ProjectionIssued'' \<and> payload e = audit_payload rq rc h)"
  by (rule issue_projection_law[OF assms])

text \<open>The property at a concrete input.\<close>

theorem projection_is_recorded_witness:
  "\<exists>rc sv' h e. service_ok ex_digest ex_quiet_config sv' \<and> e \<in> set (stream (sv_db sv') ''t'')
     \<and> payload e = audit_payload ex_late_request rc h"
proof -
  obtain sv projection rc out sv' where i: "service_ok ex_digest ex_quiet_config sv" "replays ex_digest (sv_db sv)"
    "issue_projection evaluate_projection ex_digest ex_quiet_config ex_issue_readings ex_issue_ids ex_late_request (Some ex_consent)
        1 ''k2'' ex_worker sv = (Inr (projection, rc, out), sv')"
    using ex_issue[of ex_digest] by (elim exE conjE) (rule that; assumption)
  have "storable_time (utc (rd_new ex_issue_readings))" "storable_time (utc (rd_append ex_issue_readings))"
    "storable_time (utc (rd_snapshot ex_issue_readings))"
    by (simp_all add: ex_issue_readings_def ex_readings_def storable_time_def valid_dt_def utc_def naive_def)
  from projection_is_recorded[OF i(3,1,2) this]
  obtain h e where "service_ok ex_digest ex_quiet_config sv'" "e \<in> set (stream (sv_db sv') (rq_twin_id ex_late_request))" "payload e = audit_payload ex_late_request rc h"
    by blast
  moreover have "rq_twin_id ex_late_request = ''t''" by (simp add: ex_late_request_def ex_request_def)
  ultimately show ?thesis by auto
qed

text \<open>C15. Minimum necessary: a compiled projection exists only under a consent that covers the request; it has
  one artifact per disclosed field, all of them requested; each artifact (the readiness summary apart)
  shows exactly the claims that are live, of the field's kind, within the sensitivity limit, valid at
  the valid time and recorded by the recorded time of the request, and of each only the five public
  fields. The receipt names exactly the identifiers of the claims shown and expires at the end of the
  consent or after one hour, whichever comes first.\<close>

theorem projection_is_minimal:
  assumes "compile_projection evaluate_projection H asked_at issued ids ident s rq consent = Inr (projection, rc)"
    and "twin_inv s" "keys_ok s"
  shows "\<exists>c arts. consent = Some c \<and> consent_covers asked_at rq c \<and> pget projection ''artifacts'' = PDict arts
    \<and> map fst arts = rc_disclosed_fields rc \<and> set (map fst arts) \<subseteq> rq_requested_fields rq
    \<and> (\<forall>f v. (f, v) \<in> set arts \<and> f \<noteq> ''readiness'' \<longrightarrow>
        (\<exists>xs. shown_claims v = map (\<lambda>x. PDict (minimal_claim x)) xs \<and> set xs = {x. claim_shown s rq f x}))
    \<and> set (rc_source_claim_ids rc) = {k. \<exists>f x. f \<in> set (rc_disclosed_fields rc) \<and> f \<noteq> ''readiness''
        \<and> map_of (st_claims s) k = Some x \<and> claim_shown s rq f x}
    \<and> instant (rc_expires_at rc) \<le> instant (cg_valid_until c) \<and> instant (rc_expires_at rc) \<le> issued + hour_us"
  using assms by (rule default_policy.compiled_projection)

text \<open>The property at a concrete input.\<close>

theorem projection_is_minimal_witness:
  "\<exists>projection rc arts. compile_projection evaluate_projection ex_digest 5 5 id ''p1'' ex_twin ex_request (Some ex_consent)
      = Inr (projection, rc)
    \<and> pget projection ''artifacts'' = PDict arts \<and> rc_source_claim_ids rc = [''c1''] \<and> instant (rc_expires_at rc) \<le> 9"
proof -
  obtain projection rc where p: "compile_projection evaluate_projection ex_digest 5 5 id ''p1'' ex_twin ex_request (Some ex_consent)
      = Inr (projection, rc)" "rc_source_claim_ids rc = [''c1'']" using ex_projection by blast
  obtain c arts where c: "Some ex_consent = Some c" "pget projection ''artifacts'' = PDict arts"
    "instant (rc_expires_at rc) \<le> instant (cg_valid_until c)"
    using projection_is_minimal[OF p(1) ex_twin_inv] by (elim exE conjE) (rule that; assumption)
  have "cg_valid_until c = utc 9" using c(1) by (auto simp: ex_consent_def)
  with c(3) have "instant (rc_expires_at rc) \<le> 9" by simp
  with p c(2) show ?thesis by (intro exI conjI)
qed

text \<open>C16. The recursive query computes the closure: \<open>dependents\<close> returns exactly the nodes reachable over the
  edges recorded up to the cutoff, sorted and each once, also where the edges form a cycle, and
  \<open>ancestors\<close> answers the converse question.\<close>

theorem dependents_are_exact:
  assumes "dependents db twin (fst x) (snd x) True up_to = Inr ds"
  shows "set ds = {y. 0 \<le> cutoff_of up_to \<and> (x, y) \<in> (set (edges_up_to twin (cutoff_of up_to) (db_dependencies db)))\<^sup>+}
    \<and> sorted ds \<and> distinct ds
    \<and> (\<forall>y as. ancestors db twin (fst y) (snd y) True up_to = Inr as \<longrightarrow> (y \<in> set ds \<longleftrightarrow> x \<in> set as))"
  using dependents_iff[OF assms] dependents_sorted[OF assms] dependents_ancestors[OF assms] by auto

text \<open>The property at a concrete input.\<close>

theorem dependents_are_exact_witness:
  "\<exists>ds. dependents ex_cycle_db ''t'' ''claim'' ''a'' True None = Inr ds \<and> set ds = {(''claim'', ''a''), (''claim'', ''b'')}"
proof -
  obtain ds where d: "dependents ex_cycle_db ''t'' (fst (''claim'', ''a'')) (snd (''claim'', ''a'')) True None = Inr ds"
    using dependents_total[of "''claim''" ex_cycle_db "''t''" "''a''" True None] by (auto simp: lineage_kinds_def)
  have e: "set (edges_up_to ''t'' (cutoff_of None) (db_dependencies ex_cycle_db))
      = {((''claim'', ''a''), (''claim'', ''b'')), ((''claim'', ''b''), (''claim'', ''a''))}"
    by (simp add: edges_up_to_def ex_cycle_db_def ex_edge_def cutoff_of_def row_source_def row_dependent_def insert_commute)
  have "set ds = {(''claim'', ''a''), (''claim'', ''b'')}"
    using dependents_are_exact[OF d] two_cycle_closure[of "(''claim'', ''a'')" "(''claim'', ''b'')"]
    unfolding e by (auto simp: cutoff_of_def)
  then show ?thesis using d by auto
qed



text \<open>C18. A state stream opens only for an actor with a global role, or for one whose subject is the subject of
  the twin as its stream replays now (or before one is bound). It then shows exactly the events of the
  requested types on the authoritative plane, and on the projection plane where asked for, within the
  server's window, and it stands at the origin or at the position that the resume token was issued
  for and is bound to by its chain tag; opening changes neither the ledger nor its soundness.\<close>

theorem state_stream_is_authorised:
  assumes "open_state_stream H cf limits (Some (signer_ops mac cs)) now twin a token types include_projection max_in_flight sv = (Inr d, sv')"
    and "service_ok H cf sv" "hex_digest H" "limits_ok limits"
  shows "may_stream H (sv_db sv) a twin \<and> service_ok H cf sv' \<and> sv_db sv' = sv_db sv
    \<and> sl_max_in_flight (ds_limits d) \<le> sl_max_in_flight limits
    \<and> (\<forall>ev. visible d ev \<longleftrightarrow> (types = [] \<or> event_type ev \<in> set types)
         \<and> (plane ev = AUTHORITATIVE \<or> include_projection \<and> plane ev = PROJECTION))
    \<and> (\<exists>n. stands H twin n (visible d) n n \<lparr>sw_db = sv_db sv', sw_env = sv_env sv', sw_sub = d, sw_emitted = []\<rparr>
         \<and> (case token of None \<Rightarrow> n = 0
            | Some t \<Rightarrow> \<exists>c. signer_verify mac cs now t twin = Inr c \<and> dc_sequence c = int n
                \<and> signer_binding mac cs c (position_at twin (stream (sv_db sv) twin) n) = Inr (position_at twin (stream (sv_db sv) twin) n)))"
  by (rule signer.open_state_stream_law[OF signer_ops_def assms])

text \<open>The property at a concrete input.\<close>

theorem state_stream_is_authorised_witness:
  "\<exists>d sv'. open_state_stream ex_hex ex_config ex_limits (Some (signer_ops ex_mac ex_signer)) 5 ''t''
      (ex_actor\<lparr>roles := {OPERATIONS_SERVICE}\<rparr>) None [] False PNone ex_service = (Inr d, sv')
     \<and> service_ok ex_hex ex_config sv' \<and> (\<forall>ev. visible d ev \<longleftrightarrow> plane ev = AUTHORITATIVE)"
proof -
  let ?a = "ex_actor\<lparr>roles := {OPERATIONS_SERVICE}\<rparr>"
  have "may_stream ex_hex (sv_db ex_service) ?a ''t''" by (simp add: may_stream_def ex_actor_def trusted_global_roles_def)
  moreover have "negotiate ex_limits PNone = Inr ex_limits" by (simp add: negotiate_def)
  ultimately obtain d sv' where o: "open_state_stream ex_hex ex_config ex_limits (Some (signer_ops ex_mac ex_signer)) 5 ''t'' ?a None [] False PNone ex_service
      = (Inr d, sv')"
    using open_state_stream_starts[OF ex_service_ok ex_hex_digest, of ?a "''t''" ex_limits PNone ex_limits "signer_ops ex_mac ex_signer" 5 "[]" False]
    by (auto simp: ok_iff prod_eq_iff)
  from state_stream_is_authorised[OF o ex_service_ok ex_hex_digest make_limits_ok[OF ex_limits_made]] o show ?thesis by auto
qed

text \<open>C19. The simulation plane cannot become evidence: a branch that \<open>fork_simulation\<close> hands out starts at the
  head of its twin's stream; whatever is appended to it, it holds simulation events of that twin by
  their owner only, and its predicted state is the left-to-right override of their predictions. The
  ledger, the aggregate and the service refuse each of those events, and the ledger stays as it is.\<close>

theorem simulation_is_isolated:
  assumes "service_ok H cf sv" "fork_simulation H cf fresh twin scenario a sv = (Inr b, sv')" "branching b c"
  shows "br_twin_id c = twin \<and> br_base_sequence c = fst (head (sv_db sv) twin) \<and> sv_db sv' = sv_db sv
    \<and> list_all (simulated twin) (br_events c)
    \<and> br_predicted_state c = foldl dict_update [] (map prediction_of (br_events c))
    \<and> (\<forall>ev\<in>set (br_events c). \<not> ok (append H now ev n db) \<and> \<not> ok (apply_event s ev)
        \<and> \<not> ok (fst (service_append H cf' rd ev a' n sw)) \<and> sv_db (snd (service_append H cf' rd ev a' n sw)) = sv_db sw)"
  using branch_of_fork[OF assms] fork_simulation_law[OF assms(1,2)] simulation_refused by (auto simp: list_all_iff simulated_def)

text \<open>The property at a concrete input.\<close>

theorem simulation_is_isolated_witness:
  "\<exists>b sv'. fork_simulation ex_digest ex_config ''b1'' ''t'' ''what if'' (ex_actor\<lparr>roles := {SIMULATION_SERVICE}\<rparr>) ex_service = (Inr b, sv')
     \<and> br_base_sequence b = fst (head (sv_db ex_service) ''t'') \<and> br_predicted_state b = []"
proof -
  obtain sv' where "service_state ex_digest ex_config ''t'' None None None ex_service = (Inr (init_state ''t''), sv')"
    using ex_state[OF ex_service_ok ex_service_db] by blast
  moreover have "py_strip ''what if'' \<noteq> []" by (simp add: py_strip_def is_space_def Let_def)
  ultimately obtain b where f: "fork_simulation ex_digest ex_config ''b1'' ''t'' ''what if'' (ex_actor\<lparr>roles := {SIMULATION_SERVICE}\<rparr>) ex_service = (Inr b, sv')"
    "br_predicted_state b = []"
    by (simp add: fork_simulation_def current_state_def andS_simp doneS_def intent_def subject_scope_def authorize_intent_def
      authorize_subject_def EVENT_OWNERS_def ex_actor_def fork_def)
  from simulation_is_isolated[OF ex_service_ok f(1) branch_refl] f show ?thesis by blast
qed

text \<open>C20. Two traces of a twin at the same time agree: one node is among the dependents of another exactly when
  that one is among its ancestors. The groups of a trace are exactly the independence groups of the
  evidence at or behind its node, each with its evidence in ascending order. Tracing changes nothing.\<close>

theorem lineage_trace_is_reversible:
  assumes "service_ok H cf sv" "trace_lineage H cf twin ka ia as_of sv = (Inr t, sv1)" "trace_lineage H cf twin kb ib as_of sv1 = (Inr u, sv2)"
  shows "(lt_root u \<in> set (lt_dependents t) \<longleftrightarrow> lt_root t \<in> set (lt_ancestors u)) \<and> sv_db sv2 = sv_db sv
    \<and> (\<exists>s. full_replay H (sv_db sv) twin None as_of = Inr s \<and> (\<forall>g es. map_of (lt_groups t) g = Some es \<longleftrightarrow>
        g \<noteq> [] \<and> es \<noteq> [] \<and> es = filter (\<lambda>e. group_of s e = g) (trace_evidence (lt_root t) (lt_ancestors t))))"
proof -
  obtain s where t: "service_ok H cf sv1" "sv_db sv1 = sv_db sv" "full_replay H (sv_db sv) twin None as_of = Inr s"
      "trace (sv_db sv) s \<lparr>ln_kind = ka, ln_node_id = ia\<rparr> = Inr t"
    using trace_lineage_law[OF assms(1,2)] by blast
  then have u: "sv_db sv2 = sv_db sv" "trace (sv_db sv) s \<lparr>ln_kind = kb, ln_node_id = ib\<rparr> = Inr u"
    using trace_lineage_law[OF t(1) assms(3)] by auto
  note roots = trace_Inr(3)[OF t(4)] trace_Inr(3)[OF u(2)]
  show ?thesis using trace_reversible[OF t(4) u(2)] trace_groups(1)[OF t(4)] t(3) u(1) roots by auto
qed

text \<open>The property at a concrete input.\<close>

theorem lineage_trace_is_reversible_witness:
  "\<exists>t sv1 u sv2. trace_lineage ex_digest ex_config ''t'' EVIDENCE_NODE ''e1'' None ex_service = (Inr t, sv1)
     \<and> trace_lineage ex_digest ex_config ''t'' EVIDENCE_NODE ''e2'' None sv1 = (Inr u, sv2)
     \<and> (lt_root u \<in> set (lt_dependents t) \<longleftrightarrow> lt_root t \<in> set (lt_ancestors u))"
proof -
  obtain t sv1 where t: "trace_lineage ex_digest ex_config ''t'' EVIDENCE_NODE ''e1'' None ex_service = (Inr t, sv1)"
    using ex_trace[OF ex_service_ok ex_service_db, of "''e1''"] by auto
  have "service_ok ex_digest ex_config sv1" "sv_db sv1 = empty_db"
    using trace_lineage_law[OF ex_service_ok t] ex_service_db by auto
  then obtain u sv2 where u: "trace_lineage ex_digest ex_config ''t'' EVIDENCE_NODE ''e2'' None sv1 = (Inr u, sv2)"
    using ex_trace[of sv1 "''e2''"] by auto
  note r = conjunct1[OF lineage_trace_is_reversible[OF ex_service_ok t u]]
  show ?thesis by (intro exI conjI) (rule t, rule u, rule r)
qed

text \<open>C21. A plan is made of the state that the stream replays to. It has a gap for every missing claim, every
  claim with too few independent groups, every contested or stale claim and every open contradiction
  among the selected claims, and for nothing else; its questions answer its gaps one by one; and
  \<open>verify_plan\<close> accepts it, and accepts only plans that the planner would make of that state.\<close>

theorem elicitation_plan_is_exact:
  assumes "service_ok H cf sv" "plan_elicitation H uuid5 cf twin objective claim_ids sv = (Inr p, sv')"
  shows "service_ok H cf sv' \<and> sv_db sv' = sv_db sv \<and> map qn_gap_id (ep_questions p) = map gp_gap_id (ep_gaps p)
    \<and> (\<exists>s. full_replay H (sv_db sv) twin None None = Inr s
        \<and> (\<forall>kind targets. (\<exists>g\<in>set (ep_gaps p). gp_kind g = kind \<and> gp_target_ids g = targets) \<longleftrightarrow> gap_wanted 2 s claim_ids kind targets)
        \<and> verify_plan uuid5 2 s p = Inr ()
        \<and> (\<forall>q. verify_plan uuid5 2 s q = Inr () \<longleftrightarrow> make_plan uuid5 2 s (ep_objective q) (Some (ep_claim_ids q)) = Inr q))"
proof -
  obtain s where s: "full_replay H (sv_db sv) twin None None = Inr s" "make_plan uuid5 2 s objective claim_ids = Inr p" "verify_plan uuid5 2 s p = Inr ()"
    and sv: "service_ok H cf sv'" "sv_db sv' = sv_db sv"
    using plan_elicitation_law[OF assms] by blast
  show ?thesis using s sv plan_gaps_exact[OF s(2)] make_plan_Inr(5)[OF s(2)] verify_plan_iff by blast
qed

text \<open>The property at a concrete input.\<close>

theorem elicitation_plan_is_exact_witness:
  "\<exists>sv'. plan_elicitation ex_digest ex_uuid5 ex_config ''t'' ''goal'' None ex_service = (Inr ex_plan, sv')
     \<and> map qn_gap_id (ep_questions ex_plan) = map gp_gap_id (ep_gaps ex_plan) \<and> service_ok ex_digest ex_config sv'"
proof -
  obtain sv' where p: "plan_elicitation ex_digest ex_uuid5 ex_config ''t'' ''goal'' None ex_service = (Inr ex_plan, sv')" using ex_plan_made by blast
  from elicitation_plan_is_exact[OF ex_service_ok p] p show ?thesis by blast
qed

text \<open>C22. When an answer is recorded, the actor may ingest for the subject, the plan is one the planner makes of
  the twin at the plan's sequence, the question belongs to it, and the subject is the twin's. The
  stream then holds an EvidenceIngested event whose payload names the plan, the question and the
  address and hash of the answer, and \<open>get\<close> returns exactly the answer from that address. The service
  stays sound and every stream still replays.\<close>

theorem answer_is_recorded:
  assumes "service_ok H cf sv" "replays H (sv_db sv)" "answer_fit rd response rights"
    and "record_elicitation_response H uuid5 cf rd (Some (vault_put vc nonce now others)) twin subject p response rights expected key a (sv, fs)
      = (Inr out, sv', fs')"
    and "\<And>content. sealable vc nonce now subject ''application/json'' content (answer_metadata p response)"
  shows "service_ok H cf sv' \<and> replays H (sv_db sv')
    \<and> (\<exists>question content rec name. answers H uuid5 (sv_db sv) twin subject p (rs_question_id response) a question
        \<and> answer_content p response = Inr content
        \<and> (\<exists>uri. vault_get vc fs' subject uri = Inr (rec, content) \<and> bo_media_type rec = ''application/json''
            \<and> (\<exists>e\<in>set (stream (sv_db sv') twin). event_type e = ''EvidenceIngested''
               \<and> payload e = answer_payload (uuid5 name) subject p response question rights uri (bo_content_hash rec))))"
  using recording_sound[OF assms(1-4)] file_vault.recorded_answer[OF assms] by blast

text \<open>The property at a concrete input.\<close>

theorem answer_is_recorded_witness:
  "\<exists>sv' fs' rec uri e. vault_get ex_vault fs' ''alice'' uri = Inr (rec, ex_content)
     \<and> e \<in> set (stream (sv_db sv') ''t'') \<and> service_ok ex_digest ex_quiet_config sv' \<and> event_type e = ''EvidenceIngested''"
proof -
  obtain out sv' fs' where r: "record_elicitation_response ex_digest ex_uuid5 ex_quiet_config ex_readings (Some (vault_put ex_vault ex_nonce 5 id)) ''t''
     ''alice'' ex_plan ex_response [] 0 ''k1'' ex_ingester (ex_service, \<lambda>_. None) = (Inr out, sv', fs')"
    using ex_recorded by blast
  have fit: "answer_fit ex_readings ex_response []"
    by (simp add: answer_fit_def plain_def wf_dict_def ex_response_def ex_readings_def storable_time_def valid_dt_def utc_def naive_def)
  from answer_is_recorded[OF ex_quiet_service_ok ex_replays fit r ex_sealable] ex_answer_content show ?thesis by fastforce
qed

text \<open>C23. Round trip of the vault: after a \<open>put\<close> that returns an address and a hash, \<open>get\<close> of that address
  returns the content, the media type, that hash and the same metadata, whether this call sealed the
  object, found it stored, or lost the race to a concurrent writer (\<open>others\<close> is what they did).\<close>

theorem vault_returns_what_was_put:
  assumes "vault_put vc nonce now others subject media content metadata fs = (Inr (uri, h), fs')"
    and "sealable vc nonce now subject media content metadata"
  shows "h = bytes_hash vc content \<and> (\<exists>rec. vault_get vc fs' subject uri = Inr (rec, content) \<and> bo_media_type rec = media
    \<and> bo_content_hash rec = h \<and> (\<exists>t. canonical_json (PDict (bo_metadata rec)) = Inr t \<and> canonical_json (PDict metadata) = Inr t))"
proof -
  have "h = bytes_hash vc content \<and> stored_as vc fs' subject uri media content metadata"
    by (rule put_then_get[OF assms(1)]) (use assms(2) in \<open>simp_all add: sealable_def del: jsonable.simps dumps.simps\<close>)
  then show ?thesis by (auto simp: stored_as_def)
qed

text \<open>The property at a concrete input.\<close>

theorem vault_returns_what_was_put_witness:
  "\<exists>uri fs' rec. vault_get ex_vault fs' ''alice'' uri = Inr (rec, ex_content) \<and> bo_content_hash rec = bytes_hash ex_vault ex_content"
proof -
  obtain uri h fs' where p: "vault_put ex_vault ex_nonce 5 id ''alice'' ''application/json'' ex_content (answer_metadata ex_plan ex_response)
    (\<lambda>_. None) = (Inr (uri, h), fs')" using ex_answer_put by blast
  from vault_returns_what_was_put[OF p ex_sealable] show ?thesis by auto
qed

text \<open>C24. Authenticity: when \<open>get\<close> returns a record and a content, the address is the subject's own, the file
  there is an envelope that was encrypted under a key of that subject with exactly the header it
  carries, that header names this object and this subject, and the returned content is the sealed one
  with its own hash. The hypothesis is what AES-GCM promises: only what was encrypted decrypts.\<close>

theorem vault_object_is_authentic:
  assumes "vault_get vc fs subject uri = Inr (rec, content)" "cipher_sound (vc_cipher vc)"
  shows "\<exists>ident envelope. uri = object_uri (subject_digest vc subject) ident
    \<and> fs (subject_digest vc subject, ident) = Some (Regular envelope)
    \<and> bo_object_uri rec = uri \<and> bo_subject_id rec = subject \<and> bo_content_hash rec = bytes_hash vc content
    \<and> sealed_for vc subject (subject_digest vc subject) ident rec content envelope"
  by (rule get_sound[OF assms])

text \<open>The property at a concrete input.\<close>

theorem vault_object_is_authentic_witness:
  "\<exists>fs ident rec envelope. fs (subject_digest ex_vault ''alice'', ident) = Some (Regular envelope)
     \<and> sealed_for ex_vault ''alice'' (subject_digest ex_vault ''alice'') ident rec ex_content envelope"
proof -
  obtain uri h fs' where p: "vault_put ex_vault ex_nonce 5 id ''alice'' ''application/json'' ex_content (answer_metadata ex_plan ex_response)
    (\<lambda>_. None) = (Inr (uri, h), fs')" using ex_answer_put by blast
  obtain rec where g: "vault_get ex_vault fs' ''alice'' uri = Inr (rec, ex_content)" using file_vault.put_get[OF p ex_sealable] by blast
  from vault_object_is_authentic[OF g ex_vault_ok(2)] show ?thesis by blast
qed

text \<open>C25. Termination with its bound: the work-list loop of the recursive queries, stopped after as many rounds
  as there are nodes with an incoming edge, has emptied its queue and holds its result; each node is
  taken at most once, whatever cycles the edges have.\<close>

theorem dependency_query_ends:
  "impacted_within (card (snd ` set E)) E (successors E x) (successors E x) = Some (impacted E x) \<and> distinct (impacted E x)"
  by (intro conjI impacted_rounds distinct_impacted)





text \<open>C28. What \<open>admit_evidence\<close> answers: there is one event of evidence in the stream of the representation that
  carries the key and the subject of the request, and the answer is computed from it (its identifier, its
  sequence and hash as canonical position, its evidence as effect). It says \<open>replayed\<close> exactly when the event
  was there before the call; otherwise the stream has grown by this event. The service stays sound.\<close>

theorem admission_is_answered_from_ledger:
  assumes "admit_evidence H uuid5 cf rd r sv = (Inr x, sv')" "service_ok H cf sv" "replays H (sv_db sv)" "admit_ok r"
    and "storable_time (utc (rd_append rd))" "storable_time (utc (rd_snapshot rd))"
  shows "service_ok H cf sv' \<and> replays H (sv_db sv')
    \<and> (\<exists>e\<in>set (stream (sv_db sv') (aq_representation_id r)).
         event_type e = ''EvidenceIngested'' \<and> idempotency_key e = aq_request_id r
         \<and> map_of (payload e) ''subject_id'' = Some (PStr (sj_subject_id (aq_subject_ref r)))
         \<and> map_of (payload e) ''evidence_id'' = Some (PStr (uuid5 (aq_representation_id r @ '':'' @ sj_subject_id (aq_subject_ref r) @ '':''
              @ aq_source r @ '':'' @ aq_source_record_id r)))
         \<and> x = admission_of uuid5 e (aq_request_id r) (sj_subject_id (aq_subject_ref r)) (event_hash e)
              (e \<in> set (stream (sv_db sv) (aq_representation_id r)))
         \<and> stream (sv_db sv') (aq_representation_id r) = stream (sv_db sv) (aq_representation_id r)
              @ (if e \<in> set (stream (sv_db sv) (aq_representation_id r)) then [] else [e]))"
proof -
  from assms obtain e where "service_ok H cf sv'" "replays H (sv_db sv')"
    "e \<in> set (stream (sv_db sv') (aq_representation_id r))" "idempotency_key e = aq_request_id r" "answerable uuid5 e (aq_request_id r)"
    "map_of (payload e) ''subject_id'' = Some (PStr (sj_subject_id (aq_subject_ref r)))"
    "map_of (payload e) ''evidence_id'' = Some (PStr (uuid5 (aq_representation_id r @ '':'' @ sj_subject_id (aq_subject_ref r) @ '':''
        @ aq_source r @ '':'' @ aq_source_record_id r)))"
    "x = admission_of uuid5 e (aq_request_id r) (sj_subject_id (aq_subject_ref r)) (event_hash e)
       (e \<in> set (stream (sv_db sv) (aq_representation_id r)))"
    "stream (sv_db sv') (aq_representation_id r) = stream (sv_db sv) (aq_representation_id r)
       @ (if e \<in> set (stream (sv_db sv) (aq_representation_id r)) then [] else [e])"
    by (rule admit_law)
  then show ?thesis by (intro conjI bexI[of _ e]) (simp_all add: answerable_def)
qed

text \<open>The property at a concrete input.\<close>

theorem admission_is_answered_from_ledger_witness:
  "\<exists>x sv'. admit_evidence ex_digest ex_item_uuid ex_quiet_config ex_readings ex_admit ex_service = (Inr x, sv')
    \<and> (\<exists>e\<in>set (stream (sv_db sv') ''t''). idempotency_key e = ''k1'' \<and> ar_admission_id x = event_id e)"
proof -
  obtain x sv' where a: "admit_evidence ex_digest ex_item_uuid ex_quiet_config ex_readings ex_admit ex_service = (Inr x, sv')"
    using ex_admission by blast
  from admission_is_answered_from_ledger[OF a ex_quiet_service_ok ex_replays ex_admit_ok ex_admit_times]
  obtain e where "e \<in> set (stream (sv_db sv') ''t'')" "idempotency_key e = ''k1''"
    "\<exists>s h b. x = admission_of ex_item_uuid e ''k1'' s h b"
    by (auto simp: ex_admit_def)
  then show ?thesis using a by (intro exI conjI) (assumption, auto simp: admission_of_def Let_def)
qed



text \<open>C30. The deficits of a representation are exactly those of the state that its stream replays to: that it has no
  claim, every claim with stale evidence and every contested claim (by its public name), every contradiction
  that is not resolved, and the reasons of degradation. Reading them changes nothing.\<close>

theorem public_deficits_are_exact:
  assumes "read_representation_deficits H uuid5 cf r sv = (Inr ds, sv')" "service_ok H cf sv"
  shows "sv_db sv' = sv_db sv \<and> (\<exists>s. full_replay H (sv_db sv) (qr_representation r) None None = Inr s
    \<and> (\<lambda>d. (df_kind d, df_target_refs d)) ` set ds =
      (if st_claims s = [] then {(''missing_representation'', [])} else {})
      \<union> (\<lambda>c. (''stale_representation'', [item_ref uuid5 (qr_representation r) c])) ` st_stale_claim_ids s
      \<union> (\<lambda>c. (''contested_representation'', [item_ref uuid5 (qr_representation r) c])) ` st_contested_claim_ids s
      \<union> (\<lambda>c. (''unresolved_contradiction'', [c])) ` (dom (map_of (st_contradictions s)) - st_resolved_contradiction_ids s)
      \<union> (if st_degraded_reasons s = [] then {} else {(''degraded_state'', [])}))"
proof -
  from assms obtain s where s: "full_replay H (sv_db sv) (qr_representation r) None None = Inr s" "sv_db sv' = sv_db sv"
    "ds = deficits_of uuid5 (qr_representation r) s (st_degraded_reasons s)"
    by (rule read_deficits_Inr)
  then show ?thesis
    using deficit_targets[OF full_replay_ok(1)[OF s(1) service_db_inv[OF assms(2)]], of uuid5 "qr_representation r" "st_degraded_reasons s"]
    by blast
qed

text \<open>The property at a concrete input.\<close>

theorem public_deficits_are_exact_witness:
  "\<exists>sv ds sv'. read_representation_deficits ex_digest ex_item_uuid ex_quiet_config ex_query sv = (Inr ds, sv') \<and> sv_db sv' = sv_db sv"
proof -
  obtain sv ds sv' where r: "service_ok ex_digest ex_quiet_config sv"
    "read_representation_deficits ex_digest ex_item_uuid ex_quiet_config ex_query sv = (Inr ds, sv')"
    using ex_read[of ex_digest] by blast
  from conjunct1[OF public_deficits_are_exact[OF r(2,1)]] r(2) show ?thesis by blast
qed

text \<open>C31. A telemetry batch that is answered leaves the service sound and its stream only longer. The acknowledgements are
  numbered like the records. An accepted record names an event of the stream with its idempotency key and its
  evidence identifier, which the batch added if the record is reported as committed; a rejected one carries
  a code. The retryable rejections are the records from the first conflict on. The committed sequence is the
  length of the stream and the resume token names its head.\<close>

theorem telemetry_batch_is_accounted:
  assumes "telemetry_process H sha uuid5 cf limits codec now rds a b sizes whole sv = (Inr ack, sv')"
    and "service_ok H cf sv" "replays H (sv_db sv)"
    and "\<forall>i. storable_time (utc (rd_append (rds i))) \<and> storable_time (utc (rd_snapshot (rds i)))"
    and "\<forall>r \<in> set (tb_records b). jsonable (PDict (tr_rights r)) \<and> valid_dt (tr_valid_from r)"
  shows "service_ok H cf sv' \<and> replays H (sv_db sv')
    \<and> (\<exists>new. stream (sv_db sv') (tb_twin_id b) = stream (sv_db sv) (tb_twin_id b) @ new)
    \<and> map ra_record_index (sk_records ack) = map int [0..<length (tb_records b)]
    \<and> list_all2 (\<lambda>r k.
        if ra_status k = record_status.REJECTED then \<exists>code. ra_error_code k = Some code \<and> code \<noteq> []
        else ra_source_record_id k = tr_source_record_id r \<and> ra_error_code k = None
          \<and> (\<exists>e \<in> set (stream (sv_db sv') (tb_twin_id b)). ra_event_id k = Some (event_id e) \<and> ra_sequence k = Some (sequence e)
               \<and> idempotency_key e = record_idempotency_key uuid5 b r
               \<and> map_of (payload e) ''evidence_id'' = Some (PStr (uuid5 (tb_twin_id b @ '':'' @ tb_subject_id b @ '':'' @ tb_source b
                    @ '':'' @ tr_source_record_id r)))
               \<and> (ra_status k = COMMITTED \<longrightarrow> e \<notin> set (stream (sv_db sv) (tb_twin_id b)))))
        (tb_records b) (sk_records ack)
    \<and> (\<exists>answered conflicts. sk_records ack = answered @ conflicts \<and> (\<forall>k \<in> set answered. \<not> ra_retryable k)
        \<and> (\<forall>k \<in> set conflicts. ra_status k = record_status.REJECTED \<and> ra_retryable k \<and> ra_error_code k = Some ''CONCURRENCY_CONFLICT''))
    \<and> sk_committed_sequence ack = int (length (stream (sv_db sv') (tb_twin_id b)))
    \<and> (\<exists>co p. codec = Some co \<and> sk_resume_token ack = co_issue co now p
        \<and> make_position (tb_twin_id b) (fst (head (sv_db sv') (tb_twin_id b))) (snd (head (sv_db sv') (tb_twin_id b))) = Inr p)"
proof -
  have "clocks_ok rds" "\<forall>r \<in> set (tb_records b). record_fit r" using assms(4,5) by (simp_all add: clocks_ok_def record_fit_def)
  note law = telemetry_law[OF assms(1-3) this]
  note answered = law[THEN conjunct2, THEN conjunct2, THEN conjunct2, THEN conjunct1, unfolded batch_answered_def]
  have "list_all2 (\<lambda>r k.
        if ra_status k = record_status.REJECTED then \<exists>code. ra_error_code k = Some code \<and> code \<noteq> []
        else ra_source_record_id k = tr_source_record_id r \<and> ra_error_code k = None
          \<and> (\<exists>e \<in> set (stream (sv_db sv') (tb_twin_id b)). ra_event_id k = Some (event_id e) \<and> ra_sequence k = Some (sequence e)
               \<and> idempotency_key e = record_idempotency_key uuid5 b r
               \<and> map_of (payload e) ''evidence_id'' = Some (PStr (uuid5 (tb_twin_id b @ '':'' @ tb_subject_id b @ '':'' @ tb_source b
                    @ '':'' @ tr_source_record_id r)))
               \<and> (ra_status k = COMMITTED \<longrightarrow> e \<notin> set (stream (sv_db sv) (tb_twin_id b)))))
        (tb_records b) (sk_records ack)"
    by (rule list_all2_mono[OF answered[THEN conjunct2, THEN conjunct1]]) (simp add: accounts_for_def)
  then show ?thesis using law answered unfolding grows_def conflict_code_def by (simp only: add_0 simp_thms)
qed

text \<open>The property at a concrete input.\<close>

theorem telemetry_batch_is_accounted_witness:
  "\<exists>ack sv'. telemetry_process ex_zeros ex_zeros ex_item_uuid ex_quiet_config ex_batch_limits (Some ex_codec) 9 (\<lambda>_. ex_readings) ex_ingestor
      ex_batch [PInt 2] (PInt 2) ex_service = (Inr ack, sv') \<and> map ra_record_index (sk_records ack) = [0]"
proof -
  obtain ack sv' where t: "telemetry_process ex_zeros ex_zeros ex_item_uuid ex_quiet_config ex_batch_limits (Some ex_codec) 9 (\<lambda>_. ex_readings)
      ex_ingestor ex_batch [PInt 2] (PInt 2) ex_service = (Inr ack, sv')" using ex_telemetry by blast
  have "map ra_record_index (sk_records ack) = map int [0..<length (tb_records ex_batch)]"
    using telemetry_batch_is_accounted[OF t ex_quiet_service_ok ex_replays] ex_clocks
    by (simp add: clocks_ok_def record_fit_def ex_batch_def del: jsonable.simps)
  then show ?thesis using t by (auto simp: ex_batch_def)
qed

text \<open>C32. The message a publisher makes of an event, delivered to a consumer of the same tenant, is decoded as the
  event the ledger keeps; its subject is the one the consumer expects; and when the handler
  returns, the message is acknowledged and counted once.\<close>

theorem published_event_reaches_handler:
  assumes "event_message H p ev = Inr m" "json_event ev" "storable ev" "schema_version ev = ''argo.dt.event/v2''"
    and "nc_tenant c = np_tenant p" "np_max_event_bytes p \<le> nc_max_event_bytes c"
    and "handler (persisted ev) = None" "server Ack = Inr ()"
  shows "nats_process H server handler c now \<lparr>nd_subject = nm_subject m, nd_data = nm_data m, nd_num_delivered = n\<rparr> (stats, acts)
    = (Inr (), stats\<lparr>ns_received := Suc (ns_received stats), ns_acknowledged := Suc (ns_acknowledged stats)\<rparr>, acts @ [Ack])"
  using published_is_decoded[OF assms(1-4,6)] event_message_Inr[OF assms(1)] assms(5,7,8)
  by (simp add: nats_process_def settle_def act_def)

text \<open>The property at a concrete input.\<close>

theorem published_event_reaches_handler_witness:
  "\<exists>n ev m. event_message ex_digest (ex_publisher n) ev = Inr m
    \<and> nats_process ex_digest (\<lambda>_. Inr ()) (\<lambda>_. None) (ex_consumer n) 0 \<lparr>nd_subject = nm_subject m, nd_data = nm_data m, nd_num_delivered = None\<rparr>
        (no_stats, []) = (Inr (), no_stats\<lparr>ns_received := 1, ns_acknowledged := 1\<rparr>, [Ack])"
proof -
  obtain ev n m where e: "event_message ex_digest (ex_publisher n) ev = Inr m" "json_event ev" "storable ev"
    "schema_version ev = ''argo.dt.event/v2''" using ex_sent by blast
  have "nc_tenant (ex_consumer n) = np_tenant (ex_publisher n)" "np_max_event_bytes (ex_publisher n) \<le> nc_max_event_bytes (ex_consumer n)"
    by (simp_all add: ex_consumer_def ex_publisher_def)
  from published_event_reaches_handler[OF e this, of "\<lambda>_. None" "\<lambda>_. Inr ()" 0 None no_stats "[]"] e(1) show ?thesis
    by (intro exI[of _ n] exI[of _ ev] exI[of _ m]) (simp add: no_stats_def)
qed

text \<open>C33. A delivery that \<open>process\<close> returns from is settled exactly once. It is acknowledged if and only if it was decoded,
  carried the subject of its event and was handled; it is negatively acknowledged only below the delivery
  bound; otherwise its marker is published and it is terminated. The counters change accordingly. Even when an
  action of the server fails, an unhandled delivery is never acknowledged.\<close>

theorem deliveries_are_settled_once:
  assumes "nats_process H server handler c now m (stats, acts) = (r, stats', acts')"
  shows "(r = Inr () \<longrightarrow>
      (if \<exists>ev. nats_decode H c (nd_data m) = Inr ev \<and> event_subject (nc_tenant c) ev = Inr (nd_subject m) \<and> handler ev = None
       then acts' = acts @ [Ack] \<and> stats' = stats\<lparr>ns_received := Suc (ns_received stats), ns_acknowledged := Suc (ns_acknowledged stats)\<rparr>
       else (delivery_count m < nc_max_deliver c \<and> acts' = acts @ [Nak (nc_retry_delay c)]
              \<and> stats' = stats\<lparr>ns_received := Suc (ns_received stats), ns_retried := Suc (ns_retried stats)\<rparr>)
          \<or> (\<exists>out ev reason. deadletter_message c now m ev reason = Inr out \<and> acts' = acts @ [Publish out, Term]
              \<and> ((reason = ''INVALID_EVENT'' \<and> stats' = stats\<lparr>ns_received := Suc (ns_received stats),
                      ns_deadlettered := Suc (ns_deadlettered stats), ns_malformed := Suc (ns_malformed stats)\<rparr>)
                 \<or> (reason = ''MAX_DELIVER_EXCEEDED'' \<and> nc_max_deliver c \<le> delivery_count m
                      \<and> stats' = stats\<lparr>ns_received := Suc (ns_received stats), ns_deadlettered := Suc (ns_deadlettered stats)\<rparr>)))))
    \<and> (\<exists>new. acts' = acts @ new \<and> (Ack \<in> set new \<longrightarrow>
        (\<exists>ev. nats_decode H c (nd_data m) = Inr ev \<and> event_subject (nc_tenant c) ev = Inr (nd_subject m) \<and> handler ev = None)))"
proof (intro conjI impI)
  show "\<exists>new. acts' = acts @ new \<and> (Ack \<in> set new \<longrightarrow>
        (\<exists>ev. nats_decode H c (nd_data m) = Inr ev \<and> event_subject (nc_tenant c) ev = Inr (nd_subject m) \<and> handler ev = None))"
    using process_acts[OF assms] unfolding handled_def by blast
  assume "r = Inr ()"
  with assms have "settled_as H handler c now m (stats, acts) (stats', acts')" using process_settles by blast
  then show "if \<exists>ev. nats_decode H c (nd_data m) = Inr ev \<and> event_subject (nc_tenant c) ev = Inr (nd_subject m) \<and> handler ev = None
       then acts' = acts @ [Ack] \<and> stats' = stats\<lparr>ns_received := Suc (ns_received stats), ns_acknowledged := Suc (ns_acknowledged stats)\<rparr>
       else (delivery_count m < nc_max_deliver c \<and> acts' = acts @ [Nak (nc_retry_delay c)]
              \<and> stats' = stats\<lparr>ns_received := Suc (ns_received stats), ns_retried := Suc (ns_retried stats)\<rparr>)
          \<or> (\<exists>out ev reason. deadletter_message c now m ev reason = Inr out \<and> acts' = acts @ [Publish out, Term]
              \<and> ((reason = ''INVALID_EVENT'' \<and> stats' = stats\<lparr>ns_received := Suc (ns_received stats),
                      ns_deadlettered := Suc (ns_deadlettered stats), ns_malformed := Suc (ns_malformed stats)\<rparr>)
                 \<or> (reason = ''MAX_DELIVER_EXCEEDED'' \<and> nc_max_deliver c \<le> delivery_count m
                      \<and> stats' = stats\<lparr>ns_received := Suc (ns_received stats), ns_deadlettered := Suc (ns_deadlettered stats)\<rparr>)))"
    unfolding settled_as_def handled_def acknowledged_by_def retried_by_def deadlettered_by_def by (cases stats) auto
qed

text \<open>The property at a concrete input.\<close>

theorem deliveries_are_settled_once_witness:
  "snd (snd (nats_process ex_digest (\<lambda>_. Inr ()) (\<lambda>_. None) (ex_consumer 1024) 0 \<lparr>nd_subject = ''s'', nd_data = [], nd_num_delivered = None\<rparr>
      (no_stats, []))) \<noteq> [Ack]"
proof -
  obtain r stats acts where run: "nats_process ex_digest (\<lambda>_. Inr ()) (\<lambda>_. None) (ex_consumer 1024) 0
      \<lparr>nd_subject = ''s'', nd_data = [], nd_num_delivered = None\<rparr> (no_stats, []) = (r, stats, acts)" by (metis prod.exhaust)
  have "nats_decode ex_digest (ex_consumer 1024) [] \<noteq> Inr ev" for ev
    by (simp add: nats_decode_def ex_consumer_def read_json_def decode_text_def loads_with_def skip_ws_def instead_def)
  then show ?thesis using deliveries_are_settled_once[OF run] run by auto
qed



text \<open>C35. With a server that accepts every action, \<open>process\<close> returns, so the delivery is settled, for every delivery but one
  kind: a decoded event whose twin identifier is no subject token. For these the dead-letter lane itself raises
  ProtocolViolation, nothing is sent, and the delivery stays unsettled.\<close>

theorem only_unroutable_deliveries_stay_unsettled:
  assumes "make_consumer tenant stage bound delay max_bytes = Inr c" "\<forall>a. server a = Inr ()"
    and "nats_decode H c (nd_data m) \<noteq> Inl OutOfModel" "\<forall>ev. handler ev \<noteq> Some (Failed OutOfModel)"
  shows "if \<exists>ev. nats_decode H c (nd_data m) = Inr ev \<and> \<not> subject_token (twin_id ev)
    then \<exists>message. nats_process H server handler c now m (stats, acts)
        = (Inl (ProtocolViolation message),
           stats\<lparr>ns_received := Suc (ns_received stats), ns_malformed := Suc (ns_malformed stats)\<rparr>, acts)
    else fst (nats_process H server handler c now m (stats, acts)) = Inr ()"
  using unroutable_unsettled[OF _ make_consumer_ok[OF assms(1)], of H m server handler now stats acts]
    process_returns[OF make_consumer_ok[OF assms(1)] assms(2) _ assms(3,4), of now "(stats, acts)"]
  unfolding unroutable_def by (cases stats) auto

text \<open>The property at a concrete input.\<close>

theorem only_unroutable_deliveries_stay_unsettled_witness:
  "fst (nats_process ex_digest (\<lambda>_. Inr ()) (\<lambda>_. None) (ex_consumer 1024) 0 \<lparr>nd_subject = ''s'', nd_data = [], nd_num_delivered = None\<rparr>
      (no_stats, [])) = Inr ()"
proof -
  have bad: "nats_decode ex_digest (ex_consumer 1024) [] = protocol_error ''NATS event is invalid JSON''"
    by (simp add: nats_decode_def ex_consumer_def read_json_def decode_text_def loads_with_def skip_ws_def instead_def protocol_error_def)
  have "make_consumer ''acme'' ''graph'' 5 1 1024 = Inr (ex_consumer 1024)" by (rule ex_consumer_made) simp
  from only_unroutable_deliveries_stay_unsettled[OF this, of "\<lambda>_. Inr ()" ex_digest
      "\<lparr>nd_subject = ''s'', nd_data = [], nd_num_delivered = None\<rparr>" "\<lambda>_. None" 0 no_stats "[]"] bad
  show ?thesis by (simp add: protocol_error_def)
qed

text \<open>C36. Whatever text is accepted as a golden replay, its events are numbered from one, verify against the hash
  before them, are each written by a role that owns their type, and \<open>replay_events\<close> folds them as
  the checked replay of the aggregate does. A chained list of such events, written out as a document, is
  loaded as the ledger would return it.\<close>

theorem golden_replay_is_verified:
  "(\<forall>source evs expected. load_golden_replay H source = Inr (evs, expected) \<longrightarrow>
      evs \<noteq> []
      \<and> (\<forall>i < length evs. sequence (evs ! i) = 1 + int i
            \<and> verify H (evs ! i) (case i of 0 \<Rightarrow> [] | Suc j \<Rightarrow> event_hash (evs ! j)) = Inr ()
            \<and> producer (evs ! i) \<noteq> [] \<and> owns (producer_role (evs ! i)) (event_type (evs ! i)))
      \<and> replay_events evs = replay H None evs (init_state (twin_id (hd evs))) [])
    \<and> (\<forall>evs expected. chain_ok H [] 1 evs \<and> evs \<noteq> [] \<and> jsonable (PDict expected)
        \<and> (\<forall>ev \<in> set evs. json_event ev \<and> storable ev \<and> producer ev \<noteq> [] \<and> owns (producer_role ev) (event_type ev)) \<longrightarrow>
      load_golden_replay H (dumps (PDict [(''events'', PList (map (\<lambda>ev. PDict (event_val ev)) evs)), (''expected_state'', PDict expected),
          (''fixture_version'', PStr ''argo.dt.fixture/v1'')])) = Inr (map persisted evs, expected))"
proof (intro conjI allI impI)
  fix source evs expected
  assume "load_golden_replay H source = Inr (evs, expected)"
  then have g: "evs \<noteq> []" "check_golden H 1 [] evs = Inr ()" using load_golden_Inr by blast+
  then show "evs \<noteq> []" "replay_events evs = replay H None evs (init_state (twin_id (hd evs))) []"
    using replay_events_verified by blast+
  fix i
  assume "i < length evs"
  then show "sequence (evs ! i) = 1 + int i"
    "verify H (evs ! i) (case i of 0 \<Rightarrow> [] | Suc j \<Rightarrow> event_hash (evs ! j)) = Inr ()"
    "producer (evs ! i) \<noteq> []" "owns (producer_role (evs ! i)) (event_type (evs ! i))"
    using g(2) unfolding check_golden_iff written_by_owner_def hash_before_def by blast+
next
  fix evs expected
  assume "chain_ok H [] 1 evs \<and> evs \<noteq> [] \<and> jsonable (PDict expected)
        \<and> (\<forall>ev \<in> set evs. json_event ev \<and> storable ev \<and> producer ev \<noteq> [] \<and> owns (producer_role ev) (event_type ev))"
  then show "load_golden_replay H (dumps (PDict [(''events'', PList (map (\<lambda>ev. PDict (event_val ev)) evs)), (''expected_state'', PDict expected),
          (''fixture_version'', PStr ''argo.dt.fixture/v1'')])) = Inr (map persisted evs, expected)"
    using golden_roundtrip[of H evs expected] unfolding golden_document_def written_by_owner_def by blast
qed

text \<open>The property at a concrete input.\<close>

theorem golden_replay_is_verified_witness:
  "\<exists>ev. load_golden_replay ex_digest (dumps (PDict [(''events'', PList [PDict (event_val ev)]), (''expected_state'', PDict []),
      (''fixture_version'', PStr ''argo.dt.fixture/v1'')])) = Inr ([persisted ev], []) \<and> verify ex_digest ev [] = Inr ()"
proof -
  obtain ev where e: "seal ex_digest ex_event 1 [] (utc 7) = Inr ev" "json_event ev" "storable ev" using ex_sent by blast
  note f = seal_fields[OF e(1)]
  have "verify ex_digest ev [] = Inr ()" by (rule seal_Inr(1)[OF e(1)])
  moreover have "chain_ok ex_digest [] 1 [ev]" using f calculation ex_plain by (simp add: ex_event_def)
  moreover have "owns (producer_role ev) (event_type ev)" "producer ev \<noteq> []" using f by (simp_all add: ex_event_def owns_def EVENT_OWNERS_def)
  moreover have "jsonable (PDict [])" by (simp add: wf_dict_def)
  ultimately show ?thesis
    using conjunct2[OF golden_replay_is_verified[of ex_digest], rule_format, of "[ev]" "[]"] e(2,3) by (intro exI[of _ ev]) simp
qed

text \<open>C37. A connection that opens was opened by an actor that may stream the twin. In any interleaving of its receiving task,
  its delivering task and its main loop with writers and publications, what was sent is what the handshake sent, then
  event and heartbeat frames, then nothing, or one close frame with its close message. The event frames report the
  events of the requested types and planes in the stream of the ledger, from its beginning where no
  token was given, in order, without a gap or a repetition, each with a token for its own position; and a connection
  that ended has closed its subscription.\<close>

theorem websocket_delivers_stream:
  assumes "ws_open H cf limits (Some (signer_ops mac cs)) max_bytes now twin p message outs sv = (Inr c, sv1)"
    and "ws_run H (signer_ops mac cs) max_bytes (c, sv1) (c', sv')"
    and "service_ok H cf sv" "hex_digest H" "limits_ok limits"
  shows "may_stream H (sv_db sv) (ap_actor p) twin
    \<and> (\<exists>m token types projection n start items closing k. message = Some m
        \<and> decode_asgi max_bytes now m = Inr (SubscribeControl token types projection n) \<and> (token = None \<longrightarrow> start = 0)
        \<and> wc_sent c' = outs @ map (\<lambda>i. WsSend (dumps (case i of Inl f \<Rightarrow> frame_dict f | Inr b \<Rightarrow> heartbeat_dict b))) items @ closing
        \<and> list_all2 (\<lambda>ev f. \<exists>issued. f = frame_from_event ev (signer_issue mac cs issued (pos_of ev)))
            (take k (filter (\<lambda>ev. (types = [] \<or> event_type ev \<in> set types) \<and> (plane ev = AUTHORITATIVE \<or> projection \<and> plane ev = PROJECTION))
              (drop start (stream (sv_db sv') twin))))
            [f. Inl f \<leftarrow> items]
        \<and> (closing = [] \<or> (\<exists>code reason frame. closing = [WsSend (dumps (close_dict frame)), WsClose code reason]
            \<and> cf_twin_id frame = twin \<and> cf_code frame = code \<and> cf_reason frame = reason \<and> 1000 \<le> code \<and> code \<le> 4999))
        \<and> (wc_end c' = None \<longrightarrow> closing = []) \<and> (wc_end c' \<noteq> None \<longrightarrow> ds_closed (wc_sub c')))"
proof -
  obtain m token types projection n d where o: "message = Some m"
    "decode_asgi max_bytes now m = Inr (SubscribeControl token types projection n)"
    "open_state_stream H cf limits (Some (signer_ops mac cs)) now twin (ap_actor p) token types projection
       (case n of None \<Rightarrow> PNone | Some k \<Rightarrow> PInt k) sv = (Inr d, sv1)"
    "c = \<lparr>wc_sub = d, wc_receiver = Receiving, wc_next = Awaiting, wc_sent = outs, wc_end = None\<rparr>"
    by (rule ws_open_Inr[OF assms(1)])
  from signer.ws_open_inv[OF signer_ops_def o(3) assms(3-5) o(4)] obtain start where
    may: "may_stream H (sv_db sv) (ap_actor p) twin" and start: "token = None \<longrightarrow> start = 0" and
    inv: "ws_inv H (signer_ops mac cs) twin start
      (\<lambda>ev. (types = [] \<or> event_type ev \<in> set types) \<and> (plane ev = AUTHORITATIVE \<or> projection \<and> plane ev = PROJECTION)) outs (c, sv1)"
    by blast
  note sent = ws_inv_sent[OF connection_inv[OF assms(2) inv signer_issue_nonempty],
      unfolded item_dict_def frames_of_inl reports_def[abs_def] closing_ok_def signer_ops_simps]
  from sent show ?thesis
  proof (elim exE conjE, goal_cases)
    case (1 items closing k)
    show ?case
      by (intro conjI exI[of _ m] exI[of _ token] exI[of _ types] exI[of _ projection] exI[of _ n] exI[of _ start] exI[of _ items]
          exI[of _ closing] exI[of _ k]) (rule may o(1,2) start 1)+
  qed
qed

text \<open>The property at a concrete input.\<close>

theorem websocket_delivers_stream_witness:
  "\<exists>c sv c' sv'. ws_open ex_hex ex_config ex_limits (Some (signer_ops ex_mac ex_signer)) 16384 5 ''t'' ex_principal (Some ex_first)
      [WsAccept ws_subprotocol] ex_service = (Inr c, sv)
    \<and> ws_wake (signer_ops ex_mac ex_signer) 6 (c, sv) = (c', sv') \<and> (\<exists>more. wc_sent c' = WsAccept ws_subprotocol # more)"
proof -
  obtain c sv where o: "ws_open ex_hex ex_config ex_limits (Some (signer_ops ex_mac ex_signer)) 16384 5 ''t'' ex_principal (Some ex_first)
      [WsAccept ws_subprotocol] ex_service = (Inr c, sv)" using ex_opened by blast
  obtain c' sv' where w: "ws_wake (signer_ops ex_mac ex_signer) 6 (c, sv) = (c', sv')" by (metis prod.exhaust)
  have "ws_run ex_hex (signer_ops ex_mac ex_signer) 16384 (c, sv) (c', sv')"
    using ws_run_wake[OF ws_start, of ex_hex "signer_ops ex_mac ex_signer" 16384 "(c, sv)" 6] w by simp
  from websocket_delivers_stream[OF o this ex_service_ok ex_hex_digest make_limits_ok[OF ex_limits_made]] o w show ?thesis by auto
qed



text \<open>C39. Whatever bytes are decoded as a control frame, the frame is within the bounds of the protocol: at most 64
  distinct event types of 1 to 128 characters, tokens of 32 to 2048, a positive window, a heartbeat at most five
  minutes ahead, a close code from 1000 to 4999 with at most 256 characters of reason. And each such frame, written as
  JSON within the byte limit, is read back as itself.\<close>

theorem control_frames_are_bounded:
  "(\<forall>raw c. ws_decode max_bytes now raw = Inr c \<longrightarrow> int (length raw) \<le> max_bytes \<and> (case c of
      SubscribeControl token types projection n \<Rightarrow>
        (\<forall>s. token = Some s \<longrightarrow> 32 \<le> length s \<and> length s \<le> 2048) \<and> distinct types \<and> length types \<le> 64
        \<and> (\<forall>s \<in> set types. 1 \<le> length s \<and> length s \<le> 128) \<and> (\<forall>k. n = Some k \<longrightarrow> 1 \<le> k)
    | AcknowledgeControl s \<Rightarrow> 32 \<le> length s \<and> length s \<le> 2048
    | HeartbeatControl t \<Rightarrow> \<not> naive t \<and> instant t \<le> now + 300000000
    | ClientCloseControl code reason \<Rightarrow> 1000 \<le> code \<and> code \<le> 4999 \<and> length reason \<le> 256))
    \<and> (\<forall>c. control_ok now c \<and> (\<forall>t. c = HeartbeatControl t \<longrightarrow> valid_dt t \<and> astimezone_utc t = t)
        \<and> int (utf8_len (dumps (PDict (control_dict c)))) \<le> max_bytes \<longrightarrow>
      ws_decode max_bytes now (utf8_encode (dumps (PDict (control_dict c)))) = Inr c)"
proof (intro conjI allI impI)
  fix raw c
  assume "ws_decode max_bytes now raw = Inr c"
  note ok = ws_decode_ok[OF this]
  show "int (length raw) \<le> max_bytes" using ok by blast
  show "case c of
      SubscribeControl token types projection n \<Rightarrow>
        (\<forall>s. token = Some s \<longrightarrow> 32 \<le> length s \<and> length s \<le> 2048) \<and> distinct types \<and> length types \<le> 64
        \<and> (\<forall>s \<in> set types. 1 \<le> length s \<and> length s \<le> 128) \<and> (\<forall>k. n = Some k \<longrightarrow> 1 \<le> k)
    | AcknowledgeControl s \<Rightarrow> 32 \<le> length s \<and> length s \<le> 2048
    | HeartbeatControl t \<Rightarrow> \<not> naive t \<and> instant t \<le> now + 300000000
    | ClientCloseControl code reason \<Rightarrow> 1000 \<le> code \<and> code \<le> 4999 \<and> length reason \<le> 256"
    using ok by (cases c) (simp_all add: resume_token_ok_def clock_skew_def)
next
  fix c
  assume "control_ok now c \<and> (\<forall>t. c = HeartbeatControl t \<longrightarrow> valid_dt t \<and> astimezone_utc t = t)
        \<and> int (utf8_len (dumps (PDict (control_dict c)))) \<le> max_bytes"
  then show "ws_decode max_bytes now (utf8_encode (dumps (PDict (control_dict c)))) = Inr c" using ws_decode_roundtrip[of now c max_bytes] by blast
qed

text \<open>The property at a concrete input.\<close>

theorem control_frames_are_bounded_witness:
  "ws_decode 16384 5 (utf8_encode (dumps (PDict (control_dict (SubscribeControl None [] False None))))) = Inr (SubscribeControl None [] False None)"
  using conjunct2[OF control_frames_are_bounded[of 16384 5], rule_format, of ex_subscribe] ex_subscribe_short
  by (simp add: ex_subscribe_def del: control_dict.simps)

text \<open>C40. Over any sequence of exports of counters that only grow, the sum of what was added to each OpenTelemetry counter is
  the value of its metric at the last export: nothing is counted twice or lost. Every addition is positive and carries the
  configured attributes, whose names are of the fixed allow-list and whose values are short non-empty texts.\<close>

theorem otel_counts_exactly:
  assumes "make_exporter supplied = Inr ox" "sorted_wrt grown (ms @ [m])" "otel_exports (ms @ [m]) (ox, []) = (ox', added)"
  shows "(\<forall>(key, name) \<in> set counter_names. sum_list (map (\<lambda>(n, amount, as). if n = name then amount else 0) added)
      = the (map_of (metrics_snapshot m) key))
    \<and> (\<forall>(n, amount, as) \<in> set added. 0 < amount \<and> as = supplied \<and> fst ` set as \<subseteq> allowed_attributes
        \<and> (\<forall>(k, v) \<in> set as. \<exists>s. v = PStr s \<and> s \<noteq> [] \<and> length s \<le> 128))"
proof -
  have "ox_attributes ox = supplied" using assms(1) by (auto simp: make_exporter_def split: if_splits)
  note made = make_exporter_Inr[OF assms(1), unfolded this]
  have short: "\<exists>s. v = PStr s \<and> s \<noteq> [] \<and> length s \<le> 128" if "short_text v" for v using that by (cases v) auto
  have law: "exported (Some m) (ox', added)" "\<forall>(n, amount, as) \<in> set added. as = supplied \<and> 0 < amount"
    using otel_exports_law[of None "(ox, [])" "ms @ [m]"] made(1) assms(2,3) \<open>ox_attributes ox = supplied\<close> by auto
  show ?thesis using law made(2,3) short
    by (auto simp: exported_def added_to_def[symmetric] metric_of_def[symmetric]) fastforce+
qed

text \<open>The property at a concrete input.\<close>

theorem otel_counts_exactly_witness:
  "\<exists>ox ox' added. make_exporter [(''service.name'', PStr ''argo'')] = Inr ox
    \<and> otel_exports ([ex_metrics 2] @ [ex_metrics 5]) (ox, []) = (ox', added)
    \<and> sum_list (map (\<lambda>(n, amount, as). if n = ''argo.dt.sync.events.replayed'' then amount else 0) added) = 5"
proof -
  obtain ox where x: "make_exporter [(''service.name'', PStr ''argo'')] = Inr ox"
    by (simp add: make_exporter_def allowed_attributes_def)
  obtain ox' added where e: "otel_exports ([ex_metrics 2] @ [ex_metrics 5]) (ox, []) = (ox', added)" by (metis prod.exhaust)
  have "sorted_wrt grown ([ex_metrics 2] @ [ex_metrics 5])" using ex_metrics_grow[of 2 5] by simp
  moreover have "(''replayed_events'', ''argo.dt.sync.events.replayed'') \<in> set counter_names" by (simp add: counter_names_def)
  moreover have "the (map_of (metrics_snapshot (ex_metrics 5)) ''replayed_events'') = 5" by (simp add: metrics_snapshot_def ex_metrics_def)
  ultimately show ?thesis using conjunct1[OF otel_counts_exactly[OF x _ e]] x e by fastforce
qed

end
